(* ===== verification/Py_Prelude.thy ===== *)
theory Py_Prelude
  imports Main "HOL-Library.Word" "HOL-Library.List_Lexorder" "HOL-Library.Sublist"
begin

text \<open>
  The part of Python every component of the c2-engine uses: text as lists of code points,
  byte strings, exceptions as values, ordered dictionaries, the string methods, and the generic
  lemmas on them.

  A Python \<^verbatim>\<open>str\<close> is the list of its code points (\<open>pystr\<close>); \<open>u ''abc''\<close> is the
  literal \<^verbatim>\<open>"abc"\<close>.  A \<^verbatim>\<open>bytes\<close> object is a list of 8-bit words.  An operation that
  can raise returns \<open>pyerr + 'a\<close>, with \<open>Inl\<close> for the exception.  The tables of the Unicode
  character database and the digests of hashlib, which Python takes from generated data and from
  a C library, are the fields of the record \<open>ext\<close> that the definitions using them take as an
  argument; on ASCII text nothing depends on the tables.
\<close>

section \<open>Collections of rules\<close>

named_theorems py_eval "equations that evaluate the model on closed terms"
named_theorems dict_simps "laws of ordered dictionaries"
named_theorems stage_frame "what an operation leaves unchanged"

section \<open>Types\<close>

type_synonym pystr = "int list"
type_synonym byte = "8 word"
type_synonym bytes = "byte list"

definition u :: "string \<Rightarrow> pystr" where
  "u s = map of_char s"

lemma inj_of_char_int: "inj (of_char :: char \<Rightarrow> int)"
  by (rule inj_of_char)

lemma u_eq_iff [simp]: "u s = u t \<longleftrightarrow> s = t"
  by (simp add: u_def inj_map_eq_map inj_of_char_int)

lemma u_Nil [simp]: "u [] = []"
  by (simp add: u_def)

lemma u_eq_Nil [simp]: "u s = [] \<longleftrightarrow> s = []" "[] = u s \<longleftrightarrow> s = []"
  by (auto simp: u_def)

lemma length_u [simp]: "length (u s) = length s"
  by (simp add: u_def)

declare u_def [py_eval]

section \<open>Exceptions\<close>

datatype pyerr =
    ValueError | IndexError | KeyError | TypeError | AttributeError
  | UnicodeDecodeError | UnicodeEncodeError
  | HTTPError int | URLError | TimeoutError | RuntimeError | OSError
  | ValidationError | MsgpackError | CsvError
  | StructError | AssertionError | CannotListenError

type_synonym 'a res = "pyerr + 'a"

definition rbind :: "'e + 'a \<Rightarrow> ('a \<Rightarrow> 'e + 'b) \<Rightarrow> 'e + 'b" where
  "rbind m f = (case m of Inl e \<Rightarrow> Inl e | Inr x \<Rightarrow> f x)"

lemma rbind_simps [simp]: "rbind (Inl e) f = Inl e" "rbind (Inr x) f = f x"
  by (simp_all add: rbind_def)

lemma rbind_eq_Inr: "rbind m f = Inr y \<longleftrightarrow> (\<exists>x. m = Inr x \<and> f x = Inr y)"
  by (cases m) auto

lemma rbind_ex_Inr: "(\<exists>y. rbind m f = Inr y) \<longleftrightarrow> (\<exists>x. m = Inr x \<and> (\<exists>y. f x = Inr y))"
  by (cases m) auto

lemma rbind_eq_Inl: "rbind m f = Inl e \<longleftrightarrow> m = Inl e \<or> (\<exists>x. m = Inr x \<and> f x = Inl e)"
  by (cases m) auto

text \<open>A computation that returns, with a result that satisfies a predicate.\<close>

definition res_ok :: "('a \<Rightarrow> bool) \<Rightarrow> 'e + 'a \<Rightarrow> bool" where
  "res_ok P m \<longleftrightarrow> (case m of Inl _ \<Rightarrow> False | Inr x \<Rightarrow> P x)"

lemma res_ok_iff: "res_ok P m \<longleftrightarrow> (\<exists>x. m = Inr x \<and> P x)"
  by (cases m) (auto simp: res_ok_def)

lemma res_okE: "res_ok P m \<Longrightarrow> (\<And>x. m = Inr x \<Longrightarrow> P x \<Longrightarrow> thesis) \<Longrightarrow> thesis"
  by (auto simp: res_ok_iff)

text \<open>A loop whose body may raise: the first exception ends it.\<close>

fun rmap :: "('a \<Rightarrow> 'e + 'b) \<Rightarrow> 'a list \<Rightarrow> 'e + 'b list" where
  "rmap f [] = Inr []"
| "rmap f (x # xs) = rbind (f x) (\<lambda>y. rbind (rmap f xs) (\<lambda>ys. Inr (y # ys)))"

lemma rmap_Inr_iff: "rmap f xs = Inr ys \<longleftrightarrow> list_all2 (\<lambda>x y. f x = Inr y) xs ys"
  by (induction xs arbitrary: ys) (auto simp: rbind_eq_Inr list_all2_Cons1)

lemma rmap_total: "(\<And>x. x \<in> set xs \<Longrightarrow> f x = Inr (g x)) \<Longrightarrow> rmap f xs = Inr (map g xs)"
  by (induction xs) auto

lemma rmap_ex: "(\<exists>ys. rmap f xs = Inr ys) \<longleftrightarrow> list_all (\<lambda>x. \<exists>y. f x = Inr y) xs"
  by (induction xs) (auto simp: rbind_eq_Inr)

lemma rmap_mem:
  assumes "rmap f xs = Inr ys" "y \<in> set ys"
  shows "\<exists>x \<in> set xs. f x = Inr y"
proof -
  from assms(1) have "list_all2 (\<lambda>x y. f x = Inr y) xs ys"
    by (simp add: rmap_Inr_iff)
  then show ?thesis using assms(2) by (induction rule: list_all2_induct) auto
qed

lemma rmap_length: "rmap f xs = Inr ys \<Longrightarrow> length ys = length xs"
  by (auto simp: rmap_Inr_iff list_all2_lengthD)

section \<open>External tables and digests\<close>

record ext =
  uc_alnum :: "int \<Rightarrow> bool"            \<comment> \<open>str.isalnum of one character beyond ASCII\<close>
  uc_decimal :: "int \<Rightarrow> int option"    \<comment> \<open>the value of a decimal digit beyond ASCII\<close>
  uc_digit :: "int \<Rightarrow> bool"            \<comment> \<open>str.isdigit of one character beyond ASCII that is not decimal\<close>
  uc_fold :: "int \<Rightarrow> int"              \<comment> \<open>simple case folding beyond ASCII\<close>
  uc_lower :: "pystr \<Rightarrow> pystr"         \<comment> \<open>str.lower of text that is not all ASCII\<close>
  uc_upper :: "pystr \<Rightarrow> pystr"
  uc_nfkc_bad :: "pystr \<Rightarrow> bool"       \<comment> \<open>a netloc whose NFKC form has one of the characters /?#@:\<close>
  h_sha1 :: "bytes \<Rightarrow> pystr"           \<comment> \<open>hexdigest\<close>
  h_sha256 :: "bytes \<Rightarrow> pystr"
  h_md5 :: "bytes \<Rightarrow> pystr"

text \<open>
  An instance for concrete inputs: no character beyond ASCII is alphanumeric, a digit or has a
  case, and a digest is the text of its input behind the name of the algorithm.
\<close>

definition ascii_ext :: ext where
  "ascii_ext = \<lparr>uc_alnum = (\<lambda>_. False), uc_decimal = (\<lambda>_. None), uc_digit = (\<lambda>_. False), uc_fold = (\<lambda>c. c),
     uc_lower = (\<lambda>s. s), uc_upper = (\<lambda>s. s), uc_nfkc_bad = (\<lambda>_. False),
     h_sha1 = (\<lambda>bs. u ''sha1:'' @ map uint bs), h_sha256 = (\<lambda>bs. u ''sha256:'' @ map uint bs),
     h_md5 = (\<lambda>bs. u ''md5:'' @ map uint bs)\<rparr>"

declare ascii_ext_def [py_eval]

section \<open>Characters\<close>

abbreviation chr :: "char \<Rightarrow> int" where
  "chr \<equiv> of_char"

definition is_ascii :: "pystr \<Rightarrow> bool" where
  "is_ascii s \<longleftrightarrow> list_all (\<lambda>c. c < 128) s"

definition ascii_digit :: "int \<Rightarrow> bool" where
  "ascii_digit c \<longleftrightarrow> 48 \<le> c \<and> c \<le> 57"

definition ascii_upper :: "int \<Rightarrow> bool" where
  "ascii_upper c \<longleftrightarrow> 65 \<le> c \<and> c \<le> 90"

definition ascii_lower :: "int \<Rightarrow> bool" where
  "ascii_lower c \<longleftrightarrow> 97 \<le> c \<and> c \<le> 122"

definition to_lower :: "int \<Rightarrow> int" where
  "to_lower c = (if ascii_upper c then c + 32 else c)"

definition to_upper :: "int \<Rightarrow> int" where
  "to_upper c = (if ascii_lower c then c - 32 else c)"

lemmas ascii_defs [py_eval] = is_ascii_def ascii_digit_def ascii_upper_def ascii_lower_def
  to_lower_def to_upper_def

text \<open>The white space of \<^verbatim>\<open>str.strip\<close>, \<^verbatim>\<open>str.split\<close> and of \<^verbatim>\<open>\s\<close> in a text pattern.\<close>

definition py_isspace :: "int \<Rightarrow> bool" where
  "py_isspace c \<longleftrightarrow> (9 \<le> c \<and> c \<le> 13) \<or> (28 \<le> c \<and> c \<le> 32) \<or> c = 133 \<or> c = 160 \<or> c = 5760
     \<or> (8192 \<le> c \<and> c \<le> 8202) \<or> c = 8232 \<or> c = 8233 \<or> c = 8239 \<or> c = 8287 \<or> c = 12288"

definition is_decimal :: "('x) ext_scheme \<Rightarrow> int \<Rightarrow> bool" where
  "is_decimal E c \<longleftrightarrow> (if c < 128 then ascii_digit c else uc_decimal E c \<noteq> None)"

definition py_isdigit :: "('x) ext_scheme \<Rightarrow> pystr \<Rightarrow> bool" where
  "py_isdigit E s \<longleftrightarrow> s \<noteq> [] \<and> list_all (\<lambda>c. is_decimal E c \<or> 128 \<le> c \<and> uc_digit E c) s"

definition is_word :: "('x) ext_scheme \<Rightarrow> int \<Rightarrow> bool" where
  "is_word E c \<longleftrightarrow> (if c < 128 then ascii_digit c \<or> ascii_upper c \<or> ascii_lower c \<or> c = 95
                    else uc_alnum E c)"

definition fold_char :: "('x) ext_scheme \<Rightarrow> int \<Rightarrow> int" where
  "fold_char E c = (if c < 128 then to_lower c else uc_fold E c)"

declare py_isspace_def [py_eval] is_decimal_def [py_eval] py_isdigit_def [py_eval] is_word_def [py_eval]
  fold_char_def [py_eval]

section \<open>String methods\<close>

definition py_lower :: "('x) ext_scheme \<Rightarrow> pystr \<Rightarrow> pystr" where
  "py_lower E s = (if is_ascii s then map to_lower s else uc_lower E s)"

definition py_upper :: "('x) ext_scheme \<Rightarrow> pystr \<Rightarrow> pystr" where
  "py_upper E s = (if is_ascii s then map to_upper s else uc_upper E s)"

definition startswith :: "pystr \<Rightarrow> pystr \<Rightarrow> bool" where
  "startswith s p \<longleftrightarrow> take (length p) s = p"

definition endswith :: "pystr \<Rightarrow> pystr \<Rightarrow> bool" where
  "endswith s p \<longleftrightarrow> length p \<le> length s \<and> drop (length s - length p) s = p"

definition lstrip_if :: "(int \<Rightarrow> bool) \<Rightarrow> pystr \<Rightarrow> pystr" where
  "lstrip_if P s = dropWhile P s"

definition rstrip_if :: "(int \<Rightarrow> bool) \<Rightarrow> pystr \<Rightarrow> pystr" where
  "rstrip_if P s = rev (dropWhile P (rev s))"

definition py_strip :: "pystr \<Rightarrow> pystr" where
  "py_strip s = rstrip_if py_isspace (lstrip_if py_isspace s)"

text \<open>\<^verbatim>\<open>s.split(sep)\<close> for a one-character separator: always at least one piece.\<close>

fun split_on :: "int \<Rightarrow> pystr \<Rightarrow> pystr list" where
  "split_on c [] = [[]]"
| "split_on c (x # xs) =
     (if x = c then [] # split_on c xs
      else (case split_on c xs of [] \<Rightarrow> [[x]] | p # ps \<Rightarrow> (x # p) # ps))"

text \<open>\<^verbatim>\<open>s.split(c, 1)\<close> as the part before and, if the separator occurs, the part after.\<close>

fun split1 :: "int \<Rightarrow> pystr \<Rightarrow> pystr \<times> pystr option" where
  "split1 c [] = ([], None)"
| "split1 c (x # xs) = (if x = c then ([], Some xs) else (let (a, b) = split1 c xs in (x # a, b)))"

text \<open>\<^verbatim>\<open>s.rpartition(c)\<close>: what stands before the last separator, if there is one, and after it.\<close>

definition rsplit1 :: "int \<Rightarrow> pystr \<Rightarrow> pystr option \<times> pystr" where
  "rsplit1 c s = (let (a, b) = split1 c (rev s) in (map_option rev b, rev a))"

fun py_join :: "pystr \<Rightarrow> pystr list \<Rightarrow> pystr" where
  "py_join sep [] = []"
| "py_join sep [x] = x"
| "py_join sep (x # y # ys) = x @ sep @ py_join sep (y # ys)"

lemma split_on_notin: "c \<notin> set s \<Longrightarrow> split_on c s = [s]"
  by (induction s) auto

lemma split_on_append:
  "c \<notin> set s \<Longrightarrow> split_on c (s @ c # t) = s # split_on c t"
  by (induction s) auto

lemma split_on_join:
  "xs \<noteq> [] \<Longrightarrow> list_all (\<lambda>x. c \<notin> set x) xs \<Longrightarrow> split_on c (py_join [c] xs) = xs"
  by (induction "[c]" xs rule: py_join.induct) (auto simp: split_on_notin split_on_append)

lemma split1_append: "c \<notin> set s \<Longrightarrow> split1 c (s @ c # t) = (s, Some t)"
  by (induction s) auto

lemma split_on_members: "p \<in> set (split_on c s) \<Longrightarrow> c \<notin> set p"
  by (induction s arbitrary: p) (auto split: list.splits if_splits)

lemma split_on_nonempty [simp]: "split_on c s \<noteq> []"
  by (induction s) (auto split: list.split)

text \<open>\<^verbatim>\<open>s.split()\<close>: the maximal runs of characters that are not white space.\<close>

fun split_ws_aux :: "pystr \<Rightarrow> pystr \<Rightarrow> pystr list" where
  "split_ws_aux acc [] = (if acc = [] then [] else [rev acc])"
| "split_ws_aux acc (x # xs) =
     (if py_isspace x then (if acc = [] then split_ws_aux [] xs else rev acc # split_ws_aux [] xs)
      else split_ws_aux (x # acc) xs)"

definition py_split :: "pystr \<Rightarrow> pystr list" where
  "py_split s = split_ws_aux [] s"

text \<open>\<^verbatim>\<open>s.splitlines()\<close>.\<close>

definition is_linebreak :: "int \<Rightarrow> bool" where
  "is_linebreak c \<longleftrightarrow> (10 \<le> c \<and> c \<le> 13) \<or> (28 \<le> c \<and> c \<le> 30) \<or> c = 133 \<or> c = 8232 \<or> c = 8233"

fun splitlines_aux :: "pystr \<Rightarrow> pystr \<Rightarrow> pystr list" where
  "splitlines_aux acc [] = (if acc = [] then [] else [rev acc])"
| "splitlines_aux acc [x] = (if is_linebreak x then [rev acc] else [rev (x # acc)])"
| "splitlines_aux acc (x # y # ys) =
     (if x = 13 \<and> y = 10 then rev acc # splitlines_aux [] ys
      else if is_linebreak x then rev acc # splitlines_aux [] (y # ys)
      else splitlines_aux (x # acc) (y # ys))"

definition splitlines :: "pystr \<Rightarrow> pystr list" where
  "splitlines s = splitlines_aux [] s"

definition replace_char :: "int \<Rightarrow> pystr \<Rightarrow> pystr \<Rightarrow> pystr" where
  "replace_char c r s = concat (map (\<lambda>x. if x = c then r else [x]) s)"

text \<open>\<^verbatim>\<open>str(n)\<close> of a natural number.\<close>

fun dec_digits :: "nat \<Rightarrow> pystr" where
  "dec_digits n = (if n < 10 then [48 + int n] else dec_digits (n div 10) @ [48 + int (n mod 10)])"

declare dec_digits.simps [simp del]

text \<open>\<^verbatim>\<open>os.path.join\<close> of two parts.\<close>

definition path_join :: "pystr \<Rightarrow> pystr \<Rightarrow> pystr" where
  "path_join d name =
     (if startswith name (u ''/'') then name
      else if d = [] \<or> endswith d (u ''/'') then d @ name else d @ u ''/'' @ name)"

text \<open>A hexadecimal digest is a plain file name.\<close>

definition digests_plain :: "('x) ext_scheme \<Rightarrow> bool" where
  "digests_plain E \<longleftrightarrow> (\<forall>bs. \<not> startswith (h_sha256 E bs) (u ''/''))"

lemma path_join_inject:
  assumes "path_join d a = path_join d b" "\<not> startswith a (u ''/'')" "\<not> startswith b (u ''/'')"
  shows "a = b"
  using assms by (simp add: path_join_def split: if_splits)

lemmas str_defs [py_eval] = py_lower_def py_upper_def startswith_def endswith_def lstrip_if_def
  rstrip_if_def py_strip_def rsplit1_def py_split_def is_linebreak_def splitlines_def
  replace_char_def dec_digits.simps

end
