(* ===== verification/Py_Regex.thy ===== *)
theory Py_Regex
  imports Py_Prelude
begin

text \<open>
  The matcher of Python's \<^verbatim>\<open>re\<close> module, for the constructs the repository's patterns use:
  character classes, sequence, alternation, greedy and lazy bounded repetition, groups, word
  boundaries and the two anchors.  \<open>rxm\<close> is the backtracking matcher, in continuation-passing
  form, that the executable models run; \<open>rxs\<close> lists all the ways to match in the order of
  preference and is the reference the proofs use.  \<open>rxm_rxs\<close> says that the matcher returns the
  first of them that the continuation accepts.
\<close>

section \<open>Syntax\<close>

datatype citem = One int | Rng int int | Digit | Space | Word
datatype cset = In "citem list" | NotIn "citem list" | AnyChar

datatype rx =
    REps
  | RChr cset
  | RSeq rx rx
  | RAlt rx rx
  | RRep nat "nat option" bool rx   \<comment> \<open>least, most, greedy\<close>
  | RGrp nat rx
  | RWordB
  | RBos
  | REos

text \<open>What a class means: for a \<^verbatim>\<open>str\<close> pattern it is Unicode's, for a \<^verbatim>\<open>bytes\<close> pattern ASCII's.\<close>

record cclass =
  k_digit :: "int \<Rightarrow> bool"
  k_space :: "int \<Rightarrow> bool"
  k_word :: "int \<Rightarrow> bool"
  k_fold :: "int \<Rightarrow> int"

definition str_class :: "('x) ext_scheme \<Rightarrow> cclass" where
  "str_class E = \<lparr>k_digit = is_decimal E, k_space = py_isspace, k_word = is_word E,
                  k_fold = fold_char E\<rparr>"

definition bytes_class :: cclass where
  "bytes_class = \<lparr>k_digit = ascii_digit, k_space = (\<lambda>c. (9 \<le> c \<and> c \<le> 13) \<or> c = 32),
     k_word = (\<lambda>c. ascii_digit c \<or> ascii_upper c \<or> ascii_lower c \<or> c = 95),
     k_fold = to_lower\<rparr>"

fun item_mem :: "cclass \<Rightarrow> bool \<Rightarrow> int \<Rightarrow> citem \<Rightarrow> bool" where
  "item_mem K ic c (One x) = (c = x \<or> (ic \<and> k_fold K c = k_fold K x))"
| "item_mem K ic c (Rng a b) =
     ((a \<le> c \<and> c \<le> b) \<or>
      (ic \<and> (let f = k_fold K c; g = to_upper f in (a \<le> f \<and> f \<le> b) \<or> (a \<le> g \<and> g \<le> b))))"
| "item_mem K ic c Digit = k_digit K c"
| "item_mem K ic c Space = k_space K c"
| "item_mem K ic c Word = k_word K c"

fun cset_mem :: "cclass \<Rightarrow> bool \<Rightarrow> int \<Rightarrow> cset \<Rightarrow> bool" where
  "cset_mem K ic c (In is) = list_ex (item_mem K ic c) is"
| "cset_mem K ic c (NotIn is) = (\<not> list_ex (item_mem K ic c) is)"
| "cset_mem K ic c AnyChar = True"

section \<open>Matching\<close>

text \<open>
  A position in the text: the character before it, the text after it, and what the groups have
  captured so far (the latest capture of a group first).
\<close>

record pos =
  p_prev :: "int option"
  p_rest :: pystr
  p_grps :: "(nat \<times> pystr) list"

definition word_at :: "cclass \<Rightarrow> int option \<Rightarrow> bool" where
  "word_at K c = (case c of None \<Rightarrow> False | Some x \<Rightarrow> k_word K x)"

definition next_char :: "pos \<Rightarrow> int option" where
  "next_char p = (case p_rest p of [] \<Rightarrow> None | c # _ \<Rightarrow> Some c)"

definition at_boundary :: "cclass \<Rightarrow> pos \<Rightarrow> bool" where
  "at_boundary K p \<longleftrightarrow> word_at K (p_prev p) \<noteq> word_at K (next_char p)"

definition at_end :: "pos \<Rightarrow> bool" where
  "at_end p \<longleftrightarrow> p_rest p = [] \<or> p_rest p = [10]"

definition advance :: "int \<Rightarrow> pystr \<Rightarrow> pos \<Rightarrow> pos" where
  "advance c r p = p\<lparr>p_prev := Some c, p_rest := r\<rparr>"

definition capture :: "nat \<Rightarrow> pos \<Rightarrow> pos \<Rightarrow> pos" where
  "capture n p q =
     q\<lparr>p_grps := (n, take (length (p_rest p) - length (p_rest q)) (p_rest p)) # p_grps q\<rparr>"

definition dec :: "nat option \<Rightarrow> nat option" where
  "dec h = map_option (\<lambda>n. n - 1) h"

text \<open>
  Repetition, given the matcher \<open>f\<close> of the body.  The fuel is the length of the text plus the
  least count: after the obligatory rounds each further round must consume a character.
\<close>

fun rep :: "nat \<Rightarrow> nat \<Rightarrow> nat option \<Rightarrow> bool \<Rightarrow> (pos \<Rightarrow> (pos \<Rightarrow> 'r option) \<Rightarrow> 'r option)
            \<Rightarrow> pos \<Rightarrow> (pos \<Rightarrow> 'r option) \<Rightarrow> 'r option" where
  "rep 0 lo hi g f p k = (if lo = 0 then k p else None)"
| "rep (Suc n) lo hi g f p k =
     (if 0 < lo then f p (\<lambda>q. rep n (lo - 1) (dec hi) g f q k)
      else if hi = Some 0 then k p
      else if g then
        (case f p (\<lambda>q. if length (p_rest q) < length (p_rest p)
                       then rep n 0 (dec hi) g f q k else None) of
           Some r \<Rightarrow> Some r | None \<Rightarrow> k p)
      else
        (case k p of Some r \<Rightarrow> Some r
         | None \<Rightarrow> f p (\<lambda>q. if length (p_rest q) < length (p_rest p)
                            then rep n 0 (dec hi) g f q k else None)))"

primrec rxm :: "cclass \<Rightarrow> bool \<Rightarrow> rx \<Rightarrow> pos \<Rightarrow> (pos \<Rightarrow> 'r option) \<Rightarrow> 'r option" where
  "rxm K ic REps p k = k p"
| "rxm K ic (RChr cs) p k =
     (case p_rest p of [] \<Rightarrow> None
      | c # r \<Rightarrow> if cset_mem K ic c cs then k (advance c r p) else None)"
| "rxm K ic (RSeq a b) p k = rxm K ic a p (\<lambda>q. rxm K ic b q k)"
| "rxm K ic (RAlt a b) p k = (case rxm K ic a p k of Some r \<Rightarrow> Some r | None \<Rightarrow> rxm K ic b p k)"
| "rxm K ic (RRep lo hi g r) p k = rep (lo + length (p_rest p)) lo hi g (rxm K ic r) p k"
| "rxm K ic (RGrp n r) p k = rxm K ic r p (\<lambda>q. k (capture n p q))"
| "rxm K ic RWordB p k = (if at_boundary K p then k p else None)"
| "rxm K ic RBos p k = (if p_prev p = None then k p else None)"
| "rxm K ic REos p k = (if at_end p then k p else None)"

section \<open>The reference: all matches in the order of preference\<close>

fun reps :: "nat \<Rightarrow> nat \<Rightarrow> nat option \<Rightarrow> bool \<Rightarrow> (pos \<Rightarrow> pos list) \<Rightarrow> pos \<Rightarrow> pos list" where
  "reps 0 lo hi g f p = (if lo = 0 then [p] else [])"
| "reps (Suc n) lo hi g f p =
     (if 0 < lo then concat (map (reps n (lo - 1) (dec hi) g f) (f p))
      else if hi = Some 0 then [p]
      else
        (let more = concat (map (reps n 0 (dec hi) g f)
                      (filter (\<lambda>q. length (p_rest q) < length (p_rest p)) (f p)))
         in if g then more @ [p] else p # more))"

primrec rxs :: "cclass \<Rightarrow> bool \<Rightarrow> rx \<Rightarrow> pos \<Rightarrow> pos list" where
  "rxs K ic REps p = [p]"
| "rxs K ic (RChr cs) p =
     (case p_rest p of [] \<Rightarrow> []
      | c # r \<Rightarrow> if cset_mem K ic c cs then [advance c r p] else [])"
| "rxs K ic (RSeq a b) p = concat (map (rxs K ic b) (rxs K ic a p))"
| "rxs K ic (RAlt a b) p = rxs K ic a p @ rxs K ic b p"
| "rxs K ic (RRep lo hi g r) p = reps (lo + length (p_rest p)) lo hi g (rxs K ic r) p"
| "rxs K ic (RGrp n r) p = map (capture n p) (rxs K ic r p)"
| "rxs K ic RWordB p = (if at_boundary K p then [p] else [])"
| "rxs K ic RBos p = (if p_prev p = None then [p] else [])"
| "rxs K ic REos p = (if at_end p then [p] else [])"

fun first_some :: "('a \<Rightarrow> 'r option) \<Rightarrow> 'a list \<Rightarrow> 'r option" where
  "first_some k [] = None"
| "first_some k (x # xs) = (case k x of Some r \<Rightarrow> Some r | None \<Rightarrow> first_some k xs)"

lemma first_some_append:
  "first_some k (xs @ ys) = (case first_some k xs of Some r \<Rightarrow> Some r | None \<Rightarrow> first_some k ys)"
  by (induction xs) (auto split: option.splits)

lemma first_some_concat:
  "first_some k (concat (map f xs)) = first_some (\<lambda>x. first_some k (f x)) xs"
  by (induction xs) (auto simp: first_some_append split: option.splits)

lemma first_some_map: "first_some k (map f xs) = first_some (\<lambda>x. k (f x)) xs"
  by (induction xs) (auto split: option.splits)

lemma first_some_filter:
  "first_some k (filter P xs) = first_some (\<lambda>x. if P x then k x else None) xs"
  by (induction xs) (auto split: option.splits)

lemma first_some_SomeD: "first_some k xs = Some r \<Longrightarrow> \<exists>x \<in> set xs. k x = Some r"
  by (induction xs) (auto split: option.splits)

lemma first_some_Some: "first_some Some xs = (case xs of [] \<Rightarrow> None | x # _ \<Rightarrow> Some x)"
  by (cases xs) auto

lemma rep_reps:
  assumes "\<And>p k. f p k = first_some k (f' p)"
  shows "rep n lo hi g f p k = first_some k (reps n lo hi g f' p)"
proof (induction n arbitrary: lo hi p)
  case (Suc n)
  then show ?case
    by (cases g; cases "lo = 0"; cases "k p")
      (simp_all add: assms first_some_concat first_some_append first_some_filter Let_def
        cong: if_cong split: option.split)
qed (simp split: option.split)

theorem rxm_rxs: "rxm K ic r p k = first_some k (rxs K ic r p)"
proof (induction r arbitrary: p k)
  case (RRep lo hi g r)
  show ?case
    by (simp add: rep_reps [of "rxm K ic r" "rxs K ic r", OF RRep.IH])
qed (simp_all add: first_some_concat first_some_append first_some_map split: list.split option.split)

section \<open>A match consumes a prefix of the text\<close>

lemma capture_rest [simp]: "p_rest (capture n p q) = p_rest q"
  by (simp add: capture_def)

lemma advance_rest [simp]: "p_rest (advance c r p) = r"
  by (simp add: advance_def)

lemma reps_suffix:
  assumes "\<And>p q. q \<in> set (f p) \<Longrightarrow> suffix (p_rest q) (p_rest p)"
  shows "q \<in> set (reps n lo hi g f p) \<Longrightarrow> suffix (p_rest q) (p_rest p)"
proof (induction n arbitrary: lo hi p)
  case (Suc n)
  then show ?case
    by (auto simp: Let_def split: if_splits dest!: assms intro: suffix_order.trans)
qed (auto split: if_splits)

lemma rxs_suffix: "q \<in> set (rxs K ic r p) \<Longrightarrow> suffix (p_rest q) (p_rest p)"
proof (induction r arbitrary: p q)
  case (RRep lo hi g r)
  show ?case
    using reps_suffix [of "rxs K ic r", OF RRep.IH] RRep.prems by simp
next
  case (RSeq a b)
  then show ?case by (fastforce intro: suffix_order.trans)
next
  case (RChr cs)
  then show ?case
    by (cases "p_rest p") (auto split: if_splits intro: suffix_ConsI)
qed (auto split: if_splits)

text \<open>
  The fuel of a repetition is never what ends it: any larger amount gives the same matches.
\<close>

lemma reps_more_fuel:
  assumes "\<And>p q. q \<in> set (f p) \<Longrightarrow> suffix (p_rest q) (p_rest p)"
    and "lo + length (p_rest p) \<le> n" "lo + length (p_rest p) \<le> n'"
  shows "reps n lo hi g f p = reps n' lo hi g f p"
  using assms(2,3)
proof (induction n arbitrary: n' lo hi p)
  case 0
  then have "f q = filter (\<lambda>r. \<not> length (p_rest r) < length (p_rest q)) (f q)" if "p_rest q = []" for q
    using that by (simp add: filter_id_conv)
  with 0 show ?case by (cases n') (auto simp: filter_empty_conv)
next
  case (Suc n)
  have len: "length (p_rest q) \<le> length (p_rest p)" if "q \<in> set (f p)" for q
    using assms(1) [OF that] by (simp add: suffix_length_le)
  show ?case
  proof (cases n')
    case 0
    with Suc.prems show ?thesis by (auto simp: filter_empty_conv Let_def)
  next
    case (Suc m)
    have "reps n (lo - 1) (dec hi) g f q = reps m (lo - 1) (dec hi) g f q"
      if "0 < lo" "q \<in> set (f p)" for q
      using that len [OF that(2)] Suc.prems Suc by (intro Suc.IH) auto
    moreover have "reps n 0 (dec hi) g f q = reps m 0 (dec hi) g f q"
      if "length (p_rest q) < length (p_rest p)" for q
      using that Suc.prems Suc by (intro Suc.IH) auto
    ultimately show ?thesis
      using Suc by (auto simp: Let_def intro!: arg_cong [where f = concat])
  qed
qed

section \<open>The module's functions\<close>

text \<open>A match object: the text matched, its groups, and the position after it.\<close>

record rxmatch =
  m_text :: pystr
  m_grps :: "(nat \<times> pystr) list"
  m_end :: pos

definition rx_at :: "cclass \<Rightarrow> bool \<Rightarrow> rx \<Rightarrow> pos \<Rightarrow> rxmatch option" where
  "rx_at K ic r p =
     (case rxm K ic r (p\<lparr>p_grps := []\<rparr>) Some of
        None \<Rightarrow> None
      | Some q \<Rightarrow> Some \<lparr>m_text = take (length (p_rest p) - length (p_rest q)) (p_rest p),
                        m_grps = p_grps q, m_end = q\<rparr>)"

definition start_pos :: "pystr \<Rightarrow> pos" where
  "start_pos s = \<lparr>p_prev = None, p_rest = s, p_grps = []\<rparr>"

definition rx_match :: "cclass \<Rightarrow> bool \<Rightarrow> rx \<Rightarrow> pystr \<Rightarrow> rxmatch option" where
  "rx_match K ic r s = rx_at K ic r (start_pos s)"

definition grp :: "rxmatch \<Rightarrow> nat \<Rightarrow> pystr option" where
  "grp m n = map_of (m_grps m) n"

lemma rx_at_split:
  assumes "rx_at K ic r p = Some m"
  shows "p_rest p = m_text m @ p_rest (m_end m)"
proof -
  from assms obtain q where q: "rxm K ic r (p\<lparr>p_grps := []\<rparr>) Some = Some q"
    "m_text m = take (length (p_rest p) - length (p_rest q)) (p_rest p)" "m_end m = q"
    by (auto simp: rx_at_def split: option.splits)
  have "q \<in> set (rxs K ic r (p\<lparr>p_grps := []\<rparr>))"
    using q(1) by (auto simp: rxm_rxs dest: first_some_SomeD)
  then have "suffix (p_rest q) (p_rest p)"
    using rxs_suffix by fastforce
  with q show ?thesis by (auto simp: suffix_def)
qed

lemma rx_at_length: "rx_at K ic r p = Some m \<Longrightarrow> length (p_rest (m_end m)) \<le> length (p_rest p)"
  using rx_at_split [of K ic r p m] by simp

text \<open>
  The scan of \<^verbatim>\<open>finditer\<close>, \<^verbatim>\<open>findall\<close> and \<^verbatim>\<open>sub\<close>: the text between matches and the
  matches, left to right.  No pattern of the repository matches the empty string; a match that
  consumed nothing would be passed over.
\<close>

datatype piece = Plain int | Hit rxmatch

function scan :: "cclass \<Rightarrow> bool \<Rightarrow> rx \<Rightarrow> pos \<Rightarrow> piece list" where
  "scan K ic r p =
     (case p_rest p of [] \<Rightarrow> []
      | c # rest \<Rightarrow>
        (case rx_at K ic r p of
           None \<Rightarrow> Plain c # scan K ic r (advance c rest p)
         | Some m \<Rightarrow>
             if length (p_rest (m_end m)) < length (p_rest p)
             then Hit m # scan K ic r (m_end m)
             else Plain c # scan K ic r (advance c rest p)))"
  by pat_completeness auto
termination
  by (relation "measure (\<lambda>(K, ic, r, p). length (p_rest p))") auto

declare scan.simps [simp del]

definition hits :: "piece list \<Rightarrow> rxmatch list" where
  "hits ps = concat (map (\<lambda>x. case x of Plain _ \<Rightarrow> [] | Hit m \<Rightarrow> [m]) ps)"

definition rx_finditer :: "cclass \<Rightarrow> bool \<Rightarrow> rx \<Rightarrow> pystr \<Rightarrow> rxmatch list" where
  "rx_finditer K ic r s = hits (scan K ic r (start_pos s))"

definition rx_findall :: "cclass \<Rightarrow> bool \<Rightarrow> rx \<Rightarrow> pystr \<Rightarrow> pystr list" where
  "rx_findall K ic r s = map m_text (rx_finditer K ic r s)"

definition rx_search :: "cclass \<Rightarrow> bool \<Rightarrow> rx \<Rightarrow> pystr \<Rightarrow> bool" where
  "rx_search K ic r s \<longleftrightarrow> rx_finditer K ic r s \<noteq> []"

definition rx_sub :: "cclass \<Rightarrow> bool \<Rightarrow> rx \<Rightarrow> (rxmatch \<Rightarrow> pystr) \<Rightarrow> pystr \<Rightarrow> pystr" where
  "rx_sub K ic r f s =
     concat (map (\<lambda>x. case x of Plain c \<Rightarrow> [c] | Hit m \<Rightarrow> f m) (scan K ic r (start_pos s)))"

definition piece_text :: "piece \<Rightarrow> pystr" where
  "piece_text x = (case x of Plain c \<Rightarrow> [c] | Hit m \<Rightarrow> m_text m)"

lemma scan_text: "concat (map piece_text (scan K ic r p)) = p_rest p"
proof (induction K ic r p rule: scan.induct)
  case (1 K ic r p)
  show ?case
  proof (cases "p_rest p")
    case Nil
    then show ?thesis by (simp add: scan.simps [of K ic r p])
  next
    case (Cons c rest)
    with 1 show ?thesis
      by (cases "rx_at K ic r p")
        (auto simp: scan.simps [of K ic r p] piece_text_def dest: rx_at_split)
  qed
qed

lemma scan_hit_rx_at: "Hit m \<in> set (scan K ic r p) \<Longrightarrow> \<exists>q. rx_at K ic r q = Some m"
proof (induction K ic r p rule: scan.induct)
  case (1 K ic r p)
  show ?case
  proof (cases "p_rest p")
    case Nil
    with "1.prems" show ?thesis by (simp add: scan.simps [of K ic r p])
  next
    case (Cons c rest)
    with 1 show ?thesis
      by (cases "rx_at K ic r p") (auto simp: scan.simps [of K ic r p] split: if_splits)
  qed
qed

lemma hits_iff: "m \<in> set (hits ps) \<longleftrightarrow> Hit m \<in> set ps"
  by (auto simp: hits_def split: piece.splits)

text \<open>Every match is a contiguous part of the text.\<close>

lemma rx_findall_sublist:
  assumes "x \<in> set (rx_findall K ic r s)"
  shows "sublist x s"
proof -
  from assms obtain m where m: "Hit m \<in> set (scan K ic r (start_pos s))" "x = m_text m"
    by (auto simp: rx_findall_def rx_finditer_def hits_iff)
  then obtain as bs where "scan K ic r (start_pos s) = as @ Hit m # bs"
    by (meson split_list)
  then have "s = concat (map piece_text as) @ x @ concat (map piece_text bs)"
    using scan_text [of K ic r "start_pos s"] m(2) by (simp add: start_pos_def piece_text_def)
  then show ?thesis by (auto simp: sublist_def)
qed

section \<open>Writing patterns\<close>

definition rlit :: "string \<Rightarrow> rx" where
  "rlit s = foldr (\<lambda>c r. RSeq (RChr (In [One (of_char c)])) r) s REps"

definition rseq :: "rx list \<Rightarrow> rx" where
  "rseq rs = foldr RSeq rs REps"

fun ralt :: "rx list \<Rightarrow> rx" where
  "ralt [] = RAlt REps REps"
| "ralt [r] = r"
| "ralt (r # r' # rs) = RAlt r (ralt (r' # rs))"

abbreviation rstar :: "cset \<Rightarrow> rx" where
  "rstar cs \<equiv> RRep 0 None True (RChr cs)"

abbreviation rplus :: "cset \<Rightarrow> rx" where
  "rplus cs \<equiv> RRep 1 None True (RChr cs)"

abbreviation ropt :: "rx \<Rightarrow> rx" where
  "ropt r \<equiv> RRep 0 (Some 1) True r"

abbreviation rrange :: "nat \<Rightarrow> nat \<Rightarrow> cset \<Rightarrow> rx" where
  "rrange a b cs \<equiv> RRep a (Some b) True (RChr cs)"

abbreviation rmin :: "nat \<Rightarrow> cset \<Rightarrow> rx" where
  "rmin a cs \<equiv> RRep a None True (RChr cs)"

definition oneof :: "string \<Rightarrow> citem list" where
  "oneof s = map (\<lambda>c. One (of_char c)) s"

definition alnum_items :: "citem list" where
  "alnum_items = [Rng 65 90, Rng 97 122, Rng 48 57]"

definition hex_items :: "citem list" where
  "hex_items = [Rng 97 102, Rng 65 70, Rng 48 57]"

lemmas rx_eval [py_eval] = str_class_def bytes_class_def word_at_def next_char_def at_boundary_def
  at_end_def advance_def capture_def dec_def rx_at_def start_pos_def rx_match_def grp_def hits_def
  rx_finditer_def rx_findall_def rx_search_def rx_sub_def rlit_def rseq_def oneof_def
  alnum_items_def hex_items_def scan.simps

end
