(* ===== verification/Py_Bytes.thy ===== *)
theory Py_Bytes
  imports Py_Prelude
begin

text \<open>
  The codecs of Python the engine and the sensor rely on: UTF-8 with the error handlers
  \<^verbatim>\<open>strict\<close>, \<^verbatim>\<open>ignore\<close> and \<^verbatim>\<open>surrogateescape\<close>, Latin-1, and base64 with
  \<^verbatim>\<open>validate=True\<close> (the strict mode of \<^verbatim>\<open>binascii.a2b_base64\<close>), with their round trips.
\<close>

section \<open>UTF-8\<close>

definition cont_byte :: "int \<Rightarrow> bool" where
  "cont_byte x \<longleftrightarrow> 128 \<le> x \<and> x < 192"

definition is_surrogate :: "int \<Rightarrow> bool" where
  "is_surrogate c \<longleftrightarrow> 55296 \<le> c \<and> c \<le> 57343"

text \<open>One well-formed sequence at the front of the input: its code point and the rest.\<close>

definition utf8_next :: "bytes \<Rightarrow> (int \<times> bytes) option" where
  "utf8_next bs =
     (case bs of [] \<Rightarrow> None
      | b0 # r \<Rightarrow>
        (let x = uint b0 in
         if x < 128 then Some (x, r)
         else if 194 \<le> x \<and> x \<le> 223 then
           (case r of b1 # r1 \<Rightarrow>
              if cont_byte (uint b1) then Some ((x - 192) * 64 + (uint b1 - 128), r1) else None
            | _ \<Rightarrow> None)
         else if 224 \<le> x \<and> x \<le> 239 then
           (case r of b1 # b2 # r2 \<Rightarrow>
              (let c = (x - 224) * 4096 + (uint b1 - 128) * 64 + (uint b2 - 128) in
               if cont_byte (uint b1) \<and> cont_byte (uint b2) \<and> 2048 \<le> c \<and> \<not> is_surrogate c
               then Some (c, r2) else None)
            | _ \<Rightarrow> None)
         else if 240 \<le> x \<and> x \<le> 244 then
           (case r of b1 # b2 # b3 # r3 \<Rightarrow>
              (let c = (x - 240) * 262144 + (uint b1 - 128) * 4096 + (uint b2 - 128) * 64
                       + (uint b3 - 128) in
               if cont_byte (uint b1) \<and> cont_byte (uint b2) \<and> cont_byte (uint b3)
                  \<and> 65536 \<le> c \<and> c \<le> 1114111
               then Some (c, r3) else None)
            | _ \<Rightarrow> None)
         else None))"

lemma utf8_next_length [termination_simp]:
  "utf8_next bs = Some (c, r) \<Longrightarrow> length r < length bs"
  by (auto simp: utf8_next_def Let_def split: list.splits if_splits)

lemma utf8_next_Nil [simp]: "utf8_next [] = None"
  by (simp add: utf8_next_def)

lemma utf8_next_None_high: "utf8_next (b # r) = None \<Longrightarrow> 128 \<le> uint b"
  by (auto simp: utf8_next_def Let_def split: if_splits)

function utf8_decode :: "bytes \<Rightarrow> pystr res" where
  "utf8_decode [] = Inr []"
| "utf8_decode (b # r) =
     (case utf8_next (b # r) of
        None \<Rightarrow> Inl UnicodeDecodeError
      | Some (c, r') \<Rightarrow> rbind (utf8_decode r') (\<lambda>s. Inr (c # s)))"
  by pat_completeness auto
termination
  by (relation "measure length") (auto dest: utf8_next_length)

text \<open>\<^verbatim>\<open>errors="ignore"\<close>: a byte that starts no well-formed sequence is dropped.\<close>

function utf8_decode_ignore :: "bytes \<Rightarrow> pystr" where
  "utf8_decode_ignore [] = []"
| "utf8_decode_ignore (b # r) =
     (case utf8_next (b # r) of
        None \<Rightarrow> utf8_decode_ignore r
      | Some (c, r') \<Rightarrow> c # utf8_decode_ignore r')"
  by pat_completeness auto
termination
  by (relation "measure length") (auto dest: utf8_next_length)

text \<open>\<^verbatim>\<open>errors="surrogateescape"\<close>: such a byte \<open>b\<close> becomes the lone surrogate U+DC00 + \<open>b\<close>.\<close>

function utf8_decode_se :: "bytes \<Rightarrow> pystr" where
  "utf8_decode_se [] = []"
| "utf8_decode_se (b # r) =
     (case utf8_next (b # r) of
        None \<Rightarrow> (56320 + uint b) # utf8_decode_se r
      | Some (c, r') \<Rightarrow> c # utf8_decode_se r')"
  by pat_completeness auto
termination
  by (relation "measure length") (auto dest: utf8_next_length)

definition utf8_enc1 :: "int \<Rightarrow> bytes option" where
  "utf8_enc1 c =
     (if c < 128 then Some [word_of_int c]
      else if c < 2048 then Some [word_of_int (192 + c div 64), word_of_int (128 + c mod 64)]
      else if is_surrogate c then None
      else if c < 65536 then
        Some [word_of_int (224 + c div 4096), word_of_int (128 + c div 64 mod 64),
              word_of_int (128 + c mod 64)]
      else Some [word_of_int (240 + c div 262144), word_of_int (128 + c div 4096 mod 64),
                 word_of_int (128 + c div 64 mod 64), word_of_int (128 + c mod 64)])"

fun utf8_encode :: "pystr \<Rightarrow> bytes res" where
  "utf8_encode [] = Inr []"
| "utf8_encode (c # s) =
     (case utf8_enc1 c of
        None \<Rightarrow> Inl UnicodeEncodeError
      | Some p \<Rightarrow> rbind (utf8_encode s) (\<lambda>bs. Inr (p @ bs)))"

fun utf8_encode_se :: "pystr \<Rightarrow> bytes res" where
  "utf8_encode_se [] = Inr []"
| "utf8_encode_se (c # s) =
     (if 56448 \<le> c \<and> c \<le> 56575
      then rbind (utf8_encode_se s) (\<lambda>bs. Inr (word_of_int (c - 56320) # bs))
      else (case utf8_enc1 c of
        None \<Rightarrow> Inl UnicodeEncodeError
      | Some p \<Rightarrow> rbind (utf8_encode_se s) (\<lambda>bs. Inr (p @ bs))))"

text \<open>\<^verbatim>\<open>bytes.hex()\<close>.\<close>

definition hex_low :: "int \<Rightarrow> int" where
  "hex_low n = (if n < 10 then 48 + n else 87 + n)"

definition bytes_hex :: "bytes \<Rightarrow> pystr" where
  "bytes_hex bs = concat (map (\<lambda>b. [hex_low (uint b div 16), hex_low (uint b mod 16)]) bs)"

definition latin1_decode :: "bytes \<Rightarrow> pystr" where
  "latin1_decode bs = map uint bs"

subsection \<open>Decoding then encoding\<close>

lemma byte_range: "0 \<le> uint (b :: byte)" "uint (b :: byte) < 256"
  using uint_lt2p [of b] by auto

lemma byte_of_int [simp]: "word_of_int (uint (b :: byte)) = b"
  by simp

lemma radix64:
  assumes "0 \<le> j" "j < (64::int)"
  shows "(i * 64 + j) div 64 = i" "(i * 64 + j) mod 64 = j"
  using assms by simp_all

lemma div_4096: "(c::int) div 4096 = c div 64 div 64"
  by (simp add: zdiv_zmult2_eq [symmetric])

lemma div_262144: "(c::int) div 262144 = c div 64 div 64 div 64"
  by (simp add: zdiv_zmult2_eq [symmetric])

lemma enc_dec2:
  assumes "194 \<le> x" "x \<le> (223::int)" "cont_byte y"
    and c: "c = (x - 192) * 64 + (y - 128)"
  shows "utf8_enc1 c = Some [word_of_int x, word_of_int y]" "c < 2048"
proof -
  have y: "0 \<le> y - 128" "y - 128 < 64"
    using assms by (auto simp: cont_byte_def)
  have "c div 64 = x - 192" "c mod 64 = y - 128"
    unfolding c by (rule radix64 [OF y])+
  moreover show "c < 2048" using assms(1,2) y unfolding c by simp
  moreover have "128 \<le> c" using assms(1,2) y unfolding c by simp
  ultimately show "utf8_enc1 c = Some [word_of_int x, word_of_int y]"
    by (simp add: utf8_enc1_def)
qed

lemma enc_dec3:
  assumes "224 \<le> x" "x \<le> (239::int)" "cont_byte y" "cont_byte z"
    and c: "c = (x - 224) * 4096 + (y - 128) * 64 + (z - 128)" "2048 \<le> c" "\<not> is_surrogate c"
  shows "utf8_enc1 c = Some [word_of_int x, word_of_int y, word_of_int z]"
proof -
  have y: "0 \<le> y - 128" "y - 128 < 64" and z: "0 \<le> z - 128" "z - 128 < 64"
    using assms by (auto simp: cont_byte_def)
  have c': "c = ((x - 224) * 64 + (y - 128)) * 64 + (z - 128)"
    using c(1) by (simp add: algebra_simps)
  have d: "c div 64 = (x - 224) * 64 + (y - 128)" "c mod 64 = z - 128"
    unfolding c' by (rule radix64 [OF z])+
  have "c div 4096 = x - 224" "c div 64 mod 64 = y - 128"
    unfolding div_4096 d by (rule radix64 [OF y])+
  moreover have "c < 65536" using assms(1,2) y z unfolding c(1) by simp
  ultimately show ?thesis
    using c(2,3) d(2) by (simp add: utf8_enc1_def)
qed

lemma enc_dec4:
  assumes "240 \<le> x" "x \<le> (244::int)" "cont_byte y" "cont_byte z" "cont_byte w"
    and c: "c = (x - 240) * 262144 + (y - 128) * 4096 + (z - 128) * 64 + (w - 128)" "65536 \<le> c"
  shows "utf8_enc1 c = Some [word_of_int x, word_of_int y, word_of_int z, word_of_int w]"
proof -
  have y: "0 \<le> y - 128" "y - 128 < 64" and z: "0 \<le> z - 128" "z - 128 < 64"
    and w: "0 \<le> w - 128" "w - 128 < 64"
    using assms by (auto simp: cont_byte_def)
  have c': "c = (((x - 240) * 64 + (y - 128)) * 64 + (z - 128)) * 64 + (w - 128)"
    using c(1) by (simp add: algebra_simps)
  have d: "c div 64 = ((x - 240) * 64 + (y - 128)) * 64 + (z - 128)" "c mod 64 = w - 128"
    unfolding c' by (rule radix64 [OF w])+
  have e: "c div 4096 = (x - 240) * 64 + (y - 128)" "c div 64 mod 64 = z - 128"
    unfolding div_4096 d by (rule radix64 [OF z])+
  have f: "c div 262144 = x - 240" "c div 4096 mod 64 = y - 128"
    unfolding div_262144 div_4096 [symmetric] e by (rule radix64 [OF y])+
  have "\<not> c < 128" "\<not> c < 2048" "\<not> is_surrogate c" "\<not> c < 65536"
    using c(2) by (simp_all add: is_surrogate_def)
  then show ?thesis
    by (simp only: utf8_enc1_def f d(2) e(2) if_False diff_add_cancel add.commute [of _ "_ - _"])
qed

text \<open>A decoded sequence is exactly the encoding of its code point.\<close>

lemma utf8_next_enc1:
  assumes "utf8_next bs = Some (c, r)"
  obtains p where "utf8_enc1 c = Some p" "bs = p @ r" "\<not> is_surrogate c"
proof -
  obtain b0 r0 where bs: "bs = b0 # r0"
    using assms by (cases bs) auto
  consider (1) "uint b0 < 128" | (2) "194 \<le> uint b0" "uint b0 \<le> 223"
    | (3) "224 \<le> uint b0" "uint b0 \<le> 239" | (4) "240 \<le> uint b0" "uint b0 \<le> 244"
    using assms bs by (auto simp: utf8_next_def Let_def split: if_splits)
  then show ?thesis
  proof cases
    case 1
    with assms bs that [of "[b0]"] show ?thesis
      by (auto simp: utf8_next_def utf8_enc1_def is_surrogate_def)
  next
    case 2
    with assms bs obtain b1 where
      *: "r0 = b1 # r" "cont_byte (uint b1)" "c = (uint b0 - 192) * 64 + (uint b1 - 128)"
      by (auto simp: utf8_next_def Let_def split: list.splits if_splits)
    show ?thesis
      using enc_dec2 [OF 2 *(2,3)] *(1) bs that [of "[b0, b1]"] by (simp add: is_surrogate_def)
  next
    case 3
    with assms bs obtain b1 b2 where
      *: "r0 = b1 # b2 # r" "cont_byte (uint b1)" "cont_byte (uint b2)"
        "c = (uint b0 - 224) * 4096 + (uint b1 - 128) * 64 + (uint b2 - 128)"
        "2048 \<le> c" "\<not> is_surrogate c"
      by (auto simp: utf8_next_def Let_def split: list.splits if_splits)
    show ?thesis
      using enc_dec3 [OF 3 *(2-6)] *(1,6) bs that [of "[b0, b1, b2]"] by simp
  next
    case 4
    with assms bs obtain b1 b2 b3 where
      *: "r0 = b1 # b2 # b3 # r" "cont_byte (uint b1)" "cont_byte (uint b2)" "cont_byte (uint b3)"
        "c = (uint b0 - 240) * 262144 + (uint b1 - 128) * 4096 + (uint b2 - 128) * 64
             + (uint b3 - 128)" "65536 \<le> c"
      by (auto simp: utf8_next_def Let_def split: list.splits if_splits)
    show ?thesis
      using enc_dec4 [OF 4 *(2-6)] *(1,6) bs that [of "[b0, b1, b2, b3]"] by (simp add: is_surrogate_def)
  qed
qed

lemma utf8_encode_decode_se: "utf8_encode_se (utf8_decode_se bs) = Inr bs"
proof (induction bs rule: utf8_decode_se.induct)
  case 1
  then show ?case by simp
next
  case (2 b r)
  show ?case
  proof (cases "utf8_next (b # r)")
    case None
    with 2 show ?thesis
      using utf8_next_None_high [OF None] byte_range [of b] by simp
  next
    case (Some a)
    obtain c r' where a: "a = (c, r')" by (cases a)
    with Some obtain p where p: "utf8_enc1 c = Some p" "b # r = p @ r'" "\<not> is_surrogate c"
      using utf8_next_enc1 by metis
    have "utf8_encode_se (utf8_decode_se r') = Inr r'"
      using 2 Some a by auto
    moreover have "(56448 \<le> c \<and> c \<le> 56575) = False"
      using p(3) by (auto simp: is_surrogate_def)
    ultimately have "utf8_encode_se (c # utf8_decode_se r') = Inr (p @ r')"
      using p(1) by (simp only: utf8_encode_se.simps if_False option.case rbind_simps)
    moreover have "utf8_decode_se (b # r) = c # utf8_decode_se r'"
      using Some a by simp
    ultimately show ?thesis
      by (simp only: p(2))
  qed
qed

lemma utf8_decode_encode: "utf8_decode bs = Inr s \<Longrightarrow> utf8_encode s = Inr bs"
proof (induction bs arbitrary: s rule: utf8_decode.induct)
  case (2 b r)
  from 2(2) obtain c r' s' where *: "utf8_next (b # r) = Some (c, r')" "utf8_decode r' = Inr s'"
    "s = c # s'"
    by (auto simp: rbind_eq_Inr split: option.splits)
  then obtain p where "utf8_enc1 c = Some p" "b # r = p @ r'"
    using utf8_next_enc1 by metis
  with 2(1) [OF *(1)] * show ?case by simp
qed simp

lemma utf8_decode_no_surrogate: "utf8_decode bs = Inr s \<Longrightarrow> list_all (\<lambda>c. \<not> is_surrogate c) s"
proof (induction bs arbitrary: s rule: utf8_decode.induct)
  case (2 b r)
  from 2(2) obtain c r' s' where *: "utf8_next (b # r) = Some (c, r')" "utf8_decode r' = Inr s'"
    "s = c # s'"
    by (auto simp: rbind_eq_Inr split: option.splits)
  then have "\<not> is_surrogate c"
    using utf8_next_enc1 by metis
  with 2(1) [OF *(1)] * show ?case by simp
qed simp

lemma utf8_decode_ignore_strict: "utf8_decode bs = Inr s \<Longrightarrow> utf8_decode_ignore bs = s"
proof (induction bs arbitrary: s rule: utf8_decode.induct)
  case (2 b r)
  from 2(2) obtain c r' s' where *: "utf8_next (b # r) = Some (c, r')" "utf8_decode r' = Inr s'"
    "s = c # s'"
    by (auto simp: rbind_eq_Inr split: option.splits)
  with 2(1) [OF *(1)] show ?case by simp
qed simp

lemma utf8_decode_ignore_length: "length (utf8_decode_ignore bs) \<le> length bs"
proof (induction bs rule: utf8_decode_ignore.induct)
  case (2 b r)
  then show ?case
    by (fastforce split: option.splits dest: utf8_next_length)
qed simp

lemma utf8_encode_Inr_iff: "(\<exists>bs. utf8_encode s = Inr bs) \<longleftrightarrow> list_all (\<lambda>c. \<not> is_surrogate c) s"
proof (induction s)
  case (Cons c s)
  have "utf8_enc1 c = None \<longleftrightarrow> is_surrogate c"
    by (auto simp: utf8_enc1_def is_surrogate_def)
  then show ?case
    using Cons by (cases "utf8_enc1 c") (auto simp: rbind_eq_Inr)
qed simp


section \<open>base64\<close>

definition b64_char :: "int \<Rightarrow> int" where
  "b64_char v = (if v < 26 then 65 + v else if v < 52 then 71 + v else if v < 62 then v - 4
                 else if v = 62 then 43 else 47)"

definition b64_val :: "int \<Rightarrow> int option" where
  "b64_val c = (if ascii_upper c then Some (c - 65) else if ascii_lower c then Some (c - 71)
                else if ascii_digit c then Some (c + 4) else if c = 43 then Some 62
                else if c = 47 then Some 63 else None)"

lemma b64_val_char: "0 \<le> v \<Longrightarrow> v < 64 \<Longrightarrow> b64_val (b64_char v) = Some v"
  by (auto simp: b64_val_def b64_char_def ascii_defs)

lemma b64_char_ne_pad: "0 \<le> v \<Longrightarrow> v < 64 \<Longrightarrow> b64_char v \<noteq> 61"
  by (auto simp: b64_char_def)

lemma b64_char_ascii: "0 \<le> v \<Longrightarrow> v < 64 \<Longrightarrow> b64_char v < 128"
  by (auto simp: b64_char_def)

text \<open>\<^verbatim>\<open>base64.b64encode\<close>, decoded as ASCII text.\<close>

fun b64_encode :: "bytes \<Rightarrow> pystr" where
  "b64_encode [] = []"
| "b64_encode [a] =
     [b64_char (uint a div 4), b64_char (uint a mod 4 * 16), 61, 61]"
| "b64_encode [a, b] =
     [b64_char (uint a div 4), b64_char (uint a mod 4 * 16 + uint b div 16),
      b64_char (uint b mod 16 * 4), 61]"
| "b64_encode (a # b # c # r) =
     b64_char (uint a div 4) # b64_char (uint a mod 4 * 16 + uint b div 16)
     # b64_char (uint b mod 16 * 4 + uint c div 64) # b64_char (uint c mod 64) # b64_encode r"

text \<open>
  The loop of \<^verbatim>\<open>binascii.a2b_base64(s, strict_mode=True)\<close>: the position in the current quad,
  the bits left over from it, the pad characters seen in it, whether any pad was seen.
\<close>

fun b64_loop :: "nat \<Rightarrow> int \<Rightarrow> nat \<Rightarrow> bool \<Rightarrow> pystr \<Rightarrow> bytes res" where
  "b64_loop q left pads started [] = (if q = 0 then Inr [] else Inl ValueError)"
| "b64_loop q left pads started (c # s) =
     (if c = 61 then
        (if 2 \<le> q \<and> 4 \<le> q + Suc pads then (if s = [] then Inr [] else Inl ValueError)
         else b64_loop q left (if 2 \<le> q then Suc pads else pads) True s)
      else (case b64_val c of
        None \<Rightarrow> Inl ValueError
      | Some v \<Rightarrow>
          if started then Inl ValueError
          else if q = 0 then b64_loop 1 v 0 False s
          else if q = 1 then
            rbind (b64_loop 2 (v mod 16) 0 False s)
              (\<lambda>bs. Inr (word_of_int (left * 4 + v div 16) # bs))
          else if q = 2 then
            rbind (b64_loop 3 (v mod 4) 0 False s)
              (\<lambda>bs. Inr (word_of_int (left * 16 + v div 4) # bs))
          else
            rbind (b64_loop 0 0 0 False s) (\<lambda>bs. Inr (word_of_int (left * 64 + v) # bs))))"

text \<open>\<^verbatim>\<open>base64.b64decode(s, validate=True)\<close> on a \<^verbatim>\<open>str\<close>; \<^verbatim>\<open>binascii.Error\<close> is a \<^verbatim>\<open>ValueError\<close>.\<close>

definition b64_decode :: "pystr \<Rightarrow> bytes res" where
  "b64_decode s =
     (if \<not> is_ascii s then Inl ValueError
      else if s \<noteq> [] \<and> hd s = 61 then Inl ValueError
      else b64_loop 0 0 0 False s)"

lemma byte_div_bounds:
  fixes a :: byte
  shows "0 \<le> uint a div 4" "uint a div 4 < 64" "0 \<le> uint a div 16" "uint a div 16 < 16"
    "0 \<le> uint a div 64" "uint a div 64 < 4"
  using byte_range [of a] by (simp_all add: div_less_iff_less_mult pos_imp_zdiv_nonneg_iff)

lemma sextet_bounds:
  fixes a b :: byte
  shows "uint a mod 4 * 16 + uint b div 16 < 64" "uint a mod 4 * 16 < 64"
    "uint a mod 16 * 4 + uint b div 64 < 64" "uint a mod 16 * 4 < 64"
    "0 \<le> uint a mod 4 * 16 + uint b div 16" "0 \<le> uint a mod 4 * 16"
    "0 \<le> uint a mod 16 * 4 + uint b div 64" "0 \<le> uint a mod 16 * 4"
    "0 \<le> uint a mod 64" "uint a mod 64 < 64"
proof -
  have "uint a mod 4 < 4" "uint a mod 16 < 16" "0 \<le> uint a mod 4" "0 \<le> uint a mod 16"
    by simp_all
  then show "uint a mod 4 * 16 + uint b div 16 < 64" "uint a mod 4 * 16 < 64"
    "uint a mod 16 * 4 + uint b div 64 < 64" "uint a mod 16 * 4 < 64"
    "0 \<le> uint a mod 4 * 16 + uint b div 16" "0 \<le> uint a mod 4 * 16"
    "0 \<le> uint a mod 16 * 4 + uint b div 64" "0 \<le> uint a mod 16 * 4"
    using byte_div_bounds [of b] by linarith+
qed simp_all

lemmas b64_bounds = byte_div_bounds sextet_bounds

lemma recombine:
  fixes a b :: byte
  shows "uint a div 4 * 4 + (uint a mod 4 * 16 + uint b div 16) div 16 = uint a"
    "uint a div 4 * 4 + (uint a mod 4 * 16) div 16 = uint a"
    "(uint a mod 4 * 16 + uint b div 16) mod 16 = uint b div 16"
    "uint a div 16 * 16 + (uint a mod 16 * 4 + uint b div 64) div 4 = uint a"
    "uint a div 16 * 16 + (uint a mod 16 * 4) div 4 = uint a"
    "(uint a mod 16 * 4 + uint b div 64) mod 4 = uint b div 64"
    "uint a div 64 * 64 + uint a mod 64 = uint a"
  using byte_div_bounds [of b] by simp_all

lemma b64_loop_encode: "b64_loop 0 0 0 False (b64_encode bs) = Inr bs"
  by (induction bs rule: b64_encode.induct)
    (simp_all add: b64_val_char b64_char_ne_pad b64_bounds recombine)

lemma b64_encode_ascii: "is_ascii (b64_encode bs)"
  by (induction bs rule: b64_encode.induct)
    (simp_all add: is_ascii_def b64_char_ascii b64_bounds)

lemma b64_encode_hd: "b64_encode bs \<noteq> [] \<Longrightarrow> hd (b64_encode bs) \<noteq> 61"
  by (induction bs rule: b64_encode.induct) (simp_all add: b64_char_ne_pad b64_bounds)

lemma b64_decode_encode: "b64_decode (b64_encode bs) = Inr bs"
  using b64_encode_hd [of bs] by (auto simp: b64_decode_def b64_encode_ascii b64_loop_encode)

end
