(* ===== verification/Py_Net.thy ===== *)
theory Py_Net
  imports Py_Prelude
begin

text \<open>
  The two library modules by which the engine tells hosts apart: \<^verbatim>\<open>ipaddress.ip_address\<close>
  (which texts are IP literals) and \<^verbatim>\<open>urllib.parse.urlsplit\<close> with the properties
  \<^verbatim>\<open>hostname\<close> and \<^verbatim>\<open>port\<close> of its result, including every \<^verbatim>\<open>ValueError\<close> they raise.
\<close>

section \<open>IP literals\<close>

fun dec_value :: "int \<Rightarrow> pystr \<Rightarrow> int" where
  "dec_value acc [] = acc"
| "dec_value acc (c # s) = dec_value (acc * 10 + (c - 48)) s"

definition octet_ok :: "pystr \<Rightarrow> bool" where
  "octet_ok s \<longleftrightarrow> s \<noteq> [] \<and> list_all ascii_digit s \<and> length s \<le> 3 \<and>
     (s = u ''0'' \<or> hd s \<noteq> 48) \<and> dec_value 0 s \<le> 255"

definition is_ipv4 :: "pystr \<Rightarrow> bool" where
  "is_ipv4 s \<longleftrightarrow> 47 \<notin> set s \<and> length (split_on 46 s) = 4 \<and> list_all octet_ok (split_on 46 s)"

definition hex_digit :: "int \<Rightarrow> bool" where
  "hex_digit c \<longleftrightarrow> ascii_digit c \<or> (97 \<le> c \<and> c \<le> 102) \<or> (65 \<le> c \<and> c \<le> 70)"

definition hextet_ok :: "pystr \<Rightarrow> bool" where
  "hextet_ok s \<longleftrightarrow> s \<noteq> [] \<and> list_all hex_digit s \<and> length s \<le> 4"

text \<open>The indices of the empty parts strictly between the first and the last.\<close>

definition inner_empty :: "pystr list \<Rightarrow> nat list" where
  "inner_empty ps = filter (\<lambda>i. ps ! i = []) [1..<length ps - 1]"

definition ipv6_parts_ok :: "pystr list \<Rightarrow> bool" where
  "ipv6_parts_ok ps \<longleftrightarrow> length ps \<le> 9 \<and>
     (case inner_empty ps of
        [] \<Rightarrow> length ps = 8 \<and> list_all hextet_ok ps
      | [i] \<Rightarrow>
          (let hi = (if hd ps = [] then i - 1 else i);
               lo0 = length ps - i - 1;
               lo = (if last ps = [] then lo0 - 1 else lo0)
           in (hd ps = [] \<longrightarrow> hi = 0) \<and> (last ps = [] \<longrightarrow> lo = 0) \<and> hi + lo < 8 \<and>
              list_all hextet_ok (take hi ps) \<and> list_all hextet_ok (drop (length ps - lo) ps))
      | _ \<Rightarrow> False)"

definition ipv6_body_ok :: "pystr \<Rightarrow> bool" where
  "ipv6_body_ok s \<longleftrightarrow>
     (let ps = split_on 58 s in
      3 \<le> length ps \<and>
      (if 46 \<in> set (last ps)
       then is_ipv4 (last ps) \<and> ipv6_parts_ok (butlast ps @ [u ''0'', u ''0''])
       else ipv6_parts_ok ps))"

definition is_ipv6 :: "pystr \<Rightarrow> bool" where
  "is_ipv6 s \<longleftrightarrow> 47 \<notin> set s \<and>
     (case split1 37 s of
        (body, None) \<Rightarrow> ipv6_body_ok body
      | (body, Some zone) \<Rightarrow> zone \<noteq> [] \<and> 37 \<notin> set zone \<and> ipv6_body_ok body)"

definition ip_address :: "pystr \<Rightarrow> unit res" where
  "ip_address s = (if is_ipv4 s \<or> is_ipv6 s then Inr () else Inl ValueError)"

lemma ip_literal_nonempty: "is_ipv4 s \<or> is_ipv6 s \<Longrightarrow> s \<noteq> []"
  by (auto simp: is_ipv4_def is_ipv6_def ipv6_body_ok_def)

section \<open>urlsplit\<close>

record split_result =
  sr_scheme :: pystr
  sr_netloc :: pystr
  sr_path :: pystr
  sr_query :: pystr

definition c0_or_space :: "int \<Rightarrow> bool" where
  "c0_or_space c \<longleftrightarrow> 0 \<le> c \<and> c \<le> 32"

definition url_clean :: "pystr \<Rightarrow> pystr" where
  "url_clean s = filter (\<lambda>c. c \<noteq> 9 \<and> c \<noteq> 13 \<and> c \<noteq> 10) (lstrip_if c0_or_space s)"

definition scheme_char :: "int \<Rightarrow> bool" where
  "scheme_char c \<longleftrightarrow> ascii_digit c \<or> ascii_upper c \<or> ascii_lower c \<or> c = 43 \<or> c = 45 \<or> c = 46"

definition split_scheme :: "('x) ext_scheme \<Rightarrow> pystr \<Rightarrow> pystr \<times> pystr" where
  "split_scheme E s =
     (case split1 58 s of
        (pre, Some post) \<Rightarrow>
          if pre \<noteq> [] \<and> (ascii_upper (hd pre) \<or> ascii_lower (hd pre)) \<and> list_all scheme_char pre
          then (py_lower E pre, post) else ([], s)
      | _ \<Rightarrow> ([], s))"

definition netloc_end :: "int \<Rightarrow> bool" where
  "netloc_end c \<longleftrightarrow> c = 47 \<or> c = 63 \<or> c = 35"

definition bracketed_host_ok :: "pystr \<Rightarrow> bool" where
  "bracketed_host_ok h \<longleftrightarrow>
     (if startswith h (u ''v'')
      then (case split1 46 (tl h) of
              (ver, Some rest) \<Rightarrow> ver \<noteq> [] \<and> list_all hex_digit ver \<and> rest \<noteq> [] \<and> 10 \<notin> set rest
            | _ \<Rightarrow> False)
      else is_ipv6 h \<and> \<not> is_ipv4 h)"

definition netloc_ok :: "('x) ext_scheme \<Rightarrow> pystr \<Rightarrow> bool" where
  "netloc_ok E n \<longleftrightarrow>
     (91 \<in> set n \<longleftrightarrow> 93 \<in> set n) \<and>
     (91 \<in> set n \<longrightarrow>
        (let hp = snd (rsplit1 64 n) in
         case split1 91 hp of
           (ahead, Some br) \<Rightarrow>
             ahead = [] \<and>
             (case split1 93 br of
                (h, Some port) \<Rightarrow> (port = [] \<or> hd port = 58) \<and> bracketed_host_ok h
              | (h, None) \<Rightarrow> bracketed_host_ok h)
         | (_, None) \<Rightarrow> bracketed_host_ok (fst (split1 58 hp)))) \<and>
     (is_ascii n \<or> \<not> uc_nfkc_bad E n)"

definition urlsplit :: "('x) ext_scheme \<Rightarrow> pystr \<Rightarrow> split_result res" where
  "urlsplit E url =
     (let (scheme, rest) = split_scheme E (url_clean url);
          (netloc, rest1) =
            (if take 2 rest = u ''//''
             then (takeWhile (\<lambda>c. \<not> netloc_end c) (drop 2 rest),
                   dropWhile (\<lambda>c. \<not> netloc_end c) (drop 2 rest))
             else ([], rest))
      in if \<not> netloc_ok E netloc then Inl ValueError
         else
           (let rest2 = fst (split1 35 rest1);
                (path, query) = split1 63 rest2
            in Inr \<lparr>sr_scheme = scheme, sr_netloc = netloc, sr_path = path,
                     sr_query = (case query of None \<Rightarrow> [] | Some q \<Rightarrow> q)\<rparr>))"

text \<open>The host and the port text of a netloc.\<close>

definition hostinfo :: "pystr \<Rightarrow> pystr \<times> pystr option" where
  "hostinfo n =
     (let hp = snd (rsplit1 64 n);
          (h, port) =
            (case split1 91 hp of
               (_, Some br) \<Rightarrow>
                 (case split1 93 br of
                    (h, None) \<Rightarrow> (h, None)
                  | (h, Some tail) \<Rightarrow> (h, snd (split1 58 tail)))
             | (_, None) \<Rightarrow> split1 58 hp)
      in (h, (case port of Some p \<Rightarrow> if p = [] then None else Some p | None \<Rightarrow> None)))"

definition sr_hostname :: "('x) ext_scheme \<Rightarrow> split_result \<Rightarrow> pystr option" where
  "sr_hostname E r =
     (let h = fst (hostinfo (sr_netloc r)) in
      if h = [] then None
      else (case split1 37 h of
              (a, None) \<Rightarrow> Some (py_lower E a)
            | (a, Some zone) \<Rightarrow> Some (py_lower E a @ [37] @ zone)))"

definition sr_port :: "split_result \<Rightarrow> int option res" where
  "sr_port r =
     (case snd (hostinfo (sr_netloc r)) of
        None \<Rightarrow> Inr None
      | Some p \<Rightarrow>
          if list_all ascii_digit p then
            (let n = dec_value 0 p in if n \<le> 65535 then Inr (Some n) else Inl ValueError)
          else Inl ValueError)"

text \<open>\<^verbatim>\<open>urlsplit(u).hostname or ""\<close>.\<close>

definition url_host :: "('x) ext_scheme \<Rightarrow> pystr \<Rightarrow> pystr res" where
  "url_host E url =
     rbind (urlsplit E url) (\<lambda>r. Inr (case sr_hostname E r of None \<Rightarrow> [] | Some h \<Rightarrow> h))"

lemmas net_eval [py_eval] = octet_ok_def is_ipv4_def hex_digit_def hextet_ok_def inner_empty_def
  ipv6_parts_ok_def ipv6_body_ok_def is_ipv6_def ip_address_def c0_or_space_def url_clean_def
  scheme_char_def split_scheme_def netloc_end_def bracketed_host_ok_def netloc_ok_def urlsplit_def
  hostinfo_def sr_hostname_def sr_port_def url_host_def

lemma dec_value_nonneg: "0 \<le> acc \<Longrightarrow> list_all ascii_digit s \<Longrightarrow> 0 \<le> dec_value acc s"
  by (induction s arbitrary: acc) (auto simp: ascii_digit_def)

lemma sr_port_range: "sr_port r = Inr (Some n) \<Longrightarrow> 0 \<le> n \<and> n \<le> 65535"
  by (auto simp: sr_port_def Let_def dec_value_nonneg split: option.splits if_splits)

end
