(* ===== verification/Py_Value.thy ===== *)
theory Py_Value
  imports Complex_Main Py_Prelude "HOL-Library.AList"
begin

text \<open>
  Python values as they come off the wire and go to Elasticsearch.  A dictionary is the list of
  its items in insertion order; \<^verbatim>\<open>d[k] = v\<close> is \<open>AList.update\<close> (in place, or at the end) and
  \<^verbatim>\<open>d.pop(k, None)\<close> is \<open>AList.delete\<close>.  Keys are \<^verbatim>\<open>str\<close> or \<^verbatim>\<open>bytes\<close>, the two kinds the
  msgpack decoder lets through.  A float is kept as the rational it denotes.
\<close>

datatype pkey = KS pystr | KB bytes

datatype pyval =
    PNone
  | PBool bool
  | PInt int
  | PFloat rat
  | PStr pystr
  | PBytes bytes
  | PList "pyval list"
  | PDict "(pkey \<times> pyval) list"

type_synonym pydict = "(pkey \<times> pyval) list"

abbreviation key :: "string \<Rightarrow> pkey" where
  "key s \<equiv> KS (u s)"

abbreviation pstr :: "string \<Rightarrow> pyval" where
  "pstr s \<equiv> PStr (u s)"

abbreviation pobj :: "(string \<times> pyval) list \<Rightarrow> pyval" where
  "pobj kvs \<equiv> PDict (map (\<lambda>(k, v). (key k, v)) kvs)"

text \<open>\<^verbatim>\<open>bool(v)\<close>.\<close>

fun truthy :: "pyval \<Rightarrow> bool" where
  "truthy PNone = False"
| "truthy (PBool b) = b"
| "truthy (PInt n) = (n \<noteq> 0)"
| "truthy (PFloat q) = (q \<noteq> 0)"
| "truthy (PStr s) = (s \<noteq> [])"
| "truthy (PBytes b) = (b \<noteq> [])"
| "truthy (PList l) = (l \<noteq> [])"
| "truthy (PDict d) = (d \<noteq> [])"

text \<open>\<^verbatim>\<open>d.get(k)\<close>.\<close>

definition dget :: "pydict \<Rightarrow> string \<Rightarrow> pyval" where
  "dget d k = (case map_of d (key k) of None \<Rightarrow> PNone | Some v \<Rightarrow> v)"

definition dget_or :: "pydict \<Rightarrow> string \<Rightarrow> pyval \<Rightarrow> pyval" where
  "dget_or d k v0 = (case map_of d (key k) of None \<Rightarrow> v0 | Some v \<Rightarrow> v)"

definition dset :: "string \<Rightarrow> pyval \<Rightarrow> pydict \<Rightarrow> pydict" where
  "dset k v d = AList.update (key k) v d"

definition dpop :: "string \<Rightarrow> pydict \<Rightarrow> pydict" where
  "dpop k d = AList.delete (key k) d"

definition dhas :: "pydict \<Rightarrow> string \<Rightarrow> bool" where
  "dhas d k \<longleftrightarrow> map_of d (key k) \<noteq> None"

text \<open>\<^verbatim>\<open>d.update(e)\<close>.\<close>

definition dupdate :: "pydict \<Rightarrow> pydict \<Rightarrow> pydict" where
  "dupdate d e = fold (\<lambda>(k, v). AList.update k v) e d"

declare dget_def [py_eval] dget_or_def [py_eval] dset_def [py_eval] dpop_def [py_eval]
  dhas_def [py_eval] dupdate_def [py_eval]

text \<open>What \<^verbatim>\<open>json.dumps\<close> can serialise: anything without \<^verbatim>\<open>bytes\<close>, as a value or a key.\<close>

fun jsonable :: "pyval \<Rightarrow> bool" where
  "jsonable (PBytes _) = False"
| "jsonable (PList l) = list_all jsonable l"
| "jsonable (PDict d) =
     list_all (\<lambda>kv. (case fst kv of KS _ \<Rightarrow> True | KB _ \<Rightarrow> False) \<and> jsonable (snd kv)) d"
| "jsonable _ = True"

section \<open>Laws of dictionaries\<close>

lemma map_of_dset [dict_simps]: "map_of (dset k v d) = (map_of d)(key k \<mapsto> v)"
  by (simp add: dset_def update_conv')

lemma dget_dset [dict_simps]: "dget (dset k v d) k' = (if k' = k then v else dget d k')"
  by (simp add: dget_def map_of_dset)

lemma dhas_dset [dict_simps]: "dhas (dset k v d) k' = (k' = k \<or> dhas d k')"
  by (simp add: dhas_def map_of_dset)

lemma map_of_dpop [dict_simps]: "map_of (dpop k d) = (map_of d)(key k := None)"
  by (simp add: dpop_def delete_conv')

lemma dget_dpop [dict_simps]: "dget (dpop k d) k' = (if k' = k then PNone else dget d k')"
  by (simp add: dget_def map_of_dpop)

lemma dhas_dpop [dict_simps]: "dhas (dpop k d) k' = (k' \<noteq> k \<and> dhas d k')"
  by (simp add: dhas_def map_of_dpop)

lemma map_of_dupdate_notin:
  "k \<notin> fst ` set e \<Longrightarrow> map_of (dupdate d e) k = map_of d k"
  unfolding dupdate_def
proof (induction e arbitrary: d)
  case (Cons a e)
  then show ?case by (cases a) (simp add: update_conv')
qed simp

lemma map_of_dupdate:
  "distinct (map fst e) \<Longrightarrow>
   map_of (dupdate d e) k = (case map_of e k of Some v \<Rightarrow> Some v | None \<Rightarrow> map_of d k)"
proof (induction e arbitrary: d)
  case Nil
  then show ?case by (simp add: dupdate_def)
next
  case (Cons a e)
  obtain k' v where a: "a = (k', v)" by (cases a)
  have step: "dupdate d ((k', v) # e) = dupdate (AList.update k' v d) e"
    by (simp add: dupdate_def)
  from Cons.prems a have k': "k' \<notin> fst ` set e" and e: "distinct (map fst e)"
    by auto
  show ?case
  proof (cases "k = k'")
    case True
    with k' show ?thesis
      by (simp add: a step map_of_dupdate_notin update_conv')
  next
    case False
    with Cons.IH [OF e] show ?thesis
      by (simp add: a step update_conv' split: option.splits)
  qed
qed

lemma map_fst_dset_mem: "dhas d k \<Longrightarrow> map fst (dset k v d) = map fst d"
  by (auto simp: dset_def dhas_def update_keys map_of_eq_None_iff)

lemma distinct_dset: "distinct (map fst d) \<Longrightarrow> distinct (map fst (dset k v d))"
  by (simp add: dset_def distinct_update)

section \<open>Lists of text\<close>

text \<open>
  \<^verbatim>\<open>_dedupe\<close> and its kin: the first occurrence of every element, in order.
\<close>

fun dedupe_acc :: "'a list \<Rightarrow> 'a list \<Rightarrow> 'a list" where
  "dedupe_acc seen [] = []"
| "dedupe_acc seen (x # xs) =
     (if x \<in> set seen then dedupe_acc seen xs else x # dedupe_acc (x # seen) xs)"

lemma set_dedupe_acc: "set (dedupe_acc seen xs) = set xs - set seen"
  by (induction xs arbitrary: seen) auto

lemma distinct_dedupe_acc: "distinct (dedupe_acc seen xs)"
  by (induction xs arbitrary: seen) (auto simp: set_dedupe_acc)

lemma dedupe_acc_id: "distinct xs \<Longrightarrow> set xs \<inter> set seen = {} \<Longrightarrow> dedupe_acc seen xs = xs"
  by (induction xs arbitrary: seen) auto

text \<open>\<^verbatim>\<open>sorted(set(xs))\<close>.\<close>

definition sorted_set :: "('a :: linorder) list \<Rightarrow> 'a list" where
  "sorted_set xs = sort (remdups xs)"

lemma set_sorted_set [simp]: "set (sorted_set xs) = set xs"
  by (simp add: sorted_set_def)

lemma sorted_sorted_set [simp]: "sorted (sorted_set xs)" "distinct (sorted_set xs)"
  by (simp_all add: sorted_set_def)

lemma sorted_set_cong: "set xs = set ys \<Longrightarrow> sorted_set xs = sorted_set ys"
  by (rule sorted_distinct_set_unique) simp_all

lemma sorted_set_eq_Nil [simp]: "sorted_set xs = [] \<longleftrightarrow> xs = []"
  by (metis set_empty set_sorted_set)

declare sorted_set_def [py_eval]

end
