(* ===== verification/Model.thy ===== *)
theory Model
  imports Py_Value
begin

text \<open>
  The wire contracts of \<^verbatim>\<open>src/c2engine/model\<close>: the inbound session document (\<open>session_in\<close>
  and its parts, from session.py) and one row of the evidence ledger (\<open>c2_observation\<close>, from
  observation.py), with the rank every row is stamped with.  Only the fields the engine reads are
  modelled, as in the source; everything else rides in the raw document.
\<close>

section \<open>session.py\<close>

text \<open>
  A \<^verbatim>\<open>datetime\<close> is naive or aware; both count microseconds, the latter since the epoch in UTC.
\<close>

datatype datetime = Naive int | Aware int

record sensor =
  uuid :: pystr
  hostname :: pystr
  tags :: pydict
  asn :: pystr

record credential =
  username :: pystr
  password :: pystr
  success :: bool

record kex =
  kex_hassh :: "pystr option"
  hassh_algorithms :: pyval
  kex_algorithms :: pyval
  key_algorithms :: pyval
  enc_cs :: pyval
  mac_cs :: pyval
  comp_cs :: pyval
  lang_cs :: pyval

record file_ref =
  f_url :: pystr
  f_outfile :: pystr
  f_shasum :: pystr
  f_action :: pystr
  f_status :: pystr
  f_resolved_ip :: "pystr option"
  f_content_b64 :: "pystr option"

record hp_data =
  con_type :: pystr
  transport :: pystr
  hp_session :: pystr
  credentials :: "credential list"
  commands :: "pystr list"
  unknown_commands :: "pystr list"
  urls :: "pystr list"
  files :: "file_ref list"
  uploads :: "pyval list"
  hp_version :: "pystr option"
  ttylog :: "pystr option"
  arch :: "pystr option"
  client_height :: "int option"
  client_width :: "int option"
  key_fingerprint :: "pystr option"
  hp_kex :: "kex option"

record session_in =
  app :: pystr
  s_sensor :: sensor
  protocol :: pystr
  start_time :: "datetime option"
  end_time :: "datetime option"
  src_ip :: pystr
  src_port :: "int option"
  dst_ip :: pystr
  dst_port :: "int option"
  s_hp_data :: hp_data

text \<open>The defaults of the fields, so the document \<^verbatim>\<open>{}\<close> is a valid session.\<close>

definition default_sensor :: sensor where
  "default_sensor = \<lparr>uuid = [], hostname = [], tags = [], asn = []\<rparr>"

definition default_hp_data :: hp_data where
  "default_hp_data = \<lparr>con_type = u ''accept'', transport = u ''tcp'', hp_session = [],
     credentials = [], commands = [], unknown_commands = [], urls = [], files = [], uploads = [],
     hp_version = None, ttylog = None, arch = None, client_height = None, client_width = None,
     key_fingerprint = None, hp_kex = None\<rparr>"

definition default_session :: session_in where
  "default_session = \<lparr>app = u ''cowrie'', s_sensor = default_sensor, protocol = [],
     start_time = None, end_time = None, src_ip = [], src_port = None, dst_ip = [],
     dst_port = None, s_hp_data = default_hp_data\<rparr>"

text \<open>The validator that runs on \<^verbatim>\<open>start_time\<close> and \<^verbatim>\<open>end_time\<close> before they are parsed.\<close>

definition empty_str_is_none :: "pyval \<Rightarrow> pyval" where
  "empty_str_is_none v = (if v = PStr [] then PNone else v)"

definition session_id :: "session_in \<Rightarrow> pystr" where
  "session_id s = hp_session (s_hp_data s)"

definition sensor_uuid :: "session_in \<Rightarrow> pystr" where
  "sensor_uuid s = uuid (s_sensor s)"

definition sensor_hostname :: "session_in \<Rightarrow> pystr" where
  "sensor_hostname s = hostname (s_sensor s)"

definition session_hassh :: "session_in \<Rightarrow> pystr option" where
  "session_hassh s = (case hp_kex (s_hp_data s) of None \<Rightarrow> None | Some k \<Rightarrow> kex_hassh k)"

section \<open>observation.py\<close>

datatype evidence = shell_reference | served_file | file_callback
datatype host_kind = HK_ip | HK_domain
datatype file_kind = FK_script | FK_binary

definition EVIDENCE_RANK :: "evidence \<Rightarrow> int" where
  "EVIDENCE_RANK e = (case e of shell_reference \<Rightarrow> 0 | served_file \<Rightarrow> 1 | file_callback \<Rightarrow> 2)"

definition CONTENT_CAP :: int where
  "CONTENT_CAP = 256 * 1024"

definition SCHEMA_VERSION :: pystr where
  "SCHEMA_VERSION = u ''1''"

record c2_observation =
  schema_version :: pystr
  ts :: "datetime option"
  o_sensor_uuid :: pystr
  o_sensor_hostname :: pystr
  o_src_ip :: pystr
  o_session_id :: pystr
  c2_host :: pystr
  c2_host_kind :: host_kind
  c2_resolved_ip :: "pystr option"
  c2_url :: "pystr option"
  c2_port :: "int option"
  c2_path :: "pystr option"
  o_hassh :: "pystr option"
  c2_geo :: "(rat \<times> rat option) option"
  c2_country :: "pystr option"
  c2_asn :: "int option"
  c2_asn_org :: "pystr option"
  evidence :: evidence
  evidence_rank :: "int option"
  self_hosted :: bool
  file_kind :: "file_kind option"
  sha256 :: "pystr option"
  sha1 :: "pystr option"
  md5 :: "pystr option"
  o_size :: "nat option"
  magic :: "pystr option"
  family :: "pystr option"
  interpreter :: "pystr option"
  content :: "pystr option"
  content_truncated :: bool
  callbacks :: "pystr list"
  c2_via_sha256 :: "pystr option"

text \<open>The validator \<^verbatim>\<open>_stamp_rank\<close>, run on every row when it is built.\<close>

definition stamp_rank :: "c2_observation \<Rightarrow> c2_observation" where
  "stamp_rank obs =
     (if evidence_rank obs = None
      then obs\<lparr>evidence_rank := Some (EVIDENCE_RANK (evidence obs))\<rparr> else obs)"

lemma stamp_rank_frame [simp]:
  "c2_host (stamp_rank obs) = c2_host obs" "evidence (stamp_rank obs) = evidence obs"
  "c2_host_kind (stamp_rank obs) = c2_host_kind obs" "callbacks (stamp_rank obs) = callbacks obs"
  by (simp_all add: stamp_rank_def)

lemma stamp_rank_idem: "stamp_rank (stamp_rank obs) = stamp_rank obs"
  by (simp add: stamp_rank_def)

definition wf_rank :: "c2_observation \<Rightarrow> bool" where
  "wf_rank obs \<longleftrightarrow> evidence_rank obs = Some (EVIDENCE_RANK (evidence obs))"

lemmas model_eval [py_eval] = default_sensor_def default_hp_data_def default_session_def
  empty_str_is_none_def session_id_def sensor_uuid_def sensor_hostname_def session_hassh_def
  EVIDENCE_RANK_def SCHEMA_VERSION_def stamp_rank_def wf_rank_def

end
