(* ===== verification/Session_Analysis.thy ===== *)
theory Session_Analysis
  imports Py_Regex Py_Bytes Iocs Model
begin

text \<open>
  The other analyses of one session: \<^verbatim>\<open>analyze/canonical.py\<close> (the playbook hash),
  \<^verbatim>\<open>analyze/banner.py\<close> (the SSH banner as a CPE), \<^verbatim>\<open>analyze/credentials.py\<close> (the hash of the
  credential sequence) and \<^verbatim>\<open>analyze/shape.py\<close> (counts).
\<close>

section \<open>canonical.py\<close>

definition CRE_URL :: rx where
  "CRE_URL = rseq [rlit ''http'', ropt (rlit ''s''), rlit ''://'',
     rplus (NotIn (Space # [One 34, One 39, One 96, One 62]))]"

definition CRE_IPV4 :: rx where
  "CRE_IPV4 = RE_IPV4"

definition CRE_IPV6 :: rx where
  "CRE_IPV6 = rseq [RWordB, RRep 2 None True (RSeq (rrange 1 4 (In hex_items)) (rlit '':'')),
     rrange 1 4 (In hex_items), RWordB]"

definition CRE_TMPRAND :: rx where
  "CRE_TMPRAND = rseq [ralt [rlit ''/tmp'', rlit ''/var/tmp'', rlit ''/dev/shm''], rlit ''/'',
     ropt (rlit ''.''), rmin 6 (In (alnum_items @ oneof ''_.-''))]"

definition CRE_SSHKEY :: rx where
  "CRE_SSHKEY = rseq [RGrp 1 ssh_key_type, rplus (In [Space]),
     RGrp 2 (rmin 64 (In (alnum_items @ oneof ''+/='')))]"

definition CRE_B64BLOB :: rx where
  "CRE_B64BLOB = rseq [RWordB, rmin 32 (In (alnum_items @ oneof ''+/'')),
     rrange 0 2 (In [One 61]), RWordB]"

definition CRE_WS :: rx where
  "CRE_WS = rplus (In [Space])"

definition hash_short :: "('x) ext_scheme \<Rightarrow> pystr \<Rightarrow> pystr" where
  "hash_short E s = take 12 (h_sha1 E (ascii_bytes s))"

definition mgrp :: "rxmatch \<Rightarrow> nat \<Rightarrow> pystr" where
  "mgrp m n = (case grp m n of None \<Rightarrow> [] | Some s \<Rightarrow> s)"

definition collapse_ws :: "('x) ext_scheme \<Rightarrow> pystr \<Rightarrow> pystr" where
  "collapse_ws E s = rx_sub (str_class E) False CRE_WS (\<lambda>m. u '' '') s"

definition canonicalize_command :: "('x) ext_scheme \<Rightarrow> pystr \<Rightarrow> pystr" where
  "canonicalize_command E cmd =
     (let K = str_class E;
          s1 = rx_sub K False CRE_SSHKEY
                 (\<lambda>m. mgrp m 1 @ u '' <SSH_KEY:'' @ hash_short E (mgrp m 2) @ u ''>'') cmd;
          s2 = rx_sub K True CRE_URL (\<lambda>m. u ''<URL>'') s1;
          s3 = rx_sub K False CRE_IPV6 (\<lambda>m. u ''<IP>'') s2;
          s4 = rx_sub K False CRE_IPV4 (\<lambda>m. u ''<IP>'') s3;
          s5 = rx_sub K False CRE_TMPRAND
                 (\<lambda>m. (case rsplit1 47 (m_text m) of (Some d, _) \<Rightarrow> d | (None, t) \<Rightarrow> t)
                      @ u ''/<RAND>'') s4;
          s6 = rx_sub K False CRE_B64BLOB (\<lambda>m. u ''<B64:'' @ hash_short E (m_text m) @ u ''>'') s5
      in py_lower E (py_strip (collapse_ws E s6)))"

definition playbook_canonical_of :: "('x) ext_scheme \<Rightarrow> pystr list \<Rightarrow> pystr list \<Rightarrow> pystr" where
  "playbook_canonical_of E cmds unknown =
     py_join (u ''\<newline>'')
       (map (canonicalize_command E) cmds
        @ map (\<lambda>t. u ''[unknown] '' @ t) (map (canonicalize_command E) unknown))"

definition canonicalize_and_hash ::
  "('x) ext_scheme \<Rightarrow> pystr list \<Rightarrow> pystr list \<Rightarrow> (pystr \<times> pystr) res" where
  "canonicalize_and_hash E cmds unknown =
     (let canonical = playbook_canonical_of E cmds unknown in
      rbind (utf8_encode canonical) (\<lambda>bs. Inr (canonical, h_sha1 E bs)))"

section \<open>banner.py\<close>

record cpe =
  cpe_vendor :: "pystr option"
  cpe_product :: "pystr option"
  cpe_version :: "pystr option"
  cpe23 :: "pystr option"

definition no_cpe :: cpe where
  "no_cpe = \<lparr>cpe_vendor = None, cpe_product = None, cpe_version = None, cpe23 = None\<rparr>"

definition banner_items :: "citem list" where
  "banner_items = alnum_items @ oneof ''._-''"

definition BANNER_RE :: rx where
  "BANNER_RE = rseq [RBos, rlit ''SSH-'', rplus (In [Digit]), rlit ''.'', rplus (In [Digit]),
     rlit ''-'',
     RGrp 1 (RSeq (RChr (In alnum_items)) (RRep 0 None False (RChr (In banner_items)))),
     ropt (RSeq (RChr (In (oneof ''_-''))) (RGrp 2 (rplus (In banner_items)))),
     RAlt (RChr (In [Space])) REos]"

definition KNOWN :: "(string \<times> string \<times> string) list" where
  "KNOWN =
     [(''openssh'', ''openbsd'', ''openssh''),
      (''libssh'', ''libssh'', ''libssh''),
      (''dropbear'', ''dropbear_ssh_project'', ''dropbear_ssh''),
      (''paramiko'', ''paramiko'', ''paramiko''),
      (''russh'', ''russh_project'', ''russh''),
      (''go'', ''golang'', ''go''),
      (''golang'', ''golang'', ''go''),
      (''putty'', ''putty'', ''putty''),
      (''winscp'', ''winscp'', ''winscp''),
      (''jsch'', ''jcraft'', ''jsch''),
      (''asyncssh'', ''asyncssh_project'', ''asyncssh''),
      (''trilead'', ''trilead'', ''ssh-2'')]"

definition known_product :: "pystr \<Rightarrow> pystr \<times> pystr" where
  "known_product sw =
     (case map_of (map (\<lambda>(k, v, p). (u k, u v, u p)) KNOWN) sw of
        Some vp \<Rightarrow> vp | None \<Rightarrow> (sw, sw))"

definition parse_banner :: "('x) ext_scheme \<Rightarrow> pystr option \<Rightarrow> cpe option" where
  "parse_banner E banner =
     (case banner of None \<Rightarrow> None
      | Some b \<Rightarrow>
        if b = [] then None
        else (case rx_match (str_class E) False BANNER_RE (py_strip b) of
            None \<Rightarrow> Some no_cpe
          | Some m \<Rightarrow>
              (let software = mgrp m 1; version = mgrp m 2;
                   (vendor, product) = known_product (py_lower E software)
               in Some \<lparr>cpe_vendor = Some vendor, cpe_product = Some product,
                        cpe_version = (if version = [] then None else Some version),
                        cpe23 = (if version = [] then None
                                 else Some (u ''cpe:2.3:a:'' @ vendor @ u '':'' @ product @ u '':''
                                            @ version @ u '':*:*:*:*:*:*:*''))\<rparr>)))"

section \<open>credentials.py\<close>

record cred_enrichment =
  pairs_seen :: nat
  sequence_hash :: "pystr option"
  success_user :: "pystr option"
  success_pass :: "pystr option"

definition cred_pair :: "credential \<Rightarrow> pystr" where
  "cred_pair c = username c @ [1] @ password c"

definition cred_sequence :: "credential list \<Rightarrow> pystr" where
  "cred_sequence cs = py_join [0] (map cred_pair cs)"

definition enrich_credentials ::
  "('x) ext_scheme \<Rightarrow> credential list \<Rightarrow> cred_enrichment res" where
  "enrich_credentials E cs =
     (let hit = find success cs;
          base = \<lparr>pairs_seen = length cs, sequence_hash = None,
                  success_user = map_option username hit, success_pass = map_option password hit\<rparr>
      in if cs = [] then Inr base
         else rbind (utf8_encode (cred_sequence cs))
                (\<lambda>bs. Inr (base\<lparr>sequence_hash := Some (h_sha1 E bs)\<rparr>)))"

section \<open>shape.py\<close>

record shape_features =
  duration_s :: "rat option"
  command_count :: nat
  unknown_command_count :: nat
  cred_attempts :: nat
  failed_attempts_before_success :: "nat option"
  ttylog_bytes :: nat
  has_pty :: bool
  distinct_urls :: nat
  distinct_file_hashes :: nat

definition duration :: "datetime option \<Rightarrow> datetime option \<Rightarrow> rat option res" where
  "duration start stop =
     (case (start, stop) of
        (Some (Naive a), Some (Naive b)) \<Rightarrow> Inr (Some (of_int (b - a) / 1000000))
      | (Some (Aware a), Some (Aware b)) \<Rightarrow> Inr (Some (of_int (b - a) / 1000000))
      | (Some _, Some _) \<Rightarrow> Inl TypeError
      | _ \<Rightarrow> Inr None)"

fun failed_before_success :: "nat \<Rightarrow> credential list \<Rightarrow> nat option" where
  "failed_before_success n [] = None"
| "failed_before_success n (c # cs) =
     (if success c then Some n else failed_before_success (Suc n) cs)"

definition pos_or_zero :: "int option \<Rightarrow> int" where
  "pos_or_zero v = (case v of None \<Rightarrow> 0 | Some n \<Rightarrow> n)"

definition compute_shape :: "session_in \<Rightarrow> shape_features res" where
  "compute_shape s =
     (let hp = s_hp_data s in
      rbind (duration (start_time s) (end_time s)) (\<lambda>d.
        Inr \<lparr>duration_s = d,
             command_count = length (commands hp),
             unknown_command_count = length (unknown_commands hp),
             cred_attempts = length (credentials hp),
             failed_attempts_before_success = failed_before_success 0 (credentials hp),
             ttylog_bytes = length (case ttylog hp of None \<Rightarrow> [] | Some t \<Rightarrow> t) div 2,
             has_pty = (0 < pos_or_zero (client_width hp) \<and> 0 < pos_or_zero (client_height hp)),
             distinct_urls = length (remdups (filter (\<lambda>x. x \<noteq> []) (urls hp))),
             distinct_file_hashes =
               length (remdups (filter (\<lambda>x. x \<noteq> []) (map f_shasum (files hp))))\<rparr>))"

section \<open>Laws\<close>

lemma failed_before_success_shift:
  "failed_before_success n cs = map_option (\<lambda>k. n + k) (failed_before_success 0 cs)"
proof (induction cs arbitrary: n)
  case (Cons c cs)
  show ?case
  proof (cases "success c")
    case False
    have "failed_before_success (Suc n) cs = map_option (\<lambda>k. Suc n + k) (failed_before_success 0 cs)"
      "failed_before_success (Suc 0) cs = map_option (\<lambda>k. Suc 0 + k) (failed_before_success 0 cs)"
      by (rule Cons)+
    with False show ?thesis by (simp add: option.map_comp comp_def)
  qed simp
qed simp

lemma failed_before_success_takeWhile:
  "failed_before_success 0 cs =
     (if list_ex success cs then Some (length (takeWhile (\<lambda>c. \<not> success c) cs)) else None)"
proof (induction cs)
  case (Cons c cs)
  then show ?case
    by (simp add: failed_before_success_shift [of "Suc 0" cs])
qed simp

text \<open>Splitting a joined sequence gives the pieces back when no piece holds the separator.\<close>

lemma split1_fst_notin: "c \<notin> set (fst (split1 c s))"
  by (induction c s rule: split1.induct) (auto split: prod.splits)

definition plain_cred :: "credential \<Rightarrow> bool" where
  "plain_cred c \<longleftrightarrow> 0 \<notin> set (username c) \<and> 0 \<notin> set (password c) \<and> 1 \<notin> set (username c)"

lemma cred_pair_inject:
  assumes "plain_cred c" "plain_cred d" "cred_pair c = cred_pair d"
  shows "username c = username d \<and> password c = password d"
proof -
  have split: "split1 1 (cred_pair x) = (username x, Some (password x))" if "plain_cred x" for x
    using that by (simp add: cred_pair_def plain_cred_def split1_append)
  show ?thesis
    using split [OF assms(1)] split [OF assms(2)] assms(3) by simp
qed

lemma cred_sequence_inject:
  assumes "list_all plain_cred cs" "list_all plain_cred ds" "cs \<noteq> []" "ds \<noteq> []"
    and "cred_sequence cs = cred_sequence ds"
  shows "map cred_pair cs = map cred_pair ds"
proof -
  have sep: "list_all (\<lambda>x. 0 \<notin> set x) (map cred_pair xs)" if "list_all plain_cred xs" for xs
    using that by (induction xs) (auto simp: plain_cred_def cred_pair_def)
  show ?thesis
    using split_on_join [OF _ sep [OF assms(1)]] split_on_join [OF _ sep [OF assms(2)]] assms(3-5)
    by (metis cred_sequence_def map_is_Nil_conv)
qed

lemmas analysis_eval [py_eval] = CRE_URL_def CRE_IPV4_def CRE_IPV6_def CRE_TMPRAND_def
  CRE_SSHKEY_def CRE_B64BLOB_def CRE_WS_def hash_short_def mgrp_def collapse_ws_def
  canonicalize_command_def playbook_canonical_of_def canonicalize_and_hash_def no_cpe_def
  banner_items_def BANNER_RE_def KNOWN_def known_product_def parse_banner_def cred_pair_def
  cred_sequence_def enrich_credentials_def duration_def pos_or_zero_def compute_shape_def
  plain_cred_def

section \<open>Properties\<close>

lemma find_first:
  assumes "i < length xs" "P (xs ! i)" "\<forall>j < i. \<not> P (xs ! j)"
  shows "find P xs = Some (xs ! i)" "length (takeWhile (\<lambda>x. \<not> P x) xs) = i"
proof -
  show "find P xs = Some (xs ! i)"
    using assms by (auto simp: find_Some_iff)
  show "length (takeWhile (\<lambda>x. \<not> P x) xs) = i"
    using assms by (subst takeWhile_eq_take_P_nth [of i]) auto
qed

text \<open>
  The two places that read the login attempts agree: if the first success is attempt \<open>i\<close>, the
  credential columns hold that attempt's pair and the shape columns count \<open>i\<close> failures before it;
  with no success all three are null.  Every attempt is counted.
\<close>

theorem first_success_agrees:
  assumes "enrich_credentials E (credentials (s_hp_data s)) = Inr e" "compute_shape s = Inr sh"
    and "cs = credentials (s_hp_data s)"
  shows "pairs_seen e = length cs \<and> cred_attempts sh = length cs \<and>
    (\<forall>i < length cs. success (cs ! i) \<and> (\<forall>j < i. \<not> success (cs ! j)) \<longrightarrow>
       success_user e = Some (username (cs ! i)) \<and> success_pass e = Some (password (cs ! i)) \<and>
       failed_attempts_before_success sh = Some i) \<and>
    (\<not> list_ex success cs \<longrightarrow>
       success_user e = None \<and> success_pass e = None \<and> failed_attempts_before_success sh = None)"
proof -
  let ?cs = "credentials (s_hp_data s)"
  have e: "pairs_seen e = length ?cs" "success_user e = map_option username (find success ?cs)"
    "success_pass e = map_option password (find success ?cs)"
    using assms(1) by (auto simp: enrich_credentials_def Let_def rbind_eq_Inr split: if_splits)
  have sh: "cred_attempts sh = length ?cs"
    "failed_attempts_before_success sh = failed_before_success 0 ?cs"
    using assms(2) by (auto simp: compute_shape_def Let_def rbind_eq_Inr)
  have first: "success_user e = Some (username (?cs ! i)) \<and> success_pass e = Some (password (?cs ! i)) \<and>
      failed_attempts_before_success sh = Some i"
    if "i < length ?cs" "success (?cs ! i)" "\<forall>j < i. \<not> success (?cs ! j)" for i
    using that e sh find_first [of i ?cs success]
    by (auto simp: failed_before_success_takeWhile list_ex_iff)
  have none: "\<not> list_ex success ?cs \<Longrightarrow>
      success_user e = None \<and> success_pass e = None \<and> failed_attempts_before_success sh = None"
    using e sh by (auto simp: failed_before_success_takeWhile list_ex_iff find_None_iff)
  show ?thesis
    unfolding assms(3) using e(1) sh(1) first none by blast
qed

text \<open>
  What the credential hash is taken of determines the whole ordered sequence of username and
  password pairs, as long as no credential holds the two separator characters: two sessions share a
  sequence hash only if they tried the same pairs in the same order (or the digest collides).
\<close>

theorem credential_hash_input_injective:
  assumes "list_all plain_cred cs" "list_all plain_cred ds" "cs \<noteq> []" "ds \<noteq> []"
    and "cred_sequence cs = cred_sequence ds"
  shows "map (\<lambda>c. (username c, password c)) cs = map (\<lambda>c. (username c, password c)) ds"
proof -
  have m: "map cred_pair cs = map cred_pair ds"
    using assms by (rule cred_sequence_inject)
  then have len: "length cs = length ds" by (rule map_eq_imp_length_eq)
  show ?thesis
    using len m assms(1,2)
    by (induction cs ds rule: list_induct2) (auto dest: cred_pair_inject)
qed

text \<open>
  The playbook hash can be computed exactly when no canonical line holds a lone surrogate,
  and then the hash is that of the UTF-8 form of the joined lines, one per command in order.
\<close>

theorem playbook_hash_total_iff:
  "(\<exists>r. canonicalize_and_hash E cmds unknown = Inr r) \<longleftrightarrow>
     list_all (\<lambda>c. list_all (\<lambda>x. \<not> is_surrogate x) (canonicalize_command E c)) (cmds @ unknown)"
proof -
  let ?ok = "list_all (\<lambda>x. \<not> is_surrogate x)"
  have J: "?ok (py_join [10] xs) \<longleftrightarrow> list_all ?ok xs" for xs
    by (induction "[10 :: int]" xs rule: py_join.induct) (auto simp: is_surrogate_def)
  have "(\<exists>r. canonicalize_and_hash E cmds unknown = Inr r) \<longleftrightarrow>
      (\<exists>bs. utf8_encode (playbook_canonical_of E cmds unknown) = Inr bs)"
    by (cases "utf8_encode (playbook_canonical_of E cmds unknown)")
      (simp_all add: canonicalize_and_hash_def Let_def)
  also have "\<dots> \<longleftrightarrow> ?ok (py_join [10] (map (canonicalize_command E) cmds
        @ map (\<lambda>c. u ''[unknown] '' @ canonicalize_command E c) unknown))"
    by (simp add: utf8_encode_Inr_iff playbook_canonical_of_def u_def comp_def)
  also have "\<dots> \<longleftrightarrow> list_all (\<lambda>c. ?ok (canonicalize_command E c)) (cmds @ unknown)"
    unfolding J by (simp add: list.pred_map comp_def u_def is_surrogate_def)
  finally show ?thesis .
qed

section \<open>Concrete inputs\<close>

definition demo_creds :: "credential list" where
  "demo_creds = [\<lparr>username = u ''root'', password = u ''1234'', success = False\<rparr>,
                 \<lparr>username = u ''root'', password = u ''admin'', success = True\<rparr>]"

definition demo_login :: session_in where
  "demo_login = default_session\<lparr>s_hp_data := default_hp_data\<lparr>credentials := demo_creds\<rparr>\<rparr>"

theorem first_success_agrees_witness:
  "\<exists>e sh. enrich_credentials ascii_ext (credentials (s_hp_data demo_login)) = Inr e \<and>
     compute_shape demo_login = Inr sh \<and> success_pass e = Some (u ''admin'') \<and>
     failed_attempts_before_success sh = Some 1"
proof -
  have cs: "credentials (s_hp_data demo_login) = demo_creds" "length demo_creds = 2"
    by (simp_all add: demo_login_def demo_creds_def)
  have "res_ok (\<lambda>_. True) (enrich_credentials ascii_ext (credentials (s_hp_data demo_login)))"
    "res_ok (\<lambda>_. True) (compute_shape demo_login)" by code_simp+
  then obtain e sh where e: "enrich_credentials ascii_ext (credentials (s_hp_data demo_login)) = Inr e"
    and sh: "compute_shape demo_login = Inr sh" by (auto elim!: res_okE)
  show ?thesis
    using first_success_agrees [OF e sh cs(1) [symmetric]] e sh
    by (auto simp: demo_creds_def dest: spec [of _ 1])
qed

theorem credential_hash_input_injective_witness:
  "map (\<lambda>c. (username c, password c)) demo_creds =
   map (\<lambda>c. (username c, password c)) (map (\<lambda>c. c\<lparr>success := False\<rparr>) demo_creds)"
proof (rule credential_hash_input_injective)
  show "list_all plain_cred demo_creds" "list_all plain_cred (map (\<lambda>c. c\<lparr>success := False\<rparr>) demo_creds)"
    by code_simp+
  show "demo_creds \<noteq> []" "map (\<lambda>c. c\<lparr>success := False\<rparr>) demo_creds \<noteq> []"
    by (simp_all add: demo_creds_def)
  show "cred_sequence demo_creds = cred_sequence (map (\<lambda>c. c\<lparr>success := False\<rparr>) demo_creds)"
    by code_simp
qed

end
