(* ===== verification/Shell_Unwrap.thy ===== *)
theory Shell_Unwrap
  imports Py_Regex Py_Bytes
begin

text \<open>
  \<^verbatim>\<open>analyze/shell.py\<close>: the payloads attackers hide in \<^verbatim>\<open>base64 -d\<close>, \<^verbatim>\<open>echo ... | sh\<close> and
  \<^verbatim>\<open>eval\<close> wrappers.  \<open>unwrap_once\<close> lifts the payloads out of one text, \<open>expand_one\<close> is the
  bounded breadth-first search from one command, \<open>expanded_text\<close> the text all later passes read.
  The search is proved against the relation \<open>unwraps\<close>: it lists exactly the texts at most
  \<open>MAX_RECURSION\<close> unwrappings away, each once.
\<close>

section \<open>Patterns\<close>

definition b64_items :: "citem list" where
  "b64_items = alnum_items @ oneof ''+/=''"

definition quote_items :: "citem list" where
  "quote_items = [One 34, One 39]"

definition decode_flag :: rx where
  "decode_flag = RAlt (rlit ''-d'') (rlit ''--decode'')"

definition BASE64_PATTERNS :: "rx list" where
  "BASE64_PATTERNS =
     [rseq [rlit ''base64'', rplus (In [Space]), decode_flag, rplus (In [Space]), rlit ''<<<'',
            rstar (In [Space]), ropt (RChr (In quote_items)), RGrp 1 (rplus (In b64_items)),
            ropt (RChr (In quote_items))],
      rseq [rlit ''echo'', rplus (In [Space]), RChr (In quote_items), RGrp 1 (rplus (In b64_items)),
            RChr (In quote_items), rstar (In [Space]), rlit ''|'', rstar (In [Space]),
            rlit ''base64'', rplus (In [Space]), decode_flag]]"

definition ECHO_PIPE_SH :: rx where
  "ECHO_PIPE_SH =
     rseq [rlit ''echo'', rplus (In [Space]), RChr (In quote_items),
           RGrp 1 (RRep 1 None False (RChr AnyChar)), RChr (In quote_items), rstar (In [Space]),
           rlit ''|'', rstar (In [Space]),
           ralt [rlit ''sh'', rlit ''bash'', rlit ''/bin/sh'', rlit ''/bin/bash''], RWordB]"

definition EVAL_SUBSHELL :: rx where
  "EVAL_SUBSHELL =
     rseq [rlit ''eval'', rplus (In [Space]), rplus (In [One 34, One 96, One 36, One 40]),
           RGrp 1 (RRep 1 None False (RChr AnyChar)), rplus (In [One 96, One 41, One 34])]"

definition MAX_RECURSION :: nat where
  "MAX_RECURSION = 4"

section \<open>Unwrapping\<close>

definition pad_b64 :: "pystr \<Rightarrow> pystr" where
  "pad_b64 s = s @ replicate (nat ((- int (length s)) mod 4)) 61"

definition try_b64_decode :: "pystr \<Rightarrow> pystr option" where
  "try_b64_decode blob =
     (case b64_decode (pad_b64 (py_strip blob)) of
        Inl _ \<Rightarrow> None
      | Inr raw \<Rightarrow>
          (case utf8_decode raw of
             Inr s \<Rightarrow> Some s
           | Inl _ \<Rightarrow> Some (latin1_decode raw)))"

definition group1 :: "rxmatch \<Rightarrow> pystr" where
  "group1 m = (case grp m 1 of None \<Rightarrow> [] | Some s \<Rightarrow> s)"

definition decoded_hits :: "rxmatch list \<Rightarrow> pystr list" where
  "decoded_hits ms =
     concat (map (\<lambda>m. case try_b64_decode (group1 m) of
                        None \<Rightarrow> [] | Some d \<Rightarrow> if d = [] then [] else [d]) ms)"

definition unwrap_once :: "('x) ext_scheme \<Rightarrow> pystr \<Rightarrow> pystr list" where
  "unwrap_once E txt =
     concat (map (\<lambda>pat. decoded_hits (rx_finditer (str_class E) True pat txt)) BASE64_PATTERNS)
     @ map group1 (rx_finditer (str_class E) True ECHO_PIPE_SH txt)
     @ map group1 (rx_finditer (str_class E) True EVAL_SUBSHELL txt)"

section \<open>The bounded search\<close>

text \<open>The loop over the payloads of one queue entry: what is new is seen, listed and queued.\<close>

fun note_new :: "'a list \<Rightarrow> 'a list \<times> 'a list \<Rightarrow> 'a list \<times> 'a list" where
  "note_new [] st = st"
| "note_new (d # ds) (seen, nxt) =
     (if d \<in> set seen then note_new ds (seen, nxt) else note_new ds (seen @ [d], nxt @ [d]))"

fun visit_queue :: "('a \<Rightarrow> 'a list) \<Rightarrow> 'a list \<Rightarrow> 'a list \<times> 'a list \<Rightarrow> 'a list \<times> 'a list" where
  "visit_queue f [] st = st"
| "visit_queue f (t # q) st = visit_queue f q (note_new (f t) st)"

text \<open>
  The \<^verbatim>\<open>while queue and depth < _MAX_RECURSION\<close> loop.  The lines appended for a command are
  exactly the members of \<^verbatim>\<open>seen\<close> in the order they were added, so one list stands for both.
\<close>

fun expand_loop :: "('a \<Rightarrow> 'a list) \<Rightarrow> nat \<Rightarrow> 'a list \<Rightarrow> 'a list \<Rightarrow> 'a list" where
  "expand_loop f 0 queue seen = seen"
| "expand_loop f (Suc d) queue seen =
     (if queue = [] then seen
      else (let (seen', nxt) = visit_queue f queue (seen, []) in expand_loop f d nxt seen'))"

definition expand_one :: "('x) ext_scheme \<Rightarrow> pystr \<Rightarrow> pystr list" where
  "expand_one E raw = expand_loop (unwrap_once E) MAX_RECURSION [raw] [raw]"

definition expanded_lines :: "('x) ext_scheme \<Rightarrow> pystr list \<Rightarrow> pystr list" where
  "expanded_lines E cmds = concat (map (expand_one E) cmds)"

definition expanded_text :: "('x) ext_scheme \<Rightarrow> pystr list \<Rightarrow> pystr" where
  "expanded_text E cmds = py_join (u ''\<newline>'') (expanded_lines E cmds)"

section \<open>The search lists exactly what is near enough\<close>

inductive unwraps :: "('a \<Rightarrow> 'a list) \<Rightarrow> nat \<Rightarrow> 'a \<Rightarrow> 'a \<Rightarrow> bool" for f where
  unwraps_here: "unwraps f 0 s s"
| unwraps_step: "unwraps f n s t \<Longrightarrow> d \<in> set (f t) \<Longrightarrow> unwraps f (Suc n) s d"

inductive_simps unwraps_0 [simp]: "unwraps f 0 s t"
inductive_simps unwraps_Suc: "unwraps f (Suc n) s t"

definition within :: "('a \<Rightarrow> 'a list) \<Rightarrow> nat \<Rightarrow> 'a \<Rightarrow> 'a set" where
  "within f n s = {t. \<exists>m \<le> n. unwraps f m s t}"

lemma within_0 [simp]: "within f 0 s = {s}"
  by (auto simp: within_def)

lemma within_Suc: "within f (Suc n) s = within f n s \<union> (\<Union>t \<in> within f n s. set (f t))"
proof (intro equalityI subsetI)
  fix x assume "x \<in> within f (Suc n) s"
  then obtain m where "m \<le> Suc n" "unwraps f m s x" by (auto simp: within_def)
  then show "x \<in> within f n s \<union> (\<Union>t \<in> within f n s. set (f t))"
    by (cases m) (auto simp: within_def unwraps_Suc)
next
  fix x assume "x \<in> within f n s \<union> (\<Union>t \<in> within f n s. set (f t))"
  then consider m where "m \<le> n" "unwraps f m s x" | m t where "m \<le> n" "unwraps f m s t" "x \<in> set (f t)"
    by (auto simp: within_def)
  then show "x \<in> within f (Suc n) s"
    unfolding within_def by cases (blast intro: le_SucI unwraps_step Suc_le_mono [THEN iffD2])+
qed

lemma note_new_sets:
  assumes "note_new ds (seen, nxt) = (seen', nxt')"
  shows "\<exists>new. seen' = seen @ new \<and> nxt' = nxt @ new \<and> set new = set ds - set seen \<and> distinct new"
  using assms
proof (induction ds arbitrary: seen nxt)
  case (Cons d ds)
  show ?case
  proof (cases "d \<in> set seen")
    case True
    with Cons show ?thesis by fastforce
  next
    case False
    with Cons.prems have "note_new ds (seen @ [d], nxt @ [d]) = (seen', nxt')" by simp
    from Cons.IH [OF this] obtain new where
      "seen' = (seen @ [d]) @ new" "nxt' = (nxt @ [d]) @ new" "set new = set ds - set (seen @ [d])"
      "distinct new" by blast
    with False show ?thesis by (intro exI [of _ "d # new"]) auto
  qed
qed simp

lemma visit_queue_sets:
  assumes "visit_queue f q (seen, nxt) = (seen', nxt')"
  shows "\<exists>new. seen' = seen @ new \<and> nxt' = nxt @ new \<and>
           set new = (\<Union>t \<in> set q. set (f t)) - set seen \<and> distinct new"
  using assms
proof (induction q arbitrary: seen nxt)
  case (Cons t q)
  obtain s1 n1 where st: "note_new (f t) (seen, nxt) = (s1, n1)"
    by (cases "note_new (f t) (seen, nxt)")
  then obtain a where a: "s1 = seen @ a" "n1 = nxt @ a" "set a = set (f t) - set seen" "distinct a"
    using note_new_sets by blast
  have "visit_queue f q (s1, n1) = (seen', nxt')"
    using Cons.prems st by simp
  from Cons.IH [OF this] obtain b where b: "seen' = s1 @ b" "nxt' = n1 @ b"
    "set b = (\<Union>t \<in> set q. set (f t)) - set s1" "distinct b" by blast
  from a b show ?case by (intro exI [of _ "a @ b"]) auto
qed simp

text \<open>
  The invariant of the loop: \<open>seen\<close> is what \<open>n\<close> unwrappings reach, and whatever one more
  unwrapping reaches is seen already or comes out of the queue.
\<close>

lemma expand_loop_set:
  assumes "set seen = within f n s"
    and "(\<Union>t \<in> within f n s. set (f t)) \<subseteq> within f n s \<union> (\<Union>t \<in> set queue. set (f t))"
    and "set queue \<subseteq> within f n s"
  shows "set (expand_loop f d queue seen) = within f (n + d) s"
  using assms
proof (induction d arbitrary: n queue seen)
  case (Suc d)
  show ?case
  proof (cases "queue = []")
    case True
    with Suc.prems have closed: "(\<Union>t \<in> within f n s. set (f t)) \<subseteq> within f n s" by simp
    have "within f (n + k) s = within f n s" for k
      using closed by (induction k) (auto simp: within_Suc)
    with True Suc.prems show ?thesis
      by (metis expand_loop.simps(2))
  next
    case False
    obtain seen' nxt where v: "visit_queue f queue (seen, []) = (seen', nxt)"
      by (cases "visit_queue f queue (seen, [])")
    from visit_queue_sets [OF v] have new: "set seen' = set seen \<union> set nxt"
      "set nxt = (\<Union>t \<in> set queue. set (f t)) - set seen" by auto
    have "set seen' = within f (Suc n) s"
      using new Suc.prems by (auto simp: within_Suc)
    moreover have "(\<Union>t \<in> within f (Suc n) s. set (f t))
        \<subseteq> within f (Suc n) s \<union> (\<Union>t \<in> set nxt. set (f t))"
    proof
      fix x assume "x \<in> (\<Union>t \<in> within f (Suc n) s. set (f t))"
      then obtain t where t: "t \<in> within f (Suc n) s" "x \<in> set (f t)" by blast
      show "x \<in> within f (Suc n) s \<union> (\<Union>t \<in> set nxt. set (f t))"
      proof (cases "t \<in> within f n s")
        case True
        with t show ?thesis by (auto simp: within_Suc)
      next
        case False
        with t new Suc.prems have "t \<in> set nxt" by (auto simp: within_Suc)
        with t show ?thesis by blast
      qed
    qed
    moreover have "set nxt \<subseteq> within f (Suc n) s"
      using new Suc.prems by (auto simp: within_Suc)
    ultimately have "set (expand_loop f d nxt seen') = within f (Suc n + d) s"
      by (rule Suc.IH)
    with False v show ?thesis by simp
  qed
qed simp

lemma expand_loop_distinct: "distinct seen \<Longrightarrow> distinct (expand_loop f d queue seen)"
proof (induction d arbitrary: queue seen)
  case (Suc d)
  show ?case
  proof (cases "queue = []")
    case False
    obtain seen' nxt where v: "visit_queue f queue (seen, []) = (seen', nxt)"
      by (cases "visit_queue f queue (seen, [])")
    from visit_queue_sets [OF v] Suc.prems have "distinct seen'" by auto
    with Suc.IH False v show ?thesis by simp
  qed (use Suc in simp)
qed simp

lemma expand_loop_prefix: "prefix seen (expand_loop f d queue seen)"
proof (induction d arbitrary: queue seen)
  case (Suc d)
  show ?case
  proof (cases "queue = []")
    case False
    obtain seen' nxt where v: "visit_queue f queue (seen, []) = (seen', nxt)"
      by (cases "visit_queue f queue (seen, [])")
    from visit_queue_sets [OF v] have "prefix seen seen'" by auto
    with Suc.IH False v show ?thesis by (auto intro: prefix_order.trans)
  qed simp
qed simp

lemma expand_one_set: "set (expand_one E raw) = within (unwrap_once E) MAX_RECURSION raw"
  unfolding expand_one_def using expand_loop_set [of "[raw]" "unwrap_once E" 0 raw "[raw]" MAX_RECURSION]
  by auto

lemma expand_one_hd: "\<exists>rest. expand_one E raw = raw # rest"
  using expand_loop_prefix [of "[raw]" "unwrap_once E" MAX_RECURSION "[raw]"]
  by (auto simp: expand_one_def prefix_def)

lemmas shell_eval [py_eval] = b64_items_def quote_items_def decode_flag_def BASE64_PATTERNS_def
  ECHO_PIPE_SH_def EVAL_SUBSHELL_def MAX_RECURSION_def pad_b64_def try_b64_decode_def group1_def
  decoded_hits_def unwrap_once_def expand_one_def expanded_lines_def expanded_text_def

text \<open>
  C35. The text the IoC and playbook passes read: for every command it lists the command first and
  then, each once, exactly the payloads that at most four unwrappings reach.
\<close>

theorem expand_one_correct:
  "set (expand_one E raw) = {t. \<exists>n \<le> 4. unwraps (unwrap_once E) n raw t}
   \<and> distinct (expand_one E raw) \<and> hd (expand_one E raw) = raw"
proof (intro conjI)
  show "set (expand_one E raw) = {t. \<exists>n \<le> 4. unwraps (unwrap_once E) n raw t}"
    by (simp add: expand_one_set within_def MAX_RECURSION_def)
  show "distinct (expand_one E raw)"
    by (simp add: expand_one_def expand_loop_distinct)
  show "hd (expand_one E raw) = raw"
    using expand_one_hd [of E raw] by auto
qed

end
