(* ===== verification/Extract.thy ===== *)
theory Extract
  imports Session_Analysis Shell_Unwrap
begin

text \<open>
  \<^verbatim>\<open>context.py\<close>, \<^verbatim>\<open>pipeline/extract\<close> and the family rules of \<^verbatim>\<open>pipeline/enrich/family.py\<close>:
  from one session to the rows of the evidence ledger.  \<open>shell_references\<close>, \<open>served_files\<close> and
  \<open>file_callbacks\<close> are the three producers, \<open>all_observations\<close> their concatenation.
\<close>

section \<open>context.py\<close>

record session_context =
  ctx_iocs :: ioc_bundle
  ctx_playbook_canonical :: pystr
  ctx_playbook_hash :: pystr
  ctx_banner :: "cpe option"
  ctx_creds :: cred_enrichment
  ctx_shape :: shape_features

definition build_context :: "('x) ext_scheme \<Rightarrow> session_in \<Rightarrow> session_context res" where
  "build_context E s =
     (let hp = s_hp_data s; expanded = expanded_text E (commands hp @ unknown_commands hp) in
      rbind (ioc_extract E expanded (urls hp)) (\<lambda>iocs.
      rbind (canonicalize_and_hash E (commands hp) (unknown_commands hp)) (\<lambda>(canonical, phash).
      rbind (enrich_credentials E (credentials hp)) (\<lambda>creds.
      rbind (compute_shape s) (\<lambda>shape.
        Inr \<lparr>ctx_iocs = iocs, ctx_playbook_canonical = canonical, ctx_playbook_hash = phash,
             ctx_banner = parse_banner E (hp_version hp), ctx_creds = creds, ctx_shape = shape\<rparr>)))))"

section \<open>_util.py\<close>

definition classify_host :: "pystr \<Rightarrow> host_kind" where
  "classify_host h = (case ip_address h of Inr _ \<Rightarrow> HK_ip | Inl _ \<Rightarrow> HK_domain)"

definition split_url :: "('x) ext_scheme \<Rightarrow> pystr \<Rightarrow> (pystr \<times> int option \<times> pystr) res" where
  "split_url E url =
     rbind (urlsplit E url) (\<lambda>parts.
       (let host = py_lower E (case sr_hostname E parts of None \<Rightarrow> [] | Some h \<Rightarrow> h) in
        rbind (sr_port parts) (\<lambda>port. Inr (host, port, sr_path parts))))"

definition find_hosts :: "('x) ext_scheme \<Rightarrow> pystr \<Rightarrow> (pystr \<times> host_kind) list res" where
  "find_hosts E txt =
     rbind (ioc_extract E (expanded_text E [txt]) []) (\<lambda>b.
       Inr (map (\<lambda>h. (h, classify_host h)) (c2_hosts b)))"

definition ELF_MACHINES :: "int \<Rightarrow> pystr option" where
  "ELF_MACHINES =
     map_of [(3, u ''x86''), (8, u ''MIPS''), (20, u ''PowerPC''), (40, u ''ARM''),
             (42, u ''SuperH''), (62, u ''x86-64''), (183, u ''AArch64'')]"

text \<open>\<^verbatim>\<open>int.from_bytes\<close> of the slice \<^verbatim>\<open>data[18:20]\<close>, which may be short.\<close>

definition from_bytes :: "bool \<Rightarrow> bytes \<Rightarrow> int" where
  "from_bytes little bs = foldl (\<lambda>n b. n * 256 + uint b) 0 (if little then rev bs else bs)"

definition ELF_MAGIC :: bytes where
  "ELF_MAGIC = [0x7f, 0x45, 0x4c, 0x46]"

definition sniff_magic :: "bytes \<Rightarrow> pystr option res" where
  "sniff_magic bs =
     (if take 4 bs = ELF_MAGIC then
        (if length bs < 6 then Inl IndexError
         else
           (let bits = (if bs ! 4 = 1 then u ''32-bit'' else if bs ! 4 = 2 then u ''64-bit''
                        else u ''?'');
                e_machine = from_bytes (bs ! 5 = 1) (take 2 (drop 18 bs));
                mach = (case ELF_MACHINES e_machine of Some a \<Rightarrow> a
                        | None \<Rightarrow> u ''machine '' @ dec_digits (nat e_machine))
            in Inr (Some (u ''ELF '' @ bits @ u '' '' @ mach))))
      else if take 2 bs = [0x23, 0x21] then Inr (Some (u ''script (shebang)''))
      else if take 2 bs = [0x4d, 0x5a] then Inr (Some (u ''PE/DOS executable''))
      else if take 4 bs \<in> {[0x1f, 0x8b, 8, 8], [0x1f, 0x8b, 8, 0]} then Inr (Some (u ''gzip''))
      else Inr None)"

definition RE_VERSION_TAIL :: rx where
  "RE_VERSION_TAIL = rseq [rplus (In [Digit]),
     RRep 0 None True (RGrp 1 (RSeq (rlit ''.'') (rplus (In [Digit])))), REos]"

definition last_component :: "pystr \<Rightarrow> pystr" where
  "last_component s = snd (rsplit1 47 s)"

definition interpreter_of :: "('x) ext_scheme \<Rightarrow> pystr \<Rightarrow> pystr option" where
  "interpreter_of E txt =
     (if \<not> startswith txt (u ''#!'') then None
      else (case splitlines txt of
          [] \<Rightarrow> None
        | line # _ \<Rightarrow>
            (case py_split (py_strip (drop 2 line)) of
               [] \<Rightarrow> None
             | t0 # toks \<Rightarrow>
                 (let exe0 = last_component t0;
                      exe = (case toks of
                               t1 # _ \<Rightarrow> if exe0 = u ''env'' then last_component t1 else exe0
                             | [] \<Rightarrow> exe0);
                      base = rx_sub (str_class E) False RE_VERSION_TAIL (\<lambda>m. []) exe
                  in Some (if base = [] then exe else base)))))"

definition printable_run :: "nat \<Rightarrow> rx" where
  "printable_run n = rmin n (In [Rng 32 126])"

definition strings :: "bytes \<Rightarrow> pystr" where
  "strings bs = py_join (u ''\<newline>'') (rx_findall bytes_class False (printable_run 6) (map uint bs))"

section \<open>family.py\<close>

definition MINER_RE :: rx where
  "MINER_RE = ralt [rlit ''stratum+tcp://'', rlit ''xmrig'', rlit ''minerd'']"

definition BINARY_MARKERS :: "(rx \<times> pystr) list" where
  "BINARY_MARKERS =
     [(rseq [RWordB, rlit ''mozi'', RWordB], u ''trojan.mirai/mozi''),
      (RAlt (rlit ''gafgyt'') (rlit ''bashlite''), u ''trojan.gafgyt/possible''),
      (RAlt (rseq [rlit ''/bin/busybox'', rplus (In [Space]), rlit ''MIRAI''])
            (rseq [RWordB, rlit ''MIRAI'', RWordB]), u ''trojan.mirai/possible''),
      (MINER_RE, u ''miner.xmrig'')]"

definition SCRIPT_MARKERS :: "(rx \<times> pystr) list" where
  "SCRIPT_MARKERS =
     [(MINER_RE, u ''miner.shell''),
      (rseq [RGrp 1 (ralt [rlit ''wget'', rlit ''curl'', rlit ''tftp'']), RWordB, rstar AnyChar,
             RGrp 2 (ralt [rlit ''chmod'', rlit ''./'', RSeq (rlit ''sh'') RWordB])],
       u ''downloader.shell'')]"

definition first_marker :: "cclass \<Rightarrow> (rx \<times> pystr) list \<Rightarrow> pystr \<Rightarrow> pystr option" where
  "first_marker K ms txt = map_option snd (find (\<lambda>(pat, name). rx_search K True pat txt) ms)"

definition family_label ::
  "('x) ext_scheme \<Rightarrow> bytes \<Rightarrow> pystr option \<Rightarrow> pystr option \<Rightarrow> pystr option" where
  "family_label E bs mgc interp =
     (case mgc of
        Some m \<Rightarrow>
          if startswith m (u ''ELF'') then
            (case first_marker bytes_class BINARY_MARKERS (map uint bs) of
               Some name \<Rightarrow> Some name
             | None \<Rightarrow> Some (u ''trojan.elf/'' @ py_lower E (last (py_split m))))
          else if interp \<noteq> None
          then first_marker (str_class E) SCRIPT_MARKERS (utf8_decode_ignore bs) else None
      | None \<Rightarrow>
          if interp \<noteq> None
          then first_marker (str_class E) SCRIPT_MARKERS (utf8_decode_ignore bs) else None)"

section \<open>_base.py\<close>

definition base_obs :: "session_in \<Rightarrow> pystr \<Rightarrow> host_kind \<Rightarrow> evidence \<Rightarrow> c2_observation" where
  "base_obs s host kind ev =
     stamp_rank
       \<lparr>schema_version = SCHEMA_VERSION,
        ts = (case end_time s of Some t \<Rightarrow> Some t | None \<Rightarrow> start_time s),
        o_sensor_uuid = sensor_uuid s, o_sensor_hostname = sensor_hostname s,
        o_src_ip = src_ip s, o_session_id = session_id s,
        c2_host = host, c2_host_kind = kind,
        c2_resolved_ip = None, c2_url = None, c2_port = None, c2_path = None,
        o_hassh = session_hassh s,
        c2_geo = None, c2_country = None, c2_asn = None, c2_asn_org = None,
        evidence = ev, evidence_rank = None, self_hosted = (host = src_ip s),
        file_kind = None, sha256 = None, sha1 = None, md5 = None, o_size = None, magic = None,
        family = None, interpreter = None, content = None, content_truncated = False,
        callbacks = [], c2_via_sha256 = None\<rparr>"

section \<open>hosts.py\<close>

definition shell_references :: "session_in \<Rightarrow> session_context \<Rightarrow> c2_observation list" where
  "shell_references s ctx =
     map (\<lambda>h. base_obs s h (classify_host h) shell_reference) (c2_hosts (ctx_iocs ctx))"

section \<open>files.py\<close>

definition or_none :: "pystr \<Rightarrow> pystr option" where
  "or_none s = (if s = [] then None else Some s)"

definition opt_str :: "pystr option \<Rightarrow> pystr" where
  "opt_str v = (case v of None \<Rightarrow> [] | Some s \<Rightarrow> s)"

definition decode_bytes :: "file_ref \<Rightarrow> bytes option" where
  "decode_bytes f =
     (if opt_str (f_content_b64 f) = [] then None
      else (case b64_decode (opt_str (f_content_b64 f)) of Inl _ \<Rightarrow> None | Inr bs \<Rightarrow> Some bs))"

definition BINARY_MAGIC :: "pystr list" where
  "BINARY_MAGIC = [u ''ELF'', u ''PE/'', u ''gzip'']"

definition binary_magic :: "pystr option \<Rightarrow> bool" where
  "binary_magic m = (case m of None \<Rightarrow> False | Some t \<Rightarrow> list_ex (startswith t) BINARY_MAGIC)"

text \<open>The kind of a payload and the text its hosts are searched in.\<close>

definition payload_text :: "pystr option \<Rightarrow> bytes \<Rightarrow> file_kind \<times> pystr" where
  "payload_text m bs =
     (if binary_magic m then (FK_binary, strings bs)
      else (case utf8_decode bs of Inr t \<Rightarrow> (FK_script, t) | Inl _ \<Rightarrow> (FK_binary, strings bs)))"

definition set_content ::
  "('x) ext_scheme \<Rightarrow> bytes \<Rightarrow> pystr \<Rightarrow> c2_observation \<Rightarrow> c2_observation" where
  "set_content E bs txt obs =
     (let obs1 = obs\<lparr>interpreter := interpreter_of E txt\<rparr> in
      if CONTENT_CAP < int (length bs)
      then obs1\<lparr>content := Some (utf8_decode_ignore (take (nat CONTENT_CAP) bs)),
                content_truncated := True\<rparr>
      else obs1\<lparr>content := Some txt\<rparr>)"

text \<open>The columns that say what the payload is; scripts also get their content.\<close>

definition typed_obs :: "('x) ext_scheme \<Rightarrow> bytes \<Rightarrow> c2_observation \<Rightarrow> c2_observation" where
  "typed_obs E bs obs =
     (let (kind, txt) = payload_text (magic obs) bs; obs1 = obs\<lparr>file_kind := Some kind\<rparr>
      in if kind = FK_script then set_content E bs txt obs1 else obs1)"

definition classify_payload ::
  "('x) ext_scheme \<Rightarrow> c2_observation \<Rightarrow> bytes \<Rightarrow> c2_observation res" where
  "classify_payload E obs bs =
     (let obs2 = typed_obs E bs obs in
      rbind (find_hosts E (snd (payload_text (magic obs) bs))) (\<lambda>hs.
        Inr (obs2\<lparr>callbacks := filter (\<lambda>h. h \<noteq> c2_host obs2) (map fst hs),
                  family := family_label E bs (magic obs2) (interpreter obs2)\<rparr>)))"

text \<open>The columns known without the bytes, and the hash columns taken from them.\<close>

definition file_obs ::
  "session_in \<Rightarrow> file_ref \<Rightarrow> pystr \<Rightarrow> int option \<Rightarrow> pystr \<Rightarrow> c2_observation" where
  "file_obs s f host port path =
     (base_obs s host (classify_host host) served_file)
       \<lparr>c2_url := or_none (f_url f), c2_port := port, c2_path := or_none path,
        c2_resolved_ip := or_none (opt_str (f_resolved_ip f)), sha256 := or_none (f_shasum f)\<rparr>"

definition hashed_obs ::
  "('x) ext_scheme \<Rightarrow> bytes \<Rightarrow> pystr option \<Rightarrow> c2_observation \<Rightarrow> c2_observation" where
  "hashed_obs E bs m obs =
     obs\<lparr>o_size := Some (length bs), sha1 := Some (h_sha1 E bs), md5 := Some (h_md5 E bs),
         sha256 := (if sha256 obs = None then Some (h_sha256 E bs) else sha256 obs), magic := m\<rparr>"

definition served_file_row ::
  "('x) ext_scheme \<Rightarrow> session_in \<Rightarrow> file_ref \<Rightarrow> c2_observation option res" where
  "served_file_row E s f =
     (if f_action f \<noteq> u ''download'' \<or> f_status f \<noteq> u ''successful'' then Inr None
      else rbind (split_url E (f_url f)) (\<lambda>(host0, port, path).
        (let host = (if host0 = [] then opt_str (f_resolved_ip f) else host0) in
         if host = [] then Inr None
         else
           (let obs = file_obs s f host port path in
            case decode_bytes f of
              None \<Rightarrow> Inr (Some obs)
            | Some bs \<Rightarrow>
                rbind (sniff_magic bs) (\<lambda>m.
                rbind (classify_payload E (hashed_obs E bs m obs) bs) (\<lambda>row. Inr (Some row)))))))"

definition served_files :: "('x) ext_scheme \<Rightarrow> session_in \<Rightarrow> c2_observation list res" where
  "served_files E s =
     rbind (rmap (served_file_row E s) (files (s_hp_data s))) (\<lambda>rows.
       Inr (concat (map (\<lambda>r. case r of None \<Rightarrow> [] | Some row \<Rightarrow> [row]) rows)))"

section \<open>chains.py\<close>

fun callback_rows ::
  "session_in \<Rightarrow> (pystr \<times> pystr option) list \<Rightarrow> (pystr \<times> pystr option) list \<Rightarrow> c2_observation list"
where
  "callback_rows s seen [] = []"
| "callback_rows s seen ((host, via) # rest) =
     (if (host, via) \<in> set seen then callback_rows s seen rest
      else (base_obs s host (classify_host host) file_callback)\<lparr>c2_via_sha256 := via\<rparr>
           # callback_rows s ((host, via) # seen) rest)"

definition callback_keys :: "c2_observation list \<Rightarrow> (pystr \<times> pystr option) list" where
  "callback_keys served = concat (map (\<lambda>f. map (\<lambda>h. (h, sha256 f)) (callbacks f)) served)"

definition file_callbacks :: "session_in \<Rightarrow> c2_observation list \<Rightarrow> c2_observation list" where
  "file_callbacks s served = callback_rows s [] (callback_keys served)"

section \<open>extract/__init__.py\<close>

definition all_observations ::
  "('x) ext_scheme \<Rightarrow> session_in \<Rightarrow> session_context \<Rightarrow> c2_observation list res" where
  "all_observations E s ctx =
     rbind (served_files E s) (\<lambda>rows.
       Inr (shell_references s ctx @ rows @ file_callbacks s rows))"

lemmas extract_eval [py_eval] = build_context_def classify_host_def split_url_def find_hosts_def
  ELF_MACHINES_def from_bytes_def ELF_MAGIC_def sniff_magic_def
  RE_VERSION_TAIL_def last_component_def interpreter_of_def printable_run_def strings_def
  MINER_RE_def BINARY_MARKERS_def SCRIPT_MARKERS_def first_marker_def family_label_def base_obs_def
  shell_references_def or_none_def opt_str_def decode_bytes_def BINARY_MAGIC_def binary_magic_def
  payload_text_def set_content_def typed_obs_def classify_payload_def file_obs_def hashed_obs_def
  served_file_row_def served_files_def
  callback_keys_def file_callbacks_def all_observations_def CONTENT_CAP_def

section \<open>What every row carries\<close>

text \<open>
  A well-formed row of session \<open>s\<close>: the rank of its evidence kind, a host with its kind, and the
  columns of the session it was observed in.
\<close>

definition row_of :: "session_in \<Rightarrow> c2_observation \<Rightarrow> bool" where
  "row_of s r \<longleftrightarrow> wf_rank r \<and> c2_host r \<noteq> [] \<and> c2_host_kind r = classify_host (c2_host r) \<and>
     (self_hosted r \<longleftrightarrow> c2_host r = src_ip s) \<and> o_src_ip r = src_ip s \<and>
     o_session_id r = session_id s \<and> o_sensor_uuid r = sensor_uuid s \<and>
     o_sensor_hostname r = sensor_hostname s \<and> o_hassh r = session_hassh s \<and>
     ts r = (case end_time s of Some t \<Rightarrow> Some t | None \<Rightarrow> start_time s)"

lemma base_obs_fields [simp]:
  "c2_host (base_obs s h k e) = h" "c2_host_kind (base_obs s h k e) = k"
  "evidence (base_obs s h k e) = e" "evidence_rank (base_obs s h k e) = Some (EVIDENCE_RANK e)"
  "self_hosted (base_obs s h k e) = (h = src_ip s)" "o_src_ip (base_obs s h k e) = src_ip s"
  "o_session_id (base_obs s h k e) = session_id s" "o_sensor_uuid (base_obs s h k e) = sensor_uuid s"
  "o_sensor_hostname (base_obs s h k e) = sensor_hostname s"
  "o_hassh (base_obs s h k e) = session_hassh s"
  "ts (base_obs s h k e) = (case end_time s of Some t \<Rightarrow> Some t | None \<Rightarrow> start_time s)"
  "callbacks (base_obs s h k e) = []" "content (base_obs s h k e) = None"
  "content_truncated (base_obs s h k e) = False" "sha256 (base_obs s h k e) = None"
  "o_size (base_obs s h k e) = None" "magic (base_obs s h k e) = None"
  "file_kind (base_obs s h k e) = None" "c2_resolved_ip (base_obs s h k e) = None"
  "interpreter (base_obs s h k e) = None"
  by (simp_all add: base_obs_def stamp_rank_def)

lemma row_of_base: "h \<noteq> [] \<Longrightarrow> row_of s (base_obs s h (classify_host h) e)"
  by (simp add: row_of_def wf_rank_def)

lemma c2_hosts_nonempty: "[] \<notin> set (c2_hosts b)"
  by (simp add: set_c2_hosts)

lemma typed_obs_frame [stage_frame]:
  "row_of s (typed_obs E bs obs) = row_of s obs"
  "c2_host (typed_obs E bs obs) = c2_host obs"
  "evidence (typed_obs E bs obs) = evidence obs"
  "sha256 (typed_obs E bs obs) = sha256 obs"
  "o_size (typed_obs E bs obs) = o_size obs"
  "magic (typed_obs E bs obs) = magic obs"
  "c2_resolved_ip (typed_obs E bs obs) = c2_resolved_ip obs"
  by (simp_all add: typed_obs_def set_content_def Let_def row_of_def wf_rank_def split: prod.split)

lemma row_of_extra [stage_frame]:
  "row_of s (r\<lparr>callbacks := cs, family := fam\<rparr>) = row_of s r"
  "row_of s (r\<lparr>c2_via_sha256 := via\<rparr>) = row_of s r"
  "row_of s (hashed_obs E bs m r) = row_of s r"
  by (simp_all add: row_of_def wf_rank_def hashed_obs_def)

lemma row_of_file_obs: "h \<noteq> [] \<Longrightarrow> row_of s (file_obs s f h port path)"
  by (simp add: row_of_def wf_rank_def file_obs_def)

lemma classify_payloadD:
  assumes "classify_payload E obs bs = Inr r"
  obtains hs where "find_hosts E (snd (payload_text (magic obs) bs)) = Inr hs"
    "r = (typed_obs E bs obs)\<lparr>callbacks := filter (\<lambda>h. h \<noteq> c2_host obs) (map fst hs),
           family := family_label E bs (magic obs) (interpreter (typed_obs E bs obs))\<rparr>"
  using assms by (auto simp: classify_payload_def Let_def rbind_eq_Inr typed_obs_frame)

text \<open>What the payload's classification leaves, and what it sets.\<close>

lemma classify_payload_frame:
  assumes "classify_payload E obs bs = Inr r"
  shows "row_of s r = row_of s obs" "c2_host r = c2_host obs" "evidence r = evidence obs"
    "sha256 r = sha256 obs" "o_size r = o_size obs" "magic r = magic obs"
    "c2_resolved_ip r = c2_resolved_ip obs" "file_kind r = Some (fst (payload_text (magic obs) bs))"
  using assms
  by (auto elim!: classify_payloadD simp: stage_frame)
    (simp_all add: typed_obs_def set_content_def Let_def split: prod.split)

lemma classify_payload_callbacks:
  assumes "classify_payload E obs bs = Inr r"
  shows "c2_host r \<notin> set (callbacks r)" "[] \<notin> set (callbacks r)" "distinct (callbacks r)"
proof -
  from assms obtain hs where hs: "find_hosts E (snd (payload_text (magic obs) bs)) = Inr hs"
    "callbacks r = filter (\<lambda>h. h \<noteq> c2_host r) (map fst hs)"
    by (auto elim!: classify_payloadD simp: stage_frame)
  then obtain b where "map fst hs = c2_hosts b"
    by (auto simp: find_hosts_def rbind_eq_Inr comp_def)
  with hs(2) show "c2_host r \<notin> set (callbacks r)" "[] \<notin> set (callbacks r)" "distinct (callbacks r)"
    using c2_hosts_nonempty [of b] by (auto simp: c2_hosts_def distinct_dedupe)
qed

lemma utf8_ignore_encode:
  "\<exists>out. utf8_encode (utf8_decode_ignore bs) = Inr out \<and> length out \<le> length bs"
proof (induction bs rule: utf8_decode_ignore.induct)
  case (2 b r)
  show ?case
  proof (cases "utf8_next (b # r)")
    case None
    with 2 show ?thesis by auto
  next
    case (Some a)
    obtain c r' where a: "a = (c, r')" by (cases a)
    with Some obtain p where p: "utf8_enc1 c = Some p" "b # r = p @ r'"
      using utf8_next_enc1 by metis
    have "\<exists>out. utf8_encode (utf8_decode_ignore r') = Inr out \<and> length out \<le> length r'"
      using 2(2) [OF Some a [symmetric]] a by simp
    then obtain out where "utf8_encode (utf8_decode_ignore r') = Inr out"
      "length out \<le> length r'" by blast
    with Some a p(1) show ?thesis
      using arg_cong [OF p(2), of length] by auto
  qed
qed simp

text \<open>The content column of a classified payload.\<close>

definition content_ok :: "bytes \<Rightarrow> c2_observation \<Rightarrow> bool" where
  "content_ok bs r \<longleftrightarrow>
     (case content r of
        None \<Rightarrow> file_kind r = Some FK_binary \<and> \<not> content_truncated r
      | Some t \<Rightarrow> file_kind r = Some FK_script \<and> utf8_decode bs \<noteq> Inl UnicodeDecodeError \<and>
          (content_truncated r \<longleftrightarrow> CONTENT_CAP < int (length bs)) \<and>
          (\<not> content_truncated r \<longrightarrow> utf8_decode bs = Inr t) \<and>
          (\<exists>out. utf8_encode t = Inr out \<and> int (length out) \<le> CONTENT_CAP))"

lemma content_ok_typed:
  assumes "content obs = None" "\<not> content_truncated obs"
  shows "content_ok bs (typed_obs E bs obs)"
proof (cases "payload_text (magic obs) bs")
  case (Pair kind t)
  show ?thesis
  proof (cases kind)
    case FK_binary
    with assms Pair show ?thesis by (simp add: typed_obs_def content_ok_def)
  next
    case FK_script
    with Pair have dec: "utf8_decode bs = Inr t"
      by (auto simp: payload_text_def split: if_splits sum.splits)
    show ?thesis
    proof (cases "CONTENT_CAP < int (length bs)")
      case True
      obtain out where "utf8_encode (utf8_decode_ignore (take (nat CONTENT_CAP) bs)) = Inr out"
        "int (length out) \<le> CONTENT_CAP"
        using utf8_ignore_encode [of "take (nat CONTENT_CAP) bs"] by (auto simp: CONTENT_CAP_def)
      with True Pair FK_script dec show ?thesis
        by (simp add: content_ok_def typed_obs_def set_content_def)
    next
      case False
      with Pair FK_script dec utf8_decode_encode [OF dec] assms show ?thesis
        by (simp add: content_ok_def typed_obs_def set_content_def)
    qed
  qed
qed

lemma classify_payload_content:
  assumes "classify_payload E obs bs = Inr r" "content obs = None" "\<not> content_truncated obs"
  shows "content_ok bs r"
proof -
  have "content_ok bs (r\<lparr>callbacks := cs, family := fam\<rparr>) = content_ok bs r" for r cs fam
    by (simp add: content_ok_def split: option.split)
  with assms(1) content_ok_typed [OF assms(2,3), of bs E] show ?thesis
    by (auto elim!: classify_payloadD)
qed

section \<open>The served files\<close>

text \<open>The files the engine makes a row of: successful downloads whose host is known.\<close>

definition served_host :: "('x) ext_scheme \<Rightarrow> file_ref \<Rightarrow> pystr res" where
  "served_host E f =
     rbind (split_url E (f_url f)) (\<lambda>(host0, port, path).
       Inr (if host0 = [] then opt_str (f_resolved_ip f) else host0))"

definition is_download :: "file_ref \<Rightarrow> bool" where
  "is_download f \<longleftrightarrow> f_action f = u ''download'' \<and> f_status f = u ''successful''"

text \<open>
  A row of a served file: the columns of the download, and, when its bytes came along, what they
  say.
\<close>

lemma served_file_rowD:
  assumes "served_file_row E s f = Inr (Some r)"
  obtains (meta) h port path where "is_download f" "served_host E f = Inr h" "h \<noteq> []"
      "decode_bytes f = None" "r = file_obs s f h port path"
  | (bytes) h port path bs m where "is_download f" "served_host E f = Inr h" "h \<noteq> []"
      "decode_bytes f = Some bs" "sniff_magic bs = Inr m"
      "classify_payload E (hashed_obs E bs m (file_obs s f h port path)) bs = Inr r"
  using assms
  by (cases "decode_bytes f")
    (auto simp: served_file_row_def is_download_def served_host_def rbind_eq_Inr Let_def
      split: if_splits)

lemma served_files_mem:
  assumes "served_files E s = Inr rows" "r \<in> set rows"
  obtains f where "f \<in> set (files (s_hp_data s))" "served_file_row E s f = Inr (Some r)"
proof -
  from assms(1) obtain rs where rs: "rmap (served_file_row E s) (files (s_hp_data s)) = Inr rs"
    "rows = concat (map (\<lambda>r. case r of None \<Rightarrow> [] | Some row \<Rightarrow> [row]) rs)"
    by (auto simp: served_files_def rbind_eq_Inr)
  with assms(2) have "Some r \<in> set rs" by (auto split: option.splits)
  with rmap_mem [OF rs(1)] that show ?thesis by blast
qed

lemma file_obs_fields [simp]:
  "c2_host (file_obs s f h p q) = h" "evidence (file_obs s f h p q) = served_file"
  "callbacks (file_obs s f h p q) = []" "content (file_obs s f h p q) = None"
  "content_truncated (file_obs s f h p q) = False"
  "c2_resolved_ip (file_obs s f h p q) = or_none (opt_str (f_resolved_ip f))"
  "sha256 (file_obs s f h p q) = or_none (f_shasum f)"
  by (simp_all add: file_obs_def)

lemma hashed_obs_fields [simp]:
  "c2_host (hashed_obs E bs m r) = c2_host r" "evidence (hashed_obs E bs m r) = evidence r"
  "content (hashed_obs E bs m r) = content r" "magic (hashed_obs E bs m r) = m"
  "content_truncated (hashed_obs E bs m r) = content_truncated r"
  "c2_resolved_ip (hashed_obs E bs m r) = c2_resolved_ip r"
  "o_size (hashed_obs E bs m r) = Some (length bs)"
  "sha256 (hashed_obs E bs m r) = (if sha256 r = None then Some (h_sha256 E bs) else sha256 r)"
  by (simp_all add: hashed_obs_def)

lemma served_row_of:
  assumes "served_file_row E s f = Inr (Some r)"
  shows "row_of s r" "evidence r = served_file" "c2_host r \<notin> set (callbacks r)"
    "[] \<notin> set (callbacks r)" "distinct (callbacks r)"
proof -
  have "row_of s r \<and> evidence r = served_file \<and> c2_host r \<notin> set (callbacks r) \<and>
     [] \<notin> set (callbacks r) \<and> distinct (callbacks r)"
    using assms
  proof (cases rule: served_file_rowD)
    case meta
    then show ?thesis by (simp add: row_of_file_obs)
  next
    case (bytes h port path bs m)
    then show ?thesis
      using classify_payload_frame [OF bytes(6)] classify_payload_callbacks [OF bytes(6)]
      by (simp add: row_of_file_obs stage_frame)
  qed
  then show "row_of s r" "evidence r = served_file" "c2_host r \<notin> set (callbacks r)"
    "[] \<notin> set (callbacks r)" "distinct (callbacks r)" by auto
qed

section \<open>The chain edges\<close>

lemma callback_rows_keys:
  "map (\<lambda>r. (c2_host r, c2_via_sha256 r)) (callback_rows s seen ks) = dedupe_acc seen ks"
  by (induction s seen ks rule: callback_rows.induct) simp_all

lemma callback_rows_row:
  "r \<in> set (callback_rows s seen ks) \<Longrightarrow>
   \<exists>h via. (h, via) \<in> set ks \<and>
     r = (base_obs s h (classify_host h) file_callback)\<lparr>c2_via_sha256 := via\<rparr>"
  by (induction s seen ks rule: callback_rows.induct) (auto split: if_splits)

lemma set_callback_keys:
  "set (callback_keys served) = {(h, sha256 f) | h f. f \<in> set served \<and> h \<in> set (callbacks f)}"
  by (auto simp: callback_keys_def)

section \<open>Properties\<close>

lemma file_callbacks_row_of:
  assumes "r \<in> set (file_callbacks s served)" "list_all (\<lambda>f. [] \<notin> set (callbacks f)) served"
  shows "row_of s r \<and> evidence r = file_callback"
  using assms unfolding file_callbacks_def
  by (auto dest!: callback_rows_row simp: set_callback_keys list_all_iff stage_frame)
    (metis row_of_base)

lemma served_rows_all:
  assumes "served_files E s = Inr rows"
  shows "list_all (\<lambda>r. row_of s r \<and> evidence r = served_file \<and> c2_host r \<notin> set (callbacks r) \<and>
           [] \<notin> set (callbacks r)) rows"
  unfolding list_all_iff using assms by (auto elim!: served_files_mem dest: served_row_of)

text \<open>
  C5. Every row of the ledger that a session yields is well formed (rank, host, host kind and the
  session's own columns), and the rows come in the order of their evidence rank: first what the
  attacker typed, then what was served, then what the served files call back to.
\<close>

theorem ledger_rows_wf:
  assumes "all_observations E s ctx = Inr rows"
  shows "list_all (row_of s) rows \<and> sorted (map (\<lambda>r. EVIDENCE_RANK (evidence r)) rows)"
proof (intro conjI)
  obtain served where sv: "served_files E s = Inr served"
    "rows = shell_references s ctx @ served @ file_callbacks s served"
    using assms by (auto simp: all_observations_def rbind_eq_Inr)
  note good = served_rows_all [OF sv(1)]
  have cb: "r \<in> set (file_callbacks s served) \<Longrightarrow> row_of s r \<and> evidence r = file_callback" for r
    using good by (intro file_callbacks_row_of) (auto simp: list_all_iff)
  have sh: "r \<in> set (shell_references s ctx) \<Longrightarrow> row_of s r \<and> evidence r = shell_reference" for r
    using c2_hosts_nonempty by (auto simp: shell_references_def intro!: row_of_base)
  have sd: "r \<in> set served \<Longrightarrow> row_of s r \<and> evidence r = served_file" for r
    using good by (auto simp: list_all_iff)
  show "list_all (row_of s) rows"
    using cb sh sd by (auto simp: sv(2) list_all_iff)
  have const: "sorted (map f xs)" if "\<And>x. x \<in> set xs \<Longrightarrow> f x = (c :: int)" for f xs c
    using that by (induction xs) auto
  show "sorted (map (\<lambda>r. EVIDENCE_RANK (evidence r)) rows)"
    using cb sh sd
    by (auto simp: sv(2) sorted_append EVIDENCE_RANK_def intro!: const)
qed

lemma served_row_host:
  assumes "served_file_row E s f = Inr r"
  shows "(case r of None \<Rightarrow> \<not> (is_download f \<and> served_host E f \<noteq> Inr [])
          | Some row \<Rightarrow> is_download f \<and> served_host E f = Inr (c2_host row) \<and> c2_host row \<noteq> [])"
proof (cases r)
  case None
  with assms show ?thesis
    by (auto simp: served_file_row_def is_download_def served_host_def rbind_eq_Inr Let_def
        split: if_splits option.splits)
next
  case (Some row)
  with assms have "served_file_row E s f = Inr (Some row)" by simp
  then show ?thesis
    unfolding Some by (cases rule: served_file_rowD) (auto dest: classify_payload_frame(2))
qed

lemma served_rows_hosts:
  assumes "list_all2 (\<lambda>f r. served_file_row E s f = Inr r) fs rs"
  shows "map (\<lambda>r. Inr (c2_host r)) (concat (map (\<lambda>r. case r of None \<Rightarrow> [] | Some row \<Rightarrow> [row]) rs))
    = map (served_host E) (filter (\<lambda>f. is_download f \<and> served_host E f \<noteq> Inr []) fs)"
  using assms
proof (induction rule: list_all2_induct)
  case (Cons f fs r rs)
  then show ?case
    using served_row_host [OF Cons(1)] by (cases r) auto
qed simp

text \<open>
  The served-file rows are exactly the successful downloads whose host is known, one row
  each and in the order of the session document.
\<close>

theorem served_files_exact:
  assumes "served_files E s = Inr rows"
  shows "map (\<lambda>r. Inr (c2_host r)) rows =
    map (served_host E) (filter (\<lambda>f. is_download f \<and> served_host E f \<noteq> Inr []) (files (s_hp_data s)))"
  using assms
  by (auto simp: served_files_def rbind_eq_Inr rmap_Inr_iff intro: served_rows_hosts)

text \<open>
  C26. The chain edges of a session: one \<open>file_callback\<close> row for each pair of a served file's hash
  and a host its payload names, no pair twice, and no edge from a file back to the host that
  served it.
\<close>

theorem chain_edges_exact:
  assumes "served_files E s = Inr served"
  shows "set (map (\<lambda>r. (c2_host r, c2_via_sha256 r)) (file_callbacks s served)) =
           {(h, sha256 f) | h f. f \<in> set served \<and> h \<in> set (callbacks f)} \<and>
    distinct (map (\<lambda>r. (c2_host r, c2_via_sha256 r)) (file_callbacks s served)) \<and>
    (\<forall>f \<in> set served. c2_host f \<notin> set (callbacks f))"
proof (intro conjI)
  show "set (map (\<lambda>r. (c2_host r, c2_via_sha256 r)) (file_callbacks s served)) =
           {(h, sha256 f) | h f. f \<in> set served \<and> h \<in> set (callbacks f)}"
    by (simp only: file_callbacks_def callback_rows_keys set_dedupe_acc set_callback_keys) simp
  show "distinct (map (\<lambda>r. (c2_host r, c2_via_sha256 r)) (file_callbacks s served))"
    by (simp only: file_callbacks_def callback_rows_keys distinct_dedupe_acc)
  show "\<forall>f \<in> set served. c2_host f \<notin> set (callbacks f)"
    using served_rows_all [OF assms] by (simp add: list_all_iff)
qed

text \<open>
  A served file whose bytes came along: its row has their exact length, the sensor's SHA-256
  or, failing that, the one computed here, and for a script the whole decoded text; beyond the cap the text is
  cut, the row says so, and what is stored never takes more than 256 KiB of UTF-8.
\<close>

theorem served_file_payload:
  assumes "served_file_row E s f = Inr (Some r)" "decode_bytes f = Some bs"
  shows "content_ok bs r \<and> o_size r = Some (length bs) \<and>
    sha256 r = Some (if f_shasum f = [] then h_sha256 E bs else f_shasum f)"
proof (intro conjI)
  obtain h port path m where
    c: "classify_payload E (hashed_obs E bs m (file_obs s f h port path)) bs = Inr r"
    using assms by (auto elim!: served_file_rowD)
  show "content_ok bs r"
    using c by (rule classify_payload_content) simp_all
  show "o_size r = Some (length bs)"
    "sha256 r = Some (if f_shasum f = [] then h_sha256 E bs else f_shasum f)"
    using classify_payload_frame [OF c] by (simp_all add: or_none_def)
qed

text \<open>
  \<^verbatim>\<open>sniff_magic\<close> fails on one kind of payload only: one that starts with the ELF magic and
  ends before the data byte of the ELF header.
\<close>

theorem sniff_magic_fails_iff:
  "sniff_magic bs = Inl e \<longleftrightarrow> e = IndexError \<and> take 4 bs = ELF_MAGIC \<and> length bs \<in> {4, 5}"
proof -
  have "take 4 bs = ELF_MAGIC \<Longrightarrow> 4 \<le> length bs"
    by (drule arg_cong [of _ _ length]) (simp add: ELF_MAGIC_def min_def split: if_splits)
  then show ?thesis
    by (auto simp: sniff_magic_def Let_def)
qed

text \<open>The one payload condition under which a downloaded file yields its row.\<close>

definition row_possible :: "('x) ext_scheme \<Rightarrow> file_ref \<Rightarrow> bool" where
  "row_possible E f \<longleftrightarrow> is_download f \<longrightarrow>
     (case served_host E f of Inl _ \<Rightarrow> False | Inr h \<Rightarrow> h = [] \<or>
       (case decode_bytes f of None \<Rightarrow> True | Some bs \<Rightarrow>
         (case sniff_magic bs of Inl _ \<Rightarrow> False | Inr m \<Rightarrow>
           list_all (url_parses E) (found_urls E (expanded_text E [snd (payload_text m bs)])))))"

lemma find_hosts_total:
  "(\<exists>hs. find_hosts E txt = Inr hs) \<longleftrightarrow>
     list_all (url_parses E) (found_urls E (expanded_text E [txt]))"
  using ioc_extract_total [of E "expanded_text E [txt]" "[]"]
  by (cases "ioc_extract E (expanded_text E [txt]) []") (auto simp: find_hosts_def)

lemma served_row_bytes:
  assumes "is_download f" "split_url E (f_url f) = Inr (h0, port, path)"
    and "h = (if h0 = [] then opt_str (f_resolved_ip f) else h0)" "h \<noteq> []"
    and "decode_bytes f = Some bs" "sniff_magic bs = Inr m"
  shows "served_file_row E s f =
    rbind (find_hosts E (snd (payload_text m bs))) (\<lambda>hs.
      Inr (Some ((typed_obs E bs (hashed_obs E bs m (file_obs s f h port path)))
        \<lparr>callbacks := filter (\<lambda>x. x \<noteq> h) (map fst hs),
         family := family_label E bs m
           (interpreter (typed_obs E bs (hashed_obs E bs m (file_obs s f h port path))))\<rparr>)))"
  using assms
  by (cases "find_hosts E (snd (payload_text m bs))")
    (simp_all add: served_file_row_def is_download_def classify_payload_def Let_def stage_frame)

lemma served_row_possible: "(\<exists>r. served_file_row E s f = Inr r) \<longleftrightarrow> row_possible E f"
proof (cases "is_download f")
  case False
  then show ?thesis by (auto simp: served_file_row_def row_possible_def is_download_def)
next
  case dl: True
  show ?thesis
  proof (cases "split_url E (f_url f)")
    case (Inl e)
    with dl show ?thesis
      by (simp add: served_file_row_def row_possible_def is_download_def served_host_def)
  next
    case (Inr t)
    obtain h0 port path where t: "t = (h0, port, path)" by (cases t)
    define h where "h = (if h0 = [] then opt_str (f_resolved_ip f) else h0)"
    have host: "served_host E f = Inr h" by (simp add: served_host_def Inr t h_def)
    show ?thesis
    proof (cases "h = [] \<or> decode_bytes f = None")
      case True
      with dl Inr t host h_def show ?thesis
        by (auto simp: served_file_row_def row_possible_def is_download_def Let_def)
    next
      case False
      then obtain bs where bs: "decode_bytes f = Some bs" "h \<noteq> []" by auto
      show ?thesis
      proof (cases "sniff_magic bs")
        case (Inl e)
        with dl Inr t host h_def bs show ?thesis
          by (auto simp: served_file_row_def row_possible_def is_download_def Let_def)
      next
        case m: (Inr m)
        have "(\<exists>r. served_file_row E s f = Inr r) \<longleftrightarrow>
            (\<exists>hs. find_hosts E (snd (payload_text m bs)) = Inr hs)"
          using served_row_bytes [OF dl Inr [unfolded t] h_def bs(2,1) m, of s]
          by (cases "find_hosts E (snd (payload_text m bs))") auto
        with dl host bs m show ?thesis
          by (simp add: row_possible_def find_hosts_total)
      qed
    qed
  qed
qed


section \<open>A concrete session\<close>

definition demo_script :: pystr where
  "demo_script = u ''#!/bin/sh\<newline>nc 5.6.7.8''"

definition demo_payload :: bytes where
  "demo_payload = map word_of_int demo_script"

definition demo_file :: file_ref where
  "demo_file = \<lparr>f_url = u ''http://Evil.io:81/a'', f_outfile = [], f_shasum = [],
     f_action = u ''download'', f_status = u ''successful'', f_resolved_ip = None,
     f_content_b64 = Some (u ''IyEvYmluL3NoCm5jIDUuNi43Ljg='')\<rparr>"

definition demo_session :: session_in where
  "demo_session = default_session\<lparr>src_ip := u ''9.9.9.9'',
     s_hp_data := default_hp_data\<lparr>files := [demo_file]\<rparr>\<rparr>"

definition demo_ctx :: session_context where
  "demo_ctx = \<lparr>ctx_iocs = \<lparr>b_ips = [u ''1.2.3.4''], b_urls = [], b_domains = [], b_hostnames = [],
       b_file_hashes = [], b_cve_ids = [], b_ssh_key_sha1s = []\<rparr>,
     ctx_playbook_canonical = [], ctx_playbook_hash = [], ctx_banner = None,
     ctx_creds = \<lparr>pairs_seen = 0, sequence_hash = None, success_user = None, success_pass = None\<rparr>,
     ctx_shape = \<lparr>duration_s = None, command_count = 0, unknown_command_count = 0,
       cred_attempts = 0, failed_attempts_before_success = None, ttylog_bytes = 0,
       has_pty = False, distinct_urls = 0, distinct_file_hashes = 0\<rparr>\<rparr>"

lemma demo_file_facts:
  "is_download demo_file" "split_url ascii_ext (f_url demo_file) = Inr (u ''evil.io'', Some 81, u ''/a'')"
  "decode_bytes demo_file = Some demo_payload" "sniff_magic demo_payload = Inr (Some (u ''script (shebang)''))"
  "snd (payload_text (Some (u ''script (shebang)'')) demo_payload) = demo_script"
  "files (s_hp_data demo_session) = [demo_file]"
  by code_simp+

lemma demo_find_hosts:
  obtains hs where "find_hosts ascii_ext demo_script = Inr hs" "map fst hs = [u ''5.6.7.8'']"
proof -
  have tx: "expanded_text ascii_ext [demo_script] = demo_script"
    "found_urls ascii_ext demo_script = []" "found_ips ascii_ext demo_script = [u ''5.6.7.8'']"
    by code_simp+
  then obtain b where b: "ioc_extract ascii_ext demo_script [] = Inr b"
    using ioc_extract_total [of ascii_ext demo_script "[]"] by auto
  have "set (c2_hosts b) = {u ''5.6.7.8''}" "distinct (c2_hosts b)"
    using c2_hosts_set [OF b] tx by (auto simp: c2_hosts_def distinct_dedupe)
  then have "c2_hosts b = [u ''5.6.7.8'']"
    by (cases "c2_hosts b"; cases "tl (c2_hosts b)") auto
  then show thesis
    using that [of "map (\<lambda>h. (h, classify_host h)) (c2_hosts b)"] b tx(1)
    by (simp add: find_hosts_def)
qed

lemma demo_row:
  obtains r where "served_file_row ascii_ext demo_session demo_file = Inr (Some r)"
    "callbacks r = [u ''5.6.7.8'']" "c2_host r = u ''evil.io''"
proof -
  obtain hs where hs: "find_hosts ascii_ext demo_script = Inr hs" "map fst hs = [u ''5.6.7.8'']"
    by (rule demo_find_hosts)
  show thesis
    using served_row_bytes [OF demo_file_facts(1,2) refl _ demo_file_facts(3,4), of demo_session] hs that
    by (simp add: demo_file_facts stage_frame)
qed

lemma demo_served:
  obtains r where "served_files ascii_ext demo_session = Inr [r]"
    "callbacks r = [u ''5.6.7.8'']" "c2_host r = u ''evil.io''"
proof -
  obtain r where "served_file_row ascii_ext demo_session demo_file = Inr (Some r)"
    "callbacks r = [u ''5.6.7.8'']" "c2_host r = u ''evil.io''" by (rule demo_row)
  then show thesis by (intro that) (simp_all add: served_files_def demo_file_facts)
qed

theorem ledger_rows_wf_witness:
  "\<exists>rows. all_observations ascii_ext demo_session demo_ctx = Inr rows \<and>
     map c2_host rows = [u ''1.2.3.4'', u ''evil.io'', u ''5.6.7.8''] \<and>
     list_all (row_of demo_session) rows"
proof -
  obtain r where r: "served_files ascii_ext demo_session = Inr [r]"
    "callbacks r = [u ''5.6.7.8'']" "c2_host r = u ''evil.io''" by (rule demo_served)
  then obtain rows where rows: "all_observations ascii_ext demo_session demo_ctx = Inr rows"
    and h: "map c2_host rows = [u ''1.2.3.4'', u ''evil.io'', u ''5.6.7.8'']"
    by (auto simp: all_observations_def shell_references_def demo_ctx_def c2_hosts_def dedupe_def
        file_callbacks_def callback_keys_def)
  show ?thesis
    by (rule exI [of _ rows]) (intro conjI rows h ledger_rows_wf [OF rows, THEN conjunct1])
qed

theorem served_files_exact_witness:
  "\<exists>rows. served_files ascii_ext demo_session = Inr rows \<and>
     map (\<lambda>r. Inr (c2_host r)) rows = [served_host ascii_ext demo_file]"
proof -
  obtain r where r: "served_files ascii_ext demo_session = Inr [r]" by (rule demo_served)
  have "served_host ascii_ext demo_file = Inr (u ''evil.io'')"
    by (simp add: served_host_def demo_file_facts)
  then show ?thesis
    using r served_files_exact [OF r] by (auto simp: demo_file_facts)
qed

theorem chain_edges_exact_witness:
  "\<exists>served. served_files ascii_ext demo_session = Inr served \<and>
     fst ` set (map (\<lambda>r. (c2_host r, c2_via_sha256 r)) (file_callbacks demo_session served))
       = {u ''5.6.7.8''}"
proof -
  obtain r where r: "served_files ascii_ext demo_session = Inr [r]"
    "callbacks r = [u ''5.6.7.8'']" by (rule demo_served)
  show ?thesis
    by (rule exI [of _ "[r]"]) (simp only: r(1) chain_edges_exact [OF r(1), THEN conjunct1], auto simp: r(2))
qed

theorem served_file_payload_witness:
  "\<exists>r. served_file_row ascii_ext demo_session demo_file = Inr (Some r) \<and>
     content_ok demo_payload r \<and> o_size r = Some 20"
proof -
  obtain r where r: "served_file_row ascii_ext demo_session demo_file = Inr (Some r)"
    by (rule demo_row)
  have "length demo_payload = 20" by (simp add: demo_payload_def demo_script_def)
  then show ?thesis
    using r served_file_payload [OF r demo_file_facts(3)] by simp
qed

end
