(* ===== verification/Pipeline.thy ===== *)
theory Pipeline
  imports Extract
begin

text \<open>
  \<^verbatim>\<open>pipeline/enrich/geo.py\<close>, \<^verbatim>\<open>pipeline/enrich/session.py\<close> and \<^verbatim>\<open>pipeline/__init__.py\<close>: from a
  raw session document to the enriched document and its ledger rows.

  The mmdb readers of geoip2, the file system they are found in and pydantic's
  \<^verbatim>\<open>SessionIn.model_validate\<close> and \<^verbatim>\<open>model_dump\<close> are arguments of the definitions.
\<close>

section \<open>enrich/geo.py\<close>

record city_answer =
  ca_latitude :: "rat option"
  ca_longitude :: "rat option"
  ca_iso_code :: "pystr option"

record asn_answer =
  aa_number :: "int option"
  aa_org :: "pystr option"

type_synonym city_reader = "pystr \<Rightarrow> city_answer res"
type_synonym asn_reader = "pystr \<Rightarrow> asn_answer res"

record geo_enricher =
  g_city :: "city_reader option"
  g_asn :: "asn_reader option"

definition CITY_DBS :: "pystr list" where
  "CITY_DBS = [u ''GeoLite2-City.mmdb'', u ''dbip-city-lite.mmdb'']"

definition ASN_DBS :: "pystr list" where
  "ASN_DBS = [u ''GeoLite2-ASN.mmdb'', u ''dbip-asn-lite.mmdb'']"

fun open_first ::
  "(pystr \<Rightarrow> bool) \<Rightarrow> (pystr \<Rightarrow> 'r res) \<Rightarrow> pystr \<Rightarrow> pystr list \<Rightarrow> 'r option res" where
  "open_first present reader d [] = Inr None"
| "open_first present reader d (name # names) =
     (if present (path_join d name) then rbind (reader (path_join d name)) (\<lambda>r. Inr (Some r))
      else open_first present reader d names)"

text \<open>
  \<^verbatim>\<open>GeoEnricher(mmdb_dir)\<close>; \<open>env\<close> is \<^verbatim>\<open>C2E_MAXMIND_DIR\<close>, \<open>installed\<close> says whether geoip2 was
  imported.
\<close>

definition geo_init ::
  "bool \<Rightarrow> pystr \<Rightarrow> (pystr \<Rightarrow> bool) \<Rightarrow> (pystr \<Rightarrow> city_reader res) \<Rightarrow> (pystr \<Rightarrow> asn_reader res)
   \<Rightarrow> pystr option \<Rightarrow> geo_enricher res" where
  "geo_init installed env present read_city read_asn mmdb_dir =
     (let d = (case mmdb_dir of Some p \<Rightarrow> if p = [] then env else p | None \<Rightarrow> env) in
      if d = [] \<or> \<not> installed then Inr \<lparr>g_city = None, g_asn = None\<rparr>
      else rbind (open_first present read_city d CITY_DBS) (\<lambda>c.
           rbind (open_first present read_asn d ASN_DBS) (\<lambda>a.
             Inr \<lparr>g_city = c, g_asn = a\<rparr>)))"

definition geo_enabled :: "geo_enricher \<Rightarrow> bool" where
  "geo_enabled g \<longleftrightarrow> g_city g \<noteq> None \<or> g_asn g \<noteq> None"

text \<open>The keys \<^verbatim>\<open>locate\<close> may put into its answer; the two of the ASN database come together.\<close>

record located =
  l_geo :: "(rat \<times> rat option) option"
  l_country :: "pystr option"
  l_asn :: "(int option \<times> pystr option) option"

definition nowhere :: located where
  "nowhere = \<lparr>l_geo = None, l_country = None, l_asn = None\<rparr>"

definition locate_city :: "geo_enricher \<Rightarrow> pystr \<Rightarrow> located \<Rightarrow> located" where
  "locate_city g ip out =
     (case g_city g of None \<Rightarrow> out
      | Some city \<Rightarrow>
         (case city ip of Inl _ \<Rightarrow> out
          | Inr r \<Rightarrow> out\<lparr>l_geo := (case ca_latitude r of None \<Rightarrow> l_geo out
                                   | Some lat \<Rightarrow> Some (lat, ca_longitude r)),
                         l_country := (if opt_str (ca_iso_code r) = [] then l_country out
                                       else ca_iso_code r)\<rparr>))"

definition locate_asn :: "geo_enricher \<Rightarrow> pystr \<Rightarrow> located \<Rightarrow> located" where
  "locate_asn g ip out =
     (case g_asn g of None \<Rightarrow> out
      | Some rd \<Rightarrow>
         (case rd ip of Inl _ \<Rightarrow> out | Inr a \<Rightarrow> out\<lparr>l_asn := Some (aa_number a, aa_org a)\<rparr>))"

definition locate :: "geo_enricher \<Rightarrow> pystr \<Rightarrow> located" where
  "locate g ip =
     (case ip_address ip of Inl _ \<Rightarrow> nowhere | Inr _ \<Rightarrow> locate_asn g ip (locate_city g ip nowhere))"

definition ip_to_geolocate :: "c2_observation \<Rightarrow> pystr option" where
  "ip_to_geolocate obs =
     (let target = (if c2_host_kind obs = HK_ip then Some (c2_host obs) else c2_resolved_ip obs)
      in if opt_str target = [] then None else target)"

definition geo_enrich :: "geo_enricher \<Rightarrow> c2_observation \<Rightarrow> c2_observation" where
  "geo_enrich g obs =
     (case ip_to_geolocate obs of None \<Rightarrow> obs
      | Some ip \<Rightarrow>
         (let found = locate g ip in
          obs\<lparr>c2_geo := (case l_geo found of None \<Rightarrow> c2_geo obs | v \<Rightarrow> v),
              c2_country := (case l_country found of None \<Rightarrow> c2_country obs | v \<Rightarrow> v),
              c2_asn := (case l_asn found of None \<Rightarrow> c2_asn obs | Some (n, _) \<Rightarrow> n),
              c2_asn_org := (case l_asn found of None \<Rightarrow> c2_asn_org obs | Some (_, org) \<Rightarrow> org)\<rparr>))"

section \<open>enrich/session.py\<close>

definition ENRICH_VERSION :: pystr where
  "ENRICH_VERSION = u ''c2e-1''"

definition ENRICH_SCHEMA_VERSION :: pystr where
  "ENRICH_SCHEMA_VERSION = u ''1''"

definition pstrs :: "pystr list \<Rightarrow> pyval" where
  "pstrs xs = PList (map PStr xs)"

definition popt :: "('a \<Rightarrow> pyval) \<Rightarrow> 'a option \<Rightarrow> pyval" where
  "popt f v = (case v of None \<Rightarrow> PNone | Some x \<Rightarrow> f x)"

definition pnat :: "nat \<Rightarrow> pyval" where
  "pnat n = PInt (int n)"

definition payload_refs :: "('x) ext_scheme \<Rightarrow> session_in \<Rightarrow> pyval list" where
  "payload_refs E s =
     map (\<lambda>f. pobj
        [(''kind'', PStr (if f_action f = [] then u ''download'' else f_action f)),
         (''attempted_url'', popt PStr (or_none (f_url f))),
         (''sha256'', PStr (f_shasum f)),
         (''status'', if py_lower E (f_status f) = u ''successful'' then pstr ''ok'' else pstr ''failed'')])
      (filter (\<lambda>f. f_shasum f \<noteq> []) (files (s_hp_data s)))"

definition base_fields ::
  "('x) ext_scheme \<Rightarrow> session_in \<Rightarrow> session_context \<Rightarrow> (string \<times> pyval) list" where
  "base_fields E s ctx =
     (let b = ctx_iocs ctx; cr = ctx_creds ctx; sh = ctx_shape ctx in
       [(''iocs_ips'', pstrs (b_ips b)),
        (''iocs_urls'', pstrs (b_urls b)),
        (''iocs_domains'', pstrs (b_domains b)),
        (''iocs_c2_hosts'', pstrs (c2_hosts b)),
        (''iocs_ssh_key_sha1s'', pstrs (b_ssh_key_sha1s b)),
        (''iocs_file_hashes'', pstrs (b_file_hashes b)),
        (''iocs_cve_ids'', pstrs (b_cve_ids b)),
        (''playbook_canonical'', PStr (ctx_playbook_canonical ctx)),
        (''playbook_hash'', PStr (ctx_playbook_hash ctx)),
        (''cred_sequence_hash'', popt PStr (sequence_hash cr)),
        (''cred_success_user'', popt PStr (success_user cr)),
        (''cred_success_pass'', popt PStr (success_pass cr)),
        (''shape_duration_s'', popt PFloat (duration_s sh)),
        (''shape_command_count'', pnat (command_count sh)),
        (''shape_unknown_command_count'', pnat (unknown_command_count sh)),
        (''shape_cred_attempts'', pnat (cred_attempts sh)),
        (''shape_failed_attempts_before_success'', popt pnat (failed_attempts_before_success sh)),
        (''shape_ttylog_bytes'', pnat (ttylog_bytes sh)),
        (''shape_has_pty'', PBool (has_pty sh)),
        (''shape_distinct_urls'', pnat (distinct_urls sh)),
        (''shape_distinct_file_hashes'', pnat (distinct_file_hashes sh)),
        (''hassh'', popt PStr (session_hassh s)),
        (''payload_refs'', PList (payload_refs E s)),
        (''enrich_schema_version'', PStr ENRICH_SCHEMA_VERSION)])"

definition banner_fields :: "session_context \<Rightarrow> (string \<times> pyval) list" where
  "banner_fields ctx =
     (case ctx_banner ctx of None \<Rightarrow> []
      | Some c \<Rightarrow> [(''banner_vendor'', popt PStr (cpe_vendor c)),
                   (''banner_product'', popt PStr (cpe_product c)),
                   (''banner_version'', popt PStr (cpe_version c)),
                   (''banner_cpe23'', popt PStr (cpe23 c))])"

definition hp_data_fields ::
  "('x) ext_scheme \<Rightarrow> session_in \<Rightarrow> session_context \<Rightarrow> pydict" where
  "hp_data_fields E s ctx =
     map (\<lambda>(k, v). (key k, v)) (base_fields E s ctx @ banner_fields ctx)"

text \<open>
  \<^verbatim>\<open>for f in hp.get("files") or (): if isinstance(f, dict): f.pop("content_b64", None)\<close>: a list
  is stripped in place, the keys of a dictionary and the characters of a string are not
  dictionaries, and a number that is not zero cannot be iterated over.
\<close>

definition strip_one :: "pyval \<Rightarrow> pyval" where
  "strip_one f = (case f of PDict d \<Rightarrow> PDict (dpop ''content_b64'' d) | _ \<Rightarrow> f)"

definition strip_files :: "pydict \<Rightarrow> pydict res" where
  "strip_files hp =
     (case dget hp ''files'' of
        PList fs \<Rightarrow> Inr (if fs = [] then hp else dset ''files'' (PList (map strip_one fs)) hp)
      | v \<Rightarrow> if truthy v \<and> (case v of PInt _ \<Rightarrow> True | PFloat _ \<Rightarrow> True | PBool _ \<Rightarrow> True | _ \<Rightarrow> False)
             then Inl TypeError else Inr hp)"

definition enrich_session ::
  "('x) ext_scheme \<Rightarrow> pydict \<Rightarrow> session_in \<Rightarrow> session_context \<Rightarrow> pydict res" where
  "enrich_session E raw s ctx =
     (let hp = (case dget raw ''hp_data'' of PDict d \<Rightarrow> d | _ \<Rightarrow> []) in
      rbind (strip_files hp) (\<lambda>hp'.
        Inr (dset ''enrich_version'' (PStr ENRICH_VERSION)
              (dset ''c2_host'' (pstrs (c2_hosts (ctx_iocs ctx)))
                (dset ''hp_data'' (PDict (dupdate hp' (hp_data_fields E s ctx))) raw)))))"

section \<open>pipeline/__init__.py\<close>

definition TAG_INBOUND :: pystr where
  "TAG_INBOUND = u ''stingar.enrichable.cowrie''"

definition INDEX_SESSION :: pystr where
  "INDEX_SESSION = u ''stingar''"

definition INDEX_C2 :: pystr where
  "INDEX_C2 = u ''stingarc2''"

record enriched =
  session_doc :: pydict
  observations :: "c2_observation list"

type_synonym validator = "pydict \<Rightarrow> session_in res"
type_synonym dumper = "c2_observation \<Rightarrow> pydict"

definition envelopes :: "dumper \<Rightarrow> enriched \<Rightarrow> (pystr \<times> pydict) list" where
  "envelopes dump e =
     (INDEX_SESSION, session_doc e) # map (\<lambda>obs. (INDEX_C2, dump obs)) (observations e)"

definition process ::
  "('x) ext_scheme \<Rightarrow> validator \<Rightarrow> geo_enricher option \<Rightarrow> pydict \<Rightarrow> enriched res" where
  "process E validate geo raw =
     rbind (validate raw) (\<lambda>s.
     rbind (build_context E s) (\<lambda>ctx.
     rbind (all_observations E s ctx) (\<lambda>rows0.
       (let rows = (case geo of Some g \<Rightarrow> if geo_enabled g then map (geo_enrich g) rows0 else rows0
                    | None \<Rightarrow> rows0) in
        rbind (enrich_session E raw s ctx) (\<lambda>doc.
          Inr \<lparr>session_doc = doc, observations = rows\<rparr>)))))"

lemmas pipeline_eval [py_eval] = CITY_DBS_def ASN_DBS_def path_join_def geo_init_def
  geo_enabled_def nowhere_def locate_city_def locate_asn_def locate_def ip_to_geolocate_def
  geo_enrich_def ENRICH_VERSION_def ENRICH_SCHEMA_VERSION_def pstrs_def popt_def pnat_def
  payload_refs_def base_fields_def banner_fields_def hp_data_fields_def strip_one_def
  strip_files_def enrich_session_def TAG_INBOUND_def INDEX_SESSION_def INDEX_C2_def
  envelopes_def process_def

section \<open>Laws\<close>

lemma geo_enrich_frame [stage_frame]:
  "c2_host (geo_enrich g r) = c2_host r" "evidence (geo_enrich g r) = evidence r"
  "row_of s (geo_enrich g r) = row_of s r"
  "r\<lparr>c2_geo := a, c2_country := b, c2_asn := c, c2_asn_org := d\<rparr> =
   (geo_enrich g r)\<lparr>c2_geo := a, c2_country := b, c2_asn := c, c2_asn_org := d\<rparr>"
  by (simp_all add: geo_enrich_def Let_def row_of_def wf_rank_def split: option.split)

lemma processD:
  assumes "process E validate geo raw = Inr e"
  obtains s ctx rows where "validate raw = Inr s" "build_context E s = Inr ctx"
    "all_observations E s ctx = Inr rows" "enrich_session E raw s ctx = Inr (session_doc e)"
    "observations e = rows \<or> (\<exists>g. geo = Some g \<and> observations e = map (geo_enrich g) rows)"
  using assms by (auto simp: process_def rbind_eq_Inr Let_def split: option.splits if_splits)

text \<open>The \<^verbatim>\<open>hp_data\<close> object of a document.\<close>

definition hp_of :: "pydict \<Rightarrow> pydict" where
  "hp_of doc = (case dget doc ''hp_data'' of PDict d \<Rightarrow> d | _ \<Rightarrow> [])"

lemma enrich_sessionD:
  assumes "enrich_session E raw s ctx = Inr doc"
  obtains hp where "strip_files (hp_of raw) = Inr hp"
    "hp_of doc = dupdate hp (hp_data_fields E s ctx)"
    "dget doc ''c2_host'' = pstrs (c2_hosts (ctx_iocs ctx))"
    "dget doc ''enrich_version'' = PStr ENRICH_VERSION"
    "\<And>k. k \<notin> {key ''hp_data'', key ''c2_host'', key ''enrich_version''} \<Longrightarrow>
       map_of doc k = map_of raw k"
  using assms by (auto simp: enrich_session_def hp_of_def rbind_eq_Inr dict_simps)

text \<open>The name spaces the enrichment writes to.\<close>

definition enrichment_key :: "pkey \<Rightarrow> bool" where
  "enrichment_key k \<longleftrightarrow>
     (case k of KB _ \<Rightarrow> False
      | KS t \<Rightarrow> list_ex (startswith t) [u ''iocs_'', u ''playbook_'', u ''cred_'', u ''shape_'', u ''banner_'']
                \<or> t \<in> {u ''hassh'', u ''payload_refs'', u ''enrich_schema_version''})"

lemma hp_data_fields_keys:
  "(k, v) \<in> set (hp_data_fields E s ctx) \<Longrightarrow> enrichment_key k"
  by (auto simp: hp_data_fields_def base_fields_def banner_fields_def Let_def enrichment_key_def
      startswith_def u_def split: option.splits)

lemma hp_data_fields_distinct: "distinct (map fst (hp_data_fields E s ctx))"
  by (cases "ctx_banner ctx")
    (auto simp: hp_data_fields_def base_fields_def banner_fields_def Let_def)

lemma not_enrichment_files: "\<not> enrichment_key (key ''files'')"
  by (simp add: enrichment_key_def startswith_def u_def)

text \<open>What stripping does to the list of files, and to nothing else.\<close>

definition stripped_files :: "pyval \<Rightarrow> pyval" where
  "stripped_files v = (case v of PList fs \<Rightarrow> PList (map strip_one fs) | _ \<Rightarrow> v)"

lemma strip_files_spec:
  assumes "strip_files hp = Inr hp'"
  shows "dget hp' ''files'' = stripped_files (dget hp ''files'')"
    and "k \<noteq> key ''files'' \<Longrightarrow> map_of hp' k = map_of hp k"
  using assms by (auto simp: strip_files_def stripped_files_def dict_simps split: pyval.splits if_splits)

definition bytes_free :: "pydict \<Rightarrow> bool" where
  "bytes_free doc \<longleftrightarrow>
     (case dget (hp_of doc) ''files'' of
        PList fs \<Rightarrow> list_all (\<lambda>f. case f of PDict d \<Rightarrow> \<not> dhas d ''content_b64'' | _ \<Rightarrow> True) fs
      | _ \<Rightarrow> True)"

lemma bytes_freeI:
  assumes "dget (hp_of doc) ''files'' = stripped_files v"
  shows "bytes_free doc"
  unfolding bytes_free_def assms stripped_files_def
  by (auto simp: strip_one_def list_all_iff dict_simps split: pyval.split)

lemma dget_dupdate_notin:
  "key k \<notin> fst ` set e \<Longrightarrow> dget (dupdate d e) k = dget d k"
  by (simp add: dget_def map_of_dupdate_notin)

lemma enrich_session_files:
  assumes "enrich_session E raw s ctx = Inr doc"
  shows "dget (hp_of doc) ''files'' = stripped_files (dget (hp_of raw) ''files'')"
proof -
  obtain hp where "strip_files (hp_of raw) = Inr hp"
    "hp_of doc = dupdate hp (hp_data_fields E s ctx)"
    using assms by (rule enrich_sessionD)
  moreover have "key ''files'' \<notin> fst ` set (hp_data_fields E s ctx)"
    using not_enrichment_files by (auto dest: hp_data_fields_keys)
  ultimately show ?thesis
    by (simp add: dget_dupdate_notin strip_files_spec)
qed

lemma enrich_session_frame:
  assumes "enrich_session E raw s ctx = Inr doc" "\<not> enrichment_key k" "k \<noteq> key ''files''"
  shows "map_of (hp_of doc) k = map_of (hp_of raw) k"
proof -
  obtain hp where "strip_files (hp_of raw) = Inr hp"
    "hp_of doc = dupdate hp (hp_data_fields E s ctx)"
    using assms(1) by (rule enrich_sessionD)
  moreover have "k \<notin> fst ` set (hp_data_fields E s ctx)"
    using assms(2) by (auto dest: hp_data_fields_keys)
  ultimately show ?thesis
    using assms(3) by (simp add: map_of_dupdate_notin strip_files_spec)
qed

lemma enrich_session_field:
  assumes "enrich_session E raw s ctx = Inr doc" "(key k, v) \<in> set (hp_data_fields E s ctx)"
  shows "dget (hp_of doc) k = v"
proof -
  obtain hp where "hp_of doc = dupdate hp (hp_data_fields E s ctx)"
    using assms(1) by (rule enrich_sessionD)
  then show ?thesis
    using assms(2) hp_data_fields_distinct [of E s ctx]
    by (simp add: dget_def map_of_dupdate)
qed

section \<open>Properties\<close>

text \<open>
  The enriched session is the inbound document verbatim: outside \<^verbatim>\<open>hp_data\<close> only
  \<^verbatim>\<open>c2_host\<close> and \<^verbatim>\<open>enrich_version\<close> are set, inside it only the enrichment's own name spaces,
  and the list of files keeps every entry with every field but the inlined bytes.
\<close>

theorem process_passthrough:
  assumes "process E validate geo raw = Inr e"
  shows "(\<forall>k. k \<notin> {key ''hp_data'', key ''c2_host'', key ''enrich_version''} \<longrightarrow>
            map_of (session_doc e) k = map_of raw k) \<and>
    (\<forall>k. \<not> enrichment_key k \<and> k \<noteq> key ''files'' \<longrightarrow>
            map_of (hp_of (session_doc e)) k = map_of (hp_of raw) k) \<and>
    dget (hp_of (session_doc e)) ''files'' = stripped_files (dget (hp_of raw) ''files'')"
proof -
  obtain s ctx where es: "enrich_session E raw s ctx = Inr (session_doc e)"
    using assms by (rule processD)
  show ?thesis
    using enrich_session_files [OF es] enrich_session_frame [OF es]
    by (auto intro: es [THEN enrich_sessionD])
qed

text \<open>
  One pivot across both indices: the document's top-level \<^verbatim>\<open>c2_host\<close>, its
  \<^verbatim>\<open>hp_data.iocs_c2_hosts\<close> and the hosts of the ledger's \<open>shell_reference\<close> rows are the same list,
  with or without geo enrichment.
\<close>

theorem pivot_consistent:
  assumes "process E validate geo raw = Inr e"
  shows "dget (session_doc e) ''c2_host'' =
      pstrs (map c2_host (filter (\<lambda>r. evidence r = shell_reference) (observations e))) \<and>
    dget (hp_of (session_doc e)) ''iocs_c2_hosts'' = dget (session_doc e) ''c2_host''"
proof -
  obtain s ctx rows where p: "all_observations E s ctx = Inr rows"
    "enrich_session E raw s ctx = Inr (session_doc e)"
    "observations e = rows \<or> (\<exists>g. geo = Some g \<and> observations e = map (geo_enrich g) rows)"
    using assms by (rule processD)
  let ?hosts = "\<lambda>rs. map c2_host (filter (\<lambda>r. evidence r = shell_reference) rs)"
  obtain served where sv: "served_files E s = Inr served"
    "rows = shell_references s ctx @ served @ file_callbacks s served"
    using p(1) by (auto simp: all_observations_def rbind_eq_Inr)
  have "filter (\<lambda>r. evidence r = shell_reference) (served @ file_callbacks s served) = []"
    using served_rows_all [OF sv(1)] file_callbacks_row_of [of _ s served]
    by (auto simp: filter_empty_conv list_all_iff)
  then have rows: "?hosts rows = c2_hosts (ctx_iocs ctx)"
    by (simp add: sv(2) shell_references_def filter_map comp_def)
  have "?hosts (map (geo_enrich g) rs) = ?hosts rs" for g rs
    by (simp add: filter_map comp_def stage_frame)
  then have "?hosts (observations e) = c2_hosts (ctx_iocs ctx)"
    using p(3) rows by auto
  moreover have "dget (session_doc e) ''c2_host'' = pstrs (c2_hosts (ctx_iocs ctx))"
    using p(2) by (rule enrich_sessionD)
  moreover have "dget (hp_of (session_doc e)) ''iocs_c2_hosts'' = pstrs (c2_hosts (ctx_iocs ctx))"
    by (rule enrich_session_field [OF p(2)]) (simp add: hp_data_fields_def base_fields_def Let_def)
  ultimately show ?thesis by simp
qed

text \<open>
  Geo enrichment touches nothing but the four geo columns, asks the databases only about an
  address literal (for a domain: the address it resolved to during the attack), and leaves a row
  as it is when the lookups miss.
\<close>

theorem geo_enrich_sound:
  "(\<exists>a b c d. geo_enrich g r = r\<lparr>c2_geo := a, c2_country := b, c2_asn := c, c2_asn_org := d\<rparr>) \<and>
   (geo_enrich g r \<noteq> r \<longrightarrow>
      (\<exists>ip. is_ip ip \<and> ip = (if c2_host_kind r = HK_ip then c2_host r else opt_str (c2_resolved_ip r)) \<and>
         ((\<exists>rd x. g_city g = Some rd \<and> rd ip = Inr x) \<or> (\<exists>rd x. g_asn g = Some rd \<and> rd ip = Inr x))))"
proof (intro conjI impI)
  show "\<exists>a b c d. geo_enrich g r = r\<lparr>c2_geo := a, c2_country := b, c2_asn := c, c2_asn_org := d\<rparr>"
  proof (intro exI)
    show "geo_enrich g r = r\<lparr>c2_geo := c2_geo (geo_enrich g r), c2_country := c2_country (geo_enrich g r),
        c2_asn := c2_asn (geo_enrich g r), c2_asn_org := c2_asn_org (geo_enrich g r)\<rparr>"
      by (simp add: geo_enrich_def Let_def split: option.split)
  qed
next
  assume ne: "geo_enrich g r \<noteq> r"
  then obtain ip where ip: "ip_to_geolocate r = Some ip" by (auto simp: geo_enrich_def split: option.splits)
  with ne have loc: "locate g ip \<noteq> nowhere"
    by (auto simp: geo_enrich_def nowhere_def)
  then have "is_ip ip" by (auto simp: locate_def is_ip_def split: sum.splits)
  moreover have "ip = (if c2_host_kind r = HK_ip then c2_host r else opt_str (c2_resolved_ip r))"
    using ip by (auto simp: ip_to_geolocate_def Let_def opt_str_def split: if_splits option.splits)
  moreover have "(\<exists>rd x. g_city g = Some rd \<and> rd ip = Inr x) \<or> (\<exists>rd x. g_asn g = Some rd \<and> rd ip = Inr x)"
    using loc by (auto simp: locate_def locate_asn_def locate_city_def split: sum.splits option.splits)
  ultimately show "\<exists>ip. is_ip ip \<and>
      ip = (if c2_host_kind r = HK_ip then c2_host r else opt_str (c2_resolved_ip r)) \<and>
      ((\<exists>rd x. g_city g = Some rd \<and> rd ip = Inr x) \<or> (\<exists>rd x. g_asn g = Some rd \<and> rd ip = Inr x))"
    by blast
qed

section \<open>A concrete document\<close>

definition demo_url_session :: session_in where
  "demo_url_session = default_session\<lparr>s_hp_data := default_hp_data\<lparr>urls := [u ''http://evil.io/x'']\<rparr>\<rparr>"

definition demo_validate :: validator where
  "demo_validate raw = Inr demo_url_session"

definition demo_raw :: pydict where
  "demo_raw = [(key ''app'', pstr ''cowrie''),
     (key ''hp_data'', pobj [(''note'', pstr ''n''),
        (''files'', PList [pobj [(''url'', pstr ''u''), (''content_b64'', pstr ''QUJD'')]])])]"

lemma demo_process:
  obtains e where "process ascii_ext demo_validate None demo_raw = Inr e"
    "map c2_host (observations e) = [u ''evil.io'']"
    "map Model.evidence (observations e) = [shell_reference]"
proof -
  have "res_ok (\<lambda>e. map c2_host (observations e) = [u ''evil.io''] \<and>
      map Model.evidence (observations e) = [shell_reference])
    (process ascii_ext demo_validate None demo_raw)" by code_simp
  then show thesis using that by (auto simp: res_ok_iff)
qed

theorem process_passthrough_witness:
  "\<exists>e. process ascii_ext demo_validate None demo_raw = Inr e \<and>
     dget (session_doc e) ''app'' = pstr ''cowrie'' \<and>
     dget (hp_of (session_doc e)) ''note'' = pstr ''n'' \<and>
     dget (hp_of (session_doc e)) ''files'' = PList [pobj [(''url'', pstr ''u'')]]"
proof -
  obtain e where e: "process ascii_ext demo_validate None demo_raw = Inr e" by (rule demo_process)
  note P = process_passthrough [OF e]
  have "map_of (session_doc e) (key ''app'') = map_of demo_raw (key ''app'')"
    using P by simp
  moreover have "\<not> enrichment_key (key ''note'')" by code_simp
  then have "map_of (hp_of (session_doc e)) (key ''note'') = map_of (hp_of demo_raw) (key ''note'')"
    using P by simp
  moreover have "stripped_files (dget (hp_of demo_raw) ''files'') = PList [pobj [(''url'', pstr ''u'')]]"
    by code_simp
  ultimately show ?thesis
    using e P by (auto simp: dget_def demo_raw_def hp_of_def)
qed

theorem pivot_consistent_witness:
  "\<exists>e. process ascii_ext demo_validate None demo_raw = Inr e \<and>
     dget (hp_of (session_doc e)) ''iocs_c2_hosts'' = PList [pstr ''evil.io'']"
proof -
  obtain e where e: "process ascii_ext demo_validate None demo_raw = Inr e"
    "map c2_host (observations e) = [u ''evil.io'']"
    "map Model.evidence (observations e) = [shell_reference]" by (rule demo_process)
  from e(2,3) have "map c2_host (filter (\<lambda>r. Model.evidence r = shell_reference) (observations e))
      = [u ''evil.io'']" by (cases "observations e") auto
  then show ?thesis
    using e(1) pivot_consistent [OF e(1)] by (simp add: pstrs_def)
qed

definition demo_geo :: geo_enricher where
  "demo_geo = \<lparr>g_city = Some (\<lambda>ip. Inr \<lparr>ca_latitude = Some 1, ca_longitude = Some 2, ca_iso_code = None\<rparr>),
               g_asn = None\<rparr>"

definition demo_geo_row :: c2_observation where
  "demo_geo_row = base_obs default_session (u ''1.2.3.4'') HK_ip shell_reference"

theorem geo_enrich_sound_witness:
  "c2_geo (geo_enrich demo_geo demo_geo_row) = Some (1, Some 2) \<and> is_ip (c2_host demo_geo_row)"
proof -
  have g: "c2_geo (geo_enrich demo_geo demo_geo_row) = Some (1, Some 2)" by code_simp
  moreover have "c2_geo demo_geo_row = None" "c2_host_kind demo_geo_row = HK_ip" by code_simp+
  ultimately have "geo_enrich demo_geo demo_geo_row \<noteq> demo_geo_row" "c2_host_kind demo_geo_row = HK_ip"
    by auto
  with g show ?thesis
    using geo_enrich_sound [of demo_geo demo_geo_row] by auto
qed

end
