(* ===== verification/Schema.thy ===== *)
theory Schema
  imports Model
begin

text \<open>
  \<^verbatim>\<open>elastic/schema.py\<close>: the ILM policy and the index templates the engine installs before the
  first write, as the values the module holds.
\<close>

definition ILM_POLICY_NAME :: pystr where
  "ILM_POLICY_NAME = u ''stingarc2''"

definition INDEX_TEMPLATE_NAME :: pystr where
  "INDEX_TEMPLATE_NAME = u ''stingarc2''"

definition ILM_POLICY :: pyval where
  "ILM_POLICY =
    pobj [
      (''policy'', pobj [
          (''phases'', pobj [
              (''hot'', pobj [(''min_age'', pstr ''0ms''), (''actions'', PDict [])]),
              (''delete'', pobj [
                  (''min_age'', pstr ''365d''),
                  (''actions'', pobj [(''delete'', PDict [])])])])])]"

definition INDEX_TEMPLATE :: pyval where
  "INDEX_TEMPLATE =
    pobj [
      (''index_patterns'', PList [pstr ''stingarc2-*'']),
      (''priority'', PInt 200),
      (''template'', pobj [
          (''settings'', pobj [
              (''number_of_shards'', PInt 1),
              (''index.lifecycle.name'', PStr ILM_POLICY_NAME)]),
          (''mappings'', pobj [
              (''_meta'', pobj [
                  (''owner'', pstr ''c2-engine''),
                  (''description'', PStr (u ''C2 evidence ledger: one immutable row per (session, c2_host, evidence). ''
                       @ u ''Drill-down surface; aggregate to c2-entities for per-C2 summaries.'')),
                  (''fields'', pobj [
                      (''c2_host'', PStr (u ''C2 host/IP the attacker referenced or fetched from (THE pivot; same field name ''
                           @ u ''on every index)'')),
                      (''c2_host_kind'', pstr ''ip | domain''),
                      (''c2_resolved_ip'', pstr ''attack-time DNS resolution of c2_host (domains)''),
                      (''evidence'', pstr ''how this C2 was observed: shell_reference | served_file | file_callback''),
                      (''evidence_rank'', PStr (u ''0=referenced only, 1=served us a file, 2=host found inside served malware ''
                           @ u ''(chain)'')),
                      (''self_hosted'', pstr ''true when c2_host == src_ip (loader-is-scanner)''),
                      (''file_kind'', pstr ''script | binary (served_file rows only)''),
                      (''family'', pstr ''rules-based malware family, category.family/variant e.g. trojan.mirai/mozi''),
                      (''content'', pstr ''full script source (served_file scripts only; binaries omit it)''),
                      (''callbacks'', pstr ''onward hosts found inside this file (script text / binary strings)''),
                      (''c2_via_sha256'', pstr ''file_callback rows: which served file (sha256) revealed this host''),
                      (''hassh'', pstr ''SSH client fingerprint of the observing session (attacker toolkit attribution)''),
                      (''src_ip'', pstr ''attacker source IP''),
                      (''sensor_hostname'', pstr ''honeypot that observed it''),
                      (''ts'', pstr ''event time (session close)'')])]),
              (''dynamic'', PBool False),
              (''properties'', pobj [
                  (''schema_version'', pobj [(''type'', pstr ''keyword'')]),
                  (''ts'', pobj [(''type'', pstr ''date'')]),
                  (''sensor_uuid'', pobj [(''type'', pstr ''keyword'')]),
                  (''sensor_hostname'', pobj [(''type'', pstr ''keyword'')]),
                  (''src_ip'', pobj [(''type'', pstr ''ip'')]),
                  (''session_id'', pobj [(''type'', pstr ''keyword'')]),
                  (''c2_host'', pobj [(''type'', pstr ''keyword'')]),
                  (''c2_host_kind'', pobj [(''type'', pstr ''keyword'')]),
                  (''c2_resolved_ip'', pobj [(''type'', pstr ''ip'')]),
                  (''c2_url'', pobj [(''type'', pstr ''keyword'')]),
                  (''c2_port'', pobj [(''type'', pstr ''integer'')]),
                  (''c2_path'', pobj [(''type'', pstr ''keyword'')]),
                  (''c2_geo'', pobj [(''type'', pstr ''geo_point'')]),
                  (''c2_country'', pobj [(''type'', pstr ''keyword'')]),
                  (''c2_asn'', pobj [(''type'', pstr ''long'')]),
                  (''c2_asn_org'', pobj [(''type'', pstr ''keyword'')]),
                  (''evidence'', pobj [(''type'', pstr ''keyword'')]),
                  (''evidence_rank'', pobj [(''type'', pstr ''byte'')]),
                  (''self_hosted'', pobj [(''type'', pstr ''boolean'')]),
                  (''file_kind'', pobj [(''type'', pstr ''keyword'')]),
                  (''sha256'', pobj [(''type'', pstr ''keyword'')]),
                  (''sha1'', pobj [(''type'', pstr ''keyword'')]),
                  (''md5'', pobj [(''type'', pstr ''keyword'')]),
                  (''size'', pobj [(''type'', pstr ''long'')]),
                  (''magic'', pobj [(''type'', pstr ''keyword'')]),
                  (''family'', pobj [(''type'', pstr ''keyword'')]),
                  (''interpreter'', pobj [(''type'', pstr ''keyword'')]),
                  (''content'', pobj [(''type'', pstr ''text'')]),
                  (''content_truncated'', pobj [(''type'', pstr ''boolean'')]),
                  (''callbacks'', pobj [(''type'', pstr ''keyword'')]),
                  (''c2_via_sha256'', pobj [(''type'', pstr ''keyword'')]),
                  (''hassh'', pobj [(''type'', pstr ''keyword'')]),
                  (''fluentd_tag'', pobj [(''type'', pstr ''keyword'')])])])])]"

definition ENTITIES_INDEX :: pystr where
  "ENTITIES_INDEX = u ''c2-entities''"

definition ENTITIES_TEMPLATE_NAME :: pystr where
  "ENTITIES_TEMPLATE_NAME = u ''c2-entities''"

definition ENTITIES_TEMPLATE :: pyval where
  "ENTITIES_TEMPLATE =
    pobj [
      (''index_patterns'', PList [PStr ENTITIES_INDEX]),
      (''priority'', PInt 200),
      (''template'', pobj [
          (''settings'', pobj [(''number_of_shards'', PInt 1)]),
          (''mappings'', pobj [
              (''_meta'', pobj [
                  (''owner'', pstr ''c2-engine reason layer''),
                  (''description'', PStr (u ''One decaying doc per C2 (_id = c2_host), rebuilt by the reason job. PRIMARY ''
                       @ u ''ask-me-anything surface for analysts: which C2s, how many, what stage. Decays ''
                       @ u ''30d after last_seen (C2s live ~3d). Drill into stingarc2-* for the underlying ''
                       @ u ''evidence rows.'')),
                  (''fields'', pobj [
                      (''c2_host'', pstr ''the C2 host/IP (doc id; same field name on every index)''),
                      (''stage'', PStr (u ''stage from the evidence ladder (max evidence_rank): unconfirmed | ''
                           @ u ''stage1_serving | stage2_c2. Intel never raises it ''
                           @ [8212]
                           @ u '' corroboration lives in stage_signals (GreyNoise model)'')),
                      (''evidence_stage'', PStr (u ''runtime: stage computed from max_evidence_rank at query time (coincides with ''
                           @ u ''`stage`)'')),
                      (''stage_signals'', PStr (u ''third-party corroboration (annotation, does not change stage): ''
                           @ u ''callback_in_malware | known_malware | hassh_toolkit | virustotal | threatfox | ''
                           @ u ''urlhaus | feodo'')),
                      (''attributed_toolkit'', pstr ''attacker toolkit(s) inferred from session hassh (e.g. mirai-loader)''),
                      (''families'', pstr ''distinct malware families this C2 served (e.g. trojan.mirai/mozi)''),
                      (''max_evidence_rank'', pstr ''strongest evidence: 0=referenced, 1=served a file, 2=found in malware''),
                      (''first_seen'', pstr ''earliest sighting''),
                      (''last_seen'', pstr ''most recent sighting (decay clock)''),
                      (''sighting_count'', pstr ''ledger rows for this C2''),
                      (''sensor_count'', pstr ''distinct honeypots that saw it''),
                      (''src_ip_count'', pstr ''distinct attacker IPs that referenced it''),
                      (''distinct_files'', pstr ''distinct served-file sha256s''),
                      (''latest.c2_asn_org'', pstr ''latest ASN org (latest.c2_country, latest.c2_host_kind likewise)''),
                      (''max_vt_ratio'', pstr ''highest VirusTotal detection ratio across served files (M3)''),
                      (''intel_sources'', PStr (u ''abuse.ch feeds that matched this C2 (M6): threatfox | urlhaus | feodo. ''
                           @ u ''Annotation only ''
                           @ [8212]
                           @ u '' does not change stage'')),
                      (''intel_malware'', PStr (u ''malware/threat names the matching feeds attribute to this C2 (feed vocabulary, ''
                           @ u ''distinct from rules-based `families`)'')),
                      (''_naming_note'', PStr (u ''the session index stingar-* uses sensor.hostname + @timestamp; ledger+entities ''
                           @ u ''use sensor_hostname + ts (pass-through invariant: we don't rewrite stock ''
                           @ u ''session fields)''))])]),
              (''dynamic'', PBool True),
              (''runtime'', pobj [
                  (''evidence_stage'', pobj [
                      (''type'', pstr ''keyword''),
                      (''script'', pobj [
                          (''source'', PStr (u ''long r = doc['max_evidence_rank'].size()==0 ? -1 : ''
                               @ u ''doc['max_evidence_rank'].value; if (r>=2) emit('stage2_c2'); else if (r==1) ''
                               @ u ''emit('stage1_serving'); else if (r==0) emit('unconfirmed');''))])])]),
              (''properties'', pobj [
                  (''c2_host'', pobj [(''type'', pstr ''keyword'')]),
                  (''first_seen'', pobj [(''type'', pstr ''date'')]),
                  (''last_seen'', pobj [(''type'', pstr ''date'')]),
                  (''sighting_count'', pobj [(''type'', pstr ''long'')]),
                  (''sensor_count'', pobj [(''type'', pstr ''long'')]),
                  (''src_ip_count'', pobj [(''type'', pstr ''long'')]),
                  (''distinct_files'', pobj [(''type'', pstr ''long'')]),
                  (''max_evidence_rank'', pobj [(''type'', pstr ''byte'')]),
                  (''c2_geo'', pobj [(''type'', pstr ''geo_point'')]),
                  (''c2_asn'', pobj [(''type'', pstr ''long'')]),
                  (''latest'', pobj [
                      (''properties'', pobj [
                          (''c2_host_kind'', pobj [(''type'', pstr ''keyword'')]),
                          (''c2_country'', pobj [(''type'', pstr ''keyword'')]),
                          (''c2_asn_org'', pobj [(''type'', pstr ''keyword'')])])]),
                  (''stage'', pobj [(''type'', pstr ''keyword'')]),
                  (''stage_signals'', pobj [(''type'', pstr ''keyword'')]),
                  (''families'', pobj [(''type'', pstr ''keyword'')]),
                  (''attributed_toolkit'', pobj [(''type'', pstr ''keyword'')]),
                  (''reason_version'', pobj [(''type'', pstr ''keyword'')]),
                  (''max_vt_ratio'', pobj [(''type'', pstr ''float'')]),
                  (''vt_families'', pobj [(''type'', pstr ''keyword'')]),
                  (''intel_sources'', pobj [(''type'', pstr ''keyword'')]),
                  (''intel_malware'', pobj [(''type'', pstr ''keyword'')]),
                  (''updated_at'', pobj [(''type'', pstr ''date'')])])])])]"

definition ENTITY_RETENTION_DAYS :: int where
  "ENTITY_RETENTION_DAYS = 30"

definition VT_INDEX :: pystr where
  "VT_INDEX = u ''c2-vt''"

definition VT_TEMPLATE_NAME :: pystr where
  "VT_TEMPLATE_NAME = u ''c2-vt''"

definition VT_TTL_DAYS :: int where
  "VT_TTL_DAYS = 30"

definition VT_TEMPLATE :: pyval where
  "VT_TEMPLATE =
    pobj [
      (''index_patterns'', PList [PStr VT_INDEX]),
      (''priority'', PInt 200),
      (''template'', pobj [
          (''settings'', pobj [(''number_of_shards'', PInt 1)]),
          (''mappings'', pobj [
              (''_meta'', pobj [
                  (''owner'', pstr ''c2-engine reason layer''),
                  (''description'', PStr (u ''VirusTotal verdict cache, one doc per served-file sha256 (_id = sha256), ''
                       @ u ''fleet-wide. Deduplicates VT lookups; entities read max_vt_ratio / vt_families ''
                       @ u ''from here. vt_found=false means VT had no record of the file at checked_at.'')),
                  (''fields'', pobj [
                      (''sha256'', pstr ''served-file hash (doc id)''),
                      (''vt_found'', pstr ''true if VT knew the file''),
                      (''vt_malicious'', pstr ''engines flagging malicious''),
                      (''vt_suspicious'', pstr ''engines flagging suspicious''),
                      (''vt_total'', pstr ''engines that scanned it''),
                      (''vt_ratio'', pstr ''vt_malicious / vt_total (0..1)''),
                      (''vt_families'', pstr ''VT popular threat names/labels''),
                      (''checked_at'', pstr ''when this verdict was fetched (staleness clock)'')])]),
              (''dynamic'', PBool False),
              (''properties'', pobj [
                  (''sha256'', pobj [(''type'', pstr ''keyword'')]),
                  (''vt_found'', pobj [(''type'', pstr ''boolean'')]),
                  (''vt_malicious'', pobj [(''type'', pstr ''integer'')]),
                  (''vt_suspicious'', pobj [(''type'', pstr ''integer'')]),
                  (''vt_total'', pobj [(''type'', pstr ''integer'')]),
                  (''vt_ratio'', pobj [(''type'', pstr ''float'')]),
                  (''vt_families'', pobj [(''type'', pstr ''keyword'')]),
                  (''checked_at'', pobj [(''type'', pstr ''date'')])])])])]"

definition INTEL_INDEX :: pystr where
  "INTEL_INDEX = u ''c2-intel''"

definition INTEL_TEMPLATE_NAME :: pystr where
  "INTEL_TEMPLATE_NAME = u ''c2-intel''"

definition INTEL_TTL_HOURS :: int where
  "INTEL_TTL_HOURS = 12"

definition INTEL_TEMPLATE :: pyval where
  "INTEL_TEMPLATE =
    pobj [
      (''index_patterns'', PList [PStr INTEL_INDEX]),
      (''priority'', PInt 200),
      (''template'', pobj [
          (''settings'', pobj [(''number_of_shards'', PInt 1)]),
          (''mappings'', pobj [
              (''_meta'', pobj [
                  (''owner'', pstr ''c2-engine reason layer''),
                  (''description'', PStr (u ''abuse.ch IOC cache, one doc per IOC (_id = source:value), fleet-wide. ''
                       @ u ''Bulk-loaded from ThreatFox / URLhaus / Feodo Tracker `recent` exports and ''
                       @ u ''matched against c2_host / c2_resolved_ip / c2_url to add intel_sources + ''
                       @ u ''intel_malware on entities. Refreshed when older than INTEL_TTL_HOURS.'')),
                  (''fields'', pobj [
                      (''source'', pstr ''feed that supplied the IOC: threatfox | urlhaus | feodo''),
                      (''ioc_type'', pstr ''ip | domain | url (normalized across feeds)''),
                      (''value'', pstr ''the IOC verbatim (ip[:port] / domain / url)''),
                      (''host'', PStr (u ''host/ip extracted from value for host-level matching (url netloc, or value ''
                           @ u ''itself)'')),
                      (''malware'', pstr ''threat/malware names the feed attributes to the IOC''),
                      (''tags'', pstr ''feed tags (free-form)''),
                      (''fetched_at'', pstr ''when this IOC's feed was last downloaded (staleness clock)'')])]),
              (''dynamic'', PBool False),
              (''properties'', pobj [
                  (''source'', pobj [(''type'', pstr ''keyword'')]),
                  (''ioc_type'', pobj [(''type'', pstr ''keyword'')]),
                  (''value'', pobj [(''type'', pstr ''keyword'')]),
                  (''host'', pobj [(''type'', pstr ''keyword'')]),
                  (''malware'', pobj [(''type'', pstr ''keyword'')]),
                  (''tags'', pobj [(''type'', pstr ''keyword'')]),
                  (''fetched_at'', pobj [(''type'', pstr ''date'')])])])])]"

section \<open>Reading a template\<close>

definition vget :: "pyval \<Rightarrow> string \<Rightarrow> pyval" where
  "vget v k = (case v of PDict d \<Rightarrow> dget d k | _ \<Rightarrow> PNone)"

definition template_properties :: "pyval \<Rightarrow> pyval" where
  "template_properties t = vget (vget (vget t ''template'') ''mappings'') ''properties''"

text \<open>The type a template gives a field, as the text of its \<^verbatim>\<open>type\<close>, or null.\<close>

definition field_type :: "pyval \<Rightarrow> string \<Rightarrow> pyval" where
  "field_type t k = vget (vget (template_properties t) k) ''type''"

text \<open>The fields of a ledger row in the order of the class \<^verbatim>\<open>C2Observation\<close>.\<close>

definition obs_fields :: "string list" where
  "obs_fields =
     [''schema_version'', ''ts'', ''sensor_uuid'', ''sensor_hostname'', ''src_ip'', ''session_id'',
      ''c2_host'', ''c2_host_kind'', ''c2_resolved_ip'', ''c2_url'', ''c2_port'', ''c2_path'', ''hassh'',
      ''c2_geo'', ''c2_country'', ''c2_asn'', ''c2_asn_org'', ''evidence'', ''evidence_rank'',
      ''self_hosted'', ''file_kind'', ''sha256'', ''sha1'', ''md5'', ''size'', ''magic'', ''family'',
      ''interpreter'', ''content'', ''content_truncated'', ''callbacks'', ''c2_via_sha256'']"

section \<open>Properties\<close>

lemma mapped_fields:
  "list_all (\<lambda>k. field_type INDEX_TEMPLATE k \<noteq> PNone) (obs_fields @ [''fluentd_tag''])"
  by code_simp

text \<open>
  The ledger template types every column of a ledger row and the tag the writer adds, and
  maps nothing dynamically: a document is searchable by all it has, the pivot is a keyword in both
  the ledger and the entity index, and the geo column is a geo point in both.
\<close>

theorem ledger_template_complete:
  "list_all (\<lambda>k. field_type INDEX_TEMPLATE k \<noteq> PNone) (obs_fields @ [''fluentd_tag'']) \<and>
   vget (vget (vget INDEX_TEMPLATE ''template'') ''mappings'') ''dynamic'' = PBool False \<and>
   field_type INDEX_TEMPLATE ''c2_host'' = pstr ''keyword'' \<and>
   field_type ENTITIES_TEMPLATE ''c2_host'' = pstr ''keyword'' \<and>
   field_type INDEX_TEMPLATE ''c2_geo'' = pstr ''geo_point'' \<and>
   field_type ENTITIES_TEMPLATE ''c2_geo'' = pstr ''geo_point''"
  by (intro conjI mapped_fields) code_simp+

end
