(* ===== verification/Py_Effect.thy ===== *)
theory Py_Effect
  imports Py_Prelude
begin

text \<open>
  Code with effects and exceptions: an operation takes the state of the outside world and returns
  its result, or the exception it raised, with the state it left.  The state survives an
  exception: what was sent stays sent.
\<close>

type_synonym ('e, 's, 'a) eff_of = "'s \<Rightarrow> ('e + 'a) \<times> 's"
type_synonym ('s, 'a) eff = "(pyerr, 's, 'a) eff_of"

definition eret :: "'a \<Rightarrow> ('e, 's, 'a) eff_of" where
  "eret x = (\<lambda>s. (Inr x, s))"

definition eraise :: "'e \<Rightarrow> ('e, 's, 'a) eff_of" where
  "eraise e = (\<lambda>s. (Inl e, s))"

definition elift :: "'e + 'a \<Rightarrow> ('e, 's, 'a) eff_of" where
  "elift m = (\<lambda>s. (m, s))"

definition ebind :: "('e, 's, 'a) eff_of \<Rightarrow> ('a \<Rightarrow> ('e, 's, 'b) eff_of) \<Rightarrow> ('e, 's, 'b) eff_of" where
  "ebind m f = (\<lambda>s. case m s of (Inl e, s') \<Rightarrow> (Inl e, s') | (Inr x, s') \<Rightarrow> f x s')"

text \<open>\<^verbatim>\<open>try: m except ...: f\<close>, for the exceptions \<open>f\<close> has an answer to.\<close>

definition ecatch :: "('e, 's, 'a) eff_of \<Rightarrow> ('e \<Rightarrow> ('e, 's, 'a) eff_of option) \<Rightarrow> ('e, 's, 'a) eff_of" where
  "ecatch m f = (\<lambda>s. case m s of
     (Inl e, s') \<Rightarrow> (case f e of None \<Rightarrow> (Inl e, s') | Some k \<Rightarrow> k s')
   | (Inr x, s') \<Rightarrow> (Inr x, s'))"

text \<open>\<^verbatim>\<open>for x in xs: f(x)\<close> and the comprehension that collects the results.\<close>

fun eiter :: "('a \<Rightarrow> ('e, 's, unit) eff_of) \<Rightarrow> 'a list \<Rightarrow> ('e, 's, unit) eff_of" where
  "eiter f [] = eret ()"
| "eiter f (x # xs) = ebind (f x) (\<lambda>_. eiter f xs)"

fun emap :: "('a \<Rightarrow> ('e, 's, 'b) eff_of) \<Rightarrow> 'a list \<Rightarrow> ('e, 's, 'b list) eff_of" where
  "emap f [] = eret []"
| "emap f (x # xs) = ebind (f x) (\<lambda>y. ebind (emap f xs) (\<lambda>ys. eret (y # ys)))"

fun efold :: "('a \<Rightarrow> 'b \<Rightarrow> ('e, 's, 'b) eff_of) \<Rightarrow> 'a list \<Rightarrow> 'b \<Rightarrow> ('e, 's, 'b) eff_of" where
  "efold f [] b = eret b"
| "efold f (x # xs) b = ebind (f x b) (efold f xs)"

lemma eret_simps [simp]: "eret x s = (Inr x, s)" "eraise e s = (Inl e, s)" "elift m s = (m, s)"
  by (simp_all add: eret_def eraise_def elift_def)

lemma ebind_simps [simp]:
  "ebind (eret x) f = f x" "ebind (eraise e) f = eraise e" "ebind (elift (Inr x)) f = f x"
  by (simp_all add: ebind_def eret_def eraise_def elift_def fun_eq_iff)

lemma ebind_eq_Inr:
  "ebind m f s = (Inr y, s'') \<longleftrightarrow> (\<exists>x s'. m s = (Inr x, s') \<and> f x s' = (Inr y, s''))"
  by (auto simp: ebind_def split: prod.split sum.split)

lemma ebind_eq_Inl:
  "ebind m f s = (Inl e, s'') \<longleftrightarrow>
     m s = (Inl e, s'') \<or> (\<exists>x s'. m s = (Inr x, s') \<and> f x s' = (Inl e, s''))"
  by (auto simp: ebind_def split: prod.split sum.split)

text \<open>
  An invariant that relates the states before and after: reflexive and transitive relations pass
  through every combinator.  \<open>pres R m\<close> says that \<open>m\<close> moves the state along \<open>R\<close>, whether or not it
  raises.
\<close>

definition pres :: "('s \<Rightarrow> 's \<Rightarrow> bool) \<Rightarrow> ('e, 's, 'a) eff_of \<Rightarrow> bool" where
  "pres R m \<longleftrightarrow> (\<forall>s. R s (snd (m s)))"

lemma presD: "pres R m \<Longrightarrow> m s = (r, s') \<Longrightarrow> R s s'"
  unfolding pres_def by (metis snd_conv)

lemma presI: "(\<And>s r s'. m s = (r, s') \<Longrightarrow> R s s') \<Longrightarrow> pres R m"
  unfolding pres_def by (metis prod.collapse)

locale state_order =
  fixes R :: "'s \<Rightarrow> 's \<Rightarrow> bool"
  assumes refl: "R s s" and trans: "R s t \<Longrightarrow> R t v \<Longrightarrow> R s v"
begin

lemma pres_pure: "pres R (eret x)" "pres R (eraise e)" "pres R (elift m)"
  by (simp_all add: pres_def refl)

lemma pres_bind: "pres R m \<Longrightarrow> (\<And>x. pres R (f x)) \<Longrightarrow> pres R (ebind m f)"
  unfolding pres_def ebind_def
  by (auto split: prod.split sum.split) (metis snd_conv trans)+

lemma pres_catch: "pres R m \<Longrightarrow> (\<And>e k. f e = Some k \<Longrightarrow> pres R k) \<Longrightarrow> pres R (ecatch m f)"
  unfolding pres_def ecatch_def
  by (auto split: prod.split sum.split option.split) (metis snd_conv trans)+

lemma pres_iter: "(\<And>x. x \<in> set xs \<Longrightarrow> pres R (f x)) \<Longrightarrow> pres R (eiter f xs)"
  by (induction xs) (auto intro!: pres_pure pres_bind)

lemma pres_map: "(\<And>x. x \<in> set xs \<Longrightarrow> pres R (f x)) \<Longrightarrow> pres R (emap f xs)"
  by (induction xs) (auto intro!: pres_pure pres_bind)

lemma pres_fold: "(\<And>x b. x \<in> set xs \<Longrightarrow> pres R (f x b)) \<Longrightarrow> pres R (efold f xs b)"
  by (induction xs arbitrary: b) (auto intro!: pres_pure pres_bind)

lemma pres_if: "pres R a \<Longrightarrow> pres R b \<Longrightarrow> pres R (if c then a else b)"
  by simp

lemmas pres_rules = pres_pure pres_bind pres_iter pres_map pres_fold pres_if

end

declare eret_def [py_eval] eraise_def [py_eval] elift_def [py_eval] ebind_def [py_eval]
  ecatch_def [py_eval]

end
