(* ===== verification/Elastic.thy ===== *)
theory Elastic
  imports Schema Py_Effect Py_Bytes
begin

text \<open>
  \<^verbatim>\<open>elastic/client.py\<close>: the Elasticsearch writer.  The service is a function of the requests it
  has answered so far and the request at hand (\<open>server\<close>); the state is the history of requests
  with their outcomes.  A body is the JSON value it denotes, so \<^verbatim>\<open>json.dumps\<close> is the check that a
  value can be serialised and \<^verbatim>\<open>json.loads\<close> fails on text that is no JSON.  Sleeping between
  attempts and logging have no effect on the state.
\<close>

section \<open>The service\<close>

datatype body = BJson pyval | BText pystr

datatype outcome = Resp int body | HttpFail int body | UrlFail | OtherFail pyerr

datatype req_body = NoBody | JBody pyval | NdJson "pyval list"

record request =
  rq_method :: pystr
  rq_url :: pystr
  rq_body :: req_body

type_synonym history = "(request \<times> outcome) list"
type_synonym server = "history \<Rightarrow> request \<Rightarrow> outcome"

definition urlopen :: "server \<Rightarrow> request \<Rightarrow> history \<Rightarrow> outcome \<times> history" where
  "urlopen srv rq h = (let r = srv h rq in (r, h @ [(rq, r)]))"

definition json_dumps :: "pyval \<Rightarrow> pyval res" where
  "json_dumps v = (if jsonable v then Inr v else Inl TypeError)"

definition json_loads :: "body \<Rightarrow> pyval res" where
  "json_loads b = (case b of BJson v \<Rightarrow> Inr v | BText _ \<Rightarrow> Inl ValueError)"

section \<open>Dates\<close>

record env = ext +
  fromisoformat :: "pystr \<Rightarrow> ((int \<times> int \<times> int) \<times> datetime) option"
    \<comment> \<open>the year, month and day the text names, and the instant\<close>
  utc_today :: "int \<times> int \<times> int"
  decode_replace :: "bytes \<Rightarrow> pystr"   \<comment> \<open>UTF-8 with errors replaced, of bytes that are not all ASCII\<close>
  float_of_text :: "pystr \<Rightarrow> rat option"   \<comment> \<open>float(text)\<close>
  str_of :: "pyval \<Rightarrow> pystr"              \<comment> \<open>str() of a value that is not a text\<close>
  json_text :: "pyval \<Rightarrow> pystr"           \<comment> \<open>the text of a JSON body\<close>

text \<open>The proleptic Gregorian date of a day counted from 1970-01-01.\<close>

definition civil_from_days :: "int \<Rightarrow> int \<times> int \<times> int" where
  "civil_from_days z0 =
     (let z = z0 + 719468; era = z div 146097; doe = z mod 146097;
          yoe = (doe - doe div 1460 + doe div 36524 - doe div 146096) div 365;
          doy = doe - (365 * yoe + yoe div 4 - yoe div 100);
          mp = (5 * doy + 2) div 153;
          d = doy - (153 * mp + 2) div 5 + 1;
          m = (if mp < 10 then mp + 3 else mp - 9)
      in (yoe + era * 400 + (if m \<le> 2 then 1 else 0), m, d))"

text \<open>\<^verbatim>\<open>fromtimestamp\<close> rounds to microseconds, half to even, and knows the years 1 to 9999.\<close>

definition round_even :: "rat \<Rightarrow> int" where
  "round_even q =
     (let f = \<lfloor>q\<rfloor>; r = q - of_int f in
      if r < 1 / 2 then f else if 1 / 2 < r then f + 1 else if even f then f else f + 1)"

definition fromtimestamp :: "rat \<Rightarrow> (int \<times> int \<times> int) res" where
  "fromtimestamp t =
     (let ymd = civil_from_days (round_even (t * 1000000) div 86400000000) in
      if 1 \<le> fst ymd \<and> fst ymd \<le> 9999 then Inr ymd else Inl ValueError)"

definition dec2 :: "int \<Rightarrow> pystr" where
  "dec2 n = [48 + n div 10 mod 10, 48 + n mod 10]"

definition strftime_ymd :: "int \<times> int \<times> int \<Rightarrow> pystr" where
  "strftime_ymd ymd = (case ymd of (y, m, d) \<Rightarrow> dec_digits (nat y) @ u ''-'' @ dec2 m @ u ''-'' @ dec2 d)"

section \<open>client.py\<close>

definition SESSION_PREFIX :: pystr where
  "SESSION_PREFIX = u ''stingar''"

definition C2_PREFIX :: pystr where
  "C2_PREFIX = u ''stingarc2''"

text \<open>\<^verbatim>\<open>_es_base\<close>; the two arguments are the environment variables, if set.\<close>

definition es_base :: "pystr option \<Rightarrow> pystr option \<Rightarrow> pystr" where
  "es_base env_host env_port =
     u ''http://'' @ (case env_host of Some h \<Rightarrow> h | None \<Rightarrow> u ''elasticsearch'')
       @ u '':'' @ (case env_port of Some p \<Rightarrow> p | None \<Rightarrow> u ''9200'')"

definition py_or :: "pyval \<Rightarrow> pyval \<Rightarrow> pyval" where
  "py_or a b = (if truthy a then a else b)"

text \<open>The date of a record: a number of seconds, an ISO text, or else today.\<close>

definition record_date :: "('x) env_scheme \<Rightarrow> pydict \<Rightarrow> (int \<times> int \<times> int) res" where
  "record_date E rec =
     (case py_or (py_or (dget rec ''end_time'') (dget rec ''@timestamp'')) (dget rec ''ts'') of
        PInt n \<Rightarrow> fromtimestamp (of_int n)
      | PFloat q \<Rightarrow> fromtimestamp q
      | PBool b \<Rightarrow> fromtimestamp (if b then 1 else 0)
      | PStr t \<Rightarrow>
          if t = [] then Inr (utc_today E)
          else (case fromisoformat E (replace_char 90 (u ''+00:00'') t) of
                  Some (ymd, _) \<Rightarrow> Inr ymd | None \<Rightarrow> Inr (utc_today E))
      | _ \<Rightarrow> Inr (utc_today E))"

definition daily_index :: "('x) env_scheme \<Rightarrow> pystr \<Rightarrow> pydict \<Rightarrow> pystr res" where
  "daily_index E pfx rec = rbind (record_date E rec) (\<lambda>ymd. Inr (pfx @ u ''-'' @ strftime_ymd ymd))"

record es_writer =
  es_url :: pystr
  es_srv :: server

definition es_init :: "server \<Rightarrow> pystr option \<Rightarrow> pystr \<Rightarrow> es_writer" where
  "es_init srv base_url dflt =
     \<lparr>es_url = rstrip_if (\<lambda>c. c = 47)
        (case base_url of Some b \<Rightarrow> if b = [] then dflt else b | None \<Rightarrow> dflt), es_srv = srv\<rparr>"

text \<open>
  The loop of \<^verbatim>\<open>index\<close>.  A status of 300 or more is raised inside the \<^verbatim>\<open>try\<close>, so it is handled
  like an error the library raised; an exception that is neither an HTTPError nor a URLError
  passes through.
\<close>

definition retry_http :: "int list \<Rightarrow> int \<Rightarrow> bool" where
  "retry_http codes c \<longleftrightarrow> c \<in> set codes"

function index_loop :: "server \<Rightarrow> request \<Rightarrow> nat \<Rightarrow> (history, unit) eff" where
  "index_loop srv rq attempt h =
     (if 5 \<le> attempt then (Inr (), h)
      else
        (let (out, h') = urlopen srv rq h;
             on_http = (\<lambda>c. if retry_http [429, 502, 503, 504] c \<and> attempt < 4
                            then index_loop srv rq (attempt + 1) h'
                            else (Inl (HTTPError c), h'))
         in case out of
              Resp st _ \<Rightarrow> if 300 \<le> st then on_http st else (Inr (), h')
            | HttpFail c _ \<Rightarrow> on_http c
            | UrlFail \<Rightarrow> if attempt < 4 then index_loop srv rq (attempt + 1) h'
                         else (Inl URLError, h')
            | OtherFail e \<Rightarrow> (Inl e, h')))"
  by pat_completeness auto
termination
  by (relation "measure (\<lambda>(srv, rq, attempt, h). 5 - attempt)") auto

function put_loop :: "server \<Rightarrow> request \<Rightarrow> nat \<Rightarrow> (history, unit) eff" where
  "put_loop srv rq attempt h =
     (if 10 \<le> attempt then (Inr (), h)
      else
        (let (out, h') = urlopen srv rq h;
             on_http = (\<lambda>c. if retry_http [502, 503, 504] c \<and> attempt < 9
                            then put_loop srv rq (attempt + 1) h'
                            else (Inl (HTTPError c), h'))
         in case out of
              Resp st _ \<Rightarrow> if 300 \<le> st then on_http st else (Inr (), h')
            | HttpFail c _ \<Rightarrow> on_http c
            | UrlFail \<Rightarrow> if attempt < 9 then put_loop srv rq (attempt + 1) h'
                         else (Inl URLError, h')
            | OtherFail e \<Rightarrow> (Inl e, h')))"
  by pat_completeness auto
termination
  by (relation "measure (\<lambda>(srv, rq, attempt, h). 10 - attempt)") auto

declare index_loop.simps [simp del] put_loop.simps [simp del]

definition index_request :: "es_writer \<Rightarrow> pystr \<Rightarrow> pyval \<Rightarrow> request" where
  "index_request es idx v =
     \<lparr>rq_method = u ''POST'', rq_url = es_url es @ u ''/'' @ idx @ u ''/_doc'', rq_body = JBody v\<rparr>"

definition es_index :: "es_writer \<Rightarrow> pystr \<Rightarrow> pydict \<Rightarrow> (history, unit) eff" where
  "es_index es idx doc =
     ebind (elift (json_dumps (PDict doc))) (\<lambda>v.
       index_loop (es_srv es) (index_request es idx v) 0)"

definition es_put :: "es_writer \<Rightarrow> pystr \<Rightarrow> pyval \<Rightarrow> (history, unit) eff" where
  "es_put es path doc =
     ebind (elift (json_dumps doc)) (\<lambda>v.
       put_loop (es_srv es)
         \<lparr>rq_method = u ''PUT'', rq_url = es_url es @ u ''/'' @ path, rq_body = JBody v\<rparr> 0)"

definition bootstrap_puts :: "(pystr \<times> pyval) list" where
  "bootstrap_puts =
     [(u ''_ilm/policy/'' @ ILM_POLICY_NAME, ILM_POLICY),
      (u ''_index_template/'' @ INDEX_TEMPLATE_NAME, INDEX_TEMPLATE),
      (u ''_index_template/'' @ ENTITIES_TEMPLATE_NAME, ENTITIES_TEMPLATE),
      (u ''_index_template/'' @ VT_TEMPLATE_NAME, VT_TEMPLATE),
      (u ''_index_template/'' @ INTEL_TEMPLATE_NAME, INTEL_TEMPLATE)]"

definition ensure_bootstrap :: "es_writer \<Rightarrow> (history, unit) eff" where
  "ensure_bootstrap es = eiter (\<lambda>(path, doc). es_put es path doc) bootstrap_puts"

text \<open>\<^verbatim>\<open>_send\<close> and \<^verbatim>\<open>_send_raw\<close>: one request; a status of 400 or more is an answer too.\<close>

definition send_request :: "es_writer \<Rightarrow> request \<Rightarrow> (history, int \<times> body) eff" where
  "send_request es rq h =
     (let (out, h') = urlopen (es_srv es) rq h in
      case out of
        Resp st b \<Rightarrow> (Inr (st, b), h')
      | HttpFail c b \<Rightarrow> (Inr (c, b), h')
      | UrlFail \<Rightarrow> (Inl URLError, h')
      | OtherFail e \<Rightarrow> (Inl e, h'))"

definition es_send :: "es_writer \<Rightarrow> pystr \<Rightarrow> pystr \<Rightarrow> pyval option \<Rightarrow> (history, int \<times> body) eff" where
  "es_send es meth path bdy =
     ebind (elift (case bdy of None \<Rightarrow> Inr NoBody
                   | Some v \<Rightarrow> rbind (json_dumps v) (\<lambda>w. Inr (JBody w)))) (\<lambda>b.
       send_request es \<lparr>rq_method = meth, rq_url = es_url es @ u ''/'' @ path, rq_body = b\<rparr>)"

definition es_send_raw ::
  "es_writer \<Rightarrow> pystr \<Rightarrow> pystr \<Rightarrow> pyval list \<Rightarrow> (history, int \<times> body) eff" where
  "es_send_raw es meth path lines =
     send_request es
       \<lparr>rq_method = meth, rq_url = es_url es @ u ''/'' @ path, rq_body = NdJson lines\<rparr>"

definition es_search :: "es_writer \<Rightarrow> pystr \<Rightarrow> pyval \<Rightarrow> (history, pyval) eff" where
  "es_search es idx query =
     ebind (es_send es (u ''POST'') (idx @ u ''/_search'') (Some query)) (\<lambda>(code, resp).
       if 300 \<le> code then eraise RuntimeError else elift (json_loads resp))"

text \<open>\<^verbatim>\<open>urllib.parse.quote(s, safe='')\<close>.\<close>

definition unreserved :: "byte \<Rightarrow> bool" where
  "unreserved b \<longleftrightarrow> (let c = uint b in ascii_digit c \<or> ascii_upper c \<or> ascii_lower c \<or>
     c \<in> {95, 46, 45, 126})"

definition hex_up :: "int \<Rightarrow> int" where
  "hex_up n = (if n < 10 then 48 + n else 55 + n)"

definition quote_byte :: "byte \<Rightarrow> pystr" where
  "quote_byte b = (if unreserved b then [uint b] else [37, hex_up (uint b div 16), hex_up (uint b mod 16)])"

definition quote :: "pystr \<Rightarrow> pystr res" where
  "quote s = rbind (utf8_encode s) (\<lambda>bs. Inr (concat (map quote_byte bs)))"

definition index_doc :: "es_writer \<Rightarrow> pystr \<Rightarrow> pystr \<Rightarrow> pydict \<Rightarrow> (history, unit) eff" where
  "index_doc es idx doc_id doc =
     ebind (elift (quote doc_id)) (\<lambda>q.
     ebind (es_send es (u ''PUT'') (idx @ u ''/_doc/'' @ q) (Some (PDict doc))) (\<lambda>(code, resp).
       if 300 \<le> code then eraise RuntimeError else eret ()))"

definition delete_by_query :: "es_writer \<Rightarrow> pystr \<Rightarrow> pyval \<Rightarrow> (history, pyval) eff" where
  "delete_by_query es idx query =
     ebind (es_send es (u ''POST'') (idx @ u ''/_delete_by_query?refresh=true'') (Some query))
       (\<lambda>(code, resp).
       if 300 \<le> code then eraise RuntimeError
       else ebind (elift (json_loads resp)) (\<lambda>v.
         case v of PDict d \<Rightarrow> eret (dget_or d ''deleted'' (PInt 0)) | _ \<Rightarrow> eraise AttributeError))"

definition bulk_lines :: "pystr \<Rightarrow> pystr \<times> pydict \<Rightarrow> pyval list" where
  "bulk_lines idx = (\<lambda>(doc_id, doc).
     [pobj [(''index'', pobj [(''_index'', PStr idx), (''_id'', PStr doc_id)])], PDict doc])"

definition bulk_index :: "es_writer \<Rightarrow> pystr \<Rightarrow> (pystr \<times> pydict) list \<Rightarrow> (history, int) eff" where
  "bulk_index es idx docs =
     (if docs = [] then eret 0
      else ebind (elift (rmap json_dumps (concat (map (bulk_lines idx) docs)))) (\<lambda>lines.
           ebind (es_send_raw es (u ''POST'') (u ''_bulk?refresh=true'') lines) (\<lambda>(code, resp).
             if 300 \<le> code then eraise RuntimeError else eret (int (length docs)))))"

definition with_tag :: "pystr \<Rightarrow> pydict \<Rightarrow> pydict" where
  "with_tag tag doc = (if tag = [] then doc else dset ''fluentd_tag'' (PStr tag) doc)"

definition write_session :: "('x) env_scheme \<Rightarrow> es_writer \<Rightarrow> pydict \<Rightarrow> pystr \<Rightarrow> (history, unit) eff" where
  "write_session E es doc tag =
     ebind (elift (daily_index E SESSION_PREFIX (with_tag tag doc))) (\<lambda>idx.
       es_index es idx (with_tag tag doc))"

definition write_observations ::
  "('x) env_scheme \<Rightarrow> es_writer \<Rightarrow> pydict list \<Rightarrow> pystr \<Rightarrow> (history, unit) eff" where
  "write_observations E es rows tag =
     eiter (\<lambda>row. ebind (elift (daily_index E C2_PREFIX (with_tag tag row))) (\<lambda>idx.
       es_index es idx (with_tag tag row))) rows"

lemmas elastic_eval [py_eval] = urlopen_def json_dumps_def json_loads_def civil_from_days_def
  round_even_def fromtimestamp_def dec2_def strftime_ymd_def SESSION_PREFIX_def
  C2_PREFIX_def es_base_def py_or_def record_date_def daily_index_def es_init_def retry_http_def
  index_loop.simps put_loop.simps index_request_def es_index_def es_put_def bootstrap_puts_def
  ensure_bootstrap_def send_request_def es_send_def es_send_raw_def es_search_def unreserved_def
  hex_up_def quote_byte_def quote_def index_doc_def delete_by_query_def bulk_lines_def
  bulk_index_def with_tag_def write_session_def write_observations_def

section \<open>Retries\<close>

text \<open>What an outcome means to the two retry loops.\<close>

definition result_of :: "outcome \<Rightarrow> unit res" where
  "result_of out =
     (case out of
        Resp st _ \<Rightarrow> if 300 \<le> st then Inl (HTTPError st) else Inr ()
      | HttpFail c _ \<Rightarrow> Inl (HTTPError c)
      | UrlFail \<Rightarrow> Inl URLError
      | OtherFail e \<Rightarrow> Inl e)"

definition retriable :: "int list \<Rightarrow> outcome \<Rightarrow> bool" where
  "retriable codes out \<longleftrightarrow>
     (case out of
        Resp st _ \<Rightarrow> 300 \<le> st \<and> st \<in> set codes
      | HttpFail c _ \<Rightarrow> c \<in> set codes
      | UrlFail \<Rightarrow> True
      | OtherFail _ \<Rightarrow> False)"

text \<open>
  The contract of a retry loop: from attempt \<open>a\<close> it sends the same request until an outcome is final
  or the attempts are used up, and the last outcome decides the result.
\<close>

locale retry_loop =
  fixes loop :: "server \<Rightarrow> request \<Rightarrow> nat \<Rightarrow> (history, unit) eff"
    and limit :: nat and codes :: "int list"
  assumes final: "a < limit \<Longrightarrow> \<not> (retriable codes (srv h rq) \<and> a + 1 < limit) \<Longrightarrow>
      loop srv rq a h = (result_of (srv h rq), h @ [(rq, srv h rq)])"
    and again: "a + 1 < limit \<Longrightarrow> retriable codes (srv h rq) \<Longrightarrow>
      loop srv rq a h = loop srv rq (a + 1) (h @ [(rq, srv h rq)])"
begin

lemma attempts:
  assumes "a < limit" "loop srv rq a h = (r, h')"
  shows "\<exists>fails out. h' = h @ map (Pair rq) (fails @ [out]) \<and> list_all (retriable codes) fails \<and>
    r = result_of out \<and> length fails < limit - a \<and>
    (retriable codes out \<longrightarrow> Suc (length fails) = limit - a)"
  using assms
proof (induction "limit - a" arbitrary: a h)
  case (Suc n)
  let ?o = "srv h rq"
  show ?case
  proof (cases "retriable codes ?o \<and> a + 1 < limit")
    case False
    with Suc.prems final [of a srv h rq] have "r = result_of ?o" "h' = h @ [(rq, ?o)]" by auto
    with False Suc.prems(1) show ?thesis
      by (intro exI [of _ "[]"] exI [of _ ?o]) auto
  next
    case True
    then have "loop srv rq (a + 1) (h @ [(rq, ?o)]) = (r, h')"
      using Suc.prems(2) again [of a srv h rq] by simp
    moreover have "n = limit - (a + 1)" using Suc.hyps(2) by simp
    ultimately obtain fails out where f:
      "h' = (h @ [(rq, ?o)]) @ map (Pair rq) (fails @ [out])" "list_all (retriable codes) fails"
      "r = result_of out" "length fails < limit - (a + 1)"
      "retriable codes out \<longrightarrow> Suc (length fails) = limit - (a + 1)"
      using Suc.hyps(1) [of "a + 1" "h @ [(rq, ?o)]"] True by blast
    with True Suc.prems(1) show ?thesis
      by (intro exI [of _ "?o # fails"] exI [of _ out]) auto
  qed
qed simp

lemma grows: "a < limit \<Longrightarrow> loop srv rq a h = (r, h') \<Longrightarrow> prefix h h'"
  by (drule (1) attempts) auto

end

interpretation idx: retry_loop index_loop 5 "[429, 502, 503, 504]"
proof
  fix a h rq and srv :: server
  assume a: "a < (5 :: nat)" "\<not> (retriable [429, 502, 503, 504] (srv h rq) \<and> a + 1 < 5)"
  then show "index_loop srv rq a h = (result_of (srv h rq), h @ [(rq, srv h rq)])"
    by (subst index_loop.simps)
      (auto simp: urlopen_def Let_def result_of_def retriable_def retry_http_def split: outcome.splits)
next
  fix a h rq and srv :: server
  assume a: "a + 1 < (5 :: nat)" "retriable [429, 502, 503, 504] (srv h rq)"
  then show "index_loop srv rq a h = index_loop srv rq (a + 1) (h @ [(rq, srv h rq)])"
    by (subst index_loop.simps)
      (auto simp: urlopen_def Let_def retriable_def retry_http_def split: outcome.splits)
qed

interpretation putl: retry_loop put_loop 10 "[502, 503, 504]"
proof
  fix a h rq and srv :: server
  assume a: "a < (10 :: nat)" "\<not> (retriable [502, 503, 504] (srv h rq) \<and> a + 1 < 10)"
  then show "put_loop srv rq a h = (result_of (srv h rq), h @ [(rq, srv h rq)])"
    by (subst put_loop.simps)
      (auto simp: urlopen_def Let_def result_of_def retriable_def retry_http_def split: outcome.splits)
next
  fix a h rq and srv :: server
  assume a: "a + 1 < (10 :: nat)" "retriable [502, 503, 504] (srv h rq)"
  then show "put_loop srv rq a h = put_loop srv rq (a + 1) (h @ [(rq, srv h rq)])"
    by (subst put_loop.simps)
      (auto simp: urlopen_def Let_def retriable_def retry_http_def split: outcome.splits)
qed

section \<open>The history only grows\<close>

interpretation hist: state_order "prefix :: history \<Rightarrow> history \<Rightarrow> bool"
  by unfold_locales auto

lemma es_index_grows: "pres prefix (es_index es idx doc)"
  unfolding es_index_def
  by (intro hist.pres_bind hist.pres_pure presI) (auto elim: idx.grows [rotated])

lemma es_put_grows: "pres prefix (es_put es path doc)"
  unfolding es_put_def
  by (intro hist.pres_bind hist.pres_pure presI) (auto elim: putl.grows [rotated])

lemma send_request_grows: "pres prefix (send_request es rq)"
  by (rule presI) (auto simp: send_request_def urlopen_def Let_def split: outcome.splits)

lemma es_send_grows: "pres prefix (es_send es m p b)"
  unfolding es_send_def by (intro hist.pres_bind hist.pres_pure send_request_grows)

lemma write_grows: "pres prefix (write_session E es doc tag)" "pres prefix (write_observations E es rows tag)"
  unfolding write_session_def write_observations_def
  by (intro hist.pres_bind hist.pres_pure hist.pres_iter es_index_grows)+

section \<open>What was stored\<close>

text \<open>The requests the service accepted, in order.\<close>

definition accepted :: "history \<Rightarrow> request list" where
  "accepted h = map fst (filter (\<lambda>(rq, out). result_of out = Inr ()) h)"

lemma accepted_append [simp]: "accepted (h @ h') = accepted h @ accepted h'"
  by (simp add: accepted_def)

lemma accepted_Nil [simp]: "accepted [] = []"
  by (simp add: accepted_def)

lemma retriable_not_accepted: "retriable codes out \<Longrightarrow> result_of out \<noteq> Inr ()"
  by (auto simp: retriable_def result_of_def split: outcome.splits)

lemma accepted_fails: "list_all (retriable codes) fails \<Longrightarrow> accepted (map (Pair rq) fails) = []"
  by (induction fails) (auto simp: accepted_def dest: retriable_not_accepted)

lemma es_index_accepted:
  assumes "es_index es idx doc h = (r, h')"
  shows "accepted h' = accepted h @ (if r = Inr () then [index_request es idx (PDict doc)] else [])"
    and "length h' \<le> length h + 5"
proof -
  have "accepted h' = accepted h @ (if r = Inr () then [index_request es idx (PDict doc)] else []) \<and>
    length h' \<le> length h + 5"
  proof (cases "jsonable (PDict doc)")
    case False
    with assms have "r = Inl TypeError \<and> h' = h"
      by (simp add: es_index_def json_dumps_def ebind_def)
    then show ?thesis by simp
  next
    case True
    let ?rq = "index_request es idx (PDict doc)"
    have "index_loop (es_srv es) ?rq 0 h = (r, h')"
      using assms True by (simp add: es_index_def json_dumps_def)
    from idx.attempts [OF _ this] obtain fails out where f:
      "h' = h @ map (Pair ?rq) (fails @ [out])" "list_all (retriable [429, 502, 503, 504]) fails"
      "r = result_of out" "length fails < 5" by auto
    then show ?thesis
      by (auto simp: accepted_fails) (auto simp: accepted_def)
  qed
  then show "accepted h' = accepted h @ (if r = Inr () then [index_request es idx (PDict doc)] else [])"
    "length h' \<le> length h + 5" by auto
qed

text \<open>The request that stores a tagged document in its daily index.\<close>

definition doc_request ::
  "('x) env_scheme \<Rightarrow> es_writer \<Rightarrow> pystr \<Rightarrow> pystr \<Rightarrow> pydict \<Rightarrow> request" where
  "doc_request E es pfx tag doc =
     index_request es (case daily_index E pfx (with_tag tag doc) of Inr i \<Rightarrow> i | Inl _ \<Rightarrow> [])
       (PDict (with_tag tag doc))"

lemma write_session_accepted:
  assumes "write_session E es doc tag h = (r, h')"
  shows "accepted h' = accepted h @ (if r = Inr () then [doc_request E es SESSION_PREFIX tag doc] else [])"
proof (cases "daily_index E SESSION_PREFIX (with_tag tag doc)")
  case (Inl e)
  with assms show ?thesis by (auto simp: write_session_def ebind_def)
next
  case (Inr i)
  with assms es_index_accepted(1) [of es i "with_tag tag doc" h r h'] show ?thesis
    by (auto simp: write_session_def doc_request_def)
qed

lemma write_observations_accepted:
  assumes "write_observations E es rows tag h = (r, h')"
  shows "\<exists>n \<le> length rows. accepted h' =
      accepted h @ map (doc_request E es C2_PREFIX tag) (take n rows) \<and> (r = Inr () \<longleftrightarrow> n = length rows)"
  using assms
proof (induction rows arbitrary: h)
  case Nil
  then show ?case by (auto simp: write_observations_def)
next
  case (Cons row rows)
  let ?first = "ebind (elift (daily_index E C2_PREFIX (with_tag tag row))) (\<lambda>idx.
       es_index es idx (with_tag tag row))"
  obtain r1 h1 where st: "?first h = (r1, h1)" by (cases "?first h")
  have acc: "accepted h1 = accepted h @ (if r1 = Inr () then [doc_request E es C2_PREFIX tag row] else [])"
  proof (cases "daily_index E C2_PREFIX (with_tag tag row)")
    case (Inl e)
    with st show ?thesis by (auto simp: ebind_def)
  next
    case (Inr i)
    with st es_index_accepted(1) [of es i "with_tag tag row" h r1 h1] show ?thesis
      by (auto simp: doc_request_def)
  qed
  show ?case
  proof (cases r1)
    case (Inl e)
    with Cons.prems st acc show ?thesis
      by (intro exI [of _ 0]) (auto simp: write_observations_def ebind_def [of ?first])
  next
    case (Inr _)
    then have "write_observations E es rows tag h1 = (r, h')"
      using Cons.prems st by (simp add: write_observations_def ebind_def [of ?first])
    then obtain n where n: "n \<le> length rows"
      "accepted h' = accepted h1 @ map (doc_request E es C2_PREFIX tag) (take n rows)"
      "r = Inr () \<longleftrightarrow> n = length rows"
      using Cons.IH by blast
    with Inr acc show ?thesis by (intro exI [of _ "Suc n"]) auto
  qed
qed

section \<open>Properties\<close>

text \<open>
  A write to Elasticsearch sends one request at most five times; it succeeds exactly when the
  last outcome is an acceptance, every earlier outcome was one the code retries, and so a document
  is stored once or, if the call raises, not at all as far as the service has told.
\<close>

theorem es_index_at_most_once:
  assumes "es_index es idx doc h = (r, h')"
  shows "accepted h' = accepted h @ (if r = Inr () then [index_request es idx (PDict doc)] else []) \<and>
    length h' \<le> length h + 5 \<and>
    (r \<noteq> Inr () \<and> jsonable (PDict doc) \<longrightarrow>
       (\<exists>out. last h' = (index_request es idx (PDict doc), out) \<and> r = result_of out \<and>
          (retriable [429, 502, 503, 504] out \<longrightarrow> length h' = length h + 5)))"
proof (intro conjI impI)
  show "accepted h' = accepted h @ (if r = Inr () then [index_request es idx (PDict doc)] else [])"
    "length h' \<le> length h + 5" using es_index_accepted [OF assms] by auto
  assume "r \<noteq> Inr () \<and> jsonable (PDict doc)"
  then have "index_loop (es_srv es) (index_request es idx (PDict doc)) 0 h = (r, h')"
    using assms by (simp add: es_index_def json_dumps_def)
  from idx.attempts [OF _ this]
  show "\<exists>out. last h' = (index_request es idx (PDict doc), out) \<and> r = result_of out \<and>
          (retriable [429, 502, 503, 504] out \<longrightarrow> length h' = length h + 5)"
    by auto
qed

lemma es_put_accepted:
  assumes "es_put es path v h = (Inr (), h')"
  shows "accepted h' = accepted h @
    [\<lparr>rq_method = u ''PUT'', rq_url = es_url es @ u ''/'' @ path, rq_body = JBody v\<rparr>]"
proof -
  let ?rq = "\<lparr>rq_method = u ''PUT'', rq_url = es_url es @ u ''/'' @ path, rq_body = JBody v\<rparr>"
  have "put_loop (es_srv es) ?rq 0 h = (Inr (), h')"
    using assms by (auto simp: es_put_def json_dumps_def ebind_eq_Inr split: if_splits)
  from putl.attempts [OF _ this] obtain fails out where f:
    "h' = h @ map (Pair ?rq) (fails @ [out])" "list_all (retriable [502, 503, 504]) fails"
    "Inr () = result_of out" by auto
  then show ?thesis by (auto simp: accepted_fails) (auto simp: accepted_def)
qed

lemma puts_accepted:
  assumes "eiter (\<lambda>(path, doc). es_put es path doc) ps h = (Inr (), h')"
  shows "accepted h' = accepted h @ map (\<lambda>(path, doc).
    \<lparr>rq_method = u ''PUT'', rq_url = es_url es @ u ''/'' @ path, rq_body = JBody doc\<rparr>) ps"
  using assms
  by (induction ps arbitrary: h) (auto simp: ebind_eq_Inr dest!: es_put_accepted)

text \<open>
  The bootstrap installs the five resources in their order, each before the next is tried: if
  it returns, exactly these were accepted.
\<close>

theorem bootstrap_installs:
  assumes "ensure_bootstrap es h = (Inr (), h')"
  shows "accepted h' = accepted h @ map (\<lambda>(path, doc).
    \<lparr>rq_method = u ''PUT'', rq_url = es_url es @ u ''/'' @ path, rq_body = JBody doc\<rparr>) bootstrap_puts"
  using assms unfolding ensure_bootstrap_def by (rule puts_accepted)

section \<open>Concrete services\<close>

text \<open>A service that is busy for its first two requests.\<close>

definition warming_up :: server where
  "warming_up h rq = (if length h < 2 then HttpFail 503 (BText []) else Resp 201 (BText []))"

definition demo_es :: "server \<Rightarrow> es_writer" where
  "demo_es srv = es_init srv None (u ''http://es:9200/'')"

definition demo_env :: env where
  "demo_env = ext.extend ascii_ext \<lparr>fromisoformat = (\<lambda>_. None), utc_today = (2024, 2, 29),
     decode_replace = map uint, float_of_text = (\<lambda>_. None),
     str_of = (\<lambda>_. []), json_text = (\<lambda>_. [])\<rparr>"

theorem es_index_at_most_once_witness:
  "\<exists>h'. es_index (demo_es warming_up) (u ''i'') [] [] = (Inr (), h') \<and> length h' = 3 \<and>
     accepted h' = [index_request (demo_es warming_up) (u ''i'') (PDict [])]"
proof -
  obtain r h' where e: "es_index (demo_es warming_up) (u ''i'') [] [] = (r, h')"
    by (cases "es_index (demo_es warming_up) (u ''i'') [] []")
  then have "r = Inr ()" "length h' = 3"
    by (auto simp: es_index_def json_dumps_def index_loop.simps urlopen_def Let_def warming_up_def
        demo_es_def es_init_def retry_http_def)
  with e es_index_at_most_once [OF e] show ?thesis by simp
qed

theorem bootstrap_installs_witness:
  "\<exists>h'. ensure_bootstrap (demo_es (\<lambda>h rq. Resp 200 (BText []))) [] = (Inr (), h') \<and>
     length (accepted h') = 5"
proof -
  have ok: "jsonable ILM_POLICY" "jsonable INDEX_TEMPLATE" "jsonable ENTITIES_TEMPLATE"
    "jsonable VT_TEMPLATE" "jsonable INTEL_TEMPLATE"
    by (simp_all add: ILM_POLICY_def INDEX_TEMPLATE_def ENTITIES_TEMPLATE_def VT_TEMPLATE_def
        INTEL_TEMPLATE_def)
  obtain h' where e: "ensure_bootstrap (demo_es (\<lambda>h rq. Resp 200 (BText []))) [] = (Inr (), h')"
    using ok by (auto simp: ensure_bootstrap_def bootstrap_puts_def es_put_def json_dumps_def
        put_loop.simps urlopen_def Let_def demo_es_def es_init_def ebind_def)
  with bootstrap_installs [OF e] show ?thesis by (simp add: bootstrap_puts_def)
qed

end
