(* ===== verification/Forward.thy ===== *)
theory Forward
  imports Py_Value Py_Bytes Py_Effect
begin

text \<open>
  \<^verbatim>\<open>services/ingest/forward.py\<close>: the server side of the Fluent forward protocol.  The msgpack
  decoder and encoder and gzip are arguments (\<open>codec\<close>): \<open>mp_next\<close> looks at the bytes that are
  buffered and finds the next message, that more bytes are needed, or that they are malformed.
  A connection is the list of chunks the socket delivers; its state is that of the record handler
  with the replies sent so far.
\<close>

section \<open>The libraries\<close>

datatype unpack_step = NeedMore | Got pyval bytes | Malformed pyerr

record codec =
  mp_next :: "bytes \<Rightarrow> unpack_step"
  mp_pack :: "pyval \<Rightarrow> bytes res"
  gz_decompress :: "bytes \<Rightarrow> bytes res"

text \<open>The messages in a buffer that is not fed again; every message takes at least one byte.\<close>

function unpack_all :: "('c) codec_scheme \<Rightarrow> bytes \<Rightarrow> pyval list res" where
  "unpack_all C buf =
     (case mp_next C buf of
        NeedMore \<Rightarrow> Inr []
      | Malformed e \<Rightarrow> Inl e
      | Got v rest \<Rightarrow>
          if length rest < length buf then rbind (unpack_all C rest) (\<lambda>vs. Inr (v # vs))
          else Inl MsgpackError)"
  by pat_completeness auto
termination
  by (relation "measure (\<lambda>(C, buf). length buf)") auto

declare unpack_all.simps [simp del]

section \<open>forward.py\<close>

definition MAX_BUFFER :: int where
  "MAX_BUFFER = 256 * 1024 * 1024"

text \<open>\<^verbatim>\<open>Unpacker.feed\<close> refuses to hold more than the limit.\<close>

definition feed :: "bytes \<Rightarrow> bytes \<Rightarrow> bytes res" where
  "feed buf chunk =
     (if MAX_BUFFER < int (length buf + length chunk) then Inl MsgpackError else Inr (buf @ chunk))"

definition as_bytes :: "pyval \<Rightarrow> bytes res" where
  "as_bytes blob =
     (case blob of PBytes b \<Rightarrow> Inr b | PStr s \<Rightarrow> utf8_encode_se s | _ \<Rightarrow> Inl AttributeError)"

definition norm_key :: "pkey \<Rightarrow> pkey" where
  "norm_key k = (case k of KS s \<Rightarrow> KS s | KB b \<Rightarrow> KS (utf8_decode_se b))"

text \<open>A dictionary display: a key that comes again keeps its place and takes the later value.\<close>

definition dict_of :: "(pkey \<times> pyval) list \<Rightarrow> pydict" where
  "dict_of kvs = fold (\<lambda>(k, v). AList.update k v) kvs []"

fun normalize_val :: "pyval \<Rightarrow> pyval" where
  "normalize_val (PDict d) = PDict (dict_of (map (\<lambda>kv. (norm_key (fst kv), normalize_val (snd kv))) d))"
| "normalize_val (PList l) = PList (map normalize_val l)"
| "normalize_val (PBytes b) = PStr (utf8_decode_se b)"
| "normalize_val v = v"

definition norm_record :: "pydict \<Rightarrow> pydict" where
  "norm_record d = dict_of (map (\<lambda>kv. (norm_key (fst kv), normalize_val (snd kv))) d)"

text \<open>\<^verbatim>\<open>isinstance(entry, list) and len(entry) >= 2 and isinstance(entry[1], dict)\<close>.\<close>

definition entry_record :: "pyval \<Rightarrow> pydict option" where
  "entry_record entry = (case entry of PList (_ # PDict d # _) \<Rightarrow> Some d | _ \<Rightarrow> None)"

definition entry_records :: "pystr \<Rightarrow> pyval list \<Rightarrow> (pystr \<times> pydict) list" where
  "entry_records tag entries = map (\<lambda>d. (tag, norm_record d)) (List.map_filter entry_record entries)"

definition dict_at :: "nat \<Rightarrow> pyval list \<Rightarrow> pydict option" where
  "dict_at i msg = (if i < length msg then (case msg ! i of PDict d \<Rightarrow> Some d | _ \<Rightarrow> None) else None)"

definition is_gzip :: "pydict option \<Rightarrow> bool" where
  "is_gzip opt = (case opt of None \<Rightarrow> False | Some d \<Rightarrow> dget d ''compressed'' = pstr ''gzip'')"

definition packed_records ::
  "('c) codec_scheme \<Rightarrow> pystr \<Rightarrow> pyval \<Rightarrow> pydict option \<Rightarrow> (pystr \<times> pydict) list res" where
  "packed_records C tag blob opt =
     rbind (as_bytes blob) (\<lambda>raw.
     rbind (if is_gzip opt then gz_decompress C raw else Inr raw) (\<lambda>payload.
     rbind (feed [] payload) (\<lambda>buf.
     rbind (unpack_all C buf) (\<lambda>entries. Inr (entry_records tag entries)))))"

definition parse_frame ::
  "('c) codec_scheme \<Rightarrow> pyval \<Rightarrow> ((pystr \<times> pydict) list \<times> pydict option) res" where
  "parse_frame C m =
     (case m of
        PList (PStr tag # second # rest) \<Rightarrow>
          (let msg = PStr tag # second # rest in
           case second of
             PList entries \<Rightarrow> Inr (entry_records tag entries, dict_at 2 msg)
           | PBytes _ \<Rightarrow>
               rbind (packed_records C tag second (dict_at 2 msg)) (\<lambda>rs. Inr (rs, dict_at 2 msg))
           | PStr _ \<Rightarrow>
               rbind (packed_records C tag second (dict_at 2 msg)) (\<lambda>rs. Inr (rs, dict_at 2 msg))
           | _ \<Rightarrow>
               (case dict_at 2 msg of
                  Some d \<Rightarrow> Inr ([(tag, norm_record d)], dict_at 3 msg)
                | None \<Rightarrow> Inr ([], None)))
      | _ \<Rightarrow> Inr ([], None))"

definition pong_response :: "('c) codec_scheme \<Rightarrow> pyval list \<Rightarrow> bytes res" where
  "pong_response C ping =
     mp_pack C (PList [pstr ''PONG'',
       if 1 < length ping then ping ! 1 else PStr [],
       if 2 < length ping then ping ! 2 else PInt 0, PDict []])"

section \<open>The connection\<close>

type_synonym 's handler = "pystr \<Rightarrow> pydict \<Rightarrow> ('s, unit) eff"

record 's conn =
  hstate :: 's
  sent :: "bytes list"

text \<open>
  \<^verbatim>\<open>self.request.sendall\<close>: \<open>writable\<close> tells from what was sent whether the peer still takes
  the next reply.
\<close>

definition sendall :: "(bytes list \<Rightarrow> bool) \<Rightarrow> bytes \<Rightarrow> ('s conn, unit) eff" where
  "sendall writable bs st =
     (if writable (sent st) then (Inr (), st\<lparr>sent := sent st @ [bs]\<rparr>) else (Inl OSError, st))"

definition run_handler :: "('s, 'a) eff \<Rightarrow> ('s conn, 'a) eff" where
  "run_handler m st = (let (r, h) = m (hstate st) in (r, st\<lparr>hstate := h\<rparr>))"

definition handle_records :: "'s handler \<Rightarrow> (pystr \<times> pydict) list \<Rightarrow> ('s, unit) eff" where
  "handle_records handler records = eiter (\<lambda>(tag, rec). handler tag rec) records"

definition send_ack ::
  "('c) codec_scheme \<Rightarrow> (bytes list \<Rightarrow> bool) \<Rightarrow> pydict option \<Rightarrow> ('s conn, unit) eff" where
  "send_ack C writable opt =
     (case opt of
        Some d \<Rightarrow>
          if dhas d ''chunk''
          then ebind (elift (mp_pack C (pobj [(''ack'', dget d ''chunk'')]))) (sendall writable)
          else eret ()
      | None \<Rightarrow> eret ())"

definition is_ping :: "pyval \<Rightarrow> bool" where
  "is_ping m = (case m of PList (x # _) \<Rightarrow> x = pstr ''PING'' | _ \<Rightarrow> False)"

definition dispatch ::
  "('c) codec_scheme \<Rightarrow> (bytes list \<Rightarrow> bool) \<Rightarrow> 's handler \<Rightarrow> pyval \<Rightarrow> ('s conn, unit) eff" where
  "dispatch C writable handler m =
     (if is_ping m
      then ebind (elift (pong_response C (case m of PList l \<Rightarrow> l | _ \<Rightarrow> []))) (sendall writable)
      else ebind (elift (parse_frame C m)) (\<lambda>(records, opt).
           ebind (run_handler (handle_records handler records)) (\<lambda>_.
             send_ack C writable opt)))"

text \<open>How the handler leaves a connection: still reading, closed, or ended by an exception.\<close>

datatype conn_end = Reading bytes | Closed | Crashed pyerr

function drain ::
  "('c) codec_scheme \<Rightarrow> (bytes list \<Rightarrow> bool) \<Rightarrow> 's handler \<Rightarrow> bytes \<Rightarrow> 's conn \<Rightarrow> conn_end \<times> 's conn"
where
  "drain C writable handler buf st =
     (case mp_next C buf of
        NeedMore \<Rightarrow> (Reading buf, st)
      | Malformed e \<Rightarrow> (Crashed e, st)
      | Got m rest \<Rightarrow>
          if length rest < length buf
          then (case dispatch C writable handler m st of
                  (Inl _, st') \<Rightarrow> (Closed, st')
                | (Inr _, st') \<Rightarrow> drain C writable handler rest st')
          else (Crashed MsgpackError, st))"
  by pat_completeness auto
termination
  by (relation "measure (\<lambda>(C, w, handler, buf, st). length buf)") auto

declare drain.simps [simp del]

fun handle_conn ::
  "('c) codec_scheme \<Rightarrow> (bytes list \<Rightarrow> bool) \<Rightarrow> 's handler \<Rightarrow> bytes \<Rightarrow> bytes list \<Rightarrow> 's conn
   \<Rightarrow> conn_end \<times> 's conn" where
  "handle_conn C writable handler buf [] st = (Closed, st)"
| "handle_conn C writable handler buf (chunk # chunks) st =
     (if chunk = [] then (Closed, st)
      else (case feed buf chunk of
          Inl e \<Rightarrow> (Crashed e, st)
        | Inr buf' \<Rightarrow>
            (case drain C writable handler buf' st of
               (Reading buf'', st') \<Rightarrow> handle_conn C writable handler buf'' chunks st'
             | other \<Rightarrow> other)))"

lemmas forward_eval [py_eval] = unpack_all.simps MAX_BUFFER_def feed_def as_bytes_def norm_key_def
  dict_of_def norm_record_def entry_record_def entry_records_def dict_at_def is_gzip_def
  packed_records_def parse_frame_def pong_response_def sendall_def run_handler_def
  handle_records_def send_ack_def is_ping_def dispatch_def drain.simps

section \<open>Normalised records\<close>

lemma dict_of_distinct: "distinct (map fst (dict_of kvs))"
proof -
  have "distinct (map fst (fold (\<lambda>(k, v). AList.update k v) kvs d))" if "distinct (map fst d)" for d
    using that by (induction kvs arbitrary: d) (auto simp: distinct_update)
  then show ?thesis by (simp add: dict_of_def)
qed

lemma set_AList_update: "set (AList.update k v d) \<subseteq> insert (k, v) (set d)"
  by (induction d) auto

lemma set_dict_of: "set (dict_of kvs) \<subseteq> set kvs"
proof -
  have "set (fold (\<lambda>(k, v). AList.update k v) kvs d) \<subseteq> set kvs \<union> set d" for d
  proof (induction kvs arbitrary: d)
    case (Cons kv kvs)
    obtain k v where "kv = (k, v)" by (cases kv)
    then show ?case
      using Cons [of "AList.update k v d"] set_AList_update [of k v d] by auto
  qed simp
  then show ?thesis unfolding dict_of_def by (metis empty_set sup_bot.right_neutral)
qed

lemma dict_of_id: "distinct (map fst kvs) \<Longrightarrow> dict_of kvs = kvs"
proof -
  have new: "k \<notin> fst ` set d \<Longrightarrow> AList.update k v d = d @ [(k, v)]" for k v and d :: pydict
    by (induction d) auto
  have "fold (\<lambda>(k, v). AList.update k v) kvs d = d @ kvs" if "distinct (map fst (d @ kvs))" for d
    using that by (induction kvs arbitrary: d) (auto simp: new)
  then show "distinct (map fst kvs) \<Longrightarrow> dict_of kvs = kvs" by (simp add: dict_of_def)
qed

lemma norm_key_KS: "\<exists>t. norm_key k = KS t"
  by (cases k) (auto simp: norm_key_def)

lemma normalize_jsonable: "jsonable (normalize_val v)"
proof (induction v rule: normalize_val.induct)
  case (1 d)
  have "(case fst kv of KS _ \<Rightarrow> True | KB _ \<Rightarrow> False) \<and> jsonable (snd kv)"
    if kv: "kv \<in> set (dict_of (map (\<lambda>kv. (norm_key (fst kv), normalize_val (snd kv))) d))" for kv
  proof -
    obtain kv0 where "kv0 \<in> set d" "kv = (norm_key (fst kv0), normalize_val (snd kv0))"
      using kv set_dict_of by fastforce
    then show ?thesis using 1 norm_key_KS [of "fst kv0"] by auto
  qed
  then show ?case by (auto simp: list_all_iff)
qed (auto simp: list_all_iff)

text \<open>Every dictionary inside has its keys once, as every Python dictionary does.\<close>

fun wf_val :: "pyval \<Rightarrow> bool" where
  "wf_val (PDict d) = (distinct (map fst d) \<and> list_all (\<lambda>kv. wf_val (snd kv)) d)"
| "wf_val (PList l) = list_all wf_val l"
| "wf_val v = True"

lemma normalize_wf: "wf_val (normalize_val v)"
proof (induction v rule: normalize_val.induct)
  case (1 d)
  have "wf_val (snd kv)"
    if kv: "kv \<in> set (dict_of (map (\<lambda>kv. (norm_key (fst kv), normalize_val (snd kv))) d))" for kv
    using kv set_dict_of 1 by fastforce
  then show ?case by (auto simp: list_all_iff dict_of_distinct)
qed (auto simp: list_all_iff)

lemma normalize_id: "jsonable v \<Longrightarrow> wf_val v \<Longrightarrow> normalize_val v = v"
proof (induction v rule: normalize_val.induct)
  case (1 d)
  have "map (\<lambda>kv. (norm_key (fst kv), normalize_val (snd kv))) d = d"
    using 1 by (intro map_idI) (auto simp: list_all_iff norm_key_def split: pkey.splits)
  then show ?case using 1 by (simp add: dict_of_id)
qed (auto simp: list_all_iff intro: map_idI)

lemma norm_record_clean: "jsonable (PDict (norm_record d))" "wf_val (PDict (norm_record d))"
  using normalize_jsonable [of "PDict d"] normalize_wf [of "PDict d"] by (simp_all add: norm_record_def)

section \<open>Frames\<close>

lemma entry_records_clean:
  "(t, d) \<in> set (entry_records tag es) \<Longrightarrow> t = tag \<and> jsonable (PDict d) \<and> wf_val (PDict d)"
  unfolding entry_records_def by (auto simp: norm_record_clean simp del: jsonable.simps wf_val.simps)

lemma parse_frame_clean:
  assumes "parse_frame C m = Inr (records, opt)" "(t, d) \<in> set records"
  shows "jsonable (PDict d) \<and> wf_val (PDict d) \<and> (\<exists>rest. m = PList (PStr t # rest))"
  using assms
  by (auto simp: parse_frame_def packed_records_def rbind_eq_Inr Let_def norm_record_clean
      simp del: jsonable.simps wf_val.simps split: pyval.splits list.splits option.splits
      dest!: entry_records_clean)

section \<open>The connection\<close>

lemma run_handler_eq:
  "run_handler m st = (r, st') \<longleftrightarrow> (\<exists>h. m (hstate st) = (r, h) \<and> st' = st\<lparr>hstate := h\<rparr>)"
  by (auto simp: run_handler_def split: prod.split)

lemma send_ack_hstate: "send_ack C w opt st = (r, st') \<Longrightarrow> hstate st' = hstate st"
  by (auto simp: send_ack_def ebind_def sendall_def split: option.splits if_splits sum.splits)

lemma send_ack_sent:
  "send_ack C w opt st = (r, st') \<Longrightarrow> sent st' = sent st \<or>
     (\<exists>d bs. opt = Some d \<and> dhas d ''chunk'' \<and> r = Inr () \<and> sent st' = sent st @ [bs] \<and>
        mp_pack C (pobj [(''ack'', dget d ''chunk'')]) = Inr bs)"
  by (auto simp: send_ack_def ebind_def sendall_def split: option.splits if_splits sum.splits)

lemma run_handler_sent: "run_handler m st = (r, st') \<Longrightarrow> sent st' = sent st"
  by (auto simp: run_handler_eq)

text \<open>
  What a handler of records promises: if it returns, exactly the writes of the record are stored; if
  it raises, no more than an initial part of them.  What the connection makes of that promise is
  proved once, here.
\<close>

locale record_handler =
  fixes handler :: "'s handler"
    and stored :: "'s \<Rightarrow> 'w list"
    and writes :: "pystr \<Rightarrow> pydict \<Rightarrow> 'w list"
  assumes ok: "handler tag rec s = (Inr (), s') \<Longrightarrow> stored s' = stored s @ writes tag rec"
    and partial: "handler tag rec s = (Inl e, s') \<Longrightarrow>
      \<exists>ws. prefix ws (writes tag rec) \<and> stored s' = stored s @ ws"
begin

definition frame_writes :: "(pystr \<times> pydict) list \<Rightarrow> 'w list" where
  "frame_writes records = concat (map (\<lambda>(tag, rec). writes tag rec) records)"

lemma frame_ok:
  "handle_records handler records s = (Inr (), s') \<Longrightarrow> stored s' = stored s @ frame_writes records"
  unfolding handle_records_def frame_writes_def
  by (induction records arbitrary: s) (auto simp: ebind_eq_Inr dest: ok)

lemma frame_partial:
  "handle_records handler records s = (Inl e, s') \<Longrightarrow>
     \<exists>ws. prefix ws (frame_writes records) \<and> stored s' = stored s @ ws"
  unfolding handle_records_def frame_writes_def
proof (induction records arbitrary: s)
  case (Cons r records)
  obtain tag rec where r: "r = (tag, rec)" by (cases r)
  from Cons.prems consider "handler tag rec s = (Inl e, s')"
    | s1 where "handler tag rec s = (Inr (), s1)"
        "eiter (\<lambda>(tag, rec). handler tag rec) records s1 = (Inl e, s')"
    by (auto simp: r ebind_eq_Inl)
  then show ?case
  proof cases
    case 1
    from partial [OF this] show ?thesis by (auto simp: r intro: prefix_order.trans)
  next
    case 2
    from Cons.IH [OF 2(2)] obtain ws where
      "prefix ws (concat (map (\<lambda>(tag, rec). writes tag rec) records))" "stored s' = stored s1 @ ws" by blast
    with ok [OF 2(1)] show ?thesis
      by (intro exI [of _ "writes tag rec @ ws"]) (simp add: r)
  qed
qed simp

text \<open>A reply to a frame goes out only after every record of it was handled.\<close>

lemma ack_after_stored:
  assumes "dispatch C w handler m st = (r, st')" "\<not> is_ping m" "sent st' \<noteq> sent st"
  shows "\<exists>records d bs. parse_frame C m = Inr (records, Some d) \<and> r = Inr () \<and>
    mp_pack C (pobj [(''ack'', dget d ''chunk'')]) = Inr bs \<and> sent st' = sent st @ [bs] \<and>
    stored (hstate st') = stored (hstate st) @ frame_writes records"
proof -
  have D: "ebind (elift (parse_frame C m)) (\<lambda>(records, opt).
      ebind (run_handler (handle_records handler records)) (\<lambda>_. send_ack C w opt)) st = (r, st')"
    using assms(1,2) by (simp add: dispatch_def)
  obtain p where "parse_frame C m = Inr p"
    using D assms(3) by (cases "parse_frame C m") (auto simp: ebind_def)
  moreover obtain records opt where "p = (records, opt)" by (cases p)
  ultimately have p: "parse_frame C m = Inr (records, opt)" by simp
  obtain r1 st1 where h: "run_handler (handle_records handler records) st = (r1, st1)"
    by (cases "run_handler (handle_records handler records) st")
  have same: "sent st1 = sent st" using h by (rule run_handler_sent)
  have r1: "r1 = Inr ()"
    using D p h same assms(3) by (cases r1) (auto simp: ebind_def)
  then have a: "send_ack C w opt st1 = (r, st')"
    using D p h by (simp add: ebind_def)
  have "stored (hstate st') = stored (hstate st) @ frame_writes records"
    using h r1 send_ack_hstate [OF a] by (auto simp: run_handler_eq dest: frame_ok)
  with send_ack_sent [OF a] same assms(3) p show ?thesis by auto
qed

end

text \<open>The interface of the transport's decoder: reading more never changes what was read.\<close>

definition streaming :: "('c) codec_scheme \<Rightarrow> bool" where
  "streaming C \<longleftrightarrow>
     (\<forall>buf v rest x. mp_next C buf = Got v rest \<longrightarrow>
        length rest < length buf \<and> mp_next C (buf @ x) = Got v (rest @ x)) \<and>
     (\<forall>buf e x. mp_next C buf = Malformed e \<longrightarrow> mp_next C (buf @ x) = Malformed e)"

lemma streamingD:
  "streaming C \<Longrightarrow> mp_next C buf = Got v rest \<Longrightarrow> length rest < length buf"
  "streaming C \<Longrightarrow> mp_next C buf = Got v rest \<Longrightarrow> mp_next C (buf @ x) = Got v (rest @ x)"
  "streaming C \<Longrightarrow> mp_next C buf = Malformed e \<Longrightarrow> mp_next C (buf @ x) = Malformed e"
  by (simp_all add: streaming_def)

lemma drain_append:
  assumes "streaming C"
  shows "drain C w handler (buf @ x) st =
    (case drain C w handler buf st of
       (Reading rest, st') \<Rightarrow> drain C w handler (rest @ x) st' | other \<Rightarrow> other)"
  using assms
proof (induction C w handler buf st rule: drain.induct)
  case (1 C w handler buf st)
  note S = 1(2)
  show ?case
  proof (cases "mp_next C buf")
    case NeedMore
    then show ?thesis by (simp add: drain.simps [of C w handler buf])
  next
    case (Malformed e)
    with streamingD(3) [OF S Malformed] show ?thesis
      by (simp add: drain.simps [of C w handler buf] drain.simps [of C w handler "buf @ x"])
  next
    case (Got m rest)
    note len = streamingD(1) [OF S Got]
    obtain r st1 where d: "dispatch C w handler m st = (r, st1)" by (cases "dispatch C w handler m st")
    show ?thesis
    proof (cases r)
      case (Inl e)
      with Got len d streamingD(2) [OF S Got] show ?thesis
        by (simp add: drain.simps [of C w handler buf] drain.simps [of C w handler "buf @ x"])
    next
      case (Inr y)
      have "drain C w handler (rest @ x) st1 = (case drain C w handler rest st1 of
          (Reading rest, st') \<Rightarrow> drain C w handler (rest @ x) st' | other \<Rightarrow> other)"
        using 1(1) [OF Got len _ Inr S] d Inr by auto
      with Got len d Inr streamingD(2) [OF S Got] show ?thesis
        by (simp add: drain.simps [of C w handler buf] drain.simps [of C w handler "buf @ x"])
    qed
  qed
qed

lemma drain_reading: "drain C w handler buf st = (Reading rest, st') \<Longrightarrow> mp_next C rest = NeedMore"
proof (induction C w handler buf st rule: drain.induct)
  case (1 C w handler buf st)
  from 1(2) show ?case
    by (subst (asm) drain.simps)
      (auto split: unpack_step.splits if_splits prod.splits sum.splits intro: 1(1))
qed

lemma drain_shrinks: "drain C w handler buf st = (Reading rest, st') \<Longrightarrow> length rest \<le> length buf"
proof (induction C w handler buf st rule: drain.induct)
  case (1 C w handler buf st)
  from 1(2) show ?case
    by (subst (asm) drain.simps)
      (auto split: unpack_step.splits if_splits prod.splits sum.splits dest!: 1(1))
qed

lemma handle_conn_concat:
  assumes "streaming C" "mp_next C buf = NeedMore" "[] \<notin> set chunks"
    and "int (length buf + length (concat chunks)) \<le> MAX_BUFFER"
  shows "snd (handle_conn C w handler buf chunks st) = snd (drain C w handler (buf @ concat chunks) st)"
  using assms(2-4)
proof (induction chunks arbitrary: buf st)
  case Nil
  then show ?case by (simp add: drain.simps [of C w handler buf])
next
  case (Cons chunk chunks)
  obtain out st1 where d: "drain C w handler (buf @ chunk) st = (out, st1)"
    by (cases "drain C w handler (buf @ chunk) st")
  have whole: "drain C w handler ((buf @ chunk) @ concat chunks) st =
      (case (out, st1) of (Reading rest, st') \<Rightarrow> drain C w handler (rest @ concat chunks) st'
       | other \<Rightarrow> other)"
    using drain_append [OF assms(1), of w handler "buf @ chunk" "concat chunks" st] d by simp
  have fd: "feed buf chunk = Inr (buf @ chunk)" "chunk \<noteq> []"
    using Cons.prems by (auto simp: feed_def)
  show ?case
  proof (cases out)
    case (Reading rest)
    have "snd (handle_conn C w handler rest chunks st1) = snd (drain C w handler (rest @ concat chunks) st1)"
      using Cons.prems drain_shrinks [of C w handler "buf @ chunk" st rest st1]
        drain_reading [of C w handler "buf @ chunk" st rest st1] d Reading
      by (intro Cons.IH) auto
    with whole fd d Reading show ?thesis by simp
  qed (use whole fd d in simp_all)
qed

section \<open>Properties\<close>

text \<open>
  The boundary's normalisation leaves no byte string anywhere in a record, neither as a value
  nor as a key, keeps every dictionary's keys distinct, changes nothing in a record that is already
  clean, and so is idempotent.
\<close>

theorem normalize_clean:
  "jsonable (normalize_val v) \<and> wf_val (normalize_val v) \<and>
   normalize_val (normalize_val v) = normalize_val v \<and>
   (jsonable v \<and> wf_val v \<longrightarrow> normalize_val v = v)"
  using normalize_jsonable normalize_wf normalize_id by blast

text \<open>
  A packed blob is read the same whether the msgpack decoder hands it over as bytes or, as
  Fluentd's encoding makes it, as text decoded with surrogateescape.
\<close>

theorem packed_blob_lossless:
  "parse_frame C (PList (PStr tag # PStr (utf8_decode_se blob) # rest)) =
   parse_frame C (PList (PStr tag # PBytes blob # rest))"
proof -
  have "packed_records C tag (PStr (utf8_decode_se blob)) opt = packed_records C tag (PBytes blob) opt" for opt
    by (simp add: packed_records_def as_bytes_def utf8_encode_decode_se)
  moreover have "dict_at 2 (PStr tag # PStr (utf8_decode_se blob) # rest) =
      dict_at 2 (PStr tag # PBytes blob # rest)"
    by (simp add: dict_at_def)
  ultimately show ?thesis by (simp add: parse_frame_def Let_def)
qed

text \<open>
  C28. How TCP cuts the stream does not matter: the records handled and the replies sent over a
  connection depend only on the bytes it delivered (while they fit the decoder's buffer).  The
  decoder's own behaviour is assumed to be that of a stream decoder.
\<close>

theorem chunking_irrelevant:
  assumes "streaming C" "mp_next C [] = NeedMore" "[] \<notin> set chunks" "[] \<notin> set chunks'"
    and "concat chunks = concat chunks'" "int (length (concat chunks)) \<le> MAX_BUFFER"
  shows "snd (handle_conn C w handler [] chunks st) = snd (handle_conn C w handler [] chunks' st)"
  using handle_conn_concat [OF assms(1,2,3), of w handler st]
    handle_conn_concat [OF assms(1,2,4), of w handler st] assms(5,6)
  by simp

section \<open>A concrete codec\<close>

text \<open>Every byte is a ping, and every reply is one byte.\<close>

definition ping_codec :: codec where
  "ping_codec = \<lparr>mp_next = (\<lambda>buf. case buf of [] \<Rightarrow> NeedMore | _ # rest \<Rightarrow> Got (PList [pstr ''PING'']) rest),
     mp_pack = (\<lambda>v. Inr [1]), gz_decompress = (\<lambda>b. Inr b)\<rparr>"

lemma ping_streaming: "streaming ping_codec"
  by (auto simp: streaming_def ping_codec_def split: list.splits)

theorem chunking_irrelevant_witness:
  "snd (handle_conn ping_codec (\<lambda>_. True) (\<lambda>_ _. eret ()) [] [[7], [8, 9]] \<lparr>hstate = (), sent = []\<rparr>) =
   snd (handle_conn ping_codec (\<lambda>_. True) (\<lambda>_ _. eret ()) [] [[7, 8, 9]] \<lparr>hstate = (), sent = []\<rparr>)"
  by (rule chunking_irrelevant [OF ping_streaming]) (simp_all add: ping_codec_def MAX_BUFFER_def)

theorem normalize_clean_witness:
  "normalize_val (PDict [(KB [97], PBytes [98])]) = pobj [(''a'', pstr ''b'')] \<and>
   normalize_val (pobj [(''a'', pstr ''b'')]) = pobj [(''a'', pstr ''b'')]"
proof -
  have "normalize_val (PDict [(KB [97], PBytes [98])]) = pobj [(''a'', pstr ''b'')]"
    by code_simp
  moreover have "jsonable (pobj [(''a'', pstr ''b'')])" "wf_val (pobj [(''a'', pstr ''b'')])"
    by simp_all
  ultimately show ?thesis
    using normalize_clean [of "pobj [(''a'', pstr ''b'')]"] by simp
qed

end
