(* ===== verification/Ingest.thy ===== *)
theory Ingest
  imports Pipeline Elastic Forward
begin

text \<open>
  \<^verbatim>\<open>services/ingest/server.py\<close>: the record handler that joins the forward protocol, the pipeline
  and the Elasticsearch writer, and what an acknowledgement means end to end.
\<close>

section \<open>server.py\<close>

definition strip_bytes :: "pydict \<Rightarrow> pydict res" where
  "strip_bytes raw =
     (case dget raw ''hp_data'' of
        PDict hp \<Rightarrow> rbind (strip_files hp) (\<lambda>hp'. Inr (dset ''hp_data'' (PDict hp') raw))
      | _ \<Rightarrow> Inr raw)"

definition enrichable :: "pystr \<Rightarrow> bool" where
  "enrichable tag \<longleftrightarrow> startswith tag (u ''stingar.enrichable.'')"

text \<open>The document and the rows of a record; a failure of the enrichment leaves the stripped record.\<close>

definition enriched_docs ::
  "('x) ext_scheme \<Rightarrow> validator \<Rightarrow> dumper \<Rightarrow> geo_enricher \<Rightarrow> pydict \<Rightarrow> (pydict \<times> pydict list) res" where
  "enriched_docs E validate dump geo rec =
     (case process E validate (Some geo) rec of
        Inr e \<Rightarrow> Inr (session_doc e, map dump (observations e))
      | Inl _ \<Rightarrow> rbind (strip_bytes rec) (\<lambda>doc. Inr (doc, [])))"

definition handle_record ::
  "('x) env_scheme \<Rightarrow> validator \<Rightarrow> dumper \<Rightarrow> geo_enricher \<Rightarrow> es_writer \<Rightarrow> history handler" where
  "handle_record E validate dump geo es tag rec =
     (if \<not> enrichable tag then eret ()
      else ebind (elift (enriched_docs E validate dump geo rec)) (\<lambda>(doc, rows).
           ebind (write_session E es doc tag) (\<lambda>_.
             if rows = [] then eret () else write_observations E es rows tag)))"

text \<open>
  \<^verbatim>\<open>serve\<close>: the templates are installed before the first byte of a connection is read.  The
  server runs one thread per connection; this is the life of one, given by the chunks its socket
  delivers.
\<close>

definition serve_conn ::
  "('c) codec_scheme \<Rightarrow> (bytes list \<Rightarrow> bool) \<Rightarrow> ('x) env_scheme \<Rightarrow> validator \<Rightarrow> dumper \<Rightarrow> geo_enricher
   \<Rightarrow> es_writer \<Rightarrow> bytes list \<Rightarrow> (history, conn_end \<times> bytes list) eff" where
  "serve_conn C writable E validate dump geo es chunks =
     ebind (ensure_bootstrap es) (\<lambda>_ h.
       (let (fin, st) = handle_conn C writable (handle_record E validate dump geo es) [] chunks
                          \<lparr>hstate = h, sent = []\<rparr>
        in (Inr (fin, sent st), hstate st)))"

lemmas ingest_eval [py_eval] = strip_bytes_def enrichable_def enriched_docs_def handle_record_def
  serve_conn_def

section \<open>The contract of the handler\<close>

text \<open>The requests a record is worth: its session document and one per ledger row.\<close>

definition record_writes ::
  "('x) env_scheme \<Rightarrow> validator \<Rightarrow> dumper \<Rightarrow> geo_enricher \<Rightarrow> es_writer \<Rightarrow> pystr \<Rightarrow> pydict \<Rightarrow> request list" where
  "record_writes E validate dump geo es tag rec =
     (if \<not> enrichable tag then []
      else (case enriched_docs E validate dump geo rec of
              Inl _ \<Rightarrow> []
            | Inr (doc, rows) \<Rightarrow>
                doc_request E es SESSION_PREFIX tag doc # map (doc_request E es C2_PREFIX tag) rows))"

lemma rows_accepted:
  assumes "(if rows = [] then eret () else write_observations E es rows tag) h = (r, h')"
  shows "\<exists>n \<le> length rows. accepted h' =
      accepted h @ map (doc_request E es C2_PREFIX tag) (take n rows) \<and> (r = Inr () \<longleftrightarrow> n = length rows)"
  using assms write_observations_accepted [of E es rows tag h r h'] by (auto split: if_splits)

lemma handle_record_accepted:
  assumes "handle_record E validate dump geo es tag rec h = (r, h')"
  shows "\<exists>ws. prefix ws (record_writes E validate dump geo es tag rec) \<and>
      accepted h' = accepted h @ ws \<and>
      (r = Inr () \<longrightarrow> ws = record_writes E validate dump geo es tag rec)"
proof (cases "enrichable tag")
  case False
  with assms show ?thesis by (simp add: handle_record_def record_writes_def)
next
  case True
  show ?thesis
  proof (cases "enriched_docs E validate dump geo rec")
    case (Inl e)
    with assms True show ?thesis
      by (intro exI [of _ "[]"]) (auto simp: handle_record_def ebind_def record_writes_def)
  next
    case (Inr p)
    obtain doc rows where p: "p = (doc, rows)" by (cases p)
    let ?rows = "if rows = [] then eret () else write_observations E es rows tag"
    have H: "ebind (write_session E es doc tag) (\<lambda>_. ?rows) h = (r, h')"
      using assms True Inr p by (simp add: handle_record_def)
    obtain r1 h1 where w: "write_session E es doc tag h = (r1, h1)"
      by (cases "write_session E es doc tag h")
    have W: "record_writes E validate dump geo es tag rec =
        doc_request E es SESSION_PREFIX tag doc # map (doc_request E es C2_PREFIX tag) rows"
      using True Inr p by (simp add: record_writes_def)
    note acc = write_session_accepted [OF w]
    show ?thesis
    proof (cases r1)
      case (Inl e)
      with H w have "r = Inl e" "h' = h1" by (simp_all add: ebind_def)
      with acc Inl show ?thesis by (intro exI [of _ "[]"]) simp
    next
      case (Inr _)
      then have "?rows h1 = (r, h')" using H w by (simp add: ebind_def)
      then obtain n where "n \<le> length rows"
        "accepted h' = accepted h1 @ map (doc_request E es C2_PREFIX tag) (take n rows)"
        "r = Inr () \<longleftrightarrow> n = length rows"
        using rows_accepted by blast
      with Inr acc W show ?thesis
        by (intro exI [of _ "doc_request E es SESSION_PREFIX tag doc #
              map (doc_request E es C2_PREFIX tag) (take n rows)"])
          (auto intro: map_mono_prefix take_is_prefix)
    qed
  qed
qed

interpretation ingest: record_handler "handle_record E validate dump geo es" accepted
    "record_writes E validate dump geo es" for E validate dump geo es
proof
  fix tag rec s s'
  assume "handle_record E validate dump geo es tag rec s = (Inr (), s')"
  from handle_record_accepted [OF this]
  show "accepted s' = accepted s @ record_writes E validate dump geo es tag rec" by auto
next
  fix tag rec s e s'
  assume "handle_record E validate dump geo es tag rec s = (Inl e, s')"
  from handle_record_accepted [OF this]
  show "\<exists>ws. prefix ws (record_writes E validate dump geo es tag rec) \<and> accepted s' = accepted s @ ws"
    by auto
qed

section \<open>What the documents hold\<close>

lemma hp_of_with_tag: "hp_of (with_tag tag doc) = hp_of doc"
  by (simp add: with_tag_def hp_of_def dict_simps)

lemma strip_bytes_free:
  assumes "strip_bytes raw = Inr doc"
  shows "bytes_free doc"
proof (cases "dget raw ''hp_data''")
  case (PDict hp)
  with assms obtain hp' where "strip_files hp = Inr hp'" "hp_of doc = hp'"
    by (auto simp: strip_bytes_def rbind_eq_Inr hp_of_def dict_simps)
  then show ?thesis
    by (intro bytes_freeI [of doc "dget hp ''files''"]) (simp add: strip_files_spec)
qed (use assms in \<open>auto simp: strip_bytes_def bytes_free_def hp_of_def dget_def\<close>)

lemma enriched_docs_free:
  assumes "enriched_docs E validate dump geo rec = Inr (doc, rows)"
  shows "bytes_free doc"
proof (cases "process E validate (Some geo) rec")
  case (Inr e)
  then obtain s ctx where "enrich_session E rec s ctx = Inr (session_doc e)"
    by (rule processD)
  from enrich_session_files [OF this] have "bytes_free (session_doc e)" by (rule bytes_freeI)
  with assms Inr show ?thesis by (simp add: enriched_docs_def)
next
  case (Inl e)
  with assms show ?thesis
    by (auto simp: enriched_docs_def rbind_eq_Inr intro: strip_bytes_free)
qed

lemma jsonable_dset:
  "jsonable (PDict d) \<Longrightarrow> jsonable v \<Longrightarrow> jsonable (PDict (dset k v d))"
  unfolding dset_def using set_AList_update [of "key k" v d] by (fastforce simp: list_all_iff)

lemma jsonable_dupdate:
  "jsonable (PDict d) \<Longrightarrow> jsonable (PDict e) \<Longrightarrow> jsonable (PDict (dupdate d e))"
  unfolding dupdate_def
proof (induction e arbitrary: d)
  case (Cons kv e)
  obtain k v where kv: "kv = (k, v)" by (cases kv)
  have "jsonable (PDict (AList.update k v d))"
    using Cons.prems set_AList_update [of k v d] by (fastforce simp: kv list_all_iff)
  with Cons show ?case by (simp add: kv)
qed simp

lemma dget_jsonable: "jsonable (PDict d) \<Longrightarrow> jsonable (dget d k)"
  by (auto simp: dget_def list_all_iff dest!: map_of_SomeD split: option.split)

lemma strip_one_jsonable: "jsonable v \<Longrightarrow> jsonable (strip_one v)"
proof (cases v)
  case (PDict d)
  have "set (AList.delete k d) \<subseteq> set d" for k
    by (induction d) auto
  then show "jsonable v \<Longrightarrow> jsonable (strip_one v)"
    by (auto simp: PDict strip_one_def dpop_def list_all_iff)
qed (auto simp: strip_one_def)

lemma strip_files_jsonable:
  assumes "strip_files hp = Inr hp'" "jsonable (PDict hp)"
  shows "jsonable (PDict hp')"
proof -
  have "jsonable (dget hp ''files'')" using assms(2) by (rule dget_jsonable)
  then show ?thesis
    using assms
    by (auto simp: strip_files_def list_all_iff simp del: jsonable.simps(3)
        split: pyval.splits if_splits intro!: jsonable_dset strip_one_jsonable)
qed

lemma hp_data_fields_jsonable: "jsonable (PDict (hp_data_fields E s ctx))"
proof -
  have "jsonable (popt PStr v)" "jsonable (popt PFloat q)" "jsonable (popt pnat n)" "jsonable (pstrs xs)"
    "jsonable (pnat m)" for v q n xs m
    by (simp_all add: popt_def pstrs_def pnat_def list_all_iff split: option.split)
  moreover have "list_all jsonable (payload_refs E s)"
    by (auto simp: payload_refs_def list_all_iff popt_def split: option.split)
  ultimately show ?thesis
    by (cases "ctx_banner ctx")
      (simp_all add: hp_data_fields_def base_fields_def banner_fields_def Let_def)
qed

lemma enrich_session_jsonable:
  assumes "enrich_session E raw s ctx = Inr doc" "jsonable (PDict raw)"
  shows "jsonable (PDict doc)"
proof -
  have hp: "jsonable (PDict (hp_of raw))"
    using dget_jsonable [OF assms(2), of "''hp_data''"] by (auto simp: hp_of_def split: pyval.split)
  obtain hp' where s: "strip_files (hp_of raw) = Inr hp'"
    "doc = dset ''enrich_version'' (PStr ENRICH_VERSION)
       (dset ''c2_host'' (pstrs (c2_hosts (ctx_iocs ctx)))
         (dset ''hp_data'' (PDict (dupdate hp' (hp_data_fields E s ctx))) raw))"
    using assms(1) by (auto simp: enrich_session_def rbind_eq_Inr hp_of_def)
  have "jsonable (pstrs xs)" for xs by (simp add: pstrs_def list_all_iff)
  then show ?thesis
    unfolding s(2)
    by (intro jsonable_dset jsonable_dupdate hp_data_fields_jsonable assms(2)
        strip_files_jsonable [OF s(1) hp]) simp_all
qed

lemma strip_bytes_jsonable:
  assumes "strip_bytes rec = Inr doc" "jsonable (PDict rec)"
  shows "jsonable (PDict doc)"
proof (cases "dget rec ''hp_data''")
  case (PDict hp)
  with assms(1) obtain hp' where hp: "strip_files hp = Inr hp'" "doc = dset ''hp_data'' (PDict hp') rec"
    by (auto simp: strip_bytes_def rbind_eq_Inr)
  have "jsonable (PDict hp)" using dget_jsonable [OF assms(2), of "''hp_data''"] PDict by simp
  then show ?thesis
    unfolding hp(2) by (intro jsonable_dset assms(2) strip_files_jsonable [OF hp(1)])
qed (use assms in \<open>auto simp: strip_bytes_def\<close>)

lemma enriched_docs_jsonable:
  assumes "enriched_docs E validate dump geo rec = Inr (doc, rows)" "jsonable (PDict rec)"
  shows "jsonable (PDict doc)"
proof (cases "process E validate (Some geo) rec")
  case (Inr e)
  then obtain s ctx where "enrich_session E rec s ctx = Inr (session_doc e)" by (rule processD)
  from enrich_session_jsonable [OF this assms(2)] Inr assms(1) show ?thesis
    by (simp add: enriched_docs_def)
next
  case (Inl e)
  then have "strip_bytes rec = Inr doc" using assms(1) by (auto simp: enriched_docs_def rbind_eq_Inr)
  then show ?thesis using assms(2) by (rule strip_bytes_jsonable)
qed

lemma with_tag_jsonable: "jsonable (PDict doc) \<Longrightarrow> jsonable (PDict (with_tag tag doc))"
  unfolding with_tag_def by (auto simp del: jsonable.simps(3) intro: jsonable_dset)

section \<open>Properties\<close>

text \<open>
  C1. At least once: when the server acknowledges a chunk, every record of that frame has been
  handled and Elasticsearch has accepted, in order, the session document of each enrichable record
  and every one of its ledger rows.
\<close>

theorem ack_implies_stored:
  assumes "dispatch C w (handle_record E validate dump geo es) m st = (r, st')"
    and "\<not> is_ping m" "sent st' \<noteq> sent st"
  shows "\<exists>records d bs. parse_frame C m = Inr (records, Some d) \<and>
    mp_pack C (pobj [(''ack'', dget d ''chunk'')]) = Inr bs \<and> sent st' = sent st @ [bs] \<and>
    accepted (hstate st') = accepted (hstate st) @
      concat (map (\<lambda>(tag, rec). record_writes E validate dump geo es tag rec) records)"
  using ingest.ack_after_stored [OF assms] unfolding ingest.frame_writes_def by blast



lemma strip_files_Inl:
  "strip_files hp = Inl e \<longleftrightarrow> e = TypeError \<and> truthy (dget hp ''files'') \<and>
     (case dget hp ''files'' of PInt _ \<Rightarrow> True | PFloat _ \<Rightarrow> True | PBool _ \<Rightarrow> True | _ \<Rightarrow> False)"
  by (auto simp: strip_files_def split: pyval.split)

text \<open>
  The fallback for a record whose enrichment fails has one failure of its own: it raises
  exactly when \<^verbatim>\<open>hp_data.files\<close> is a number other than zero (or true), which cannot be iterated
  over.  Such a record is never written and its chunk never acknowledged.
\<close>

theorem fallback_fails_iff:
  assumes "process E validate (Some geo) rec = Inl e" "enrichable tag"
  shows "(\<exists>e'. fst (handle_record E validate dump geo es tag rec h) = Inl e' \<and>
            snd (handle_record E validate dump geo es tag rec h) = h \<and>
            enriched_docs E validate dump geo rec = Inl e') \<longleftrightarrow>
    truthy (dget (hp_of rec) ''files'') \<and>
    (case dget (hp_of rec) ''files'' of PInt _ \<Rightarrow> True | PFloat _ \<Rightarrow> True | PBool _ \<Rightarrow> True | _ \<Rightarrow> False)"
proof -
  have ed: "enriched_docs E validate dump geo rec = rbind (strip_bytes rec) (\<lambda>doc. Inr (doc, []))"
    using assms(1) by (simp add: enriched_docs_def)
  have "(\<exists>e'. strip_bytes rec = Inl e') \<longleftrightarrow> (\<exists>e'. strip_files (hp_of rec) = Inl e')"
    by (auto simp: strip_bytes_def hp_of_def rbind_eq_Inl strip_files_Inl dget_def split: pyval.split)
  then show ?thesis
    using assms(2) ed
    by (cases "strip_bytes rec") (auto simp: handle_record_def strip_files_Inl ebind_def)
qed

section \<open>Concrete traffic\<close>

definition demo_frame :: pyval where
  "demo_frame = PList [pstr ''stingar.enrichable.cowrie'', PInt 0,
     pobj [(''hp_data'', pobj [(''files'', PList [pobj [(''content_b64'', pstr ''QUJD'')]])])],
     pobj [(''chunk'', pstr ''c1'')]]"

definition demo_record :: pydict where
  "demo_record = [(key ''hp_data'', pobj [(''files'', PList [pobj [(''content_b64'', pstr ''QUJD'')]])])]"

definition no_validate :: validator where
  "no_validate raw = Inl ValidationError"

definition demo_dump :: dumper where
  "demo_dump obs = [(key ''c2_host'', PStr (c2_host obs))]"

definition no_geo :: geo_enricher where
  "no_geo = \<lparr>g_city = None, g_asn = None\<rparr>"

definition good_es :: es_writer where
  "good_es = demo_es (\<lambda>h rq. Resp 201 (BText []))"

definition demo_handler :: "history handler" where
  "demo_handler = handle_record demo_env no_validate demo_dump no_geo good_es"

lemma demo_docs:
  "process demo_env no_validate (Some no_geo) rec = Inl ValidationError"
  by (simp add: process_def no_validate_def)

lemma demo_parse:
  "parse_frame ping_codec demo_frame =
     Inr ([(u ''stingar.enrichable.cowrie'', demo_record)], Some [(key ''chunk'', pstr ''c1'')])"
  by code_simp

theorem ack_implies_stored_witness:
  "\<exists>st' bs. dispatch ping_codec (\<lambda>_. True) demo_handler demo_frame \<lparr>hstate = [], sent = []\<rparr> = (Inr (), st') \<and>
     sent st' = [bs] \<and> accepted (hstate st') =
       record_writes demo_env no_validate demo_dump no_geo good_es
         (u ''stingar.enrichable.cowrie'') demo_record"
proof -
  let ?d = "dispatch ping_codec (\<lambda>_. True) demo_handler demo_frame \<lparr>hstate = [], sent = []\<rparr>"
  obtain r st' where d: "?d = (r, st')" by (cases ?d)
  have f: "(\<lambda>p. (fst p, sent (snd p))) ?d = (Inr (), [[1]])" by code_simp
  have np: "\<not> is_ping demo_frame" by code_simp
  from f d have "r = Inr ()" "sent st' = [[1]]" by auto
  with ack_implies_stored [OF d [unfolded demo_handler_def] np] d demo_parse show ?thesis
    by (auto simp: demo_handler_def)
qed


theorem fallback_fails_iff_witness:
  "fst (handle_record demo_env no_validate demo_dump no_geo good_es (u ''stingar.enrichable.cowrie'')
     [(key ''hp_data'', pobj [(''files'', PInt 5)])] []) = Inl TypeError"
proof -
  let ?rec = "[(key ''hp_data'', pobj [(''files'', PInt 5)])]"
  have t: "enrichable (u ''stingar.enrichable.cowrie'')" by code_simp
  have "truthy (dget (hp_of ?rec) ''files'') \<and>
    (case dget (hp_of ?rec) ''files'' of PInt _ \<Rightarrow> True | PFloat _ \<Rightarrow> True | PBool _ \<Rightarrow> True | _ \<Rightarrow> False)"
    by code_simp
  then obtain e' where e': "enriched_docs demo_env no_validate demo_dump no_geo ?rec = Inl e'"
    "fst (handle_record demo_env no_validate demo_dump no_geo good_es (u ''stingar.enrichable.cowrie'') ?rec [])
      = Inl e'"
    using fallback_fails_iff [OF demo_docs [of ?rec] t, where dump = demo_dump and es = good_es and h = "[]"] by auto
  then have "e' = TypeError"
    by (auto simp: enriched_docs_def demo_docs rbind_eq_Inl strip_bytes_def dget_def strip_files_Inl)
  with e' show ?thesis by simp
qed

end
