(* ===== verification/Delivery.thy ===== *)
theory Delivery
  imports Ingest
begin

text \<open>
  The other half of at-least-once delivery: not only is nothing acknowledged before it is stored
  (\<^verbatim>\<open>Ingest\<close>), a frame is acknowledged as soon as Elasticsearch accepts what is sent to it, whatever
  the records hold.
\<close>

section \<open>When a record can be written\<close>

definition time_value :: "pydict \<Rightarrow> pyval" where
  "time_value rec = py_or (py_or (dget rec ''end_time'') (dget rec ''@timestamp'')) (dget rec ''ts'')"

fun is_number :: "pyval \<Rightarrow> bool" where
  "is_number (PInt _) = True"
| "is_number (PFloat _) = True"
| "is_number (PBool _) = True"
| "is_number _ = False"

text \<open>The time of a record is not a number: the sensor sends ISO texts.\<close>

definition textual_time :: "pydict \<Rightarrow> bool" where
  "textual_time rec \<longleftrightarrow> \<not> is_number (time_value rec)"

definition files_iterable :: "pydict \<Rightarrow> bool" where
  "files_iterable rec \<longleftrightarrow>
     \<not> (truthy (dget (hp_of rec) ''files'') \<and> is_number (dget (hp_of rec) ''files''))"

definition accepting :: "es_writer \<Rightarrow> bool" where
  "accepting es \<longleftrightarrow> (\<forall>h rq. result_of (es_srv es h rq) = Inr ())"

text \<open>What pydantic's JSON mode promises of a dumped row.\<close>

definition dumps_rows :: "dumper \<Rightarrow> bool" where
  "dumps_rows dump \<longleftrightarrow> (\<forall>obs. jsonable (PDict (dump obs)) \<and> textual_time (dump obs))"

lemma textual_date:
  assumes "textual_time rec"
  shows "\<exists>ymd. record_date E rec = Inr ymd"
proof -
  obtain v where v: "time_value rec = v" "\<not> is_number v" using assms by (simp add: textual_time_def)
  moreover obtain y m d where "utc_today E = (y, m, d)" by (rule prod_cases3)
  ultimately show ?thesis
    by (cases v) (simp_all add: record_date_def time_value_def split: option.split)
qed

lemma textual_time_cong:
  assumes "\<And>k. k \<in> {''end_time'', ''@timestamp'', ''ts''} \<Longrightarrow> dget d k = dget d' k"
  shows "textual_time d = textual_time d'"
  using assms by (simp add: textual_time_def time_value_def)

lemma textual_with_tag: "textual_time (with_tag tag doc) = textual_time doc"
  by (rule textual_time_cong) (auto simp: with_tag_def dict_simps)

lemma daily_index_ok: "textual_time rec \<Longrightarrow> \<exists>idx. daily_index E pfx rec = Inr idx"
  using textual_date [of rec E] by (auto simp: daily_index_def)

section \<open>Progress\<close>

lemma es_index_ok:
  assumes "accepting es" "jsonable (PDict doc)"
  shows "\<exists>h'. es_index es idx doc h = (Inr (), h')"
proof -
  have "\<not> retriable [429, 502, 503, 504] (es_srv es h rq)" "result_of (es_srv es h rq) = Inr ()" for rq
    using assms(1) retriable_not_accepted by (fastforce simp: accepting_def)+
  then show ?thesis
    using assms(2) idx.final [of 0 "es_srv es" h]
    by (simp add: es_index_def ebind_def elift_def json_dumps_def del: jsonable.simps(3))
qed

lemma write_ok:
  assumes "accepting es" "jsonable (PDict doc)" "textual_time doc"
  shows "\<exists>h'. (ebind (elift (daily_index E pfx (with_tag tag doc))) (\<lambda>idx.
      es_index es idx (with_tag tag doc))) h = (Inr (), h')"
proof -
  obtain idx where "daily_index E pfx (with_tag tag doc) = Inr idx"
    using daily_index_ok [of "with_tag tag doc" E pfx] assms(3) by (auto simp: textual_with_tag)
  then show ?thesis
    using es_index_ok [OF assms(1) with_tag_jsonable [OF assms(2)]] by (simp add: ebind_def elift_def)
qed

lemma eiter_ok:
  assumes "\<And>x h. x \<in> set xs \<Longrightarrow> \<exists>h'. f x h = (Inr (), h')"
  shows "\<exists>h'. eiter f xs h = (Inr (), h')"
  using assms
proof (induction xs arbitrary: h)
  case (Cons x xs)
  obtain h1 where "f x h = (Inr (), h1)" using Cons.prems by (meson list.set_intros(1))
  then show ?case using Cons by (simp add: ebind_def)
qed (simp add: eret_def)

lemma files_iterable_strip: "files_iterable rec \<Longrightarrow> \<exists>hp. strip_files (hp_of rec) = Inr hp"
  by (cases "strip_files (hp_of rec)")
    (auto simp: strip_files_Inl files_iterable_def split: pyval.splits)

lemma strip_bytes_ok: "files_iterable rec \<Longrightarrow> \<exists>doc. strip_bytes rec = Inr doc"
  using files_iterable_strip [of rec] by (auto simp: strip_bytes_def hp_of_def split: pyval.split)

text \<open>Whether the enrichment succeeds or not, there is a document, it can be written and so can its rows.\<close>

lemma enriched_docs_ok:
  assumes "files_iterable rec"
  obtains doc rows where "enriched_docs E validate dump geo rec = Inr (doc, rows)"
    and "textual_time doc = textual_time rec" and "set rows \<subseteq> range dump"
proof (cases "process E validate (Some geo) rec")
  case (Inr e)
  then obtain s ctx where "enrich_session E rec s ctx = Inr (session_doc e)" by (rule processD)
  then have "dget (session_doc e) k = dget rec k" if "k \<in> {''end_time'', ''@timestamp'', ''ts''}" for k
    using that by (elim enrich_sessionD) (auto simp: dget_def u_def)
  then show thesis
    using that [of "session_doc e" "map dump (observations e)"] Inr
    by (auto simp: enriched_docs_def intro!: textual_time_cong)
next
  case (Inl e)
  obtain doc where doc: "strip_bytes rec = Inr doc" using strip_bytes_ok [OF assms] by blast
  then have "textual_time doc = textual_time rec"
    by (intro textual_time_cong)
      (auto simp: strip_bytes_def rbind_eq_Inr dict_simps split: pyval.splits)
  then show thesis using that [of doc "[]"] doc Inl by (simp add: enriched_docs_def)
qed

lemma handle_record_ok:
  assumes "accepting es" "dumps_rows dump" "jsonable (PDict rec)"
    and "enrichable tag \<Longrightarrow> textual_time rec \<and> files_iterable rec"
  shows "\<exists>h'. handle_record E validate dump geo es tag rec h = (Inr (), h')"
proof (cases "enrichable tag")
  case True
  then obtain doc rows where d: "enriched_docs E validate dump geo rec = Inr (doc, rows)"
    "textual_time doc = textual_time rec" "set rows \<subseteq> range dump"
    using assms(4) enriched_docs_ok by metis
  have "jsonable (PDict doc)" using enriched_docs_jsonable [OF d(1) assms(3)] .
  with d(2) True assms obtain h1 where w: "write_session E es doc tag h = (Inr (), h1)"
    unfolding write_session_def using write_ok by blast
  have "\<exists>h'. write_observations E es rows tag h1 = (Inr (), h')"
    unfolding write_observations_def
    by (intro eiter_ok write_ok assms(1)) (use assms(2) d(3) in \<open>auto simp: dumps_rows_def simp del: jsonable.simps\<close>)
  with True d(1) w show ?thesis by (auto simp: handle_record_def ebind_def elift_def eret_def)
qed (simp add: handle_record_def eret_def)

section \<open>Properties\<close>


section \<open>Witnesses\<close>


end
