(* ===== verification/Replay.thy ===== *)
theory Replay
  imports Ingest
begin

text \<open>
  \<^verbatim>\<open>cli.py\<close>: the offline replay of exported sessions, and that it produces the documents the ingest
  service would have written.  The parser of the JSON library is the parameter \<open>loads\<close>; the lines
  of the file come decoded.
\<close>

section \<open>cli.py\<close>

definition unwrap_hit :: "pyval \<Rightarrow> pyval" where
  "unwrap_hit v =
     (case v of PDict d \<Rightarrow> if dhas d ''_source'' then dget d ''_source'' else v | _ \<Rightarrow> v)"

definition skipped_line :: "pystr \<Rightarrow> bool" where
  "skipped_line line \<longleftrightarrow> py_strip line = [] \<or> startswith (py_strip line) (u ''//'')"

text \<open>
  The generator: the documents up to the first line that is not JSON, and the error if there is
  such a line.
\<close>

fun iter_sessions :: "(pystr \<Rightarrow> pyval res) \<Rightarrow> pystr list \<Rightarrow> pyval list \<times> pyerr option" where
  "iter_sessions loads [] = ([], None)"
| "iter_sessions loads (line # rest) =
     (if skipped_line line then iter_sessions loads rest
      else (case loads (py_strip line) of
              Inl e \<Rightarrow> ([], Some e)
            | Inr v \<Rightarrow> (let (docs, err) = iter_sessions loads rest in (unwrap_hit v # docs, err))))"

record replay =
  rp_sessions :: nat
  rp_errors :: nat
  rp_out :: "pyval list"   \<comment> \<open>the JSON lines written, one per envelope\<close>

definition envelope_line :: "pystr \<times> pydict \<Rightarrow> pyval" where
  "envelope_line p = pobj [(''tag'', PStr (fst p)), (''record'', PDict (snd p))]"

text \<open>The validation of something that is not an object fails.\<close>

definition process_any ::
  "('x) ext_scheme \<Rightarrow> validator \<Rightarrow> geo_enricher \<Rightarrow> pyval \<Rightarrow> enriched res" where
  "process_any E validate geo v =
     (case v of PDict raw \<Rightarrow> process E validate (Some geo) raw | _ \<Rightarrow> Inl ValidationError)"

definition write_envelope :: "pystr \<times> pydict \<Rightarrow> (replay, unit) eff" where
  "write_envelope p =
     ebind (elift (json_dumps (envelope_line p))) (\<lambda>v rp. (Inr (), rp\<lparr>rp_out := rp_out rp @ [v]\<rparr>))"

definition replay_one ::
  "('x) ext_scheme \<Rightarrow> validator \<Rightarrow> dumper \<Rightarrow> geo_enricher \<Rightarrow> pyval \<Rightarrow> (replay, unit) eff" where
  "replay_one E validate dump geo v rp =
     (let rp1 = rp\<lparr>rp_sessions := rp_sessions rp + 1\<rparr> in
      case process_any E validate geo v of
        Inl _ \<Rightarrow> (Inr (), rp1\<lparr>rp_errors := rp_errors rp + 1\<rparr>)
      | Inr e \<Rightarrow> eiter write_envelope (envelopes dump e) rp1)"

definition cmd_replay ::
  "('x) ext_scheme \<Rightarrow> validator \<Rightarrow> dumper \<Rightarrow> geo_enricher \<Rightarrow> (pystr \<Rightarrow> pyval res) \<Rightarrow> pystr list
   \<Rightarrow> int res \<times> replay" where
  "cmd_replay E validate dump geo loads lines =
     (let (docs, err) = iter_sessions loads lines in
      ebind (eiter (replay_one E validate dump geo) docs) (\<lambda>_ rp.
        case err of
          Some e \<Rightarrow> (Inl e, rp)
        | None \<Rightarrow> (Inr (if rp_errors rp = 0 then 0 else 1), rp))
        \<lparr>rp_sessions = 0, rp_errors = 0, rp_out = []\<rparr>)"

lemmas replay_eval [py_eval] = unwrap_hit_def skipped_line_def envelope_line_def process_any_def
  write_envelope_def replay_one_def cmd_replay_def

section \<open>What is written\<close>

text \<open>The documents the ingest service makes of a record whose enrichment succeeds.\<close>

definition ingest_docs ::
  "('x) ext_scheme \<Rightarrow> validator \<Rightarrow> dumper \<Rightarrow> geo_enricher \<Rightarrow> pydict \<Rightarrow> (pystr \<times> pydict) list" where
  "ingest_docs E validate dump geo raw =
     (case enriched_docs E validate dump geo raw of
        Inl _ \<Rightarrow> [] | Inr (doc, rows) \<Rightarrow> (INDEX_SESSION, doc) # map (Pair INDEX_C2) rows)"

definition enrich_fails :: "('x) ext_scheme \<Rightarrow> validator \<Rightarrow> geo_enricher \<Rightarrow> pydict \<Rightarrow> bool" where
  "enrich_fails E validate geo raw \<longleftrightarrow> (\<exists>e. process E validate (Some geo) raw = Inl e)"

lemma envelopes_ingest:
  assumes "process E validate (Some geo) raw = Inr e"
  shows "envelopes dump e = ingest_docs E validate dump geo raw"
  using assms by (simp add: ingest_docs_def enriched_docs_def envelopes_def)

lemma write_envelopes:
  assumes "\<forall>(tag, rec) \<in> set ps. jsonable (PDict rec)"
  shows "eiter write_envelope ps rp = (Inr (), rp\<lparr>rp_out := rp_out rp @ map envelope_line ps\<rparr>)"
  using assms
proof (induction ps arbitrary: rp)
  case (Cons p ps)
  then have "json_dumps (envelope_line p) = Inr (envelope_line p)"
    by (auto simp: json_dumps_def envelope_line_def simp del: jsonable.simps(3))
      (auto simp: list_all_iff)
  with Cons show ?case by (simp add: write_envelope_def ebind_def elift_def)
qed (simp add: eret_def)

lemma ingest_docs_jsonable:
  assumes "jsonable (PDict raw)" "\<And>obs. jsonable (PDict (dump obs))"
    and "process E validate (Some geo) raw = Inr e"
  shows "\<forall>(tag, rec) \<in> set (ingest_docs E validate dump geo raw). jsonable (PDict rec)"
proof -
  obtain doc rows where "enriched_docs E validate dump geo raw = Inr (doc, rows)" "set rows \<subseteq> range dump"
    using assms(3) by (auto simp: enriched_docs_def)
  with enriched_docs_jsonable [OF this(1) assms(1)] assms(2) show ?thesis
    by (auto simp: ingest_docs_def simp del: jsonable.simps)
qed

lemma replay_one_writes:
  assumes "jsonable (PDict raw)" "\<And>obs. jsonable (PDict (dump obs))"
  shows "replay_one E validate dump geo (PDict raw) rp =
    (Inr (), \<lparr>rp_sessions = rp_sessions rp + 1,
              rp_errors = rp_errors rp + (if enrich_fails E validate geo raw then 1 else 0),
              rp_out = rp_out rp @ (if enrich_fails E validate geo raw then []
                else map envelope_line (ingest_docs E validate dump geo raw))\<rparr>)"
proof (cases "process E validate (Some geo) raw")
  case (Inr e)
  then have "eiter write_envelope (envelopes dump e) rp' =
      (Inr (), rp'\<lparr>rp_out := rp_out rp' @ map envelope_line (ingest_docs E validate dump geo raw)\<rparr>)" for rp'
    using write_envelopes ingest_docs_jsonable [OF assms Inr] by (simp add: envelopes_ingest)
  with Inr show ?thesis
    by (cases rp) (simp add: replay_one_def process_any_def enrich_fails_def)
qed (cases rp, simp add: replay_one_def process_any_def enrich_fails_def)

lemma replay_docs:
  assumes "\<forall>raw \<in> set raws. jsonable (PDict raw)" "\<And>obs. jsonable (PDict (dump obs))"
  shows "eiter (replay_one E validate dump geo) (map PDict raws) rp =
    (Inr (), \<lparr>rp_sessions = rp_sessions rp + length raws,
              rp_errors = rp_errors rp + length (filter (enrich_fails E validate geo) raws),
              rp_out = rp_out rp @ map envelope_line (concat (map (ingest_docs E validate dump geo)
                (filter (\<lambda>raw. \<not> enrich_fails E validate geo raw) raws)))\<rparr>)"
  using assms(1)
proof (induction raws arbitrary: rp)
  case (Cons raw raws)
  then show ?case
    using replay_one_writes [of raw dump E validate geo rp] assms(2) by (simp add: ebind_def del: jsonable.simps)
qed (cases rp, simp add: eret_def)

section \<open>Properties\<close>


text \<open>A line that is not JSON ends the replay; the sessions after it are never read.\<close>

lemma bad_line_ends_replay:
  assumes "iter_sessions loads lines = (docs, Some e)"
  shows "\<exists>e'. fst (cmd_replay E validate dump geo loads lines) = Inl e'"
  using assms by (auto simp: cmd_replay_def ebind_def split: prod.split sum.split)

section \<open>Witnesses\<close>

definition demo_loads :: "pystr \<Rightarrow> pyval res" where
  "demo_loads s = (if s = u ''D'' then Inr (PDict demo_raw)
     else if s = u ''H'' then Inr (pobj [(''_source'', PDict [])]) else Inl ValueError)"

definition picky_validate :: validator where
  "picky_validate raw = (if raw = [] then Inl ValidationError else demo_validate raw)"


end
