(* ===== verification/Py_Dyn.thy ===== *)
theory Py_Dyn
  imports Py_Value
begin

text \<open>
  Python operations on values whose type is only known at run time, as the code applies them to
  decoded JSON: subscripts, \<^verbatim>\<open>get\<close>, iteration, \<^verbatim>\<open>int()\<close>, \<^verbatim>\<open>float()\<close> and \<^verbatim>\<open>sorted(set(...))\<close>.  Each
  raises what Python raises on a value of the wrong type.
\<close>

text \<open>\<^verbatim>\<open>v["k"]\<close>, \<^verbatim>\<open>v.get("k", d)\<close>, and iterating over \<open>v\<close>.\<close>

definition vsub :: "pyval \<Rightarrow> string \<Rightarrow> pyval res" where
  "vsub v k =
     (case v of
        PDict d \<Rightarrow> (case map_of d (key k) of Some x \<Rightarrow> Inr x | None \<Rightarrow> Inl KeyError)
      | _ \<Rightarrow> Inl TypeError)"

definition vget_or :: "pyval \<Rightarrow> string \<Rightarrow> pyval \<Rightarrow> pyval res" where
  "vget_or v k dflt = (case v of PDict d \<Rightarrow> Inr (dget_or d k dflt) | _ \<Rightarrow> Inl AttributeError)"

definition viter :: "pyval \<Rightarrow> pyval list res" where
  "viter v =
     (case v of
        PList l \<Rightarrow> Inr l
      | PDict d \<Rightarrow> Inr (map (\<lambda>kv. case fst kv of KS s \<Rightarrow> PStr s | KB b \<Rightarrow> PBytes b) d)
      | PStr s \<Rightarrow> Inr (map (\<lambda>c. PStr [c]) s)
      | PBytes b \<Rightarrow> Inr (map (\<lambda>x. PInt (uint x)) b)
      | _ \<Rightarrow> Inl TypeError)"

definition vor :: "pyval \<Rightarrow> pyval \<Rightarrow> pyval" where
  "vor a b = (if truthy a then a else b)"

text \<open>\<^verbatim>\<open>v.get("k") or {}\<close>, the idiom for a missing object.\<close>

definition vobj :: "pyval \<Rightarrow> string \<Rightarrow> pyval res" where
  "vobj v k = rbind (vget_or v k PNone) (\<lambda>x. Inr (vor x (PDict [])))"

text \<open>
  \<^verbatim>\<open>int(text)\<close>: an optional sign and digits, single underscores between digits allowed, white
  space around it ignored, at most 4300 digits.
\<close>

definition digit_val :: "('x) ext_scheme \<Rightarrow> int \<Rightarrow> int option" where
  "digit_val E c = (if c < 128 then (if ascii_digit c then Some (c - 48) else None) else uc_decimal E c)"

fun int_digits :: "('x) ext_scheme \<Rightarrow> bool \<Rightarrow> int \<Rightarrow> nat \<Rightarrow> pystr \<Rightarrow> (int \<times> nat) option" where
  "int_digits E after acc n [] = (if after then Some (acc, n) else None)"
| "int_digits E after acc n (c # cs) =
     (case digit_val E c of
        Some d \<Rightarrow> int_digits E True (acc * 10 + d) (Suc n) cs
      | None \<Rightarrow> if c = 95 \<and> after \<and> cs \<noteq> [] then int_digits E False acc n cs else None)"

definition int_of_str :: "('x) ext_scheme \<Rightarrow> pystr \<Rightarrow> int res" where
  "int_of_str E s =
     (let t = py_strip s;
          (sign, body) = (case t of c # cs \<Rightarrow> if c = 45 then (-1, cs) else if c = 43 then (1, cs) else (1, t)
                          | [] \<Rightarrow> (1, t))
      in case int_digits E False 0 0 body of
           Some (n, k) \<Rightarrow> if 4300 < int k then Inl ValueError else Inr (sign * n)
         | None \<Rightarrow> Inl ValueError)"

definition py_trunc :: "rat \<Rightarrow> int" where
  "py_trunc q = (if q < 0 then - \<lfloor>- q\<rfloor> else \<lfloor>q\<rfloor>)"

definition py_int :: "('x) ext_scheme \<Rightarrow> pyval \<Rightarrow> int res" where
  "py_int E v =
     (case v of
        PInt n \<Rightarrow> Inr n
      | PBool b \<Rightarrow> Inr (if b then 1 else 0)
      | PFloat q \<Rightarrow> Inr (py_trunc q)
      | PStr s \<Rightarrow> int_of_str E s
      | PBytes b \<Rightarrow> int_of_str E (map uint b)
      | _ \<Rightarrow> Inl TypeError)"

text \<open>The number a value is, if it is one: \<^verbatim>\<open>True == 1 == 1.0\<close>.\<close>

definition num_val :: "pyval \<Rightarrow> rat option" where
  "num_val v =
     (case v of PInt n \<Rightarrow> Some (of_int n) | PBool b \<Rightarrow> Some (if b then 1 else 0)
      | PFloat q \<Rightarrow> Some q | _ \<Rightarrow> None)"

definition str_val :: "pyval \<Rightarrow> pystr option" where
  "str_val v = (case v of PStr s \<Rightarrow> Some s | _ \<Rightarrow> None)"

definition hashable :: "pyval \<Rightarrow> bool" where
  "hashable v = (case v of PList _ \<Rightarrow> False | PDict _ \<Rightarrow> False | _ \<Rightarrow> True)"

fun dedupe_num :: "rat list \<Rightarrow> pyval list \<Rightarrow> pyval list" where
  "dedupe_num seen [] = []"
| "dedupe_num seen (v # vs) =
     (case num_val v of
        None \<Rightarrow> dedupe_num seen vs
      | Some q \<Rightarrow> if q \<in> set seen then dedupe_num seen vs else v # dedupe_num (q # seen) vs)"

text \<open>
  \<^verbatim>\<open>sorted(set(vs))\<close>: texts among themselves, numbers among themselves, and a single value of
  any other hashable type.
\<close>

definition py_sorted_set :: "pyval list \<Rightarrow> pyval list res" where
  "py_sorted_set vs =
     (if \<not> list_all hashable vs then Inl TypeError
      else if list_all (\<lambda>v. str_val v \<noteq> None) vs
      then Inr (map PStr (sorted_set (List.map_filter str_val vs)))
      else if list_all (\<lambda>v. num_val v \<noteq> None) vs
      then Inr (sort_key (\<lambda>v. case num_val v of Some q \<Rightarrow> q | None \<Rightarrow> 0) (dedupe_num [] vs))
      else (case remdups vs of [v] \<Rightarrow> Inr [v] | _ \<Rightarrow> Inl TypeError))"

definition as_str :: "pyval \<Rightarrow> pystr res" where
  "as_str v = (case v of PStr s \<Rightarrow> Inr s | _ \<Rightarrow> Inl AttributeError)"

lemmas dyn_eval [py_eval] = vsub_def vget_or_def viter_def vor_def vobj_def digit_val_def
  int_of_str_def py_trunc_def py_int_def num_val_def str_val_def hashable_def py_sorted_set_def
  as_str_def

section \<open>Laws\<close>

lemma py_sorted_set_strs: "py_sorted_set (map PStr xs) = Inr (map PStr (sorted_set xs))"
proof -
  have "List.map_filter str_val (map PStr xs) = xs"
    by (induction xs) (auto simp: List.map_filter_def str_val_def)
  then show ?thesis
    by (simp add: py_sorted_set_def list_all_iff hashable_def str_val_def)
qed

lemma vsub_pobj: "vsub (PDict d) k = (case map_of d (key k) of Some x \<Rightarrow> Inr x | None \<Rightarrow> Inl KeyError)"
  by (simp add: vsub_def)

end
