(* ===== verification/Vt.thy ===== *)
theory Vt
  imports Elastic Py_Dyn
begin

text \<open>
  \<^verbatim>\<open>services/reason/vt.py\<close>: VirusTotal verdicts for the files the ledger has seen.  Requests go
  through the same history as those to Elasticsearch.  A float is the exact rational it stands
  for.  The overlay an entity gets (\<open>overlay\<close>) is the dictionary the three reason modules hand on;
  the keys that are only sometimes there are options.
\<close>

section \<open>The entity overlay\<close>

record overlay =
  ov_stage :: pystr
  ov_signals :: "pystr list"
  ov_families :: "pystr list"
  ov_toolkit :: "pystr list option"
  ov_max_vt_ratio :: "rat option"
  ov_vt_families :: "pyval list option"
  ov_intel_sources :: "pystr list option"
  ov_intel_malware :: "pystr list option"

section \<open>vt.py\<close>

definition VT_URL :: pystr where
  "VT_URL = u ''https://www.virustotal.com/api/v3/files/''"

definition DEFAULT_MAX_PER_RUN :: int where
  "DEFAULT_MAX_PER_RUN = 4"

definition DEFAULT_MIN_MALICIOUS :: int where
  "DEFAULT_MIN_MALICIOUS = 1"

text \<open>\<^verbatim>\<open>_env_int\<close>, with the value of the variable, if it is set.\<close>

definition env_int :: "('x) ext_scheme \<Rightarrow> pystr option \<Rightarrow> int \<Rightarrow> int" where
  "env_int E var dflt =
     (case var of None \<Rightarrow> dflt
      | Some s \<Rightarrow> (case int_of_str E s of Inr n \<Rightarrow> n | Inl _ \<Rightarrow> dflt))"

definition round4 :: "rat \<Rightarrow> rat" where
  "round4 q = of_int (round_even (q * 10000)) / 10000"

definition threat_names :: "pyval \<Rightarrow> pyval list res" where
  "threat_names ptc =
     rbind (vget_or ptc ''suggested_threat_label'' PNone) (\<lambda>label.
     rbind (vget_or ptc ''popular_threat_name'' (PList [])) (\<lambda>names0.
     rbind (viter names0) (\<lambda>names.
     rbind (rmap (\<lambda>n. vget_or n ''value'' PNone) names) (\<lambda>vals.
       Inr ((if truthy label then [label] else []) @ filter truthy vals)))))"

definition parse_vt_file :: "('x) ext_scheme \<Rightarrow> pyval \<Rightarrow> pystr \<Rightarrow> pystr \<Rightarrow> pydict res" where
  "parse_vt_file E reply sha checked_at =
     rbind (vobj reply ''data'') (\<lambda>d0.
     rbind (vobj d0 ''attributes'') (\<lambda>attrs.
     rbind (vobj attrs ''last_analysis_stats'') (\<lambda>stats.
     rbind (vget_or stats ''malicious'' (PInt 0)) (\<lambda>m.
     rbind (py_int E (vor m (PInt 0))) (\<lambda>mal.
     rbind (vget_or stats ''suspicious'' (PInt 0)) (\<lambda>s.
     rbind (py_int E (vor s (PInt 0))) (\<lambda>susp.
     rbind (case stats of PDict d \<Rightarrow> rmap (\<lambda>kv. py_int E (vor (snd kv) (PInt 0))) d
            | _ \<Rightarrow> Inl AttributeError) (\<lambda>counts.
     rbind (vobj attrs ''popular_threat_classification'') (\<lambda>ptc.
     rbind (threat_names ptc) (\<lambda>fams.
     rbind (py_sorted_set fams) (\<lambda>fams'.
       (let total = sum_list counts in
        Inr [(key ''sha256'', PStr sha),
             (key ''vt_found'', PBool True),
             (key ''vt_malicious'', PInt mal),
             (key ''vt_suspicious'', PInt susp),
             (key ''vt_total'', PInt total),
             (key ''vt_ratio'', PFloat (if total \<noteq> 0 then round4 (of_int mal / of_int total) else 0)),
             (key ''vt_families'', PList fams'),
             (key ''checked_at'', PStr checked_at)]))))))))))))"

definition vt_not_found :: "pystr \<Rightarrow> pystr \<Rightarrow> pydict" where
  "vt_not_found sha checked_at =
     [(key ''sha256'', PStr sha), (key ''vt_found'', PBool False), (key ''vt_malicious'', PInt 0),
      (key ''vt_suspicious'', PInt 0), (key ''vt_total'', PInt 0), (key ''vt_ratio'', PFloat 0),
      (key ''vt_families'', PList []), (key ''checked_at'', PStr checked_at)]"

record vt_client =
  vt_api_key :: pystr
  vt_enabled :: bool

definition vt_client_init :: "pystr option \<Rightarrow> pystr \<Rightarrow> vt_client" where
  "vt_client_init api_key env_key =
     (let k = (case api_key of Some a \<Rightarrow> a | None \<Rightarrow> env_key) in \<lparr>vt_api_key = k, vt_enabled = (k \<noteq> [])\<rparr>)"

text \<open>The exceptions the lookup answers with "skip this pass".\<close>

definition vt_transient :: "pyerr \<Rightarrow> bool" where
  "vt_transient e = (e \<in> {URLError, TimeoutError, ValueError, UnicodeDecodeError})"

definition vt_reply ::
  "('x) ext_scheme \<Rightarrow> vt_client \<Rightarrow> pystr \<Rightarrow> pystr \<Rightarrow> outcome \<Rightarrow> (pydict option \<times> vt_client) res" where
  "vt_reply E cl sha checked_at out =
     (case out of
        Resp _ b \<Rightarrow>
          (case rbind (json_loads b) (\<lambda>v. parse_vt_file E v sha checked_at) of
             Inr d \<Rightarrow> Inr (Some d, cl)
           | Inl e \<Rightarrow> if vt_transient e then Inr (None, cl) else Inl e)
      | HttpFail c _ \<Rightarrow>
          if c = 404 then Inr (Some (vt_not_found sha checked_at), cl)
          else if c = 401 then Inr (None, cl\<lparr>vt_enabled := False\<rparr>)
          else Inr (None, cl)
      | UrlFail \<Rightarrow> Inr (None, cl)
      | OtherFail e \<Rightarrow> if vt_transient e then Inr (None, cl) else Inl e)"

definition vt_request :: "pystr \<Rightarrow> request" where
  "vt_request sha = \<lparr>rq_method = u ''GET'', rq_url = VT_URL @ sha, rq_body = NoBody\<rparr>"

definition vt_lookup ::
  "('x) ext_scheme \<Rightarrow> server \<Rightarrow> vt_client \<Rightarrow> pystr \<Rightarrow> pystr \<Rightarrow> (history, pydict option \<times> vt_client) eff" where
  "vt_lookup E net cl sha checked_at h =
     (let (out, h') = urlopen net (vt_request sha) h in (vt_reply E cl sha checked_at out, h'))"

record vt_resolver =
  vr_client :: vt_client
  vr_now :: int                              \<comment> \<open>microseconds since the epoch\<close>
  vr_checked_at :: pystr
  vr_budget :: int
  vr_looked_up :: int
  vr_mem :: "(pystr \<times> pydict option) list"

definition vt_resolver_init ::
  "('x) ext_scheme \<Rightarrow> vt_client \<Rightarrow> int \<Rightarrow> pystr \<Rightarrow> int option \<Rightarrow> pystr option \<Rightarrow> vt_resolver" where
  "vt_resolver_init E cl now nowiso max_per_run env_max =
     \<lparr>vr_client = cl, vr_now = now, vr_checked_at = nowiso,
      vr_budget = (case max_per_run of Some n \<Rightarrow> n | None \<Rightarrow> env_int E env_max DEFAULT_MAX_PER_RUN),
      vr_looked_up = 0, vr_mem = []\<rparr>"

definition us_per_day :: int where
  "us_per_day = 86400000000"

definition is_fresh :: "('x) env_scheme \<Rightarrow> vt_resolver \<Rightarrow> pyval \<Rightarrow> bool res" where
  "is_fresh E vr checked_at =
     (if \<not> truthy checked_at then Inr False
      else rbind (as_str checked_at) (\<lambda>s.
        case fromisoformat E (replace_char 90 (u ''+00:00'') s) of
          None \<Rightarrow> Inr False
        | Some (_, Aware t) \<Rightarrow> Inr (vr_now vr - t < VT_TTL_DAYS * us_per_day)
        | Some (_, Naive _) \<Rightarrow> Inl TypeError))"

text \<open>One hit of the cache query: it enters the fresh verdicts, or not, or raises.\<close>

definition cache_hit ::
  "('x) env_scheme \<Rightarrow> vt_resolver \<Rightarrow> pyval \<Rightarrow> (pystr \<times> pydict option) list
   \<Rightarrow> (pystr \<times> pydict option) list res" where
  "cache_hit E vr h fresh =
     rbind (vget_or h ''_source'' (PDict [])) (\<lambda>src.
     rbind (vget_or src ''sha256'' PNone) (\<lambda>sha0.
     rbind (if truthy sha0 then Inr sha0 else vget_or h ''_id'' PNone) (\<lambda>sha.
       if \<not> truthy sha then Inr fresh
       else rbind (vget_or src ''checked_at'' PNone) (\<lambda>c.
            rbind (is_fresh E vr c) (\<lambda>ok.
              if \<not> ok then Inr fresh
              else (case (sha, src) of
                      (PStr s, PDict d) \<Rightarrow> Inr (AList.update s (Some d) fresh)
                    | (v, _) \<Rightarrow> if hashable v then Inr fresh else Inl TypeError))))))"

fun cache_hits ::
  "('x) env_scheme \<Rightarrow> vt_resolver \<Rightarrow> pyval list \<Rightarrow> (pystr \<times> pydict option) list
   \<Rightarrow> (pystr \<times> pydict option) list res" where
  "cache_hits E vr [] fresh = Inr fresh"
| "cache_hits E vr (h # hs) fresh = rbind (cache_hit E vr h fresh) (cache_hits E vr hs)"

definition hits_of :: "pyval \<Rightarrow> pyval list res" where
  "hits_of reply =
     rbind (vget_or reply ''hits'' (PDict [])) (\<lambda>a. rbind (vget_or a ''hits'' (PList [])) viter)"

definition read_cache ::
  "('x) env_scheme \<Rightarrow> es_writer \<Rightarrow> vt_resolver \<Rightarrow> pystr list \<Rightarrow> (history, (pystr \<times> pydict option) list) eff"
where
  "read_cache E es vr shas =
     ebind
       (ecatch
         (ebind (es_search es VT_INDEX
             (pobj [(''size'', PInt (int (length shas))),
                    (''query'', pobj [(''ids'', pobj [(''values'', PList (map PStr shas))])])]))
           (\<lambda>reply. eret (Some reply)))
         (\<lambda>e. if e = RuntimeError then Some (eret None) else None))
       (\<lambda>r. case r of
           None \<Rightarrow> eret []
         | Some reply \<Rightarrow> elift (rbind (hits_of reply) (\<lambda>hs. cache_hits E vr hs [])))"

text \<open>One hash that neither this run nor the cache knows.\<close>

definition resolve_one ::
  "('x) env_scheme \<Rightarrow> es_writer \<Rightarrow> pystr \<Rightarrow> vt_resolver \<Rightarrow> (history, vt_resolver) eff" where
  "resolve_one E es s vr =
     (if map_of (vr_mem vr) s \<noteq> None then eret vr
      else if \<not> vt_enabled (vr_client vr) \<or> vr_budget vr \<le> 0
      then eret (vr\<lparr>vr_mem := AList.update s None (vr_mem vr)\<rparr>)
      else ebind (vt_lookup E (es_srv es) (vr_client vr) s (vr_checked_at vr)) (\<lambda>(v, cl).
           ebind (case v of Some d \<Rightarrow> index_doc es VT_INDEX s d | None \<Rightarrow> eret ()) (\<lambda>_.
             eret (vr\<lparr>vr_client := cl, vr_budget := vr_budget vr - 1,
                      vr_looked_up := vr_looked_up vr + 1,
                      vr_mem := AList.update s v (vr_mem vr)\<rparr>))))"

definition verdicts_for ::
  "('x) env_scheme \<Rightarrow> es_writer \<Rightarrow> pystr list \<Rightarrow> vt_resolver \<Rightarrow> (history, pydict list \<times> vt_resolver) eff"
where
  "verdicts_for E es shas vr =
     (let want = filter (\<lambda>s. s \<noteq> [] \<and> map_of (vr_mem vr) s = None) (dedupe_acc [] shas) in
      ebind (if want = [] then eret vr
             else ebind (read_cache E es vr want) (\<lambda>fresh.
                  efold (resolve_one E es) want
                    (vr\<lparr>vr_mem := fold (\<lambda>(k, v). AList.update k v) fresh (vr_mem vr)\<rparr>)))
        (\<lambda>vr'. eret
           (concat (map (\<lambda>s. case map_of (vr_mem vr') s of
                               Some (Some d) \<Rightarrow> if d = [] then [] else [d] | _ \<Rightarrow> []) shas), vr')))"

record vt_summary =
  vs_ratio :: rat
  vs_malicious :: int
  vs_families :: "pyval list"

definition float_of :: "('x) env_scheme \<Rightarrow> pyval \<Rightarrow> rat res" where
  "float_of E v =
     (case num_val v of Some q \<Rightarrow> Inr q
      | None \<Rightarrow>
         (case v of
            PStr s \<Rightarrow> (case float_of_text E s of Some q \<Rightarrow> Inr q | None \<Rightarrow> Inl ValueError)
          | _ \<Rightarrow> Inl TypeError))"

definition summarize_vt :: "('x) env_scheme \<Rightarrow> pydict list \<Rightarrow> vt_summary option res" where
  "summarize_vt E verdicts =
     (let known = filter (\<lambda>v. truthy (dget v ''vt_found'')) verdicts in
      if known = [] then Inr None
      else rbind (rmap (\<lambda>v. viter (vor (dget v ''vt_families'') (PList []))) known) (\<lambda>fs.
           rbind (py_sorted_set (concat fs)) (\<lambda>fams.
           rbind (rmap (\<lambda>v. float_of E (dget_or v ''vt_ratio'' (PFloat 0))) known) (\<lambda>ratios.
           rbind (rmap (\<lambda>v. py_int E (dget_or v ''vt_malicious'' (PInt 0))) known) (\<lambda>mals.
             Inr (Some \<lparr>vs_ratio = Max (set ratios), vs_malicious = Max (set mals),
                        vs_families = fams\<rparr>))))))"

definition apply_vt :: "overlay \<Rightarrow> vt_summary option \<Rightarrow> int \<Rightarrow> overlay" where
  "apply_vt ov summary min_malicious =
     (case summary of None \<Rightarrow> ov
      | Some s \<Rightarrow>
          (let out = ov\<lparr>ov_max_vt_ratio := Some (vs_ratio s),
                        ov_vt_families := (if vs_families s \<noteq> [] then Some (vs_families s)
                                           else ov_vt_families ov)\<rparr>
           in if min_malicious \<le> vs_malicious s
              then out\<lparr>ov_signals := sorted_set (ov_signals out @ [u ''virustotal''])\<rparr> else out))"

lemmas vt_eval [py_eval] = VT_URL_def DEFAULT_MAX_PER_RUN_def DEFAULT_MIN_MALICIOUS_def env_int_def
  round4_def threat_names_def parse_vt_file_def vt_not_found_def vt_client_init_def
  vt_transient_def vt_reply_def vt_request_def vt_lookup_def vt_resolver_init_def us_per_day_def
  is_fresh_def cache_hit_def hits_of_def read_cache_def resolve_one_def verdicts_for_def
  float_of_def summarize_vt_def apply_vt_def

section \<open>The budget\<close>

text \<open>The addresses that were looked up with GET: only VirusTotal and the feeds are read that way.\<close>

definition gets :: "history \<Rightarrow> pystr list" where
  "gets h = map (\<lambda>e. rq_url (fst e)) (filter (\<lambda>e. rq_method (fst e) = u ''GET'') h)"

lemma gets_append [simp]: "gets (h @ h') = gets h @ gets h'"
  by (simp add: gets_def)

lemma gets_simps [simp]: "gets [] = []"
  "gets ((rq, r) # h) = (if rq_method rq = u ''GET'' then rq_url rq # gets h else gets h)"
  by (simp_all add: gets_def)

definition no_gets :: "history \<Rightarrow> history \<Rightarrow> bool" where
  "no_gets h h' \<longleftrightarrow> gets h' = gets h"

interpretation quiet: state_order no_gets
  by unfold_locales (auto simp: no_gets_def)

lemma send_request_quiet: "rq_method rq \<noteq> u ''GET'' \<Longrightarrow> pres no_gets (send_request es rq)"
  by (rule presI)
    (auto simp: send_request_def urlopen_def Let_def no_gets_def split: outcome.splits)

lemma es_send_quiet: "m \<noteq> u ''GET'' \<Longrightarrow> pres no_gets (es_send es m p b)"
  unfolding es_send_def by (intro quiet.pres_bind quiet.pres_pure send_request_quiet) simp_all

lemma es_search_quiet: "pres no_gets (es_search es idx q)"
  unfolding es_search_def
  by (intro quiet.pres_bind es_send_quiet) (auto intro: quiet.pres_pure)

lemma index_doc_quiet: "pres no_gets (index_doc es idx i d)"
  unfolding index_doc_def
  by (intro quiet.pres_bind es_send_quiet quiet.pres_pure) (auto intro: quiet.pres_pure)

lemma read_cache_quiet: "pres no_gets (read_cache E es vr shas)"
  unfolding read_cache_def
  by (intro quiet.pres_bind quiet.pres_catch es_search_quiet quiet.pres_pure)
    (auto intro: quiet.pres_pure split: option.splits if_splits)

lemma resolve_one_step:
  assumes "resolve_one E es s vr h = (Inr vr', h')"
  shows "map_of (vr_mem vr') s \<noteq> None \<and> (\<forall>t. map_of (vr_mem vr) t \<noteq> None \<longrightarrow> map_of (vr_mem vr') t \<noteq> None) \<and>
    (vr_budget vr' = vr_budget vr \<and> vr_looked_up vr' = vr_looked_up vr \<and> gets h' = gets h \<or>
     map_of (vr_mem vr) s = None \<and> vt_enabled (vr_client vr) \<and> 0 < vr_budget vr \<and>
     vr_budget vr' = vr_budget vr - 1 \<and> vr_looked_up vr' = vr_looked_up vr + 1 \<and>
     gets h' = gets h @ [VT_URL @ s])"
proof (cases "map_of (vr_mem vr) s \<noteq> None \<or> \<not> vt_enabled (vr_client vr) \<or> vr_budget vr \<le> 0")
  case True
  with assms show ?thesis by (auto simp: resolve_one_def update_conv' split: if_splits)
next
  case False
  then obtain v cl h1 where l: "vt_lookup E (es_srv es) (vr_client vr) s (vr_checked_at vr) h = (Inr (v, cl), h1)"
    and i: "(case v of Some d \<Rightarrow> index_doc es VT_INDEX s d | None \<Rightarrow> eret ()) h1 = (Inr (), h')"
    and vr': "vr' = vr\<lparr>vr_client := cl, vr_budget := vr_budget vr - 1,
        vr_looked_up := vr_looked_up vr + 1, vr_mem := AList.update s v (vr_mem vr)\<rparr>"
    using assms by (auto simp: resolve_one_def ebind_eq_Inr)
  have "gets h1 = gets h @ [VT_URL @ s]"
    using l by (auto simp: vt_lookup_def urlopen_def Let_def vt_request_def)
  moreover have "gets h' = gets h1"
    using i presD [OF index_doc_quiet, of es VT_INDEX s _ h1 "Inr ()" h']
    by (auto simp: no_gets_def split: option.splits)
  ultimately show ?thesis
    using False vr' by (auto simp: update_conv')
qed

lemma resolve_all:
  assumes "efold (resolve_one E es) want vr h = (Inr vr', h')" "distinct want"
  shows "\<exists>new. gets h' = gets h @ map ((@) VT_URL) new \<and> distinct new \<and> set new \<subseteq> set want \<and>
    list_all (\<lambda>s. map_of (vr_mem vr) s = None) new \<and>
    vr_looked_up vr' = vr_looked_up vr + int (length new) \<and>
    vr_budget vr' = vr_budget vr - int (length new) \<and>
    int (length new) \<le> max 0 (vr_budget vr) \<and>
    (\<forall>s \<in> set want. map_of (vr_mem vr') s \<noteq> None) \<and>
    (\<forall>t. map_of (vr_mem vr) t \<noteq> None \<longrightarrow> map_of (vr_mem vr') t \<noteq> None)"
  using assms
proof (induction want arbitrary: vr h)
  case Nil
  then show ?case by auto
next
  case (Cons s want)
  then obtain vr1 h1 where s1: "resolve_one E es s vr h = (Inr vr1, h1)"
    and rest: "efold (resolve_one E es) want vr1 h1 = (Inr vr', h')"
    by (auto simp: ebind_eq_Inr)
  note step = resolve_one_step [OF s1]
  from Cons.IH [OF rest] Cons.prems(2) obtain new where new:
    "gets h' = gets h1 @ map ((@) VT_URL) new" "distinct new" "set new \<subseteq> set want"
    "list_all (\<lambda>s. map_of (vr_mem vr1) s = None) new"
    "vr_looked_up vr' = vr_looked_up vr1 + int (length new)"
    "vr_budget vr' = vr_budget vr1 - int (length new)" "int (length new) \<le> max 0 (vr_budget vr1)"
    "\<forall>s \<in> set want. map_of (vr_mem vr') s \<noteq> None"
    "\<forall>t. map_of (vr_mem vr1) t \<noteq> None \<longrightarrow> map_of (vr_mem vr') t \<noteq> None" by auto
  have old: "list_all (\<lambda>s. map_of (vr_mem vr) s = None) new"
    using new(4) step by (auto simp: list_all_iff)
  have fresh: "s \<notin> set new" using new(3) Cons.prems(2) by auto
  from step consider
      (none) "vr_budget vr1 = vr_budget vr" "vr_looked_up vr1 = vr_looked_up vr" "gets h1 = gets h"
    | (one) "map_of (vr_mem vr) s = None" "0 < vr_budget vr" "vr_budget vr1 = vr_budget vr - 1"
        "vr_looked_up vr1 = vr_looked_up vr + 1" "gets h1 = gets h @ [VT_URL @ s]" by (elim conjE disjE) simp_all
  then show ?case
  proof cases
    case none
    with new old step show ?thesis by (intro exI [of _ new]) auto
  next
    case one
    with new old step fresh show ?thesis by (intro exI [of _ "s # new"]) auto
  qed
qed

section \<open>Properties\<close>

text \<open>
  C38. A pass of the resolver makes at most as many VirusTotal lookups as its budget allows, asks
  about no hash twice and about none it already has an answer for, and keeps an exact account: every
  lookup is one unit of the budget and one request on the wire.  Afterwards every hash asked for is
  decided for the run.
\<close>

theorem vt_budget_respected:
  assumes "verdicts_for E es shas vr h = (Inr (vs, vr'), h')"
  shows "\<exists>new. gets h' = gets h @ map ((@) VT_URL) new \<and> distinct new \<and> set new \<subseteq> set shas \<and>
    list_all (\<lambda>s. s \<noteq> [] \<and> map_of (vr_mem vr) s = None) new \<and>
    vr_looked_up vr' = vr_looked_up vr + int (length new) \<and>
    vr_budget vr' = vr_budget vr - int (length new) \<and>
    int (length new) \<le> max 0 (vr_budget vr) \<and>
    (\<forall>s \<in> set shas. s \<noteq> [] \<longrightarrow> map_of (vr_mem vr') s \<noteq> None)"
proof -
  let ?want = "filter (\<lambda>s. s \<noteq> [] \<and> map_of (vr_mem vr) s = None) (dedupe_acc [] shas)"
  have set_want: "set ?want = {s \<in> set shas. s \<noteq> [] \<and> map_of (vr_mem vr) s = None}"
    by (auto simp: set_dedupe_acc)
  show ?thesis
  proof (cases "?want = []")
    case True
    with assms have "vr' = vr" "h' = h" by (auto simp: verdicts_for_def Let_def)
    with True set_want show ?thesis by (intro exI [of _ "[]"]) auto
  next
    case False
    let ?mem = "\<lambda>fresh. fold (\<lambda>(k, v). AList.update k v) fresh (vr_mem vr)"
    from assms False obtain fresh h1 where
      c: "read_cache E es vr ?want h = (Inr fresh, h1)"
      and f: "efold (resolve_one E es) ?want (vr\<lparr>vr_mem := ?mem fresh\<rparr>) h1 = (Inr vr', h')"
      by (auto simp: verdicts_for_def Let_def ebind_eq_Inr)
    have q: "gets h1 = gets h" using presD [OF read_cache_quiet c] by (simp add: no_gets_def)
    have keep: "map_of (fold (\<lambda>(k, v). AList.update k v) fresh m) t \<noteq> None"
      if "map_of m t \<noteq> None" for t m
      using that by (induction fresh arbitrary: m) (auto simp: update_conv')
    have d: "distinct ?want" by (simp add: distinct_dedupe_acc)
    obtain new where new: "gets h' = gets h1 @ map ((@) VT_URL) new" "distinct new"
      "set new \<subseteq> set ?want" "vr_looked_up vr' = vr_looked_up vr + int (length new)"
      "vr_budget vr' = vr_budget vr - int (length new)" "int (length new) \<le> max 0 (vr_budget vr)"
      "\<forall>s \<in> set ?want. map_of (vr_mem vr') s \<noteq> None"
      "\<forall>t. map_of (?mem fresh) t \<noteq> None \<longrightarrow> map_of (vr_mem vr') t \<noteq> None"
      using resolve_all [OF f d] by auto
    have "map_of (vr_mem vr') s \<noteq> None" if "s \<in> set shas" "s \<noteq> []" for s
      using that new(7,8) keep [of "vr_mem vr" s] set_want by (cases "map_of (vr_mem vr) s = None") auto
    with new q set_want show ?thesis
      by (intro exI [of _ new]) (auto simp: list_all_iff)
  qed
qed

lemma round_even_bounds:
  assumes "0 \<le> q" "q \<le> of_int n"
  shows "0 \<le> round_even q" "round_even q \<le> n"
proof -
  have f: "0 \<le> \<lfloor>q\<rfloor>" using assms(1) by simp
  then show "0 \<le> round_even q" by (auto simp: round_even_def Let_def)
  show "round_even q \<le> n"
  proof (cases "\<lfloor>q\<rfloor> = n")
    case True
    with assms have "q = of_int n" by (metis of_int_floor_le order_antisym)
    then show ?thesis by (simp add: round_even_def Let_def)
  next
    case False
    moreover have "\<lfloor>q\<rfloor> \<le> n" using assms(2) by (simp add: floor_le_iff)
    ultimately show ?thesis by (auto simp: round_even_def Let_def)
  qed
qed

lemma round4_bounds: "0 \<le> q \<Longrightarrow> q \<le> 1 \<Longrightarrow> 0 \<le> round4 q \<and> round4 q \<le> 1"
  using round_even_bounds [of "q * 10000" 10000] by (simp add: round4_def)

text \<open>The engine counts of a report.\<close>

definition vt_stats :: "pyval \<Rightarrow> pyval res" where
  "vt_stats reply =
     rbind (vobj reply ''data'') (\<lambda>d0. rbind (vobj d0 ''attributes'') (\<lambda>attrs.
       vobj attrs ''last_analysis_stats''))"

lemma parse_vt_fileD:
  assumes "parse_vt_file E reply sha t = Inr doc" "vt_stats reply = Inr (PDict d)"
  obtains mal susp counts fams where
    "py_int E (vor (dget_or d ''malicious'' (PInt 0)) (PInt 0)) = Inr mal"
    "rmap (\<lambda>kv. py_int E (vor (snd kv) (PInt 0))) d = Inr counts"
    "doc = [(key ''sha256'', PStr sha), (key ''vt_found'', PBool True), (key ''vt_malicious'', PInt mal),
       (key ''vt_suspicious'', PInt susp), (key ''vt_total'', PInt (sum_list counts)),
       (key ''vt_ratio'', PFloat (if sum_list counts \<noteq> 0 then round4 (of_int mal / of_int (sum_list counts)) else 0)),
       (key ''vt_families'', PList fams), (key ''checked_at'', PStr t)]"
  using assms
  by (auto simp: parse_vt_file_def vt_stats_def rbind_eq_Inr Let_def vget_or_def)

lemma sum_list_member_le: "list_all ((\<le>) 0) ns \<Longrightarrow> n \<in> set ns \<Longrightarrow> n \<le> sum_list (ns :: int list)"
  by (induction ns) (auto simp: list_all_iff intro!: add_nonneg_nonneg sum_list_nonneg)

text \<open>
  A verdict built from a report whose engine counts are not negative: the malicious count is
  within the total and the detection ratio lies between zero and one.
\<close>

theorem vt_ratio_bounds:
  assumes "parse_vt_file E reply sha t = Inr doc" "vt_stats reply = Inr (PDict d)"
    and "list_all (\<lambda>kv. res_ok ((\<le>) 0) (py_int E (vor (snd kv) (PInt 0)))) d"
  shows "\<exists>mal total ratio. dget doc ''vt_malicious'' = PInt mal \<and> dget doc ''vt_total'' = PInt total \<and>
    dget doc ''vt_ratio'' = PFloat ratio \<and> 0 \<le> mal \<and> mal \<le> total \<and> 0 \<le> ratio \<and> ratio \<le> 1"
proof -
  obtain mal susp counts fams where p:
    "py_int E (vor (dget_or d ''malicious'' (PInt 0)) (PInt 0)) = Inr mal"
    "rmap (\<lambda>kv. py_int E (vor (snd kv) (PInt 0))) d = Inr counts"
    and doc: "doc = [(key ''sha256'', PStr sha), (key ''vt_found'', PBool True), (key ''vt_malicious'', PInt mal),
       (key ''vt_suspicious'', PInt susp), (key ''vt_total'', PInt (sum_list counts)),
       (key ''vt_ratio'', PFloat (if sum_list counts \<noteq> 0 then round4 (of_int mal / of_int (sum_list counts)) else 0)),
       (key ''vt_families'', PList fams), (key ''checked_at'', PStr t)]"
    using assms(1,2) by (rule parse_vt_fileD)
  have pos: "list_all ((\<le>) 0) counts"
    using rmap_mem [OF p(2)] assms(3) by (fastforce simp: list_all_iff res_ok_iff)
  have mal: "0 \<le> mal \<and> mal \<le> sum_list counts"
  proof (cases "map_of d (key ''malicious'')")
    case None
    with p(1) have "mal = 0" by (simp add: dget_or_def vor_def py_int_def)
    with pos show ?thesis by (auto simp: list_all_iff intro!: sum_list_nonneg)
  next
    case (Some v)
    then have m: "(key ''malicious'', v) \<in> set d" by (rule map_of_SomeD)
    have "list_all2 (\<lambda>kv n. py_int E (vor (snd kv) (PInt 0)) = Inr n) d counts"
      using p(2) by (simp add: rmap_Inr_iff)
    with m obtain n where "n \<in> set counts" "py_int E (vor v (PInt 0)) = Inr n"
      by (auto simp: list_all2_conv_all_nth in_set_conv_nth) (metis snd_conv)
    with p(1) Some have "mal \<in> set counts" by (simp add: dget_or_def)
    with pos sum_list_member_le [OF pos] show ?thesis by (auto simp: list_all_iff)
  qed
  have "0 \<le> round4 (of_int mal / of_int (sum_list counts)) \<and> round4 (of_int mal / of_int (sum_list counts)) \<le> 1"
    if "sum_list counts \<noteq> 0"
    using mal that by (intro round4_bounds) (auto simp: divide_le_eq)
  with mal show ?thesis by (auto simp: doc dget_def)
qed

section \<open>Concrete lookups\<close>

definition vt_world :: server where
  "vt_world h rq =
     (if rq_method rq = u ''GET'' then HttpFail 404 (BText [])
      else if rq_method rq = u ''PUT'' then Resp 201 (BText []) else HttpFail 404 (BText []))"

definition demo_resolver :: vt_resolver where
  "demo_resolver = vt_resolver_init demo_env (vt_client_init (Some (u ''key'')) []) 0 (u ''1970'') (Some 1) None"

theorem vt_budget_respected_witness:
  "\<exists>vs vr' h'. verdicts_for demo_env (demo_es vt_world) [u ''a'', u ''b'', u ''a''] demo_resolver [] = (Inr (vs, vr'), h')
     \<and> length (gets h') \<le> 1"
proof -
  let ?v = "verdicts_for demo_env (demo_es vt_world) [u ''a'', u ''b'', u ''a''] demo_resolver []"
  have "res_ok (\<lambda>_. True) (fst ?v)" by code_simp
  then obtain vs vr' h' where v: "?v = (Inr (vs, vr'), h')"
    by (cases ?v) (auto elim!: res_okE)
  have b: "vr_budget demo_resolver = 1" by code_simp
  obtain new where "gets h' = map ((@) VT_URL) new" "int (length new) \<le> 1"
    using vt_budget_respected [OF v] b by auto
  then have "length (gets h') \<le> 1" by simp
  with v show ?thesis by blast
qed

definition demo_report :: pyval where
  "demo_report = pobj [(''data'', pobj [(''attributes'', pobj [(''last_analysis_stats'',
     pobj [(''malicious'', PInt 3), (''undetected'', PInt 7)])])])]"

theorem vt_ratio_bounds_witness:
  "\<exists>doc mal total. parse_vt_file demo_env demo_report (u ''s'') (u ''t'') = Inr doc \<and>
     dget doc ''vt_malicious'' = PInt mal \<and> dget doc ''vt_total'' = PInt total \<and> mal \<le> total"
proof -
  have "res_ok (\<lambda>_. True) (parse_vt_file demo_env demo_report (u ''s'') (u ''t''))" by code_simp
  then obtain doc where d: "parse_vt_file demo_env demo_report (u ''s'') (u ''t'') = Inr doc"
    by (auto elim: res_okE)
  have s: "vt_stats demo_report = Inr (pobj [(''malicious'', PInt 3), (''undetected'', PInt 7)])"
    by code_simp
  show ?thesis
    using d vt_ratio_bounds [OF d s] by (auto simp: res_ok_def py_int_def vor_def)
qed

end
