(* ===== verification/Intel.thy ===== *)
theory Intel
  imports Vt Py_Net
begin

text \<open>
  \<^verbatim>\<open>services/reason/intel.py\<close>: the abuse.ch feeds, their cache in Elasticsearch and the local
  matcher.  The reader of the \<^verbatim>\<open>csv\<close> module is modelled as the state machine it is, for lines
  without line ends.  The cache holds only what \<^verbatim>\<open>_ioc\<close> wrote, so sources, names and tags are
  texts; the model raises TypeError on anything else.
\<close>

section \<open>csv.reader(lines, skipinitialspace=True)\<close>

datatype csv_state = StartRecord | StartField | InField | InQuoted | QuoteInQuoted

record csv =
  c_state :: csv_state
  c_field :: pystr              \<comment> \<open>in reverse\<close>
  c_fields :: "pystr list"      \<comment> \<open>in reverse\<close>
  c_large :: bool               \<comment> \<open>a field over the limit was met\<close>

definition csv_start :: csv where
  "csv_start = \<lparr>c_state = StartRecord, c_field = [], c_fields = [], c_large = False\<rparr>"

definition FIELD_LIMIT :: int where
  "FIELD_LIMIT = 131072"

definition csv_add :: "int \<Rightarrow> csv_state \<Rightarrow> csv \<Rightarrow> csv" where
  "csv_add c next st =
     st\<lparr>c_state := next, c_field := c # c_field st,
        c_large := (c_large st \<or> FIELD_LIMIT \<le> int (length (c_field st)))\<rparr>"

definition csv_save :: "csv_state \<Rightarrow> csv \<Rightarrow> csv" where
  "csv_save next st = st\<lparr>c_state := next, c_field := [], c_fields := rev (c_field st) # c_fields st\<rparr>"

definition csv_char :: "int \<Rightarrow> csv \<Rightarrow> csv" where
  "csv_char c st =
     (case c_state st of
        InField \<Rightarrow> if c = 44 then csv_save StartField st else csv_add c InField st
      | InQuoted \<Rightarrow> if c = 34 then st\<lparr>c_state := QuoteInQuoted\<rparr> else csv_add c InQuoted st
      | QuoteInQuoted \<Rightarrow>
          if c = 34 then csv_add c InQuoted st
          else if c = 44 then csv_save StartField st
          else csv_add c InField st
      | _ \<Rightarrow>
          if c = 34 then st\<lparr>c_state := InQuoted\<rparr>
          else if c = 32 then st\<lparr>c_state := StartField\<rparr>
          else if c = 44 then csv_save StartField st
          else csv_add c InField st)"

definition csv_eol :: "csv \<Rightarrow> csv" where
  "csv_eol st =
     (case c_state st of
        StartRecord \<Rightarrow> st
      | InQuoted \<Rightarrow> st
      | _ \<Rightarrow> csv_save StartRecord st)"

fun csv_lines :: "csv \<Rightarrow> pystr list \<Rightarrow> pystr list list res" where
  "csv_lines st [] =
     Inr (if c_field st \<noteq> [] \<or> c_state st = InQuoted then [rev (c_fields (csv_save StartRecord st))] else [])"
| "csv_lines st (l # ls) =
     (let st' = csv_eol (fold csv_char l st) in
      if c_large st' then Inl CsvError
      else if c_state st' = StartRecord
      then rbind (csv_lines csv_start ls) (\<lambda>rows. Inr (rev (c_fields st') # rows))
      else csv_lines st' ls)"

definition csv_reader :: "pystr list \<Rightarrow> pystr list list res" where
  "csv_reader lines = csv_lines csv_start lines"

section \<open>Parsing the feeds\<close>

definition ALL_FEEDS :: "pystr list" where
  "ALL_FEEDS = [u ''threatfox'', u ''urlhaus'', u ''feodo'']"

definition DEFAULT_URLS :: "(pystr \<times> pystr) list" where
  "DEFAULT_URLS =
     [(u ''threatfox'', u ''https://threatfox.abuse.ch/export/csv/recent/''),
      (u ''urlhaus'', u ''https://urlhaus.abuse.ch/downloads/csv_recent/''),
      (u ''feodo'', u ''https://feodotracker.abuse.ch/downloads/ipblocklist.json'')]"

definition LOAD_CAP :: int where
  "LOAD_CAP = 100000"

definition LOAD_PAGE :: int where
  "LOAD_PAGE = 5000"

definition norm_type :: "('x) ext_scheme \<Rightarrow> pystr \<Rightarrow> pystr option" where
  "norm_type E raw0 =
     (let raw = py_lower E (py_strip raw0) in
      if raw \<in> set [u ''ip'', u ''ip:port'', u ''ipv4'', u ''ipv6''] then Some (u ''ip'')
      else if raw \<in> set [u ''domain'', u ''hostname''] then Some (u ''domain'')
      else if raw = u ''url'' then Some (u ''url'')
      else if endswith raw (u ''hash'') \<or> raw \<in> set [u ''md5'', u ''sha1'', u ''sha256'']
      then Some (u ''hash'') else None)"

definition some_text :: "pystr \<Rightarrow> pystr option" where
  "some_text s = (if s = [] then None else Some s)"

definition host_of :: "('x) ext_scheme \<Rightarrow> pystr \<Rightarrow> pystr \<Rightarrow> pystr option res" where
  "host_of E value t =
     (if t = u ''url'' then
        rbind (urlsplit E value) (\<lambda>parts.
          Inr (some_text (py_lower E (case sr_hostname E parts of None \<Rightarrow> [] | Some h \<Rightarrow> h))))
      else if t = u ''ip'' then Inr (some_text (py_lower E (py_strip (fst (split1 58 value)))))
      else if t = u ''domain'' then Inr (some_text (py_lower E (py_strip value)))
      else Inr None)"

definition clean :: "('x) ext_scheme \<Rightarrow> pystr list \<Rightarrow> pystr list" where
  "clean E items =
     sorted_set (filter (\<lambda>s. s \<noteq> [] \<and> py_lower E s \<noteq> u ''none'') (map py_strip items))"

definition ioc ::
  "('x) ext_scheme \<Rightarrow> pystr \<Rightarrow> pystr \<Rightarrow> pystr \<Rightarrow> pystr list \<Rightarrow> pystr list \<Rightarrow> pydict res" where
  "ioc E source t value0 malware tgs =
     (let value1 = py_strip value0;
          value = (if t \<in> set [u ''url'', u ''domain'', u ''hash''] then py_lower E value1 else value1) in
      rbind (host_of E value t) (\<lambda>host.
        Inr ([(key ''source'', PStr source), (key ''ioc_type'', PStr t), (key ''value'', PStr value),
              (key ''malware'', PList (map PStr (clean E malware))),
              (key ''tags'', PList (map PStr (clean E tgs)))]
             @ (case host of None \<Rightarrow> [] | Some h \<Rightarrow> [(key ''host'', PStr h)]))))"

text \<open>
  The first pass over the lines of a dump: the last comment line that names the marker column is the
  header, the lines that are no comments are the data.
\<close>

fun scan_lines ::
  "pystr \<Rightarrow> pystr list \<Rightarrow> pystr list option \<Rightarrow> pystr list \<Rightarrow> (pystr list option \<times> pystr list) res" where
  "scan_lines marker [] header dat = Inr (header, rev dat)"
| "scan_lines marker (line # lines) header dat =
     (let s = py_strip line in
      if s = [] then scan_lines marker lines header dat
      else if startswith s (u ''#'') then
        rbind (csv_reader [py_strip (lstrip_if (\<lambda>c. c = 35 \<or> c = 32) s)]) (\<lambda>rows.
          (let toks = (case rows of r # _ \<Rightarrow> r | [] \<Rightarrow> []) in
           scan_lines marker lines (if marker \<in> set toks then Some (map py_strip toks) else header) dat))
      else scan_lines marker lines header (line # dat))"

definition csv_row_dict :: "pystr list \<Rightarrow> pystr list \<Rightarrow> (pystr \<times> pystr) list" where
  "csv_row_dict header row =
     fold (\<lambda>i. AList.update (header ! i) (py_strip (if i < length row then row ! i else [])))
       [0..<length header] []"

definition read_abusech_csv :: "pystr \<Rightarrow> pystr \<Rightarrow> (pystr \<times> pystr) list list res" where
  "read_abusech_csv txt marker =
     rbind (scan_lines marker (splitlines txt) None []) (\<lambda>(header, dat).
       case header of None \<Rightarrow> Inr []
       | Some cols \<Rightarrow>
           rbind (csv_reader dat) (\<lambda>rows.
             Inr (map (csv_row_dict cols) (filter (\<lambda>r. r \<noteq> []) rows))))"

definition rget :: "(pystr \<times> pystr) list \<Rightarrow> string \<Rightarrow> pystr" where
  "rget r k = (case map_of r (u k) of Some v \<Rightarrow> v | None \<Rightarrow> [])"

definition split_tags :: "pystr \<Rightarrow> pystr list" where
  "split_tags raw = filter (\<lambda>t. py_strip t \<noteq> []) (split_on 44 (replace_char 59 [44] raw))"

definition threatfox_row :: "('x) ext_scheme \<Rightarrow> (pystr \<times> pystr) list \<Rightarrow> pydict list res" where
  "threatfox_row E r =
     (case norm_type E (rget r ''ioc_type'') of
        None \<Rightarrow> Inr []
      | Some t \<Rightarrow>
          if rget r ''ioc_value'' = [] then Inr []
          else
            (let mal = (if rget r ''malware_printable'' \<noteq> [] then rget r ''malware_printable''
                        else rget r ''malware'')
             in rbind (ioc E (u ''threatfox'') t (rget r ''ioc_value'') [mal] (split_tags (rget r ''tags'')))
                  (\<lambda>rec. Inr [rec])))"

definition parse_threatfox_csv :: "('x) ext_scheme \<Rightarrow> pystr \<Rightarrow> pydict list res" where
  "parse_threatfox_csv E txt =
     rbind (read_abusech_csv txt (u ''ioc_value'')) (\<lambda>rows.
       rbind (rmap (threatfox_row E) rows) (\<lambda>recs. Inr (concat recs)))"

definition urlhaus_row :: "('x) ext_scheme \<Rightarrow> (pystr \<times> pystr) list \<Rightarrow> pydict list res" where
  "urlhaus_row E r =
     (if rget r ''url'' = [] then Inr []
      else rbind (ioc E (u ''urlhaus'') (u ''url'') (rget r ''url'') [rget r ''threat'']
                   (split_tags (rget r ''tags''))) (\<lambda>rec. Inr [rec]))"

definition parse_urlhaus_csv :: "('x) ext_scheme \<Rightarrow> pystr \<Rightarrow> pydict list res" where
  "parse_urlhaus_csv E txt =
     rbind (read_abusech_csv txt (u ''url'')) (\<lambda>rows.
       rbind (rmap (urlhaus_row E) rows) (\<lambda>recs. Inr (concat recs)))"

definition py_str :: "('x) env_scheme \<Rightarrow> pyval \<Rightarrow> pystr" where
  "py_str E v = (case v of PStr s \<Rightarrow> s | _ \<Rightarrow> str_of E v)"

definition feodo_item :: "('x) env_scheme \<Rightarrow> pyval \<Rightarrow> pydict list res" where
  "feodo_item E it =
     rbind (vget_or it ''ip_address'' (PStr [])) (\<lambda>a.
       (let ip = py_strip (py_str E a) in
        if ip = [] then Inr []
        else rbind (vget_or it ''malware'' (PStr [])) (\<lambda>m.
             rbind (ioc E (u ''feodo'') (u ''ip'') ip [py_str E m] []) (\<lambda>rec. Inr [rec]))))"

definition parse_feodo_json :: "('x) env_scheme \<Rightarrow> body \<Rightarrow> pydict list res" where
  "parse_feodo_json E b =
     (case json_loads b of
        Inl _ \<Rightarrow> Inr []
      | Inr (PList items) \<Rightarrow> rbind (rmap (feodo_item E) items) (\<lambda>recs. Inr (concat recs))
      | Inr _ \<Rightarrow> Inr [])"

definition body_text :: "('x) env_scheme \<Rightarrow> body \<Rightarrow> pystr" where
  "body_text E b = (case b of BText t \<Rightarrow> t | BJson v \<Rightarrow> json_text E v)"

definition PARSERS :: "('x) env_scheme \<Rightarrow> pystr \<Rightarrow> (body \<Rightarrow> pydict list res) option" where
  "PARSERS E = map_of
     [(u ''threatfox'', \<lambda>b. parse_threatfox_csv E (body_text E b)),
      (u ''urlhaus'', \<lambda>b. parse_urlhaus_csv E (body_text E b)),
      (u ''feodo'', parse_feodo_json E)]"

definition feeds_from_env :: "('x) ext_scheme \<Rightarrow> pystr \<Rightarrow> pystr list" where
  "feeds_from_env E var =
     (let raw = py_strip var in
      if raw = [] then ALL_FEEDS
      else filter (\<lambda>s. s \<in> set ALL_FEEDS)
             (map (\<lambda>s. py_lower E (py_strip s)) (filter (\<lambda>s. py_strip s \<noteq> []) (split_on 44 raw))))"

section \<open>The client\<close>

record intel_client =
  ic_auth_key :: pystr
  ic_enabled :: bool
  ic_feeds :: "pystr list"

definition intel_client_init ::
  "('x) ext_scheme \<Rightarrow> pystr option \<Rightarrow> pystr \<Rightarrow> pystr list option \<Rightarrow> pystr \<Rightarrow> intel_client" where
  "intel_client_init E auth_key env_key feeds env_feeds =
     (let k = (case auth_key of Some a \<Rightarrow> a | None \<Rightarrow> env_key) in
      \<lparr>ic_auth_key = k, ic_enabled = (k \<noteq> []),
       ic_feeds = (case feeds of Some f \<Rightarrow> f | None \<Rightarrow> feeds_from_env E env_feeds)\<rparr>)"

text \<open>\<open>url_env\<close> stands for the variables \<^verbatim>\<open>C2E_INTEL_URL_<SOURCE>\<close>.\<close>

definition feed_url :: "(pystr \<Rightarrow> pystr option) \<Rightarrow> pystr \<Rightarrow> pystr res" where
  "feed_url url_env source =
     (case map_of DEFAULT_URLS source of
        None \<Rightarrow> Inl KeyError
      | Some dflt \<Rightarrow> Inr (case url_env source of Some x \<Rightarrow> x | None \<Rightarrow> dflt))"

definition parse_feed :: "('x) env_scheme \<Rightarrow> pystr \<Rightarrow> body \<Rightarrow> pydict list res" where
  "parse_feed E source b = (case PARSERS E source of None \<Rightarrow> Inl KeyError | Some p \<Rightarrow> p b)"

definition intel_fetch ::
  "('x) env_scheme \<Rightarrow> (pystr \<Rightarrow> pystr option) \<Rightarrow> server \<Rightarrow> intel_client \<Rightarrow> pystr
   \<Rightarrow> (history, pydict list option \<times> intel_client) eff" where
  "intel_fetch E url_env net cl source =
     ebind (elift (feed_url url_env source)) (\<lambda>url h.
       (let (out, h') = urlopen net \<lparr>rq_method = u ''GET'', rq_url = url, rq_body = NoBody\<rparr> h in
        (case out of
           Resp _ b \<Rightarrow> rbind (parse_feed E source b) (\<lambda>recs. Inr (Some recs, cl))
         | HttpFail c _ \<Rightarrow> Inr (None, if c = 401 then cl\<lparr>ic_enabled := False\<rparr> else cl)
         | UrlFail \<Rightarrow> Inr (None, cl)
         | OtherFail e \<Rightarrow> if vt_transient e then Inr (None, cl) else Inl e, h')))"

section \<open>The matcher\<close>

record intel_matcher =
  im_client :: intel_client
  im_now :: int
  im_nowiso :: pystr
  im_ttl :: int                                     \<comment> \<open>microseconds\<close>
  im_refreshed :: "pystr list"
  im_urls :: "(pystr \<times> pydict) list"
  im_hosts :: "(pystr \<times> pydict list) list"
  im_hashes :: "(pystr \<times> pydict) list"
  im_loaded :: bool

definition intel_matcher_init ::
  "('x) ext_scheme \<Rightarrow> intel_client \<Rightarrow> int \<Rightarrow> pystr \<Rightarrow> int option \<Rightarrow> pystr option \<Rightarrow> intel_matcher" where
  "intel_matcher_init E cl now nowiso ttl_hours env_ttl =
     \<lparr>im_client = cl, im_now = now, im_nowiso = nowiso,
      im_ttl = (case ttl_hours of Some t \<Rightarrow> t | None \<Rightarrow> env_int E env_ttl INTEL_TTL_HOURS) * 3600000000,
      im_refreshed = [], im_urls = [], im_hosts = [], im_hashes = [], im_loaded = False\<rparr>"

text \<open>A search whose failure means that the index is not there yet.\<close>

definition search_opt :: "es_writer \<Rightarrow> pystr \<Rightarrow> pyval \<Rightarrow> (history, pyval option) eff" where
  "search_opt es idx query =
     ecatch (ebind (es_search es idx query) (\<lambda>reply. eret (Some reply)))
       (\<lambda>e. if e = RuntimeError then Some (eret None) else None)"

definition latest_value :: "('x) env_scheme \<Rightarrow> pyval \<Rightarrow> datetime option res" where
  "latest_value E reply =
     rbind (vget_or reply ''aggregations'' (PDict [])) (\<lambda>a.
     rbind (vget_or a ''m'' (PDict [])) (\<lambda>m.
     rbind (vget_or (vor m (PDict [])) ''value_as_string'' PNone) (\<lambda>v.
       if \<not> truthy v then Inr None
       else rbind (as_str v) (\<lambda>s.
         Inr (map_option snd (fromisoformat E (replace_char 90 (u ''+00:00'') s)))))))"

definition latest_fetched :: "('x) env_scheme \<Rightarrow> es_writer \<Rightarrow> pystr \<Rightarrow> (history, datetime option) eff" where
  "latest_fetched E es source =
     ebind (search_opt es INTEL_INDEX
        (pobj [(''size'', PInt 0),
               (''query'', pobj [(''term'', pobj [(''source'', PStr source)])]),
               (''aggs'', pobj [(''m'', pobj [(''max'', pobj [(''field'', pstr ''fetched_at'')])])])]))
       (\<lambda>r. case r of None \<Rightarrow> eret None | Some reply \<Rightarrow> elift (latest_value E reply))"

definition is_stale :: "intel_matcher \<Rightarrow> datetime option \<Rightarrow> bool res" where
  "is_stale im dt =
     (case dt of
        None \<Rightarrow> Inr True
      | Some (Aware t) \<Rightarrow> Inr (im_ttl im \<le> im_now im - t)
      | Some (Naive _) \<Rightarrow> Inl TypeError)"

definition store_feed :: "es_writer \<Rightarrow> intel_matcher \<Rightarrow> pystr \<Rightarrow> pydict list \<Rightarrow> (history, unit) eff" where
  "store_feed es im source recs =
     ebind (elift (rmap (\<lambda>r. rbind (rbind (vsub (PDict r) ''value'') as_str) (\<lambda>v.
         Inr (source @ u '':'' @ v, dset ''fetched_at'' (PStr (im_nowiso im)) r))) recs)) (\<lambda>docs.
     ebind (bulk_index es INTEL_INDEX docs) (\<lambda>_.
     ebind (delete_by_query es INTEL_INDEX
        (pobj [(''query'', pobj [(''bool'', pobj
           [(''filter'', PList [pobj [(''term'', pobj [(''source'', PStr source)])]]),
            (''must_not'', PList [pobj [(''term'', pobj [(''fetched_at'', PStr (im_nowiso im))])]])])])]))
       (\<lambda>_. eret ())))"

text \<open>A record becomes a key of an index; a value that is no text is stored where no query finds it.\<close>

definition key_update :: "pyval \<Rightarrow> (pystr \<Rightarrow> 'm \<Rightarrow> 'm) \<Rightarrow> 'm \<Rightarrow> 'm res" where
  "key_update v f m =
     (case v of PStr s \<Rightarrow> Inr (f s m) | _ \<Rightarrow> if hashable v then Inr m else Inl TypeError)"

definition add_host :: "pydict \<Rightarrow> pystr \<Rightarrow> (pystr \<times> pydict list) list \<Rightarrow> (pystr \<times> pydict list) list" where
  "add_host rec h hosts =
     AList.update h ((case map_of hosts h of None \<Rightarrow> [] | Some rs \<Rightarrow> rs) @ [rec]) hosts"

definition index_value :: "pydict \<Rightarrow> intel_matcher \<Rightarrow> intel_matcher res" where
  "index_value rec im =
     (if dget rec ''ioc_type'' = pstr ''url'' then
        rbind (vsub (PDict rec) ''value'') (\<lambda>v.
        rbind (key_update v (\<lambda>s. AList.update s rec) (im_urls im)) (\<lambda>m. Inr (im\<lparr>im_urls := m\<rparr>)))
      else if dget rec ''ioc_type'' = pstr ''hash'' then
        rbind (vsub (PDict rec) ''value'') (\<lambda>v.
        rbind (key_update v (\<lambda>s. AList.update s rec) (im_hashes im)) (\<lambda>m. Inr (im\<lparr>im_hashes := m\<rparr>)))
      else Inr im)"

definition index_host :: "pydict \<Rightarrow> intel_matcher \<Rightarrow> intel_matcher res" where
  "index_host rec im =
     (if truthy (dget rec ''host'')
      then rbind (key_update (dget rec ''host'') (add_host rec) (im_hosts im)) (\<lambda>m. Inr (im\<lparr>im_hosts := m\<rparr>))
      else Inr im)"

definition index_hit :: "pyval \<Rightarrow> intel_matcher \<Rightarrow> intel_matcher res" where
  "index_hit h im =
     rbind (vget_or h ''_source'' (PDict [])) (\<lambda>src.
       case src of
         PDict rec \<Rightarrow> rbind (index_value rec im) (index_host rec)
       | _ \<Rightarrow> Inl AttributeError)"

fun index_hits :: "pyval list \<Rightarrow> intel_matcher \<Rightarrow> intel_matcher res" where
  "index_hits [] im = Inr im"
| "index_hits (h # hs) im = rbind (index_hit h im) (index_hits hs)"

definition load_query :: "int \<Rightarrow> pyval \<Rightarrow> pyval" where
  "load_query loaded after =
     PDict (map (\<lambda>(k, v). (key k, v))
       ([(''size'', PInt (min LOAD_PAGE (LOAD_CAP - loaded))),
         (''query'', pobj [(''match_all'', PDict [])]),
         (''sort'', PList [pobj [(''value'', pstr ''asc'')], pobj [(''source'', pstr ''asc'')]])]
        @ (if after = PNone then [] else [(''search_after'', after)])))"

text \<open>
  The paging loop.  Every page that does not end it holds at least one hit, so the number loaded
  grows and the cap ends it at the latest.
\<close>

function load_pages ::
  "es_writer \<Rightarrow> int \<Rightarrow> pyval \<Rightarrow> intel_matcher \<Rightarrow> (history, intel_matcher) eff" where
  "load_pages es loaded after im h =
     (if LOAD_CAP \<le> loaded then (Inr (im\<lparr>im_loaded := True\<rparr>), h)
      else
        (case search_opt es INTEL_INDEX (load_query loaded after) h of
           (Inl e, h') \<Rightarrow> (Inl e, h')
         | (Inr None, h') \<Rightarrow> (Inr (im\<lparr>im_loaded := True\<rparr>), h')
         | (Inr (Some reply), h') \<Rightarrow>
             (case hits_of reply of
                Inl e \<Rightarrow> (Inl e, h')
              | Inr hits \<Rightarrow>
                  if hits = [] then (Inr (im\<lparr>im_loaded := True\<rparr>), h')
                  else
                    (case rbind (index_hits hits im) (\<lambda>im'.
                            rbind (vget_or (last hits) ''sort'' PNone) (\<lambda>a. Inr (im', a))) of
                       Inl e \<Rightarrow> (Inl e, h')
                     | Inr (im', after') \<Rightarrow>
                         if int (length hits) < min LOAD_PAGE (LOAD_CAP - loaded) \<or> after' = PNone
                         then (Inr (im'\<lparr>im_loaded := True\<rparr>), h')
                         else load_pages es (loaded + int (length hits)) after' im' h'))))"
  by pat_completeness auto
termination
  by (relation "measure (\<lambda>(es, loaded, after, im, h). nat (LOAD_CAP - loaded))") auto

declare load_pages.simps [simp del]

definition load_indexes :: "es_writer \<Rightarrow> intel_matcher \<Rightarrow> (history, intel_matcher) eff" where
  "load_indexes es im = load_pages es 0 PNone (im\<lparr>im_urls := [], im_hosts := [], im_hashes := []\<rparr>)"

definition refresh_one ::
  "('x) env_scheme \<Rightarrow> (pystr \<Rightarrow> pystr option) \<Rightarrow> es_writer \<Rightarrow> pystr \<Rightarrow> intel_matcher
   \<Rightarrow> (history, intel_matcher) eff" where
  "refresh_one E url_env es source im =
     ebind (latest_fetched E es source) (\<lambda>dt.
     ebind (elift (is_stale im dt)) (\<lambda>stale.
       if \<not> stale then eret im
       else ebind (intel_fetch E url_env (es_srv es) (im_client im) source) (\<lambda>(recs, cl).
         case recs of
           None \<Rightarrow> eret (im\<lparr>im_client := cl\<rparr>)
         | Some rs \<Rightarrow>
             ebind (store_feed es im source rs) (\<lambda>_.
               eret (im\<lparr>im_client := cl, im_refreshed := im_refreshed im @ [source]\<rparr>)))))"

definition intel_refresh ::
  "('x) env_scheme \<Rightarrow> (pystr \<Rightarrow> pystr option) \<Rightarrow> es_writer \<Rightarrow> (int \<times> pystr) option \<Rightarrow> intel_matcher
   \<Rightarrow> (history, intel_matcher) eff" where
  "intel_refresh E url_env es now im0 =
     (let im1 = (case now of None \<Rightarrow> im0 | Some (t, txt) \<Rightarrow> im0\<lparr>im_now := t, im_nowiso := txt\<rparr>);
          im = im1\<lparr>im_refreshed := []\<rparr> in
      if \<not> ic_enabled (im_client im) then eret im
      else ebind (efold (refresh_one E url_env es) (ic_feeds (im_client im)) im) (\<lambda>im'.
           if im_refreshed im' \<noteq> [] \<or> \<not> im_loaded im' then load_indexes es im' else eret im'))"

record intel_match =
  m_sources :: "pystr list"
  m_malware :: "pystr list"
  m_tags :: "pystr list"

definition url_netloc :: "('x) ext_scheme \<Rightarrow> pystr \<Rightarrow> pystr res" where
  "url_netloc E x =
     rbind (urlsplit E x) (\<lambda>parts.
       Inr (py_lower E (case sr_hostname E parts of None \<Rightarrow> [] | Some h \<Rightarrow> h)))"

definition candidate_hosts ::
  "('x) ext_scheme \<Rightarrow> pystr \<Rightarrow> pystr list \<Rightarrow> pystr list \<Rightarrow> pystr list res" where
  "candidate_hosts E host resolved us =
     rbind (rmap (url_netloc E) us) (\<lambda>netlocs.
       Inr (dedupe_acc [] ((if host = [] then [] else [py_lower E host])
              @ map (py_lower E) (filter (\<lambda>x. x \<noteq> []) resolved)
              @ filter (\<lambda>x. x \<noteq> []) netlocs)))"

definition opt_hit :: "pydict option \<Rightarrow> pydict list" where
  "opt_hit r = (case r of None \<Rightarrow> [] | Some d \<Rightarrow> if d = [] then [] else [d])"

definition match_hits ::
  "('x) ext_scheme \<Rightarrow> intel_matcher \<Rightarrow> pystr \<Rightarrow> pystr list \<Rightarrow> pystr list \<Rightarrow> pystr list \<Rightarrow> pydict list res" where
  "match_hits E im host resolved us shas =
     rbind (candidate_hosts E host resolved us) (\<lambda>cands.
       Inr (concat (map (\<lambda>x. opt_hit (map_of (im_urls im) (py_lower E x))) us)
            @ concat (map (\<lambda>h. case map_of (im_hosts im) h of None \<Rightarrow> [] | Some rs \<Rightarrow> rs) cands)
            @ concat (map (\<lambda>s. opt_hit (map_of (im_hashes im) (py_lower E s))) shas)))"

definition texts :: "pyval list \<Rightarrow> pystr list res" where
  "texts vs = rmap (\<lambda>v. case v of PStr s \<Rightarrow> Inr s | _ \<Rightarrow> Inl TypeError) vs"

definition field_texts :: "string \<Rightarrow> pydict list \<Rightarrow> pystr list res" where
  "field_texts k hits =
     rbind (rmap (\<lambda>r. rbind (viter (dget_or r k (PList []))) texts) hits) (\<lambda>xss.
       Inr (sorted_set (concat xss)))"

definition intel_match_of ::
  "('x) ext_scheme \<Rightarrow> intel_matcher \<Rightarrow> pystr \<Rightarrow> pystr list \<Rightarrow> pystr list \<Rightarrow> pystr list \<Rightarrow> intel_match res" where
  "intel_match_of E im host resolved us shas =
     rbind (match_hits E im host resolved us shas) (\<lambda>hits.
       if hits = [] then Inr \<lparr>m_sources = [], m_malware = [], m_tags = []\<rparr>
       else rbind (rmap (\<lambda>r. vsub (PDict r) ''source'') hits) (\<lambda>srcs.
            rbind (texts srcs) (\<lambda>sources.
            rbind (field_texts ''malware'' hits) (\<lambda>malware.
            rbind (field_texts ''tags'' hits) (\<lambda>tgs.
              Inr \<lparr>m_sources = sorted_set sources, m_malware = malware, m_tags = tgs\<rparr>)))))"

definition apply_intel :: "overlay \<Rightarrow> intel_match \<Rightarrow> overlay" where
  "apply_intel ov m =
     (if m_sources m = [] then ov
      else ov\<lparr>ov_intel_sources := Some (sort (m_sources m)),
              ov_intel_malware := (if m_malware m \<noteq> [] then Some (sort (m_malware m))
                                   else ov_intel_malware ov),
              ov_signals := sorted_set (ov_signals ov @ m_sources m)\<rparr>)"

lemmas intel_eval [py_eval] = csv_start_def FIELD_LIMIT_def csv_add_def csv_save_def csv_char_def
  csv_eol_def csv_reader_def ALL_FEEDS_def DEFAULT_URLS_def LOAD_CAP_def LOAD_PAGE_def norm_type_def
  some_text_def host_of_def clean_def ioc_def csv_row_dict_def read_abusech_csv_def rget_def
  split_tags_def threatfox_row_def parse_threatfox_csv_def urlhaus_row_def parse_urlhaus_csv_def
  py_str_def feodo_item_def parse_feodo_json_def body_text_def PARSERS_def feeds_from_env_def
  intel_client_init_def feed_url_def parse_feed_def intel_fetch_def intel_matcher_init_def
  search_opt_def latest_value_def latest_fetched_def is_stale_def store_feed_def key_update_def
  add_host_def index_value_def index_host_def index_hit_def load_query_def load_pages.simps load_indexes_def refresh_one_def
  intel_refresh_def url_netloc_def candidate_hosts_def opt_hit_def match_hits_def texts_def
  field_texts_def intel_match_of_def apply_intel_def

section \<open>Reading what was quoted\<close>

definition csv_quote :: "pystr \<Rightarrow> pystr" where
  "csv_quote f = 34 # concat (map (\<lambda>c. if c = 34 then [34, 34] else [c]) f) @ [34]"

definition csv_row_text :: "pystr list \<Rightarrow> pystr" where
  "csv_row_text fs = py_join [44] (map csv_quote fs)"

lemma csv_quoted_body:
  assumes "c_state st = InQuoted" "int (length (c_field st) + length f) \<le> FIELD_LIMIT"
  shows "fold csv_char (concat (map (\<lambda>c. if c = 34 then [34, 34] else [c]) f)) st =
    st\<lparr>c_field := rev f @ c_field st\<rparr>"
  using assms
proof (induction f arbitrary: st)
  case (Cons c f)
  have add: "csv_add c InQuoted st = st\<lparr>c_field := c # c_field st\<rparr>"
    using Cons.prems by (simp add: csv_add_def)
  have "fold csv_char (if c = 34 then [34, 34] else [c]) st = st\<lparr>c_field := c # c_field st\<rparr>"
    using Cons.prems add by (auto simp: csv_char_def csv_add_def)
  with Cons.prems Cons.IH [of "st\<lparr>c_field := c # c_field st\<rparr>"] show ?case by simp
qed simp

definition field_ok :: "pystr \<Rightarrow> bool" where
  "field_ok f \<longleftrightarrow> int (length f) \<le> FIELD_LIMIT"

lemma csv_quote_fold:
  assumes "c_state st \<in> {StartRecord, StartField}" "c_field st = []" "field_ok f"
  shows "fold csv_char (csv_quote f) st = st\<lparr>c_state := QuoteInQuoted, c_field := rev f\<rparr>"
proof -
  have "csv_char 34 st = st\<lparr>c_state := InQuoted\<rparr>"
    using assms(1) by (auto simp: csv_char_def)
  then show ?thesis
    using csv_quoted_body [of "st\<lparr>c_state := InQuoted\<rparr>" f] assms(2,3)
    by (simp add: csv_quote_def field_ok_def csv_char_def)
qed

lemma csv_row_fold:
  assumes "fs \<noteq> []" "list_all field_ok fs" "c_state st \<in> {StartRecord, StartField}" "c_field st = []"
  shows "csv_eol (fold csv_char (csv_row_text fs) st) =
    st\<lparr>c_state := StartRecord, c_fields := rev fs @ c_fields st\<rparr>"
  using assms
proof (induction fs arbitrary: st)
  case (Cons f fs)
  let ?q = "st\<lparr>c_state := QuoteInQuoted, c_field := rev f\<rparr>"
  have q: "fold csv_char (csv_quote f) st = ?q"
    using Cons.prems by (intro csv_quote_fold) auto
  show ?case
  proof (cases fs)
    case Nil
    with q Cons.prems(4) show ?thesis by (simp add: csv_row_text_def csv_eol_def csv_save_def)
  next
    case (Cons g gs)
    have "csv_row_text (f # fs) = csv_quote f @ [44] @ csv_row_text fs"
      by (simp add: Cons csv_row_text_def)
    moreover have "csv_char 44 ?q = st\<lparr>c_state := StartField, c_field := [], c_fields := f # c_fields st\<rparr>"
      by (simp add: csv_char_def csv_save_def)
    ultimately show ?thesis
      using q Cons Cons.IH [of "st\<lparr>c_state := StartField, c_field := [], c_fields := f # c_fields st\<rparr>"] Cons.prems
      by simp
  qed
qed simp

section \<open>The host index\<close>

definition hit_rec :: "pyval \<Rightarrow> pydict" where
  "hit_rec h = (case h of PDict d \<Rightarrow> (case dget_or d ''_source'' (PDict []) of PDict r \<Rightarrow> r | _ \<Rightarrow> []) | _ \<Rightarrow> [])"

definition host_recs :: "intel_matcher \<Rightarrow> pystr \<Rightarrow> pydict list" where
  "host_recs im h = (case map_of (im_hosts im) h of None \<Rightarrow> [] | Some rs \<Rightarrow> rs)"

lemma index_hit_host:
  assumes "index_hit hit im = Inr im'" "x \<noteq> []"
  shows "host_recs im' x = host_recs im x @ (if dget (hit_rec hit) ''host'' = PStr x then [hit_rec hit] else [])"
proof -
  obtain rec im1 where r: "hit_rec hit = rec" "index_value rec im = Inr im1" "index_host rec im1 = Inr im'"
    using assms(1)
    by (auto simp: index_hit_def vget_or_def hit_rec_def rbind_eq_Inr split: pyval.splits)
  have "im_hosts im1 = im_hosts im"
    using r(2) by (auto simp: index_value_def rbind_eq_Inr split: if_splits)
  then show ?thesis
    using assms(2) r(1,3)
    by (cases "dget rec ''host''")
      (auto simp: index_host_def host_recs_def key_update_def add_host_def rbind_eq_Inr update_conv'
        hashable_def split: if_splits option.splits)
qed

lemma index_hits_host:
  assumes "index_hits hits im = Inr im'" "x \<noteq> []"
  shows "host_recs im' x = host_recs im x @ filter (\<lambda>r. dget r ''host'' = PStr x) (map hit_rec hits)"
  using assms
proof (induction hits arbitrary: im)
  case (Cons hit hits)
  then obtain im1 where "index_hit hit im = Inr im1" "index_hits hits im1 = Inr im'"
    by (auto simp: rbind_eq_Inr)
  with Cons.IH [of im1] index_hit_host [of hit im im1 x] Cons.prems(2) show ?case by simp
qed simp

lemma index_hits_append: "index_hits (a @ b) im = rbind (index_hits a im) (index_hits b)"
  by (induction a arbitrary: im) (auto simp: rbind_def split: sum.split)

section \<open>Paging\<close>

definition sort_key_of :: "pyval \<Rightarrow> pyval" where
  "sort_key_of d = (case d of PDict kv \<Rightarrow> dget_or kv ''sort'' PNone | _ \<Rightarrow> PNone)"

definition after_of :: "pyval list \<Rightarrow> nat \<Rightarrow> pyval" where
  "after_of docs i = (if i = 0 then PNone else sort_key_of (docs ! (i - 1)))"

definition page_of :: "pyval list \<Rightarrow> nat \<Rightarrow> pyval list" where
  "page_of docs i = take (nat (min LOAD_PAGE (LOAD_CAP - int i))) (drop i docs)"

definition load_request :: "es_writer \<Rightarrow> pyval list \<Rightarrow> nat \<Rightarrow> request" where
  "load_request es docs i =
     \<lparr>rq_method = u ''POST'', rq_url = es_url es @ u ''/'' @ INTEL_INDEX @ u ''/_search'',
      rq_body = JBody (load_query (int i) (after_of docs i))\<rparr>"

text \<open>
  What \<^verbatim>\<open>search_after\<close> promises: the page after the sort key of document \<open>i - 1\<close> starts at
  document \<open>i\<close>, and every document carries its sort key.
\<close>

definition pages_served :: "es_writer \<Rightarrow> pyval list \<Rightarrow> bool" where
  "pages_served es docs \<longleftrightarrow>
     (\<forall>h i. i \<le> length docs \<longrightarrow>
        (\<exists>reply. es_srv es h (load_request es docs i) = Resp 200 (BJson reply) \<and>
                 hits_of reply = Inr (page_of docs i))) \<and>
     list_all (\<lambda>d. (case d of PDict _ \<Rightarrow> True | _ \<Rightarrow> False) \<and> sort_key_of d \<noteq> PNone \<and> jsonable (sort_key_of d)) docs"

lemma page_search:
  assumes "pages_served es docs" "i \<le> length docs"
  shows "\<exists>reply h'. search_opt es INTEL_INDEX (load_query (int i) (after_of docs i)) h = (Inr (Some reply), h') \<and>
    hits_of reply = Inr (page_of docs i)"
proof -
  obtain reply where r: "es_srv es h (load_request es docs i) = Resp 200 (BJson reply)"
    "hits_of reply = Inr (page_of docs i)"
    using assms by (auto simp: pages_served_def)
  have "jsonable (after_of docs i)"
    using assms by (auto simp: pages_served_def after_of_def list_all_length)
  then have "jsonable (load_query (int i) (after_of docs i))"
    by (simp add: load_query_def)
  with r show ?thesis
    by (simp add: search_opt_def ecatch_def es_search_def es_send_def json_dumps_def send_request_def
        urlopen_def Let_def load_request_def ebind_def json_loads_def)
qed

lemma served_sort_key:
  assumes "pages_served es docs" "j < length docs"
  shows "vget_or (docs ! j) ''sort'' PNone = Inr (sort_key_of (docs ! j))" "sort_key_of (docs ! j) \<noteq> PNone"
proof -
  have d: "(case docs ! j of PDict _ \<Rightarrow> True | _ \<Rightarrow> False) \<and> sort_key_of (docs ! j) \<noteq> PNone"
    using assms by (simp add: pages_served_def list_all_length)
  then show "sort_key_of (docs ! j) \<noteq> PNone" by simp
  from d show "vget_or (docs ! j) ''sort'' PNone = Inr (sort_key_of (docs ! j))"
    by (cases "docs ! j") (simp_all add: vget_or_def sort_key_of_def)
qed

text \<open>The page at a position below the cap: where it ends and what comes after it.\<close>

lemma page_facts:
  assumes "i < length docs" "int i < LOAD_CAP"
  defines "n \<equiv> length (page_of docs i)"
  shows "0 < n" "i + n \<le> length docs" "last (page_of docs i) = docs ! (i + n - 1)"
    "drop i (take (nat LOAD_CAP) docs) = page_of docs i @ drop (i + n) (take (nat LOAD_CAP) docs)"
    "int n < min LOAD_PAGE (LOAD_CAP - int i) \<Longrightarrow> i + n = length docs"
proof -
  define m where "m = nat (min LOAD_PAGE (LOAD_CAP - int i))"
  have m: "0 < m" "int m = min LOAD_PAGE (LOAD_CAP - int i)" "i + m \<le> nat LOAD_CAP"
    using assms(2) by (auto simp: m_def LOAD_PAGE_def LOAD_CAP_def)
  have page: "page_of docs i = take m (drop i docs)" by (simp add: page_of_def m_def)
  have n: "n = min m (length docs - i)" by (simp add: n_def page)
  show "0 < n" "i + n \<le> length docs" using n m(1) assms(1) by auto
  then have ne: "page_of docs i \<noteq> []" by (auto simp: n_def)
  then have "last (page_of docs i) = page_of docs i ! (n - 1)" by (simp add: last_conv_nth n_def)
  also have "\<dots> = docs ! (i + n - 1)" using n m(1) assms(1) by (simp add: page)
  finally show "last (page_of docs i) = docs ! (i + n - 1)" .
  have "page_of docs i = take n (drop i (take (nat LOAD_CAP) docs))"
    using m(3) n by (simp add: page drop_take min_def)
  then show "drop i (take (nat LOAD_CAP) docs) = page_of docs i @ drop (i + n) (take (nat LOAD_CAP) docs)"
    by (metis append_take_drop_id drop_drop add.commute)
  show "int n < min LOAD_PAGE (LOAD_CAP - int i) \<Longrightarrow> i + n = length docs"
    using n m(2) assms(1) by linarith
qed

lemma load_pages_all:
  assumes "pages_served es docs" "i \<le> length docs"
  shows "fst (load_pages es (int i) (after_of docs i) im h) =
    rbind (index_hits (drop i (take (nat LOAD_CAP) docs)) im) (\<lambda>im'. Inr (im'\<lparr>im_loaded := True\<rparr>))"
  using assms(2)
proof (induction "length docs - i" arbitrary: i im h rule: less_induct)
  case less
  obtain reply h' where s: "search_opt es INTEL_INDEX (load_query (int i) (after_of docs i)) h = (Inr (Some reply), h')"
    "hits_of reply = Inr (page_of docs i)"
    using page_search [OF assms(1) less.prems] by blast
  consider (cap) "LOAD_CAP \<le> int i" | (stop) "\<not> LOAD_CAP \<le> int i" "i = length docs"
    | (page) "\<not> LOAD_CAP \<le> int i" "i < length docs" using less.prems by linarith
  then show ?case
  proof cases
    case cap
    then have "drop i (take (nat LOAD_CAP) docs) = []" by simp
    with cap show ?thesis by (simp add: load_pages.simps)
  next
    case stop
    with s show ?thesis by (subst load_pages.simps) (simp add: page_of_def)
  next
    case page
    define n where "n = length (page_of docs i)"
    have cap: "int i < LOAD_CAP" using page(1) by simp
    note F = page_facts [OF page(2) cap, folded n_def]
    have hits: "page_of docs i \<noteq> []" using F(1) by (auto simp: n_def)
    have after: "vget_or (last (page_of docs i)) ''sort'' PNone = Inr (after_of docs (i + n))"
      "after_of docs (i + n) \<noteq> PNone"
      using served_sort_key [OF assms(1), of "i + n - 1"] F(1-3) by (simp_all add: after_of_def)
    have step: "load_pages es (int i) (after_of docs i) im h =
        (case index_hits (page_of docs i) im of
           Inl e \<Rightarrow> (Inl e, h')
         | Inr im1 \<Rightarrow> if int n < min LOAD_PAGE (LOAD_CAP - int i) then (Inr (im1\<lparr>im_loaded := True\<rparr>), h')
             else load_pages es (int (i + n)) (after_of docs (i + n)) im1 h')"
      using page(1) s hits after
      by (subst load_pages.simps) (auto simp: n_def [symmetric] rbind_def split: sum.split)
    show ?thesis
    proof (cases "index_hits (page_of docs i) im")
      case (Inl e)
      with step F(4) show ?thesis by (simp add: index_hits_append)
    next
      case (Inr im1)
      show ?thesis
      proof (cases "int n < min LOAD_PAGE (LOAD_CAP - int i)")
        case True
        have "drop (i + n) (take (nat LOAD_CAP) docs) = []" using F(5) [OF True] by simp
        with F(4) have "drop i (take (nat LOAD_CAP) docs) = page_of docs i" by simp
        with True Inr step show ?thesis by simp
      next
        case False
        have "fst (load_pages es (int (i + n)) (after_of docs (i + n)) im1 h') =
            rbind (index_hits (drop (i + n) (take (nat LOAD_CAP) docs)) im1) (\<lambda>im'. Inr (im'\<lparr>im_loaded := True\<rparr>))"
          using F(1,2) page(2) by (intro less.hyps) auto
        with False Inr step F(4) show ?thesis by (auto simp: index_hits_append)
      qed
    qed
  qed
qed

section \<open>Properties\<close>

text \<open>
  The reader of the feeds gets back exactly the rows that were written: for rows of quoted
  fields (with quotes doubled) below the field limit, reading the lines returns the fields, whatever
  commas, quotes or spaces they hold.
\<close>

theorem csv_roundtrip:
  assumes "list_all (\<lambda>fs. fs \<noteq> [] \<and> list_all field_ok fs) rows"
  shows "csv_reader (map csv_row_text rows) = Inr rows"
proof -
  have "csv_lines csv_start (map csv_row_text rows) = Inr rows"
    using assms
  proof (induction rows)
    case Nil
    then show ?case by (simp add: csv_start_def)
  next
    case (Cons fs rows)
    have "csv_eol (fold csv_char (csv_row_text fs) csv_start) =
        csv_start\<lparr>c_state := StartRecord, c_fields := rev fs @ c_fields csv_start\<rparr>"
      using Cons.prems by (intro csv_row_fold) (auto simp: csv_start_def)
    with Cons show ?case by (simp add: csv_start_def)
  qed
  then show ?thesis by (simp add: csv_reader_def)
qed

text \<open>
  Loading the feed cache page by page is the same as indexing all of its documents at once, in
  order, up to the cap of 100,000: no document is skipped between two pages and none is read
  twice.  (The service is assumed to serve \<^verbatim>\<open>search_after\<close> pages as documented.)
\<close>

theorem load_indexes_complete:
  assumes "pages_served es docs"
  shows "fst (load_indexes es im h) =
    rbind (index_hits (take (nat LOAD_CAP) docs) (im\<lparr>im_urls := [], im_hosts := [], im_hashes := []\<rparr>))
      (\<lambda>im'. Inr (im'\<lparr>im_loaded := True\<rparr>))"
  using load_pages_all [OF assms, of 0 "im\<lparr>im_urls := [], im_hosts := [], im_hashes := []\<rparr>" h]
  by (simp add: load_indexes_def after_of_def)

lemma rmap_set: "rmap f xs = Inr ys \<Longrightarrow> set ys = {y. \<exists>x \<in> set xs. f x = Inr y}"
proof (induction xs arbitrary: ys)
  case (Cons x xs)
  then show ?case by (auto simp: rbind_eq_Inr)
qed simp

text \<open>
  Corroboration by host is complete and sound with respect to what was indexed: an indexed
  indicator whose host is the entity's (in lower case) is among the hits of the match, and its
  source among the sources, and every source reported is that of some hit.
\<close>

theorem intel_match_by_host:
  assumes "index_hits hits im = Inr im'" "im_hosts im = []" "py_lower E host = x" "x \<noteq> []" "host \<noteq> []"
    and "hit \<in> set hits" "dget (hit_rec hit) ''host'' = PStr x" "dget (hit_rec hit) ''source'' = PStr src"
    and "intel_match_of E im' host resolved us shas = Inr m"
  shows "src \<in> set (m_sources m) \<and>
    (\<exists>all. match_hits E im' host resolved us shas = Inr all \<and> hit_rec hit \<in> set all \<and>
       set (m_sources m) = {s. \<exists>r \<in> set all. dget r ''source'' = PStr s})"
proof -
  obtain all where all: "match_hits E im' host resolved us shas = Inr all"
    using assms(9) by (auto simp: intel_match_of_def rbind_eq_Inr)
  have "hit_rec hit \<in> set (host_recs im' x)"
    using index_hits_host [OF assms(1,4)] assms(6,7) by auto
  moreover obtain cands where c: "candidate_hosts E host resolved us = Inr cands"
    and "all = concat (map (\<lambda>x. opt_hit (map_of (im_urls im') (py_lower E x))) us)
        @ concat (map (host_recs im') cands)
        @ concat (map (\<lambda>s. opt_hit (map_of (im_hashes im') (py_lower E s))) shas)"
    using all by (auto simp: match_hits_def rbind_eq_Inr host_recs_def [abs_def])
  moreover have "x \<in> set cands"
    using c assms(3,5) by (auto simp: candidate_hosts_def rbind_eq_Inr set_dedupe_acc)
  ultimately have hit: "hit_rec hit \<in> set all" by auto
  then have "all \<noteq> []" by auto
  then obtain srcs sources where
    s: "rmap (\<lambda>r. vsub (PDict r) ''source'') all = Inr srcs" "texts srcs = Inr sources"
    and m: "m_sources m = sorted_set sources"
    using assms(9) all by (auto simp: intel_match_of_def rbind_eq_Inr)
  have "set sources = {t. PStr t \<in> set srcs}"
  proof -
    have "(case v of PStr s \<Rightarrow> Inr s | _ \<Rightarrow> Inl TypeError) = (Inr t :: pystr res) \<longleftrightarrow> v = PStr t" for v t
      by (cases v) auto
    then show ?thesis using rmap_set [OF s(2) [unfolded texts_def]] by auto
  qed
  moreover have "set srcs = {v. \<exists>r \<in> set all. vsub (PDict r) ''source'' = Inr v}"
    using rmap_set [OF s(1)] by simp
  moreover have "vsub (PDict r) ''source'' = Inr (PStr t) \<longleftrightarrow> dget r ''source'' = PStr t" for r t
    by (auto simp: vsub_def dget_def split: option.split)
  ultimately have "set (m_sources m) = {s. \<exists>r \<in> set all. dget r ''source'' = PStr s}"
    by (simp add: m)
  with hit assms(8) all show ?thesis by auto
qed

text \<open>
  Without a key the feeds are never touched: refreshing sends no request and leaves the
  indexes as they are.
\<close>

theorem intel_disabled_silent:
  assumes "\<not> ic_enabled (im_client im)"
  shows "\<exists>im'. intel_refresh E url_env es now im h = (Inr im', h) \<and> im_hosts im' = im_hosts im \<and>
    im_urls im' = im_urls im \<and> im_hashes im' = im_hashes im \<and> im_refreshed im' = []"
  using assms by (auto simp: intel_refresh_def Let_def split: option.split)

section \<open>Concrete feeds\<close>

theorem csv_roundtrip_witness:
  "csv_reader (map csv_row_text [[u ''a,b'', [34]], [[]]]) = Inr [[u ''a,b'', [34]], [[]]]"
  by (rule csv_roundtrip) (simp add: field_ok_def FIELD_LIMIT_def)

definition demo_ioc :: pydict where
  "demo_ioc = [(key ''source'', pstr ''feodo''), (key ''ioc_type'', pstr ''ip''),
     (key ''value'', pstr ''1.2.3.4:80''), (key ''host'', pstr ''1.2.3.4'')]"

definition demo_hit :: pyval where
  "demo_hit = pobj [(''_source'', PDict demo_ioc), (''sort'', PList [pstr ''1.2.3.4:80''])]"

definition demo_intel_srv :: server where
  "demo_intel_srv h rq =
     (case rq_body rq of
        JBody q \<Rightarrow> Resp 200 (BJson (pobj [(''hits'', pobj [(''hits'',
           PList (if vget q ''search_after'' = PNone then [demo_hit] else []))])]))
      | _ \<Rightarrow> UrlFail)"

definition demo_matcher :: intel_matcher where
  "demo_matcher = intel_matcher_init demo_env (intel_client_init demo_env (Some (u ''k'')) [] None []) 0 [] None None"

lemma demo_pages: "pages_served (demo_es demo_intel_srv) [demo_hit]"
proof -
  have "sort_key_of demo_hit \<noteq> PNone" "jsonable (sort_key_of demo_hit)"
    "(case demo_hit of PDict _ \<Rightarrow> True | _ \<Rightarrow> False)"
    by (simp_all add: sort_key_of_def demo_hit_def dget_or_def)
  moreover have "es_srv (demo_es demo_intel_srv) h (load_request (demo_es demo_intel_srv) [demo_hit] i) =
      Resp 200 (BJson (pobj [(''hits'', pobj [(''hits'', PList (page_of [demo_hit] i))])]))"
    if "i \<le> 1" for h i
    using that
    by (cases i)
      (auto simp: demo_es_def es_init_def demo_intel_srv_def load_request_def load_query_def vget_def
        dget_def page_of_def after_of_def sort_key_of_def demo_hit_def dget_or_def LOAD_PAGE_def LOAD_CAP_def)
  moreover have "hits_of (pobj [(''hits'', pobj [(''hits'', PList l)])]) = Inr l" for l
    by (simp add: hits_of_def vget_or_def dget_or_def viter_def)
  ultimately show ?thesis unfolding pages_served_def by auto
qed

lemma demo_index:
  "res_ok (\<lambda>im. im_hosts im = [(u ''1.2.3.4'', [demo_ioc])]) (index_hits [demo_hit] demo_matcher)"
  by code_simp

theorem load_indexes_complete_witness:
  "res_ok (\<lambda>im. im_loaded im \<and> im_hosts im = [(u ''1.2.3.4'', [demo_ioc])])
     (fst (load_indexes (demo_es demo_intel_srv) demo_matcher []))"
proof -
  have "demo_matcher\<lparr>im_urls := [], im_hosts := [], im_hashes := []\<rparr> = demo_matcher"
    by (simp add: demo_matcher_def intel_matcher_init_def)
  moreover have "take (nat LOAD_CAP) [demo_hit] = [demo_hit]" by (simp add: LOAD_CAP_def)
  ultimately show ?thesis
    using load_indexes_complete [OF demo_pages, of demo_matcher "[]"] demo_index
    by (auto simp: res_ok_iff)
qed

theorem intel_match_by_host_witness:
  "\<exists>im' m. index_hits [demo_hit] demo_matcher = Inr im' \<and>
     intel_match_of demo_env im' (u ''1.2.3.4'') [] [] [] = Inr m \<and> u ''feodo'' \<in> set (m_sources m)"
proof -
  obtain im' where im: "index_hits [demo_hit] demo_matcher = Inr im'" using demo_index by (auto elim: res_okE)
  have "res_ok (\<lambda>_. True) (rbind (index_hits [demo_hit] demo_matcher)
      (\<lambda>im'. intel_match_of demo_env im' (u ''1.2.3.4'') [] [] []))" by code_simp
  with im obtain m where m: "intel_match_of demo_env im' (u ''1.2.3.4'') [] [] [] = Inr m"
    by (auto elim: res_okE)
  have f: "im_hosts demo_matcher = []" "py_lower demo_env (u ''1.2.3.4'') = u ''1.2.3.4''"
    "dget (hit_rec demo_hit) ''host'' = PStr (u ''1.2.3.4'')" "dget (hit_rec demo_hit) ''source'' = pstr ''feodo''"
    by code_simp+
  show ?thesis
    using im m intel_match_by_host [OF im f(1,2) _ _ _ f(3,4) m] by auto
qed

theorem intel_disabled_silent_witness:
  "\<exists>im'. intel_refresh demo_env (\<lambda>_. None) (demo_es demo_intel_srv) None
     (demo_matcher\<lparr>im_client := intel_client_init demo_env None [] None []\<rparr>) [] = (Inr im', []) \<and> im_hosts im' = []"
proof -
  let ?im = "demo_matcher\<lparr>im_client := intel_client_init demo_env None [] None []\<rparr>"
  have "\<not> ic_enabled (im_client ?im)" by (simp add: intel_client_init_def Let_def)
  moreover have "im_hosts ?im = []" by (simp add: demo_matcher_def intel_matcher_init_def)
  ultimately show ?thesis
    using intel_disabled_silent [of ?im demo_env "\<lambda>_. None" "demo_es demo_intel_srv" None "[]"] by auto
qed

end
