(* ===== verification/Reason.thy ===== *)
theory Reason
  imports Intel Pipeline
begin

text \<open>
  \<^verbatim>\<open>services/reason/engine.py\<close>: one pass of the reason job, which rolls the ledger up into one
  document per C2 host, overlays what VirusTotal and the feeds say, and lets old entities expire.
  The paging loop has no bound of its own, so the number of pages it may ask for is an argument
  (fuel) and running out of it is the value None.
\<close>

section \<open>Stage and overlay\<close>

definition REASON_VERSION :: pystr where
  "REASON_VERSION = u ''r1''"

definition LEDGER :: pystr where
  "LEDGER = u ''stingarc2-*''"

definition KW :: "string list" where
  "KW = [''c2_host_kind'', ''c2_country'', ''c2_asn_org'']"

definition rank_to_stage :: "int \<Rightarrow> pystr" where
  "rank_to_stage rank =
     (if 2 \<le> rank then u ''stage2_c2'' else if rank = 1 then u ''stage1_serving'' else u ''unconfirmed'')"

text \<open>The two tables that ship with the package, with their keys in lower case.\<close>

definition load_known_shas :: "('x) ext_scheme \<Rightarrow> pystr list \<Rightarrow> pystr list" where
  "load_known_shas E raw = remdups (map (py_lower E) raw)"

definition load_hassh_toolkits :: "('x) ext_scheme \<Rightarrow> (pystr \<times> pystr) list \<Rightarrow> (pystr \<times> pystr) list" where
  "load_hassh_toolkits E raw = fold (\<lambda>(k, v). AList.update (py_lower E k) v) raw []"

definition toolkits_of :: "('x) ext_scheme \<Rightarrow> pystr list \<Rightarrow> (pystr \<times> pystr) list \<Rightarrow> pystr list" where
  "toolkits_of E hasshes tks =
     sorted_set (concat (map (\<lambda>h. case map_of tks (py_lower E h) of
        None \<Rightarrow> [] | Some t \<Rightarrow> if t = [] then [] else [t]) hasshes))"

definition compute_overlay ::
  "('x) ext_scheme \<Rightarrow> int \<Rightarrow> pystr list \<Rightarrow> pystr list \<Rightarrow> pystr list \<Rightarrow> pystr list
   \<Rightarrow> (pystr \<times> pystr) list \<Rightarrow> overlay" where
  "compute_overlay E max_rank fams shas known hasshes tks =
     (let signals = (if 2 \<le> max_rank then [u ''callback_in_malware''] else [])
                    @ (if list_ex (\<lambda>s. py_lower E s \<in> set known) shas then [u ''known_malware''] else []);
          ov = \<lparr>ov_stage = rank_to_stage max_rank, ov_signals = sort signals,
                ov_families = sorted_set (filter (\<lambda>f. f \<noteq> []) fams), ov_toolkit = None,
                ov_max_vt_ratio = None, ov_vt_families = None, ov_intel_sources = None,
                ov_intel_malware = None\<rparr>;
          toolkits = toolkits_of E hasshes tks
      in if toolkits = [] then ov
         else ov\<lparr>ov_toolkit := Some toolkits,
                 ov_signals := sorted_set (ov_signals ov @ [u ''hassh_toolkit''])\<rparr>)"

definition opt_field :: "string \<Rightarrow> ('a \<Rightarrow> pyval) \<Rightarrow> 'a option \<Rightarrow> (string \<times> pyval) list" where
  "opt_field k f v = (case v of None \<Rightarrow> [] | Some x \<Rightarrow> [(k, f x)])"

definition overlay_fields :: "overlay \<Rightarrow> (string \<times> pyval) list" where
  "overlay_fields ov =
     [(''stage'', PStr (ov_stage ov)), (''stage_signals'', pstrs (ov_signals ov)),
      (''families'', pstrs (ov_families ov))]
     @ opt_field ''attributed_toolkit'' pstrs (ov_toolkit ov)
     @ opt_field ''max_vt_ratio'' PFloat (ov_max_vt_ratio ov)
     @ opt_field ''vt_families'' PList (ov_vt_families ov)
     @ opt_field ''intel_sources'' pstrs (ov_intel_sources ov)
     @ opt_field ''intel_malware'' pstrs (ov_intel_malware ov)"

section \<open>One bucket\<close>

record pass_cfg =
  p_es :: es_writer
  p_geo :: geo_enricher
  p_intel :: intel_matcher
  p_known :: "pystr list"
  p_toolkits :: "(pystr \<times> pystr) list"
  p_min_mal :: int
  p_nowiso :: pystr
  p_since :: pystr

definition vsub2 :: "pyval \<Rightarrow> string \<Rightarrow> string \<Rightarrow> pyval res" where
  "vsub2 v a b = rbind (vsub v a) (\<lambda>x. vsub x b)"

definition bucket_keys :: "pyval \<Rightarrow> string \<Rightarrow> pystr list res" where
  "bucket_keys b k =
     rbind (vsub2 b k ''buckets'') (\<lambda>y. rbind (viter y) (rmap (\<lambda>x. rbind (vsub x ''key'') as_str)))"

definition vfirst :: "pyval \<Rightarrow> pyval res" where
  "vfirst v =
     (case v of PList (x # _) \<Rightarrow> Inr x | PStr (c # _) \<Rightarrow> Inr (PStr [c]) | PList [] \<Rightarrow> Inl IndexError
      | PDict _ \<Rightarrow> Inl KeyError | _ \<Rightarrow> Inl TypeError)"

definition bucket_metrics :: "pyval \<Rightarrow> pyval res" where
  "bucket_metrics b =
     rbind (vsub2 b ''latest'' ''top'') (\<lambda>top.
       if truthy top then rbind (vfirst top) (\<lambda>x. vsub x ''metrics'') else Inr (PDict []))"

definition latest_of :: "pyval \<Rightarrow> (string \<times> pyval) list res" where
  "latest_of metrics =
     rbind (rmap (\<lambda>k. rbind (vget_or metrics k PNone) (\<lambda>v. Inr (k, v))) KW) (\<lambda>kvs.
       Inr (filter (\<lambda>kv. snd kv \<noteq> PNone) kvs))"

record bucket_info =
  bi_host :: pystr
  bi_rank :: int
  bi_families :: "pystr list"
  bi_shas :: "pystr list"
  bi_hasshes :: "pystr list"
  bi_urls :: "pystr list"
  bi_resolved :: "pystr list"
  bi_metrics :: pyval

definition bucket_host :: "pyval \<Rightarrow> pystr res" where
  "bucket_host b = rbind (vsub2 b ''key'' ''c2_host'') as_str"

definition read_bucket :: "('x) ext_scheme \<Rightarrow> pyval \<Rightarrow> bucket_info res" where
  "read_bucket E b =
     rbind (bucket_host b) (\<lambda>host.
     rbind (vsub2 b ''max_rank'' ''value'') (\<lambda>r0.
     rbind (py_int E (vor r0 (PInt 0))) (\<lambda>rank.
     rbind (bucket_keys b ''families'') (\<lambda>fams.
     rbind (bucket_keys b ''shas'') (\<lambda>shas.
     rbind (bucket_keys b ''hasshes'') (\<lambda>hasshes.
     rbind (bucket_keys b ''urls'') (\<lambda>us.
     rbind (bucket_keys b ''resolved_ips'') (\<lambda>ips.
     rbind (bucket_metrics b) (\<lambda>metrics.
       Inr \<lparr>bi_host = host, bi_rank = rank, bi_families = fams, bi_shas = shas, bi_hasshes = hasshes,
            bi_urls = us, bi_resolved = ips, bi_metrics = metrics\<rparr>)))))))))"

text \<open>The columns of the rollup that come straight from the bucket, with the overlay.\<close>

definition rollup_fields ::
  "('x) ext_scheme \<Rightarrow> pass_cfg \<Rightarrow> pyval \<Rightarrow> bucket_info \<Rightarrow> overlay \<Rightarrow> (string \<times> pyval) list res" where
  "rollup_fields E P b bi ov =
     rbind (vsub2 b ''first_seen'' ''value_as_string'') (\<lambda>first.
     rbind (vsub2 b ''last_seen'' ''value_as_string'') (\<lambda>lst.
     rbind (vsub b ''doc_count'') (\<lambda>cnt.
     rbind (rbind (vsub2 b ''sensor_count'' ''value'') (py_int E)) (\<lambda>sensors.
     rbind (rbind (vsub2 b ''src_ip_count'' ''value'') (py_int E)) (\<lambda>srcs.
     rbind (rbind (vsub2 b ''distinct_files'' ''value'') (py_int E)) (\<lambda>nfiles.
     rbind (latest_of (bi_metrics bi)) (\<lambda>latest.
       Inr ([(''c2_host'', PStr (bi_host bi)),
             (''first_seen'', first),
             (''last_seen'', lst),
             (''sighting_count'', cnt),
             (''sensor_count'', PInt sensors),
             (''src_ip_count'', PInt srcs),
             (''distinct_files'', PInt nfiles),
             (''max_evidence_rank'', PInt (bi_rank bi)),
             (''latest'', pobj latest),
             (''reason_version'', PStr REASON_VERSION),
             (''updated_at'', PStr (p_nowiso P))] @ overlay_fields ov))))))))"

definition geo_value :: "rat \<times> rat option \<Rightarrow> pyval" where
  "geo_value p = pobj [(''lat'', PFloat (fst p)), (''lon'', popt PFloat (snd p))]"

text \<open>The location: the centroid of the ledger rows or, failing that, where the host is now.\<close>

definition add_location :: "pass_cfg \<Rightarrow> pyval \<Rightarrow> pystr \<Rightarrow> pydict \<Rightarrow> pydict res" where
  "add_location P b host doc =
     rbind (vsub b ''geo'') (\<lambda>g.
     rbind (vget_or g ''location'' PNone) (\<lambda>loc.
       if truthy loc then Inr (dset ''c2_geo'' loc doc)
       else if \<not> geo_enabled (p_geo P) then Inr doc
       else
         (let found = locate (p_geo P) host in
          case l_geo found of
            None \<Rightarrow> Inr doc
          | Some pt \<Rightarrow>
              (let doc1 = dset ''c2_geo'' (geo_value pt) doc;
                   latest = (case dget doc1 ''latest'' of PDict d \<Rightarrow> d | _ \<Rightarrow> [])
               in Inr (case l_country found of
                         Some c \<Rightarrow> if c \<noteq> [] \<and> \<not> dhas latest ''c2_country''
                                   then dset ''latest'' (PDict (dset ''c2_country'' (PStr c) latest)) doc1
                                   else doc1
                       | None \<Rightarrow> doc1)))))"

definition entity_doc ::
  "('x) ext_scheme \<Rightarrow> pass_cfg \<Rightarrow> pyval \<Rightarrow> bucket_info \<Rightarrow> overlay \<Rightarrow> pydict res" where
  "entity_doc E P b bi ov =
     rbind (rollup_fields E P b bi ov) (\<lambda>fields.
     rbind (vsub2 b ''asn'' ''value'') (\<lambda>a.
     rbind (if a = PNone then Inr (map (\<lambda>(k, v). (key k, v)) fields)
            else rbind (py_int E a) (\<lambda>n. Inr (dset ''c2_asn'' (PInt n) (map (\<lambda>(k, v). (key k, v)) fields))))
       (add_location P b (bi_host bi))))"

definition final_overlay ::
  "('x) ext_scheme \<Rightarrow> pass_cfg \<Rightarrow> bucket_info \<Rightarrow> vt_summary option \<Rightarrow> intel_match \<Rightarrow> overlay" where
  "final_overlay E P bi summary m =
     apply_intel
       (apply_vt
         (compute_overlay E (bi_rank bi) (bi_families bi) (bi_shas bi) (p_known P) (bi_hasshes bi) (p_toolkits P))
         summary (p_min_mal P)) m"

definition process_bucket ::
  "('x) env_scheme \<Rightarrow> pass_cfg \<Rightarrow> pyval \<Rightarrow> vt_resolver \<times> int \<Rightarrow> (history, vt_resolver \<times> int) eff" where
  "process_bucket E P b = (\<lambda>(vr, updated).
     ebind (elift (read_bucket E b)) (\<lambda>bi.
     ebind (verdicts_for E (p_es P) (bi_shas bi) vr) (\<lambda>(verdicts, vr').
     ebind (elift (summarize_vt E verdicts)) (\<lambda>summary.
     ebind (elift (intel_match_of E (p_intel P) (bi_host bi) (bi_resolved bi) (bi_urls bi) (bi_shas bi))) (\<lambda>m.
     ebind (elift (entity_doc E P b bi (final_overlay E P bi summary m))) (\<lambda>doc.
     ebind (index_doc (p_es P) ENTITIES_INDEX (bi_host bi) doc) (\<lambda>_.
       eret (vr', updated + 1))))))))"

section \<open>The pass\<close>

definition agg_field :: "string \<Rightarrow> string \<Rightarrow> string \<Rightarrow> string \<times> pyval" where
  "agg_field name f fld = (name, pobj [(f, pobj [(''field'', PStr (u fld))])])"

definition agg_terms :: "string \<Rightarrow> string \<Rightarrow> int \<Rightarrow> string \<times> pyval" where
  "agg_terms name fld n = (name, pobj [(''terms'', pobj [(''field'', PStr (u fld)), (''size'', PInt n)])])"

definition ledger_aggs :: pyval where
  "ledger_aggs = pobj
     [agg_field ''first_seen'' ''min'' ''ts'',
      agg_field ''last_seen'' ''max'' ''ts'',
      agg_field ''sensor_count'' ''cardinality'' ''sensor_hostname'',
      agg_field ''src_ip_count'' ''cardinality'' ''src_ip'',
      agg_field ''distinct_files'' ''cardinality'' ''sha256'',
      agg_field ''max_rank'' ''max'' ''evidence_rank'',
      agg_field ''asn'' ''max'' ''c2_asn'',
      agg_field ''geo'' ''geo_centroid'' ''c2_geo'',
      agg_terms ''families'' ''family'' 25,
      agg_terms ''shas'' ''sha256'' 200,
      agg_terms ''hasshes'' ''hassh'' 50,
      agg_terms ''urls'' ''c2_url'' 50,
      agg_terms ''resolved_ips'' ''c2_resolved_ip'' 50,
      (''latest'', pobj [(''top_metrics'', pobj
         [(''metrics'', PList (map (\<lambda>f. pobj [(''field'', PStr (u f))]) KW)),
          (''sort'', PList [pobj [(''ts'', pstr ''desc'')]])])])]"

definition ledger_query :: "pystr \<Rightarrow> pyval \<Rightarrow> pyval" where
  "ledger_query since after =
     (let comp = PDict (map (\<lambda>(k, v). (key k, v))
            ([(''size'', PInt 500),
              (''sources'', PList [pobj [(''c2_host'', pobj [(''terms'', pobj [(''field'', pstr ''c2_host'')])])]])]
             @ (if truthy after then [(''after'', after)] else [])))
      in pobj [(''size'', PInt 0),
               (''query'', pobj [(''range'', pobj [(''ts'', pobj [(''gte'', PStr since)])])]),
               (''aggs'', pobj [(''hosts'', pobj [(''composite'', comp), (''aggregations'', ledger_aggs)])])])"

definition read_page :: "pyval \<Rightarrow> (pyval list \<times> pyval) res" where
  "read_page reply =
     rbind (vsub2 reply ''aggregations'' ''hosts'') (\<lambda>agg.
     rbind (vget_or agg ''buckets'' (PList [])) (\<lambda>bs0.
     rbind (if truthy bs0 then viter bs0 else Inr []) (\<lambda>bs.
     rbind (vget_or agg ''after_key'' PNone) (\<lambda>after. Inr (bs, after)))))"

fun run_pages ::
  "nat \<Rightarrow> ('x) env_scheme \<Rightarrow> pass_cfg \<Rightarrow> pyval \<Rightarrow> vt_resolver \<times> int \<Rightarrow> history
   \<Rightarrow> ((vt_resolver \<times> int) res \<times> history) option" where
  "run_pages 0 E P after st h = None"
| "run_pages (Suc fuel) E P after st h =
     (case ebind (es_search (p_es P) LEDGER (ledger_query (p_since P) after)) (\<lambda>reply. elift (read_page reply)) h of
        (Inl e, h') \<Rightarrow> Some (Inl e, h')
      | (Inr (bs, after'), h') \<Rightarrow>
          if bs = [] then Some (Inr st, h')
          else (case efold (process_bucket E P) bs st h' of
                  (Inl e, h'') \<Rightarrow> Some (Inl e, h'')
                | (Inr st', h'') \<Rightarrow>
                    if truthy after' then run_pages fuel E P after' st' h'' else Some (Inr st', h'')))"

definition expire_query :: "pystr \<Rightarrow> pyval" where
  "expire_query since = pobj [(''query'', pobj [(''range'', pobj [(''last_seen'', pobj [(''lt'', PStr since)])])])]"

text \<open>
  \<^verbatim>\<open>run_once\<close>.  \<open>now\<close> is the instant with its text, \<open>since\<close> the text of the instant thirty days
  earlier; the matcher of \<open>P\<close> is replaced by the refreshed one.
\<close>

definition run_once ::
  "nat \<Rightarrow> ('x) env_scheme \<Rightarrow> (pystr \<Rightarrow> pystr option) \<Rightarrow> pass_cfg \<Rightarrow> vt_resolver \<Rightarrow> int \<times> pystr
   \<Rightarrow> history \<Rightarrow> (int res \<times> history) option" where
  "run_once fuel E url_env P vr now h =
     (case intel_refresh E url_env (p_es P) (Some now) (p_intel P) h of
        (Inl e, h1) \<Rightarrow> Some (Inl e, h1)
      | (Inr im, h1) \<Rightarrow>
          (case run_pages fuel E (P\<lparr>p_intel := im\<rparr>) PNone (vr, 0) h1 of
             None \<Rightarrow> None
           | Some (Inl e, h2) \<Rightarrow> Some (Inl e, h2)
           | Some (Inr (vr', updated), h2) \<Rightarrow>
               Some (ebind (delete_by_query (p_es P) ENTITIES_INDEX (expire_query (p_since P)))
                 (\<lambda>_. eret updated) h2)))"

lemmas reason_eval [py_eval] = REASON_VERSION_def LEDGER_def KW_def rank_to_stage_def
  load_known_shas_def load_hassh_toolkits_def toolkits_of_def compute_overlay_def opt_field_def
  overlay_fields_def vsub2_def bucket_keys_def vfirst_def bucket_metrics_def latest_of_def
  bucket_host_def read_bucket_def rollup_fields_def geo_value_def add_location_def entity_doc_def
  final_overlay_def process_bucket_def agg_field_def agg_terms_def ledger_aggs_def ledger_query_def
  read_page_def expire_query_def run_once_def

section \<open>What is upserted\<close>

definition entity_url :: "es_writer \<Rightarrow> pystr" where
  "entity_url es = es_url es @ u ''/'' @ ENTITIES_INDEX @ u ''/_doc/''"

definition accepted_put :: "outcome \<Rightarrow> bool" where
  "accepted_put out = (case out of Resp c _ \<Rightarrow> c < 300 | HttpFail c _ \<Rightarrow> c < 300 | _ \<Rightarrow> False)"

text \<open>The entity documents the service took, by address.\<close>

definition upserts :: "es_writer \<Rightarrow> history \<Rightarrow> pystr list" where
  "upserts es h = map (\<lambda>e. rq_url (fst e)) (filter (\<lambda>e. rq_method (fst e) = u ''PUT'' \<and>
     startswith (rq_url (fst e)) (entity_url es) \<and> accepted_put (snd e)) h)"

lemma upserts_append [simp]: "upserts es (h @ h') = upserts es h @ upserts es h'"
  by (simp add: upserts_def)

definition same_upserts :: "es_writer \<Rightarrow> history \<Rightarrow> history \<Rightarrow> bool" where
  "same_upserts es h h' \<longleftrightarrow> upserts es h' = upserts es h"

interpretation still: state_order "same_upserts es" for es
  by unfold_locales (auto simp: same_upserts_def)

definition not_entity :: "es_writer \<Rightarrow> request \<Rightarrow> bool" where
  "not_entity es rq \<longleftrightarrow> rq_method rq \<noteq> u ''PUT'' \<or> \<not> startswith (rq_url rq) (entity_url es)"

lemma upserts_other: "not_entity es rq \<Longrightarrow> upserts es [(rq, out)] = []"
  by (auto simp: upserts_def not_entity_def)

lemma send_request_still: "not_entity es rq \<Longrightarrow> pres (same_upserts es) (send_request es rq)"
  by (rule presI)
    (auto simp: send_request_def urlopen_def Let_def same_upserts_def upserts_other split: outcome.splits)

lemma es_send_still:
  "m \<noteq> u ''PUT'' \<or> \<not> startswith (es_url es @ u ''/'' @ p) (entity_url es) \<Longrightarrow>
   pres (same_upserts es) (es_send es m p b)"
  unfolding es_send_def
  by (intro still.pres_bind still.pres_pure send_request_still) (auto simp: not_entity_def)

lemma es_search_still: "pres (same_upserts es) (es_search es idx q)"
  unfolding es_search_def
  by (intro still.pres_bind es_send_still) (auto intro: still.pres_pure)

lemma vt_index_still: "pres (same_upserts es) (index_doc es VT_INDEX i d)"
proof -
  have "\<not> startswith (es_url es @ u ''/'' @ VT_INDEX @ u ''/_doc/'' @ q) (entity_url es)" for q
    by (simp add: startswith_def entity_url_def VT_INDEX_def ENTITIES_INDEX_def u_def)
  then show ?thesis
    unfolding index_doc_def
    by (intro still.pres_bind es_send_still still.pres_pure) (auto intro: still.pres_pure)
qed

lemma vt_lookup_still: "pres (same_upserts es) (vt_lookup E net cl s t)"
  by (rule presI)
    (auto simp: vt_lookup_def urlopen_def Let_def same_upserts_def upserts_other not_entity_def vt_request_def)

lemma resolve_one_still: "pres (same_upserts es) (resolve_one E es s vr)"
  unfolding resolve_one_def
  by (auto intro!: still.pres_bind still.pres_pure vt_lookup_still vt_index_still split: option.split)

lemma read_cache_still: "pres (same_upserts es) (read_cache E es vr shas)"
  unfolding read_cache_def
  by (intro still.pres_bind still.pres_catch es_search_still still.pres_pure)
    (auto intro: still.pres_pure split: option.splits if_splits)

lemma verdicts_for_still: "pres (same_upserts es) (verdicts_for E es shas vr)"
  unfolding verdicts_for_def Let_def
  by (intro still.pres_bind still.pres_if still.pres_fold still.pres_pure resolve_one_still
      read_cache_still)

definition bucket_url :: "es_writer \<Rightarrow> pyval \<Rightarrow> pystr" where
  "bucket_url es b =
     entity_url es @ (case rbind (bucket_host b) quote of Inr q \<Rightarrow> q | Inl _ \<Rightarrow> [])"

lemma index_entity:
  assumes "index_doc es ENTITIES_INDEX host doc h = (Inr (), h')" "bucket_host b = Inr host"
  shows "upserts es h' = upserts es h @ [bucket_url es b]"
proof -
  obtain q where q: "quote host = Inr q"
    using assms(1) by (cases "quote host") (auto simp: index_doc_def ebind_def)
  let ?rq = "\<lparr>rq_method = u ''PUT'', rq_url = entity_url es @ q, rq_body = JBody (PDict doc)\<rparr>"
  obtain code resp where s: "send_request es ?rq h = (Inr (code, resp), h')" "code < 300"
    using assms(1) q
    by (auto simp: index_doc_def es_send_def json_dumps_def ebind_eq_Inr entity_url_def split: if_splits)
  have "startswith (entity_url es @ q) (entity_url es)" by (simp add: startswith_def)
  moreover have "bucket_url es b = entity_url es @ q" by (simp add: bucket_url_def assms(2) q)
  ultimately show ?thesis
    using s by (auto simp: send_request_def urlopen_def Let_def upserts_def accepted_put_def split: outcome.splits)
qed

lemma process_bucket_upserts:
  assumes "process_bucket E P b (vr, n) h = (Inr (vr', n'), h')"
  shows "upserts (p_es P) h' = upserts (p_es P) h @ [bucket_url (p_es P) b] \<and> n' = n + 1"
proof -
  obtain bi vs vr1 h1 doc where b: "read_bucket E b = Inr bi"
    and v: "verdicts_for E (p_es P) (bi_shas bi) vr h = (Inr (vs, vr1), h1)"
    and i: "index_doc (p_es P) ENTITIES_INDEX (bi_host bi) doc h1 = (Inr (), h')" and n: "n' = n + 1"
    using assms by (auto simp: process_bucket_def ebind_eq_Inr)
  have "bucket_host b = Inr (bi_host bi)" using b by (auto simp: read_bucket_def rbind_eq_Inr)
  from index_entity [OF i this] presD [OF verdicts_for_still v] n show ?thesis
    by (simp add: same_upserts_def)
qed

lemma process_buckets_upserts:
  assumes "efold (process_bucket E P) bs st h = (Inr st', h')"
  shows "upserts (p_es P) h' = upserts (p_es P) h @ map (bucket_url (p_es P)) bs \<and>
    snd st' = snd st + int (length bs)"
  using assms
proof (induction bs arbitrary: st h)
  case (Cons b bs)
  obtain vr n where st: "st = (vr, n)" by (cases st)
  from Cons.prems st obtain st1 h1 where p: "process_bucket E P b (vr, n) h = (Inr st1, h1)"
    and r: "efold (process_bucket E P) bs st1 h1 = (Inr st', h')"
    by (auto simp: ebind_eq_Inr)
  obtain vr1 n1 where st1: "st1 = (vr1, n1)" by (cases st1)
  from process_bucket_upserts [OF p [unfolded st1]] Cons.IH [OF r] show ?case
    by (simp add: st st1)
qed simp

section \<open>Composite paging\<close>

definition bucket_after :: "pyval list \<Rightarrow> nat \<Rightarrow> pyval" where
  "bucket_after bs i = (if i = 0 then PNone else vget (bs ! (i - 1)) ''key'')"

definition page_request :: "pass_cfg \<Rightarrow> pyval list \<Rightarrow> nat \<Rightarrow> request" where
  "page_request P bs i =
     \<lparr>rq_method = u ''POST'', rq_url = es_url (p_es P) @ u ''/'' @ LEDGER @ u ''/_search'',
      rq_body = JBody (ledger_query (p_since P) (bucket_after bs i))\<rparr>"

text \<open>
  What a composite aggregation promises: asked for the buckets after the key of bucket \<open>i - 1\<close>, it
  answers with the next five hundred and the key of the last of them.
\<close>

definition buckets_served :: "pass_cfg \<Rightarrow> pyval list \<Rightarrow> bool" where
  "buckets_served P bs \<longleftrightarrow>
     (\<forall>h i. i \<le> length bs \<longrightarrow>
        (\<exists>reply. es_srv (p_es P) h (page_request P bs i) = Resp 200 (BJson reply) \<and>
           read_page reply = Inr (take 500 (drop i bs), if i = length bs then PNone
             else bucket_after bs (min (i + 500) (length bs))))) \<and>
     list_all (\<lambda>b. truthy (vget b ''key'') \<and> jsonable (vget b ''key'')) bs"

lemma ledger_query_jsonable: "jsonable after \<Longrightarrow> jsonable (ledger_query since after)"
  by (simp add: ledger_query_def ledger_aggs_def agg_field_def agg_terms_def KW_def)

lemma page_read:
  assumes "buckets_served P bs" "i \<le> length bs"
  shows "\<exists>h'. ebind (es_search (p_es P) LEDGER (ledger_query (p_since P) (bucket_after bs i)))
      (\<lambda>reply. elift (read_page reply)) h =
    (Inr (take 500 (drop i bs), if i = length bs then PNone else bucket_after bs (min (i + 500) (length bs))), h')"
proof -
  obtain reply where r: "es_srv (p_es P) h (page_request P bs i) = Resp 200 (BJson reply)"
    "read_page reply = Inr (take 500 (drop i bs), if i = length bs then PNone
       else bucket_after bs (min (i + 500) (length bs)))"
    using assms by (auto simp: buckets_served_def)
  have "jsonable (bucket_after bs i)"
    using assms by (auto simp: buckets_served_def bucket_after_def list_all_length)
  then have j: "jsonable (ledger_query (p_since P) (bucket_after bs i))" by (rule ledger_query_jsonable)
  show ?thesis
    using r j by (simp add: es_search_def es_send_def json_dumps_def send_request_def urlopen_def Let_def
        page_request_def ebind_def json_loads_def)
qed

lemma page_quiet:
  assumes "ebind (es_search es idx q) (\<lambda>reply. elift (f reply)) h = (r, h')"
  shows "upserts es h' = upserts es h"
  using presD [OF still.pres_bind [OF es_search_still still.pres_pure(3)] assms]
  by (simp add: same_upserts_def)

lemma run_pages_upserts:
  assumes "buckets_served P bs" "i \<le> length bs" "length bs - i < fuel"
    and "run_pages fuel E P (bucket_after bs i) st h = r"
  shows "\<exists>res h'. r = Some (res, h') \<and> (\<forall>st'. res = Inr st' \<longrightarrow>
    upserts (p_es P) h' = upserts (p_es P) h @ map (bucket_url (p_es P)) (drop i bs) \<and>
    snd st' = snd st + int (length bs - i))"
  using assms(2-4)
proof (induction fuel arbitrary: i st h)
  case (Suc fuel)
  let ?page = "take 500 (drop i bs)" and ?next = "min (i + 500) (length bs)"
  obtain h1 where p: "ebind (es_search (p_es P) LEDGER (ledger_query (p_since P) (bucket_after bs i)))
      (\<lambda>reply. elift (read_page reply)) h =
      (Inr (?page, if i = length bs then PNone else bucket_after bs ?next), h1)"
    using page_read [OF assms(1) Suc.prems(1)] by blast
  have q: "upserts (p_es P) h1 = upserts (p_es P) h" using p by (rule page_quiet)
  show ?case
  proof (cases "i = length bs")
    case True
    with p q Suc.prems(3) show ?thesis by auto
  next
    case False
    with Suc.prems(1) have i: "i < length bs" by simp
    have key: "truthy (bucket_after bs ?next)"
      using assms(1) i by (auto simp: buckets_served_def bucket_after_def list_all_length)
    obtain r1 h2 where f: "efold (process_bucket E P) ?page st h1 = (r1, h2)"
      by (cases "efold (process_bucket E P) ?page st h1")
    show ?thesis
    proof (cases r1)
      case (Inl e)
      with p f i Suc.prems(3) show ?thesis by auto
    next
      case (Inr st1)
      have u: "upserts (p_es P) h2 = upserts (p_es P) h1 @ map (bucket_url (p_es P)) ?page"
        "snd st1 = snd st + int (length ?page)"
        using process_buckets_upserts [OF f [unfolded Inr]] by auto
      have rest: "run_pages fuel E P (bucket_after bs ?next) st1 h2 = r"
        using Suc.prems(3) p f Inr key i by simp
      have "length bs - ?next < fuel" using Suc.prems(2) i by auto
      from Suc.IH [OF _ this rest] obtain res h' where R: "r = Some (res, h')"
        "\<forall>st'. res = Inr st' \<longrightarrow>
           upserts (p_es P) h' = upserts (p_es P) h2 @ map (bucket_url (p_es P)) (drop ?next bs) \<and>
           snd st' = snd st1 + int (length bs - ?next)" by auto
      have "drop i bs = ?page @ drop ?next bs"
        by (metis add.commute append_take_drop_id drop_all drop_drop min_def nle_le)
      then have D: "map (bucket_url (p_es P)) (drop i bs) =
          map (bucket_url (p_es P)) ?page @ map (bucket_url (p_es P)) (drop ?next bs)"
        by (metis map_append)
      have L: "int (length ?page) + int (length bs - ?next) = int (length bs - i)"
        using i by auto
      show ?thesis
        unfolding D L [symmetric] R(1)
        using R(2) u q by (intro exI [of _ res] exI [of _ h']) (simp add: add.assoc)
    qed
  qed
qed simp

section \<open>Properties\<close>

lemma compute_overlay_signals:
  "set (ov_signals (compute_overlay E r fams shas known hasshes tks)) =
     (if 2 \<le> r then {u ''callback_in_malware''} else {}) \<union>
     (if list_ex (\<lambda>s. py_lower E s \<in> set known) shas then {u ''known_malware''} else {}) \<union>
     (if toolkits_of E hasshes tks \<noteq> [] then {u ''hassh_toolkit''} else {})"
  by (auto simp: compute_overlay_def Let_def)

text \<open>
  Third parties never move the stage: whatever VirusTotal, the feeds, the known-hash list and
  the toolkit table say, an entity's stage is a function of its strongest evidence alone, and each
  of them shows up as its own signal and as nothing else.
\<close>

theorem stage_from_evidence_alone:
  "ov_stage (final_overlay E P bi summary m) = rank_to_stage (bi_rank bi) \<and>
   set (ov_signals (final_overlay E P bi summary m)) =
     (if 2 \<le> bi_rank bi then {u ''callback_in_malware''} else {}) \<union>
     (if list_ex (\<lambda>s. py_lower E s \<in> set (p_known P)) (bi_shas bi) then {u ''known_malware''} else {}) \<union>
     (if toolkits_of E (bi_hasshes bi) (p_toolkits P) \<noteq> [] then {u ''hassh_toolkit''} else {}) \<union>
     (case summary of Some s \<Rightarrow> if p_min_mal P \<le> vs_malicious s then {u ''virustotal''} else {} | None \<Rightarrow> {}) \<union>
     set (m_sources m)"
proof
  have "ov_stage (compute_overlay E r fams shas known hasshes tks) = rank_to_stage r" for r fams shas known hasshes tks
    by (simp add: compute_overlay_def Let_def)
  then show "ov_stage (final_overlay E P bi summary m) = rank_to_stage (bi_rank bi)"
    by (simp add: final_overlay_def apply_intel_def apply_vt_def Let_def split: option.split)
  have intel: "set (ov_signals (apply_intel ov m)) = set (ov_signals ov) \<union> set (m_sources m)" for ov
    by (auto simp: apply_intel_def)
  have vt: "set (ov_signals (apply_vt ov summary k)) = set (ov_signals ov) \<union>
      (case summary of Some s \<Rightarrow> if k \<le> vs_malicious s then {u ''virustotal''} else {} | None \<Rightarrow> {})" for ov k
    by (auto simp: apply_vt_def Let_def split: option.split)
  show "set (ov_signals (final_overlay E P bi summary m)) =
     (if 2 \<le> bi_rank bi then {u ''callback_in_malware''} else {}) \<union>
     (if list_ex (\<lambda>s. py_lower E s \<in> set (p_known P)) (bi_shas bi) then {u ''known_malware''} else {}) \<union>
     (if toolkits_of E (bi_hasshes bi) (p_toolkits P) \<noteq> [] then {u ''hassh_toolkit''} else {}) \<union>
     (case summary of Some s \<Rightarrow> if p_min_mal P \<le> vs_malicious s then {u ''virustotal''} else {} | None \<Rightarrow> {}) \<union>
     set (m_sources m)"
    unfolding final_overlay_def intel vt compute_overlay_signals ..
qed

text \<open>
  C30. A pass that succeeds upserts exactly one document per C2 host of the window, in the order of
  the aggregation, and returns their number; and with fuel for one page more than there are hosts
  it never runs out.  (The service is assumed to page composite aggregations as documented.)
\<close>

theorem pass_upserts_every_host_once:
  assumes "buckets_served P bs" "length bs < fuel"
  shows "\<exists>res h'. run_pages fuel E P PNone (vr, 0) h = Some (res, h') \<and>
    (\<forall>vr' n. res = Inr (vr', n) \<longrightarrow>
       n = int (length bs) \<and>
       upserts (p_es P) h' = upserts (p_es P) h @ map (bucket_url (p_es P)) bs)"
  using run_pages_upserts [OF assms(1), of 0 fuel E "(vr, 0)" h] assms(2)
  by (fastforce simp: bucket_after_def)

definition ENTITY_FIELDS :: "string list" where
  "ENTITY_FIELDS =
     [''c2_host'', ''first_seen'', ''last_seen'', ''sighting_count'', ''sensor_count'', ''src_ip_count'',
      ''distinct_files'', ''max_evidence_rank'', ''latest'', ''reason_version'', ''updated_at'', ''stage'',
      ''stage_signals'', ''families'', ''attributed_toolkit'', ''max_vt_ratio'', ''vt_families'',
      ''intel_sources'', ''intel_malware'', ''c2_asn'', ''c2_geo'']"

lemma entity_fields_mapped:
  "list_all (\<lambda>k. vget (template_properties ENTITIES_TEMPLATE) k \<noteq> PNone) ENTITY_FIELDS"
  by code_simp

lemma keys_dset: "fst ` set (dset k v d) = insert (key k) (fst ` set d)"
  by (induction d) (auto simp: dset_def)

lemma add_location_shape:
  assumes "add_location P b host d = Inr doc"
  shows "doc = d \<or> (\<exists>v. doc = dset ''c2_geo'' v d) \<or> (\<exists>v w. doc = dset ''latest'' w (dset ''c2_geo'' v d))"
  using assms
  by (auto simp: add_location_def rbind_eq_Inr Let_def split: if_splits option.splits)

lemma entity_doc_keys:
  assumes "entity_doc E P b bi ov = Inr doc" "kv \<in> set doc"
  shows "fst kv \<in> key ` set ENTITY_FIELDS"
proof -
  obtain fields a d where f: "rollup_fields E P b bi ov = Inr fields"
    and d: "d = map (\<lambda>(k, v). (key k, v)) fields \<or> (\<exists>n. d = dset ''c2_asn'' (PInt n) (map (\<lambda>(k, v). (key k, v)) fields))"
    and l: "add_location P b (bi_host bi) d = Inr doc"
    using assms(1) by (auto simp: entity_doc_def rbind_eq_Inr split: if_splits)
  have "fst ` set fields \<subseteq> set ENTITY_FIELDS"
    using f by (auto simp: rollup_fields_def rbind_eq_Inr overlay_fields_def opt_field_def ENTITY_FIELDS_def
        split: option.splits)
  then have "fst ` set (map (\<lambda>(k, v). (key k, v)) fields) \<subseteq> key ` set ENTITY_FIELDS" by force
  moreover have extra: "key ''c2_asn'' \<in> key ` set ENTITY_FIELDS"
    "key ''c2_geo'' \<in> key ` set ENTITY_FIELDS" "key ''latest'' \<in> key ` set ENTITY_FIELDS"
    by (simp_all add: ENTITY_FIELDS_def)
  ultimately have A: "fst ` set d \<subseteq> key ` set ENTITY_FIELDS"
    using d by (elim disjE exE) (simp_all only: keys_dset insert_subset simp_thms)
  have B: "fst ` set doc \<subseteq> fst ` set d \<union> {key ''c2_geo'', key ''latest''}"
    using add_location_shape [OF l]
    by (elim disjE exE) (simp_all add: keys_dset subset_insertI2 subset_insertI)
  have "fst ` set d \<union> {key ''c2_geo'', key ''latest''} \<subseteq> key ` set ENTITY_FIELDS"
    using A extra by (simp only: Un_subset_iff insert_subset empty_subsetI simp_thms)
  with B have "fst ` set doc \<subseteq> key ` set ENTITY_FIELDS" by (rule order_trans)
  then show ?thesis using imageI [OF assms(2), of fst] by (rule subsetD)
qed

text \<open>
  Every field the reason job writes into an entity is one the entity template maps, whatever the
  ledger, VirusTotal and the feeds contributed.
\<close>

theorem entity_fields_covered:
  assumes "entity_doc E P b bi ov = Inr doc" "kv \<in> set doc"
  shows "\<exists>k. fst kv = key k \<and> vget (template_properties ENTITIES_TEMPLATE) k \<noteq> PNone"
  using entity_doc_keys [OF assms] entity_fields_mapped by (auto simp: list_all_iff)

section \<open>A concrete pass\<close>

definition value_of :: "pyval \<Rightarrow> pyval" where
  "value_of v = pobj [(''value'', v), (''value_as_string'', pstr ''t'')]"

definition no_terms :: pyval where
  "no_terms = pobj [(''buckets'', PList [])]"

definition demo_bucket :: pyval where
  "demo_bucket = pobj [(''key'', pobj [(''c2_host'', pstr ''h'')]), (''doc_count'', PInt 1),
     (''first_seen'', value_of PNone), (''last_seen'', value_of PNone), (''sensor_count'', value_of (PInt 1)),
     (''src_ip_count'', value_of (PInt 1)), (''distinct_files'', value_of (PInt 0)),
     (''max_rank'', value_of (PFloat 1)), (''asn'', value_of PNone), (''geo'', PDict []),
     (''families'', no_terms), (''shas'', no_terms), (''hasshes'', no_terms), (''urls'', no_terms),
     (''resolved_ips'', no_terms), (''latest'', pobj [(''top'', PList [])])]"

definition demo_pass_srv :: server where
  "demo_pass_srv h rq =
     (case rq_body rq of
        JBody q \<Rightarrow>
          if rq_method rq = u ''PUT'' then Resp 201 (BText [])
          else (let after = vget (vget (vget (vget q ''aggs'') ''hosts'') ''composite'') ''after'' in
                Resp 200 (BJson (pobj [(''aggregations'', pobj [(''hosts'',
                  if after = PNone then pobj [(''buckets'', PList [demo_bucket]), (''after_key'', pobj [(''c2_host'', pstr ''h'')])]
                  else pobj [(''buckets'', PList [])])])])))
      | _ \<Rightarrow> UrlFail)"

definition demo_pass :: pass_cfg where
  "demo_pass = \<lparr>p_es = demo_es demo_pass_srv, p_geo = \<lparr>g_city = None, g_asn = None\<rparr>, p_intel = demo_matcher,
     p_known = [], p_toolkits = [], p_min_mal = 1, p_nowiso = u ''now'', p_since = u ''then''\<rparr>"

lemma demo_buckets: "buckets_served demo_pass [demo_bucket]"
proof -
  have k: "vget demo_bucket ''key'' = pobj [(''c2_host'', pstr ''h'')]"
    by (simp add: vget_def demo_bucket_def dget_def)
  have s: "es_srv (p_es demo_pass) = demo_pass_srv" by (simp add: demo_pass_def demo_es_def es_init_def)
  have "\<exists>reply. demo_pass_srv h (page_request demo_pass [demo_bucket] i) = Resp 200 (BJson reply) \<and>
      read_page reply = Inr (take 500 (drop i [demo_bucket]), if i = length [demo_bucket] then PNone
        else bucket_after [demo_bucket] (min (i + 500) (length [demo_bucket])))"
    if "i \<le> 1" for h i
    using that
    by (cases i)
      (simp_all add: demo_pass_srv_def page_request_def bucket_after_def ledger_query_def Let_def
        vget_def dget_def k [unfolded vget_def] read_page_def vsub2_def vsub_def vget_or_def dget_or_def viter_def)
  with k s show ?thesis by (simp add: buckets_served_def)
qed

theorem pass_upserts_every_host_once_witness:
  "\<exists>vr' h'. run_pages 2 demo_env demo_pass PNone (demo_resolver, 0) [] = Some (Inr (vr', 1), h') \<and>
     upserts (p_es demo_pass) h' = [u ''http://es:9200/c2-entities/_doc/h'']"
proof -
  have "(case run_pages 2 demo_env demo_pass PNone (demo_resolver, 0) [] of
      Some (r, _) \<Rightarrow> res_ok (\<lambda>_. True) r | None \<Rightarrow> False)" by code_simp
  then obtain vr' n h' where r: "run_pages 2 demo_env demo_pass PNone (demo_resolver, 0) [] = Some (Inr (vr', n), h')"
    by (auto simp: res_ok_iff split: option.splits)
  have u0: "bucket_url (p_es demo_pass) demo_bucket = u ''http://es:9200/c2-entities/_doc/h''" by code_simp
  have "n = 1" "upserts (p_es demo_pass) h' = [u ''http://es:9200/c2-entities/_doc/h'']"
    using pass_upserts_every_host_once [OF demo_buckets, of 2 demo_env demo_resolver "[]"] r u0
    by (auto simp: upserts_def)
  with r show ?thesis by blast
qed

theorem entity_fields_covered_witness:
  "\<exists>bi doc. read_bucket demo_env demo_bucket = Inr bi \<and>
     entity_doc demo_env demo_pass demo_bucket bi
       (final_overlay demo_env demo_pass bi None \<lparr>m_sources = [], m_malware = [], m_tags = []\<rparr>) = Inr doc \<and>
     (\<exists>k. fst (hd doc) = key k \<and> vget (template_properties ENTITIES_TEMPLATE) k \<noteq> PNone)"
proof -
  let ?ov = "\<lambda>bi. final_overlay demo_env demo_pass bi None \<lparr>m_sources = [], m_malware = [], m_tags = []\<rparr>"
  have "res_ok (\<lambda>doc. doc \<noteq> []) (rbind (read_bucket demo_env demo_bucket)
      (\<lambda>bi. entity_doc demo_env demo_pass demo_bucket bi (?ov bi)))" by code_simp
  then obtain bi doc where d: "read_bucket demo_env demo_bucket = Inr bi"
    "entity_doc demo_env demo_pass demo_bucket bi (?ov bi) = Inr doc" "doc \<noteq> []"
    by (auto simp: res_ok_iff rbind_eq_Inr)
  from d(3) have "hd doc \<in> set doc" by simp
  from entity_fields_covered [OF d(2) this] d show ?thesis by blast
qed

end
