(* ===== verification/Feed.thy ===== *)
theory Feed
  imports Reason
begin

text \<open>
  \<^verbatim>\<open>services/feed/server.py\<close>: the HTTP blocklist over the entity index.  A reply is its status,
  its body (a text, or the JSON value the text denotes) and its content type; the body of a HEAD
  request is not sent.
\<close>

section \<open>urllib.parse.parse_qs\<close>

definition hex_val :: "int \<Rightarrow> int option" where
  "hex_val c =
     (if ascii_digit c then Some (c - 48)
      else if 97 \<le> c \<and> c \<le> 102 then Some (c - 87)
      else if 65 \<le> c \<and> c \<le> 70 then Some (c - 55) else None)"

text \<open>The bytes of a run of ASCII characters, with its percent escapes decoded.\<close>

fun unquote_bytes :: "pystr \<Rightarrow> bytes" where
  "unquote_bytes (c # a # b # s) =
     (case (hex_val a, hex_val b) of
        (Some x, Some y) \<Rightarrow> if c = 37 then word_of_int (16 * x + y) # unquote_bytes s
                            else word_of_int c # unquote_bytes (a # b # s)
      | _ \<Rightarrow> word_of_int c # unquote_bytes (a # b # s))"
| "unquote_bytes (c # s) = word_of_int c # unquote_bytes s"
| "unquote_bytes [] = []"

definition decode_repl :: "('x) env_scheme \<Rightarrow> bytes \<Rightarrow> pystr" where
  "decode_repl E bs = (if list_all (\<lambda>b. uint b < 128) bs then map uint bs else decode_replace E bs)"

function unquote_text :: "('x) env_scheme \<Rightarrow> pystr \<Rightarrow> pystr" where
  "unquote_text E [] = []"
| "unquote_text E (c # s) =
     (if c < 128
      then decode_repl E (unquote_bytes (takeWhile (\<lambda>x. x < 128) (c # s)))
           @ unquote_text E (dropWhile (\<lambda>x. x < 128) s)
      else c # unquote_text E s)"
  by pat_completeness auto
termination
  by (relation "measure (\<lambda>(E, s). length s)") (auto simp: le_imp_less_Suc length_dropWhile_le)

definition parse_pair :: "('x) env_scheme \<Rightarrow> pystr \<Rightarrow> (pystr \<times> pystr) list" where
  "parse_pair E nv =
     (case split1 61 nv of
        (k, Some v) \<Rightarrow>
          if v = [] then []
          else [(unquote_text E (replace_char 43 [32] k), unquote_text E (replace_char 43 [32] v))]
      | (_, None) \<Rightarrow> [])"

definition parse_qs :: "('x) env_scheme \<Rightarrow> pystr \<Rightarrow> (pystr \<times> pystr) list" where
  "parse_qs E qs = (if qs = [] then [] else concat (map (parse_pair E) (split_on 38 qs)))"

text \<open>\<^verbatim>\<open>qs.get(k, [d])[0]\<close>: the first value given for the key.\<close>

definition qs_first :: "(pystr \<times> pystr) list \<Rightarrow> string \<Rightarrow> pystr option" where
  "qs_first qs k = map_of qs (u k)"

section \<open>server.py\<close>

definition STAGE_ORDER :: "pystr list" where
  "STAGE_ORDER = [u ''unconfirmed'', u ''stage1_serving'', u ''stage2_c2'']"

definition WINDOW_RE :: rx where
  "WINDOW_RE = rseq [RBos, rplus (In [Digit]), RChr (In (oneof ''smhd'')), REos]"

definition DEFAULT_WINDOW :: pystr where
  "DEFAULT_WINDOW = u ''7d''"

definition DEFAULT_MIN_STAGE :: int where
  "DEFAULT_MIN_STAGE = 1"

definition DEFAULT_LIMIT :: int where
  "DEFAULT_LIMIT = 5000"

definition MAX_LIMIT :: int where
  "MAX_LIMIT = 10000"

definition FEED_SOURCE :: "string list" where
  "FEED_SOURCE =
     [''c2_host'', ''stage'', ''stage_signals'', ''families'', ''first_seen'', ''last_seen'',
      ''sighting_count'', ''sensor_count'', ''src_ip_count'', ''distinct_files'',
      ''max_evidence_rank'', ''max_vt_ratio'', ''latest.c2_host_kind'', ''latest.c2_country'',
      ''latest.c2_asn_org'']"

definition stages_at_or_above :: "int \<Rightarrow> pystr list" where
  "stages_at_or_above min_rank =
     map fst (filter (\<lambda>(s, r). min_rank \<le> r) (zip STAGE_ORDER [0, 1, 2]))"

text \<open>
  \<^verbatim>\<open>_is_ip\<close> on what a document may hold: \<^verbatim>\<open>ip_address\<close> takes a text or a number in the range of
  an IPv6 address.
\<close>

definition feed_is_ip :: "pyval \<Rightarrow> bool" where
  "feed_is_ip v =
     (case v of
        PStr s \<Rightarrow> is_ip s
      | PInt n \<Rightarrow> 0 \<le> n \<and> n < 2 ^ 128
      | PBool _ \<Rightarrow> True
      | _ \<Rightarrow> False)"

text \<open>The addresses in the order they are met; \<^verbatim>\<open>True\<close> and \<^verbatim>\<open>1\<close> are the same member of a set.\<close>

definition set_key :: "pyval \<Rightarrow> pyval" where
  "set_key v = (case v of PBool b \<Rightarrow> PInt (if b then 1 else 0) | _ \<Rightarrow> v)"

fun feed_ips :: "pyval list \<Rightarrow> pyval list \<Rightarrow> pyval list" where
  "feed_ips seen [] = []"
| "feed_ips seen (v # vs) =
     (if feed_is_ip v \<and> set_key v \<notin> set seen then v # feed_ips (set_key v # seen) vs
      else feed_ips seen vs)"

definition valid_window :: "('x) ext_scheme \<Rightarrow> pystr \<Rightarrow> pystr" where
  "valid_window E w = (if rx_match (str_class E) False WINDOW_RE w = None then DEFAULT_WINDOW else w)"

definition feed_query :: "int \<Rightarrow> pystr \<Rightarrow> int \<Rightarrow> pyval" where
  "feed_query min_stage window limit =
     pobj [(''size'', PInt limit),
           (''_source'', PList (map (\<lambda>f. PStr (u f)) FEED_SOURCE)),
           (''query'', pobj [(''bool'', pobj [(''filter'', PList
              [pobj [(''terms'', pobj [(''stage'', pstrs (stages_at_or_above min_stage))])],
               pobj [(''range'', pobj [(''last_seen'', pobj [(''gte'', PStr (u ''now-'' @ window))])])]])])]),
           (''sort'', PList [pobj [(''last_seen'', pstr ''desc'')]])]"

definition entity_summary :: "pydict \<Rightarrow> pyval \<Rightarrow> pyval \<Rightarrow> pyval res" where
  "entity_summary src host latest =
     rbind (vget_or latest ''c2_host_kind'' PNone) (\<lambda>kind.
     rbind (vget_or latest ''c2_country'' PNone) (\<lambda>country.
     rbind (vget_or latest ''c2_asn_org'' PNone) (\<lambda>org.
       Inr (pobj
         [(''c2_host'', host),
          (''kind'', kind),
          (''stage'', dget src ''stage''),
          (''stage_signals'', dget_or src ''stage_signals'' (PList [])),
          (''families'', dget_or src ''families'' (PList [])),
          (''first_seen'', dget src ''first_seen''),
          (''last_seen'', dget src ''last_seen''),
          (''sighting_count'', dget src ''sighting_count''),
          (''sensor_count'', dget src ''sensor_count''),
          (''src_ip_count'', dget src ''src_ip_count''),
          (''distinct_files'', dget src ''distinct_files''),
          (''max_evidence_rank'', dget src ''max_evidence_rank''),
          (''max_vt_ratio'', dget src ''max_vt_ratio''),
          (''country'', country),
          (''asn_org'', org)]))))"

text \<open>One hit: nothing if it has no host, else its summary.\<close>

definition feed_hit :: "pyval \<Rightarrow> (pyval \<times> pyval) option res" where
  "feed_hit h =
     rbind (vget_or h ''_source'' (PDict [])) (\<lambda>s.
       case s of
         PDict src \<Rightarrow>
           (let host = dget src ''c2_host'' in
            if \<not> truthy host then Inr None
            else rbind (entity_summary src host (vor (dget_or src ''latest'' (PDict [])) (PDict []))) (\<lambda>e.
              Inr (Some (host, e))))
       | _ \<Rightarrow> Inl AttributeError)"

record feed =
  fd_min_stage :: pystr
  fd_window :: pystr
  fd_limit :: int
  fd_ips :: "pyval list"
  fd_entities :: "pyval list"

definition build_feed ::
  "('x) env_scheme \<Rightarrow> es_writer \<Rightarrow> int \<Rightarrow> pystr \<Rightarrow> int \<Rightarrow> (history, feed) eff" where
  "build_feed E es min_stage0 window0 limit0 =
     (let window = valid_window E window0;
          min_stage = max 0 (min min_stage0 2);
          limit = max 1 (min limit0 MAX_LIMIT) in
      ebind (es_search es ENTITIES_INDEX (feed_query min_stage window limit)) (\<lambda>reply.
      elift (rbind (hits_of reply) (\<lambda>hs.
             rbind (rmap feed_hit hs) (\<lambda>rs.
               (let kept = List.map_filter (\<lambda>r. r) rs in
                Inr \<lparr>fd_min_stage = STAGE_ORDER ! nat min_stage, fd_window = window, fd_limit = limit,
                     fd_ips = feed_ips [] (map fst kept),
                     fd_entities = map snd kept\<rparr>))))))"

definition render_blocklist :: "feed \<Rightarrow> pystr res" where
  "render_blocklist fd =
     rbind (texts (fd_ips fd)) (\<lambda>ips.
       Inr (py_join (u ''\<newline>'')
          ([u ''# c2-engine blocklist '' @ [8212] @ u '' active C2 IPs from honeypot-observed evidence'',
            u ''# stage>='' @ fd_min_stage fd @ u ''  window=last '' @ fd_window fd @ u ''  ips=''
              @ dec_digits (length (fd_ips fd)) @ u ''  entities='' @ dec_digits (length (fd_entities fd)),
            u ''# source: c2-engine /feed/blocklist.txt (decaying c2-entities view)''] @ ips)
          @ u ''\<newline>''))"

definition feed_json :: "feed \<Rightarrow> pyval" where
  "feed_json fd =
     pobj [(''params'', pobj [(''min_stage'', PStr (fd_min_stage fd)), (''window'', PStr (fd_window fd)),
                              (''limit'', PInt (fd_limit fd))]),
           (''count'', PInt (int (length (fd_entities fd)))),
           (''ips'', PList (fd_ips fd)),
           (''entities'', PList (fd_entities fd))]"

record params =
  q_min_stage :: int
  q_window :: pystr
  q_limit :: int

definition qs_int :: "('x) ext_scheme \<Rightarrow> (pystr \<times> pystr) list \<Rightarrow> string \<Rightarrow> int \<Rightarrow> int" where
  "qs_int E qs k dflt = env_int E (qs_first qs k) dflt"

definition feed_params :: "('x) ext_scheme \<Rightarrow> (pystr \<times> pystr) list \<Rightarrow> params" where
  "feed_params E qs =
     \<lparr>q_min_stage = qs_int E qs ''stage'' DEFAULT_MIN_STAGE,
      q_window = (case qs_first qs ''window'' of Some w \<Rightarrow> w | None \<Rightarrow> DEFAULT_WINDOW),
      q_limit = qs_int E qs ''limit'' DEFAULT_LIMIT\<rparr>"

record reply =
  r_code :: int
  r_body :: body
  r_type :: pystr

definition plain :: "int \<Rightarrow> pystr \<Rightarrow> reply" where
  "plain code s = \<lparr>r_code = code, r_body = BText s, r_type = u ''text/plain; charset=utf-8''\<rparr>"

definition USAGE :: pystr where
  "USAGE = u ''c2-engine feed\<newline>'' @ u ''  GET /feed/blocklist.txt   active C2 IPs (one per line)\<newline>''
     @ u ''  GET /feed/c2.json         full entity summaries\<newline>''
     @ u ''  params: ?stage=1|2 ?window=7d ?limit=N\<newline>''"

text \<open>The text of an exception is a parameter, \<open>exc_text\<close>.\<close>

definition feed_reply ::
  "('x) env_scheme \<Rightarrow> (pyerr \<Rightarrow> pystr) \<Rightarrow> es_writer \<Rightarrow> pystr \<Rightarrow> (pystr \<times> pystr) list \<Rightarrow> (history, reply) eff"
where
  "feed_reply E exc_text es path qs =
     (let q = feed_params E qs in
      ebind (ecatch (ebind (build_feed E es (q_min_stage q) (q_window q) (q_limit q)) (\<lambda>fd. eret (Inr fd)))
               (\<lambda>e. Some (eret (Inl e)))) (\<lambda>r.
        case r of
          Inl e \<Rightarrow> eret (plain 503 (u ''feed unavailable: '' @ exc_text e @ u ''\<newline>''))
        | Inr fd \<Rightarrow>
            if path = u ''/feed/blocklist.txt''
            then ebind (elift (render_blocklist fd)) (\<lambda>s. eret (plain 200 s))
            else eret \<lparr>r_code = 200, r_body = BJson (feed_json fd), r_type = u ''application/json''\<rparr>))"

definition do_GET :: "('x) env_scheme \<Rightarrow> (pyerr \<Rightarrow> pystr) \<Rightarrow> es_writer \<Rightarrow> pystr \<Rightarrow> (history, reply) eff" where
  "do_GET E exc_text es target =
     ebind (elift (urlsplit E target)) (\<lambda>parts.
       (let p0 = rstrip_if (\<lambda>c. c = 47) (sr_path parts); path = (if p0 = [] then u ''/'' else p0);
            qs = parse_qs E (sr_query parts) in
        if path = u ''/healthz'' then eret (plain 200 (u ''ok\<newline>''))
        else if path \<in> {u ''/'', u ''/feed''} then eret (plain 200 USAGE)
        else if path \<notin> {u ''/feed/blocklist.txt'', u ''/feed/c2.json''} then eret (plain 404 (u ''not found\<newline>''))
        else feed_reply E exc_text es path qs))"

text \<open>
  \<^verbatim>\<open>_send\<close>: the status, and the payload unless the request is a HEAD.  The text is encoded first,
  which fails on a lone surrogate.
\<close>

definition feed_send :: "('x) env_scheme \<Rightarrow> pystr \<Rightarrow> reply \<Rightarrow> (int \<times> pystr \<times> bytes option) res" where
  "feed_send E command r =
     rbind (utf8_encode (case r_body r of BText s \<Rightarrow> s | BJson v \<Rightarrow> json_text E v @ u ''\<newline>'')) (\<lambda>payload.
       Inr (r_code r, r_type r, if command = u ''HEAD'' then None else Some payload))"

lemmas feed_eval [py_eval] = hex_val_def decode_repl_def parse_pair_def parse_qs_def qs_first_def
  STAGE_ORDER_def WINDOW_RE_def DEFAULT_WINDOW_def DEFAULT_MIN_STAGE_def DEFAULT_LIMIT_def
  MAX_LIMIT_def FEED_SOURCE_def stages_at_or_above_def feed_is_ip_def set_key_def valid_window_def
  feed_query_def entity_summary_def feed_hit_def build_feed_def render_blocklist_def feed_json_def
  qs_int_def feed_params_def plain_def USAGE_def feed_reply_def do_GET_def feed_send_def

section \<open>The window\<close>

lemma reps_class:
  assumes "q \<in> set (reps n lo hi g (rxs K ic (RChr cs)) p)"
  shows "\<exists>ds. p_rest p = ds @ p_rest q \<and> list_all (\<lambda>c. cset_mem K ic c cs) ds \<and> lo \<le> length ds"
  using assms
proof (induction n arbitrary: lo hi p)
  case (Suc n)
  have step: "\<exists>ds. p_rest p = ds @ p_rest q \<and> list_all (\<lambda>c. cset_mem K ic c cs) ds \<and> Suc lo' \<le> length ds"
    if p': "p' \<in> set (rxs K ic (RChr cs) p)" and q: "q \<in> set (reps n lo' hi' g (rxs K ic (RChr cs)) p')" for p' lo' hi'
  proof -
    obtain c where c: "p_rest p = c # p_rest p'" "cset_mem K ic c cs"
      using p' by (cases "p_rest p") (auto simp: advance_def split: if_splits)
    obtain ds where "p_rest p' = ds @ p_rest q" "list_all (\<lambda>c. cset_mem K ic c cs) ds" "lo' \<le> length ds"
      using Suc.IH [OF q] by blast
    with c show ?thesis by (intro exI [of _ "c # ds"]) auto
  qed
  show ?case
  proof (cases "0 < lo")
    case True
    with Suc.prems obtain p' where "p' \<in> set (rxs K ic (RChr cs) p)"
      "q \<in> set (reps n (lo - 1) (dec hi) g (rxs K ic (RChr cs)) p')" by (auto simp del: rxs.simps)
    from step [OF this] True show ?thesis by simp
  next
    case False
    then consider "q = p" | p' where "p' \<in> set (rxs K ic (RChr cs) p)"
        "q \<in> set (reps n 0 (dec hi) g (rxs K ic (RChr cs)) p')"
      using Suc.prems by (auto simp: Let_def simp del: rxs.simps split: if_splits)
    then show ?thesis
    proof cases
      case 1
      with False show ?thesis by (intro exI [of _ "[]"]) simp
    next
      case 2
      from step [OF 2] False show ?thesis by (metis gr0I less_eq_nat.simps(1))
    qed
  qed
qed (auto split: if_splits)

lemma window_shape:
  assumes "rx_match (str_class E) False WINDOW_RE w = Some m"
  shows "\<exists>ds c tl. w = ds @ [c] @ tl \<and> ds \<noteq> [] \<and> list_all (is_decimal E) ds \<and> c \<in> set (u ''smhd'') \<and>
    (tl = [] \<or> tl = [10])"
proof -
  let ?K = "str_class E" and ?p = "start_pos w"
  obtain q where "rxm ?K False WINDOW_RE ?p Some = Some q"
    using assms by (auto simp: rx_match_def rx_at_def start_pos_def split: option.splits)
  then have "q \<in> set (rxs ?K False WINDOW_RE ?p)"
    by (auto simp: rxm_rxs dest: first_some_SomeD)
  then obtain a b where a: "a \<in> set (reps (1 + length w) 1 None True (rxs ?K False (RChr (In [Digit]))) ?p)"
    and b: "b \<in> set (rxs ?K False (RChr (In (oneof ''smhd''))) a)" and e: "at_end b"
    by (auto simp: WINDOW_RE_def rseq_def start_pos_def simp del: reps.simps One_nat_def split: if_splits)
  obtain ds where ds: "w = ds @ p_rest a" "list_all (is_decimal E) ds" "1 \<le> length ds"
    using reps_class [OF a] by (auto simp: start_pos_def str_class_def list_all_iff)
  obtain c where c: "p_rest a = c # p_rest b" "c \<in> set (u ''smhd'')"
    using b by (cases "p_rest a") (auto simp: advance_def oneof_def u_def split: if_splits)
  show ?thesis
    using ds c e by (intro exI [of _ ds] exI [of _ c] exI [of _ "p_rest b"]) (auto simp: at_end_def)
qed

definition window_ok :: "('x) ext_scheme \<Rightarrow> pystr \<Rightarrow> bool" where
  "window_ok E w \<longleftrightarrow> (\<exists>ds c tl. w = ds @ [c] @ tl \<and> ds \<noteq> [] \<and> list_all (is_decimal E) ds \<and>
     c \<in> set (u ''smhd'') \<and> (tl = [] \<or> tl = [10]))"

definition ascii_digits_known :: "('x) ext_scheme \<Rightarrow> bool" where
  "ascii_digits_known E \<longleftrightarrow> is_decimal E 55"

lemma valid_window_ok:
  assumes "ascii_digits_known E"
  shows "window_ok E (valid_window E w)"
proof (cases "rx_match (str_class E) False WINDOW_RE w")
  case None
  have "DEFAULT_WINDOW = [55] @ [100] @ []" "(100 :: int) \<in> set (u ''smhd'')"
    by (simp_all add: DEFAULT_WINDOW_def u_def)
  with None assms show ?thesis
    unfolding window_ok_def valid_window_def ascii_digits_known_def
    by (intro exI [of _ "[55]"] exI [of _ 100] exI [of _ "[]"]) simp
next
  case (Some m)
  with window_shape [OF Some] show ?thesis by (simp add: valid_window_def window_ok_def)
qed

section \<open>The query\<close>

definition feed_request :: "es_writer \<Rightarrow> int \<Rightarrow> pystr \<Rightarrow> int \<Rightarrow> request" where
  "feed_request es st w n =
     \<lparr>rq_method = u ''POST'', rq_url = es_url es @ u ''/'' @ ENTITIES_INDEX @ u ''/_search'',
      rq_body = JBody (feed_query st w n)\<rparr>"

lemma feed_query_jsonable [simp]: "jsonable (feed_query st w n)"
  by (simp add: feed_query_def pstrs_def list_all_iff FEED_SOURCE_def)

lemma es_search_history:
  assumes "jsonable q" "es_search es idx q h = (r, h')"
  shows "\<exists>out. h' = h @ [(\<lparr>rq_method = u ''POST'', rq_url = es_url es @ u ''/'' @ idx @ u ''/_search'',
    rq_body = JBody q\<rparr>, out)]"
  using assms
  by (auto simp: es_search_def es_send_def json_dumps_def ebind_def send_request_def urlopen_def Let_def
      split: outcome.splits sum.splits prod.splits if_splits)

lemma build_feed_history:
  assumes "build_feed E es st w n h = (r, h')"
  shows "\<exists>out. h' = h @ [(feed_request es (max 0 (min st 2)) (valid_window E w) (max 1 (min n MAX_LIMIT)), out)]"
proof -
  obtain r0 where "es_search es ENTITIES_INDEX
      (feed_query (max 0 (min st 2)) (valid_window E w) (max 1 (min n MAX_LIMIT))) h = (r0, h')"
    using assms by (auto simp: build_feed_def Let_def ebind_def split: prod.splits sum.splits)
  from es_search_history [OF feed_query_jsonable this] show ?thesis by (simp add: feed_request_def)
qed

lemma feed_reply_history:
  assumes "feed_reply E exc_text es path qs h = (r, h')"
  shows "\<exists>r0. build_feed E es (q_min_stage (feed_params E qs)) (q_window (feed_params E qs))
    (q_limit (feed_params E qs)) h = (r0, h')"
  using assms by (auto simp: feed_reply_def Let_def ebind_def ecatch_def split: prod.splits sum.splits if_splits)

text \<open>
  Whatever a client asks for, the feed sends Elasticsearch at most one request, and it is the
  entity search with a size between 1 and 10000, a stage filter that is one of the three ladders
  and a window that is digits and a unit (with a newline at most behind it): no other text of the
  query string reaches the query.
\<close>

theorem feed_query_bounded:
  assumes "do_GET E exc_text es target h = (r, h')" "ascii_digits_known E"
  shows "h' = h \<or> (\<exists>st w n out. h' = h @ [(feed_request es st w n, out)] \<and>
    0 \<le> st \<and> st \<le> 2 \<and> 1 \<le> n \<and> n \<le> 10000 \<and> window_ok E w)"
proof (cases "h' = h")
  case False
  with assms(1) obtain path qs where "feed_reply E exc_text es path qs h = (r, h')"
    by (auto simp: do_GET_def ebind_def Let_def split: sum.splits if_splits)
  from feed_reply_history [OF this] obtain r0 st w n where "build_feed E es st w n h = (r0, h')" by blast
  from build_feed_history [OF this] obtain out where
    "h' = h @ [(feed_request es (max 0 (min st 2)) (valid_window E w) (max 1 (min n MAX_LIMIT)), out)]" ..
  with valid_window_ok [OF assms(2), of w] show ?thesis
    by (intro disjI2 exI conjI) (assumption | simp add: MAX_LIMIT_def)+
qed simp

section \<open>The blocklist\<close>

lemma feed_ips_spec:
  "set (feed_ips seen vs) \<subseteq> {v \<in> set vs. feed_is_ip v}"
  "distinct (map set_key (feed_ips seen vs))"
  "set_key ` set (feed_ips seen vs) = set_key ` {v \<in> set vs. feed_is_ip v} - set seen"
  by (induction seen vs rule: feed_ips.induct) auto

lemma kept_hosts:
  assumes "rmap feed_hit hs = Inr rs"
  shows "map (\<lambda>e. vget_or e ''c2_host'' PNone) (map snd (List.map_filter (\<lambda>r. r) rs)) =
    map Inr (map fst (List.map_filter (\<lambda>r. r) rs))"
  using assms
proof (induction hs arbitrary: rs)
  case (Cons h hs)
  then obtain r rs' where r: "feed_hit h = Inr r" "rmap feed_hit hs = Inr rs'" "rs = r # rs'"
    by (auto simp: rbind_eq_Inr)
  have "vget_or e ''c2_host'' PNone = Inr host" if "r = Some (host, e)" for host e
    using r(1) that
    by (auto simp: feed_hit_def Let_def entity_summary_def rbind_eq_Inr vget_or_def dget_or_def u_def
        split: pyval.splits if_splits)
  with Cons.IH [OF r(2)] show ?case
    by (cases r) (auto simp: r(3) List.map_filter_def)
qed (simp add: List.map_filter_def)

text \<open>
  C39. The addresses of a feed are exactly the hosts of its entities that are IP addresses, each
  listed once.
\<close>

theorem blocklist_exact:
  assumes "build_feed E es st w n h = (Inr fd, h')"
  shows "\<exists>hosts. map (\<lambda>e. vget_or e ''c2_host'' PNone) (fd_entities fd) = map Inr hosts \<and>
    set (fd_ips fd) \<subseteq> {v \<in> set hosts. feed_is_ip v} \<and> distinct (map set_key (fd_ips fd)) \<and>
    set_key ` set (fd_ips fd) = set_key ` {v \<in> set hosts. feed_is_ip v}"
proof -
  obtain hs rs where rs: "rmap feed_hit hs = Inr rs"
    and fd: "fd_ips fd = feed_ips [] (map fst (List.map_filter (\<lambda>r. r) rs))"
      "fd_entities fd = map snd (List.map_filter (\<lambda>r. r) rs)"
    using assms by (auto simp: build_feed_def Let_def ebind_eq_Inr rbind_eq_Inr)
  show ?thesis
    unfolding fd kept_hosts [OF rs]
    by (intro exI [of _ "map fst (List.map_filter (\<lambda>r. r) rs)"] conjI refl feed_ips_spec)
      (simp add: feed_ips_spec(3))
qed

text \<open>
  A request for the feed answers 503 exactly when the query or the reading of its answer
  failed, and no failure of theirs escapes the handler; only the rendering of the text list can
  raise, and only when an address of the index is not a text.
\<close>

theorem feed_unavailable_iff:
  assumes "build_feed E es (q_min_stage (feed_params E qs)) (q_window (feed_params E qs))
      (q_limit (feed_params E qs)) h = (b, h')"
    and "feed_reply E exc_text es path qs h = (r, h'')"
  shows "((\<exists>x. r = Inr x \<and> r_code x = 503) \<longleftrightarrow> (\<exists>e. b = Inl e)) \<and> h'' = h' \<and>
    (\<forall>e. r = Inl e \<longrightarrow> path = u ''/feed/blocklist.txt'' \<and>
      (\<exists>fd. b = Inr fd \<and> (\<exists>v \<in> set (fd_ips fd). \<forall>s. v \<noteq> PStr s)))"
proof -
  have texts_ok: "\<exists>v \<in> set vs. \<forall>s. v \<noteq> PStr s" if "texts vs = Inl e" for vs e
    using that unfolding texts_def
    by (induction vs) (auto simp: rbind_eq_Inl split: pyval.splits)
  show ?thesis
    using assms
    by (auto simp: feed_reply_def Let_def ebind_def ecatch_def plain_def render_blocklist_def rbind_eq_Inl
        split: sum.splits if_splits dest: texts_ok)
qed

section \<open>Witnesses\<close>

definition feed_srv :: server where
  "feed_srv h rq = Resp 200 (BJson (pobj [(''hits'', pobj [(''hits'', PList
     [pobj [(''_source'', pobj [(''c2_host'', pstr ''1.2.3.4'')])],
      pobj [(''_source'', pobj [(''c2_host'', pstr ''evil.io'')])],
      pobj [(''_source'', pobj [(''c2_host'', pstr ''1.2.3.4'')])]])])]))"

theorem feed_query_bounded_witness:
  "\<exists>r h' out st w n. do_GET demo_env (\<lambda>_. []) (demo_es feed_srv) (u ''/feed/c2.json?limit=999999999&window=1y'') [] = (r, h') \<and>
     h' = [(feed_request (demo_es feed_srv) st w n, out)] \<and> n \<le> 10000 \<and> window_ok demo_env w"
proof -
  let ?m = "do_GET demo_env (\<lambda>_. []) (demo_es feed_srv) (u ''/feed/c2.json?limit=999999999&window=1y'') []"
  obtain r h' where m: "?m = (r, h')" by (cases ?m)
  have "snd ?m \<noteq> []" "ascii_digits_known demo_env" by code_simp+
  with feed_query_bounded [OF m] m show ?thesis by fastforce
qed

theorem blocklist_exact_witness:
  "\<exists>fd h'. build_feed demo_env (demo_es feed_srv) 1 (u ''7d'') 10 [] = (Inr fd, h') \<and>
     length (fd_entities fd) = 3 \<and> length (fd_ips fd) = 1 \<and> distinct (map set_key (fd_ips fd))"
proof -
  let ?m = "build_feed demo_env (demo_es feed_srv) 1 (u ''7d'') 10 []"
  have "res_ok (\<lambda>fd. length (fd_entities fd) = 3 \<and> length (fd_ips fd) = 1) (fst ?m)" by code_simp
  then obtain fd h' where "?m = (Inr fd, h')" "length (fd_entities fd) = 3" "length (fd_ips fd) = 1"
    by (cases ?m) (auto simp: res_ok_iff)
  with blocklist_exact [OF this(1)] show ?thesis by blast
qed

theorem feed_unavailable_iff_witness:
  "\<exists>x h'. feed_reply demo_env (\<lambda>_. []) (demo_es (\<lambda>h rq. UrlFail)) (u ''/feed/c2.json'') [] [] = (Inr x, h') \<and>
     r_code x = 503 \<and> length h' = 1"
proof -
  let ?es = "demo_es (\<lambda>h rq. UrlFail)" and ?q = "feed_params demo_env []"
  let ?b = "build_feed demo_env ?es (q_min_stage ?q) (q_window ?q) (q_limit ?q) []"
  obtain b h' where b: "?b = (b, h')" by (cases ?b)
  obtain r h'' where r: "feed_reply demo_env (\<lambda>_. []) ?es (u ''/feed/c2.json'') [] [] = (r, h'')"
    by (cases "feed_reply demo_env (\<lambda>_. []) ?es (u ''/feed/c2.json'') [] []")
  have "\<not> res_ok (\<lambda>_. True) (fst ?b)" "length (snd ?b) = 1" by code_simp+
  with b have "\<exists>e. b = Inl e" "length h' = 1" by (cases b; auto simp: res_ok_def)+
  with feed_unavailable_iff [OF b r] r show ?thesis by auto
qed

end
