(* ===== verification/Py_Machine.thy ===== *)
theory Py_Machine
  imports Main
begin

text \<open>
  Machines that take one event after the other, as the services and plugins do: a step is a total
  function of the event and the state.  Two contracts and what follows from them for sequences of
  events: an invariant, and the independence of the parts of a state that belong to different keys.
\<close>

locale invariant_machine =
  fixes step :: "'e \<Rightarrow> 's \<Rightarrow> 's" and inv :: "'s \<Rightarrow> bool" and ok :: "'e \<Rightarrow> bool"
  assumes keeps: "inv s \<Longrightarrow> ok e \<Longrightarrow> inv (step e s)"
begin

lemma always: "inv s \<Longrightarrow> list_all ok es \<Longrightarrow> inv (fold step es s)"
  by (induction es arbitrary: s) (auto intro: keeps)

end

text \<open>
  The part of the state an event does not belong to stays as it is, and the part it belongs to
  changes in a way that depends on that part alone.
\<close>

locale keyed_machine =
  fixes step :: "'e \<Rightarrow> 's \<Rightarrow> 's" and key_of :: "'e \<Rightarrow> 'k" and view :: "'k \<Rightarrow> 's \<Rightarrow> 'v"
  assumes other: "key_of e \<noteq> k \<Longrightarrow> view k (step e s) = view k s"
    and own: "key_of e = k \<Longrightarrow> view k s = view k t \<Longrightarrow> view k (step e s) = view k (step e t)"
begin

lemma isolated: "view k (fold step es s) = view k (fold step (filter (\<lambda>e. key_of e = k) es) s)"
proof -
  have "view k s = view k t \<Longrightarrow>
      view k (fold step es s) = view k (fold step (filter (\<lambda>e. key_of e = k) es) t)" for t
  proof (induction es arbitrary: s t)
    case (Cons e es)
    show ?case
    proof (cases "key_of e = k")
      case True
      with Cons.IH [OF own [OF True Cons.prems]] show ?thesis by simp
    next
      case False
      have "view k (step e s) = view k t"
        using other [OF False] Cons.prems by simp
      from Cons.IH [OF this] False show ?thesis by simp
    qed
  qed simp
  then show ?thesis by simp
qed

lemma interleaving:
  assumes "filter (\<lambda>e. key_of e = k) es = filter (\<lambda>e. key_of e = k) fs"
  shows "view k (fold step es s) = view k (fold step fs s)"
  using isolated [of k es s] isolated [of k fs s] assms by simp

end

end
