(* ===== verification/Sensor.thy ===== *)
theory Sensor
  imports Extract Py_Effect Py_Dyn Py_Machine
begin

text \<open>
  \<^verbatim>\<open>sensor/cowrie/src/cowrie/plugins/stingar.py\<close>: the output plugin of the sensor.  It keeps one
  record per open session, folds the session's events into it and emits one document when the
  session closes, with the bytes of the downloads inlined.  The disk is a parameter (\<open>disk\<close>), the
  Fluent sender is the list of what it was handed.
\<close>

section \<open>State\<close>

text \<open>A captured file, and what is known of an open session.  The rest of the document is constant.\<close>

record capture =
  cf_url :: pyval
  cf_outfile :: pyval
  cf_shasum :: pyval
  cf_action :: pystr
  cf_status :: pystr
  cf_resolved_ip :: pyval
  cf_content_b64 :: "pystr option"

record session_meta =
  sm_protocol :: pyval
  sm_start_time :: pyval
  sm_end_time :: pyval
  sm_src_ip :: pyval
  sm_src_port :: pyval
  sm_dst_ip :: pyval
  sm_dst_port :: pyval
  sm_credentials :: "pyval list"
  sm_commands :: "pyval list"
  sm_unknown_commands :: "pyval list"
  sm_urls :: "pyval list"
  sm_files :: "capture list"
  sm_version :: pyval
  sm_ttylog :: pyval
  sm_arch :: pyval
  sm_client_height :: pyval
  sm_client_width :: pyval
  sm_key_fingerprint :: pyval
  sm_kex :: pyval

record stingar =
  sg_identifier :: pyval
  sg_ip_addr :: pyval
  sg_hostname :: pyval
  sg_asn :: pyval
  sg_tags :: pydict
  sg_inline_bytes :: bool
  sg_inline_max :: int
  sg_meta :: "(pyval \<times> session_meta) list"
  sg_sender :: bool                        \<comment> \<open>whether \<open>start\<close> has made the sender\<close>
  sg_emitted :: "(pystr \<times> pydict) list"   \<comment> \<open>what the sender was handed\<close>

text \<open>\<^verbatim>\<open>os.path.getsize\<close> and reading a whole file; every error of the system is an OSError.\<close>

record disk =
  getsize :: "pyval \<Rightarrow> int res"
  read_file :: "pyval \<Rightarrow> bytes res"

definition COWRIE_TOPIC :: pystr where
  "COWRIE_TOPIC = u ''enrichable.cowrie''"

definition CONTENT_INLINE_MAX :: int where
  "CONTENT_INLINE_MAX = 5 * 1024 * 1024"

section \<open>Configuration\<close>

text \<open>One entry of the tag list; a text stored under \<^verbatim>\<open>misc\<close> has no \<^verbatim>\<open>append\<close>.\<close>

definition add_tag :: "pystr \<Rightarrow> pydict \<Rightarrow> pydict res" where
  "add_tag raw tg =
     (let t = py_strip raw in
      if t = [] then Inr tg
      else case split1 58 t of
             (k, Some v) \<Rightarrow> Inr (AList.update (KS (py_strip k)) (PStr (py_strip v)) tg)
           | (_, None) \<Rightarrow>
               (case map_of tg (key ''misc'') of
                  None \<Rightarrow> Inr (dset ''misc'' (PList [PStr t]) tg)
                | Some (PList l) \<Rightarrow> Inr (dset ''misc'' (PList (l @ [PStr t])) tg)
                | Some _ \<Rightarrow> Inl AttributeError))"

fun add_tags :: "pystr list \<Rightarrow> pydict \<Rightarrow> pydict res" where
  "add_tags [] tg = Inr tg"
| "add_tags (t # rest) tg = rbind (add_tag t tg) (add_tags rest)"

definition build_tags :: "pystr \<Rightarrow> pydict res" where
  "build_tags s = add_tags (split_on 44 s) []"

definition stingar_init ::
  "pyval \<Rightarrow> pyval \<Rightarrow> pyval \<Rightarrow> pyval \<Rightarrow> pystr \<Rightarrow> bool option \<Rightarrow> int option \<Rightarrow> stingar res" where
  "stingar_init ident ip host asnum tag_str inline imax =
     rbind (build_tags tag_str) (\<lambda>tg.
       Inr \<lparr>sg_identifier = ident, sg_ip_addr = ip, sg_hostname = host, sg_asn = asnum, sg_tags = tg,
            sg_inline_bytes = (case inline of Some b \<Rightarrow> b | None \<Rightarrow> True),
            sg_inline_max = (case imax of Some n \<Rightarrow> n | None \<Rightarrow> CONTENT_INLINE_MAX),
            sg_meta = [], sg_sender = False, sg_emitted = []\<rparr>)"

definition stingar_start :: "stingar \<Rightarrow> stingar" where
  "stingar_start st = st\<lparr>sg_sender := True\<rparr>"

section \<open>The document\<close>

definition capture_doc :: "capture \<Rightarrow> pyval" where
  "capture_doc c =
     PDict (map (\<lambda>(k, v). (key k, v))
       ([(''url'', cf_url c), (''outfile'', cf_outfile c), (''shasum'', cf_shasum c),
         (''action'', PStr (cf_action c)), (''status'', PStr (cf_status c)),
         (''resolved_ip'', cf_resolved_ip c)]
        @ (case cf_content_b64 c of None \<Rightarrow> [] | Some b \<Rightarrow> [(''content_b64'', PStr b)])))"

definition meta_doc :: "stingar \<Rightarrow> pyval \<Rightarrow> session_meta \<Rightarrow> pydict" where
  "meta_doc st session m = map (\<lambda>(k, v). (key k, v))
     [(''app'', pstr ''cowrie''),
      (''sensor'', pobj [(''uuid'', sg_identifier st), (''hostname'', sg_hostname st),
                         (''tags'', PDict (sg_tags st)), (''asn'', sg_asn st)]),
      (''protocol'', sm_protocol m),
      (''start_time'', sm_start_time m),
      (''end_time'', sm_end_time m),
      (''src_ip'', sm_src_ip m),
      (''src_port'', sm_src_port m),
      (''dst_ip'', sm_dst_ip m),
      (''dst_port'', sm_dst_port m),
      (''hp_data'', pobj
        [(''con_type'', pstr ''accept''),
         (''transport'', pstr ''tcp''),
         (''session'', session),
         (''credentials'', PList (sm_credentials m)),
         (''commands'', PList (sm_commands m)),
         (''unknown_commands'', PList (sm_unknown_commands m)),
         (''urls'', PList (sm_urls m)),
         (''files'', PList (map capture_doc (sm_files m))),
         (''uploads'', PList []),
         (''version'', sm_version m),
         (''ttylog'', sm_ttylog m),
         (''arch'', sm_arch m),
         (''client_height'', sm_client_height m),
         (''client_width'', sm_client_width m),
         (''key_fingerprint'', sm_key_fingerprint m),
         (''kex'', sm_kex m)])]"

section \<open>Events\<close>

text \<open>\<^verbatim>\<open>cowrie.session.connect\<close>: the fields are read in the order of the literal.\<close>

definition new_meta :: "stingar \<Rightarrow> pydict \<Rightarrow> session_meta res" where
  "new_meta st e =
     rbind (vsub (PDict e) ''protocol'') (\<lambda>protocol.
     rbind (vsub (PDict e) ''timestamp'') (\<lambda>tg.
     rbind (vsub (PDict e) ''src_ip'') (\<lambda>sip.
     rbind (vsub (PDict e) ''src_port'') (\<lambda>sport.
     rbind (if truthy (sg_ip_addr st) then Inr (sg_ip_addr st) else vsub (PDict e) ''dst_ip'') (\<lambda>dip.
     rbind (vsub (PDict e) ''dst_port'') (\<lambda>dport.
       Inr \<lparr>sm_protocol = protocol, sm_start_time = tg, sm_end_time = PStr [], sm_src_ip = sip,
            sm_src_port = sport, sm_dst_ip = dip, sm_dst_port = dport, sm_credentials = [],
            sm_commands = [], sm_unknown_commands = [], sm_urls = [], sm_files = [],
            sm_version = PNone, sm_ttylog = PNone, sm_arch = PNone, sm_client_height = PNone,
            sm_client_width = PNone, sm_key_fingerprint = PNone, sm_kex = PNone\<rparr>))))))"

definition credential_of :: "bool \<Rightarrow> pydict \<Rightarrow> pyval res" where
  "credential_of ok e =
     rbind (vsub (PDict e) ''username'') (\<lambda>user.
     rbind (vsub (PDict e) ''password'') (\<lambda>pw.
       Inr (pobj [(''username'', user), (''password'', pw), (''success'', PBool ok)])))"

definition DOWNLOAD :: pystr where
  "DOWNLOAD = u ''cowrie.session.file_download''"

definition DOWNLOAD_FAILED :: pystr where
  "DOWNLOAD_FAILED = u ''cowrie.session.file_download.failed''"

definition UPLOAD :: pystr where
  "UPLOAD = u ''cowrie.session.file_upload''"

definition capture_of :: "pystr \<Rightarrow> pydict \<Rightarrow> capture" where
  "capture_of ev e =
     \<lparr>cf_url = dget_or e ''url'' (PStr []), cf_outfile = dget_or e ''outfile'' (PStr []),
      cf_shasum = dget_or e ''shasum'' (PStr []),
      cf_action = (if sublist (u ''download'') ev then u ''download'' else u ''upload''),
      cf_status = (if endswith ev (u ''.failed'') then u ''failed'' else u ''successful''),
      cf_resolved_ip = dget_or e ''resolved_ip'' (PStr []), cf_content_b64 = None\<rparr>"

definition kex_of :: "pydict \<Rightarrow> pyval" where
  "kex_of e =
     pobj [(''hassh'', dget e ''hassh''), (''hassh_algorithms'', dget e ''hasshAlgorithms''),
           (''kex_algorithms'', dget e ''kexAlgs''), (''key_algorithms'', dget e ''keyAlgs''),
           (''enc_cs'', dget e ''encCS''), (''mac_cs'', dget e ''macCS''),
           (''comp_cs'', dget e ''compCS''), (''lang_cs'', dget e ''langCS'')]"

text \<open>What an event other than connect and closed does to the session it belongs to.\<close>

definition update_meta :: "disk \<Rightarrow> pystr \<Rightarrow> pydict \<Rightarrow> session_meta \<Rightarrow> session_meta res" where
  "update_meta D ev e m =
     (if ev = u ''cowrie.login.success''
      then rbind (credential_of True e) (\<lambda>c. Inr (m\<lparr>sm_credentials := sm_credentials m @ [c]\<rparr>))
      else if ev = u ''cowrie.login.failed''
      then rbind (credential_of False e) (\<lambda>c. Inr (m\<lparr>sm_credentials := sm_credentials m @ [c]\<rparr>))
      else if ev = u ''cowrie.command.input''
      then rbind (vsub (PDict e) ''input'') (\<lambda>i. Inr (m\<lparr>sm_commands := sm_commands m @ [i]\<rparr>))
      else if ev = u ''cowrie.command.failed''
      then rbind (vsub (PDict e) ''input'') (\<lambda>i. Inr (m\<lparr>sm_unknown_commands := sm_unknown_commands m @ [i]\<rparr>))
      else if ev \<in> {DOWNLOAD, DOWNLOAD_FAILED, UPLOAD}
      then (let c = capture_of ev e;
                m1 = (if truthy (cf_url c) then m\<lparr>sm_urls := sm_urls m @ [cf_url c]\<rparr> else m)
            in Inr (m1\<lparr>sm_files := sm_files m @ [c]\<rparr>))
      else if ev = u ''cowrie.session.params'' then Inr (m\<lparr>sm_arch := dget e ''arch''\<rparr>)
      else if ev = u ''cowrie.client.size''
      then Inr (m\<lparr>sm_client_width := dget e ''width'', sm_client_height := dget e ''height''\<rparr>)
      else if ev = u ''cowrie.client.fingerprint''
      then Inr (m\<lparr>sm_key_fingerprint := dget e ''fingerprint''\<rparr>)
      else if ev = u ''cowrie.client.kex'' then Inr (m\<lparr>sm_kex := kex_of e\<rparr>)
      else if ev = u ''cowrie.client.version'' then Inr (m\<lparr>sm_version := dget e ''version''\<rparr>)
      else if ev = u ''cowrie.log.closed''
      then (if truthy (dget e ''ttylog'')
            then rbind (read_file D (dget e ''ttylog'')) (\<lambda>bs. Inr (m\<lparr>sm_ttylog := PStr (bytes_hex bs)\<rparr>))
            else Inr m)
      else Inr m)"

section \<open>Inlining\<close>

definition inline_one :: "disk \<Rightarrow> int \<Rightarrow> capture \<Rightarrow> capture res" where
  "inline_one D imax c =
     (if cf_action c \<noteq> u ''download'' \<or> cf_status c \<noteq> u ''successful'' then Inr c
      else if \<not> truthy (cf_outfile c) then Inr c
      else case getsize D (cf_outfile c) of
             Inl e \<Rightarrow> if e = OSError then Inr c else Inl e
           | Inr n \<Rightarrow>
               if imax < n then Inr c
               else case read_file D (cf_outfile c) of
                      Inl e \<Rightarrow> if e = OSError then Inr c else Inl e
                    | Inr bs \<Rightarrow> Inr (c\<lparr>cf_content_b64 := Some (b64_encode bs)\<rparr>))"

definition inline_download_bytes :: "disk \<Rightarrow> int \<Rightarrow> session_meta \<Rightarrow> session_meta res" where
  "inline_download_bytes D imax m =
     rbind (rmap (inline_one D imax) (sm_files m)) (\<lambda>fs. Inr (m\<lparr>sm_files := fs\<rparr>))"

text \<open>
  \<^verbatim>\<open>cowrie.session.closed\<close>: the session is forgotten before anything can raise, and without a
  sender it is dropped.
\<close>

definition final_meta :: "disk \<Rightarrow> stingar \<Rightarrow> pydict \<Rightarrow> session_meta \<Rightarrow> session_meta res" where
  "final_meta D st e m =
     rbind (vsub (PDict e) ''timestamp'') (\<lambda>tg.
       if sg_inline_bytes st then inline_download_bytes D (sg_inline_max st) (m\<lparr>sm_end_time := tg\<rparr>)
       else Inr (m\<lparr>sm_end_time := tg\<rparr>))"

definition close_session :: "disk \<Rightarrow> pyval \<Rightarrow> pydict \<Rightarrow> (stingar, unit) eff" where
  "close_session D session e st =
     (case map_of (sg_meta st) session of
        None \<Rightarrow> (Inr (), st)
      | Some m \<Rightarrow>
          (let st1 = st\<lparr>sg_meta := AList.delete session (sg_meta st)\<rparr> in
           if \<not> sg_sender st then (Inr (), st1)
           else (case final_meta D st e m of
                   Inl err \<Rightarrow> (Inl err, st1)
                 | Inr m' \<Rightarrow>
                     (Inr (), st1\<lparr>sg_emitted := sg_emitted st @ [(COWRIE_TOPIC, meta_doc st session m')]\<rparr>))))"

definition handle_event :: "disk \<Rightarrow> pyval \<Rightarrow> pystr \<Rightarrow> pydict \<Rightarrow> (stingar, unit) eff" where
  "handle_event D session ev e st =
     (if ev = u ''cowrie.session.connect''
      then (case new_meta st e of
              Inl err \<Rightarrow> (Inl err, st)
            | Inr m \<Rightarrow> (Inr (), st\<lparr>sg_meta := AList.update session m (sg_meta st)\<rparr>))
      else if ev = u ''cowrie.session.closed'' then close_session D session e st
      else (case map_of (sg_meta st) session of
              None \<Rightarrow> (Inl KeyError, st)
            | Some m \<Rightarrow>
                (case update_meta D ev e m of
                   Inl err \<Rightarrow> (Inl err, st)
                 | Inr m' \<Rightarrow> (Inr (), st\<lparr>sg_meta := AList.update session m' (sg_meta st)\<rparr>))))"

text \<open>The names of events are texts; any other value is no event the plugin knows.\<close>

definition write_entry :: "disk \<Rightarrow> pydict \<Rightarrow> (stingar, unit) eff" where
  "write_entry D e st =
     (let session = dget e ''session'' in
      if \<not> hashable session then (Inl TypeError, st)
      else case map_of e (key ''eventid'') of
             None \<Rightarrow> (Inl KeyError, st)
           | Some ev \<Rightarrow>
               if (session = PNone \<or> map_of (sg_meta st) session = None)
                  \<and> ev \<noteq> pstr ''cowrie.session.connect'' then (Inr (), st)
               else (case ev of PStr name \<Rightarrow> handle_event D session name e st | _ \<Rightarrow> (Inr (), st)))"

text \<open>
  The plugin sees one event after the other; an exception is logged by the caller and does not
  reach the next event.
\<close>

definition run_events :: "disk \<Rightarrow> pydict list \<Rightarrow> stingar \<Rightarrow> stingar" where
  "run_events D es st = fold (\<lambda>e s. snd (write_entry D e s)) es st"

lemmas sensor_eval [py_eval] = COWRIE_TOPIC_def CONTENT_INLINE_MAX_def add_tag_def build_tags_def
  stingar_init_def stingar_start_def capture_doc_def meta_doc_def new_meta_def credential_of_def
  DOWNLOAD_def DOWNLOAD_FAILED_def UPLOAD_def capture_of_def kex_of_def hex_low_def bytes_hex_def
  update_meta_def inline_one_def inline_download_bytes_def final_meta_def close_session_def
  handle_event_def write_entry_def run_events_def

section \<open>Sessions do not see each other\<close>

definition session_of :: "pydict \<Rightarrow> pyval" where
  "session_of e = dget e ''session''"

definition doc_session :: "pydict \<Rightarrow> pyval" where
  "doc_session d = (case dget d ''hp_data'' of PDict h \<Rightarrow> dget h ''session'' | _ \<Rightarrow> PNone)"

lemma doc_session_meta [simp]: "doc_session (meta_doc st s m) = s"
  by (simp add: doc_session_def meta_doc_def dget_def)

definition emitted_for :: "pyval \<Rightarrow> stingar \<Rightarrow> (pystr \<times> pydict) list" where
  "emitted_for s st = filter (\<lambda>(t, d). doc_session d = s) (sg_emitted st)"

text \<open>The configuration, which no event changes.\<close>

definition config :: "stingar \<Rightarrow> stingar" where
  "config st = st\<lparr>sg_meta := [], sg_emitted := []\<rparr>"

lemma config_eqD:
  assumes "config st = config st'"
  shows "meta_doc st = meta_doc st'" "new_meta st = new_meta st'" "final_meta D st = final_meta D st'"
    "sg_sender st = sg_sender st'"
proof -
  have *: "sg_identifier st = sg_identifier st'" "sg_ip_addr st = sg_ip_addr st'" "sg_hostname st = sg_hostname st'"
    "sg_asn st = sg_asn st'" "sg_tags st = sg_tags st'" "sg_inline_bytes st = sg_inline_bytes st'"
    "sg_inline_max st = sg_inline_max st'" "sg_sender st = sg_sender st'"
    using arg_cong [OF assms, of sg_identifier] arg_cong [OF assms, of sg_ip_addr]
      arg_cong [OF assms, of sg_hostname] arg_cong [OF assms, of sg_asn] arg_cong [OF assms, of sg_tags]
      arg_cong [OF assms, of sg_inline_bytes] arg_cong [OF assms, of sg_inline_max]
      arg_cong [OF assms, of sg_sender]
    by (simp_all add: config_def)
  show "meta_doc st = meta_doc st'" "new_meta st = new_meta st'" "final_meta D st = final_meta D st'"
    "sg_sender st = sg_sender st'"
    by (simp_all add: fun_eq_iff meta_doc_def new_meta_def final_meta_def * cong: if_cong)
qed

text \<open>The part of a step that concerns the event's own session: its record and what it emits.\<close>

definition handle_step ::
  "disk \<Rightarrow> stingar \<Rightarrow> pyval \<Rightarrow> pystr \<Rightarrow> pydict \<Rightarrow> session_meta option \<Rightarrow> session_meta option \<times> (pystr \<times> pydict) list"
where
  "handle_step D st s ev e mo =
     (if ev = u ''cowrie.session.connect''
      then (case new_meta st e of Inl _ \<Rightarrow> mo | Inr m \<Rightarrow> Some m, [])
      else if ev = u ''cowrie.session.closed''
      then (None, case mo of None \<Rightarrow> [] | Some m \<Rightarrow>
              if \<not> sg_sender st then []
              else (case final_meta D st e m of Inl _ \<Rightarrow> [] | Inr m' \<Rightarrow> [(COWRIE_TOPIC, meta_doc st s m')]))
      else (map_option (\<lambda>m. case update_meta D ev e m of Inl _ \<Rightarrow> m | Inr m' \<Rightarrow> m') mo, []))"

definition entry_step ::
  "disk \<Rightarrow> stingar \<Rightarrow> pydict \<Rightarrow> session_meta option \<Rightarrow> session_meta option \<times> (pystr \<times> pydict) list"
where
  "entry_step D st e mo =
     (if \<not> hashable (session_of e) then (mo, [])
      else case map_of e (key ''eventid'') of
             Some (PStr ev) \<Rightarrow>
               if (session_of e = PNone \<or> mo = None) \<and> ev \<noteq> u ''cowrie.session.connect'' then (mo, [])
               else handle_step D st (session_of e) ev e mo
           | _ \<Rightarrow> (mo, []))"

definition moved :: "pyval \<Rightarrow> session_meta option \<times> (pystr \<times> pydict) list \<Rightarrow> stingar \<Rightarrow> stingar \<Rightarrow> bool" where
  "moved s r st st' \<longleftrightarrow> config st' = config st \<and> map_of (sg_meta st') = (map_of (sg_meta st))(s := fst r) \<and>
     sg_emitted st' = sg_emitted st @ snd r"

lemma moved_same [simp]: "moved s (map_of (sg_meta st) s, []) st st"
  by (simp add: moved_def)

lemma moved_update: "moved s (Some m, []) st (st\<lparr>sg_meta := AList.update s m (sg_meta st)\<rparr>)"
  by (auto simp: moved_def config_def update_conv')

lemma moved_delete: "moved s (None, []) st (st\<lparr>sg_meta := AList.delete s (sg_meta st)\<rparr>)"
  by (auto simp: moved_def config_def delete_conv' restrict_map_def fun_eq_iff)

lemma moved_emit:
  "moved s (None, [d]) st (st\<lparr>sg_meta := AList.delete s (sg_meta st), sg_emitted := sg_emitted st @ [d]\<rparr>)"
  by (auto simp: moved_def config_def delete_conv' restrict_map_def fun_eq_iff)

lemma handle_event_moved:
  "moved s (handle_step D st s ev e (map_of (sg_meta st) s)) st (snd (handle_event D s ev e st))"
proof -
  consider "ev = u ''cowrie.session.connect''" | "ev = u ''cowrie.session.closed''"
    | "ev \<noteq> u ''cowrie.session.connect''" "ev \<noteq> u ''cowrie.session.closed''" by blast
  then show ?thesis
  proof cases
    case 1
    then show ?thesis
      by (cases "new_meta st e") (simp_all add: handle_step_def handle_event_def moved_update)
  next
    case 2
    show ?thesis
    proof (cases "map_of (sg_meta st) s")
      case None
      with 2 moved_same [of s st] show ?thesis by (simp add: handle_step_def handle_event_def close_session_def)
    next
      case (Some m)
      with 2 show ?thesis
        by (cases "final_meta D st e m")
          (simp_all add: handle_step_def handle_event_def close_session_def Let_def moved_delete moved_emit)
    qed
  next
    case 3
    show ?thesis
    proof (cases "map_of (sg_meta st) s")
      case None
      with 3 moved_same [of s st] show ?thesis by (simp add: handle_step_def handle_event_def)
    next
      case (Some m)
      with 3 moved_same [of s st] show ?thesis
        by (cases "update_meta D ev e m") (simp_all add: handle_step_def handle_event_def moved_update)
    qed
  qed
qed

lemma write_entry_moved:
  "moved (session_of e) (entry_step D st e (map_of (sg_meta st) (session_of e))) st (snd (write_entry D e st))"
proof (cases "map_of e (key ''eventid'')")
  case None
  then show ?thesis by (simp add: write_entry_def entry_step_def session_of_def Let_def)
next
  case (Some ev)
  then show ?thesis
    using handle_event_moved [of "session_of e" D st _ e]
    by (cases ev) (simp_all add: write_entry_def entry_step_def session_of_def Let_def)
qed

lemma entry_step_config:
  assumes "config st = config st'"
  shows "entry_step D st = entry_step D st'"
proof -
  have "handle_step D st = handle_step D st'"
    unfolding handle_step_def [abs_def] config_eqD [OF assms] ..
  show ?thesis unfolding entry_step_def [abs_def] \<open>handle_step D st = handle_step D st'\<close> ..
qed

lemma entry_step_docs: "d \<in> set (snd (entry_step D st e mo)) \<Longrightarrow> doc_session (snd d) = session_of e"
  by (auto simp: entry_step_def handle_step_def split: if_splits option.splits pyval.splits sum.splits)

definition session_view :: "pyval \<Rightarrow> stingar \<Rightarrow> stingar \<times> session_meta option \<times> (pystr \<times> pydict) list" where
  "session_view s st = (config st, map_of (sg_meta st) s, emitted_for s st)"

interpretation sessions: keyed_machine "\<lambda>e st. snd (write_entry D e st)" session_of session_view for D
proof
  fix e k s
  assume "session_of e \<noteq> k"
  moreover have "filter (\<lambda>(t, d). doc_session d = k) (snd (entry_step D s e mo)) = []" if "session_of e \<noteq> k" for mo
    using that entry_step_docs [of _ D s e mo] by (auto simp: filter_empty_conv)
  ultimately show "session_view k (snd (write_entry D e s)) = session_view k s"
    using write_entry_moved [of e D s] by (simp add: moved_def session_view_def emitted_for_def)
next
  fix e k s t
  assume "session_of e = k" "session_view k s = session_view k t"
  then show "session_view k (snd (write_entry D e s)) = session_view k (snd (write_entry D e t))"
    using write_entry_moved [of e D s] write_entry_moved [of e D t] entry_step_config [of s t D]
    by (simp add: moved_def session_view_def emitted_for_def)
qed

text \<open>
  C4. Sessions do not see each other: however the events of concurrent sessions are interleaved,
  the documents emitted for a session are those its own events produce alone.
\<close>

theorem sessions_isolated:
  "emitted_for s (run_events D es st) = emitted_for s (run_events D (filter (\<lambda>e. session_of e = s) es) st)"
  using sessions.isolated [of s D es st] by (simp add: session_view_def run_events_def)

section \<open>The life of a session\<close>

definition event_name :: "pydict \<Rightarrow> pystr" where
  "event_name e = (case map_of e (key ''eventid'') of Some (PStr n) \<Rightarrow> n | _ \<Rightarrow> [])"

definition res_opt :: "'a res \<Rightarrow> 'a option" where
  "res_opt m = (case m of Inl _ \<Rightarrow> None | Inr x \<Rightarrow> Some x)"

text \<open>What an event contributes to the four lists of the document; a malformed event, nothing.\<close>

definition login_of :: "bool \<Rightarrow> pydict \<Rightarrow> pyval option" where
  "login_of ok e =
     (case (map_of e (key ''username''), map_of e (key ''password'')) of
        (Some usr, Some pw) \<Rightarrow> Some (pobj [(''username'', usr), (''password'', pw), (''success'', PBool ok)])
      | _ \<Rightarrow> None)"

definition ev_credential :: "pydict \<Rightarrow> pyval option" where
  "ev_credential e =
     (if event_name e = u ''cowrie.login.success'' then login_of True e
      else if event_name e = u ''cowrie.login.failed'' then login_of False e else None)"

definition ev_input :: "string \<Rightarrow> pydict \<Rightarrow> pyval option" where
  "ev_input name e = (if event_name e = u name then res_opt (vsub (PDict e) ''input'') else None)"

definition file_entry :: "string \<Rightarrow> string \<Rightarrow> pydict \<Rightarrow> capture" where
  "file_entry action status e =
     \<lparr>cf_url = dget_or e ''url'' (PStr []), cf_outfile = dget_or e ''outfile'' (PStr []),
      cf_shasum = dget_or e ''shasum'' (PStr []), cf_action = u action, cf_status = u status,
      cf_resolved_ip = dget_or e ''resolved_ip'' (PStr []), cf_content_b64 = None\<rparr>"

definition ev_file :: "pydict \<Rightarrow> capture option" where
  "ev_file e =
     (if event_name e = u ''cowrie.session.file_download'' then Some (file_entry ''download'' ''successful'' e)
      else if event_name e = u ''cowrie.session.file_download.failed'' then Some (file_entry ''download'' ''failed'' e)
      else if event_name e = u ''cowrie.session.file_upload'' then Some (file_entry ''upload'' ''successful'' e)
      else None)"

lemma credential_login: "res_opt (credential_of ok e) = login_of ok e"
  by (simp add: credential_of_def login_of_def res_opt_def vsub_def rbind_def split: option.split)

lemma capture_file:
  "capture_of DOWNLOAD e = file_entry ''download'' ''successful'' e"
  "capture_of DOWNLOAD_FAILED e = file_entry ''download'' ''failed'' e"
  "capture_of UPLOAD e = file_entry ''upload'' ''successful'' e"
proof -
  have "sublist (u ''download'') DOWNLOAD" "sublist (u ''download'') DOWNLOAD_FAILED" "\<not> sublist (u ''download'') UPLOAD"
    "\<not> endswith DOWNLOAD (u ''.failed'')" "endswith DOWNLOAD_FAILED (u ''.failed'')" "\<not> endswith UPLOAD (u ''.failed'')"
    by code_simp+
  then show "capture_of DOWNLOAD e = file_entry ''download'' ''successful'' e"
    "capture_of DOWNLOAD_FAILED e = file_entry ''download'' ''failed'' e"
    "capture_of UPLOAD e = file_entry ''upload'' ''successful'' e"
    by (simp_all add: capture_of_def file_entry_def)
qed

definition apply_event :: "disk \<Rightarrow> pydict \<Rightarrow> session_meta \<Rightarrow> session_meta" where
  "apply_event D e m = (case update_meta D (event_name e) e m of Inl _ \<Rightarrow> m | Inr m' \<Rightarrow> m')"

definition opt_list :: "'a option \<Rightarrow> 'a list" where
  "opt_list x = (case x of None \<Rightarrow> [] | Some v \<Rightarrow> [v])"

lemma opt_list_append: "opt_list x @ ys = (case x of None \<Rightarrow> ys | Some y \<Rightarrow> y # ys)"
  by (simp add: opt_list_def split: option.split)

lemma apply_event_lists:
  "sm_credentials (apply_event D e m) = sm_credentials m @ opt_list (ev_credential e)"
  "sm_commands (apply_event D e m) = sm_commands m @ opt_list (ev_input ''cowrie.command.input'' e)"
  "sm_unknown_commands (apply_event D e m) = sm_unknown_commands m @ opt_list (ev_input ''cowrie.command.failed'' e)"
  "sm_files (apply_event D e m) = sm_files m @ opt_list (ev_file e)"
proof -
  have names: "DOWNLOAD = u ''cowrie.session.file_download''" "UPLOAD = u ''cowrie.session.file_upload''"
    "DOWNLOAD_FAILED = u ''cowrie.session.file_download.failed''"
    by (simp_all add: DOWNLOAD_def DOWNLOAD_FAILED_def UPLOAD_def)
  note defs = apply_event_def update_meta_def ev_credential_def ev_input_def ev_file_def opt_list_def Let_def
  show "sm_credentials (apply_event D e m) = sm_credentials m @ opt_list (ev_credential e)"
    by (simp add: defs names credential_login [symmetric] res_opt_def rbind_def split: sum.split)
  show "sm_commands (apply_event D e m) = sm_commands m @ opt_list (ev_input ''cowrie.command.input'' e)"
    "sm_unknown_commands (apply_event D e m) = sm_unknown_commands m @ opt_list (ev_input ''cowrie.command.failed'' e)"
    by (simp_all add: defs names res_opt_def rbind_def split: sum.split)
  show "sm_files (apply_event D e m) = sm_files m @ opt_list (ev_file e)"
    by (simp add: defs capture_file [unfolded names] names rbind_def split: sum.split)
qed

lemma fold_apply_lists:
  "sm_credentials (fold (apply_event D) es m) = sm_credentials m @ List.map_filter ev_credential es"
  "sm_commands (fold (apply_event D) es m) = sm_commands m @ List.map_filter (ev_input ''cowrie.command.input'') es"
  "sm_unknown_commands (fold (apply_event D) es m) =
     sm_unknown_commands m @ List.map_filter (ev_input ''cowrie.command.failed'') es"
  "sm_files (fold (apply_event D) es m) = sm_files m @ List.map_filter ev_file es"
  by (induction es arbitrary: m) (simp_all add: opt_list_append apply_event_lists)

definition mid_event :: "pyval \<Rightarrow> pydict \<Rightarrow> bool" where
  "mid_event s e \<longleftrightarrow> session_of e = s \<and>
     event_name e \<noteq> u ''cowrie.session.connect'' \<and> event_name e \<noteq> u ''cowrie.session.closed''"

lemma mid_step:
  assumes "mid_event s e" "hashable s" "s \<noteq> PNone"
  shows "entry_step D st e (Some m) = (Some (apply_event D e m), []) \<or>
    entry_step D st e (Some m) = (Some m, []) \<and> apply_event D e m = m"
proof -
  have nil: "update_meta D [] e m = Inr m"
    by (simp add: update_meta_def DOWNLOAD_def DOWNLOAD_FAILED_def UPLOAD_def)
  show ?thesis
    using assms nil
    by (cases "map_of e (key ''eventid'')")
      (auto simp: entry_step_def mid_event_def handle_step_def apply_event_def event_name_def split: pyval.splits sum.splits)
qed

lemma mid_events:
  assumes "list_all (mid_event s) es" "hashable s" "s \<noteq> PNone" "map_of (sg_meta st) s = Some m"
  shows "config (run_events D es st) = config st"
    "map_of (sg_meta (run_events D es st)) s = Some (fold (apply_event D) es m)"
    "sg_emitted (run_events D es st) = sg_emitted st"
proof -
  have "config (run_events D es st) = config st \<and>
    map_of (sg_meta (run_events D es st)) s = Some (fold (apply_event D) es m) \<and>
    sg_emitted (run_events D es st) = sg_emitted st"
    using assms(1,4)
  proof (induction es arbitrary: st m)
    case (Cons e es)
    have e: "mid_event s e" "session_of e = s" using Cons.prems(1) by (simp_all add: mid_event_def)
    let ?st = "snd (write_entry D e st)"
    have st: "config ?st = config st" "map_of (sg_meta ?st) s = Some (apply_event D e m)" "sg_emitted ?st = sg_emitted st"
      using write_entry_moved [of e D st] mid_step [OF e(1) assms(2,3), of D st m] Cons.prems(2) e(2)
      by (auto simp: moved_def)
    have "run_events D (e # es) st = run_events D es ?st" by (simp add: run_events_def)
    with Cons.IH [of ?st "apply_event D e m"] Cons.prems(1) st show ?case by simp
  qed (simp add: run_events_def)
  then show "config (run_events D es st) = config st"
    "map_of (sg_meta (run_events D es st)) s = Some (fold (apply_event D) es m)"
    "sg_emitted (run_events D es st) = sg_emitted st" by blast+
qed

lemma run_events_append: "run_events D (es @ fs) st = run_events D fs (run_events D es st)"
  by (simp add: run_events_def)

lemma final_meta_lists:
  assumes "final_meta D st e m = Inr m'"
  shows "sm_credentials m' = sm_credentials m" "sm_commands m' = sm_commands m"
    "sm_unknown_commands m' = sm_unknown_commands m"
    "list_all2 (\<lambda>c c'. if sg_inline_bytes st then inline_one D (sg_inline_max st) c = Inr c' else c' = c)
       (sm_files m) (sm_files m')"
proof -
  obtain tm where tm: "(if sg_inline_bytes st
      then inline_download_bytes D (sg_inline_max st) (m\<lparr>sm_end_time := tm\<rparr>) else Inr (m\<lparr>sm_end_time := tm\<rparr>)) = Inr m'"
    using assms unfolding final_meta_def by (auto simp only: rbind_eq_Inr)
  have "sm_credentials m' = sm_credentials m \<and> sm_commands m' = sm_commands m \<and>
    sm_unknown_commands m' = sm_unknown_commands m \<and>
    list_all2 (\<lambda>c c'. if sg_inline_bytes st then inline_one D (sg_inline_max st) c = Inr c' else c' = c)
       (sm_files m) (sm_files m')"
  proof (cases "sg_inline_bytes st")
    case True
    with tm obtain fs where fs: "rmap (inline_one D (sg_inline_max st)) (sm_files m) = Inr fs"
      "m' = m\<lparr>sm_end_time := tm, sm_files := fs\<rparr>"
      unfolding inline_download_bytes_def if_P [OF True] rbind_eq_Inr by auto
    with True show ?thesis by (simp add: rmap_Inr_iff)
  next
    case False
    with tm show ?thesis by (auto simp: list_all2_refl)
  qed
  then show "sm_credentials m' = sm_credentials m" "sm_commands m' = sm_commands m"
    "sm_unknown_commands m' = sm_unknown_commands m"
    "list_all2 (\<lambda>c c'. if sg_inline_bytes st then inline_one D (sg_inline_max st) c = Inr c' else c' = c)
       (sm_files m) (sm_files m')" by blast+
qed

lemma open_close:
  assumes s: "hashable s" "s \<noteq> PNone" "sg_sender st"
    and c0: "session_of c0 = s" "event_name c0 = u ''cowrie.session.connect''" "new_meta st c0 = Inr m0"
    and mid: "list_all (mid_event s) es"
    and c1: "session_of c1 = s" "event_name c1 = u ''cowrie.session.closed''"
  shows "sg_emitted (run_events D (c0 # es @ [c1]) st) = sg_emitted st @
    (case final_meta D st c1 (fold (apply_event D) es m0) of Inl _ \<Rightarrow> [] | Inr m \<Rightarrow> [(COWRIE_TOPIC, meta_doc st s m)])"
    "map_of (sg_meta (run_events D (c0 # es @ [c1]) st)) s = None"
proof -
  let ?a = "snd (write_entry D c0 st)" let ?b = "run_events D es ?a"
  have name: "map_of e (key ''eventid'') = Some (PStr (u n))" if "event_name e = u n" "n \<noteq> []" for e n
    using that by (auto simp: event_name_def split: option.splits pyval.splits)
  have "entry_step D st c0 mo = (Some m0, [])" for mo
    using c0 s(1) name [OF c0(2)] by (simp add: entry_step_def handle_step_def)
  then have a: "config ?a = config st" "map_of (sg_meta ?a) s = Some m0" "sg_emitted ?a = sg_emitted st"
    using write_entry_moved [of c0 D st] c0(1) by (simp_all add: moved_def)
  note b = mid_events [OF mid s(1,2) a(2), of D, unfolded a(1,3)]
  note cs = config_eqD [OF b(1)]
  have r: "run_events D (c0 # es @ [c1]) st = snd (write_entry D c1 ?b)"
    by (simp add: run_events_def)
  have "entry_step D ?b c1 (Some m) = (None, case final_meta D st c1 m of Inl _ \<Rightarrow> []
      | Inr m' \<Rightarrow> [(COWRIE_TOPIC, meta_doc st s m')])" for m
    using c1 s name [OF c1(2)] by (simp add: entry_step_def handle_step_def cs split: sum.split)
  then show "sg_emitted (run_events D (c0 # es @ [c1]) st) = sg_emitted st @
    (case final_meta D st c1 (fold (apply_event D) es m0) of Inl _ \<Rightarrow> [] | Inr m \<Rightarrow> [(COWRIE_TOPIC, meta_doc st s m)])"
    "map_of (sg_meta (run_events D (c0 # es @ [c1]) st)) s = None"
    using write_entry_moved [of c1 D ?b] c1(1) b unfolding r by (simp_all add: moved_def)
qed

section \<open>What reaches the engine\<close>

lemma inline_oneD:
  assumes "inline_one D imax c = Inr c'"
  shows "c' = c \<or> (cf_action c = u ''download'' \<and> cf_status c = u ''successful'' \<and> truthy (cf_outfile c) \<and>
    (\<exists>n bs. getsize D (cf_outfile c) = Inr n \<and> n \<le> imax \<and> read_file D (cf_outfile c) = Inr bs \<and>
       c' = c\<lparr>cf_content_b64 := Some (b64_encode bs)\<rparr>))"
  using assms by (auto simp: inline_one_def split: if_splits sum.splits)

lemma inline_one_readable:
  assumes "cf_action c = u ''download''" "cf_status c = u ''successful''" "truthy (cf_outfile c)"
    and "getsize D (cf_outfile c) = Inr n" "n \<le> imax" "read_file D (cf_outfile c) = Inr bs"
  shows "inline_one D imax c = Inr (c\<lparr>cf_content_b64 := Some (b64_encode bs)\<rparr>)"
  using assms by (simp add: inline_one_def)

text \<open>
  C25. A payload survives the wire: a successful download that is on the sensor's disk and within
  the cap is inlined, and what the engine decodes from the field is the file, byte for byte (an
  empty file carries nothing); a failed download, an upload, and a file over the cap or unreadable
  travel as they are.
\<close>

theorem payload_survives_wire:
  assumes "cf_content_b64 c = None" "inline_one D imax c = Inr c'" "f_content_b64 f = cf_content_b64 c'"
  shows "decode_bytes f =
    (if cf_action c = u ''download'' \<and> cf_status c = u ''successful'' \<and> truthy (cf_outfile c) \<and>
        (\<exists>n. getsize D (cf_outfile c) = Inr n \<and> n \<le> imax)
     then (case read_file D (cf_outfile c) of Inr bs \<Rightarrow> if bs = [] then None else Some bs | Inl _ \<Rightarrow> None)
     else None)"
proof -
  have enc: "b64_encode bs = [] \<longleftrightarrow> bs = []" for bs
    by (cases bs rule: b64_encode.cases) simp_all
  show ?thesis
    using assms
    by (auto simp: inline_one_def decode_bytes_def opt_str_def b64_decode_encode enc split: if_splits sum.splits)
qed

text \<open>
  C24. The document of a session is its history: after connect, any events of the session and close,
  exactly one document is emitted (none if the closing itself raises), the session is forgotten, and
  the document lists the credentials, the commands, the unknown commands and the captured files of
  the events, each once and in their order, whatever else and however malformed came between.
\<close>

theorem session_document:
  assumes "hashable s" "s \<noteq> PNone" "sg_sender st"
    and "session_of c0 = s" "event_name c0 = u ''cowrie.session.connect''" "new_meta st c0 = Inr m0"
    and "list_all (mid_event s) es"
    and "session_of c1 = s" "event_name c1 = u ''cowrie.session.closed''"
  shows "map_of (sg_meta (run_events D (c0 # es @ [c1]) st)) s = None \<and>
    (sg_emitted (run_events D (c0 # es @ [c1]) st) = sg_emitted st \<and>
       (\<exists>err. final_meta D st c1 (fold (apply_event D) es m0) = Inl err) \<or>
     (\<exists>m. sg_emitted (run_events D (c0 # es @ [c1]) st) = sg_emitted st @ [(COWRIE_TOPIC, meta_doc st s m)] \<and>
       sm_credentials m = List.map_filter ev_credential es \<and>
       sm_commands m = List.map_filter (ev_input ''cowrie.command.input'') es \<and>
       sm_unknown_commands m = List.map_filter (ev_input ''cowrie.command.failed'') es \<and>
       list_all2 (\<lambda>c c'. if sg_inline_bytes st then inline_one D (sg_inline_max st) c = Inr c' else c' = c)
         (List.map_filter ev_file es) (sm_files m)))"
proof -
  let ?m = "fold (apply_event D) es m0"
  have m0: "sm_credentials m0 = []" "sm_commands m0 = []" "sm_unknown_commands m0 = []" "sm_files m0 = []"
    using assms(6) by (auto simp: new_meta_def rbind_eq_Inr)
  note oc = open_close [OF assms, of D]
  show ?thesis
  proof (cases "final_meta D st c1 ?m")
    case (Inl err)
    with oc show ?thesis by simp
  next
    case (Inr m)
    with oc final_meta_lists [OF Inr] show ?thesis
      by (intro conjI disjI2 exI [of _ m]) (simp_all add: fold_apply_lists m0)
  qed
qed

section \<open>Witnesses\<close>

definition demo_disk :: disk where
  "demo_disk = \<lparr>getsize = (\<lambda>p. if p = pstr ''dl'' then Inr 3 else Inl OSError),
     read_file = (\<lambda>p. if p = pstr ''dl'' then Inr [1, 2, 3] else Inl OSError)\<rparr>"

definition demo_event :: "string \<Rightarrow> (string \<times> pyval) list \<Rightarrow> pydict" where
  "demo_event name kvs = map (\<lambda>(k, v). (key k, v)) ((''session'', pstr ''s1'') # (''eventid'', pstr name) # kvs)"

definition demo_events :: "pydict list" where
  "demo_events =
     [demo_event ''cowrie.session.connect'' [(''protocol'', pstr ''ssh''), (''timestamp'', pstr ''t0''),
        (''src_ip'', pstr ''1.2.3.4''), (''src_port'', PInt 5), (''dst_ip'', pstr ''5.6.7.8''), (''dst_port'', PInt 22)],
      demo_event ''cowrie.login.success'' [(''username'', pstr ''root''), (''password'', pstr ''x'')],
      demo_event ''cowrie.session.file_download'' [(''url'', pstr ''http://a/b''), (''outfile'', pstr ''dl'')],
      demo_event ''cowrie.session.closed'' [(''timestamp'', pstr ''t1'')]]"

definition demo_stingar :: stingar where
  "demo_stingar = \<lparr>sg_identifier = pstr ''id'', sg_ip_addr = PStr [], sg_hostname = pstr ''h'', sg_asn = pstr ''1'',
     sg_tags = [], sg_inline_bytes = True, sg_inline_max = 10, sg_meta = [], sg_sender = True, sg_emitted = []\<rparr>"

theorem payload_survives_wire_witness:
  "\<exists>c' f. inline_one demo_disk 10 (capture_of DOWNLOAD [(key ''outfile'', pstr ''dl'')]) = Inr c' \<and>
     f_content_b64 f = cf_content_b64 c' \<and> decode_bytes f = Some [1, 2, 3]"
proof -
  let ?c = "capture_of DOWNLOAD [(key ''outfile'', pstr ''dl'')]"
  have c: "cf_content_b64 ?c = None" "cf_action ?c = u ''download''" "cf_status ?c = u ''successful''"
    "cf_outfile ?c = pstr ''dl''" by code_simp+
  have i: "inline_one demo_disk 10 ?c = Inr (?c\<lparr>cf_content_b64 := Some (b64_encode [1, 2, 3])\<rparr>)"
    by (rule inline_one_readable [where n = 3]) (simp_all add: c demo_disk_def)
  let ?f = "demo_file\<lparr>f_content_b64 := Some (b64_encode [1, 2, 3])\<rparr>"
  have "decode_bytes ?f = Some [1, 2, 3]"
    using payload_survives_wire [OF c(1) i, of ?f] by (simp add: c demo_disk_def)
  with i show ?thesis by (intro exI [of _ "?c\<lparr>cf_content_b64 := Some (b64_encode [1, 2, 3])\<rparr>"] exI [of _ ?f]) simp
qed

theorem session_document_witness:
  "\<exists>m. sg_emitted (run_events demo_disk demo_events demo_stingar) = [(COWRIE_TOPIC, meta_doc demo_stingar (pstr ''s1'') m)] \<and>
     length (sm_credentials m) = 1 \<and> length (sm_files m) = 1"
proof -
  let ?e = "\<lambda>i. demo_events ! i"
  obtain m0 where m0: "new_meta demo_stingar (?e 0) = Inr m0"
  proof -
    have "res_ok (\<lambda>_. True) (new_meta demo_stingar (?e 0))" by code_simp
    then show ?thesis using that by (rule res_okE)
  qed
  have es: "demo_events = ?e 0 # [?e 1, ?e 2] @ [?e 3]" by (simp add: demo_events_def)
  have f: "\<not> (\<exists>err. final_meta demo_disk demo_stingar (?e 3) (fold (apply_event demo_disk) [?e 1, ?e 2] m0) = Inl err)"
  proof -
    have "res_ok (\<lambda>_. True) (rbind (new_meta demo_stingar (?e 0)) (\<lambda>m0.
        final_meta demo_disk demo_stingar (?e 3) (fold (apply_event demo_disk) [?e 1, ?e 2] m0)))" by code_simp
    then show ?thesis by (auto simp: m0 res_ok_iff)
  qed
  have n: "length (List.map_filter ev_credential [?e 1, ?e 2]) = 1" "length (List.map_filter ev_file [?e 1, ?e 2]) = 1"
    by code_simp+
  have h: "hashable (pstr ''s1'')" "pstr ''s1'' \<noteq> PNone" "sg_sender demo_stingar"
    "session_of (?e 0) = pstr ''s1''" "event_name (?e 0) = u ''cowrie.session.connect''"
    "list_all (mid_event (pstr ''s1'')) [?e 1, ?e 2]"
    "session_of (?e 3) = pstr ''s1''" "event_name (?e 3) = u ''cowrie.session.closed''" by code_simp+
  have "sg_emitted demo_stingar = []" by (simp add: demo_stingar_def)
  with session_document [OF h(1-5) m0 h(6-8), of demo_disk, folded es] f n show ?thesis
    by (auto dest!: list_all2_lengthD)
qed

end
