(* ===== verification/Url_Fetcher.thy ===== *)
theory Url_Fetcher
  imports Sensor Pipeline "HOL-Library.Multiset"
begin

text \<open>
  \<^verbatim>\<open>sensor/cowrie/src/cowrie/output/urlfetcher.py\<close>: the plugin that fetches the URLs of an
  attacker's command at attack time.  Extraction shares the wrapper patterns and the bounded search
  of the engine's unwrapper; the guard reads addresses as numbers; the worker's world (name
  resolution, the remote server, the downloads directory) is a parameter and a state.  Fetches are
  jobs handed to worker threads; a job runs as one step.
\<close>

section \<open>Addresses as numbers\<close>

definition ipv4_value :: "pystr \<Rightarrow> int" where
  "ipv4_value s = foldl (\<lambda>a p. a * 256 + dec_value 0 p) 0 (split_on 46 s)"

definition hex_digit_value :: "int \<Rightarrow> int" where
  "hex_digit_value c = (if ascii_digit c then c - 48 else if c < 97 then c - 55 else c - 87)"

definition hextet_value :: "pystr \<Rightarrow> int" where
  "hextet_value s = foldl (\<lambda>a c. a * 16 + hex_digit_value c) 0 s"

text \<open>The eight groups of an IPv6 literal: the empty part in the middle stands for the zeros left out.\<close>

definition ipv6_groups :: "pystr list \<Rightarrow> int list" where
  "ipv6_groups ps =
     (case inner_empty ps of
        [] \<Rightarrow> map hextet_value ps
      | i # _ \<Rightarrow>
          (let hi = (if hd ps = [] then i - 1 else i);
               lo0 = length ps - i - 1;
               lo = (if last ps = [] then lo0 - 1 else lo0)
           in map hextet_value (take hi ps) @ replicate (8 - hi - lo) 0 @ map hextet_value (drop (length ps - lo) ps)))"

definition ipv6_value :: "pystr \<Rightarrow> int" where
  "ipv6_value s =
     (let ps = split_on 58 (fst (split1 37 s));
          num = (\<lambda>qs. foldl (\<lambda>a g. a * 65536 + g) 0 (ipv6_groups qs))
      in if 46 \<in> set (last ps) then num (butlast ps @ [u ''0'', u ''0'']) + ipv4_value (last ps) else num ps)"

text \<open>A network: its address and the number of bits left for hosts.\<close>

type_synonym network = "int \<times> nat"

definition in_network :: "int \<Rightarrow> network \<Rightarrow> bool" where
  "in_network a net \<longleftrightarrow> a div 2 ^ snd net = fst net div 2 ^ snd net"

definition net4 :: "int \<Rightarrow> int \<Rightarrow> int \<Rightarrow> int \<Rightarrow> nat \<Rightarrow> network" where
  "net4 a b c d len = (((a * 256 + b) * 256 + c) * 256 + d, 32 - len)"

definition SKIP_IPV4 :: "network list" where
  "SKIP_IPV4 =
     [net4 0 0 0 0 8, net4 10 0 0 0 8, net4 100 64 0 0 10, net4 127 0 0 0 8, net4 169 254 0 0 16,
      net4 172 16 0 0 12, net4 192 0 0 0 24, net4 192 0 2 0 24, net4 192 168 0 0 16, net4 198 18 0 0 15,
      net4 198 51 100 0 24, net4 203 0 113 0 24, net4 224 0 0 0 4, net4 240 0 0 0 4]"

definition net6 :: "int \<Rightarrow> int \<Rightarrow> nat \<Rightarrow> network" where
  "net6 high low len = (high * 2 ^ 96 + low, 128 - len)"   \<comment> \<open>the first 32 bits and the last 96\<close>

definition SKIP_IPV6 :: "network list" where
  "SKIP_IPV6 =
     [net6 0 1 128, net6 0 0 128, net6 0xFC000000 0 7, net6 0xFE800000 0 10, net6 0xFF000000 0 8,
      net6 0x20010DB8 0 32]"

definition ip_is_private :: "pystr \<Rightarrow> bool" where
  "ip_is_private s =
     (if is_ipv4 s then list_ex (in_network (ipv4_value s)) SKIP_IPV4
      else if is_ipv6 s then list_ex (in_network (ipv6_value s)) SKIP_IPV6
      else False)"

section \<open>Extraction\<close>

definition NATIVE_DOWNLOADERS :: "pystr list" where
  "NATIVE_DOWNLOADERS = [u ''wget'', u ''curl'', u ''tftp'', u ''ftpget'', u ''scp'']"

definition SHELL_SEPARATORS :: rx where
  "SHELL_SEPARATORS = ralt [rlit ''&&'', rlit ''||'', rplus (In (oneof '';&|'' @ [One 10]))]"

definition FETCH_RE_URL :: rx where
  "FETCH_RE_URL = RE_URL"

text \<open>\<^verbatim>\<open>pattern.split(s)\<close> for a pattern without groups.\<close>

fun split_pieces :: "pystr \<Rightarrow> piece list \<Rightarrow> pystr list" where
  "split_pieces acc [] = [rev acc]"
| "split_pieces acc (Plain c # ps) = split_pieces (c # acc) ps"
| "split_pieces acc (Hit m # ps) = rev acc # split_pieces [] ps"

definition rx_split :: "('x) ext_scheme \<Rightarrow> rx \<Rightarrow> pystr \<Rightarrow> pystr list" where
  "rx_split E r s = split_pieces [] (scan (str_class E) False r (start_pos s))"

definition segment_dispatches_to_native :: "pystr \<Rightarrow> bool" where
  "segment_dispatches_to_native seg =
     (case py_split (py_strip seg) of
        [] \<Rightarrow> False
      | t # _ \<Rightarrow> last (split_on 47 t) \<in> set NATIVE_DOWNLOADERS)"

definition SHELL_DASH_C :: rx where
  "SHELL_DASH_C =
     rseq [ropt (RSeq (rlit ''nohup'') (rplus (In [Space]))),
           ralt [rlit ''bash'', rlit ''sh'', rlit ''$SHELL'', rlit ''/bin/bash'', rlit ''/bin/sh''],
           rplus (In [Space]), rlit ''-c'', rplus (In [Space]), RChr (In quote_items),
           RGrp 1 (RRep 1 None False (RChr AnyChar)), RChr (In quote_items)]"

definition MAX_UNWRAP_DEPTH :: nat where
  "MAX_UNWRAP_DEPTH = 4"

text \<open>The first four patterns and the decoding of base64 are those of the engine.\<close>

definition fetch_unwrap_once :: "('x) ext_scheme \<Rightarrow> pystr \<Rightarrow> pystr list" where
  "fetch_unwrap_once E s =
     unwrap_once E s @ map group1 (rx_finditer (str_class E) True SHELL_DASH_C s)"

definition inner_texts :: "('x) ext_scheme \<Rightarrow> pystr \<Rightarrow> pystr list" where
  "inner_texts E cmd = tl (expand_loop (fetch_unwrap_once E) MAX_UNWRAP_DEPTH [cmd] [cmd])"

definition outer_segments :: "('x) ext_scheme \<Rightarrow> pystr \<Rightarrow> pystr list" where
  "outer_segments E cmd =
     filter (\<lambda>seg. \<not> segment_dispatches_to_native seg) (rx_split E SHELL_SEPARATORS cmd)"

text \<open>\<^verbatim>\<open>_take\<close> over all matches: punctuation stripped, empty ones dropped, each once.\<close>

definition urls_in :: "('x) ext_scheme \<Rightarrow> pystr \<Rightarrow> pystr list" where
  "urls_in E s = map strip_url_punct (rx_findall (str_class E) True FETCH_RE_URL s)"

definition extract_urls :: "('x) ext_scheme \<Rightarrow> pystr \<Rightarrow> pystr list" where
  "extract_urls E cmd =
     dedupe_acc [] (filter (\<lambda>x. x \<noteq> []) (concat (map (urls_in E) (outer_segments E cmd @ inner_texts E cmd))))"

section \<open>The guard\<close>

definition FETCH_SCHEMES :: "pystr list" where
  "FETCH_SCHEMES = [u ''http'', u ''https'', u ''ftp'', u ''tftp'']"

definition url_is_fetchable :: "('x) ext_scheme \<Rightarrow> pystr \<Rightarrow> bool" where
  "url_is_fetchable E url =
     (case urlsplit E url of
        Inl _ \<Rightarrow> False
      | Inr r \<Rightarrow>
          py_lower E (sr_scheme r) \<in> set FETCH_SCHEMES \<and>
          (case sr_hostname E r of None \<Rightarrow> False | Some h \<Rightarrow> h \<noteq> [] \<and> \<not> ip_is_private h))"

section \<open>The plugin\<close>

record fetcher =
  uf_download_path :: pystr
  uf_max_bytes :: int
  uf_fetched :: "pystr list"

type_synonym job = "pystr \<times> pyval"   \<comment> \<open>the URL and the session it was seen in\<close>

fun schedule :: "('x) ext_scheme \<Rightarrow> pyval \<Rightarrow> pystr list \<Rightarrow> fetcher \<Rightarrow> fetcher \<times> job list" where
  "schedule E sid [] uf = (uf, [])"
| "schedule E sid (url # us) uf =
     (if url \<in> set (uf_fetched uf) then schedule E sid us uf
      else
        (let uf1 = uf\<lparr>uf_fetched := url # uf_fetched uf\<rparr>; (uf2, js) = schedule E sid us uf1 in
         if url_is_fetchable E url then (uf2, (url, sid) # js) else (uf2, js)))"

definition fetcher_write :: "('x) ext_scheme \<Rightarrow> pydict \<Rightarrow> fetcher \<Rightarrow> (fetcher \<times> job list) res" where
  "fetcher_write E e uf =
     (if dget e ''eventid'' \<noteq> pstr ''cowrie.command.input'' then Inr (uf, [])
      else
        (let cmd = dget_or e ''input'' (PStr []) in
         if \<not> truthy cmd then Inr (uf, [])
         else case cmd of
                PStr s \<Rightarrow> Inr (schedule E (dget_or e ''session'' (PStr [])) (extract_urls E s) uf)
              | _ \<Rightarrow> Inl TypeError))"

section \<open>The worker\<close>

text \<open>The outcome of opening a URL: chunks as they are read, then the end or an error.\<close>

datatype fetch_out = Stream "bytes list" "pyerr option" | FetchHttp int | FetchFail pyerr

record net =
  gethostbyname :: "pystr \<Rightarrow> pystr res"
  open_url :: "pystr \<Rightarrow> fetch_out"
  disk_full :: "pystr \<Rightarrow> bool"     \<comment> \<open>writing or renaming to the path fails\<close>

record worker =
  wk_files :: "(pystr \<times> bytes) list"
  wk_gets :: "(pystr \<times> pystr option) list"   \<comment> \<open>the URLs opened, with the address checked for each\<close>
  wk_events :: "pydict list"

fun read_chunks :: "int \<Rightarrow> int \<Rightarrow> bytes list \<Rightarrow> pyerr option \<Rightarrow> bytes res" where
  "read_chunks maxb tot [] err =
     (if tot < maxb then (case err of Some e \<Rightarrow> Inl e | None \<Rightarrow> Inr []) else Inr [])"
| "read_chunks maxb tot (c # cs) err =
     (if tot < maxb then
        (if c = [] then Inr []
         else rbind (read_chunks maxb (tot + int (length c)) cs err) (\<lambda>bs. Inr (c @ bs)))
      else Inr [])"

definition do_get :: "net \<Rightarrow> int \<Rightarrow> pystr \<Rightarrow> bytes option res" where
  "do_get W maxb url =
     (case open_url W url of
        FetchHttp c \<Rightarrow> if 400 \<le> c then Inr None else Inl (HTTPError c)
      | FetchFail e \<Rightarrow> Inl e
      | Stream cs err \<Rightarrow> rbind (read_chunks maxb 0 cs err) (\<lambda>bs. Inr (Some (take (nat maxb) bs))))"

definition resolve_host :: "net \<Rightarrow> pystr \<Rightarrow> pystr option res" where
  "resolve_host W host =
     (if is_ipv4 host \<or> is_ipv6 host then Inr (Some host)
      else case gethostbyname W host of
             Inr a \<Rightarrow> Inr (Some a)
           | Inl e \<Rightarrow> if e = OSError then Inr None else Inl e)"

definition file_download_event :: "pyval \<Rightarrow> pystr \<Rightarrow> pystr \<Rightarrow> pystr \<Rightarrow> int \<Rightarrow> pystr \<Rightarrow> pydict" where
  "file_download_event sid url outfile sha len ip = map (\<lambda>(k, v). (key k, v))
     [(''eventid'', PStr DOWNLOAD), (''session'', sid), (''url'', PStr url), (''outfile'', PStr outfile),
      (''shasum'', PStr sha), (''size'', PInt len), (''resolved_ip'', PStr ip)]"

definition store_content ::
  "('x) ext_scheme \<Rightarrow> net \<Rightarrow> fetcher \<Rightarrow> job \<Rightarrow> pystr option \<Rightarrow> bytes \<Rightarrow> worker \<Rightarrow> worker" where
  "store_content E W uf j ip bs wk =
     (let sha = h_sha256 E bs; target = path_join (uf_download_path uf) sha;
          known = map_of (wk_files wk) target \<noteq> None in
      if \<not> known \<and> disk_full W target then wk
      else
        (let wk1 = (if known then wk else wk\<lparr>wk_files := AList.update target bs (wk_files wk)\<rparr>) in
         if truthy (snd j)
         then wk1\<lparr>wk_events := wk_events wk @ [file_download_event (snd j) (fst j) target sha (int (length bs))
                    (case ip of Some a \<Rightarrow> a | None \<Rightarrow> [])]\<rparr>
         else wk1))"

definition resolves_private :: "pystr option \<Rightarrow> bool" where
  "resolves_private ip = (case ip of Some a \<Rightarrow> a \<noteq> [] \<and> ip_is_private a | None \<Rightarrow> False)"

definition fetch_and_store :: "('x) ext_scheme \<Rightarrow> net \<Rightarrow> fetcher \<Rightarrow> job \<Rightarrow> (worker, unit) eff" where
  "fetch_and_store E W uf j wk =
     (case rbind (url_host E (fst j)) (resolve_host W) of
        Inl e \<Rightarrow> (Inl e, wk)
      | Inr ip \<Rightarrow>
          if resolves_private ip then (Inr (), wk)
          else
            (let wk1 = wk\<lparr>wk_gets := wk_gets wk @ [(fst j, ip)]\<rparr> in
             case do_get W (uf_max_bytes uf) (fst j) of
               Inl _ \<Rightarrow> (Inr (), wk1)
             | Inr None \<Rightarrow> (Inr (), wk1)
             | Inr (Some bs) \<Rightarrow>
                 if bs = [] then (Inr (), wk1) else (Inr (), store_content E W uf j ip bs wk1)))"

lemmas fetcher_eval [py_eval] = ipv4_value_def hex_digit_value_def hextet_value_def ipv6_groups_def ipv6_value_def
  in_network_def net4_def SKIP_IPV4_def net6_def SKIP_IPV6_def ip_is_private_def NATIVE_DOWNLOADERS_def
  SHELL_SEPARATORS_def FETCH_RE_URL_def rx_split_def segment_dispatches_to_native_def SHELL_DASH_C_def
  MAX_UNWRAP_DEPTH_def fetch_unwrap_once_def inner_texts_def outer_segments_def urls_in_def extract_urls_def
  FETCH_SCHEMES_def url_is_fetchable_def fetcher_write_def do_get_def resolve_host_def file_download_event_def
  store_content_def resolves_private_def fetch_and_store_def

section \<open>What is extracted\<close>

lemma inner_texts_reach:
  "set (inner_texts E cmd) \<union> {cmd} = {t. \<exists>n \<le> MAX_UNWRAP_DEPTH. unwraps (fetch_unwrap_once E) n cmd t}"
proof -
  let ?l = "expand_loop (fetch_unwrap_once E) MAX_UNWRAP_DEPTH [cmd] [cmd]"
  have "set ?l = Shell_Unwrap.within (fetch_unwrap_once E) MAX_UNWRAP_DEPTH cmd"
    using expand_loop_set [of "[cmd]" "fetch_unwrap_once E" 0 cmd "[cmd]" MAX_UNWRAP_DEPTH] by auto
  moreover obtain rest where "?l = cmd # rest"
    using expand_loop_prefix [of "[cmd]" "fetch_unwrap_once E" MAX_UNWRAP_DEPTH "[cmd]"] by (auto simp: prefix_def)
  ultimately show ?thesis by (auto simp: inner_texts_def Shell_Unwrap.within_def)
qed

text \<open>
  The plugin and Cowrie's own downloaders do not fetch the same thing twice: a URL is taken from
  a command exactly when it stands in a segment that is not dispatched to a native downloader, or in
  a payload at most four unwrappings deep, and it is taken once.
\<close>

theorem extract_urls_exact:
  "distinct (extract_urls E cmd) \<and>
   set (extract_urls E cmd) = {x. x \<noteq> [] \<and>
     ((\<exists>seg \<in> set (rx_split E SHELL_SEPARATORS cmd). \<not> segment_dispatches_to_native seg \<and> x \<in> set (urls_in E seg)) \<or>
      (\<exists>t \<in> set (inner_texts E cmd). x \<in> set (urls_in E t)))}"
  by (auto simp: extract_urls_def distinct_dedupe_acc set_dedupe_acc outer_segments_def)

section \<open>What is contacted\<close>

lemma subseq_members: "subseq xs ys \<Longrightarrow> set xs \<subseteq> set ys \<and> (distinct ys \<longrightarrow> distinct xs)"
  by (induction rule: list_emb.induct) auto

lemma schedule_spec:
  assumes "schedule E sid us uf = (uf', js)"
  shows "set (uf_fetched uf') = set (uf_fetched uf) \<union> set us \<and> distinct (map fst js) \<and>
    (\<forall>j \<in> set js. url_is_fetchable E (fst j) \<and> fst j \<in> set us \<and> fst j \<notin> set (uf_fetched uf) \<and> snd j = sid)"
  using assms
proof (induction us arbitrary: uf uf' js)
  case (Cons url us)
  show ?case
  proof (cases "url \<in> set (uf_fetched uf)")
    case True
    with Cons.prems have "schedule E sid us uf = (uf', js)" by simp
    from Cons.IH [OF this] True show ?thesis by auto
  next
    case False
    obtain uf2 js2 where r: "schedule E sid us (uf\<lparr>uf_fetched := url # uf_fetched uf\<rparr>) = (uf2, js2)"
      by (cases "schedule E sid us (uf\<lparr>uf_fetched := url # uf_fetched uf\<rparr>)")
    with Cons.prems False have "uf' = uf2" "js = (if url_is_fetchable E url then (url, sid) # js2 else js2)"
      by (auto split: if_splits)
    with Cons.IH [OF r] False show ?thesis by auto
  qed
qed simp

text \<open>The plugin over a sequence of events; an entry that raises schedules nothing.\<close>

fun run_commands :: "('x) ext_scheme \<Rightarrow> pydict list \<Rightarrow> fetcher \<Rightarrow> fetcher \<times> job list" where
  "run_commands E [] uf = (uf, [])"
| "run_commands E (e # es) uf =
     (case fetcher_write E e uf of
        Inl _ \<Rightarrow> run_commands E es uf
      | Inr (uf1, js) \<Rightarrow> (let (uf2, ks) = run_commands E es uf1 in (uf2, js @ ks)))"

lemma fetcher_write_spec:
  assumes "fetcher_write E e uf = Inr (uf', js)"
  shows "set (uf_fetched uf) \<subseteq> set (uf_fetched uf') \<and> distinct (map fst js) \<and>
    (\<forall>j \<in> set js. url_is_fetchable E (fst j) \<and> fst j \<in> set (uf_fetched uf') \<and> fst j \<notin> set (uf_fetched uf))"
proof -
  consider "uf' = uf" "js = []" | sid us where "schedule E sid us uf = (uf', js)"
    using assms by (auto simp: fetcher_write_def Let_def split: if_splits pyval.splits)
  then show ?thesis by cases (use schedule_spec in fastforce)+
qed

lemma run_commands_spec:
  assumes "run_commands E es uf = (uf', js)"
  shows "distinct (map fst js) \<and> (\<forall>j \<in> set js. url_is_fetchable E (fst j) \<and> fst j \<notin> set (uf_fetched uf))"
  using assms
proof (induction es arbitrary: uf js)
  case (Cons e es)
  show ?case
  proof (cases "fetcher_write E e uf")
    case (Inl err)
    with Cons show ?thesis by simp
  next
    case (Inr a)
    obtain uf1 js1 where a: "a = (uf1, js1)" by (cases a)
    obtain uf2 js2 where r: "run_commands E es uf1 = (uf2, js2)" by (cases "run_commands E es uf1")
    have js: "js = js1 @ js2" using Cons.prems Inr a r by simp
    from Cons.IH r Cons.prems Inr a have i: "distinct (map fst js2)"
      "\<forall>j \<in> set js2. url_is_fetchable E (fst j) \<and> fst j \<notin> set (uf_fetched uf1)" by auto
    from fetcher_write_spec [of E e uf uf1 js1] Inr a have w: "set (uf_fetched uf) \<subseteq> set (uf_fetched uf1)"
      "distinct (map fst js1)" "\<forall>j \<in> set js1. url_is_fetchable E (fst j) \<and> fst j \<in> set (uf_fetched uf1) \<and>
         fst j \<notin> set (uf_fetched uf)" by simp_all
    have "fst ` set js1 \<inter> fst ` set js2 = {}" using i(2) w(3) by force
    with i w show ?thesis unfolding js by auto
  qed
qed simp

definition run_jobs :: "('x) ext_scheme \<Rightarrow> net \<Rightarrow> fetcher \<Rightarrow> job list \<Rightarrow> worker \<Rightarrow> worker" where
  "run_jobs E W uf js wk = fold (\<lambda>j wk. snd (fetch_and_store E W uf j wk)) js wk"

lemma store_content_gets [simp]: "wk_gets (store_content E W uf j ip bs wk) = wk_gets wk"
  by (simp add: store_content_def Let_def)

lemma fetch_gets:
  "wk_gets (snd (fetch_and_store E W uf j wk)) = wk_gets wk \<or>
   (\<exists>ip. \<not> resolves_private ip \<and> wk_gets (snd (fetch_and_store E W uf j wk)) = wk_gets wk @ [(fst j, ip)])"
  by (auto simp: fetch_and_store_def Let_def split: sum.splits option.splits)

lemma run_jobs_gets:
  "\<exists>gs. wk_gets (run_jobs E W uf js wk) = wk_gets wk @ gs \<and> subseq (map fst gs) (map fst js) \<and>
     list_all (\<lambda>g. \<not> resolves_private (snd g)) gs"
proof (induction js arbitrary: wk)
  case (Cons j js)
  let ?wk = "snd (fetch_and_store E W uf j wk)"
  obtain gs where gs: "wk_gets (run_jobs E W uf js ?wk) = wk_gets ?wk @ gs" "subseq (map fst gs) (map fst js)"
    "list_all (\<lambda>g. \<not> resolves_private (snd g)) gs" using Cons by blast
  have r: "run_jobs E W uf (j # js) wk = run_jobs E W uf js ?wk" by (simp add: run_jobs_def)
  from fetch_gets [of E W uf j wk] show ?case
  proof
    assume "wk_gets ?wk = wk_gets wk"
    with gs show ?thesis unfolding r by (intro exI [of _ gs]) (auto intro: list_emb_Cons)
  next
    assume "\<exists>ip. \<not> resolves_private ip \<and> wk_gets ?wk = wk_gets wk @ [(fst j, ip)]"
    then obtain ip where "\<not> resolves_private ip" "wk_gets ?wk = wk_gets wk @ [(fst j, ip)]" by blast
    with gs show ?thesis unfolding r by (intro exI [of _ "(fst j, ip) # gs"]) auto
  qed
qed (simp add: run_jobs_def)

lemma url_is_fetchableE:
  assumes "url_is_fetchable E url"
  obtains r host where "urlsplit E url = Inr r" "sr_hostname E r = Some host" "host \<noteq> []"
    "\<not> ip_is_private host" "py_lower E (sr_scheme r) \<in> {u ''http'', u ''https'', u ''ftp'', u ''tftp''}"
  using assms by (auto simp: url_is_fetchable_def FETCH_SCHEMES_def split: sum.splits option.splits)


section \<open>The downloads directory\<close>

text \<open>hashlib gives hexadecimal text, so the name of a file does not start with a slash.\<close>

definition file_named :: "('x) ext_scheme \<Rightarrow> fetcher \<Rightarrow> pystr \<Rightarrow> bytes \<Rightarrow> bool" where
  "file_named E uf p bs \<longleftrightarrow> p = path_join (uf_download_path uf) (h_sha256 E bs) \<and> bs \<noteq> [] \<and>
     int (length bs) \<le> uf_max_bytes uf"

definition event_backed :: "('x) ext_scheme \<Rightarrow> fetcher \<Rightarrow> worker \<Rightarrow> pydict \<Rightarrow> bool" where
  "event_backed E uf wk e \<longleftrightarrow>
     (\<exists>p bs. dget e ''outfile'' = PStr p \<and> map_of (wk_files wk) p = Some bs \<and> dget e ''shasum'' = PStr (h_sha256 E bs))"

definition downloads_ok :: "('x) ext_scheme \<Rightarrow> fetcher \<Rightarrow> worker \<Rightarrow> bool" where
  "downloads_ok E uf wk \<longleftrightarrow> digests_plain E \<and>
     (\<forall>p bs. map_of (wk_files wk) p = Some bs \<longrightarrow> file_named E uf p bs) \<and>
     (\<forall>e \<in> set (wk_events wk). event_backed E uf wk e)"

lemma do_get_length: "do_get W maxb url = Inr (Some bs) \<Longrightarrow> bs \<noteq> [] \<Longrightarrow> int (length bs) \<le> maxb"
  by (auto simp: do_get_def rbind_eq_Inr split: fetch_out.splits if_splits)

lemma event_fields:
  "dget (file_download_event sid url p sha n ip) ''outfile'' = PStr p"
  "dget (file_download_event sid url p sha n ip) ''shasum'' = PStr sha"
  by (simp_all add: file_download_event_def dget_def)

lemma store_content_ok:
  assumes ok: "downloads_ok E uf wk" and bs: "bs \<noteq> []" "int (length bs) \<le> uf_max_bytes uf"
  shows "downloads_ok E uf (store_content E W uf j ip bs wk)"
proof -
  let ?sha = "h_sha256 E bs" let ?p = "path_join (uf_download_path uf) ?sha"
  have plain: "\<not> startswith (h_sha256 E b) (u ''/'')" for b
    using ok by (simp add: downloads_ok_def digests_plain_def)
  show ?thesis
  proof (cases "map_of (wk_files wk) ?p")
    case None
    let ?fs = "AList.update ?p bs (wk_files wk)"
    have wk: "downloads_ok E uf (wk\<lparr>wk_files := ?fs, wk_events := wk_events wk @ evs\<rparr>)"
      if "set evs \<subseteq> {file_download_event sid url ?p ?sha n a |sid url n a. True}" for evs
    proof -
      have "event_backed E uf (wk\<lparr>wk_files := ?fs, wk_events := wk_events wk @ evs\<rparr>) e" if "e \<in> set (wk_events wk)" for e
        using that ok None by (force simp: downloads_ok_def event_backed_def update_conv')
      moreover have "event_backed E uf (wk\<lparr>wk_files := ?fs, wk_events := wk_events wk @ evs\<rparr>)
          (file_download_event sid url ?p ?sha n a)" for sid url n a
        by (simp add: event_backed_def event_fields update_conv')
      moreover have "file_named E uf q b" if "map_of ?fs q = Some b" for q b
        using that ok bs by (auto simp: update_conv' downloads_ok_def file_named_def split: if_splits)
      ultimately show ?thesis
        using ok that by (auto simp: downloads_ok_def)
    qed
    have wk0: "downloads_ok E uf (wk\<lparr>wk_files := ?fs\<rparr>)" using wk [of "[]"] by simp
    show ?thesis
      unfolding store_content_def Let_def None
      by (simp add: ok wk0) (intro impI wk, auto)
  next
    case (Some b)
    then have "file_named E uf ?p b" using ok by (simp add: downloads_ok_def)
    then have "h_sha256 E b = ?sha"
      using path_join_inject [OF _ plain plain, of "uf_download_path uf" b bs] by (simp add: file_named_def)
    with Some have "event_backed E uf wk (file_download_event sid url ?p ?sha n a)" for sid url n a
      by (auto simp: event_backed_def event_fields)
    moreover have "event_backed E uf (wk\<lparr>wk_events := evs\<rparr>) e = event_backed E uf wk e" for e evs
      by (simp add: event_backed_def)
    ultimately show ?thesis
      using ok Some by (auto simp: store_content_def Let_def downloads_ok_def)
  qed
qed

lemma downloads_ok_gets [simp]: "downloads_ok E uf (wk\<lparr>wk_gets := gs\<rparr>) = downloads_ok E uf wk"
  by (simp add: downloads_ok_def event_backed_def)

interpretation downloads: invariant_machine
  "\<lambda>j wk. snd (fetch_and_store E W uf j wk)" "downloads_ok E uf" "\<lambda>_. True" for E W uf
proof
  fix wk and j :: job
  assume ok: "downloads_ok E uf wk"
  have "downloads_ok E uf (store_content E W uf j ip bs (wk\<lparr>wk_gets := gs\<rparr>))"
    if "do_get W (uf_max_bytes uf) (fst j) = Inr (Some bs)" "bs \<noteq> []" for ip bs gs
    using store_content_ok [of E uf "wk\<lparr>wk_gets := gs\<rparr>" bs W j ip] do_get_length [OF that] that ok by simp
  with ok show "downloads_ok E uf (snd (fetch_and_store E W uf j wk))"
    by (auto simp: fetch_and_store_def Let_def split: sum.splits option.splits)
qed


section \<open>What the guard does not see\<close>

lemma is_ipv4_chars:
  assumes "is_ipv4 s" "c \<in> set s"
  shows "ascii_digit c \<or> c = 46"
proof -
  have sub: "set s \<subseteq> {d} \<union> (\<Union>p \<in> set (split_on d s). set p)" for d s
  proof (induction s)
    case (Cons x s)
    then show ?case by (cases "split_on d s") auto
  qed simp
  from sub [of s 46] assms show ?thesis
    by (auto simp: is_ipv4_def octet_ok_def list_all_iff)
qed

lemma ipv4_value_bounds:
  assumes "is_ipv4 s"
  shows "0 \<le> ipv4_value s" "ipv4_value s < 2 ^ 32"
proof -
  obtain a b c d where ps: "split_on 46 s = [a, b, c, d]"
    using assms by (auto simp: is_ipv4_def numeral_eq_Suc length_Suc_conv)
  have "0 \<le> dec_value 0 p" "dec_value 0 p \<le> 255" if "p \<in> set [a, b, c, d]" for p
    using assms that dec_value_nonneg [of 0 p] by (auto simp: is_ipv4_def ps octet_ok_def)
  from this [of a] this [of b] this [of c] this [of d]
  show "0 \<le> ipv4_value s" "ipv4_value s < 2 ^ 32"
    by (simp_all add: ipv4_value_def ps)
qed

text \<open>
  The guard tests an IPv4 address only when it is written as one: the IPv4-mapped IPv6 form of
  any address, private or not, is never private to it.
\<close>

theorem mapped_addresses_pass:
  assumes "is_ipv4 s"
  shows "is_ipv6 (u ''::ffff:'' @ s) \<and> ipv6_value (u ''::ffff:'' @ s) = 0xFFFF * 2 ^ 32 + ipv4_value s \<and>
    \<not> ip_is_private (u ''::ffff:'' @ s)"
proof -
  let ?m = "u ''::ffff:'' @ s"
  have nc: "58 \<notin> set s" "37 \<notin> set s" "47 \<notin> set s"
    using is_ipv4_chars [OF assms, of 58] is_ipv4_chars [OF assms, of 37] is_ipv4_chars [OF assms, of 47]
    by (auto simp: ascii_digit_def)
  have dot: "46 \<in> set s"
  proof (rule ccontr)
    assume "46 \<notin> set s"
    then have "split_on 46 s = [s]" by (rule split_on_notin)
    with assms show False by (simp add: is_ipv4_def)
  qed
  have pre: "u ''::ffff:'' = [58, 58, 102, 102, 102, 102, 58]" by (simp add: u_def)
  have sp: "split_on 58 ?m = [[], [], u ''ffff'', s]" using split_on_notin [OF nc(1)] by (simp add: pre u_def)
  have z: "split1 37 x = (x, None)" if "37 \<notin> set x" for x
    using that by (induction x) auto
  have z37: "split1 37 ?m = (?m, None)" using z [of ?m] nc by (auto simp: pre)
  have e: "inner_empty [[], [], u ''ffff'', u ''0'', u ''0''] = [1]" by code_simp
  have g: "ipv6_groups [[], [], u ''ffff'', u ''0'', u ''0''] = [0, 0, 0, 0, 0, 65535, 0, 0]" by code_simp
  have ok: "ipv6_parts_ok [[], [], u ''ffff'', u ''0'', u ''0'']" by code_simp
  have "47 \<notin> set ?m" using nc(3) by (simp add: pre)
  moreover have "ipv6_body_ok ?m" using ok dot assms by (simp add: ipv6_body_ok_def sp)
  ultimately have six: "is_ipv6 ?m" by (simp only: is_ipv6_def z37) simp
  have v: "ipv6_value ?m = 0xFFFF * 2 ^ 32 + ipv4_value s"
    using dot by (simp add: ipv6_value_def z37 sp g)
  have four: "\<not> is_ipv4 ?m"
    using is_ipv4_chars [of ?m 58] by (auto simp: pre ascii_digit_def)
  have "\<not> list_ex (in_network (ipv6_value ?m)) SKIP_IPV6"
    using ipv4_value_bounds [OF assms] unfolding v
    by (simp add: SKIP_IPV6_def net6_def in_network_def)
  with six v four show ?thesis by (simp add: ip_is_private_def)
qed

section \<open>From the remote server to the engine\<close>

lemma decode_inlined:
  assumes "f_content_b64 f = Some (b64_encode bs)" "bs \<noteq> []"
  shows "decode_bytes f = Some bs"
proof -
  have "b64_encode bs \<noteq> []" using assms(2) by (cases bs rule: b64_encode.cases) simp_all
  then show ?thesis by (simp add: decode_bytes_def opt_str_def assms(1) b64_decode_encode)
qed

definition fetched :: "('x) ext_scheme \<Rightarrow> net \<Rightarrow> fetcher \<Rightarrow> job \<Rightarrow> bytes \<Rightarrow> bool" where
  "fetched E W uf j bs \<longleftrightarrow> bs \<noteq> [] \<and> do_get W (uf_max_bytes uf) (fst j) = Inr (Some bs) \<and>
     (\<exists>ip. rbind (url_host E (fst j)) (resolve_host W) = Inr ip \<and> \<not> resolves_private ip) \<and>
     \<not> disk_full W (path_join (uf_download_path uf) (h_sha256 E bs))"

lemma capture_of_download:
  "event_name (file_download_event sid url p sha n ip) = DOWNLOAD"
  "cf_action (capture_of DOWNLOAD e) = u ''download''" "cf_status (capture_of DOWNLOAD e) = u ''successful''"
  "cf_outfile (capture_of DOWNLOAD (file_download_event sid url p sha n ip)) = PStr p"
  "cf_shasum (capture_of DOWNLOAD (file_download_event sid url p sha n ip)) = PStr sha"
proof -
  have "sublist (u ''download'') DOWNLOAD" "\<not> endswith DOWNLOAD (u ''.failed'')" by code_simp+
  then show "cf_action (capture_of DOWNLOAD e) = u ''download''" "cf_status (capture_of DOWNLOAD e) = u ''successful''"
    by (simp_all add: capture_of_def)
qed (simp_all add: capture_of_def file_download_event_def event_name_def dget_or_def)

text \<open>
  What the remote server sent is what the engine analyses: a fetch that gets bytes into the
  downloads directory emits one event, and a sensor that reads that directory turns the event into a
  file entry with the hash of these bytes and a content field from which the engine decodes exactly
  them.
\<close>

theorem fetched_bytes_reach_engine:
  assumes "fetched E W uf j bs" "truthy (snd j)" "fetch_and_store E W uf j wk = (r, wk')"
    and "map_of (wk_files wk) (path_join (uf_download_path uf) (h_sha256 E bs)) = None"
    and "path_join (uf_download_path uf) (h_sha256 E bs) \<noteq> []"
    and "\<And>p b. map_of (wk_files wk') p = Some b \<Longrightarrow> getsize D (PStr p) = Inr (int (length b)) \<and> read_file D (PStr p) = Inr b"
    and "int (length bs) \<le> imax"
  shows "r = Inr () \<and> (\<exists>ev c. wk_events wk' = wk_events wk @ [ev] \<and> inline_one D imax (capture_of (event_name ev) ev) = Inr c \<and>
    cf_shasum c = PStr (h_sha256 E bs) \<and> (\<forall>f. f_content_b64 f = cf_content_b64 c \<longrightarrow> decode_bytes f = Some bs))"
proof -
  let ?p = "path_join (uf_download_path uf) (h_sha256 E bs)"
  obtain ip where ip: "rbind (url_host E (fst j)) (resolve_host W) = Inr ip" "\<not> resolves_private ip"
    using assms(1) by (auto simp: fetched_def)
  let ?ev = "file_download_event (snd j) (fst j) ?p (h_sha256 E bs) (int (length bs)) (case ip of Some a \<Rightarrow> a | None \<Rightarrow> [])"
  let ?c = "capture_of DOWNLOAD ?ev"
  have wk': "r = Inr ()" "wk_files wk' = AList.update ?p bs (wk_files wk)" "wk_events wk' = wk_events wk @ [?ev]"
    using assms(1-4) ip by (auto simp: fetch_and_store_def fetched_def store_content_def Let_def)
  then have d: "getsize D (PStr ?p) = Inr (int (length bs))" "read_file D (PStr ?p) = Inr bs"
    using assms(6) [of ?p bs] by (simp_all add: update_conv')
  have i: "inline_one D imax ?c = Inr (?c\<lparr>cf_content_b64 := Some (b64_encode bs)\<rparr>)"
    by (rule inline_one_readable [where n = "int (length bs)"]) (use d assms(5,7) in \<open>simp_all add: capture_of_download\<close>)
  have "bs \<noteq> []" using assms(1) by (simp add: fetched_def)
  with wk' i show ?thesis
    by (intro conjI exI [of _ ?ev] exI [of _ "?c\<lparr>cf_content_b64 := Some (b64_encode bs)\<rparr>"])
      (simp_all add: capture_of_download decode_inlined)
qed

section \<open>Witnesses\<close>

definition demo_net :: net where
  "demo_net = \<lparr>gethostbyname = (\<lambda>_. Inr (u ''93.184.216.34'')), open_url = (\<lambda>_. Stream [[1, 2], [3]] None),
     disk_full = (\<lambda>_. False)\<rparr>"

definition demo_fetcher :: fetcher where
  "demo_fetcher = \<lparr>uf_download_path = u ''dl'', uf_max_bytes = 100, uf_fetched = []\<rparr>"

definition demo_worker :: worker where
  "demo_worker = \<lparr>wk_files = [], wk_gets = [], wk_events = []\<rparr>"

definition demo_command :: pydict where
  "demo_command = demo_event ''cowrie.command.input'' [(''input'', pstr ''x ftp://e.io/a'')]"

definition demo_job :: job where
  "demo_job = (u ''ftp://e.io/a'', pstr ''s1'')"

definition the_res :: "'a res \<Rightarrow> 'a" where
  "the_res m = (case m of Inr x \<Rightarrow> x)"


lemma demo_digests: "digests_plain ascii_ext"
  by (simp add: digests_plain_def ascii_ext_def startswith_def u_def)

lemma demo_downloads: "downloads_ok ascii_ext demo_fetcher demo_worker"
  by (simp add: downloads_ok_def demo_digests demo_worker_def)


theorem mapped_addresses_pass_witness:
  "ip_is_private (u ''127.0.0.1'') \<and> \<not> ip_is_private (u ''::ffff:127.0.0.1'') \<and>
   url_is_fetchable ascii_ext (u ''http://[::ffff:127.0.0.1]/x'')"
proof (intro conjI)
  have "is_ipv4 (u ''127.0.0.1'')" by code_simp
  from mapped_addresses_pass [OF this] show "\<not> ip_is_private (u ''::ffff:127.0.0.1'')" by (simp add: u_def)
  show "ip_is_private (u ''127.0.0.1'')" by code_simp
  show "url_is_fetchable ascii_ext (u ''http://[::ffff:127.0.0.1]/x'')" by code_simp
qed

theorem fetched_bytes_reach_engine_witness:
  "\<exists>ev c wk'. fetch_and_store ascii_ext demo_net demo_fetcher demo_job demo_worker = (Inr (), wk') \<and> wk_events wk' = [ev] \<and>
     inline_one \<lparr>getsize = (\<lambda>_. Inr 3), read_file = (\<lambda>_. Inr [1, 2, 3])\<rparr> 100 (capture_of (event_name ev) ev) = Inr c \<and>
     (\<forall>f. f_content_b64 f = cf_content_b64 c \<longrightarrow> decode_bytes f = Some [1, 2, 3])"
proof -
  let ?D = "\<lparr>getsize = (\<lambda>_. Inr 3), read_file = (\<lambda>_. Inr [1, 2, 3])\<rparr> :: disk"
  let ?p = "path_join (uf_download_path demo_fetcher) (h_sha256 ascii_ext [1, 2, 3])"
  obtain r wk' where m: "fetch_and_store ascii_ext demo_net demo_fetcher demo_job demo_worker = (r, wk')"
    by (cases "fetch_and_store ascii_ext demo_net demo_fetcher demo_job demo_worker")
  have "res_ok (\<lambda>ip. \<not> resolves_private ip) (rbind (url_host ascii_ext (fst demo_job)) (resolve_host demo_net))" by code_simp
  moreover have "do_get demo_net (uf_max_bytes demo_fetcher) (fst demo_job) = Inr (Some [1, 2, 3])"
    by (simp add: do_get_def demo_net_def demo_fetcher_def)
  ultimately have f: "fetched ascii_ext demo_net demo_fetcher demo_job [1, 2, 3]"
    by (simp add: fetched_def res_ok_iff demo_net_def)
  have "map (\<lambda>kv. snd kv) (wk_files (snd (fetch_and_store ascii_ext demo_net demo_fetcher demo_job demo_worker))) = [[1, 2, 3]]"
    by code_simp
  then have d: "b = [1, 2, 3]" if "map_of (wk_files wk') p = Some b" for p b
    using map_of_SomeD [OF that] m by (auto dest: arg_cong [of _ _ set])
  have n: "?p \<noteq> []" by (simp add: path_join_def demo_fetcher_def startswith_def ascii_ext_def u_def)
  have t: "truthy (snd demo_job)" by (simp add: demo_job_def)
  have e: "wk_events demo_worker = []" "map_of (wk_files demo_worker) ?p = None" by (simp_all add: demo_worker_def)
  show ?thesis
    using fetched_bytes_reach_engine [OF f t m e(2) n, of ?D 100] d m e(1) by force
qed

end
