(* ===== verification/Auth.thy ===== *)
theory Auth
  imports Py_Value Py_Bytes Py_Machine Py_Dyn
begin

text \<open>
  \<^verbatim>\<open>cowrie/core/auth.py\<close>: the two ways the honeypot decides a login, the user database with its
  first-match rules and the random authenticator.  Compiling and searching the operator's regular
  expressions are parameters; the random number of an attempt comes with the attempt.
\<close>

section \<open>UserDB\<close>

datatype auth_error = AuthIndexError | AuthPatternError | AuthUnicodeError

datatype rule = Lit bytes | Pat bytes bool   \<comment> \<open>the pattern, and whether case is ignored\<close>

record re_lib =
  re_ok :: "bytes \<Rightarrow> bool \<Rightarrow> bool"                 \<comment> \<open>the pattern compiles\<close>
  re_search :: "bytes \<Rightarrow> bool \<Rightarrow> bytes \<Rightarrow> bool"

type_synonym userdb = "((rule \<times> rule) \<times> bool) list"

definition USERDB_DEFAULTS :: "pystr list" where
  "USERDB_DEFAULTS = [u ''root:x:!root'', u ''root:x:!123456'', u ''root:x:!/honeypot/i'',
     u ''root:x:*'', u ''phil:x:*'', u ''phil:x:fout'']"

text \<open>
  The groups of \<^verbatim>\<open>re.match(rb"/(.+)/(i)?$", rule)\<close>: the dollar also matches before a final line
  feed, and the dot matches everything but a line feed.
\<close>

definition delimited :: "bytes \<Rightarrow> (bytes \<times> bool) option" where
  "delimited rl =
     (let r = (if rl \<noteq> [] \<and> last rl = 10 then butlast rl else rl); n = length r in
      if 3 \<le> n \<and> r ! 0 = 47 \<and> r ! (n - 1) = 47 \<and> 10 \<notin> set (butlast (tl r))
      then Some (butlast (tl r), False)
      else if 4 \<le> n \<and> r ! 0 = 47 \<and> r ! (n - 2) = 47 \<and> r ! (n - 1) = 105 \<and> 10 \<notin> set (take (n - 3) (tl r))
      then Some (take (n - 3) (tl r), True)
      else None)"

definition re_or_bytes :: "('x) re_lib_scheme \<Rightarrow> bytes \<Rightarrow> auth_error + rule" where
  "re_or_bytes R rl =
     (case delimited rl of
        Some (p, i) \<Rightarrow> if re_ok R p i then Inr (Pat p i) else Inl AuthPatternError
      | None \<Rightarrow> Inr (Lit rl))"

definition match_rule :: "('x) re_lib_scheme \<Rightarrow> rule \<Rightarrow> bytes \<Rightarrow> bool" where
  "match_rule R rl data =
     (case rl of Lit b \<Rightarrow> b = [42] \<or> b = data | Pat p i \<Rightarrow> re_search R p i data)"

definition adduser :: "('x) re_lib_scheme \<Rightarrow> bytes \<Rightarrow> bytes \<Rightarrow> userdb \<Rightarrow> auth_error + userdb" where
  "adduser R login passwd db =
     rbind (re_or_bytes R login) (\<lambda>usr.
       case passwd of
         [] \<Rightarrow> Inl AuthIndexError
       | b # rest \<Rightarrow>
           rbind (re_or_bytes R (if b = 33 then rest else passwd)) (\<lambda>p.
             Inr (AList.update (usr, p) (b \<noteq> 33) db)))"

definition encode_utf8 :: "pystr \<Rightarrow> auth_error + bytes" where
  "encode_utf8 s = (case utf8_encode s of Inl _ \<Rightarrow> Inl AuthUnicodeError | Inr b \<Rightarrow> Inr b)"

definition load_line :: "('x) re_lib_scheme \<Rightarrow> pystr \<Rightarrow> userdb \<Rightarrow> auth_error + userdb" where
  "load_line R line db =
     (if startswith line (u ''#'') then Inr db
      else
        (let fields = split_on 58 line in
         rbind (encode_utf8 (fields ! 0)) (\<lambda>login.
           if length fields < 3 then Inr db
           else rbind (encode_utf8 (py_strip (fields ! 2))) (\<lambda>password.
             adduser R login password db))))"

fun load_lines :: "('x) re_lib_scheme \<Rightarrow> pystr list \<Rightarrow> userdb \<Rightarrow> auth_error + userdb" where
  "load_lines R [] db = Inr db"
| "load_lines R (line # rest) db = rbind (load_line R line db) (load_lines R rest)"

text \<open>
  \<^verbatim>\<open>load\<close>: the text of the operator's file if it exists, else that of the packaged example, else the
  defaults.
\<close>

definition load_userdb ::
  "('x) re_lib_scheme \<Rightarrow> pystr option \<Rightarrow> pystr option \<Rightarrow> auth_error + userdb" where
  "load_userdb R own example =
     load_lines R
       (case own of Some t \<Rightarrow> splitlines t
        | None \<Rightarrow> (case example of Some t \<Rightarrow> splitlines t | None \<Rightarrow> USERDB_DEFAULTS)) []"

fun userdb_checklogin :: "('x) re_lib_scheme \<Rightarrow> userdb \<Rightarrow> bytes \<Rightarrow> bytes \<Rightarrow> bool" where
  "userdb_checklogin R [] login passwd = False"
| "userdb_checklogin R (((l, p), policy) # rest) login passwd =
     (if match_rule R l login \<and> match_rule R p passwd then policy
      else userdb_checklogin R rest login passwd)"

section \<open>AuthRandom\<close>

text \<open>\<^verbatim>\<open>str(b)\<close> of a bytes value.\<close>

definition repr_quote :: "bytes \<Rightarrow> int" where
  "repr_quote bs = (if 39 \<in> set bs \<and> 34 \<notin> set bs then 34 else 39)"

definition repr_byte :: "int \<Rightarrow> byte \<Rightarrow> pystr" where
  "repr_byte q b =
     (let x = uint b in
      if x = q \<or> x = 92 then [92, x]
      else if x = 9 then [92, 116] else if x = 10 then [92, 110] else if x = 13 then [92, 114]
      else if x < 32 \<or> 127 \<le> x then [92, 120, hex_low (x div 16), hex_low (x mod 16)]
      else [x])"

definition bytes_str :: "bytes \<Rightarrow> pystr" where
  "bytes_str bs =
     (let q = repr_quote bs in 98 # q # concat (map (repr_byte q) bs) @ [q])"

record ipinfo =
  ai_try :: "int option"
  ai_max :: "int option"
  ai_tried :: "pystr list option"
  ai_user :: "pystr option"
  ai_pw :: "pystr option"

text \<open>\<^verbatim>\<open>uservar\<close>: the cache, once it is there, and what is known of each address.\<close>

record uservar =
  uv_cache :: "pystr list option"
  uv_ips :: "(pystr \<times> ipinfo) list"

record auth_random =
  ar_mintry :: int
  ar_maxtry :: int
  ar_maxcache :: int
  ar_uservar :: uservar
  ar_file :: "uservar option option"   \<comment> \<open>the state file: absent, not JSON, or a saved value\<close>

definition loadvars :: "auth_random \<Rightarrow> auth_random" where
  "loadvars ar =
     (case ar_file ar of
        None \<Rightarrow> ar
      | Some None \<Rightarrow> ar\<lparr>ar_uservar := \<lparr>uv_cache = None, uv_ips = []\<rparr>\<rparr>
      | Some (Some uv) \<Rightarrow> ar\<lparr>ar_uservar := uv\<rparr>)"

text \<open>The parameters of the configuration, if the option is there.\<close>

definition auth_parameters :: "('x) ext_scheme \<Rightarrow> pystr option \<Rightarrow> (int \<times> int \<times> int) res" where
  "auth_parameters E cfg =
     (case cfg of
        None \<Rightarrow> Inr (2, 5, 10)
      | Some s \<Rightarrow>
          (let parlist = split_on 44 s in
           rbind (int_of_str E (parlist ! 0)) (\<lambda>a.
             if length parlist < 2 then Inl IndexError
             else rbind (int_of_str E (parlist ! 1)) (\<lambda>b.
               if length parlist < 3 then Inl IndexError
               else rbind (int_of_str E (parlist ! 2)) (\<lambda>c. Inr (a, b, c))))))"

definition auth_random_init ::
  "('x) ext_scheme \<Rightarrow> pystr option \<Rightarrow> uservar option option \<Rightarrow> auth_random res" where
  "auth_random_init E cfg saved =
     rbind (auth_parameters E cfg) (\<lambda>(mintry, maxtry, maxcache).
       Inr (loadvars
         \<lparr>ar_mintry = mintry, ar_maxtry = (if maxtry < mintry then mintry + 1 else maxtry),
          ar_maxcache = maxcache, ar_uservar = \<lparr>uv_cache = None, uv_ips = []\<rparr>, ar_file = saved\<rparr>))"

definition savevars :: "bool \<Rightarrow> auth_random \<Rightarrow> unit res \<times> auth_random" where
  "savevars writable ar =
     (if writable then (Inr (), ar\<lparr>ar_file := Some (Some (ar_uservar ar))\<rparr>) else (Inl OSError, ar))"

record attempt =
  at_login :: bytes
  at_passwd :: bytes
  at_src :: pystr
  at_rnd :: int          \<comment> \<open>what randint returns if it is called\<close>
  at_writable :: bool    \<comment> \<open>the state file can be written\<close>

definition userpass :: "attempt \<Rightarrow> pystr" where
  "userpass a = bytes_str (at_login a) @ u '':'' @ bytes_str (at_passwd a)"

definition finish :: "attempt \<Rightarrow> pystr list \<Rightarrow> ipinfo \<Rightarrow> bool \<Rightarrow> auth_random \<Rightarrow> bool res \<times> auth_random" where
  "finish a cache info auth ar =
     (let ar1 = ar\<lparr>ar_uservar := \<lparr>uv_cache = Some cache,
            uv_ips = AList.update (at_src a) info (uv_ips (ar_uservar ar))\<rparr>\<rparr>;
          (r, ar2) = savevars (at_writable a) ar1
      in (rbind r (\<lambda>_. Inr auth), ar2))"

definition fill_missing :: "int \<Rightarrow> ipinfo \<Rightarrow> ipinfo" where
  "fill_missing rnd i =
     i\<lparr>ai_max := (case ai_max i of None \<Rightarrow> Some rnd | m \<Rightarrow> m),
       ai_try := (case ai_try i of None \<Rightarrow> Some 0 | t \<Rightarrow> t),
       ai_tried := (case ai_tried i of None \<Rightarrow> Some [] | l \<Rightarrow> l)\<rparr>"

definition admit :: "attempt \<Rightarrow> ipinfo \<Rightarrow> ipinfo" where
  "admit a i = i\<lparr>ai_user := Some (bytes_str (at_login a)), ai_pw := Some (bytes_str (at_passwd a))\<rparr>"

text \<open>
  Counting an attempt that was not made before: too early, the one that is let in, or a return
  after it.  The return compares the login, a bytes value, with the text that was stored.
\<close>

definition count_attempt :: "attempt \<Rightarrow> pystr list \<Rightarrow> ipinfo \<Rightarrow> auth_random \<Rightarrow> bool res \<times> auth_random" where
  "count_attempt a cache i ar =
     (let up = userpass a; tried = the (ai_tried i); n = the (ai_try i) + 1; need = the (ai_max i);
          i1 = i\<lparr>ai_try := Some n\<rparr>
      in if n < need then finish a cache (i1\<lparr>ai_tried := Some (tried @ [up])\<rparr>) False ar
         else if n = need then
           (let c = cache @ [up] in
            finish a (if ar_maxcache ar < int (length c) then tl c else c) (admit a i1) True ar)
         else
           (case (ai_user i1, ai_pw i1) of
              (Some usr, Some pw) \<Rightarrow>
                finish a cache i1 (PBytes (at_login a) = PStr usr \<and> bytes_str (at_passwd a) = pw) ar
            | _ \<Rightarrow> finish a cache (i1\<lparr>ai_tried := Some (tried @ [up]), ai_try := Some 1\<rparr>) False ar))"

definition cache_of :: "uservar \<Rightarrow> pystr list" where
  "cache_of uv = (case uv_cache uv of None \<Rightarrow> [] | Some c \<Rightarrow> c)"

definition random_checklogin :: "attempt \<Rightarrow> auth_random \<Rightarrow> bool res \<times> auth_random" where
  "random_checklogin a ar =
     (let up = userpass a;
          cache = cache_of (ar_uservar ar);
          known = map_of (uv_ips (ar_uservar ar)) (at_src a);
          i0 = (case known of
                  None \<Rightarrow> \<lparr>ai_try = Some 0, ai_max = None, ai_tried = None, ai_user = None, ai_pw = None\<rparr>
                | Some i \<Rightarrow> i)
      in if up \<in> set cache then finish a cache (admit a (i0\<lparr>ai_max := Some 1\<rparr>)) True ar
         else
           (let i1 = fill_missing (at_rnd a) i0 in
            if up \<in> set (the (ai_tried i1)) then finish a cache i1 False ar
            else count_attempt a cache i1 ar))"

lemmas auth_eval [py_eval] = USERDB_DEFAULTS_def delimited_def re_or_bytes_def match_rule_def adduser_def
  encode_utf8_def load_line_def load_userdb_def hex_low_def repr_quote_def repr_byte_def bytes_str_def
  loadvars_def auth_parameters_def auth_random_init_def savevars_def userpass_def finish_def
  fill_missing_def admit_def count_attempt_def cache_of_def random_checklogin_def

section \<open>The text of bytes is injective\<close>

lemma hex_low_inj: "0 \<le> a \<Longrightarrow> a < 16 \<Longrightarrow> 0 \<le> b \<Longrightarrow> b < 16 \<Longrightarrow> hex_low a = hex_low b \<Longrightarrow> a = b"
  by (auto simp: hex_low_def split: if_splits)

lemma repr_byte_split:
  assumes "repr_byte q a @ r = repr_byte q b @ s" "q = 34 \<or> q = 39"
  shows "a = b \<and> r = s"
proof -
  have d: "uint a div 16 < 16" "uint b div 16 < 16" "0 \<le> uint a div 16" "0 \<le> uint b div 16"
    using byte_range [of a] byte_range [of b] by (simp_all add: pos_imp_zdiv_nonneg_iff)
  have hex: "uint a = uint b" if "hex_low (uint a div 16) = hex_low (uint b div 16)"
    "hex_low (uint a mod 16) = hex_low (uint b mod 16)"
  proof -
    have "uint a div 16 = uint b div 16" "uint a mod 16 = uint b mod 16"
      using that d by (auto intro!: hex_low_inj)
    then show ?thesis by (metis div_mult_mod_eq)
  qed
  have "uint a = uint b \<and> r = s"
    using assms hex by (auto simp: repr_byte_def Let_def split: if_splits)
  then show ?thesis by (simp add: word_uint_eq_iff)
qed

lemma repr_byte_hd: "q = 34 \<or> q = 39 \<Longrightarrow> \<exists>c cs. repr_byte q b = c # cs \<and> c \<noteq> q"
  by (auto simp: repr_byte_def Let_def)

lemma repr_body_split:
  assumes "concat (map (repr_byte q) xs) @ q # r = concat (map (repr_byte q) ys) @ q # s" "q = 34 \<or> q = 39"
  shows "xs = ys \<and> r = s"
  using assms(1)
proof (induction xs arbitrary: ys)
  case Nil
  then show ?case using repr_byte_hd [OF assms(2)] by (cases ys) (auto, metis append_Cons list.inject)
next
  case (Cons x xs)
  show ?case
  proof (cases ys)
    case Nil
    with Cons.prems show ?thesis using repr_byte_hd [OF assms(2), of x] by auto
  next
    case (Cons y ys')
    with Cons.prems have "repr_byte q x @ concat (map (repr_byte q) xs) @ q # r =
        repr_byte q y @ concat (map (repr_byte q) ys') @ q # s" by simp
    from repr_byte_split [OF this assms(2)] Cons.IH Cons show ?thesis by auto
  qed
qed

lemma bytes_str_split:
  assumes "bytes_str xs @ r = bytes_str ys @ s"
  shows "xs = ys \<and> r = s"
proof -
  have q: "repr_quote xs = repr_quote ys" using assms by (simp add: bytes_str_def Let_def)
  have "concat (map (repr_byte (repr_quote xs)) xs) @ repr_quote xs # r =
      concat (map (repr_byte (repr_quote xs)) ys) @ repr_quote xs # s"
    using assms by (simp add: bytes_str_def Let_def q)
  then show ?thesis by (rule repr_body_split) (simp add: repr_quote_def)
qed

text \<open>A combination of login and password is known again by its text.\<close>

lemma userpass_inj:
  "userpass a = userpass b \<longleftrightarrow> at_login a = at_login b \<and> at_passwd a = at_passwd b"
proof
  assume "userpass a = userpass b"
  then have "at_login a = at_login b \<and> u '':'' @ bytes_str (at_passwd a) = u '':'' @ bytes_str (at_passwd b)"
    unfolding userpass_def by (rule bytes_str_split)
  then show "at_login a = at_login b \<and> at_passwd a = at_passwd b"
    using bytes_str_split [of "at_passwd a" "[]" "at_passwd b" "[]"] by simp
qed (simp add: userpass_def)

section \<open>First match\<close>

text \<open>The rule a line of the file stands for, as the comments of the example file describe it.\<close>

definition rule_of :: "bytes \<Rightarrow> rule" where
  "rule_of b = (case delimited b of Some (p, i) \<Rightarrow> Pat p i | None \<Rightarrow> Lit b)"

definition line_rule :: "pystr \<Rightarrow> ((rule \<times> rule) \<times> bool) option" where
  "line_rule line =
     (if startswith line (u ''#'') then None
      else case split_on 58 line of
             f0 # f1 # f2 # _ \<Rightarrow>
               (case (utf8_encode f0, utf8_encode (py_strip f2)) of
                  (Inr login, Inr (b # pw)) \<Rightarrow>
                    Some (if b = 33 then ((rule_of login, rule_of pw), False)
                          else ((rule_of login, rule_of (b # pw)), True))
                | _ \<Rightarrow> None)
           | _ \<Rightarrow> None)"

definition first_match ::
  "('x) re_lib_scheme \<Rightarrow> ((rule \<times> rule) \<times> bool) list \<Rightarrow> bytes \<Rightarrow> bytes \<Rightarrow> bool" where
  "first_match R rules login passwd \<longleftrightarrow>
     (\<exists>pre lp post. rules = pre @ (lp, True) # post \<and> match_rule R (fst lp) login \<and> match_rule R (snd lp) passwd \<and>
        (\<forall>(mp, _) \<in> set pre. \<not> (match_rule R (fst mp) login \<and> match_rule R (snd mp) passwd)))"

lemma re_or_bytes_rule: "re_or_bytes R b = Inr r \<Longrightarrow> r = rule_of b"
  by (auto simp: re_or_bytes_def rule_of_def split: option.splits if_splits)

lemma load_line_rule:
  assumes "load_line R line db = Inr db'"
  shows "db' = (case line_rule line of None \<Rightarrow> db | Some (k, v) \<Rightarrow> AList.update k v db)"
proof (cases "startswith line (u ''#'')")
  case False
  obtain f0 fs where f: "split_on 58 line = f0 # fs"
    by (cases "split_on 58 line") (auto elim!: split_on.elims split: list.splits if_splits)
  with assms False obtain login where l: "utf8_encode f0 = Inr login"
    by (auto simp: load_line_def encode_utf8_def rbind_eq_Inr Let_def split: sum.splits)
  show ?thesis
  proof (cases "length fs < 2")
    case True
    then have "line_rule line = None"
      using f by (auto simp: line_rule_def split: list.split)
    with assms False f l True show ?thesis
      by (auto simp: load_line_def encode_utf8_def Let_def)
  next
    case long: False
    then obtain f1 f2 rest where fs: "fs = f1 # f2 # rest"
      by (metis One_nat_def Suc_1 length_Cons lessI less_SucI list.exhaust list.size(3) zero_less_Suc)
    with assms False f l obtain pw where pw: "utf8_encode (py_strip f2) = Inr pw" "adduser R login pw db = Inr db'"
      by (auto simp: load_line_def encode_utf8_def rbind_eq_Inr Let_def split: sum.splits)
    then obtain b r where "pw = b # r" by (cases pw) (auto simp: adduser_def rbind_eq_Inr)
    with pw f fs l False show ?thesis
      by (auto simp: adduser_def rbind_eq_Inr line_rule_def dest!: re_or_bytes_rule)
  qed
qed (use assms in \<open>simp add: load_line_def line_rule_def\<close>)

lemma update_fresh: "k \<notin> fst ` set db \<Longrightarrow> AList.update k v db = db @ [(k, v)]"
  by (induction db) auto

lemma load_lines_rules:
  assumes "load_lines R ls db = Inr db'" "distinct (map fst (db @ List.map_filter line_rule ls))"
  shows "db' = db @ List.map_filter line_rule ls"
  using assms
proof (induction ls arbitrary: db)
  case (Cons line ls)
  then obtain db1 where db1: "load_line R line db = Inr db1" "load_lines R ls db1 = Inr db'"
    by (auto simp: rbind_eq_Inr)
  show ?case
  proof (cases "line_rule line")
    case None
    with Cons db1 load_line_rule [OF db1(1)] show ?thesis by simp
  next
    case (Some kv)
    obtain k v where kv: "kv = (k, v)" by (cases kv)
    with Some Cons.prems(2) load_line_rule [OF db1(1)] have "db1 = db @ [(k, v)]"
      by (auto intro!: update_fresh)
    with Cons.IH [OF db1(2)] Cons.prems(2) Some kv show ?thesis by simp
  qed
qed simp

lemma checklogin_first_match: "userdb_checklogin R db login passwd = first_match R db login passwd"
proof (induction db)
  case (Cons e db)
  obtain l p v where e: "e = ((l, p), v)" by (metis prod.exhaust)
  show ?case
  proof (cases "match_rule R l login \<and> match_rule R p passwd")
    case True
    have "first_match R (e # db) login passwd \<longleftrightarrow> v"
    proof
      assume "first_match R (e # db) login passwd"
      with True show v by (auto simp: first_match_def e Cons_eq_append_conv)
    next
      assume v
      with True show "first_match R (e # db) login passwd"
        unfolding first_match_def e by (intro exI [of _ "[]"] exI [of _ "(l, p)"] exI [of _ db]) simp
    qed
    with True show ?thesis by (simp add: e)
  next
    case False
    have "first_match R (e # db) login passwd \<longleftrightarrow> first_match R db login passwd"
    proof
      assume "first_match R (e # db) login passwd"
      then obtain pre lp post where f: "e # db = pre @ (lp, True) # post" "match_rule R (fst lp) login"
        "match_rule R (snd lp) passwd"
        "\<forall>(mp, _) \<in> set pre. \<not> (match_rule R (fst mp) login \<and> match_rule R (snd mp) passwd)"
        unfolding first_match_def by blast
      with False e obtain pre' where "pre = e # pre'" by (cases pre) auto
      with f show "first_match R db login passwd"
        unfolding first_match_def by (intro exI [of _ pre'] exI [of _ lp] exI [of _ post]) simp
    next
      assume "first_match R db login passwd"
      then obtain pre lp post where f: "db = pre @ (lp, True) # post" "match_rule R (fst lp) login"
        "match_rule R (snd lp) passwd"
        "\<forall>(mp, _) \<in> set pre. \<not> (match_rule R (fst mp) login \<and> match_rule R (snd mp) passwd)"
        unfolding first_match_def by blast
      with False show "first_match R (e # db) login passwd"
        unfolding first_match_def by (intro exI [of _ "e # pre"] exI [of _ lp] exI [of _ post]) (simp add: e)
    qed
    with False Cons show ?thesis by (auto simp: e)
  qed
qed (simp add: first_match_def)

text \<open>
  A user database without a repeated rule is what its documentation says: a login is granted
  exactly when the first line of the file that matches both fields grants it.
\<close>

theorem userdb_first_match:
  assumes "load_userdb R (Some t) example = Inr db" "distinct (map fst (List.map_filter line_rule (splitlines t)))"
  shows "userdb_checklogin R db login passwd \<longleftrightarrow>
    first_match R (List.map_filter line_rule (splitlines t)) login passwd"
  using load_lines_rules [of R "splitlines t" "[]" db] assms by (simp add: load_userdb_def checklogin_first_match)

text \<open>
  With a repeated rule it is not: a later line takes the place, and the policy, of the earlier one.
\<close>

definition no_re :: re_lib where
  "no_re = \<lparr>re_ok = (\<lambda>_ _. True), re_search = (\<lambda>_ _ _. False)\<rparr>"

lemma later_line_overrides:
  "\<exists>db. load_userdb no_re (Some (u ''a:x:!b\<newline>a:x:b'')) None = Inr db \<and> userdb_checklogin no_re db [97] [98] \<and>
     List.map_filter line_rule (splitlines (u ''a:x:!b\<newline>a:x:b'')) = [((Lit [97], Lit [98]), False), ((Lit [97], Lit [98]), True)]"
proof -
  have "load_userdb no_re (Some (u ''a:x:!b\<newline>a:x:b'')) None = Inr [((Lit [97], Lit [98]), True)]" by code_simp
  moreover have "userdb_checklogin no_re [((Lit [97], Lit [98]), True)] [97] [98]" by code_simp
  moreover have "List.map_filter line_rule (splitlines (u ''a:x:!b\<newline>a:x:b'')) =
      [((Lit [97], Lit [98]), False), ((Lit [97], Lit [98]), True)]" by code_simp
  ultimately show ?thesis by blast
qed

text \<open>A line with an empty password field aborts the load.\<close>

lemma empty_password_aborts: "load_userdb no_re (Some (u ''a:x:'')) None = Inl AuthIndexError"
  by code_simp

section \<open>Random authentication\<close>

type_synonym login_log = "(pystr \<times> pystr \<times> bool) list"   \<comment> \<open>address, combination, granted\<close>

definition login_step :: "attempt \<Rightarrow> auth_random \<times> login_log \<Rightarrow> auth_random \<times> login_log" where
  "login_step a s =
     (let (r, ar') = random_checklogin a (fst s) in
      (ar', snd s @ [(at_src a, userpass a, r = Inr True)]))"

definition refused :: "pystr \<Rightarrow> login_log \<Rightarrow> pystr set" where
  "refused src lg = {c. (src, c, False) \<in> set lg}"

definition granted :: "pystr \<Rightarrow> login_log \<Rightarrow> bool" where
  "granted src lg \<longleftrightarrow> (\<exists>c. (src, c, True) \<in> set lg)"

text \<open>What is stored of an address that has not been let in yet: the combinations it was refused.\<close>

definition guessing :: "int \<Rightarrow> int \<Rightarrow> pystr set \<Rightarrow> ipinfo option \<Rightarrow> bool" where
  "guessing lo hi combos info \<longleftrightarrow>
     (case info of
        None \<Rightarrow> combos = {}
      | Some i \<Rightarrow> (\<exists>m l. i = \<lparr>ai_try = Some (int (length l)), ai_max = Some m, ai_tried = Some l, ai_user = None, ai_pw = None\<rparr>
          \<and> distinct l \<and> set l = combos \<and> int (length l) < m \<and> lo \<le> m \<and> m \<le> hi))"

definition random_inv :: "int \<Rightarrow> int \<Rightarrow> auth_random \<times> login_log \<Rightarrow> bool" where
  "random_inv lo hi s \<longleftrightarrow>
     (\<forall>src. \<not> granted src (snd s) \<longrightarrow>
        guessing lo hi (refused src (snd s)) (map_of (uv_ips (ar_uservar (fst s))) src))"

definition fair :: "int \<Rightarrow> int \<Rightarrow> attempt \<Rightarrow> bool" where
  "fair lo hi a \<longleftrightarrow> lo \<le> at_rnd a \<and> at_rnd a \<le> hi \<and> at_writable a"

lemma finish_simps [simp]:
  "at_writable a \<Longrightarrow> fst (finish a cache i auth ar) = Inr auth"
  "uv_ips (ar_uservar (snd (finish a cache i auth ar))) = AList.update (at_src a) i (uv_ips (ar_uservar ar))"
  "uv_cache (ar_uservar (snd (finish a cache i auth ar))) = Some cache"
  "ar_maxcache (snd (finish a cache i auth ar)) = ar_maxcache ar"
  by (simp_all add: finish_def savevars_def Let_def)

lemma random_other:
  "src \<noteq> at_src a \<Longrightarrow>
   map_of (uv_ips (ar_uservar (snd (random_checklogin a ar)))) src = map_of (uv_ips (ar_uservar ar)) src"
  by (auto simp: random_checklogin_def count_attempt_def Let_def update_conv' split: option.split)

lemma guessingI:
  "info = Some \<lparr>ai_try = Some (int (length l)), ai_max = Some m, ai_tried = Some l, ai_user = None, ai_pw = None\<rparr> \<Longrightarrow>
   distinct l \<Longrightarrow> set l = combos \<Longrightarrow> int (length l) < m \<Longrightarrow> lo \<le> m \<Longrightarrow> m \<le> hi \<Longrightarrow> guessing lo hi combos info"
  by (auto simp: guessing_def)

text \<open>One attempt of an address that has not been let in.\<close>

lemma random_own:
  assumes "guessing lo hi combos (map_of (uv_ips (ar_uservar ar)) (at_src a))" "fair lo hi a" "1 \<le> lo"
    and "random_checklogin a ar = (r, ar')"
  shows "r = Inr True \<and> (userpass a \<notin> set (cache_of (ar_uservar ar)) \<longrightarrow>
           userpass a \<notin> combos \<and> finite combos \<and> lo \<le> int (card combos) + 1 \<and> int (card combos) + 1 \<le> hi) \<or>
         r = Inr False \<and> guessing lo hi (insert (userpass a) combos) (map_of (uv_ips (ar_uservar ar')) (at_src a))"
proof -
  let ?cache = "cache_of (ar_uservar ar)"
  have w: "at_writable a" "lo \<le> at_rnd a" "at_rnd a \<le> hi" using assms(2) by (auto simp: fair_def)
  show ?thesis
  proof (cases "userpass a \<in> set ?cache")
    case True
    have "fst (random_checklogin a ar) = Inr True"
      using True w(1) by (simp add: random_checklogin_def Let_def)
    with assms(4) True show ?thesis by simp
  next
    case False
    obtain m l where ml: "fill_missing (at_rnd a) (case map_of (uv_ips (ar_uservar ar)) (at_src a) of
          None \<Rightarrow> \<lparr>ai_try = Some 0, ai_max = None, ai_tried = None, ai_user = None, ai_pw = None\<rparr> | Some i \<Rightarrow> i) =
        \<lparr>ai_try = Some (int (length l)), ai_max = Some m, ai_tried = Some l, ai_user = None, ai_pw = None\<rparr>"
      "distinct l" "set l = combos" "int (length l) < m" "lo \<le> m" "m \<le> hi"
    proof (cases "map_of (uv_ips (ar_uservar ar)) (at_src a)")
      case None
      with assms(1,3) w show thesis
        using that [of "[]" "at_rnd a"] by (simp add: guessing_def fill_missing_def)
    next
      case (Some i)
      with assms(1) show thesis using that by (auto simp: guessing_def fill_missing_def)
    qed
    have card: "card combos = length l" using ml(2,3) distinct_card by blast
    let ?i = "\<lparr>ai_try = Some (int (length l)), ai_max = Some m, ai_tried = Some l, ai_user = None, ai_pw = None\<rparr>"
    have rc: "random_checklogin a ar =
        (if userpass a \<in> set l then finish a ?cache ?i False ar else count_attempt a ?cache ?i ar)"
      unfolding random_checklogin_def Let_def ml(1) using False by simp
    have ra: "r = fst (random_checklogin a ar)" "ar' = snd (random_checklogin a ar)" using assms(4) by simp_all
    consider (again) "userpass a \<in> set l" | (early) "userpass a \<notin> set l" "int (length l) + 1 < m"
      | (last) "userpass a \<notin> set l" "m = int (length l) + 1" using ml(4) by linarith
    then show ?thesis
    proof cases
      case again
      then have "r = Inr False" "map_of (uv_ips (ar_uservar ar')) (at_src a) = Some ?i"
        using ra rc w(1) by (simp_all add: update_conv')
      moreover have "insert (userpass a) combos = combos" using again ml(3) by auto
      ultimately show ?thesis using ml(2-6) by (auto intro: guessingI)
    next
      case early
      then have "r = Inr False" "map_of (uv_ips (ar_uservar ar')) (at_src a) =
          Some (?i\<lparr>ai_try := Some (int (length (l @ [userpass a]))), ai_tried := Some (l @ [userpass a])\<rparr>)"
        using ra rc w(1) by (simp_all add: count_attempt_def Let_def update_conv')
      moreover have "distinct (l @ [userpass a])" "set (l @ [userpass a]) = insert (userpass a) combos"
        "int (length (l @ [userpass a])) < m" using early ml(2,3) by auto
      ultimately show ?thesis using ml(5,6)
        by (intro disjI2 conjI guessingI [of _ "l @ [userpass a]" m]) (simp_all only: ipinfo.simps)
    next
      case last
      then have "r = Inr True" using ra rc w(1) by (simp add: count_attempt_def Let_def)
      with last ml card show ?thesis by auto
    qed
  qed
qed

lemma log_snoc:
  "refused src (lg @ [(src', c, g)]) = (if src = src' \<and> \<not> g then insert c (refused src lg) else refused src lg)"
  "granted src (lg @ [(src', c, g)]) \<longleftrightarrow> granted src lg \<or> (src = src' \<and> g)"
  by (auto simp: refused_def granted_def)

interpretation guesses: invariant_machine login_step "random_inv lo hi" "\<lambda>a. 1 \<le> lo \<and> fair lo hi a" for lo hi
proof
  fix s a assume inv: "random_inv lo hi s" and a: "1 \<le> lo \<and> fair lo hi a"
  obtain ar lg where s: "s = (ar, lg)" by (cases s)
  obtain r ar' where r: "random_checklogin a ar = (r, ar')" by (cases "random_checklogin a ar")
  have st: "login_step a s = (ar', lg @ [(at_src a, userpass a, r = Inr True)])"
    by (simp add: login_step_def s r)
  show "random_inv lo hi (login_step a s)"
    unfolding random_inv_def
  proof (intro allI impI)
    fix src assume g: "\<not> granted src (snd (login_step a s))"
    have "\<not> granted src lg" using g by (simp add: st log_snoc)
    then have old: "guessing lo hi (refused src lg) (map_of (uv_ips (ar_uservar ar)) src)"
      using inv by (simp add: random_inv_def s)
    show "guessing lo hi (refused src (snd (login_step a s))) (map_of (uv_ips (ar_uservar (fst (login_step a s)))) src)"
    proof (cases "src = at_src a")
      case True
      with g have "r \<noteq> Inr True" by (simp add: st log_snoc)
      then show ?thesis
        using random_own [OF old [unfolded True] _ _ r] a True by (auto simp: st log_snoc)
    next
      case False
      with random_other [OF False, of ar] old show ?thesis by (simp add: st log_snoc r)
    qed
  qed
qed

definition fresh_auth :: "int \<Rightarrow> int \<Rightarrow> int \<Rightarrow> auth_random" where
  "fresh_auth mintry maxtry maxcache =
     \<lparr>ar_mintry = mintry, ar_maxtry = maxtry, ar_maxcache = maxcache,
      ar_uservar = \<lparr>uv_cache = None, uv_ips = []\<rparr>, ar_file = None\<rparr>"

lemma run_inv:
  assumes "1 \<le> lo" "list_all (fair lo hi) as" "fold login_step as (fresh_auth lo hi mc, []) = s"
  shows "random_inv lo hi s"
  unfolding assms(3) [symmetric]
proof (rule guesses.always)
  show "random_inv lo hi (fresh_auth lo hi mc, [])"
    by (simp add: random_inv_def fresh_auth_def guessing_def refused_def)
qed (use assms(1,2) in \<open>simp add: list_all_iff\<close>)

text \<open>
  C23. The number of guesses: however the logins of different addresses interleave, the first login
  an address is granted, unless the combination is one of the cached ones, comes after at least
  mintry - 1 and at most maxtry - 1 refused combinations that were all different from each other and
  from the one that is granted.
\<close>

theorem grant_needs_guesses:
  assumes "1 \<le> lo" "list_all (fair lo hi) as" "fold login_step as (fresh_auth lo hi mc, []) = (ar, lg)"
    and "\<not> granted (at_src a) lg" "fair lo hi a" "fst (random_checklogin a ar) = Inr True"
    and "userpass a \<notin> set (cache_of (ar_uservar ar))"
  shows "userpass a \<notin> refused (at_src a) lg \<and> lo \<le> int (card (refused (at_src a) lg)) + 1 \<and>
    int (card (refused (at_src a) lg)) + 1 \<le> hi"
proof -
  have "guessing lo hi (refused (at_src a) lg) (map_of (uv_ips (ar_uservar ar)) (at_src a))"
    using run_inv [OF assms(1-3)] assms(4) by (simp add: random_inv_def)
  moreover obtain r ar' where "random_checklogin a ar = (r, ar')" by (cases "random_checklogin a ar")
  ultimately show ?thesis using random_own [of lo hi _ ar a r ar'] assms(1,5-7) by auto
qed

text \<open>
  The door opens: an address that has tried maxtry different combinations has been let in,
  whatever other addresses did in between.
\<close>

theorem persistent_attacker_admitted:
  assumes "1 \<le> lo" "lo \<le> hi" "list_all (fair lo hi) as" "fold login_step as (fresh_auth lo hi mc, []) = (ar, lg)"
    and "hi \<le> int (card {c. \<exists>g. (src, c, g) \<in> set lg})"
  shows "granted src lg"
proof (rule ccontr)
  assume g: "\<not> granted src lg"
  then have "guessing lo hi (refused src lg) (map_of (uv_ips (ar_uservar ar)) src)"
    using run_inv [OF assms(1,3,4)] by (simp add: random_inv_def)
  moreover have "{c. \<exists>g. (src, c, g) \<in> set lg} = refused src lg"
    using g by (simp add: refused_def granted_def ex_bool_eq)
  ultimately show False
    using assms(1,2,5) by (auto simp: guessing_def split: option.splits dest!: distinct_card)
qed

section \<open>The cache\<close>

definition cache_ok :: "int \<Rightarrow> auth_random \<times> login_log \<Rightarrow> bool" where
  "cache_ok mc s \<longleftrightarrow> ar_maxcache (fst s) = mc \<and> int (length (cache_of (ar_uservar (fst s)))) \<le> max 0 mc"

interpretation cache: invariant_machine login_step "cache_ok mc" "\<lambda>_. True" for mc
proof
  fix s a assume "cache_ok mc s"
  then show "cache_ok mc (login_step a s)"
    by (cases s) (auto simp: cache_ok_def login_step_def random_checklogin_def count_attempt_def Let_def cache_of_def
        case_prod_unfold split: option.splits)
qed

text \<open>
  The cache of successful combinations never holds more than maxcache entries (none if the
  configured number is negative), also when the state file cannot be written.
\<close>

theorem cache_bounded:
  "int (length (cache_of (ar_uservar (fst (fold login_step as (fresh_auth lo hi mc, [])))))) \<le> max 0 mc"
proof -
  have "cache_ok mc (fold login_step as (fresh_auth lo hi mc, []))"
    by (rule cache.always) (simp_all add: cache_ok_def fresh_auth_def cache_of_def list_all_iff)
  then show ?thesis by (simp add: cache_ok_def)
qed

text \<open>
  A return is never recognised: once an address was let in and its combination has left the cache,
  the same login and password are refused, because a bytes value is compared with a text.
\<close>

lemma returning_login_refused:
  assumes "map_of (uv_ips (ar_uservar ar)) (at_src a) = Some i" "at_writable a"
    and "ai_try i = Some n" "ai_max i = Some m" "m \<le> n" "ai_user i = Some usr" "ai_pw i = Some pw"
    and "userpass a \<notin> set (cache_of (ar_uservar ar))"
  shows "fst (random_checklogin a ar) = Inr False"
  using assms by (auto simp: random_checklogin_def fill_missing_def count_attempt_def Let_def)

text \<open>
  An address whose first login is a cached combination is let in again with any other one.
\<close>

lemma cached_visitor_gets_second_key:
  assumes "map_of (uv_ips (ar_uservar ar)) (at_src a) = None" "userpass a \<in> set (cache_of (ar_uservar ar))"
    and "at_src b = at_src a" "at_writable b"
  shows "fst (random_checklogin b (snd (random_checklogin a ar))) = Inr True"
  using assms
  by (simp add: random_checklogin_def [of a] random_checklogin_def [of b] fill_missing_def count_attempt_def
      Let_def update_conv' admit_def cache_of_def)

section \<open>Witnesses\<close>

theorem userdb_first_match_witness:
  "\<exists>db. load_userdb no_re (Some (u ''a:x:!b\<newline>a:x:*'')) None = Inr db \<and>
     \<not> userdb_checklogin no_re db [97] [98] \<and> userdb_checklogin no_re db [97] [99]"
proof -
  let ?t = "u ''a:x:!b\<newline>a:x:*''"
  have "res_ok (\<lambda>db. \<not> userdb_checklogin no_re db [97] [98]) (load_userdb no_re (Some ?t) None)" by code_simp
  then obtain db where db: "load_userdb no_re (Some ?t) None = Inr db" "\<not> userdb_checklogin no_re db [97] [98]"
    by (auto elim: res_okE)
  have r: "List.map_filter line_rule (splitlines ?t) = [((Lit [97], Lit [98]), False), ((Lit [97], Lit [42]), True)]"
    by code_simp
  have "first_match no_re (List.map_filter line_rule (splitlines ?t)) [97] [99]"
    unfolding r first_match_def
    by (intro exI [of _ "[((Lit [97], Lit [98]), False)]"] exI [of _ "(Lit [97], Lit [42])"] exI [of _ "[]"])
      (simp add: match_rule_def)
  with userdb_first_match [OF db(1), of "[97]" "[99]"] r db show ?thesis by auto
qed

definition try_at :: "byte \<Rightarrow> int \<Rightarrow> attempt" where
  "try_at p n = \<lparr>at_login = [97], at_passwd = [p], at_src = u ''s'', at_rnd = n, at_writable = True\<rparr>"

theorem grant_needs_guesses_witness:
  "\<exists>ar lg. fold login_step [try_at 98 2] (fresh_auth 2 2 10, []) = (ar, lg) \<and>
     fst (random_checklogin (try_at 99 2) ar) = Inr True \<and> card (refused (u ''s'') lg) = 1"
proof -
  obtain ar lg where f: "fold login_step [try_at 98 2] (fresh_auth 2 2 10, []) = (ar, lg)"
    by (cases "fold login_step [try_at 98 2] (fresh_auth 2 2 10, [])")
  have "(\<lambda>(ar, lg). list_all (\<lambda>x. \<not> snd (snd x)) lg \<and> fst (random_checklogin (try_at 99 2) ar) = Inr True \<and>
      cache_of (ar_uservar ar) = []) (fold login_step [try_at 98 2] (fresh_auth 2 2 10, []))" by code_simp
  then have "\<not> granted (at_src (try_at 99 2)) lg" "fst (random_checklogin (try_at 99 2) ar) = Inr True"
    "userpass (try_at 99 2) \<notin> set (cache_of (ar_uservar ar))"
    unfolding f by (auto simp: granted_def list_all_iff)
  note G = grant_needs_guesses [OF _ _ f this(1) _ this(2,3)]
  have "card (refused (u ''s'') lg) = 1"
    using G by (simp add: fair_def try_at_def)
  with f \<open>fst (random_checklogin (try_at 99 2) ar) = Inr True\<close> show ?thesis by blast
qed

theorem persistent_attacker_admitted_witness:
  "\<exists>ar lg. fold login_step [try_at 98 2, try_at 99 2] (fresh_auth 1 2 10, []) = (ar, lg) \<and> granted (u ''s'') lg"
proof -
  obtain ar lg where f: "fold login_step [try_at 98 2, try_at 99 2] (fresh_auth 1 2 10, []) = (ar, lg)"
    by (cases "fold login_step [try_at 98 2, try_at 99 2] (fresh_auth 1 2 10, [])")
  have "(\<lambda>(ar, lg). map (\<lambda>x. (fst x, fst (snd x))) lg = [(u ''s'', userpass (try_at 98 2)), (u ''s'', userpass (try_at 99 2))])
      (fold login_step [try_at 98 2, try_at 99 2] (fresh_auth 1 2 10, []))" by code_simp
  then obtain g1 g2 where "lg = [(u ''s'', userpass (try_at 98 2), g1), (u ''s'', userpass (try_at 99 2), g2)]"
    unfolding f by (auto simp: map_eq_Cons_conv)
  then have "{c. \<exists>g. (u ''s'', c, g) \<in> set lg} = {userpass (try_at 98 2), userpass (try_at 99 2)}" by auto
  moreover have "userpass (try_at 98 2) \<noteq> userpass (try_at 99 2)" by (simp add: userpass_inj try_at_def)
  ultimately have "2 \<le> int (card {c. \<exists>g. (u ''s'', c, g) \<in> set lg})" by simp
  with persistent_attacker_admitted [OF _ _ _ f] f show ?thesis by (simp add: fair_def try_at_def)
qed

end
