(* ===== verification/Login.thy ===== *)
theory Login
  imports Auth Py_Effect
begin

text \<open>
  \<^verbatim>\<open>sensor/cowrie/src/cowrie/core/checkers.py\<close>: the checkers of credentials, which ask the configured class of
  \<open>Auth\<close> and write the login events.  A class is built anew for every password, from the files as
  they are then: the state of the random authenticator is what its file holds.  The parsing of a
  public key is a parameter; a failed Deferred and a raised exception are both errors of the caller.
\<close>

datatype login_error = Lg_auth auth_error | Lg_py pyerr | Lg_unbound | Lg_unauthorized | Lg_unhandled | Lg_signature | Lg_key

datatype login_event =
    Login_success bytes "bytes option"   \<comment> \<open>the password, where there is one\<close>
  | Login_failed bytes "bytes option"
  | Key_offered bytes pystr              \<comment> \<open>the fingerprint\<close>

record login_conf =
  lo_class :: pystr
  lo_own :: "pystr option"
  lo_example :: "pystr option"
  lo_parameters :: "pystr option"
  lo_allow_any :: bool
  lo_fingerprint :: "bytes \<Rightarrow> pystr option"   \<comment> \<open>None when the key does not parse\<close>

record login_state =
  lo_saved :: "uservar option option"
  lo_events :: "login_event list"

type_synonym 'a lop = "(login_error, login_state, 'a) eff_of"

datatype credentials =
    Public_key bytes bytes                                       \<comment> \<open>user, key\<close>
  | Username bytes
  | Password bytes bytes pystr "int \<times> bool"                      \<comment> \<open>user, password, address, what the random authenticator meets\<close>
  | Pam bytes "(bytes \<times> int \<times> bool) list" pystr                 \<comment> \<open>the answers to the prompt\<close>
  | Other_credentials

definition log_login :: "login_event \<Rightarrow> unit lop" where
  "log_login e s = (Inr (), s\<lparr>lo_events := lo_events s @ [e]\<rparr>)"

text \<open>
  \<^verbatim>\<open>authname().checklogin(...)\<close>.  Without a class of that name \<^verbatim>\<open>authname\<close> is read before it is assigned.
\<close>

definition authenticate :: "('x) ext_scheme \<Rightarrow> ('y) re_lib_scheme \<Rightarrow> login_conf \<Rightarrow> attempt \<Rightarrow> bool lop" where
  "authenticate E R C a s =
     (if lo_class C = u ''UserDB'' then
        (case load_userdb R (lo_own C) (lo_example C) of
           Inl e \<Rightarrow> (Inl (Lg_auth e), s)
         | Inr db \<Rightarrow> (Inr (userdb_checklogin R db (at_login a) (at_passwd a)), s))
      else if lo_class C = u ''AuthRandom'' then
        (case auth_random_init E (lo_parameters C) (lo_saved s) of
           Inl e \<Rightarrow> (Inl (Lg_py e), s)
         | Inr ar \<Rightarrow>
             (case random_checklogin a ar of
                (Inl e, ar') \<Rightarrow> (Inl (Lg_py e), s\<lparr>lo_saved := ar_file ar'\<rparr>)
              | (Inr b, ar') \<Rightarrow> (Inr b, s\<lparr>lo_saved := ar_file ar'\<rparr>)))
      else (Inl Lg_unbound, s))"

definition checkUserPass :: "('x) ext_scheme \<Rightarrow> ('y) re_lib_scheme \<Rightarrow> login_conf \<Rightarrow> attempt \<Rightarrow> bool lop" where
  "checkUserPass E R C a =
     ebind (authenticate E R C a) (\<lambda>ok.
       if ok then ebind (log_login (Login_success (at_login a) (Some (at_passwd a)))) (\<lambda>_. eret True)
       else ebind (log_login (Login_failed (at_login a) (Some (at_passwd a)))) (\<lambda>_. eret False))"

definition attempt_of :: "bytes \<Rightarrow> pystr \<Rightarrow> bytes \<times> int \<times> bool \<Rightarrow> attempt" where
  "attempt_of user ip x =
     \<lparr>at_login = user, at_passwd = fst x, at_src = ip, at_rnd = fst (snd x), at_writable = snd (snd x)\<rparr>"

fun cbCheckPamUser ::
  "('x) ext_scheme \<Rightarrow> ('y) re_lib_scheme \<Rightarrow> login_conf \<Rightarrow> (bytes \<times> int \<times> bool) list \<Rightarrow> bytes \<Rightarrow> pystr \<Rightarrow> bytes lop" where
  "cbCheckPamUser E R C [] user ip = eraise Lg_unauthorized"
| "cbCheckPamUser E R C (x # xs) user ip =
     ebind (checkUserPass E R C (attempt_of user ip x)) (\<lambda>ok. if ok then eret user else cbCheckPamUser E R C xs user ip)"

definition check_public_key :: "login_conf \<Rightarrow> bytes \<Rightarrow> bytes \<Rightarrow> bytes lop" where
  "check_public_key C user blob =
     (case lo_fingerprint C blob of
        None \<Rightarrow> eraise Lg_key
      | Some fp \<Rightarrow>
          ebind (log_login (Key_offered user fp)) (\<lambda>_.
            if lo_allow_any C then ebind (log_login (Login_success user None)) (\<lambda>_. eret user)
            else ebind (log_login (Login_failed user None)) (\<lambda>_. eraise Lg_signature)))"

definition check_username :: "bytes \<Rightarrow> bytes lop" where
  "check_username user = ebind (log_login (Login_success user None)) (\<lambda>_. eret user)"

definition requestAvatarId :: "('x) ext_scheme \<Rightarrow> ('y) re_lib_scheme \<Rightarrow> login_conf \<Rightarrow> credentials \<Rightarrow> bytes lop" where
  "requestAvatarId E R C c =
     (case c of
        Public_key user blob \<Rightarrow> check_public_key C user blob
      | Username user \<Rightarrow> check_username user
      | Password user pw ip rnd \<Rightarrow>
          ebind (checkUserPass E R C (attempt_of user ip (pw, rnd))) (\<lambda>ok. if ok then eret user else eraise Lg_unauthorized)
      | Pam user xs ip \<Rightarrow> cbCheckPamUser E R C xs user ip
      | Other_credentials \<Rightarrow> eraise Lg_unhandled)"

lemmas login_eval [py_eval] = log_login_def authenticate_def checkUserPass_def attempt_of_def check_public_key_def check_username_def
  requestAvatarId_def

section \<open>Who gets in is who is reported\<close>

definition is_success :: "login_event \<Rightarrow> bool" where
  "is_success e \<longleftrightarrow> (case e of Login_success _ _ \<Rightarrow> True | _ \<Rightarrow> False)"

definition reported :: "login_state \<Rightarrow> login_error + bytes \<Rightarrow> login_state \<Rightarrow> bool" where
  "reported s r s' \<longleftrightarrow>
     (\<exists>es. lo_events s' = lo_events s @ es \<and>
        (case r of
           Inl _ \<Rightarrow> \<not> list_ex is_success es
         | Inr user \<Rightarrow> \<exists>fs pw. es = fs @ [Login_success user pw] \<and> \<not> list_ex is_success fs))"

lemma authenticate_events: "lo_events (snd (authenticate E R C a s)) = lo_events s"
  by (simp add: authenticate_def split: sum.split prod.split)

lemma checkUserPass_events:
  assumes "checkUserPass E R C a s = (r, s')"
  shows "lo_events s' = lo_events s @
    (case r of Inl _ \<Rightarrow> [] | Inr True \<Rightarrow> [Login_success (at_login a) (Some (at_passwd a))] | Inr False \<Rightarrow> [Login_failed (at_login a) (Some (at_passwd a))])"
proof -
  obtain q t where q: "authenticate E R C a s = (q, t)" by fastforce
  then have "lo_events t = lo_events s" using authenticate_events [of E R C a s] by simp
  then show ?thesis
    using assms q by (cases q) (auto simp: checkUserPass_def ebind_def log_login_def eret_def split: if_splits)
qed

lemma pam_reported: "cbCheckPamUser E R C xs user ip s = (r, s') \<Longrightarrow> reported s r s'"
proof (induction xs arbitrary: s)
  case Nil
  then show ?case by (auto simp: eraise_def reported_def)
next
  case (Cons x xs)
  obtain q t where q: "checkUserPass E R C (attempt_of user ip x) s = (q, t)" by fastforce
  note ev = checkUserPass_events [OF q]
  show ?case
  proof (cases q)
    case (Inl e)
    then show ?thesis using Cons.prems q ev by (auto simp: ebind_def reported_def)
  next
    case (Inr ok)
    show ?thesis
    proof (cases ok)
      case True
      then show ?thesis using Cons.prems q ev Inr by (auto simp: ebind_def eret_def reported_def attempt_of_def)
    next
      case False
      then have "reported t r s'" using Cons.IH [of t] Cons.prems q Inr by (simp add: ebind_def)
      then obtain es where es: "lo_events s' = lo_events t @ es"
        "case r of Inl _ \<Rightarrow> \<not> list_ex is_success es | Inr user \<Rightarrow> \<exists>fs pw. es = fs @ [Login_success user pw] \<and> \<not> list_ex is_success fs"
        by (auto simp: reported_def)
      let ?f = "Login_failed user (Some (fst x))"
      have e: "lo_events s' = lo_events s @ ?f # es" using ev Inr False es(1) by (simp add: attempt_of_def)
      have n: "\<not> is_success ?f" by (simp add: is_success_def)
      show ?thesis
      proof (cases r)
        case (Inl err)
        then show ?thesis using e n es(2) by (simp add: reported_def)
      next
        case r: (Inr w)
        then obtain fs pw where "es = fs @ [Login_success w pw]" "\<not> list_ex is_success fs" using es(2) by auto
        then show ?thesis using e n r by (auto simp: reported_def intro!: exI [of _ "?f # fs"])
      qed
    qed
  qed
qed

text \<open>
  Whatever the credentials and the configured class: when a visitor gets in, the last event is a
  successful login under that name and the only one; when not, none is reported.
\<close>

theorem every_login_reported:
  "reported s (fst (requestAvatarId E R C c s)) (snd (requestAvatarId E R C c s))"
proof (cases c)
  case (Password user pw ip rnd)
  obtain q t where q: "checkUserPass E R C (attempt_of user ip (pw, rnd)) s = (q, t)" by fastforce
  then show ?thesis
    using checkUserPass_events [OF q] Password
    by (cases q) (auto simp: requestAvatarId_def ebind_def eret_def eraise_def reported_def is_success_def attempt_of_def split: bool.splits)
next
  case (Pam user xs ip)
  then show ?thesis using pam_reported [of E R C xs user ip s] by (simp add: requestAvatarId_def)
qed (auto simp: requestAvatarId_def check_public_key_def check_username_def ebind_def eret_def eraise_def log_login_def reported_def is_success_def
    split: option.split)

section \<open>The user database decides\<close>

text \<open>
  C33. With the user database as the configured class and a file without a repeated rule, a
  keyboard-interactive login is decided by the file as it is documented: the answers are tried in
  order until one is granted by the first line that matches it; every refused answer is reported
  as a failed login, the granted one as a successful one, and nothing else changes.
\<close>

theorem login_decided:
  assumes "lo_class C = u ''UserDB''" "lo_own C = Some t" "load_userdb R (Some t) (lo_example C) = Inr db"
    and "distinct (map fst (List.map_filter line_rule (splitlines t)))"
    and "grants = (\<lambda>x. first_match R (List.map_filter line_rule (splitlines t)) user (fst x))"
  shows "requestAvatarId E R C (Pam user xs ip) s =
    (if list_ex grants xs then Inr user else Inl Lg_unauthorized,
     s\<lparr>lo_events := lo_events s @ map (\<lambda>x. Login_failed user (Some (fst x))) (takeWhile (\<lambda>x. \<not> grants x) xs) @
        map (\<lambda>x. Login_success user (Some (fst x))) (take 1 (dropWhile (\<lambda>x. \<not> grants x) xs))\<rparr>)"
proof -
  have a: "authenticate E R C (attempt_of user ip x) s = (Inr (grants x), s)" for x s
    using userdb_first_match [OF assms(3,4), of user "fst x"] assms by (simp add: authenticate_def attempt_of_def)
  have "cbCheckPamUser E R C xs user ip s =
    (if list_ex grants xs then Inr user else Inl Lg_unauthorized,
     s\<lparr>lo_events := lo_events s @ map (\<lambda>x. Login_failed user (Some (fst x))) (takeWhile (\<lambda>x. \<not> grants x) xs) @
        map (\<lambda>x. Login_success user (Some (fst x))) (take 1 (dropWhile (\<lambda>x. \<not> grants x) xs))\<rparr>)"
  proof (induction xs arbitrary: s)
    case (Cons x xs)
    then show ?case
      using a [of x s] by (simp add: checkUserPass_def ebind_def log_login_def eret_def) (simp add: attempt_of_def)
  qed (simp add: eraise_def)
  then show ?thesis by (simp add: requestAvatarId_def)
qed

definition demo_login :: login_conf where
  "demo_login = \<lparr>lo_class = u ''UserDB'', lo_own = Some (u ''a:x:!b\<newline>a:x:*''), lo_example = None, lo_parameters = None,
     lo_allow_any = False, lo_fingerprint = (\<lambda>_. None)\<rparr>"

theorem login_decided_witness:
  "fst (requestAvatarId ascii_ext no_re demo_login (Pam [97] [([98], 0, True), ([99], 0, True)] (u ''1.2.3.4'')) \<lparr>lo_saved = None, lo_events = []\<rparr>) =
     (if list_ex (\<lambda>x. first_match no_re (List.map_filter line_rule (splitlines (u ''a:x:!b\<newline>a:x:*''))) [97] (fst x)) [([98], 0 :: int, True), ([99], 0, True)]
      then Inr [97] else Inl Lg_unauthorized)"
proof -
  have l: "load_userdb no_re (Some (u ''a:x:!b\<newline>a:x:*'')) (lo_example demo_login) = Inr [((Lit [97], Lit [98]), False), ((Lit [97], Lit [42]), True)]"
    by code_simp
  have d: "distinct (map fst (List.map_filter line_rule (splitlines (u ''a:x:!b\<newline>a:x:*''))))" by code_simp
  have c: "lo_class demo_login = u ''UserDB''" "lo_own demo_login = Some (u ''a:x:!b\<newline>a:x:*'')" by (simp_all add: demo_login_def)
  show ?thesis unfolding login_decided [OF c l d refl] fst_conv ..
qed

section \<open>A class that is not there\<close>

lemma unknown_class_raises:
  assumes "lo_class C \<notin> {u ''UserDB'', u ''AuthRandom''}"
  shows "checkUserPass E R C a s = (Inl Lg_unbound, s)"
  using assms by (simp add: checkUserPass_def authenticate_def ebind_def)

end
