(* ===== verification/Py_Struct.thy ===== *)
theory Py_Struct
  imports Py_Prelude
begin

text \<open>
  The part of Python's \<^verbatim>\<open>struct\<close> module that the wire protocol of the backend pool and the session
  recordings use: the standard sizes without alignment (prefixes \<^verbatim>\<open>!\<close> and \<^verbatim>\<open><\<close>), the codes
  \<^verbatim>\<open>c ? H I L i\<close> and \<^verbatim>\<open>Ns\<close>.  An integer out of the range of its code raises; a byte string is cut or
  padded with zero bytes to the length its code names; reading needs a buffer of exactly the size
  of the format.
\<close>

section \<open>Integers as bytes\<close>

datatype endian = Big | Little

fun le_bytes :: "nat \<Rightarrow> int \<Rightarrow> bytes" where
  "le_bytes 0 x = []"
| "le_bytes (Suc n) x = word_of_int x # le_bytes n (x div 256)"

fun le_int :: "bytes \<Rightarrow> int" where
  "le_int [] = 0"
| "le_int (b # bs) = uint b + 256 * le_int bs"

definition int_bytes :: "endian \<Rightarrow> nat \<Rightarrow> int \<Rightarrow> bytes" where
  "int_bytes e n x = (case e of Little \<Rightarrow> le_bytes n x | Big \<Rightarrow> rev (le_bytes n x))"

definition bytes_uint :: "endian \<Rightarrow> bytes \<Rightarrow> int" where
  "bytes_uint e bs = (case e of Little \<Rightarrow> le_int bs | Big \<Rightarrow> le_int (rev bs))"

definition bytes_sint :: "endian \<Rightarrow> bytes \<Rightarrow> int" where
  "bytes_sint e bs =
     (let x = bytes_uint e bs in if 2 * x < 256 ^ length bs then x else x - 256 ^ length bs)"

lemma length_le_bytes [simp]: "length (le_bytes n x) = n"
  by (induction n arbitrary: x) auto

lemma length_int_bytes [simp]: "length (int_bytes e n x) = n"
  by (simp add: int_bytes_def split: endian.split)

lemma uint_byte_of_int: "uint (word_of_int x :: byte) = x mod 256"
  by (simp add: uint_word_of_int)

lemma le_int_le_bytes: "le_int (le_bytes n x) = x mod 256 ^ n"
proof (induction n arbitrary: x)
  case (Suc n)
  have "x mod 256 + 256 * (x div 256 mod 256 ^ n) = x mod (256 * 256 ^ n)"
    by (simp add: zmod_zmult2_eq)
  with Suc show ?case by (simp add: uint_byte_of_int)
qed simp

lemma le_int_range: "0 \<le> le_int bs \<and> le_int bs < 256 ^ length bs"
proof (induction bs)
  case (Cons b bs)
  have "0 \<le> uint b" "uint b < 256" using uint_lt2p [of b] by simp_all
  with Cons show ?case by simp
qed simp

lemma bytes_uint_int_bytes: "bytes_uint e (int_bytes e n x) = x mod 256 ^ n"
  by (simp add: bytes_uint_def int_bytes_def le_int_le_bytes split: endian.split)

lemma bytes_uint_range: "0 \<le> bytes_uint e bs" "bytes_uint e bs < 256 ^ length bs"
  using le_int_range [of bs] le_int_range [of "rev bs"]
  by (simp_all add: bytes_uint_def split: endian.split)

lemma bytes_sint_range:
  assumes "bs \<noteq> []"
  shows "- (256 ^ length bs) \<le> 2 * bytes_sint e bs" "2 * bytes_sint e bs < 256 ^ length bs"
  using bytes_uint_range [of e bs] by (simp_all add: bytes_sint_def Let_def)

section \<open>Fields\<close>

text \<open>
  A field of fixed width: what writing and reading promise each other, and that a field is read
  back from the front of a longer buffer.
\<close>

locale field_codec =
  fixes enc :: "'v \<Rightarrow> bytes" and dec :: "bytes \<Rightarrow> 'v" and width :: nat and fits :: "'v \<Rightarrow> bool"
  assumes width: "fits v \<Longrightarrow> length (enc v) = width"
    and dec_enc: "fits v \<Longrightarrow> dec (enc v) = v"
begin

lemma front:
  assumes "fits v"
  shows "dec (take width (enc v @ rest)) = v" "drop width (enc v @ rest) = rest"
  using dec_enc [OF assms] by (simp_all add: width [OF assms, symmetric])

lemma inj: "fits v \<Longrightarrow> fits w \<Longrightarrow> enc v = enc w \<Longrightarrow> v = w"
  by (metis dec_enc)

end

definition fits_u :: "nat \<Rightarrow> int \<Rightarrow> bool" where
  "fits_u n x \<longleftrightarrow> 0 \<le> x \<and> x < 256 ^ n"

definition fits_s :: "nat \<Rightarrow> int \<Rightarrow> bool" where
  "fits_s n x \<longleftrightarrow> 0 < n \<and> - (256 ^ n) \<le> 2 * x \<and> 2 * x < 256 ^ n"

interpretation ufield: field_codec "int_bytes e n" "bytes_uint e" n "fits_u n" for e n
  by unfold_locales (simp_all add: bytes_uint_int_bytes fits_u_def)

lemma sint_of_mod:
  fixes x m :: int
  assumes "- m \<le> 2 * x" "2 * x < m"
  shows "(if 2 * (x mod m) < m then x mod m else x mod m - m) = x"
proof (cases "0 \<le> x")
  case True
  with assms show ?thesis by simp
next
  case False
  with assms have "x mod m = x + m"
    using mod_pos_pos_trivial [of "x + m" m] by simp
  with False assms show ?thesis by simp
qed

interpretation sfield: field_codec "int_bytes e n" "bytes_sint e" n "fits_s n" for e n
proof
  fix v assume "fits_s n v"
  then show "bytes_sint e (int_bytes e n v) = v"
    unfolding bytes_sint_def Let_def bytes_uint_int_bytes length_int_bytes fits_s_def
    by (intro sint_of_mod) simp_all
qed simp

section \<open>Formats\<close>

text \<open>\<^verbatim>\<open>c\<close>, \<^verbatim>\<open>?\<close>, unsigned and signed integers of \<open>n\<close> bytes (\<^verbatim>\<open>H\<close> is 2, \<^verbatim>\<open>I\<close>, \<^verbatim>\<open>L\<close> and \<^verbatim>\<open>i\<close> are 4), \<^verbatim>\<open>Ns\<close>.\<close>

datatype sfmt = Fc | Fbool | Fu nat | Fi nat | Fs nat

datatype sval = SBytes bytes | SInt int | SBool bool

abbreviation FH :: sfmt where "FH \<equiv> Fu 2"
abbreviation FI :: sfmt where "FI \<equiv> Fu 4"

fun fmt_size :: "sfmt \<Rightarrow> nat" where
  "fmt_size Fc = 1"
| "fmt_size Fbool = 1"
| "fmt_size (Fu n) = n"
| "fmt_size (Fi n) = n"
| "fmt_size (Fs n) = n"

definition calcsize :: "sfmt list \<Rightarrow> nat" where
  "calcsize fs = sum_list (map fmt_size fs)"

text \<open>A bool is an int; any object has a truth value.\<close>

fun sval_int :: "sval \<Rightarrow> int option" where
  "sval_int (SInt x) = Some x"
| "sval_int (SBool b) = Some (if b then 1 else 0)"
| "sval_int (SBytes bs) = None"

fun sval_truth :: "sval \<Rightarrow> bool" where
  "sval_truth (SInt x) = (x \<noteq> 0)"
| "sval_truth (SBool b) = b"
| "sval_truth (SBytes bs) = (bs \<noteq> [])"

definition pad_to :: "nat \<Rightarrow> bytes \<Rightarrow> bytes" where
  "pad_to n bs = take n bs @ replicate (n - length bs) 0"

fun pack1 :: "endian \<Rightarrow> sfmt \<Rightarrow> sval \<Rightarrow> bytes res" where
  "pack1 e Fc v = (case v of SBytes [b] \<Rightarrow> Inr [b] | _ \<Rightarrow> Inl StructError)"
| "pack1 e Fbool v = Inr [if sval_truth v then 1 else 0]"
| "pack1 e (Fu n) v =
     (case sval_int v of None \<Rightarrow> Inl StructError
      | Some x \<Rightarrow> if fits_u n x then Inr (int_bytes e n x) else Inl StructError)"
| "pack1 e (Fi n) v =
     (case sval_int v of None \<Rightarrow> Inl StructError
      | Some x \<Rightarrow> if fits_s n x then Inr (int_bytes e n x) else Inl StructError)"
| "pack1 e (Fs n) v = (case v of SBytes bs \<Rightarrow> Inr (pad_to n bs) | _ \<Rightarrow> Inl StructError)"

fun struct_pack :: "endian \<Rightarrow> sfmt list \<Rightarrow> sval list \<Rightarrow> bytes res" where
  "struct_pack e [] [] = Inr []"
| "struct_pack e (f # fs) (v # vs) =
     rbind (pack1 e f v) (\<lambda>b. rbind (struct_pack e fs vs) (\<lambda>bs. Inr (b @ bs)))"
| "struct_pack e _ _ = Inl StructError"

fun unpack1 :: "endian \<Rightarrow> sfmt \<Rightarrow> bytes \<Rightarrow> sval" where
  "unpack1 e Fc bs = SBytes bs"
| "unpack1 e Fbool bs = SBool (\<exists>b \<in> set bs. b \<noteq> 0)"
| "unpack1 e (Fu n) bs = SInt (bytes_uint e bs)"
| "unpack1 e (Fi n) bs = SInt (bytes_sint e bs)"
| "unpack1 e (Fs n) bs = SBytes bs"

fun unpack_fields :: "endian \<Rightarrow> sfmt list \<Rightarrow> bytes \<Rightarrow> sval list" where
  "unpack_fields e [] bs = []"
| "unpack_fields e (f # fs) bs = unpack1 e f (take (fmt_size f) bs) # unpack_fields e fs (drop (fmt_size f) bs)"

definition struct_unpack :: "endian \<Rightarrow> sfmt list \<Rightarrow> bytes \<Rightarrow> sval list res" where
  "struct_unpack e fs bs = (if length bs = calcsize fs then Inr (unpack_fields e fs bs) else Inl StructError)"

lemmas struct_eval [py_eval] = int_bytes_def bytes_uint_def bytes_sint_def fits_u_def fits_s_def
  calcsize_def pad_to_def struct_unpack_def

section \<open>Round trips\<close>

text \<open>The values that a field holds without loss.\<close>

fun exact :: "sfmt \<Rightarrow> sval \<Rightarrow> bool" where
  "exact Fc (SBytes bs) = (length bs = 1)"
| "exact Fbool (SBool b) = True"
| "exact (Fu n) (SInt x) = fits_u n x"
| "exact (Fi n) (SInt x) = fits_s n x"
| "exact (Fs n) (SBytes bs) = (length bs = n)"
| "exact _ _ = False"

lemma length_pad_to [simp]: "length (pad_to n bs) = n"
  by (simp add: pad_to_def)

lemma pad_to_exact [simp]: "length bs = n \<Longrightarrow> pad_to n bs = bs"
  by (simp add: pad_to_def)

lemma pack1_size: "pack1 e f v = Inr bs \<Longrightarrow> length bs = fmt_size f"
  by (cases f) (auto split: sval.splits list.splits option.splits if_splits)

lemma pack1_exact: "exact f v \<Longrightarrow> \<exists>bs. pack1 e f v = Inr bs \<and> unpack1 e f bs = v"
  by (cases "(f, v)" rule: exact.cases) (auto simp: ufield.dec_enc sfield.dec_enc length_Suc_conv)

lemma struct_pack_size: "struct_pack e fs vs = Inr bs \<Longrightarrow> length bs = calcsize fs"
  by (induction e fs vs arbitrary: bs rule: struct_pack.induct)
    (auto simp: calcsize_def rbind_eq_Inr dest: pack1_size)

lemma struct_roundtrip:
  "list_all2 exact fs vs \<Longrightarrow> \<exists>bs. struct_pack e fs vs = Inr bs \<and> length bs = calcsize fs \<and> struct_unpack e fs bs = Inr vs"
proof (induction fs vs rule: list_all2_induct)
  case (Cons f fs v vs)
  from pack1_exact [OF Cons(1), of e] obtain b where b: "pack1 e f v = Inr b" "unpack1 e f b = v" by auto
  from Cons(3) obtain bs where bs: "struct_pack e fs vs = Inr bs" "length bs = calcsize fs" "struct_unpack e fs bs = Inr vs"
    by auto
  have "length b = fmt_size f" using b(1) by (rule pack1_size)
  with b bs show ?case by (auto simp: struct_unpack_def calcsize_def)
qed (simp add: struct_unpack_def calcsize_def)

lemma struct_unpack_append:
  assumes "struct_pack e fs vs = Inr bs" "list_all2 exact fs vs"
  shows "struct_unpack e fs (take (calcsize fs) (bs @ rest)) = Inr vs" "drop (calcsize fs) (bs @ rest) = rest"
  using struct_roundtrip [OF assms(2), of e] struct_pack_size [OF assms(1)] assms(1) by auto

lemma struct_unpack_size: "struct_unpack e fs bs = Inr vs \<Longrightarrow> length bs = calcsize fs \<and> length vs = length fs"
proof -
  have "length (unpack_fields e fs bs) = length fs" for bs by (induction fs arbitrary: bs) auto
  then show "struct_unpack e fs bs = Inr vs \<Longrightarrow> length bs = calcsize fs \<and> length vs = length fs" by (auto simp: struct_unpack_def split: if_splits)
qed

end
