(* ===== verification/Vm_Pool.thy ===== *)
theory Vm_Pool
  imports Py_Effect Py_Machine Py_Value
begin

text \<open>
  \<^verbatim>\<open>sensor/cowrie/src/backend_pool/pool_service.py\<close>: the pool of virtual machines behind the proxy
  mode of the sensor, with the choice of addresses of \<^verbatim>\<open>libvirt/backend_service.py\<close>.  libvirt, nmap,
  the clock and the random choices are the fields of \<open>backend\<close>.  A guest is found by its place in the
  list, since the code changes the object it found; the lock makes each operation one step.
\<close>

section \<open>State\<close>

datatype pool_state = Created | Available | Using | Used | Unavailable | Destroyed

text \<open>The field \<^verbatim>\<open>state\<close> is an option because \<^verbatim>\<open>reuse_vm\<close> assigns it from \<^verbatim>\<open>prev_state\<close>.\<close>

record guest =
  g_id :: int
  g_client_ips :: "pystr list"
  g_connected :: int
  g_state :: "pool_state option"
  g_prev_state :: "pool_state option"
  g_start :: rat
  g_freed :: rat
  g_domain :: pystr
  g_ip :: pystr
  g_snapshot :: pystr

record pool =
  pl_guests :: "guest list"
  pl_guest_id :: int
  pl_max_vm :: int
  pl_timeout :: int
  pl_share :: bool
  pl_ssh_port :: int
  pl_telnet_port :: int
  pl_any_vm_up :: bool
  pl_loop :: bool          \<comment> \<open>whether the next run of the producer is scheduled\<close>

record backend =
  be_ready :: bool
  be_table :: "(pystr \<times> pystr) list"                    \<comment> \<open>MAC to address\<close>
  be_choice :: "nat \<Rightarrow> int \<Rightarrow> pystr"                     \<comment> \<open>the MAC picked for a guest at a retry\<close>
  be_spawn :: "pystr \<Rightarrow> (pystr \<times> pystr) option"          \<comment> \<open>domain and snapshot, or None\<close>
  be_nmap :: "pystr \<Rightarrow> int \<Rightarrow> bool"
  be_now :: rat

definition pool_init :: "int \<Rightarrow> int \<Rightarrow> pool" where
  "pool_init ssh telnet =
     \<lparr>pl_guests = [], pl_guest_id = 0, pl_max_vm = 2, pl_timeout = 600, pl_share = True,
      pl_ssh_port = ssh, pl_telnet_port = telnet, pl_any_vm_up = False, pl_loop = False\<rparr>"

definition start_pool :: "pool \<Rightarrow> pool" where
  "start_pool p = p\<lparr>pl_guests := [], pl_guest_id := 0, pl_any_vm_up := False, pl_loop := True\<rparr>"

text \<open>Stopping destroys the machines and cancels the producer; the list of guests is left as it is.\<close>

definition stop_pool :: "pool \<Rightarrow> pool" where
  "stop_pool p = p\<lparr>pl_loop := False\<rparr>"

definition restart_pool :: "pool \<Rightarrow> pool" where
  "restart_pool p = start_pool (stop_pool p)"

definition set_configs :: "int \<Rightarrow> int \<Rightarrow> bool \<Rightarrow> pool \<Rightarrow> pool" where
  "set_configs max_vm timeout share p = p\<lparr>pl_max_vm := max_vm, pl_timeout := timeout, pl_share := share\<rparr>"

definition in_states :: "pool_state list \<Rightarrow> guest \<Rightarrow> bool" where
  "in_states ss g = (case g_state g of Some s \<Rightarrow> s \<in> set ss | None \<Rightarrow> False)"

definition existing_pool_size :: "pool \<Rightarrow> nat" where
  "existing_pool_size p = length (filter (\<lambda>g. g_state g \<noteq> Some Destroyed) (pl_guests p))"

definition is_ip_free :: "pool \<Rightarrow> pystr \<Rightarrow> bool" where
  "is_ip_free p ip = list_all (\<lambda>g. g_ip g \<noteq> ip) (pl_guests p)"

definition has_connectivity :: "backend \<Rightarrow> pool \<Rightarrow> pystr \<Rightarrow> bool" where
  "has_connectivity B p ip =
     (let has_ssh = (if 0 < pl_ssh_port p then be_nmap B ip (pl_ssh_port p) else False);
          has_telnet = (if 0 < pl_telnet_port p \<and> \<not> has_ssh then be_nmap B ip (pl_telnet_port p) else True)
      in has_ssh \<or> has_telnet)"

section \<open>The producer\<close>

definition map_guests :: "(guest \<Rightarrow> guest) \<Rightarrow> pool \<Rightarrow> pool" where
  "map_guests f p = p\<lparr>pl_guests := map f (pl_guests p)\<rparr>"

definition mark_timed_out :: "backend \<Rightarrow> pool \<Rightarrow> pool" where
  "mark_timed_out B p =
     map_guests (\<lambda>g. if in_states [Used] g \<and> g_freed g + of_int (pl_timeout p) < be_now B
                     then g\<lparr>g_state := Some Unavailable\<rparr> else g) p"

definition check_health :: "backend \<Rightarrow> pool \<Rightarrow> pool" where
  "check_health B p =
     map_guests (\<lambda>g. if in_states [Available, Using, Used] g \<and> \<not> has_connectivity B p (g_ip g)
                     then g\<lparr>g_state := Some Unavailable\<rparr> else g) p"

text \<open>The backend's \<^verbatim>\<open>destroy_guest\<close> never raises: it logs and returns.\<close>

definition destroy_timed_out :: "pool \<Rightarrow> pool" where
  "destroy_timed_out p =
     map_guests (\<lambda>g. if in_states [Unavailable] g then g\<lparr>g_state := Some Destroyed\<rparr> else g) p"

definition remove_destroyed :: "pool \<Rightarrow> pool" where
  "remove_destroyed p = p\<lparr>pl_guests := filter (\<lambda>g. \<not> in_states [Destroyed] g) (pl_guests p)\<rparr>"

definition mark_available :: "backend \<Rightarrow> pool \<Rightarrow> pool" where
  "mark_available B p =
     (let up = (\<lambda>g. in_states [Created] g \<and> has_connectivity B p (g_ip g)) in
      map_guests (\<lambda>g. if up g then g\<lparr>g_state := Some Available\<rparr> else g)
        (p\<lparr>pl_any_vm_up := pl_any_vm_up p \<or> list_ex up (pl_guests p)\<rparr>))"

text \<open>500 tries to pick an address that is free; the \<open>n\<close>-th guest of the loop is being created.\<close>

function get_mac_ip :: "backend \<Rightarrow> (pystr \<Rightarrow> bool) \<Rightarrow> nat \<Rightarrow> int \<Rightarrow> (pystr \<times> pystr) res" where
  "get_mac_ip B tester n retries =
     (if retries < 500 then
        (let mac = be_choice B n retries in
         case map_of (be_table B) mac of
           None \<Rightarrow> Inl KeyError
         | Some ip \<Rightarrow> if tester ip then Inr (mac, ip) else get_mac_ip B tester n (retries + 1))
      else Inl RuntimeError)"
  by pat_completeness auto
termination
  by (relation "measure (\<lambda>(B, tester, n, r). nat (500 - r))") auto

declare get_mac_ip.simps [simp del]

definition create_guest :: "backend \<Rightarrow> (pystr \<Rightarrow> bool) \<Rightarrow> nat \<Rightarrow> (pystr \<times> pystr \<times> pystr) option res" where
  "create_guest B tester n =
     (if \<not> be_ready B then Inr None
      else rbind (get_mac_ip B tester n 0) (\<lambda>(mac, ip).
        Inr (case be_spawn B mac of None \<Rightarrow> None | Some (dmn, snap) \<Rightarrow> Some (dmn, snap, ip))))"

definition new_guest :: "backend \<Rightarrow> int \<Rightarrow> pystr \<times> pystr \<times> pystr \<Rightarrow> guest" where
  "new_guest B gid c =
     (case c of (dmn, snap, ip) \<Rightarrow>
        \<lparr>g_id = gid, g_client_ips = [], g_connected = 0, g_state = Some Created, g_prev_state = None,
         g_start = be_now B, g_freed = - 1, g_domain = dmn, g_ip = ip, g_snapshot = snap\<rparr>)"

definition add_guest :: "guest \<Rightarrow> pool \<Rightarrow> pool" where
  "add_guest g p =
     p\<lparr>pl_guests := pl_guests p @ [g], pl_guest_id := (if pl_guest_id p + 1 = 252 then 0 else pl_guest_id p + 1)\<rparr>"

fun create_guests :: "backend \<Rightarrow> nat \<Rightarrow> (pool, unit) eff" where
  "create_guests B 0 p = (Inr (), p)"
| "create_guests B (Suc n) p =
     (case create_guest B (is_ip_free p) n of
        Inl e \<Rightarrow> (Inl e, p)
      | Inr None \<Rightarrow> create_guests B n p
      | Inr (Some c) \<Rightarrow> create_guests B n (add_guest (new_guest B (pl_guest_id p) c) p))"

definition producer_loop :: "backend \<Rightarrow> (pool, unit) eff" where
  "producer_loop B p =
     (let p1 = (if 1 < existing_pool_size p then destroy_timed_out (mark_timed_out B p) else p);
          p3 = remove_destroyed (check_health B p1);
          (r, p4) = create_guests B (nat (pl_max_vm p3 - int (existing_pool_size p3))) p3
      in case r of
           Inl e \<Rightarrow> (Inl e, p4\<lparr>pl_loop := False\<rparr>)
         | Inr _ \<Rightarrow> (Inr (), (mark_available B p4)\<lparr>pl_loop := True\<rparr>))"

section \<open>The consumers\<close>

fun find_index :: "('a \<Rightarrow> bool) \<Rightarrow> 'a list \<Rightarrow> nat option" where
  "find_index P [] = None"
| "find_index P (x # xs) = (if P x then Some 0 else map_option Suc (find_index P xs))"

definition guest_for_ip :: "pool \<Rightarrow> pystr \<Rightarrow> nat option" where
  "guest_for_ip p src = find_index (\<lambda>g. in_states [Used, Using] g \<and> src \<in> set (g_client_ips g)) (pl_guests p)"

definition available_guest :: "pool \<Rightarrow> nat option" where
  "available_guest p = find_index (in_states [Available]) (pl_guests p)"

text \<open>\<^verbatim>\<open>min(usable, key=connected)\<close>: the first of the least busy.\<close>

definition any_guest :: "pool \<Rightarrow> nat option" where
  "any_guest p =
     (let usable = filter (in_states [Using, Used]) (pl_guests p) in
      find_index (\<lambda>g. in_states [Using, Used] g \<and> list_all (\<lambda>h. g_connected g \<le> g_connected h) usable)
        (pl_guests p))"

definition choose_guest :: "pool \<Rightarrow> pystr \<Rightarrow> nat option" where
  "choose_guest p src =
     (case guest_for_ip p src of
        Some i \<Rightarrow> Some i
      | None \<Rightarrow>
          (case available_guest p of
             Some i \<Rightarrow> Some i
           | None \<Rightarrow> if pl_share p then any_guest p else None))"

definition claim :: "pystr \<Rightarrow> guest \<Rightarrow> guest" where
  "claim src g =
     g\<lparr>g_prev_state := g_state g, g_state := Some Using, g_connected := g_connected g + 1,
       g_client_ips := g_client_ips g @ [src]\<rparr>"

text \<open>The answer is the id, the address and the snapshot; NoAvailableVMs is a RuntimeError here.\<close>

definition request_vm :: "pystr \<Rightarrow> (pool, int \<times> pystr \<times> pystr) eff" where
  "request_vm src p =
     (case choose_guest p src of
        None \<Rightarrow> (Inl RuntimeError, if pl_any_vm_up p then stop_pool p else p)
      | Some i \<Rightarrow>
          (let g = pl_guests p ! i in
           (Inr (g_id g, g_ip g, g_snapshot g), p\<lparr>pl_guests := (pl_guests p)[i := claim src g]\<rparr>)))"

definition update_first :: "(guest \<Rightarrow> bool) \<Rightarrow> (guest \<Rightarrow> guest) \<Rightarrow> pool \<Rightarrow> pool" where
  "update_first P f p =
     (case find_index P (pl_guests p) of
        None \<Rightarrow> p
      | Some i \<Rightarrow> p\<lparr>pl_guests := (pl_guests p)[i := f (pl_guests p ! i)]\<rparr>)"

definition free_vm :: "rat \<Rightarrow> int \<Rightarrow> pool \<Rightarrow> pool" where
  "free_vm now gid p =
     update_first (\<lambda>g. g_id g = gid)
       (\<lambda>g. g\<lparr>g_freed := now, g_connected := g_connected g - 1,
              g_state := (if g_connected g - 1 = 0 then Some Used else g_state g)\<rparr>) p"

definition reuse_vm :: "int \<Rightarrow> pool \<Rightarrow> pool" where
  "reuse_vm gid p =
     update_first (\<lambda>g. g_id g = gid)
       (\<lambda>g. if g_connected g - 1 = 0
            then g\<lparr>g_connected := 0, g_state := g_prev_state g, g_prev_state := None\<rparr>
            else g\<lparr>g_connected := g_connected g - 1\<rparr>) p"

lemmas pool_eval [py_eval] = pool_init_def start_pool_def stop_pool_def restart_pool_def set_configs_def
  in_states_def existing_pool_size_def is_ip_free_def has_connectivity_def map_guests_def mark_timed_out_def
  check_health_def destroy_timed_out_def remove_destroyed_def mark_available_def get_mac_ip.simps
  create_guest_def new_guest_def add_guest_def producer_loop_def guest_for_ip_def available_guest_def
  any_guest_def choose_guest_def claim_def request_vm_def update_first_def free_vm_def reuse_vm_def

section \<open>Operations as steps\<close>

datatype pool_op =
    Produce backend
  | Request pystr
  | Free rat int
  | Reuse int
  | Configure int int bool
  | Restart

fun pool_step :: "pool_op \<Rightarrow> pool \<Rightarrow> pool" where
  "pool_step (Produce B) p = snd (producer_loop B p)"
| "pool_step (Request src) p = snd (request_vm src p)"
| "pool_step (Free now gid) p = free_vm now gid p"
| "pool_step (Reuse gid) p = reuse_vm gid p"
| "pool_step (Configure m t s) p = set_configs m t s p"
| "pool_step Restart p = restart_pool p"

section \<open>Properties of single guests\<close>

lemma find_index_Some: "find_index P xs = Some i \<Longrightarrow> i < length xs \<and> P (xs ! i)"
  by (induction xs arbitrary: i) (auto split: if_splits)

lemma find_index_None: "find_index P xs = None \<longleftrightarrow> list_all (\<lambda>x. \<not> P x) xs"
  by (induction xs) auto

text \<open>Which guest a request may be given.\<close>

definition claimable :: "bool \<Rightarrow> pystr \<Rightarrow> guest \<Rightarrow> bool" where
  "claimable share src g \<longleftrightarrow> in_states [Used, Using] g \<and> src \<in> set (g_client_ips g) \<or> in_states [Available] g \<or>
     share \<and> in_states [Using, Used] g"

lemma choose_guest_claimable:
  "choose_guest p src = Some i \<Longrightarrow> i < length (pl_guests p) \<and> claimable (pl_share p) src (pl_guests p ! i)"
  by (auto simp: choose_guest_def guest_for_ip_def available_guest_def any_guest_def claimable_def Let_def
      split: option.splits if_splits dest: find_index_Some)

text \<open>
  A property of a guest that every operation of the service keeps, one law per operation.  The
  sharing policy and the operations allowed are parameters of the contract.
\<close>

locale guest_invariant =
  fixes Q :: "guest \<Rightarrow> bool" and share_ok :: "bool \<Rightarrow> bool" and ok :: "pool_op \<Rightarrow> bool"
  assumes fresh: "Q (new_guest B gid c)"
    and retire: "Q g \<Longrightarrow> s \<in> {Unavailable, Destroyed} \<Longrightarrow> Q (g\<lparr>g_state := Some s\<rparr>)"
    and boot: "Q g \<Longrightarrow> g_state g = Some Created \<Longrightarrow> Q (g\<lparr>g_state := Some Available\<rparr>)"
    and claim: "Q g \<Longrightarrow> share_ok sh \<Longrightarrow> claimable sh src g \<Longrightarrow> Q (claim src g)"
    and free: "Q g \<Longrightarrow> Q (g\<lparr>g_freed := now, g_connected := g_connected g - 1,
              g_state := (if g_connected g - 1 = 0 then Some Used else g_state g)\<rparr>)"
    and reuse: "ok (Reuse gid) \<Longrightarrow> Q g \<Longrightarrow> Q (if g_connected g - 1 = 0
            then g\<lparr>g_connected := 0, g_state := g_prev_state g, g_prev_state := None\<rparr>
            else g\<lparr>g_connected := g_connected g - 1\<rparr>)"
    and config: "ok (Configure m t sh) \<Longrightarrow> share_ok sh"
begin

definition all_ok :: "pool \<Rightarrow> bool" where
  "all_ok p \<longleftrightarrow> list_all Q (pl_guests p) \<and> share_ok (pl_share p)"

lemma map_ok: "all_ok p \<Longrightarrow> (\<And>g. Q g \<Longrightarrow> Q (f g)) \<Longrightarrow> all_ok (map_guests f p)"
  by (auto simp: all_ok_def map_guests_def list_all_iff)

lemma create_ok: "all_ok p \<Longrightarrow> all_ok (snd (create_guests B n p))"
proof (induction n arbitrary: p)
  case (Suc n)
  have "all_ok (add_guest (new_guest B gid c) p)" for gid c
    using Suc.prems fresh by (simp add: all_ok_def add_guest_def)
  with Suc show ?case by (simp split: sum.split option.split)
qed simp

lemma produce_ok:
  assumes "all_ok p"
  shows "all_ok (snd (producer_loop B p))"
proof -
  have 1: "all_ok (mark_timed_out B q)" "all_ok (check_health B q)" "all_ok (destroy_timed_out q)" if "all_ok q" for q
    unfolding mark_timed_out_def check_health_def destroy_timed_out_def
    by (rule map_ok [OF that], simp add: retire)+
  have 2: "all_ok (remove_destroyed q)" if "all_ok q" for q
    using that by (auto simp: all_ok_def remove_destroyed_def list_all_iff)
  have 3: "all_ok (mark_available B q)" if "all_ok q" for q
    unfolding mark_available_def Let_def
    by (rule map_ok) (use that in \<open>auto simp: all_ok_def in_states_def intro: boot split: option.splits\<close>)
  have 4: "all_ok (q\<lparr>pl_loop := b\<rparr>) = all_ok q" for q b by (simp add: all_ok_def)
  define p3 where "p3 = remove_destroyed (check_health B
    (if 1 < existing_pool_size p then destroy_timed_out (mark_timed_out B p) else p))"
  have "all_ok p3" using assms 1 2 by (simp add: p3_def)
  then have c: "all_ok (snd (create_guests B (nat (pl_max_vm p3 - int (existing_pool_size p3))) p3))" by (rule create_ok)
  show ?thesis
    unfolding producer_loop_def Let_def p3_def [symmetric]
    using c 3 by (auto simp: 4 split: prod.splits sum.splits)
qed

lemma update_first_ok: "all_ok p \<Longrightarrow> (\<And>g. Q g \<Longrightarrow> Q (f g)) \<Longrightarrow> all_ok (update_first P f p)"
  by (auto simp: all_ok_def update_first_def list_all_iff dest!: find_index_Some set_update_subset_insert [THEN subsetD]
      split: option.split)

lemma request_ok: "all_ok p \<Longrightarrow> all_ok (snd (request_vm src p))"
proof (cases "choose_guest p src")
  case (Some i)
  assume p: "all_ok p"
  from choose_guest_claimable [OF Some] p have "Q (claim src (pl_guests p ! i))"
    by (auto simp: all_ok_def list_all_iff intro: claim)
  with p Some show ?thesis
    by (auto simp: request_vm_def Let_def all_ok_def list_all_iff dest!: set_update_subset_insert [THEN subsetD])
qed (simp add: request_vm_def all_ok_def stop_pool_def)

lemma step_ok: "all_ok p \<Longrightarrow> ok e \<Longrightarrow> all_ok (pool_step e p)"
proof (cases e)
  case (Produce B)
  assume "all_ok p"
  with Produce show ?thesis by (simp add: produce_ok)
next
  case (Request src)
  assume "all_ok p"
  with Request show ?thesis by (simp add: request_ok)
next
  case (Free now gid)
  assume "all_ok p"
  then show ?thesis unfolding Free pool_step.simps free_vm_def by (rule update_first_ok) (rule free)
next
  case (Reuse gid)
  assume "all_ok p" "ok e"
  then show ?thesis unfolding Reuse pool_step.simps reuse_vm_def by (intro update_first_ok reuse) simp_all
next
  case (Configure m t sh)
  assume "all_ok p" "ok e"
  with Configure show ?thesis by (simp add: all_ok_def set_configs_def config)
next
  case Restart
  assume "all_ok p"
  with Restart show ?thesis by (simp add: all_ok_def restart_pool_def start_pool_def stop_pool_def)
qed

sublocale machine: invariant_machine pool_step all_ok ok
  by unfold_locales (rule step_ok)

end

text \<open>
  Every guest is in one of the six states: \<^verbatim>\<open>prev_state\<close> is only ever missing on a guest that has
  no client to lose.
\<close>

definition state_known :: "guest \<Rightarrow> bool" where
  "state_known g \<longleftrightarrow> g_state g \<noteq> None \<and> (g_prev_state g = None \<longrightarrow> g_connected g \<le> 0)"

interpretation states: guest_invariant state_known "\<lambda>_. True" "\<lambda>_. True"
  by unfold_locales (auto simp: state_known_def new_guest_def claim_def claimable_def in_states_def
      split: prod.splits option.splits)

text \<open>
  In every sequence of operations on the pool, requests, releases, reuses, runs of the producer,
  new configurations and restarts, every guest is in one of the six states, whatever the previous
  state a release for reuse puts back.
\<close>

theorem guest_state_always_known:
  "list_all (\<lambda>g. g_state g \<noteq> None) (pl_guests (fold pool_step ops (pool_init ssh telnet)))"
proof -
  have "states.all_ok (fold pool_step ops (pool_init ssh telnet))"
    by (rule states.machine.always) (simp_all add: states.all_ok_def pool_init_def list_all_iff)
  then show ?thesis by (auto simp: states.all_ok_def list_all_iff state_known_def)
qed

section \<open>Isolation of attackers\<close>

text \<open>A guest that was never handed back for reuse belongs to one client address.\<close>

definition one_client :: "guest \<Rightarrow> bool" where
  "one_client g \<longleftrightarrow> (\<exists>ip. set (g_client_ips g) \<subseteq> {ip}) \<and>
     (g_state g \<in> {Some Created, Some Available} \<longrightarrow> g_client_ips g = [])"

fun isolating :: "pool_op \<Rightarrow> bool" where
  "isolating (Reuse gid) = False"
| "isolating (Configure m t share) = (\<not> share)"
| "isolating _ = True"

interpretation isolation: guest_invariant one_client Not isolating
proof
  fix g src sh
  assume "one_client g" "\<not> sh" "claimable sh src g"
  then show "one_client (claim src g)"
    by (auto simp: one_client_def claimable_def claim_def in_states_def split: option.splits)
qed (auto simp: one_client_def new_guest_def split: prod.splits)

text \<open>
  C31. With sharing off, and as long as no guest is handed back for reuse, two attackers never meet on
  a machine: after any operations every guest has served at most one client address.
\<close>

theorem attackers_isolated:
  assumes "\<not> pl_share p" "pl_guests p = []" "list_all isolating ops" "g \<in> set (pl_guests (fold pool_step ops p))"
    and "a \<in> set (g_client_ips g)" "b \<in> set (g_client_ips g)"
  shows "a = b"
proof -
  have "isolation.all_ok (fold pool_step ops p)"
    by (rule isolation.machine.always) (use assms(1-3) in \<open>simp_all add: isolation.all_ok_def\<close>)
  with assms(4) have "one_client g" by (auto simp: isolation.all_ok_def list_all_iff)
  with assms(5,6) show ?thesis by (auto simp: one_client_def)
qed

section \<open>Addresses and size\<close>

lemma get_mac_ip_free: "get_mac_ip B tester n r = Inr (mac, ip) \<Longrightarrow> tester ip"
proof (induction B tester n r rule: get_mac_ip.induct)
  case (1 B tester n retries)
  then show ?case
    by (subst (asm) get_mac_ip.simps) (auto simp: Let_def split: if_splits option.splits)
qed

lemma create_guest_free: "create_guest B tester n = Inr (Some (dmn, snap, ip)) \<Longrightarrow> tester ip"
  by (auto simp: create_guest_def rbind_eq_Inr split: if_splits option.splits prod.splits dest: get_mac_ip_free)

definition ips :: "pool \<Rightarrow> pystr list" where
  "ips p = map g_ip (pl_guests p)"

text \<open>What an operation does to the list of addresses: it can lose some, and gain free ones.\<close>

lemma create_guests_ips:
  "distinct (ips p) \<Longrightarrow> distinct (ips (snd (create_guests B n p))) \<and>
     length (ips (snd (create_guests B n p))) \<le> length (ips p) + n \<and>
     pl_max_vm (snd (create_guests B n p)) = pl_max_vm p"
proof (induction n arbitrary: p)
  case (Suc n)
  have "distinct (ips (add_guest (new_guest B gid c) p))" if "create_guest B (is_ip_free p) n = Inr (Some c)" for gid c
    using that create_guest_free [of B "is_ip_free p" n] Suc.prems
    by (auto simp: ips_def add_guest_def new_guest_def is_ip_free_def list_all_iff split: prod.splits)
  moreover have "length (ips (add_guest g p)) = Suc (length (ips p))" "pl_max_vm (add_guest g p) = pl_max_vm p" for g
    by (simp_all add: ips_def add_guest_def)
  ultimately show ?case
    using Suc.IH Suc.prems by (fastforce split: sum.split option.split)
qed simp

lemma ips_map [simp]:
  "ips (mark_timed_out B p) = ips p" "ips (check_health B p) = ips p" "ips (destroy_timed_out p) = ips p"
  "ips (mark_available B p) = ips p" "ips (p\<lparr>pl_loop := b\<rparr>) = ips p"
  by (simp_all add: ips_def mark_timed_out_def check_health_def destroy_timed_out_def mark_available_def
      map_guests_def Let_def comp_def if_distrib [of g_ip] cong: if_cong)

lemma max_vm_map [simp]:
  "pl_max_vm (mark_timed_out B p) = pl_max_vm p" "pl_max_vm (check_health B p) = pl_max_vm p"
  "pl_max_vm (destroy_timed_out p) = pl_max_vm p" "pl_max_vm (mark_available B p) = pl_max_vm p"
  "pl_max_vm (remove_destroyed p) = pl_max_vm p"
  by (simp_all add: mark_timed_out_def check_health_def destroy_timed_out_def mark_available_def
      map_guests_def Let_def remove_destroyed_def)

lemma remove_destroyed_ips:
  "distinct (ips p) \<Longrightarrow> distinct (ips (remove_destroyed p))"
  "length (ips (remove_destroyed p)) \<le> length (ips p)"
  "existing_pool_size (remove_destroyed p) = length (ips (remove_destroyed p))"
proof -
  show "distinct (ips p) \<Longrightarrow> distinct (ips (remove_destroyed p))"
    by (simp add: ips_def remove_destroyed_def distinct_map_filter)
  show "length (ips (remove_destroyed p)) \<le> length (ips p)"
    by (simp add: ips_def remove_destroyed_def)
  have "filter (\<lambda>g. \<not> in_states [Destroyed] g \<and> g_state g \<noteq> Some Destroyed) xs = filter (\<lambda>g. \<not> in_states [Destroyed] g) xs" for xs
    by (induction xs) (auto simp: in_states_def)
  then show "existing_pool_size (remove_destroyed p) = length (ips (remove_destroyed p))"
    by (simp add: existing_pool_size_def ips_def remove_destroyed_def)
qed

lemma producer_loop_ips:
  assumes "distinct (ips p)"
  shows "distinct (ips (snd (producer_loop B p))) \<and>
    int (length (ips (snd (producer_loop B p)))) \<le> max (int (length (ips p))) (pl_max_vm p) \<and>
    pl_max_vm (snd (producer_loop B p)) = pl_max_vm p"
proof -
  define p2 where "p2 = check_health B (if 1 < existing_pool_size p then destroy_timed_out (mark_timed_out B p) else p)"
  define p3 where "p3 = remove_destroyed p2"
  have p2: "ips p2 = ips p" "pl_max_vm p2 = pl_max_vm p" by (simp_all add: p2_def)
  have p3: "distinct (ips p3)" "length (ips p3) \<le> length (ips p)" "existing_pool_size p3 = length (ips p3)" "pl_max_vm p3 = pl_max_vm p"
    using assms remove_destroyed_ips [of p2] p2 by (simp_all add: p3_def)
  let ?n = "nat (pl_max_vm p3 - int (existing_pool_size p3))"
  obtain r p4 where c: "create_guests B ?n p3 = (r, p4)" by (cases "create_guests B ?n p3")
  with create_guests_ips [OF p3(1), of B ?n] have p4: "distinct (ips p4)" "length (ips p4) \<le> length (ips p3) + ?n"
    "pl_max_vm p4 = pl_max_vm p" using p3(4) by simp_all
  have "int (length (ips p4)) \<le> max (int (length (ips p))) (pl_max_vm p)" using p4(2) p3 by linarith
  with p4 show ?thesis
    unfolding producer_loop_def Let_def p2_def [symmetric] p3_def [symmetric] c
    by (simp split: sum.split)
qed

lemma update_first_ips: "(\<And>g. g_ip (f g) = g_ip g) \<Longrightarrow> ips (update_first P f p) = ips p"
  by (auto simp: ips_def update_first_def map_update split: option.split dest!: find_index_Some intro!: list_update_same_conv [THEN iffD2])

lemma consumer_ips [simp]:
  "ips (free_vm now gid p) = ips p" "ips (reuse_vm gid p) = ips p" "ips (snd (request_vm src p)) = ips p"
proof -
  show "ips (free_vm now gid p) = ips p" "ips (reuse_vm gid p) = ips p"
    unfolding free_vm_def reuse_vm_def by (rule update_first_ips, simp)+
  show "ips (snd (request_vm src p)) = ips p"
    by (auto simp: request_vm_def Let_def ips_def stop_pool_def map_update claim_def split: option.split
        dest!: choose_guest_claimable intro!: list_update_same_conv [THEN iffD2])
qed

lemma consumer_max [simp]:
  "pl_max_vm (free_vm now gid p) = pl_max_vm p" "pl_max_vm (reuse_vm gid p) = pl_max_vm p"
  "pl_max_vm (snd (request_vm src p)) = pl_max_vm p"
  by (simp_all add: free_vm_def reuse_vm_def update_first_def request_vm_def Let_def stop_pool_def split: option.split)

lemma admin_ips:
  "ips (set_configs n t sh p) = ips p" "pl_max_vm (set_configs n t sh p) = n"
  "ips (restart_pool p) = []" "pl_max_vm (restart_pool p) = pl_max_vm p"
  by (simp_all add: ips_def set_configs_def restart_pool_def start_pool_def stop_pool_def)

definition pool_ok :: "int \<Rightarrow> pool \<Rightarrow> bool" where
  "pool_ok m p \<longleftrightarrow> distinct (ips p) \<and> int (length (pl_guests p)) \<le> m \<and> pl_max_vm p \<le> m"

fun within_limit :: "int \<Rightarrow> pool_op \<Rightarrow> bool" where
  "within_limit m (Configure n t sh) = (n \<le> m)"
| "within_limit m _ = True"

interpretation pool: invariant_machine pool_step "pool_ok m" "within_limit m" for m
proof
  fix p e
  assume p: "pool_ok m p" and e: "within_limit m e"
  have l: "length (pl_guests q) = length (ips q)" for q by (simp add: ips_def)
  show "pool_ok m (pool_step e p)"
  proof (cases e)
    case (Produce B)
    with p producer_loop_ips [of p B] show ?thesis unfolding pool_ok_def l by auto
  qed (use p e in \<open>auto simp: pool_ok_def l admin_ips\<close>)
qed


section \<open>Requests\<close>

text \<open>
  A request is served exactly when some guest may serve it (one the client already has, a free
  one, or with sharing any one in use); the client's own machine comes first, the chosen guest is
  then in use with one client more, and every other guest is as it was.
\<close>

theorem request_vm_served_iff:
  "(\<exists>a. fst (request_vm src p) = Inr a) \<longleftrightarrow> (\<exists>g \<in> set (pl_guests p). claimable (pl_share p) src g)"
  (is "?served \<longleftrightarrow> ?possible")
proof
  assume ?served
  then obtain i where "choose_guest p src = Some i"
    by (auto simp: request_vm_def split: option.splits)
  from choose_guest_claimable [OF this] show ?possible by auto
next
  assume ?possible
  then obtain g where g: "g \<in> set (pl_guests p)" "claimable (pl_share p) src g" ..
  let ?usable = "filter (in_states [Using, Used]) (pl_guests p)"
  have any: "any_guest p \<noteq> None" if u: "?usable \<noteq> []"
  proof -
    have fin: "finite (g_connected ` set ?usable)" "g_connected ` set ?usable \<noteq> {}" using u by (simp_all only: set_empty image_is_empty finite_imageI List.finite_set simp_thms)
    obtain h where h: "h \<in> set ?usable" "g_connected h = Min (g_connected ` set ?usable)"
      using Min_in [OF fin] by auto
    then have "\<forall>x \<in> set ?usable. g_connected h \<le> g_connected x" using fin by simp
    with h(1) have "h \<in> set (pl_guests p)" "in_states [Using, Used] h \<and> list_all (\<lambda>x. g_connected h \<le> g_connected x) ?usable"
      by (simp_all add: list_all_iff)
    then show ?thesis
      unfolding any_guest_def Let_def find_index_None list_all_iff by blast
  qed
  have "choose_guest p src \<noteq> None"
    using g any unfolding claimable_def
    by (fastforce simp: choose_guest_def guest_for_ip_def available_guest_def find_index_None list_all_iff filter_empty_conv
        split: option.splits)
  then show ?served by (auto simp: request_vm_def Let_def)
qed

lemma request_vm_effect:
  assumes "request_vm src p = (Inr (gid, ip, snap), p')"
  shows "\<exists>i < length (pl_guests p). let g = pl_guests p ! i in
    p' = p\<lparr>pl_guests := (pl_guests p)[i := claim src g]\<rparr> \<and> g_id g = gid \<and> g_ip g = ip \<and>
    claimable (pl_share p) src g \<and>
    ((\<exists>h \<in> set (pl_guests p). in_states [Used, Using] h \<and> src \<in> set (g_client_ips h)) \<longrightarrow> src \<in> set (g_client_ips g))"
proof -
  obtain i where i: "choose_guest p src = Some i"
    using assms by (auto simp: request_vm_def split: option.splits)
  have own: "src \<in> set (g_client_ips (pl_guests p ! i))"
    if "\<exists>h \<in> set (pl_guests p). in_states [Used, Using] h \<and> src \<in> set (g_client_ips h)"
  proof -
    from that obtain j where j: "guest_for_ip p src = Some j"
      by (cases "guest_for_ip p src") (auto simp: guest_for_ip_def find_index_None list_all_iff)
    with i have "i = j" by (simp add: choose_guest_def)
    with find_index_Some [OF j [unfolded guest_for_ip_def]] show ?thesis by simp
  qed
  show ?thesis
    using choose_guest_claimable [OF i] assms i own by (auto simp: request_vm_def Let_def intro!: exI [of _ i])
qed

section \<open>Where the code departs from its comments\<close>

text \<open>With Telnet off, a guest counts as connected whatever SSH says.\<close>

lemma telnet_off_always_connected: "pl_telnet_port p \<le> 0 \<Longrightarrow> has_connectivity B p ip"
  by (simp add: has_connectivity_def Let_def)

text \<open>
  A request that finds every machine taken stops the whole pool, although the log speaks of a
  restart: once a machine has been up, a request no guest can serve cancels the producer, and no
  later request or release schedules it again.
\<close>

fun from_clients :: "pool_op \<Rightarrow> bool" where
  "from_clients (Request src) = True"
| "from_clients (Free now gid) = True"
| "from_clients (Reuse gid) = True"
| "from_clients (Configure m t sh) = True"
| "from_clients _ = False"

interpretation halted: invariant_machine pool_step "\<lambda>p. \<not> pl_loop p" from_clients
proof
  fix p :: pool and e
  assume "\<not> pl_loop p" "from_clients e"
  then show "\<not> pl_loop (pool_step e p)"
    by (cases e) (auto simp: request_vm_def free_vm_def reuse_vm_def update_first_def set_configs_def Let_def stop_pool_def
        split: option.splits)
qed

theorem busy_pool_stops:
  assumes "pl_any_vm_up p" "\<forall>g \<in> set (pl_guests p). \<not> claimable (pl_share p) src g" "list_all from_clients ops"
  shows "\<not> pl_loop (fold pool_step ops (pool_step (Request src) p))"
proof (rule halted.always [OF _ assms(3)])
  have "choose_guest p src = None"
    using assms(2) choose_guest_claimable [of p src] by (cases "choose_guest p src") auto
  with assms(1) show "\<not> pl_loop (pool_step (Request src) p)"
    by (simp add: request_vm_def stop_pool_def)
qed

text \<open>A guest given up for lack of connectivity comes back into service when its client leaves.\<close>

definition demo_backend :: "bool \<Rightarrow> backend" where
  "demo_backend up = \<lparr>be_ready = True, be_table = [(u ''m1'', u ''10.0.0.2''), (u ''m2'', u ''10.0.0.3'')],
     be_choice = (\<lambda>n r. if even r then u ''m1'' else u ''m2''), be_spawn = (\<lambda>mac. Some (mac, u ''snap'')),
     be_nmap = (\<lambda>ip port. up), be_now = 1000\<rparr>"

definition demo_pool :: pool where
  "demo_pool = set_configs 1 600 False (start_pool (pool_init 22 23))"

definition guest_states :: "pool \<Rightarrow> pool_state option list" where
  "guest_states p = map g_state (pl_guests p)"

lemma unavailable_guest_returns:
  "guest_states (fold pool_step [Produce (demo_backend True), Request (u ''a''), Produce (demo_backend False)] demo_pool) = [Some Unavailable]"
  "guest_states (fold pool_step [Produce (demo_backend True), Request (u ''a''), Produce (demo_backend False), Free 0 0] demo_pool) = [Some Used]"
  by code_simp+

text \<open>A guest handed back for reuse keeps the address of its client, who then meets the next one.\<close>

lemma reuse_breaks_isolation:
  "map g_client_ips (pl_guests (fold pool_step
     [Produce (demo_backend True), Request (u ''a''), Reuse 0, Request (u ''b''), Request (u ''a'')] demo_pool)) =
   [[u ''a'', u ''b'', u ''a'']]"
  by code_simp

section \<open>Witnesses\<close>

theorem attackers_isolated_witness:
  "\<exists>g. g \<in> set (pl_guests (fold pool_step [Produce (demo_backend True), Request (u ''a''), Request (u ''b'')] demo_pool)) \<and>
     u ''a'' \<in> set (g_client_ips g) \<and> u ''b'' \<notin> set (g_client_ips g)"
proof -
  let ?ops = "[Produce (demo_backend True), Request (u ''a''), Request (u ''b'')]"
  let ?q = "fold pool_step ?ops demo_pool"
  have "list_ex (\<lambda>g. u ''a'' \<in> set (g_client_ips g)) (pl_guests ?q)" by code_simp
  then obtain g where g: "g \<in> set (pl_guests ?q)" "u ''a'' \<in> set (g_client_ips g)" by (auto simp: list_ex_iff)
  have "\<not> pl_share demo_pool" "pl_guests demo_pool = []" "list_all isolating ?ops"
    by (simp_all add: demo_pool_def set_configs_def start_pool_def)
  from attackers_isolated [OF this g(1,2), of "u ''b''"] g show ?thesis by auto
qed


theorem busy_pool_stops_witness:
  "let p = fold pool_step [Produce (demo_backend True), Request (u ''a'')] demo_pool in
     pl_loop p \<and> \<not> pl_loop (fold pool_step [Free 0 0] (pool_step (Request (u ''b'')) p))"
proof -
  let ?p = "fold pool_step [Produce (demo_backend True), Request (u ''a'')] demo_pool"
  have "pl_any_vm_up ?p" "pl_loop ?p" "list_all (\<lambda>g. \<not> claimable (pl_share ?p) (u ''b'') g) (pl_guests ?p)" by code_simp+
  with busy_pool_stops [of ?p "u ''b''" "[Free 0 0]"] show ?thesis
    unfolding Let_def by (simp add: list_all_iff)
qed

end
