(* ===== verification/Nat_Service.thy ===== *)
theory Nat_Service
  imports Py_Effect Py_Machine "HOL-Library.AList"
begin

text \<open>
  \<^verbatim>\<open>sensor/cowrie/src/backend_pool/nat.py\<close>, class \<^verbatim>\<open>NATService\<close>: the proxies in front of the guests of a
  remote pool, counted per guest.  A listener is an object of the reactor, named by its place in
  \<open>na_listeners\<close>; a closed one has no port number, as the field \<^verbatim>\<open>_realPortNumber\<close> of Twisted.  The
  port the operating system gives to the n-th call of \<^verbatim>\<open>listenTCP\<close>, or its refusal, is the parameter
  \<open>os\<close>.  The lock makes each operation one step.
\<close>

section \<open>State and operations\<close>

record listener =
  li_dst :: "pystr \<times> int"
  li_port :: "int option"

record binding =
  bd_count :: int
  bd_ssh :: nat
  bd_telnet :: nat

record nat_service =
  na_listeners :: "listener list"
  na_bindings :: "(int \<times> binding) list"
  na_calls :: nat

definition nat_init :: nat_service where
  "nat_init = \<lparr>na_listeners = [], na_bindings = [], na_calls = 0\<rparr>"

definition listen_tcp :: "(nat \<Rightarrow> int option) \<Rightarrow> pystr \<Rightarrow> int \<Rightarrow> (nat_service, nat) eff" where
  "listen_tcp os ip port na =
     (let na1 = na\<lparr>na_calls := na_calls na + 1\<rparr> in
      case os (na_calls na) of
        None \<Rightarrow> (Inl CannotListenError, na1)
      | Some p \<Rightarrow> (Inr (length (na_listeners na)),
                   na1\<lparr>na_listeners := na_listeners na @ [\<lparr>li_dst = (ip, port), li_port = Some p\<rparr>]\<rparr>))"

definition port_of :: "nat_service \<Rightarrow> nat \<Rightarrow> int option" where
  "port_of na i = (if i < length (na_listeners na) then li_port (na_listeners na ! i) else None)"

definition stop_listening :: "nat \<Rightarrow> nat_service \<Rightarrow> nat_service" where
  "stop_listening i na =
     na\<lparr>na_listeners := (na_listeners na)[i := (na_listeners na ! i)\<lparr>li_port := None\<rparr>]\<rparr>"

definition new_binding :: "(nat \<Rightarrow> int option) \<Rightarrow> int \<Rightarrow> pystr \<Rightarrow> int \<Rightarrow> int \<Rightarrow> (nat_service, int \<times> int) eff" where
  "new_binding os gid ip ssh telnet =
     ebind (listen_tcp os ip ssh) (\<lambda>i. ebind (listen_tcp os ip telnet) (\<lambda>j na.
       (case (port_of na i, port_of na j) of
          (Some p, Some q) \<Rightarrow>
            (Inr (p, q), na\<lparr>na_bindings := AList.update gid \<lparr>bd_count = 1, bd_ssh = i, bd_telnet = j\<rparr> (na_bindings na)\<rparr>)
        | _ \<Rightarrow> (Inl AssertionError, na))))"

definition stop_if_open :: "nat \<Rightarrow> nat_service \<Rightarrow> nat_service" where
  "stop_if_open i na = (if port_of na i \<noteq> None then stop_listening i na else na)"

definition drop_binding :: "int \<Rightarrow> nat_service \<Rightarrow> nat_service" where
  "drop_binding gid na = na\<lparr>na_bindings := AList.delete gid (na_bindings na)\<rparr>"

definition set_count :: "int \<Rightarrow> binding \<Rightarrow> int \<Rightarrow> nat_service \<Rightarrow> nat_service" where
  "set_count gid b c na = na\<lparr>na_bindings := AList.update gid (b\<lparr>bd_count := c\<rparr>) (na_bindings na)\<rparr>"

definition request_binding :: "(nat \<Rightarrow> int option) \<Rightarrow> int \<Rightarrow> pystr \<Rightarrow> int \<Rightarrow> int \<Rightarrow> (nat_service, int \<times> int) eff" where
  "request_binding os gid ip ssh telnet na =
     (case map_of (na_bindings na) gid of
        None \<Rightarrow> new_binding os gid ip ssh telnet na
      | Some b \<Rightarrow>
          (case (port_of na (bd_ssh b), port_of na (bd_telnet b)) of
             (Some p, Some q) \<Rightarrow> (Inr (p, q), set_count gid b (bd_count b + 1) na)
           | _ \<Rightarrow> new_binding os gid ip ssh telnet
                    (drop_binding gid (stop_if_open (bd_telnet b) (stop_if_open (bd_ssh b) na)))))"

definition free_binding :: "int \<Rightarrow> (nat_service, unit) eff" where
  "free_binding gid na =
     (case map_of (na_bindings na) gid of
        None \<Rightarrow> (Inl KeyError, na)
      | Some b \<Rightarrow>
          if bd_count b - 1 \<le> 0
          then (Inr (), drop_binding gid (stop_listening (bd_telnet b) (stop_listening (bd_ssh b) na)))
          else (Inr (), set_count gid b (bd_count b - 1) na))"

definition free_all :: "nat_service \<Rightarrow> nat_service" where
  "free_all na =
     (fold (\<lambda>(gid, b) n. stop_listening (bd_telnet b) (stop_listening (bd_ssh b) n)) (na_bindings na) na)
       \<lparr>na_bindings := []\<rparr>"

text \<open>A listener may also be closed from outside the service, the edge case of the comment in the code.\<close>

datatype nat_op = Bind int pystr int int | Unbind int | Unbind_all | Lost nat

fun nat_step :: "(nat \<Rightarrow> int option) \<Rightarrow> nat_op \<Rightarrow> nat_service \<Rightarrow> nat_service" where
  "nat_step os (Bind gid ip ssh telnet) na = snd (request_binding os gid ip ssh telnet na)"
| "nat_step os (Unbind gid) na = snd (free_binding gid na)"
| "nat_step os Unbind_all na = free_all na"
| "nat_step os (Lost i) na = stop_listening i na"

lemmas nat_eval [py_eval] = nat_init_def listen_tcp_def port_of_def stop_listening_def new_binding_def
  stop_if_open_def drop_binding_def set_count_def request_binding_def free_binding_def free_all_def

section \<open>What the operations do to the parts of the state\<close>

lemma stop_listening_parts [simp]:
  "na_bindings (stop_listening i na) = na_bindings na" "na_calls (stop_listening i na) = na_calls na"
  "length (na_listeners (stop_listening i na)) = length (na_listeners na)"
  by (simp_all add: stop_listening_def)

lemma port_of_stop [simp]: "port_of (stop_listening i na) j = (if i = j then None else port_of na j)"
  by (simp add: port_of_def stop_listening_def)

lemma stop_if_open_parts [simp]:
  "na_bindings (stop_if_open i na) = na_bindings na" "na_calls (stop_if_open i na) = na_calls na"
  "length (na_listeners (stop_if_open i na)) = length (na_listeners na)"
  "port_of (stop_if_open i na) j = (if i = j then None else port_of na j)"
  by (simp_all add: stop_if_open_def)

lemma binding_parts [simp]:
  "na_listeners (drop_binding gid na) = na_listeners na" "na_listeners (set_count gid b c na) = na_listeners na"
  "map_of (na_bindings (drop_binding gid na)) = (map_of (na_bindings na))(gid := None)"
  "map_of (na_bindings (set_count gid b c na)) = (map_of (na_bindings na))(gid \<mapsto> b\<lparr>bd_count := c\<rparr>)"
  by (simp_all add: drop_binding_def set_count_def AList.delete_conv' AList.update_conv')

lemma port_of_listeners: "na_listeners na = na_listeners nb \<Longrightarrow> port_of na = port_of nb"
  by (simp add: port_of_def fun_eq_iff)

lemma port_of_bindings [simp]:
  "port_of (drop_binding gid na) = port_of na" "port_of (set_count gid b c na) = port_of na"
  "port_of (na\<lparr>na_bindings := bs\<rparr>) = port_of na"
  by (rule port_of_listeners, simp)+

lemma new_binding_cases:
  assumes "new_binding os gid ip ssh telnet na = (r, na')"
  obtains (ok) p q where "os (na_calls na) = Some p" "os (na_calls na + 1) = Some q" "r = Inr (p, q)"
      "na' = \<lparr>na_listeners = na_listeners na @ [\<lparr>li_dst = (ip, ssh), li_port = Some p\<rparr>, \<lparr>li_dst = (ip, telnet), li_port = Some q\<rparr>],
        na_bindings = AList.update gid \<lparr>bd_count = 1, bd_ssh = length (na_listeners na), bd_telnet = length (na_listeners na) + 1\<rparr> (na_bindings na),
        na_calls = na_calls na + 2\<rparr>"
  | (refused) "r = Inl CannotListenError" "os (na_calls na) = None" "na' = na\<lparr>na_calls := na_calls na + 1\<rparr>"
  | (half) p where "r = Inl CannotListenError" "os (na_calls na) = Some p" "os (na_calls na + 1) = None"
      "na' = na\<lparr>na_calls := na_calls na + 2, na_listeners := na_listeners na @ [\<lparr>li_dst = (ip, ssh), li_port = Some p\<rparr>]\<rparr>"
proof -
  obtain l b c where na: "na = \<lparr>na_listeners = l, na_bindings = b, na_calls = c\<rparr>" by (cases na)
  show thesis
    using assms ok refused half unfolding na
    by (auto simp: new_binding_def listen_tcp_def ebind_def Let_def port_of_def nth_append split: option.splits)
qed

section \<open>Every open port belongs to a guest with clients\<close>

definition uses :: "nat_service \<Rightarrow> int \<Rightarrow> nat \<Rightarrow> bool" where
  "uses na g i \<longleftrightarrow> (\<exists>b. map_of (na_bindings na) g = Some b \<and> (i = bd_ssh b \<or> i = bd_telnet b))"

definition nat_wf :: "nat_service \<Rightarrow> bool" where
  "nat_wf na \<longleftrightarrow> distinct (map fst (na_bindings na)) \<and>
     (\<forall>g b. map_of (na_bindings na) g = Some b \<longrightarrow> 1 \<le> bd_count b \<and> bd_ssh b \<noteq> bd_telnet b) \<and>
     (\<forall>g i. uses na g i \<longrightarrow> i < length (na_listeners na)) \<and>
     (\<forall>g h i. uses na g i \<longrightarrow> uses na h i \<longrightarrow> g = h)"

definition tight :: "nat_service \<Rightarrow> bool" where
  "tight na \<longleftrightarrow> (\<forall>i. port_of na i \<noteq> None \<longrightarrow> (\<exists>g. uses na g i))"

lemma nat_wfD:
  assumes "nat_wf na"
  shows "map_of (na_bindings na) g = Some b \<Longrightarrow> 1 \<le> bd_count b \<and> bd_ssh b \<noteq> bd_telnet b"
    "uses na g i \<Longrightarrow> i < length (na_listeners na)" "uses na g i \<Longrightarrow> uses na h i \<Longrightarrow> g = h"
  using assms by (auto simp: nat_wf_def)

lemma uses_stop [simp]:
  "uses (stop_listening i na) = uses na" "uses (stop_if_open i na) = uses na"
  "uses (na\<lparr>na_calls := c\<rparr>) = uses na" "uses (na\<lparr>na_listeners := l\<rparr>) = uses na"
  by (simp_all add: uses_def fun_eq_iff)

lemma uses_drop [simp]: "uses (drop_binding gid na) g i \<longleftrightarrow> g \<noteq> gid \<and> uses na g i"
  by (simp add: uses_def)

lemma uses_count [simp]: "map_of (na_bindings na) gid = Some b \<Longrightarrow> uses (set_count gid b c na) = uses na"
  by (auto simp: uses_def fun_eq_iff)

lemma wf_stop [simp]: "nat_wf (stop_listening i na) = nat_wf na" "nat_wf (stop_if_open i na) = nat_wf na"
  by (simp_all add: nat_wf_def)

lemma wf_drop: "nat_wf na \<Longrightarrow> nat_wf (drop_binding gid na)"
  unfolding nat_wf_def uses_drop binding_parts
  by (auto simp: drop_binding_def AList.distinct_delete split: if_splits)

lemma wf_count: "nat_wf na \<Longrightarrow> map_of (na_bindings na) gid = Some b \<Longrightarrow> 1 \<le> c \<Longrightarrow> nat_wf (set_count gid b c na)"
  unfolding nat_wf_def uses_count binding_parts
  by (auto simp: set_count_def AList.distinct_update split: if_splits)

text \<open>Closing the two listeners of a guest and forgetting it leaves nothing of it.\<close>

lemma tight_drop:
  assumes "nat_wf na" "tight na" "map_of (na_bindings na) gid = Some b"
    and ports: "\<And>i. port_of nb i = (if i = bd_ssh b \<or> i = bd_telnet b then None else port_of na i)"
    and bs: "na_bindings nb = na_bindings na"
  shows "tight (drop_binding gid nb)"
proof -
  have "uses nb = uses na" using bs by (simp add: uses_def fun_eq_iff)
  moreover have "uses na gid i \<longleftrightarrow> i = bd_ssh b \<or> i = bd_telnet b" for i using assms(3) by (simp add: uses_def)
  moreover have "\<exists>g. uses na g i" if "port_of na i \<noteq> None" for i using that assms(2) by (simp add: tight_def)
  ultimately show ?thesis
    unfolding tight_def port_of_bindings ports uses_drop by metis
qed

lemma new_binding_inv:
  assumes "nat_wf na" "tight na" "\<And>n. os n \<noteq> None" "map_of (na_bindings na) gid = None"
  shows "nat_wf (snd (new_binding os gid ip ssh telnet na)) \<and> tight (snd (new_binding os gid ip ssh telnet na))"
proof -
  obtain r nb where nb: "new_binding os gid ip ssh telnet na = (r, nb)" by fastforce
  let ?n = "length (na_listeners na)"
  from nb show ?thesis
  proof (cases rule: new_binding_cases)
    case (ok p q)
    have u: "uses nb g i \<longleftrightarrow> (if g = gid then i = ?n \<or> i = ?n + 1 else uses na g i)" for g i
      by (simp add: uses_def ok AList.update_conv')
    have len: "length (na_listeners nb) = ?n + 2" by (simp add: ok)
    have port: "port_of nb i = (if i = ?n then Some p else if i = ?n + 1 then Some q else port_of na i)" for i
      by (auto simp: port_of_def ok nth_append nth_Cons')
    have "nat_wf nb"
      unfolding nat_wf_def u len
      using assms(1) nat_wfD(2) [OF assms(1)]
      by (auto simp: ok AList.update_conv' AList.distinct_update nat_wf_def split: if_splits) (fastforce)+
    moreover have "tight nb"
      unfolding tight_def u port
    proof (intro allI impI)
      fix i assume i: "(if i = ?n then Some p else if i = ?n + 1 then Some q else port_of na i) \<noteq> None"
      show "\<exists>g. if g = gid then i = ?n \<or> i = ?n + 1 else uses na g i"
      proof (cases "i = ?n \<or> i = ?n + 1")
        case False
        with i assms(2) obtain g where "uses na g i" by (auto simp: tight_def)
        moreover have "g \<noteq> gid" using \<open>uses na g i\<close> assms(4) by (auto simp: uses_def)
        ultimately show ?thesis by auto
      qed auto
    qed
    ultimately show ?thesis using nb by simp
  qed (use assms(3) in \<open>metis\<close>)+
qed

lemma request_binding_inv:
  assumes "nat_wf na" "tight na" "\<And>n. os n \<noteq> None"
  shows "nat_wf (snd (request_binding os gid ip ssh telnet na)) \<and> tight (snd (request_binding os gid ip ssh telnet na))"
proof (cases "map_of (na_bindings na) gid")
  case None
  with new_binding_inv [OF assms] show ?thesis by (simp add: request_binding_def)
next
  case (Some b)
  let ?nb = "drop_binding gid (stop_if_open (bd_telnet b) (stop_if_open (bd_ssh b) na))"
  have "nat_wf ?nb" using assms(1) by (simp add: wf_drop)
  moreover have "tight ?nb" by (rule tight_drop [OF assms(1,2) Some]) auto
  ultimately have nb: "nat_wf (snd (new_binding os gid ip ssh telnet ?nb)) \<and> tight (snd (new_binding os gid ip ssh telnet ?nb))"
    by (rule new_binding_inv [OF _ _ assms(3)]) simp
  have "1 \<le> bd_count b + 1" using nat_wfD(1) [OF assms(1) Some] by simp
  then have "nat_wf (set_count gid b (bd_count b + 1) na)" by (rule wf_count [OF assms(1) Some])
  moreover have "tight (set_count gid b (bd_count b + 1) na)" using assms(2) Some by (simp add: tight_def)
  ultimately show ?thesis using nb Some by (auto simp: request_binding_def split: option.split)
qed

lemma free_binding_inv:
  assumes "nat_wf na" "tight na"
  shows "nat_wf (snd (free_binding gid na)) \<and> tight (snd (free_binding gid na))"
proof (cases "map_of (na_bindings na) gid")
  case None
  with assms show ?thesis by (simp add: free_binding_def)
next
  case (Some b)
  have "tight (drop_binding gid (stop_listening (bd_telnet b) (stop_listening (bd_ssh b) na)))"
    by (rule tight_drop [OF assms Some]) auto
  moreover have "tight (set_count gid b c na)" for c using assms(2) Some by (simp add: tight_def)
  ultimately show ?thesis
    using Some assms by (auto simp: free_binding_def wf_drop wf_count)
qed

lemma free_all_ports:
  "port_of (fold (\<lambda>(gid, b) n. stop_listening (bd_telnet b) (stop_listening (bd_ssh b) n)) bs na) i =
     (if \<exists>(gid, b) \<in> set bs. i = bd_ssh b \<or> i = bd_telnet b then None else port_of na i)"
  by (induction bs arbitrary: na) (auto split: prod.splits)

lemma free_all_inv: "tight na \<Longrightarrow> nat_wf (free_all na) \<and> tight (free_all na)"
  unfolding free_all_def
  by (fastforce simp: nat_wf_def uses_def tight_def free_all_ports dest: map_of_SomeD split: if_splits)

interpretation nat_guard: invariant_machine "nat_step os" "\<lambda>na. nat_wf na \<and> tight na" "\<lambda>e. \<forall>n. os n \<noteq> None" for os
proof
  fix na e
  assume na: "nat_wf na \<and> tight na" and os: "\<forall>n. os n \<noteq> None"
  show "nat_wf (nat_step os e na) \<and> tight (nat_step os e na)"
  proof (cases e)
    case (Bind gid ip ssh telnet)
    with na os request_binding_inv [of na os] show ?thesis by simp
  next
    case (Unbind gid)
    with na free_binding_inv [of na] show ?thesis by simp
  next
    case Unbind_all
    with na free_all_inv show ?thesis by simp
  next
    case (Lost i)
    with na show ?thesis by (auto simp: tight_def split: if_splits)
  qed
qed

lemma nat_reachable:
  assumes "\<And>n. os n \<noteq> None"
  shows "nat_wf (fold (nat_step os) ops nat_init) \<and> tight (fold (nat_step os) ops nat_init)"
proof (rule nat_guard.always)
  show "nat_wf nat_init \<and> tight nat_init" by (auto simp: nat_wf_def tight_def uses_def nat_init_def port_of_def)
  show "list_all (\<lambda>e. \<forall>n. os n \<noteq> None) ops" using assms by (simp add: list_all_iff)
qed

lemma guarded_port:
  assumes "nat_wf na" "tight na" "port_of na i \<noteq> None"
  shows "\<exists>!g. \<exists>b. map_of (na_bindings na) g = Some b \<and> 1 \<le> bd_count b \<and> (i = bd_ssh b \<or> i = bd_telnet b)"
proof -
  obtain g where g: "uses na g i" using assms(2,3) by (auto simp: tight_def)
  have iff: "(\<exists>b. map_of (na_bindings na) h = Some b \<and> 1 \<le> bd_count b \<and> (i = bd_ssh b \<or> i = bd_telnet b)) \<longleftrightarrow> uses na h i" for h
    using nat_wfD(1) [OF assms(1)] by (auto simp: uses_def)
  show ?thesis unfolding iff using g nat_wfD(3) [OF assms(1)] by blast
qed

text \<open>
  No proxy outlives its clients: after any operations, and with listeners lost in between, as long
  as the system grants the ports every port still open belongs to exactly one guest, and that guest
  has at least one client.
\<close>

theorem open_port_has_client:
  assumes "\<And>n. os n \<noteq> None" "port_of (fold (nat_step os) ops nat_init) i \<noteq> None"
  shows "\<exists>!g. \<exists>b. map_of (na_bindings (fold (nat_step os) ops nat_init)) g = Some b \<and> 1 \<le> bd_count b \<and>
           (i = bd_ssh b \<or> i = bd_telnet b)"
  using nat_reachable [OF assms(1), where ops = ops] assms(2) by (intro guarded_port) auto

section \<open>The counters\<close>

text \<open>What the service is for: a number of clients per guest.\<close>

definition clients :: "nat_service \<Rightarrow> int \<Rightarrow> int" where
  "clients na g = (case map_of (na_bindings na) g of None \<Rightarrow> 0 | Some b \<Rightarrow> bd_count b)"

fun count_step :: "nat_op \<Rightarrow> (int \<Rightarrow> int) \<Rightarrow> (int \<Rightarrow> int)" where
  "count_step (Bind g ip ssh telnet) c = c(g := c g + 1)"
| "count_step (Unbind g) c = c(g := max 0 (c g - 1))"
| "count_step Unbind_all c = (\<lambda>g. 0)"
| "count_step (Lost i) c = c"

definition steady :: "nat_service \<Rightarrow> bool" where
  "steady na \<longleftrightarrow> (\<forall>g i. uses na g i \<longrightarrow> port_of na i \<noteq> None)"

fun not_lost :: "nat_op \<Rightarrow> bool" where
  "not_lost (Lost i) = False"
| "not_lost _ = True"

text \<open>The ports of an answer are the open ports of the guest's binding.\<close>

lemma request_binding_answer:
  assumes "request_binding os gid ip ssh telnet na = (Inr (p, q), nb)"
  shows "\<exists>b. map_of (na_bindings nb) gid = Some b \<and> port_of nb (bd_ssh b) = Some p \<and> port_of nb (bd_telnet b) = Some q"
proof -
  have new: ?thesis if "new_binding os gid ip ssh telnet nc = (Inr (p, q), nb)" for nc
    using that by (cases rule: new_binding_cases) (auto simp: AList.update_conv' port_of_def nth_append)
  show ?thesis
    using assms new unfolding request_binding_def
    by (auto split: option.splits)
qed

lemma new_binding_steady:
  assumes "nat_wf na" "steady na" "\<And>n. os n \<noteq> None"
  shows "steady (snd (new_binding os gid ip ssh telnet na)) \<and>
    clients (snd (new_binding os gid ip ssh telnet na)) = (clients na)(gid := 1) \<and>
    (\<exists>a. fst (new_binding os gid ip ssh telnet na) = Inr a)"
proof -
  obtain r nb where nb: "new_binding os gid ip ssh telnet na = (r, nb)" by fastforce
  let ?n = "length (na_listeners na)"
  from nb show ?thesis
  proof (cases rule: new_binding_cases)
    case (ok p q)
    have u: "uses nb g i \<longleftrightarrow> (if g = gid then i = ?n \<or> i = ?n + 1 else uses na g i)" for g i
      by (simp add: uses_def ok AList.update_conv')
    have port: "port_of nb i = (if i = ?n then Some p else if i = ?n + 1 then Some q else port_of na i)" for i
      by (auto simp: port_of_def ok nth_append nth_Cons')
    have "steady nb" using assms(2) unfolding steady_def u port by auto
    moreover have "clients nb = (clients na)(gid := 1)" by (simp add: clients_def fun_eq_iff ok AList.update_conv')
    ultimately show ?thesis using nb ok(3) by simp
  qed (use assms(3) in \<open>metis\<close>)+
qed

lemma request_binding_steady:
  assumes "nat_wf na" "steady na" "\<And>n. os n \<noteq> None"
  shows "steady (snd (request_binding os gid ip ssh telnet na)) \<and>
    clients (snd (request_binding os gid ip ssh telnet na)) = (clients na)(gid := clients na gid + 1) \<and>
    (\<exists>a. fst (request_binding os gid ip ssh telnet na) = Inr a)"
proof (cases "map_of (na_bindings na) gid")
  case None
  then have "clients na gid = 0" by (simp add: clients_def)
  with None new_binding_steady [OF assms] show ?thesis by (simp add: request_binding_def)
next
  case (Some b)
  then have "uses na gid (bd_ssh b)" "uses na gid (bd_telnet b)" by (auto simp: uses_def)
  with assms(2) obtain p q where "port_of na (bd_ssh b) = Some p" "port_of na (bd_telnet b) = Some q"
    unfolding steady_def by blast
  then have "request_binding os gid ip ssh telnet na = (Inr (p, q), set_count gid b (bd_count b + 1) na)"
    using Some by (simp add: request_binding_def)
  with assms(2) Some show ?thesis by (simp add: steady_def clients_def fun_eq_iff)
qed

text \<open>A release fails exactly when the guest has no client.\<close>

lemma free_binding_error: "nat_wf na \<Longrightarrow> fst (free_binding gid na) = Inl KeyError \<longleftrightarrow> clients na gid = 0"
  by (auto simp: free_binding_def clients_def dest: nat_wfD(1) split: option.split)

lemma free_binding_steady:
  assumes "nat_wf na" "steady na"
  shows "steady (snd (free_binding gid na)) \<and>
    clients (snd (free_binding gid na)) = (clients na)(gid := max 0 (clients na gid - 1))"
proof (cases "map_of (na_bindings na) gid")
  case None
  with assms show ?thesis by (auto simp: free_binding_def clients_def fun_eq_iff)
next
  case (Some b)
  have own: "uses na gid (bd_ssh b)" "uses na gid (bd_telnet b)" using Some by (auto simp: uses_def)
  let ?nb = "drop_binding gid (stop_listening (bd_telnet b) (stop_listening (bd_ssh b) na))"
  have "steady ?nb"
    unfolding steady_def
  proof (intro allI impI)
    fix g i
    assume "uses ?nb g i"
    then have g: "g \<noteq> gid" "uses na g i" by auto
    with own nat_wfD(3) [OF assms(1)] have "i \<noteq> bd_ssh b" "i \<noteq> bd_telnet b" by blast+
    with g assms(2) show "port_of ?nb i \<noteq> None" by (simp add: steady_def)
  qed
  moreover have "clients ?nb = (clients na)(gid := 0)" by (simp add: clients_def fun_eq_iff)
  moreover have "steady (set_count gid b c na)" for c using assms(2) Some by (simp add: steady_def)
  moreover have "clients (set_count gid b c na) = (clients na)(gid := c)" for c by (simp add: clients_def fun_eq_iff)
  moreover have "clients na gid = bd_count b" using Some by (simp add: clients_def)
  moreover have "1 \<le> bd_count b" using nat_wfD(1) [OF assms(1) Some] by simp
  ultimately show ?thesis using Some by (auto simp: free_binding_def)
qed

lemma free_all_empty: "clients (free_all na) = (\<lambda>g. 0)" "steady (free_all na)" "\<not> uses (free_all na) g i"
  by (simp_all add: clients_def steady_def uses_def free_all_def fun_eq_iff)

text \<open>
  C22. The service refines a table of counters: while no listener is lost from outside and the system
  grants the ports, the number of clients of every guest after any requests and releases is what
  counting them gives; the next request is answered, and the next release raises exactly when there
  is no client left to release.
\<close>

theorem nat_counts_clients:
  assumes "\<And>n. os n \<noteq> None" "list_all not_lost ops"
  shows "clients (fold (nat_step os) ops nat_init) = fold count_step ops (\<lambda>g. 0) \<and>
    (\<exists>a. fst (request_binding os gid ip ssh telnet (fold (nat_step os) ops nat_init)) = Inr a) \<and>
    (fst (free_binding gid (fold (nat_step os) ops nat_init)) = Inl KeyError \<longleftrightarrow> fold count_step ops (\<lambda>g. 0) gid = 0)"
proof -
  have sim: "steady na \<Longrightarrow> nat_wf na \<Longrightarrow> tight na \<Longrightarrow> list_all not_lost es \<Longrightarrow>
      clients (fold (nat_step os) es na) = fold count_step es (clients na) \<and> steady (fold (nat_step os) es na)" for es na
  proof (induction es arbitrary: na)
    case (Cons e es)
    have "nat_wf (nat_step os e na) \<and> tight (nat_step os e na)"
      using nat_guard.keeps [of na os e] Cons.prems assms(1) by simp
    moreover have "steady (nat_step os e na) \<and> clients (nat_step os e na) = count_step e (clients na)"
      using Cons.prems request_binding_steady [of na os] free_binding_steady [of na] assms(1)
      by (cases e) (auto simp: free_all_empty)
    ultimately show ?case using Cons by simp
  qed simp
  let ?na = "fold (nat_step os) ops nat_init"
  have "steady nat_init" "nat_wf nat_init" "tight nat_init" "clients nat_init = (\<lambda>g. 0)"
    by (auto simp: nat_wf_def tight_def uses_def nat_init_def port_of_def clients_def steady_def)
  then have c: "clients ?na = fold count_step ops (\<lambda>g. 0)" and st: "steady ?na" using sim assms(2) by metis+
  have wf: "nat_wf ?na" using nat_reachable [OF assms(1)] by simp
  show ?thesis
    using c request_binding_steady [OF wf st assms(1)] free_binding_error [OF wf] by simp
qed

text \<open>
  A listener lost while its guest has clients: the next request opens a new pair and counts from
  one again, so the first of the three clients to leave closes the proxy of the other two, whose
  own release then raises.
\<close>

lemma lost_listener_resets_count:
  "let ops = [Bind 7 (u ''g'') 22 23, Bind 7 (u ''g'') 22 23, Lost 0, Bind 7 (u ''g'') 22 23];
       na = fold (nat_step (\<lambda>n. Some (int n))) ops nat_init;
       nb = nat_step (\<lambda>n. Some (int n)) (Unbind 7) na
   in clients na 7 = 1 \<and> map (port_of nb) [0, 1, 2, 3] = [None, None, None, None] \<and> fst (free_binding 7 nb) = Inl KeyError"
  by code_simp

text \<open>A refusal of the second port leaves the first listener open, with nobody to close it.\<close>

lemma refused_port_leaks:
  "let na = nat_step (\<lambda>n. if n = 1 then None else Some 4000) (Bind 7 (u ''g'') 22 23) nat_init
   in na_bindings na = [] \<and> port_of (free_all na) 0 = Some 4000"
  by code_simp

section \<open>One proxied connection\<close>

text \<open>
  \<^verbatim>\<open>ServerProtocol\<close> and \<^verbatim>\<open>ClientProtocol\<close>: what the visitor sends is kept in a buffer until the connection
  to the guest is up; each arrival in the meantime schedules a retry half a second later.
\<close>

record proxy =
  px_guest :: bool                   \<comment> \<open>whether \<^verbatim>\<open>client_protocol\<close> is set\<close>
  px_buffer :: "bytes list"
  px_timers :: nat
  px_to_guest :: "bytes list"
  px_to_visitor :: "bytes list"

datatype proxy_event = FromVisitor bytes | GuestUp | Timer | FromGuest bytes

definition proxy_init :: proxy where
  "proxy_init = \<lparr>px_guest = False, px_buffer = [], px_timers = 0, px_to_guest = [], px_to_visitor = []\<rparr>"

definition sendData :: "proxy \<Rightarrow> proxy" where
  "sendData x =
     (if \<not> px_guest x then x\<lparr>px_timers := px_timers x + 1\<rparr>
      else x\<lparr>px_to_guest := px_to_guest x @ px_buffer x, px_buffer := []\<rparr>)"

text \<open>A timer that is not pending cannot fire.\<close>

fun proxy_step :: "proxy_event \<Rightarrow> proxy \<Rightarrow> proxy" where
  "proxy_step (FromVisitor d) x = sendData (x\<lparr>px_buffer := px_buffer x @ [d]\<rparr>)"
| "proxy_step GuestUp x = x\<lparr>px_guest := True\<rparr>"
| "proxy_step Timer x = (if px_timers x = 0 then x else sendData (x\<lparr>px_timers := px_timers x - 1\<rparr>))"
| "proxy_step (FromGuest d) x = x\<lparr>px_to_visitor := px_to_visitor x @ [d]\<rparr>"

fun sent_by_visitor :: "proxy_event list \<Rightarrow> bytes list" where
  "sent_by_visitor [] = []"
| "sent_by_visitor (FromVisitor d # es) = d # sent_by_visitor es"
| "sent_by_visitor (_ # es) = sent_by_visitor es"

text \<open>
  The proxy loses, repeats and reorders nothing: at every moment what has gone to the guest followed
  by what is still buffered is what the visitor sent, and while something is buffered a retry is
  pending, which delivers all of it once the guest is up.
\<close>

lemma proxy_step_stream:
  "px_to_guest (proxy_step e x) @ px_buffer (proxy_step e x) = px_to_guest x @ px_buffer x @ sent_by_visitor [e]"
  by (cases e) (auto simp: sendData_def)

lemma proxy_step_pending:
  "(px_buffer x \<noteq> [] \<longrightarrow> 0 < px_timers x) \<Longrightarrow> px_buffer (proxy_step e x) \<noteq> [] \<longrightarrow> 0 < px_timers (proxy_step e x)"
  by (cases e) (auto simp: sendData_def)

lemma sent_by_visitor_Cons: "sent_by_visitor (e # es) = sent_by_visitor [e] @ sent_by_visitor es"
  by (cases e) simp_all

theorem proxy_delivers:
  fixes es :: "proxy_event list"
  defines "x \<equiv> fold proxy_step es proxy_init"
  shows "px_to_guest x @ px_buffer x = sent_by_visitor es \<and>
    (px_guest x \<longrightarrow> px_buffer (proxy_step Timer x) = [] \<and> px_to_guest (proxy_step Timer x) = sent_by_visitor es)"
proof -
  have "px_to_guest (fold proxy_step es y) @ px_buffer (fold proxy_step es y) = (px_to_guest y @ px_buffer y) @ sent_by_visitor es \<and>
      (px_buffer (fold proxy_step es y) \<noteq> [] \<longrightarrow> 0 < px_timers (fold proxy_step es y))"
    if "px_buffer y \<noteq> [] \<longrightarrow> 0 < px_timers y" for y
    using that
  proof (induction es arbitrary: y)
    case (Cons e es)
    from Cons.IH [OF proxy_step_pending [OF Cons.prems]] show ?case
      by (simp add: proxy_step_stream sent_by_visitor_Cons [of e es])
  qed simp
  then have 1: "px_to_guest x @ px_buffer x = sent_by_visitor es" and 2: "px_buffer x \<noteq> [] \<longrightarrow> 0 < px_timers x"
    unfolding x_def by (simp_all add: proxy_init_def)
  show ?thesis using 1 2 by (auto simp: sendData_def)
qed

section \<open>Witnesses\<close>

theorem open_port_has_client_witness:
  "\<exists>!g. \<exists>b. map_of (na_bindings (fold (nat_step (\<lambda>n. Some (int n))) [Bind 7 (u ''g'') 22 23] nat_init)) g = Some b \<and>
     1 \<le> bd_count b \<and> (1 = bd_ssh b \<or> 1 = bd_telnet b)"
  by (rule open_port_has_client) (simp, code_simp)

theorem nat_counts_clients_witness:
  "clients (fold (nat_step (\<lambda>n. Some (int n))) [Bind 7 (u ''g'') 22 23, Bind 7 (u ''g'') 22 23, Unbind 7] nat_init) 7 = 1"
  using nat_counts_clients [of "\<lambda>n. Some (int n)" "[Bind 7 (u ''g'') 22 23, Bind 7 (u ''g'') 22 23, Unbind 7]"] by simp

theorem proxy_delivers_witness:
  "px_to_guest (proxy_step Timer (fold proxy_step [FromVisitor [1], FromVisitor [2], GuestUp] proxy_init)) = [[1], [2]]"
  using proxy_delivers [of "[FromVisitor [1], FromVisitor [2], GuestUp]"] by (simp add: sendData_def proxy_init_def)

end
