(* ===== verification/Pool_Server.thy ===== *)
theory Pool_Server
  imports Py_Struct Py_Bytes Vm_Pool Nat_Service
begin

text \<open>
  The wire protocol of the backend pool: \<^verbatim>\<open>sensor/cowrie/src/backend_pool/pool_server.py\<close> on one side and
  \<^verbatim>\<open>sensor/cowrie/src/cowrie/pool_interface/client.py\<close> on the other, over the pool of \<open>Vm_Pool\<close> and the
  proxies of \<open>Nat_Service\<close>.  A write of the transport appends to a list; every call of
  \<^verbatim>\<open>dataReceived\<close> gets the bytes of one message, as both sides assume.
\<close>

section \<open>The server\<close>

record pool_conf =
  pc_local :: bool
  pc_pool_only :: bool
  pc_use_nat :: bool
  pc_public_ip :: pystr
  pc_ssh :: int
  pc_telnet :: int

record server =
  sv_pool :: pool
  sv_nat :: nat_service
  sv_initialised :: bool
  sv_written :: "bytes list"

definition needs_nat :: "pool_conf \<Rightarrow> bool" where
  "needs_nat C \<longleftrightarrow> \<not> pc_local C \<and> pc_use_nat C \<or> pc_pool_only C"

definition op_byte :: "char \<Rightarrow> bytes" where
  "op_byte c = [of_char c]"

definition server_write :: "bytes \<Rightarrow> (server, unit) eff" where
  "server_write bs s = (Inr (), s\<lparr>sv_written := sv_written s @ [bs]\<rparr>)"

definition nat_do :: "(nat_service, 'a) eff \<Rightarrow> (server, 'a) eff" where
  "nat_do m s = (case m (sv_nat s) of (r, na) \<Rightarrow> (r, s\<lparr>sv_nat := na\<rparr>))"

definition pool_do :: "(pool \<Rightarrow> pool) \<Rightarrow> (server, unit) eff" where
  "pool_do f s = (Inr (), s\<lparr>sv_pool := f (sv_pool s)\<rparr>)"

text \<open>
  The answer to a request; the lengths are those of the texts and the contents those of their
  encodings, so a text that is not ASCII is cut.
\<close>

definition vm_answer :: "int \<Rightarrow> pystr \<Rightarrow> int \<Rightarrow> int \<Rightarrow> pystr \<Rightarrow> bytes res" where
  "vm_answer gid ip ssh telnet snap =
     rbind (utf8_encode ip) (\<lambda>ipb. rbind (utf8_encode snap) (\<lambda>snb.
       struct_pack Big [Fc, FI, FI, FH, Fs (length ip), FH, FH, FH, Fs (length snap)]
         [SBytes (op_byte CHR ''r''), SInt 0, SInt gid, SInt (int (length ip)), SBytes ipb,
          SInt ssh, SInt telnet, SInt (int (length snap)), SBytes snb]))"

definition request_of :: "bytes \<Rightarrow> pystr res" where
  "request_of data =
     rbind (struct_unpack Big [FH] (take 2 (drop 1 data))) (\<lambda>vs.
       case vs of
         [SInt n] \<Rightarrow> rbind (struct_unpack Big [Fs (nat n)] (drop 3 data)) (\<lambda>ws.
           case ws of [SBytes bs] \<Rightarrow> utf8_decode bs | _ \<Rightarrow> Inl TypeError)
       | _ \<Rightarrow> Inl TypeError)"

definition guest_of :: "bytes \<Rightarrow> int res" where
  "guest_of data =
     rbind (struct_unpack Big [FI] (drop 1 data)) (\<lambda>vs. case vs of [SInt g] \<Rightarrow> Inr g | _ \<Rightarrow> Inl TypeError)"

text \<open>
  A request the pool cannot serve may stop it, which closes every proxy.  The ports of the guests
  are read from the configuration, not from the pool.
\<close>

definition serve_request :: "pool_conf \<Rightarrow> (nat \<Rightarrow> int option) \<Rightarrow> pystr \<Rightarrow> (server, unit) eff" where
  "serve_request C os src s =
     (case request_vm src (sv_pool s) of
        (Inl _, p) \<Rightarrow>
          ebind (elift (struct_pack Big [Fc, FI] [SBytes (op_byte CHR ''r''), SInt 1])) server_write
            (s\<lparr>sv_pool := p, sv_nat := (if needs_nat C \<and> pl_any_vm_up (sv_pool s) then free_all (sv_nat s) else sv_nat s)\<rparr>)
      | (Inr (gid, ip, snap), p) \<Rightarrow>
          (if needs_nat C
           then ebind (nat_do (request_binding os gid ip (pc_ssh C) (pc_telnet C))) (\<lambda>(ssh, telnet).
                  ebind (elift (if pc_use_nat C then vm_answer gid (pc_public_ip C) ssh telnet snap else Inl AttributeError)) server_write)
           else ebind (elift (vm_answer gid ip (pc_ssh C) (pc_telnet C) snap)) server_write)
            (s\<lparr>sv_pool := p\<rparr>))"

definition release_nat :: "pool_conf \<Rightarrow> int \<Rightarrow> (server, unit) eff" where
  "release_nat C gid = (if needs_nat C then nat_do (free_binding gid) else eret ())"

definition dataReceived :: "pool_conf \<Rightarrow> (nat \<Rightarrow> int option) \<Rightarrow> rat \<Rightarrow> bytes \<Rightarrow> (server, unit) eff" where
  "dataReceived C os now data =
     (case data of
        [] \<Rightarrow> eraise IndexError
      | op # rest \<Rightarrow>
          if op = of_char CHR ''i'' then
            ebind (elift (struct_unpack Big [FI, FI, Fbool] rest)) (\<lambda>vs.
              case vs of
                [SInt m, SInt t, SBool sh] \<Rightarrow>
                  ebind (pool_do (set_configs m t sh)) (\<lambda>_.
                  ebind (\<lambda>s. (Inr (), s\<lparr>sv_initialised := True\<rparr>)) (\<lambda>_.
                  ebind (elift (struct_pack Big [Fc, FI] [SBytes (op_byte CHR ''i''), SInt 0])) server_write))
              | _ \<Rightarrow> eraise TypeError)
          else if op = of_char CHR ''r'' then
            ebind (elift (request_of data)) (serve_request C os)
          else if op = of_char CHR ''f'' then
            ebind (elift (guest_of data)) (\<lambda>gid. ebind (release_nat C gid) (\<lambda>_. pool_do (free_vm now gid)))
          else if op = of_char CHR ''u'' then
            ebind (elift (guest_of data)) (\<lambda>gid. ebind (release_nat C gid) (\<lambda>_. pool_do (reuse_vm gid)))
          else eret ())"

section \<open>The client\<close>

text \<open>What the client tells the connection it serves (\<^verbatim>\<open>parent\<close>).\<close>

datatype parent_event =
    Initialisation_response int
  | Lose_connection
  | Received_pool_data int bytes bytes int int

record pool_client =
  cl_parent :: bool
  cl_vm_id :: "int option"
  cl_written :: "bytes list"
  cl_events :: "parent_event list"

definition client_init :: pool_client where
  "client_init = \<lparr>cl_parent = True, cl_vm_id = None, cl_written = [], cl_events = []\<rparr>"

definition client_write :: "bytes \<Rightarrow> (pool_client, unit) eff" where
  "client_write bs c = (Inr (), c\<lparr>cl_written := cl_written c @ [bs]\<rparr>)"

definition tell_parent :: "parent_event \<Rightarrow> (pool_client, unit) eff" where
  "tell_parent ev c = (Inr (), c\<lparr>cl_events := cl_events c @ [ev]\<rparr>)"

definition send_initialisation :: "int \<Rightarrow> int \<Rightarrow> bool \<Rightarrow> (pool_client, unit) eff" where
  "send_initialisation max_vms timeout share =
     ebind (elift (struct_pack Big [Fc, FI, FI, Fbool]
       [SBytes (op_byte CHR ''i''), SInt max_vms, SInt timeout, SBool share])) client_write"

definition send_vm_request :: "pystr \<Rightarrow> (pool_client, unit) eff" where
  "send_vm_request src =
     ebind (elift (rbind (utf8_encode src) (\<lambda>b.
       struct_pack Big [Fc, FH, Fs (length src)] [SBytes (op_byte CHR ''r''), SInt (int (length src)), SBytes b]))) client_write"

definition send_vm_free :: "bool \<Rightarrow> (pool_client, unit) eff" where
  "send_vm_free backend_dirty c =
     (case cl_vm_id c of
        None \<Rightarrow> (Inr (), c)
      | Some gid \<Rightarrow>
          ebind (elift (struct_pack Big [Fc, FI] [SBytes (op_byte (if backend_dirty then CHR ''f'' else CHR ''u'')), SInt gid]))
            client_write c)"

text \<open>\<^verbatim>\<open>data[:n]\<close> unpacked with a format and the rest.\<close>

definition take_fields :: "sfmt list \<Rightarrow> bytes \<Rightarrow> (sval list \<times> bytes) res" where
  "take_fields fs data =
     rbind (struct_unpack Big fs (take (calcsize fs) data)) (\<lambda>vs. Inr (vs, drop (calcsize fs) data))"

definition take_int :: "sfmt \<Rightarrow> bytes \<Rightarrow> (int \<times> bytes) res" where
  "take_int f data =
     rbind (take_fields [f] data) (\<lambda>(vs, d). case vs of [SInt x] \<Rightarrow> Inr (x, d) | _ \<Rightarrow> Inl TypeError)"

definition take_bytes :: "nat \<Rightarrow> bytes \<Rightarrow> (bytes \<times> bytes) res" where
  "take_bytes n data =
     rbind (take_fields [Fs n] data) (\<lambda>(vs, d). case vs of [SBytes bs] \<Rightarrow> Inr (bs, d) | _ \<Rightarrow> Inl TypeError)"

definition set_vm_id :: "int \<Rightarrow> (pool_client, unit) eff" where
  "set_vm_id gid c = (Inr (), c\<lparr>cl_vm_id := Some gid\<rparr>)"

definition vm_data :: "bytes \<Rightarrow> (bytes \<times> bytes \<times> int \<times> int) res" where
  "vm_data data =
     rbind (take_int FH data) (\<lambda>(ip_len, d).
     rbind (take_bytes (nat ip_len) d) (\<lambda>(honey_ip, d).
     rbind (take_fields [FH, FH] d) (\<lambda>(ports, d).
     rbind (take_int FH d) (\<lambda>(snapshot_len, d).
     rbind (take_bytes (nat snapshot_len) d) (\<lambda>(snapshot, d).
       case ports of
         [SInt ssh, SInt telnet] \<Rightarrow> Inr (honey_ip, snapshot, ssh, telnet)
       | _ \<Rightarrow> Inl TypeError)))))"

definition client_received :: "bytes \<Rightarrow> (pool_client, unit) eff" where
  "client_received data c =
     (if \<not> cl_parent c then (Inr (), c)
      else ebind (elift (take_fields [Fc, FI] data)) (\<lambda>(vs, d).
        case vs of
          [SBytes op, SInt code] \<Rightarrow>
            if op = op_byte CHR ''i'' then tell_parent (Initialisation_response code)
            else if op = op_byte CHR ''r'' then
              (if code \<noteq> 0 then tell_parent Lose_connection
               else ebind (elift (take_int FI d)) (\<lambda>(gid, d).
                    ebind (set_vm_id gid) (\<lambda>_.
                    ebind (elift (vm_data d)) (\<lambda>(ip, snapshot, ssh, telnet).
                      tell_parent (Received_pool_data code ip snapshot ssh telnet)))))
            else eret ()
        | _ \<Rightarrow> eraise TypeError) c)"

lemmas pool_server_eval [py_eval] = needs_nat_def op_byte_def server_write_def nat_do_def pool_do_def vm_answer_def
  request_of_def guest_of_def serve_request_def release_nat_def dataReceived_def client_init_def client_write_def
  tell_parent_def send_initialisation_def send_vm_request_def send_vm_free_def take_fields_def take_int_def
  take_bytes_def set_vm_id_def vm_data_def client_received_def

section \<open>Messages arrive as they were meant\<close>

definition plain :: "pystr \<Rightarrow> bool" where
  "plain s \<longleftrightarrow> list_all (\<lambda>c. 0 \<le> c \<and> c < 128) s"

definition asc :: "pystr \<Rightarrow> bytes" where
  "asc s = map word_of_int s"

lemma length_asc [simp]: "length (asc s) = length s"
  by (simp add: asc_def)

lemma encode_plain: "plain s \<Longrightarrow> utf8_encode s = Inr (asc s)"
  by (induction s) (auto simp: plain_def asc_def utf8_enc1_def)

lemma decode_plain: "plain s \<Longrightarrow> utf8_decode (asc s) = Inr s"
proof (induction s)
  case (Cons c s)
  then have "uint (word_of_int c :: byte) = c" by (simp add: plain_def uint_byte_of_int)
  with Cons show ?case by (auto simp: plain_def asc_def utf8_next_def)
qed (simp add: asc_def)

lemma take_int_front: "fits_u n x \<Longrightarrow> take_int (Fu n) (int_bytes Big n x @ rest) = Inr (x, rest)"
  by (simp add: take_int_def take_fields_def struct_unpack_def calcsize_def ufield.dec_enc)

lemma take_bytes_front: "length bs = n \<Longrightarrow> take_bytes n (bs @ rest) = Inr (bs, rest)"
  by (simp add: take_bytes_def take_fields_def struct_unpack_def calcsize_def)

lemma take_fields_front:
  assumes "list_all2 exact fs vs" "struct_pack Big fs vs = Inr bs"
  shows "take_fields fs (bs @ rest) = Inr (vs, rest)"
  using struct_unpack_append [OF assms(2,1), of rest] by (simp add: take_fields_def)

lemma op_byte_simps [simp]: "length (op_byte c) = 1" "op_byte c = op_byte d \<longleftrightarrow> (of_char c :: byte) = of_char d"
  by (simp_all add: op_byte_def)

lemma pack_status:
  "fits_u 4 n \<Longrightarrow> struct_pack Big [Fc, FI] [SBytes (op_byte c), SInt n] = Inr (op_byte c @ int_bytes Big 4 n)"
  by (simp add: op_byte_def)

lemma take_status: "fits_u 4 n \<Longrightarrow> take_fields [Fc, FI] (op_byte c @ int_bytes Big 4 n @ rest) = Inr ([SBytes (op_byte c), SInt n], rest)"
  using take_fields_front [OF _ pack_status [of n c], of rest] by simp

lemma fits_status [simp]: "fits_u 4 0" "fits_u 4 1"
  by (simp_all add: fits_u_def)

lemma op_codes [simp]:
  "(of_char CHR ''r'' :: byte) \<noteq> of_char CHR ''i''" "(of_char CHR ''i'' :: byte) \<noteq> of_char CHR ''r''"
  "(of_char CHR ''f'' :: byte) \<noteq> of_char CHR ''i''" "(of_char CHR ''f'' :: byte) \<noteq> of_char CHR ''r''"
  "(of_char CHR ''u'' :: byte) \<noteq> of_char CHR ''i''" "(of_char CHR ''u'' :: byte) \<noteq> of_char CHR ''r''"
  "(of_char CHR ''u'' :: byte) \<noteq> of_char CHR ''f''"
  by simp_all

lemma request_message:
  assumes "plain src" "length src < 65536"
  shows "\<exists>buf. send_vm_request src c = (Inr (), c\<lparr>cl_written := cl_written c @ [buf]\<rparr>) \<and>
           dataReceived C os now buf = serve_request C os src"
proof -
  let ?buf = "op_byte CHR ''r'' @ int_bytes Big 2 (int (length src)) @ asc src"
  have n: "fits_u 2 (int (length src))" using assms(2) by (simp add: fits_u_def)
  have "send_vm_request src c = (Inr (), c\<lparr>cl_written := cl_written c @ [?buf]\<rparr>)"
    using n by (simp add: send_vm_request_def encode_plain [OF assms(1)] op_byte_def client_write_def ebind_def)
  moreover have "request_of ?buf = Inr src"
    using n decode_plain [OF assms(1)]
    by (simp add: request_of_def op_byte_def struct_unpack_def calcsize_def ufield.dec_enc)
  then have "dataReceived C os now ?buf = serve_request C os src"
    by (simp add: dataReceived_def op_byte_def)
  ultimately show ?thesis by blast
qed

text \<open>The fields of an answer that was packed at all fit.\<close>

lemma vm_answer_bytes:
  assumes "vm_answer gid ip ssh telnet snap = Inr buf" "plain ip" "plain snap"
  shows "fits_u 4 gid \<and> fits_u 2 (int (length ip)) \<and> fits_u 2 ssh \<and> fits_u 2 telnet \<and> fits_u 2 (int (length snap)) \<and>
    buf = op_byte CHR ''r'' @ int_bytes Big 4 0 @ int_bytes Big 4 gid @ int_bytes Big 2 (int (length ip)) @ asc ip @
      int_bytes Big 2 ssh @ int_bytes Big 2 telnet @ int_bytes Big 2 (int (length snap)) @ asc snap"
  using assms(1) unfolding vm_answer_def encode_plain [OF assms(2)] encode_plain [OF assms(3)]
  by (auto simp: rbind_eq_Inr op_byte_def split: if_splits)

lemma take_ports: "fits_u 2 a \<Longrightarrow> fits_u 2 b \<Longrightarrow>
    take_fields [FH, FH] (int_bytes Big 2 a @ int_bytes Big 2 b @ rest) = Inr ([SInt a, SInt b], rest)"
  using take_fields_front [of "[FH, FH]" "[SInt a, SInt b]" "int_bytes Big 2 a @ int_bytes Big 2 b" rest] by simp

lemma answer_message:
  assumes "vm_answer gid ip ssh telnet snap = Inr buf" "plain ip" "plain snap" "cl_parent c"
  shows "client_received buf c =
    (Inr (), c\<lparr>cl_vm_id := Some gid, cl_events := cl_events c @ [Received_pool_data 0 (asc ip) (asc snap) ssh telnet]\<rparr>)"
proof -
  note f = vm_answer_bytes [OF assms(1-3)]
  have snap: "take_bytes (length snap) (asc snap) = Inr (asc snap, [])"
    using take_bytes_front [of "asc snap" "length snap" "[]"] by simp
  have data: "vm_data (int_bytes Big 2 (int (length ip)) @ asc ip @ int_bytes Big 2 ssh @ int_bytes Big 2 telnet @
      int_bytes Big 2 (int (length snap)) @ asc snap) = Inr (asc ip, asc snap, ssh, telnet)"
    using f by (simp add: vm_data_def take_int_front take_bytes_front take_ports snap)
  show ?thesis
    using f assms(4) by (simp add: client_received_def take_status take_int_front data set_vm_id_def tell_parent_def ebind_def)
qed

lemma free_message:
  assumes "fits_u 4 gid" "cl_vm_id c = Some gid"
  shows "\<exists>buf. send_vm_free dirty c = (Inr (), c\<lparr>cl_written := cl_written c @ [buf]\<rparr>) \<and>
    dataReceived C os now buf =
      ebind (release_nat C gid) (\<lambda>_. pool_do (if dirty then free_vm now gid else reuse_vm gid))"
proof -
  let ?op = "if dirty then CHR ''f'' else CHR ''u''"
  let ?buf = "op_byte ?op @ int_bytes Big 4 gid"
  have "send_vm_free dirty c = (Inr (), c\<lparr>cl_written := cl_written c @ [?buf]\<rparr>)"
    using assms by (cases dirty) (simp_all add: send_vm_free_def op_byte_def client_write_def ebind_def)
  moreover have "guest_of ?buf = Inr gid"
    using assms(1) by (simp add: guest_of_def op_byte_def struct_unpack_def calcsize_def ufield.dec_enc)
  then have "dataReceived C os now ?buf = ebind (release_nat C gid) (\<lambda>_. pool_do (if dirty then free_vm now gid else reuse_vm gid))"
    by (cases dirty) (simp_all add: dataReceived_def op_byte_def)
  ultimately show ?thesis by blast
qed

section \<open>A whole conversation\<close>

text \<open>Where the server sends the client: the guest itself, or a proxy in front of it.\<close>

definition endpoint :: "pool_conf \<Rightarrow> (nat \<Rightarrow> int option) \<Rightarrow> int \<Rightarrow> pystr \<Rightarrow> nat_service \<Rightarrow> (pystr \<times> int \<times> int \<times> nat_service) option" where
  "endpoint C os gid ip na =
     (if \<not> needs_nat C then Some (ip, pc_ssh C, pc_telnet C, na)
      else if \<not> pc_use_nat C then None
      else case request_binding os gid ip (pc_ssh C) (pc_telnet C) na of
             (Inr (p, q), nb) \<Rightarrow> Some (pc_public_ip C, p, q, nb)
           | (Inl e, nb) \<Rightarrow> None)"

lemma serve_request_ok:
  assumes "request_vm src (sv_pool s) = (Inr (gid, ip, snap), p)"
    and "endpoint C os gid ip (sv_nat s) = Some (hip, hssh, htelnet, na)"
    and "vm_answer gid hip hssh htelnet snap = Inr buf"
  shows "serve_request C os src s =
    (Inr (), s\<lparr>sv_pool := p, sv_nat := na, sv_written := sv_written s @ [buf]\<rparr>)"
  using assms unfolding serve_request_def endpoint_def
  by (auto simp: server_write_def nat_do_def ebind_def elift_def split: if_splits prod.splits sum.splits)

lemma release_after_request:
  assumes "endpoint C os gid ip na = Some (hip, hssh, htelnet, nb)" "sv_nat s = nb"
  shows "\<exists>nc. release_nat C gid s = (Inr (), s\<lparr>sv_nat := nc\<rparr>)"
proof (cases "needs_nat C")
  case True
  then have "request_binding os gid ip (pc_ssh C) (pc_telnet C) na = (Inr (hssh, htelnet), nb)"
    using assms(1) by (auto simp: endpoint_def split: if_splits prod.splits sum.splits)
  from request_binding_answer [OF this] obtain b where "map_of (na_bindings nb) gid = Some b" by auto
  then obtain nc where "free_binding gid nb = (Inr (), nc)" by (cases "bd_count b - 1 \<le> 0") (auto simp: free_binding_def)
  with True assms(2) show ?thesis by (auto simp: release_nat_def nat_do_def)
next
  case False
  then have "release_nat C gid s = (Inr (), s\<lparr>sv_nat := sv_nat s\<rparr>)" by (simp add: release_nat_def)
  then show ?thesis ..
qed


text \<open>
  When there is no guest, the client is told so: it drops its connection, knows no guest, and so
  has nothing to release later.
\<close>

theorem pool_refusal:
  assumes "request_vm src (sv_pool s) = (Inl e, p)" "plain src" "length src < 65536" "cl_parent c" "cl_vm_id c = None"
  shows "\<exists>req ans na c2. send_vm_request src c = (Inr (), c\<lparr>cl_written := cl_written c @ [req]\<rparr>) \<and>
    dataReceived C os now req s = (Inr (), s\<lparr>sv_pool := p, sv_nat := na, sv_written := sv_written s @ [ans]\<rparr>) \<and>
    client_received ans (c\<lparr>cl_written := cl_written c @ [req]\<rparr>) = (Inr (), c2) \<and>
    cl_events c2 = cl_events c @ [Lose_connection] \<and> send_vm_free dirty c2 = (Inr (), c2)"
proof -
  obtain req where req: "send_vm_request src c = (Inr (), c\<lparr>cl_written := cl_written c @ [req]\<rparr>)"
    "dataReceived C os now req = serve_request C os src"
    using request_message [OF assms(2,3)] by blast
  let ?ans = "op_byte CHR ''r'' @ int_bytes Big 4 1"
  let ?na = "if needs_nat C \<and> pl_any_vm_up (sv_pool s) then free_all (sv_nat s) else sv_nat s"
  let ?c = "c\<lparr>cl_written := cl_written c @ [req]\<rparr>"
  have "serve_request C os src s = (Inr (), s\<lparr>sv_pool := p, sv_nat := ?na, sv_written := sv_written s @ [?ans]\<rparr>)"
    using pack_status [OF fits_status(2)] by (simp add: serve_request_def assms(1) server_write_def)
  moreover have "client_received ?ans ?c = (Inr (), ?c\<lparr>cl_events := cl_events c @ [Lose_connection]\<rparr>)"
    using assms(4) take_status [OF fits_status(2), of "CHR ''r''" "[]"]
    by (simp add: client_received_def tell_parent_def)
  ultimately show ?thesis
    using req assms(5) by (intro exI [of _ req] exI [of _ ?ans] exI [of _ ?na] exI [of _ "?c\<lparr>cl_events := cl_events c @ [Lose_connection]\<rparr>"])
      (simp add: send_vm_free_def)
qed

text \<open>The configuration of the pool arrives as it was sent and is acknowledged.\<close>

lemma pool_initialisation:
  assumes "fits_u 4 m" "fits_u 4 t" "cl_parent c"
  shows "\<exists>req ans. send_initialisation m t sh c = (Inr (), c\<lparr>cl_written := cl_written c @ [req]\<rparr>) \<and>
    dataReceived C os now req s = (Inr (), s\<lparr>sv_pool := set_configs m t sh (sv_pool s), sv_initialised := True,
      sv_written := sv_written s @ [ans]\<rparr>) \<and>
    client_received ans c = (Inr (), c\<lparr>cl_events := cl_events c @ [Initialisation_response 0]\<rparr>)"
proof -
  let ?req = "op_byte CHR ''i'' @ int_bytes Big 4 m @ int_bytes Big 4 t @ [if sh then 1 else 0]"
  let ?ans = "op_byte CHR ''i'' @ int_bytes Big 4 0"
  have "send_initialisation m t sh c = (Inr (), c\<lparr>cl_written := cl_written c @ [?req]\<rparr>)"
    using assms by (simp add: send_initialisation_def op_byte_def client_write_def)
  moreover have u: "struct_unpack Big [FI, FI, Fbool] (int_bytes Big 4 m @ int_bytes Big 4 t @ [if sh then 1 else 0]) =
      Inr [SInt m, SInt t, SBool sh]"
    using assms by (simp add: struct_unpack_def calcsize_def ufield.dec_enc)
  have "dataReceived C os now ?req s = (Inr (), s\<lparr>sv_pool := set_configs m t sh (sv_pool s), sv_initialised := True,
      sv_written := sv_written s @ [?ans]\<rparr>)"
    using pack_status [OF fits_status(1)]
    by (simp add: dataReceived_def op_byte_def u pool_do_def server_write_def ebind_def)
  moreover have "client_received ?ans c = (Inr (), c\<lparr>cl_events := cl_events c @ [Initialisation_response 0]\<rparr>)"
    using assms(3) take_status [OF fits_status(1), of "CHR ''i''" "[]"]
    by (simp add: client_received_def tell_parent_def)
  ultimately show ?thesis by blast
qed

section \<open>Whatever arrives, the parts move by their own operations\<close>

text \<open>
  A relation between two states of the server: the pool has moved by operations a client may ask
  for and the proxies by theirs.
\<close>

definition moved :: "(nat \<Rightarrow> int option) \<Rightarrow> server \<Rightarrow> server \<Rightarrow> bool" where
  "moved os s s' \<longleftrightarrow>
     (\<exists>ops. list_all from_clients ops \<and> sv_pool s' = fold pool_step ops (sv_pool s)) \<and>
     (\<exists>nops. list_all not_lost nops \<and> sv_nat s' = fold (nat_step os) nops (sv_nat s))"

lemma moved_refl: "moved os s s"
  unfolding moved_def by (auto intro: exI [of _ "[]"])

lemma moved_trans:
  assumes "moved os s t" "moved os t v"
  shows "moved os s v"
proof -
  obtain a b where a: "list_all from_clients a" "sv_pool t = fold pool_step a (sv_pool s)"
    and b: "list_all from_clients b" "sv_pool v = fold pool_step b (sv_pool t)"
    using assms unfolding moved_def by blast
  obtain x y where x: "list_all not_lost x" "sv_nat t = fold (nat_step os) x (sv_nat s)"
    and y: "list_all not_lost y" "sv_nat v = fold (nat_step os) y (sv_nat t)"
    using assms unfolding moved_def by blast
  have "sv_pool v = fold pool_step (a @ b) (sv_pool s)" "sv_nat v = fold (nat_step os) (x @ y) (sv_nat s)"
    using a b x y by simp_all
  with a b x y show ?thesis unfolding moved_def by (metis list_all_append)
qed

interpretation moved: state_order "moved os" for os
  by unfold_locales (auto intro: moved_refl moved_trans)

lemma moved_parts:
  assumes "sv_pool s' = fold pool_step ops (sv_pool s)" "list_all from_clients ops"
    "sv_nat s' = fold (nat_step os) nops (sv_nat s)" "list_all not_lost nops"
  shows "moved os s s'"
  using assms unfolding moved_def by blast

lemma moved_pool: "from_clients op \<Longrightarrow> f = pool_step op \<Longrightarrow> pres (moved os) (pool_do f)"
  by (rule presI) (auto simp: pool_do_def intro!: moved_parts [of _ "[op]" _ os "[]"])

lemma moved_write: "pres (moved os) (server_write bs)" "pres (moved os) (\<lambda>s. (Inr (), s\<lparr>sv_initialised := b\<rparr>))"
  by (rule presI, auto simp: server_write_def intro!: moved_parts [of _ "[]" _ os "[]"])+

lemma moved_nat: "not_lost op \<Longrightarrow> (\<And>na. snd (m na) = nat_step os op na) \<Longrightarrow> pres (moved os) (nat_do m)"
proof (rule presI)
  fix s r s'
  assume op: "not_lost op" "\<And>na. snd (m na) = nat_step os op na" and run: "nat_do m s = (r, s')"
  from run have "s' = s\<lparr>sv_nat := snd (m (sv_nat s))\<rparr>"
    by (cases "m (sv_nat s)") (auto simp: nat_do_def)
  then have "sv_nat s' = nat_step os op (sv_nat s)" "sv_pool s' = sv_pool s" using op(2) by simp_all
  with op(1) show "moved os s s'" by (intro moved_parts [of _ "[]" _ os "[op]"]) auto
qed

lemma moved_request: "pres (moved os) (serve_request C os src)"
proof (rule presI)
  fix s r s'
  assume run: "serve_request C os src s = (r, s')"
  obtain a p where req: "request_vm src (sv_pool s) = (a, p)" by fastforce
  let ?na = "if needs_nat C \<and> pl_any_vm_up (sv_pool s) then free_all (sv_nat s) else sv_nat s"
  have p: "p = fold pool_step [Request src] (sv_pool s)" using req by simp
  have no: "moved os s (s\<lparr>sv_pool := p, sv_nat := ?na\<rparr>)"
    by (rule moved_parts [of _ "[Request src]" _ os "if needs_nat C \<and> pl_any_vm_up (sv_pool s) then [Unbind_all] else []"])
       (simp_all add: p)
  have yes: "moved os s (s\<lparr>sv_pool := p\<rparr>)"
    by (rule moved_parts [of _ "[Request src]" _ os "[]"]) (simp_all add: p)
  have bind: "pres (moved os) (nat_do (request_binding os gid ip ssh telnet))" for gid ip ssh telnet
    by (rule moved_nat [of "Bind gid ip ssh telnet"]) simp_all
  have wr: "pres (moved os) (ebind (elift x) server_write)" for x
    by (intro moved.pres_bind moved.pres_pure moved_write)
  have step: "moved os s s'" if "moved os s t" "pres (moved os) m" "m t = (r, s')" for t m
    using moved_trans [OF that(1) presD [OF that(2,3)]] .
  show "moved os s s'"
  proof (cases a)
    case (Inl e)
    show ?thesis
      using run unfolding serve_request_def req Inl sum.case prod.case by (rule step [OF no wr])
  next
    case (Inr v)
    obtain gid ip snap where v: "v = (gid, ip, snap)" by (cases v)
    show ?thesis
      using run unfolding serve_request_def req Inr v sum.case prod.case
      by (rule step [OF yes, rotated]) (auto simp del: eret_simps intro!: moved.pres_bind [OF bind] wr split: prod.split)
  qed
qed

lemma dataReceived_moves: "pres (moved os) (dataReceived C os now data)"
proof -
  have rel: "pres (moved os) (release_nat C gid)" for gid
    unfolding release_nat_def
    by (intro moved.pres_if moved.pres_pure moved_nat [of "Unbind gid"]) simp_all
  have conf: "pres (moved os) (pool_do (set_configs m t sh))" for m t sh
    by (rule moved_pool [of "Configure m t sh"]) (simp_all add: fun_eq_iff)
  have free: "pres (moved os) (pool_do (free_vm now gid))" for gid
    by (rule moved_pool [of "Free now gid"]) (simp_all add: fun_eq_iff)
  have reuse: "pres (moved os) (pool_do (reuse_vm gid))" for gid
    by (rule moved_pool [of "Reuse gid"]) (simp_all add: fun_eq_iff)
  show ?thesis
    unfolding dataReceived_def
    by (auto split!: list.split sval.split
        intro!: moved.pres_bind moved.pres_pure moved_write conf free reuse rel moved_request)
qed

text \<open>The server over a sequence of messages with their times of arrival.\<close>

definition serve :: "pool_conf \<Rightarrow> (nat \<Rightarrow> int option) \<Rightarrow> (rat \<times> bytes) list \<Rightarrow> server \<Rightarrow> server" where
  "serve C os = fold (\<lambda>(now, data) s. snd (dataReceived C os now data s))"

lemma serve_moves: "moved os s (serve C os msgs s)"
proof (induction msgs arbitrary: s)
  case (Cons m msgs)
  have "moved os s (snd (dataReceived C os (fst m) (snd m) s))"
    using dataReceived_moves [of os C "fst m" "snd m"] by (simp add: pres_def)
  from moved_trans [OF this Cons.IH] show ?case by (simp add: serve_def split_beta)
qed (simp add: serve_def moved_refl)


text \<open>With it, what holds of the proxies holds of the server: an open port has a client.\<close>

lemma server_ports_have_clients:
  assumes "\<And>n. os n \<noteq> None" "sv_nat s = nat_init" "port_of (sv_nat (serve C os msgs s)) i \<noteq> None"
  shows "\<exists>!g. \<exists>b. map_of (na_bindings (sv_nat (serve C os msgs s))) g = Some b \<and>
    1 \<le> bd_count b \<and> (i = bd_ssh b \<or> i = bd_telnet b)"
proof (rule guarded_port [OF _ _ assms(3)])
  obtain nops where "sv_nat (serve C os msgs s) = fold (nat_step os) nops nat_init"
    using serve_moves [of os s C msgs] assms(2) unfolding moved_def by auto
  then show "nat_wf (sv_nat (serve C os msgs s))" "tight (sv_nat (serve C os msgs s))"
    using nat_reachable [OF assms(1), where ops = nops] by simp_all
qed

section \<open>Where a failure leaves something behind\<close>

text \<open>
  A release of a guest without a proxy raises before the guest is released: the connection of a
  client whose proxies were closed in the meantime is counted for ever.
\<close>

theorem release_without_binding:
  assumes "needs_nat C" "map_of (na_bindings (sv_nat s)) gid = None" "fits_u 4 gid"
  shows "dataReceived C os now (op_byte CHR ''f'' @ int_bytes Big 4 gid) s = (Inl KeyError, s) \<and>
    dataReceived C os now (op_byte CHR ''u'' @ int_bytes Big 4 gid) s = (Inl KeyError, s)"
proof -
  have "guest_of (b # int_bytes Big 4 gid) = Inr gid" for b
    using assms(3) by (simp add: guest_of_def op_byte_def struct_unpack_def calcsize_def ufield.dec_enc)
  moreover have "release_nat C gid s = (Inl KeyError, s)"
    using assms by (simp add: release_nat_def nat_do_def free_binding_def)
  ultimately show ?thesis by (simp add: dataReceived_def op_byte_def ebind_def)
qed

text \<open>
  A pool that runs alone with NAT switched off claims the guest and opens its proxies, then fails
  for want of a public address: the client never hears of the guest.
\<close>

lemma pool_only_without_nat:
  assumes "pc_pool_only C" "\<not> pc_use_nat C" "request_vm src (sv_pool s) = (Inr (gid, ip, snap), p)"
    and "request_binding os gid ip (pc_ssh C) (pc_telnet C) (sv_nat s) = (Inr a, na)"
  shows "serve_request C os src s = (Inl AttributeError, s\<lparr>sv_pool := p, sv_nat := na\<rparr>)"
  using assms by (simp add: serve_request_def needs_nat_def nat_do_def ebind_def elift_def split: prod.split)

text \<open>A number that does not fit its field loses the guest in the same way: it is claimed and no answer goes out.\<close>

lemma unfit_answer_loses_guest:
  assumes "request_vm src (sv_pool s) = (Inr (gid, ip, snap), p)" "\<not> needs_nat C" "plain ip" "plain snap"
    and "\<not> fits_u 2 (pc_ssh C) \<or> \<not> fits_u 2 (pc_telnet C) \<or> \<not> fits_u 2 (int (length snap))"
  shows "serve_request C os src s = (Inl StructError, s\<lparr>sv_pool := p\<rparr>)"
proof -
  have "vm_answer gid ip (pc_ssh C) (pc_telnet C) snap = Inl StructError"
    using assms(5) unfolding vm_answer_def encode_plain [OF assms(3)] encode_plain [OF assms(4)]
    by (auto simp: op_byte_def)
  with assms show ?thesis by (simp add: serve_request_def ebind_def elift_def)
qed

section \<open>Witnesses\<close>

definition demo_conf :: "bool \<Rightarrow> pool_conf" where
  "demo_conf remote = \<lparr>pc_local = \<not> remote, pc_pool_only = False, pc_use_nat = True, pc_public_ip = u ''192.0.2.1'',
     pc_ssh = 22, pc_telnet = 23\<rparr>"

definition demo_server :: server where
  "demo_server = \<lparr>sv_pool = pool_step (Produce (demo_backend True)) demo_pool, sv_nat = nat_init,
     sv_initialised = True, sv_written = []\<rparr>"


theorem release_without_binding_witness:
  "dataReceived (demo_conf True) (\<lambda>n. None) 0 (op_byte CHR ''f'' @ int_bytes Big 4 3) demo_server = (Inl KeyError, demo_server)"
  using release_without_binding [of "demo_conf True" demo_server 3 "\<lambda>n. None" 0]
  by (simp add: demo_conf_def demo_server_def needs_nat_def nat_init_def fits_u_def)

theorem pool_refusal_witness:
  "\<exists>c2. cl_events c2 = [Lose_connection] \<and> send_vm_free True c2 = (Inr (), c2)"
proof -
  let ?s = "demo_server\<lparr>sv_pool := demo_pool\<rparr>"
  obtain p where p: "request_vm (u ''a'') (sv_pool ?s) = (Inl RuntimeError, p)"
  proof -
    have "fst (request_vm (u ''a'') (sv_pool ?s)) = Inl RuntimeError" by code_simp
    then show thesis using that by (metis prod.collapse)
  qed
  have t: "plain (u ''a'')" "length (u ''a'') < 65536" "cl_parent client_init" "cl_vm_id client_init = None"
    by (simp_all add: plain_def u_def client_init_def)
  have w: "cl_events client_init = []" by (simp add: client_init_def)
  show ?thesis
    using pool_refusal [OF p t, of "demo_conf True" "\<lambda>n. None" 0 True] unfolding w append_Nil by blast
qed

end
