(* ===== verification/Virtual_Fs.thy ===== *)
theory Virtual_Fs
  imports Py_Value Py_Machine
begin

text \<open>
  \<^verbatim>\<open>cowrie/shell/fs.py\<close> and \<^verbatim>\<open>cowrie/shell/honeyfs.py\<close>: the file system an attacker sees.  A
  session owns a deep copy of the tree, nothing in it is shared, so the lists the code mutates in
  place are subtrees of one value and a directory is addressed by the child positions that lead to
  it.  The recursion of \<^verbatim>\<open>getfile\<close> through symbolic links need not end; the interpreter's limit on
  nested calls is part of the state.
\<close>

unbundle bit_operations_syntax

section \<open>The tree\<close>

datatype ftype = T_LINK | T_DIR | T_FILE | T_BLK | T_CHR | T_SOCK | T_FIFO

record fattr =
  a_name :: pystr
  a_type :: ftype
  a_uid :: int
  a_gid :: int
  a_size :: int
  a_mode :: int
  a_ctime :: rat
  a_target :: "pystr option"
  a_realfile :: "pystr option"

datatype fnode = FNode (attr: fattr) (body: fbody)
  and fbody = Kids "fnode list" | Data bytes

datatype fs_error =
    FsNotFound | FsPermissionDenied | FsIsADirectory | FsOSError int
  | FsTypeError | FsIndexError | FsValueError | FsAttributeError | FsRecursionError
  | FsUnboundLocalError | FsUnicodeError | FsReError | FsKeyError

type_synonym entry = "nat list \<times> fnode"   \<comment> \<open>where an object of the tree is, and what it is\<close>

abbreviation node_name :: "fnode \<Rightarrow> pystr" where
  "node_name x \<equiv> a_name (attr x)"

fun update_at :: "(fnode \<Rightarrow> fnode) \<Rightarrow> nat list \<Rightarrow> fnode \<Rightarrow> fnode" where
  "update_at f [] t = f t"
| "update_at f (i # is) t =
     (case body t of
        Kids ks \<Rightarrow> if i < length ks then FNode (attr t) (Kids (ks[i := update_at f is (ks ! i)])) else t
      | Data _ \<Rightarrow> t)"

section \<open>Paths\<close>

definition strip_slash :: "pystr \<Rightarrow> pystr" where
  "strip_slash p = rstrip_if (\<lambda>c. c = 47) (lstrip_if (\<lambda>c. c = 47) p)"

definition basename :: "pystr \<Rightarrow> pystr" where
  "basename p = snd (rsplit1 47 p)"

definition dirname :: "pystr \<Rightarrow> pystr" where
  "dirname p =
     (let head = take (length p - length (basename p)) p in
      if list_all (\<lambda>c. c = 47) head then head else rstrip_if (\<lambda>c. c = 47) head)"

fun resolve_pieces :: "pystr list \<Rightarrow> pystr list \<Rightarrow> pystr list" where
  "resolve_pieces [] cwd = cwd"
| "resolve_pieces (p # ps) cwd =
     (if p = u ''..'' then resolve_pieces ps (butlast cwd)
      else if p = u ''.'' \<or> p = [] then resolve_pieces ps cwd
      else resolve_pieces ps (cwd @ [p]))"

definition resolve_path :: "pystr \<Rightarrow> pystr \<Rightarrow> pystr \<Rightarrow> fs_error + pystr" where
  "resolve_path home pathspec cwd =
     (let path = (if startswith pathspec (u ''~/'') then home @ tl pathspec else pathspec);
          pieces = split_on 47 (rstrip_if (\<lambda>c. c = 47) path) in
      case path of
        [] \<Rightarrow> Inl FsIndexError
      | c # _ \<Rightarrow>
          Inr (47 # py_join [47]
            (resolve_pieces pieces (if c = 47 then [] else filter (\<lambda>x. x \<noteq> []) (split_on 47 cwd)))))"

section \<open>Lookup\<close>

definition named :: "pystr \<Rightarrow> nat list \<Rightarrow> fnode list \<Rightarrow> entry list" where
  "named piece loc ks =
     map (\<lambda>i. (loc @ [i], ks ! i)) (filter (\<lambda>i. node_name (ks ! i) = piece) [0..<length ks])"

text \<open>
  The inner loop of \<^verbatim>\<open>getfile\<close> over the children with the right name: the last of them counts, and a
  broken link ends the lookup.  A link whose target is relative is looked up from the root, because
  the directory it stands in is not kept.
\<close>

fun pick :: "(pystr \<Rightarrow> fs_error + entry option) \<Rightarrow> bool \<Rightarrow> entry list \<Rightarrow> entry \<Rightarrow> fs_error + entry option" where
  "pick rec keep [] p = Inr (Some p)"
| "pick rec keep (x # xs) p =
     (if \<not> keep \<and> a_type (attr (snd x)) = T_LINK then
        (case a_target (attr (snd x)) of
           None \<Rightarrow> Inl FsTypeError
         | Some [] \<Rightarrow> Inl FsIndexError
         | Some (c # cs) \<Rightarrow>
             rbind (rec (if c = 47 then c # cs else 47 # c # cs)) (\<lambda>r.
               case r of None \<Rightarrow> Inr None | Some q \<Rightarrow> pick rec keep xs q))
      else pick rec keep xs x)"

fun walk :: "(pystr \<Rightarrow> fs_error + entry option) \<Rightarrow> bool \<Rightarrow> pystr \<Rightarrow> pystr list \<Rightarrow> entry \<Rightarrow> fs_error + entry option" where
  "walk rec follow lst [] p = Inr (Some p)"
| "walk rec follow lst (piece # ps) p =
     (case body (snd p) of
        Data b \<Rightarrow> if b = [] then Inr None else Inl FsTypeError
      | Kids ks \<Rightarrow>
          if named piece (fst p) ks = [] then Inr None
          else rbind (pick rec (piece = lst \<and> \<not> follow) (named piece (fst p) ks) p) (\<lambda>r.
            case r of None \<Rightarrow> Inr None | Some q \<Rightarrow> walk rec follow lst ps q))"

primrec getfile :: "nat \<Rightarrow> fnode \<Rightarrow> bool \<Rightarrow> pystr \<Rightarrow> fs_error + entry option" where
  "getfile 0 t follow path = Inl FsRecursionError"
| "getfile (Suc n) t follow path =
     (if path = [47] then Inr (Some ([], t))
      else
        (let pieces = split_on 47 (strip_slash path) in
         walk (getfile n t follow) follow (last pieces) pieces ([], t)))"

text \<open>\<^verbatim>\<open>get_path\<close> hands out the list of children itself, which is the one of the entry it reaches.\<close>

fun walk_dirs :: "(pystr \<Rightarrow> fs_error + entry option) \<Rightarrow> pystr list \<Rightarrow> entry \<Rightarrow> fs_error + entry" where
  "walk_dirs rec [] p = Inr p"
| "walk_dirs rec (part # ps) p =
     (if part = [] then walk_dirs rec ps p
      else case body (snd p) of
             Data _ \<Rightarrow> Inl FsNotFound
           | Kids ks \<Rightarrow>
               (case named part (fst p) ks of
                  [] \<Rightarrow> Inl FsNotFound
                | c # _ \<Rightarrow>
                    if a_type (attr (snd c)) = T_LINK then
                      (case a_target (attr (snd c)) of
                         None \<Rightarrow> Inl FsAttributeError
                       | Some target \<Rightarrow>
                           rbind (rec target) (\<lambda>r.
                             case r of None \<Rightarrow> Inl FsNotFound | Some f \<Rightarrow> walk_dirs rec ps f))
                    else walk_dirs rec ps c))"

definition get_path :: "nat \<Rightarrow> fnode \<Rightarrow> bool \<Rightarrow> pystr \<Rightarrow> fs_error + entry" where
  "get_path n t follow path = walk_dirs (getfile n t follow) (split_on 47 path) ([], t)"

section \<open>Operations\<close>

record vfs =
  vf_tree :: fnode
  vf_newcount :: int
  vf_home :: pystr
  vf_depth :: nat     \<comment> \<open>the nested calls the interpreter still allows\<close>

type_synonym 'a fsop = "vfs \<Rightarrow> (fs_error + 'a) \<times> vfs"

definition SPECIAL_PATHS :: "pystr list" where
  "SPECIAL_PATHS = [u ''/sys'', u ''/proc'', u ''/dev/pts'']"

definition EDQUOT :: int where
  "EDQUOT = 122"

definition ENOENT :: int where
  "ENOENT = 2"

definition EEXIST :: int where
  "EEXIST = 17"

definition ENOTDIR :: int where
  "ENOTDIR = 20"

definition ENOTEMPTY :: int where
  "ENOTEMPTY = 39"

abbreviation file_at :: "bool \<Rightarrow> pystr \<Rightarrow> vfs \<Rightarrow> fs_error + entry option" where
  "file_at follow path vf \<equiv> getfile (vf_depth vf) (vf_tree vf) follow path"

abbreviation dir_at :: "pystr \<Rightarrow> vfs \<Rightarrow> fs_error + entry" where
  "dir_at path vf \<equiv> get_path (vf_depth vf) (vf_tree vf) True path"

definition exists :: "pystr \<Rightarrow> vfs \<Rightarrow> fs_error + bool" where
  "exists path vf = rbind (file_at True path vf) (\<lambda>f. Inr (f \<noteq> None))"

definition lexists :: "pystr \<Rightarrow> vfs \<Rightarrow> fs_error + bool" where
  "lexists path vf = rbind (file_at False path vf) (\<lambda>f. Inr (f \<noteq> None))"

text \<open>The three tests catch every exception.\<close>

definition has_type :: "ftype \<Rightarrow> pystr \<Rightarrow> vfs \<Rightarrow> bool" where
  "has_type ty path vf =
     (case file_at True path vf of Inr (Some f) \<Rightarrow> a_type (attr (snd f)) = ty | _ \<Rightarrow> False)"

definition isfile :: "pystr \<Rightarrow> vfs \<Rightarrow> bool" where
  "isfile path vf = has_type T_FILE path vf"

definition islink :: "pystr \<Rightarrow> vfs \<Rightarrow> bool" where
  "islink path vf = has_type T_LINK path vf"

definition isdir :: "pystr \<Rightarrow> vfs \<Rightarrow> bool" where
  "isdir path vf = (path = [47] \<or> has_type T_DIR path vf)"

fun remove_first :: "('a \<Rightarrow> bool) \<Rightarrow> 'a list \<Rightarrow> 'a list" where
  "remove_first P [] = []"
| "remove_first P (x # xs) = (if P x then xs else x # remove_first P xs)"

definition map_kids :: "(fnode list \<Rightarrow> fnode list) \<Rightarrow> fnode \<Rightarrow> fnode" where
  "map_kids g x = (case body x of Kids ks \<Rightarrow> FNode (attr x) (Kids (g ks)) | Data _ \<Rightarrow> x)"

definition new_node :: "pystr \<Rightarrow> ftype \<Rightarrow> int \<Rightarrow> int \<Rightarrow> int \<Rightarrow> int \<Rightarrow> rat \<Rightarrow> fnode" where
  "new_node nm ty uid gid size0 mode now =
     FNode \<lparr>a_name = nm, a_type = ty, a_uid = uid, a_gid = gid, a_size = size0, a_mode = mode, a_ctime = now,
            a_target = None, a_realfile = None\<rparr> (Kids [])"

definition mkfile :: "pystr \<Rightarrow> int \<Rightarrow> int \<Rightarrow> int \<Rightarrow> int \<Rightarrow> rat \<Rightarrow> bool fsop" where
  "mkfile path uid gid size0 mode now vf =
     (if 10000 < vf_newcount vf then (Inr False, vf)
      else if list_ex (startswith (dirname path)) SPECIAL_PATHS then (Inl FsPermissionDenied, vf)
      else case dir_at (dirname path) vf of
             Inl e \<Rightarrow> (Inl e, vf)
           | Inr (loc, d) \<Rightarrow>
               (case body d of
                  Data b \<Rightarrow> (Inl (if b = [] then FsAttributeError else FsTypeError), vf)
                | Kids _ \<Rightarrow>
                    (let outfile = basename path;
                         new = new_node outfile T_FILE uid gid size0 mode now in
                     (Inr True, vf\<lparr>vf_tree := update_at (map_kids (\<lambda>ks.
                          remove_first (\<lambda>x. node_name x = outfile) ks @ [new])) loc (vf_tree vf),
                        vf_newcount := vf_newcount vf + 1\<rparr>))))"

definition mkdir :: "pystr \<Rightarrow> int \<Rightarrow> int \<Rightarrow> int \<Rightarrow> int \<Rightarrow> rat \<Rightarrow> unit fsop" where
  "mkdir path uid gid size0 mode now vf =
     (if 10000 < vf_newcount vf then (Inl (FsOSError EDQUOT), vf)
      else if strip_slash path = [] then (Inl (FsOSError ENOENT), vf)
      else case dir_at (dirname (strip_slash path)) vf of
             Inl e \<Rightarrow> (Inl (if e = FsIndexError \<or> e = FsNotFound then FsOSError ENOENT else e), vf)
           | Inr (loc, d) \<Rightarrow>
               (case body d of
                  Data _ \<Rightarrow> (Inl FsAttributeError, vf)
                | Kids _ \<Rightarrow>
                    (Inr (), vf\<lparr>vf_tree := update_at (map_kids (\<lambda>ks.
                         ks @ [new_node (basename path) T_DIR uid gid size0 mode now])) loc (vf_tree vf),
                       vf_newcount := vf_newcount vf + 1\<rparr>)))"

definition mkdir2 :: "pystr \<Rightarrow> rat \<Rightarrow> unit fsop" where
  "mkdir2 path now vf =
     (case file_at True path vf of
        Inl e \<Rightarrow> (Inl e, vf)
      | Inr (Some _) \<Rightarrow> (Inl (FsOSError EEXIST), vf)
      | Inr None \<Rightarrow> mkdir path 0 0 4096 16877 now vf)"

text \<open>\<^verbatim>\<open>pdir.remove(x)\<close>: the first child that equals \<open>x\<close>; ValueError without one.\<close>

definition remove_child :: "pystr \<Rightarrow> fnode \<Rightarrow> unit fsop" where
  "remove_child path x vf =
     (case dir_at path vf of
        Inl e \<Rightarrow> (Inl e, vf)
      | Inr (loc, d) \<Rightarrow>
          (case body d of
             Data _ \<Rightarrow> (Inl FsAttributeError, vf)
           | Kids ks \<Rightarrow>
               if x \<in> set ks
               then (Inr (), vf\<lparr>vf_tree := update_at (map_kids (remove1 x)) loc (vf_tree vf)\<rparr>)
               else (Inl FsValueError, vf)))"

definition vfs_remove :: "pystr \<Rightarrow> unit fsop" where
  "vfs_remove path vf =
     (case file_at False path vf of
        Inl e \<Rightarrow> (Inl e, vf)
      | Inr None \<Rightarrow> (Inl (FsOSError ENOENT), vf)
      | Inr (Some (_, p)) \<Rightarrow> remove_child (dirname path) p vf)"

text \<open>The length of the contents \<^verbatim>\<open>get_path\<close> returns: children or bytes.\<close>

definition body_size :: "fbody \<Rightarrow> nat" where
  "body_size b = (case b of Kids ks \<Rightarrow> length ks | Data bs \<Rightarrow> length bs)"

definition rmdir :: "pystr \<Rightarrow> bool fsop" where
  "rmdir path vf =
     (let p = rstrip_if (\<lambda>c. c = 47) path in
      case file_at False p vf of
        Inl e \<Rightarrow> (Inl e, vf)
      | Inr None \<Rightarrow> (Inl (FsOSError EEXIST), vf)
      | Inr (Some (_, d)) \<Rightarrow>
          if a_type (attr d) \<noteq> T_DIR then (Inl (FsOSError ENOTDIR), vf)
          else (case dir_at p vf of
                  Inl e \<Rightarrow> (Inl e, vf)
                | Inr (_, d') \<Rightarrow>
                    if 0 < body_size (body d') then (Inl (FsOSError ENOTEMPTY), vf)
                    else (case dir_at (dirname p) vf of
                            Inl e \<Rightarrow> (Inl e, vf)
                          | Inr (loc, pd) \<Rightarrow>
                              (case body pd of
                                 Data b \<Rightarrow> if b = [] then (Inr False, vf) else (Inl FsTypeError, vf)
                               | Kids ks \<Rightarrow>
                                   if list_ex (\<lambda>x. node_name x = basename p) ks
                                   then (Inr True, vf\<lparr>vf_tree := update_at (map_kids
                                          (remove_first (\<lambda>x. node_name x = basename p))) loc (vf_tree vf)\<rparr>)
                                   else (Inr False, vf)))))"

text \<open>
  \<^verbatim>\<open>rename\<close>: the object is taken out first; what the second lookup then raises leaves the tree
  without it.
\<close>

definition rename :: "pystr \<Rightarrow> pystr \<Rightarrow> unit fsop" where
  "rename oldpath newpath vf =
     (case file_at True oldpath vf of
        Inl e \<Rightarrow> (Inl e, vf)
      | Inr None \<Rightarrow> (Inl (FsOSError ENOENT), vf)
      | Inr (Some (_, old)) \<Rightarrow>
          (case file_at True newpath vf of
             Inl e \<Rightarrow> (Inl e, vf)
           | Inr (Some _) \<Rightarrow> (Inl (FsOSError EEXIST), vf)
           | Inr None \<Rightarrow>
               (case remove_child (dirname oldpath) old vf of
                  (Inl e, vf1) \<Rightarrow> (Inl e, vf1)
                | (Inr _, vf1) \<Rightarrow>
                    (case dir_at (dirname newpath) vf1 of
                       Inl e \<Rightarrow> (Inl e, vf1)
                     | Inr (loc, d) \<Rightarrow>
                         (case body d of
                            Data _ \<Rightarrow> (Inl FsAttributeError, vf1)
                          | Kids _ \<Rightarrow>
                              (Inr (), vf1\<lparr>vf_tree := update_at (map_kids (\<lambda>ks.
                                 ks @ [FNode ((attr old)\<lparr>a_name := basename newpath\<rparr>) (body old)])) loc (vf_tree vf1)\<rparr>))))))"

definition change_attr :: "pystr \<Rightarrow> (fattr \<Rightarrow> fattr) \<Rightarrow> unit fsop" where
  "change_attr path g vf =
     (case file_at True path vf of
        Inl e \<Rightarrow> (Inl e, vf)
      | Inr None \<Rightarrow> (Inl (FsOSError ENOENT), vf)
      | Inr (Some (loc, _)) \<Rightarrow>
          (Inr (), vf\<lparr>vf_tree := update_at (\<lambda>x. FNode (g (attr x)) (body x)) loc (vf_tree vf)\<rparr>))"

definition utime :: "pystr \<Rightarrow> rat \<Rightarrow> unit fsop" where
  "utime path mtime = change_attr path (\<lambda>x. x\<lparr>a_ctime := mtime\<rparr>)"

definition chmod :: "pystr \<Rightarrow> int \<Rightarrow> unit fsop" where
  "chmod path perm = change_attr path (\<lambda>x. x\<lparr>a_mode := (a_mode x AND 61440) OR perm\<rparr>)"

definition chown :: "pystr \<Rightarrow> int \<Rightarrow> int \<Rightarrow> unit fsop" where
  "chown path uid gid = change_attr path (\<lambda>x.
     x\<lparr>a_uid := (if uid \<noteq> -1 then uid else a_uid x), a_gid := (if gid \<noteq> -1 then gid else a_gid x)\<rparr>)"

definition readlink :: "pystr \<Rightarrow> vfs \<Rightarrow> fs_error + pystr option" where
  "readlink path vf =
     (case file_at False path vf of
        Inl e \<Rightarrow> Inl e
      | Inr None \<Rightarrow> Inl (FsOSError ENOENT)
      | Inr (Some (_, p)) \<Rightarrow>
          if a_mode (attr p) AND 40960 = 0 then Inl (FsOSError 0) else Inr (a_target (attr p)))"

definition listdir :: "pystr \<Rightarrow> vfs \<Rightarrow> fs_error + pystr list" where
  "listdir path vf =
     rbind (dir_at path vf) (\<lambda>(_, d).
       case body d of
         Kids ks \<Rightarrow> Inr (map node_name ks)
       | Data b \<Rightarrow> if b = [] then Inr [] else Inl FsTypeError)"

text \<open>\<^verbatim>\<open>stat\<close>: mode, owner, group, size and time of the object; the root is made up.\<close>

definition stat :: "pystr \<Rightarrow> bool \<Rightarrow> rat \<Rightarrow> vfs \<Rightarrow> fs_error + int \<times> int \<times> int \<times> int \<times> rat" where
  "stat path follow now vf =
     (if path = [47] then Inr (16877, 0, 0, 4096, now)
      else case file_at follow path vf of
             Inl e \<Rightarrow> Inl e
           | Inr None \<Rightarrow> Inl (FsOSError ENOENT)
           | Inr (Some (_, p)) \<Rightarrow>
               (let x = attr p in Inr (a_mode x, a_uid x, a_gid x, a_size x, a_ctime x)))"

definition update_size :: "pystr \<Rightarrow> int \<Rightarrow> unit fsop" where
  "update_size path n vf =
     (case file_at True path vf of
        Inl e \<Rightarrow> (Inl e, vf)
      | Inr None \<Rightarrow> (Inr (), vf)
      | Inr (Some (loc, p)) \<Rightarrow>
          if a_type (attr p) \<noteq> T_FILE then (Inr (), vf)
          else (Inr (), vf\<lparr>vf_tree := update_at (\<lambda>x. FNode ((attr x)\<lparr>a_size := n\<rparr>) (body x)) loc (vf_tree vf)\<rparr>))"

text \<open>
  \<^verbatim>\<open>file_contents\<close>; reading a file of the host and the packaged binary of the architecture are
  parameters.
\<close>

definition file_contents ::
  "(pystr \<Rightarrow> fs_error + bytes) \<Rightarrow> (fs_error + bytes) \<Rightarrow> pystr \<Rightarrow> vfs \<Rightarrow> fs_error + bytes" where
  "file_contents read_host arch_binary target vf =
     rbind (resolve_path (vf_home vf) target (dirname target)) (\<lambda>path.
     rbind (exists path vf) (\<lambda>there.
       if \<not> there then Inl FsNotFound
       else rbind (file_at True path vf) (\<lambda>r.
         case r of
           None \<Rightarrow> Inl FsTypeError
         | Some (_, f) \<Rightarrow>
             if a_type (attr f) = T_DIR then Inl FsIsADirectory
             else if a_type (attr f) \<noteq> T_FILE then Inr []
             else (case a_realfile (attr f) of
                     Some (c # cs) \<Rightarrow> read_host (c # cs)
                   | _ \<Rightarrow>
                       (case body f of
                          Data bs \<Rightarrow> Inr bs
                        | Kids _ \<Rightarrow>
                            if a_size (attr f) = 0 then Inr []
                            else if a_mode (attr f) AND 64 \<noteq> 0 then arch_binary
                            else Inr [])))))"

section \<open>honeyfs.py\<close>

definition MAX_SYMLINK_DEPTH :: nat where
  "MAX_SYMLINK_DEPTH = 16"

text \<open>\<^verbatim>\<open>_find\<close>, by the hops that are left: a negative number of them is the code's depth above 16.\<close>

fun find_parts :: "(pystr \<Rightarrow> fs_error + fnode option) \<Rightarrow> pystr list \<Rightarrow> fnode \<Rightarrow> fs_error + fnode option" where
  "find_parts rec [] x =
     (if a_type (attr x) = T_LINK
      then (case a_target (attr x) of None \<Rightarrow> Inl FsAttributeError | Some target \<Rightarrow> rec target)
      else Inr (Some x))"
| "find_parts rec (part # ps) x =
     rbind (if a_type (attr x) = T_LINK
            then (case a_target (attr x) of None \<Rightarrow> Inl FsAttributeError | Some target \<Rightarrow> rec target)
            else Inr (Some x)) (\<lambda>r.
       case r of
         None \<Rightarrow> Inr None
       | Some y \<Rightarrow>
           (case body y of
              Data _ \<Rightarrow> Inr None
            | Kids ks \<Rightarrow>
                (case find (\<lambda>c. node_name c = part) ks of
                   None \<Rightarrow> Inr None | Some m \<Rightarrow> find_parts rec ps m)))"

primrec honeyfs_find :: "nat \<Rightarrow> fnode \<Rightarrow> pystr \<Rightarrow> fs_error + fnode option" where
  "honeyfs_find 0 t path = Inr None"
| "honeyfs_find (Suc n) t path =
     find_parts (honeyfs_find n t) (filter (\<lambda>p. p \<noteq> []) (split_on 47 path)) t"

definition read_file :: "fnode \<Rightarrow> pystr \<Rightarrow> fs_error + bytes" where
  "read_file t path =
     rbind (honeyfs_find (Suc MAX_SYMLINK_DEPTH) t path) (\<lambda>r.
       case r of
         None \<Rightarrow> Inl FsNotFound
       | Some x \<Rightarrow>
           if a_type (attr x) \<noteq> T_FILE then Inl FsNotFound
           else (case body x of Data bs \<Rightarrow> Inr bs | Kids _ \<Rightarrow> Inl FsNotFound))"

lemmas vfs_eval [py_eval] = strip_slash_def basename_def dirname_def resolve_path_def named_def get_path_def
  SPECIAL_PATHS_def EDQUOT_def ENOENT_def EEXIST_def ENOTDIR_def ENOTEMPTY_def exists_def lexists_def has_type_def
  isfile_def islink_def isdir_def map_kids_def new_node_def mkfile_def mkdir_def mkdir2_def remove_child_def
  vfs_remove_def body_size_def rmdir_def rename_def change_attr_def utime_def chmod_def chown_def readlink_def
  listdir_def stat_def update_size_def file_contents_def MAX_SYMLINK_DEPTH_def read_file_def

section \<open>Canonical paths\<close>

definition plain_piece :: "pystr \<Rightarrow> bool" where
  "plain_piece p \<longleftrightarrow> p \<noteq> [] \<and> p \<noteq> u ''.'' \<and> p \<noteq> u ''..'' \<and> 47 \<notin> set p"

definition abs_path :: "pystr list \<Rightarrow> pystr" where
  "abs_path ps = 47 # py_join [47] ps"

definition canonical :: "pystr \<Rightarrow> bool" where
  "canonical r \<longleftrightarrow> (\<exists>ps. list_all plain_piece ps \<and> r = abs_path ps)"

lemma py_join_snoc: "ps \<noteq> [] \<Longrightarrow> py_join sep (ps @ [p]) = py_join sep ps @ sep @ p"
proof (induction ps)
  case (Cons q ps)
  then show ?case by (cases ps) auto
qed simp

lemma abs_path_snoc: "abs_path (ds @ [p]) = (if ds = [] then [] else abs_path ds) @ 47 # p"
  by (simp add: abs_path_def py_join_snoc)

lemma split_abs_path:
  "list_all plain_piece ps \<Longrightarrow> split_on 47 (abs_path ps) = [] # (if ps = [] then [[]] else ps)"
  using split_on_join [of ps 47] by (auto simp: abs_path_def plain_piece_def list_all_iff)

lemma rstrip_keep: "s \<noteq> [] \<Longrightarrow> \<not> P (last s) \<Longrightarrow> rstrip_if P s = s"
  by (cases s rule: rev_cases) (simp_all add: rstrip_if_def)

lemma rstrip_snoc: "P c \<Longrightarrow> rstrip_if P (s @ [c]) = rstrip_if P s"
  by (simp add: rstrip_if_def)

lemma abs_path_last:
  assumes "list_all plain_piece ps" "ps \<noteq> []"
  shows "last (abs_path ps) \<noteq> 47" "last (py_join [47] ps) \<noteq> 47" "py_join [47] ps \<noteq> []" "hd (py_join [47] ps) \<noteq> 47"
proof -
  obtain ds p where ps: "ps = ds @ [p]" using assms(2) by (cases ps rule: rev_cases) auto
  with assms(1) have p: "p \<noteq> []" "47 \<notin> set p" by (auto simp: plain_piece_def)
  then have "last p \<noteq> 47" by (metis last_in_set)
  with p show "last (abs_path ps) \<noteq> 47" unfolding ps abs_path_snoc by simp
  show "last (py_join [47] ps) \<noteq> 47" "py_join [47] ps \<noteq> []"
    using p \<open>last p \<noteq> 47\<close> unfolding ps by (cases "ds = []"; simp add: py_join_snoc)+
  obtain q qs where qs: "ps = q # qs" using assms(2) by (cases ps) auto
  with assms(1) have "q \<noteq> []" "47 \<notin> set q" by (auto simp: plain_piece_def)
  then show "hd (py_join [47] ps) \<noteq> 47"
    unfolding qs by (cases qs; cases q) auto
qed

lemma strip_abs_path:
  assumes "list_all plain_piece ps" "ps \<noteq> []"
  shows "strip_slash (abs_path ps) = py_join [47] ps" "rstrip_if (\<lambda>c. c = 47) (abs_path ps) = abs_path ps"
proof -
  note e = abs_path_last [OF assms]
  have "lstrip_if (\<lambda>c. c = 47) (abs_path ps) = py_join [47] ps"
    using e(3,4) by (cases "py_join [47] ps") (auto simp: lstrip_if_def abs_path_def)
  then show "strip_slash (abs_path ps) = py_join [47] ps"
    using e(2,3) by (simp add: strip_slash_def rstrip_keep)
  show "rstrip_if (\<lambda>c. c = 47) (abs_path ps) = abs_path ps"
    using e(1) by (simp add: rstrip_keep abs_path_def)
qed

lemma basename_snoc: "47 \<notin> set p \<Longrightarrow> basename (s @ 47 # p) = p"
  using split1_append [of 47 "rev p" "rev s"] by (simp add: basename_def rsplit1_def)

lemma path_parts:
  assumes "list_all plain_piece ds" "plain_piece p"
  shows "basename (abs_path (ds @ [p])) = p" "dirname (abs_path (ds @ [p])) = abs_path ds"
proof -
  have b: "basename (abs_path (ds @ [p])) = p"
    unfolding abs_path_snoc using assms(2) by (simp add: basename_snoc plain_piece_def)
  then show "basename (abs_path (ds @ [p])) = p" .
  let ?h = "(if ds = [] then [] else abs_path ds) @ [47]"
  have h: "take (length (abs_path (ds @ [p])) - length (basename (abs_path (ds @ [p])))) (abs_path (ds @ [p])) = ?h"
    unfolding b unfolding abs_path_snoc by simp
  show "dirname (abs_path (ds @ [p])) = abs_path ds"
  proof (cases "ds = []")
    case False
    then have "\<not> list_all (\<lambda>c. c = 47) ?h"
      using abs_path_last(3,4) [OF assms(1)] by (auto simp: list_all_iff abs_path_def)
    moreover have "rstrip_if (\<lambda>c. c = 47) (abs_path ds @ [47]) = abs_path ds"
      using strip_abs_path(2) [OF assms(1) False] by (simp add: rstrip_snoc)
    ultimately show ?thesis using False unfolding dirname_def Let_def h by simp
  qed (use h in \<open>simp add: dirname_def Let_def abs_path_def\<close>)
qed

lemma resolve_pieces_plain:
  "list_all (\<lambda>p. 47 \<notin> set p) ps \<Longrightarrow> list_all plain_piece cwd \<Longrightarrow> list_all plain_piece (resolve_pieces ps cwd)"
proof (induction ps cwd rule: resolve_pieces.induct)
  case (2 p ps cwd)
  have "list_all plain_piece (butlast cwd)"
    using 2(5) by (auto simp: list_all_iff dest: in_set_butlastD)
  moreover have "plain_piece p" if "p \<noteq> u ''..''" "\<not> (p = u ''.'' \<or> p = [])"
    using that 2(4) by (simp add: plain_piece_def)
  ultimately show ?case using 2 by simp
qed simp

lemma resolve_pieces_id: "list_all plain_piece ps \<Longrightarrow> resolve_pieces ps cwd = cwd @ ps"
  by (induction ps arbitrary: cwd) (auto simp: plain_piece_def)

lemma resolve_abs:
  assumes "list_all plain_piece q"
  shows "resolve_path home (abs_path q) cwd = Inr (abs_path q)"
proof -
  have "split_on 47 (rstrip_if (\<lambda>c. c = 47) (abs_path q)) = (if q = [] then [[]] else [] # q)"
    using strip_abs_path(2) [OF assms] split_abs_path [OF assms] by (auto simp: abs_path_def rstrip_if_def)
  then have "resolve_pieces (split_on 47 (rstrip_if (\<lambda>c. c = 47) (abs_path q))) [] = q"
    using resolve_pieces_id [OF assms, of "[]"] by auto
  moreover have "\<not> startswith (abs_path q) (u ''~/'')" by (simp add: startswith_def abs_path_def u_def)
  ultimately show ?thesis by (simp add: resolve_path_def Let_def) (simp add: abs_path_def)
qed

lemma resolve_canonical:
  assumes "canonical cwd" and r: "resolve_path home p cwd = Inr r"
  shows "canonical r" "resolve_path home r cwd' = Inr r"
proof -
  obtain cs where cs: "list_all plain_piece cs" "cwd = abs_path cs" using assms by (auto simp: canonical_def)
  have "filter (\<lambda>x. x \<noteq> []) (split_on 47 cwd) = cs"
    using cs split_abs_path [OF cs(1)] by (auto simp: plain_piece_def list_all_iff filter_id_conv)
  then obtain ps start where ps: "r = abs_path (resolve_pieces ps start)" "list_all (\<lambda>p. 47 \<notin> set p) ps"
    "start = [] \<or> start = cs"
    using r by (auto simp: resolve_path_def Let_def abs_path_def list_all_iff dest: split_on_members split: list.splits if_splits)
  have q: "list_all plain_piece (resolve_pieces ps start)" using ps(2,3) cs(1) by (auto intro: resolve_pieces_plain)
  then show "canonical r" using ps(1) by (auto simp: canonical_def)
  show "resolve_path home r cwd' = Inr r" unfolding ps(1) by (rule resolve_abs [OF q])
qed

text \<open>
  Whatever an attacker passes to cd or to a file command, from a canonical directory the result
  is a canonical absolute path (no empty component, no dot, no dot dot, so nothing above the root),
  it is a fixed point of the resolution from any directory, and the resolution fails on the empty
  path alone.
\<close>

theorem resolve_path_canonical:
  assumes "canonical cwd"
  shows "(\<forall>r. resolve_path home p cwd = Inr r \<longrightarrow> canonical r \<and> resolve_path home r cwd' = Inr r) \<and>
    ((\<exists>r. resolve_path home p cwd = Inr r) \<longleftrightarrow> p \<noteq> [])"
proof (intro conjI allI impI)
  fix r assume "resolve_path home p cwd = Inr r"
  then show "canonical r" "resolve_path home r cwd' = Inr r" using resolve_canonical [OF assms] by blast+
next
  have "pathspec \<noteq> [] \<Longrightarrow> startswith pathspec (u ''~/'') \<Longrightarrow> home @ tl pathspec \<noteq> []" for pathspec
    by (cases pathspec) (auto simp: startswith_def u_def)
  then show "(\<exists>r. resolve_path home p cwd = Inr r) \<longleftrightarrow> p \<noteq> []"
    by (auto simp: resolve_path_def Let_def startswith_def u_def split: list.split)
qed

section \<open>Lookup in a tree without links\<close>

fun linkless :: "fnode \<Rightarrow> bool" where
  "linkless (FNode a (Kids ks)) \<longleftrightarrow> a_type a \<noteq> T_LINK \<and> list_all linkless ks"
| "linkless (FNode a (Data _)) \<longleftrightarrow> a_type a \<noteq> T_LINK"

fun uniq :: "fnode \<Rightarrow> bool" where
  "uniq (FNode a (Kids ks)) \<longleftrightarrow> distinct (map node_name ks) \<and> list_all uniq ks"
| "uniq (FNode a (Data _)) \<longleftrightarrow> True"

definition good :: "fnode \<Rightarrow> bool" where
  "good x \<longleftrightarrow> linkless x \<and> uniq x"

lemma good_kids:
  "good x \<Longrightarrow> body x = Kids ks \<Longrightarrow> a_type (attr x) \<noteq> T_LINK \<and> distinct (map node_name ks) \<and> list_all good ks"
  by (cases x) (auto simp: good_def list_all_iff)

lemma good_FNode: "good (FNode a (Kids ks)) \<longleftrightarrow> a_type a \<noteq> T_LINK \<and> distinct (map node_name ks) \<and> list_all good ks"
  by (auto simp: good_def list_all_iff)

lemma good_type: "good x \<Longrightarrow> a_type (attr x) \<noteq> T_LINK"
  by (cases x rule: linkless.cases) (auto simp: good_def)

text \<open>The specification: follow the names from the root.\<close>

fun first_index :: "('a \<Rightarrow> bool) \<Rightarrow> 'a list \<Rightarrow> nat option" where
  "first_index P [] = None"
| "first_index P (x # xs) = (if P x then Some 0 else map_option Suc (first_index P xs))"

fun locate :: "pystr list \<Rightarrow> fnode \<Rightarrow> entry option" where
  "locate [] t = Some ([], t)"
| "locate (p # ps) t =
     (case body t of
        Data _ \<Rightarrow> None
      | Kids ks \<Rightarrow>
          (case first_index (\<lambda>x. node_name x = p) ks of
             None \<Rightarrow> None
           | Some i \<Rightarrow> map_option (\<lambda>(l, x). (i # l, x)) (locate ps (ks ! i))))"

lemma first_index_Some:
  "first_index P xs = Some i \<Longrightarrow> i < length xs \<and> P (xs ! i)"
  by (induction xs arbitrary: i) (auto split: if_splits)

lemma first_index_map: "first_index (\<lambda>x. f x = v) xs = first_index (\<lambda>y. y = v) (map f xs)"
  by (induction xs) auto

lemma first_index_None: "first_index P xs = None \<longleftrightarrow> list_all (\<lambda>x. \<not> P x) xs"
  by (induction xs) auto

lemma positions_Cons:
  "filter (\<lambda>i. P ((x # xs) ! i)) [0..<length (x # xs)] =
     (if P x then [0] else []) @ map Suc (filter (\<lambda>i. P (xs ! i)) [0..<length xs])"
proof -
  have "[0..<length (x # xs)] = 0 # map Suc [0..<length xs]"
    by (simp add: upt_conv_Cons map_Suc_upt del: upt_Suc)
  then show ?thesis by (simp add: filter_map o_def)
qed

lemma positions_unique:
  assumes "distinct (map f xs)"
  shows "filter (\<lambda>i. f (xs ! i) = v) [0..<length xs] = (case first_index (\<lambda>x. f x = v) xs of None \<Rightarrow> [] | Some i \<Rightarrow> [i])"
  using assms
proof (induction xs)
  case (Cons x xs)
  then have IH: "filter (\<lambda>i. f (xs ! i) = v) [0..<length xs] =
      (case first_index (\<lambda>x. f x = v) xs of None \<Rightarrow> [] | Some i \<Rightarrow> [i])" by simp
  show ?case
  proof (cases "f x = v")
    case True
    with Cons.prems have "first_index (\<lambda>x. f x = v) xs = None"
      by (auto simp: first_index_None list_all_iff) (metis imageI)
    with True IH show ?thesis unfolding positions_Cons [of "\<lambda>y. f y = v"] by simp
  next
    case False
    with IH show ?thesis unfolding positions_Cons [of "\<lambda>y. f y = v"] by (simp split: option.split)
  qed
qed simp

lemma named_unique:
  assumes "distinct (map node_name ks)"
  shows "named p loc ks = (case first_index (\<lambda>x. node_name x = p) ks of None \<Rightarrow> [] | Some i \<Rightarrow> [(loc @ [i], ks ! i)])"
  using positions_unique [OF assms, of p] by (simp add: named_def split: option.split)

lemma walk_good:
  assumes "good (snd e)"
  shows "(\<forall>r. walk rec follow lst ps e = Inr (Some r) \<longleftrightarrow>
       (\<exists>l x. locate ps (snd e) = Some (l, x) \<and> r = (fst e @ l, x))) \<and>
     (\<forall>err. walk rec follow lst ps e = Inl err \<longrightarrow> err = FsTypeError)"
  using assms
proof (induction ps arbitrary: e)
  case (Cons p ps)
  show ?case
  proof (cases "body (snd e)")
    case (Kids ks)
    note k = good_kids [OF Cons.prems Kids]
    show ?thesis
    proof (cases "first_index (\<lambda>x. node_name x = p) ks")
      case None
      with Kids k show ?thesis by (simp add: named_unique)
    next
      case (Some i)
      then have g: "good (ks ! i)" using first_index_Some [OF Some] k by (simp add: list_all_length)
      with Some Kids k have "walk rec follow lst (p # ps) e = walk rec follow lst ps (fst e @ [i], ks ! i)"
        by (simp add: named_unique good_type)
      then show ?thesis
        using Cons.IH [of "(fst e @ [i], ks ! i)"] g Some Kids by auto
    qed
  qed simp
qed auto

lemma walk_dirs_good:
  assumes "good (snd e)" "list_all (\<lambda>p. p \<noteq> []) ps"
  shows "walk_dirs rec ps e =
    (case locate ps (snd e) of None \<Rightarrow> Inl FsNotFound | Some (l, x) \<Rightarrow> Inr (fst e @ l, x))"
  using assms
proof (induction ps arbitrary: e)
  case (Cons p ps)
  show ?case
  proof (cases "body (snd e)")
    case (Kids ks)
    note k = good_kids [OF Cons.prems(1) Kids]
    show ?thesis
    proof (cases "first_index (\<lambda>x. node_name x = p) ks")
      case None
      with Kids k Cons.prems show ?thesis by (simp add: named_unique)
    next
      case (Some i)
      then have g: "good (ks ! i)" using first_index_Some [OF Some] k by (simp add: list_all_length)
      then show ?thesis
        using Cons.IH [of "(fst e @ [i], ks ! i)"] Cons.prems(2) Some Kids k
        by (auto simp: named_unique good_type split: option.split)
    qed
  qed (use Cons.prems in simp)
qed (cases e, simp)

lemma getfile_good:
  assumes "good t" "list_all plain_piece ps"
  shows "getfile (Suc n) t follow (abs_path ps) = Inr (Some (l, x)) \<longleftrightarrow> locate ps t = Some (l, x)"
    and "getfile (Suc n) t follow (abs_path ps) \<noteq> Inl FsRecursionError"
proof -
  show "getfile (Suc n) t follow (abs_path ps) = Inr (Some (l, x)) \<longleftrightarrow> locate ps t = Some (l, x)"
  proof (cases "ps = []")
    case False
    then have "abs_path ps \<noteq> [47]" using abs_path_last(3) [OF assms(2)] by (simp add: abs_path_def)
    then show ?thesis
      using walk_good [of "([], t)" "getfile n t follow" follow "last ps" ps] assms(1)
        split_on_join [OF False, of 47] strip_abs_path(1) [OF assms(2) False] assms(2)
      by (simp add: plain_piece_def list_all_iff Let_def)
  qed (auto simp: abs_path_def)
  show "getfile (Suc n) t follow (abs_path ps) \<noteq> Inl FsRecursionError"
  proof -
    have "walk (getfile n t follow) follow lst qs ([], t) \<noteq> Inl FsRecursionError" for lst qs
      using walk_good [of "([], t)" "getfile n t follow" follow lst qs] assms(1) by auto
    then show ?thesis by (simp add: Let_def)
  qed
qed

lemma get_path_good:
  assumes "good t" "list_all plain_piece ps"
  shows "get_path n t follow (abs_path ps) = (case locate ps t of None \<Rightarrow> Inl FsNotFound | Some e \<Rightarrow> Inr e)"
proof -
  have "list_all (\<lambda>p. p \<noteq> []) ps" using assms(2) by (auto simp: list_all_iff plain_piece_def)
  then show ?thesis
    using walk_dirs_good [of "([], t)" ps "getfile n t follow"] assms
    by (auto simp: get_path_def split_abs_path split: option.split)
qed

text \<open>
  The two lookups of the file system agree: in a tree with unique names and without links, on
  every canonical path, \<^verbatim>\<open>getfile\<close> finds an object exactly where following the names from the root
  leads, \<^verbatim>\<open>get_path\<close> finds the same one or raises FileNotFound, and one level of recursion is
  enough.
\<close>

theorem lookups_agree:
  assumes "good t" "list_all plain_piece ps"
  shows "(\<forall>l x. getfile (Suc n) t follow (abs_path ps) = Inr (Some (l, x)) \<longleftrightarrow> locate ps t = Some (l, x)) \<and>
    get_path m t follow' (abs_path ps) = (case locate ps t of None \<Rightarrow> Inl FsNotFound | Some e \<Rightarrow> Inr e) \<and>
    getfile (Suc n) t follow (abs_path ps) \<noteq> Inl FsRecursionError"
  using getfile_good [OF assms] get_path_good [OF assms] by blast

section \<open>What an operation changes\<close>

fun lookup :: "pystr list \<Rightarrow> fnode \<Rightarrow> fnode option" where
  "lookup [] t = Some t"
| "lookup (p # ps) t =
     (case body t of
        Data _ \<Rightarrow> None
      | Kids ks \<Rightarrow> (case find (\<lambda>x. node_name x = p) ks of None \<Rightarrow> None | Some x \<Rightarrow> lookup ps x))"

lemma find_first_index: "find P xs = map_option (\<lambda>i. xs ! i) (first_index P xs)"
  by (induction xs) (auto simp: option.map_comp o_def)

lemma lookup_locate: "lookup ps t = map_option snd (locate ps t)"
proof (induction ps arbitrary: t)
  case (Cons p ps)
  then show ?case
    by (cases "body t") (auto simp: find_first_index option.map_comp o_def case_prod_unfold split: option.split)
qed simp

text \<open>An update of one object by a function that keeps its attributes.\<close>

lemma update_at_attr: "(\<And>x. attr (f x) = attr x) \<Longrightarrow> attr (update_at f l t) = attr t"
  by (cases l) (auto split: fbody.split)

lemma find_update:
  assumes "first_index (\<lambda>x. node_name x = p) ks = Some i" "node_name y = node_name (ks ! i)"
  shows "find (\<lambda>x. node_name x = p) (ks[i := y]) = Some y"
    and "q \<noteq> p \<Longrightarrow> find (\<lambda>x. node_name x = q) (ks[i := y]) = find (\<lambda>x. node_name x = q) ks"
proof -
  have p: "node_name (ks ! i) = p" using first_index_Some [OF assms(1)] by simp
  have "find (\<lambda>x. node_name x = p) (ks[i := y]) = Some y \<and>
      (q \<noteq> p \<longrightarrow> find (\<lambda>x. node_name x = q) (ks[i := y]) = find (\<lambda>x. node_name x = q) ks)"
    using assms p
  proof (induction ks arbitrary: i)
    case (Cons k ks)
    then show ?case by (cases i) (auto split: if_splits)
  qed simp
  then show "find (\<lambda>x. node_name x = p) (ks[i := y]) = Some y"
    "q \<noteq> p \<Longrightarrow> find (\<lambda>x. node_name x = q) (ks[i := y]) = find (\<lambda>x. node_name x = q) ks" by auto
qed

lemma lookup_update:
  assumes "locate ds t = Some (l, d)" "\<And>x. attr (f x) = attr x"
  shows "lookup (ds @ qs) (update_at f l t) = lookup qs (f d)"
  using assms(1)
proof (induction ds arbitrary: t l)
  case (Cons p ds)
  then obtain ks i l' where k: "body t = Kids ks" "first_index (\<lambda>x. node_name x = p) ks = Some i"
    "locate ds (ks ! i) = Some (l', d)" "l = i # l'"
    by (auto split: fbody.splits option.splits)
  have "node_name (update_at f l' (ks ! i)) = node_name (ks ! i)" using update_at_attr [OF assms(2)] by simp
  from find_update(1) [OF k(2) this] k first_index_Some [OF k(2)] Cons.IH [OF k(3)] show ?case by simp
qed simp

lemma lookup_update_other:
  assumes "locate ds t = Some (l, d)" "\<And>x. attr (f x) = attr x" "\<not> prefix ds qs"
  shows "map_option attr (lookup qs (update_at f l t)) = map_option attr (lookup qs t)"
  using assms(1,3)
proof (induction ds arbitrary: t l qs)
  case (Cons p ds)
  then obtain ks i l' where k: "body t = Kids ks" "first_index (\<lambda>x. node_name x = p) ks = Some i"
    "locate ds (ks ! i) = Some (l', d)" "l = i # l'"
    by (auto split: fbody.splits option.splits)
  have i: "i < length ks" using first_index_Some [OF k(2)] by simp
  have nm: "node_name (update_at f l' (ks ! i)) = node_name (ks ! i)" using update_at_attr [OF assms(2)] by simp
  note fu = find_update [OF k(2) nm]
  show ?case
  proof (cases qs)
    case Nil
    then show ?thesis using update_at_attr [OF assms(2)] by simp
  next
    case (Cons q qs')
    show ?thesis
    proof (cases "q = p")
      case True
      with Cons Cons.prems(2) have "\<not> prefix ds qs'" by simp
      moreover have "find (\<lambda>x. node_name x = p) ks = Some (ks ! i)" using k(2) by (simp add: find_first_index)
      ultimately show ?thesis
        using Cons.IH [OF k(3)] Cons True k i fu(1) by simp
    next
      case False
      with Cons k i fu(2) show ?thesis by simp
    qed
  qed
qed simp

lemma update_at_id: "update_at (\<lambda>x. x) l t = t"
proof (induction l arbitrary: t)
  case (Cons i l)
  then show ?case by (cases t) (auto split: fbody.split)
qed simp

lemma update_at_name: "(\<And>x. node_name (f x) = node_name x) \<Longrightarrow> node_name (update_at f l t) = node_name t"
  by (cases l) (auto split: fbody.split)

lemma good_update:
  assumes "good t" "\<And>x. good x \<Longrightarrow> good (f x)" "\<And>x. node_name (f x) = node_name x"
  shows "good (update_at f l t)"
  using assms(1)
proof (induction l arbitrary: t)
  case (Cons i l)
  show ?case
  proof (cases "body t")
    case (Kids ks)
    note k = good_kids [OF Cons.prems Kids]
    show ?thesis
    proof (cases "i < length ks")
      case True
      then have "good (update_at f l (ks ! i))" using Cons.IH k by (simp add: list_all_length)
      moreover have "map node_name (ks[i := update_at f l (ks ! i)]) = map node_name ks"
        using True update_at_name [OF assms(3)] by (simp add: map_update list_update_same_conv)
      ultimately show ?thesis
        using k Kids True by (auto simp: good_FNode list_all_length nth_list_update)
    qed (use Kids Cons.prems in simp)
  qed (use Cons.prems in simp)
qed (use assms(2) in simp)

lemma map_kids_attr [simp]: "attr (map_kids g x) = attr x"
  by (simp add: map_kids_def split: fbody.split)

lemma good_map_kids:
  assumes "good x" "\<And>ks. distinct (map node_name ks) \<Longrightarrow> list_all good ks \<Longrightarrow>
    distinct (map node_name (g ks)) \<and> list_all good (g ks)"
  shows "good (map_kids g x)"
proof (cases "body x")
  case (Kids ks)
  with good_kids [OF assms(1) Kids] assms(2) [of ks] show ?thesis by (simp add: map_kids_def good_FNode)
qed (use assms(1) in \<open>simp add: map_kids_def\<close>)

lemma remove_first_subset: "set (remove_first P xs) \<subseteq> set xs"
  by (induction xs) auto

lemma remove_first_distinct:
  assumes "distinct (map node_name ks)"
  shows "distinct (map node_name (remove_first P ks))"
    and "p \<notin> node_name ` set (remove_first (\<lambda>x. node_name x = p) ks)"
proof -
  have sub: "x \<in> set ks" if "x \<in> set (remove_first P ks)" for P ks and x :: fnode
    using that remove_first_subset [of P ks] by blast
  show "distinct (map node_name (remove_first P ks))"
    using assms by (induction ks) (auto dest: sub)
  show "p \<notin> node_name ` set (remove_first (\<lambda>x. node_name x = p) ks)"
    using assms by (induction ks) auto
qed

lemma find_remove_first: "q \<noteq> p \<Longrightarrow>
  find (\<lambda>x. node_name x = q) (remove_first (\<lambda>x. node_name x = p) ks) = find (\<lambda>x. node_name x = q) ks"
  by (induction ks) auto

lemma find_append: "find P (xs @ ys) = (case find P xs of None \<Rightarrow> find P ys | Some x \<Rightarrow> Some x)"
  by (induction xs) auto

lemma good_new_node [simp]: "ty \<noteq> T_LINK \<Longrightarrow> good (new_node nm ty uid gid n mode now)"
  by (simp add: new_node_def good_FNode)

lemma good_replace:
  assumes "distinct (map node_name ks)" "list_all good ks" "good x" "node_name x = p"
  shows "distinct (map node_name (remove_first (\<lambda>x. node_name x = p) ks @ [x])) \<and>
    list_all good (remove_first (\<lambda>x. node_name x = p) ks @ [x])"
  using remove_first_distinct [OF assms(1)] remove_first_subset [of "\<lambda>x. node_name x = p" ks] assms(2-4)
  by (auto simp: list_all_iff)

lemma locate_good: "good t \<Longrightarrow> locate ds t = Some (l, d) \<Longrightarrow> good d"
proof (induction ds arbitrary: t l)
  case (Cons p ds)
  then obtain ks i l' where k: "body t = Kids ks" "first_index (\<lambda>x. node_name x = p) ks = Some i"
    "locate ds (ks ! i) = Some (l', d)"
    by (auto split: fbody.splits option.splits)
  then have "good (ks ! i)"
    using good_kids [OF Cons.prems(1) k(1)] first_index_Some [OF k(2)] by (simp add: list_all_length)
  with Cons.IH k(3) show ?case by blast
qed simp

text \<open>The directory an operation on a canonical path changes.\<close>

lemma dir_of_path:
  assumes "good (vf_tree vf)" "list_all plain_piece ds" "plain_piece p"
  shows "dir_at (dirname (abs_path (ds @ [p]))) vf =
    (case locate ds (vf_tree vf) of None \<Rightarrow> Inl FsNotFound | Some e \<Rightarrow> Inr e)"
  using get_path_good [OF assms(1,2)] path_parts [OF assms(2,3)] by simp

lemma prefix_snoc_cases: "\<not> prefix (ds @ [p]) qs \<Longrightarrow> \<not> prefix ds qs \<or> qs = ds \<or> (\<exists>q qr. qs = ds @ q # qr \<and> q \<noteq> p)"
  by (auto simp: prefix_def neq_Nil_conv) (metis append_Nil2 list.exhaust)

text \<open>
  A new file is where it was put and nothing else has changed: when \<^verbatim>\<open>mkfile\<close> succeeds on a
  canonical path, looking the path up gives an empty regular file with the owner, size and mode that
  were asked for (replacing what had the name before), every path that does not lead to or through
  it has the object and the attributes it had, names are still unique, and one more object counts
  against the quota.
\<close>

theorem mkfile_creates:
  assumes "good (vf_tree vf)" "list_all plain_piece ds" "plain_piece p"
    and "mkfile (abs_path (ds @ [p])) uid gid n mode now vf = (Inr True, vf')"
  shows "lookup (ds @ [p]) (vf_tree vf') = Some (new_node p T_FILE uid gid n mode now) \<and>
    (\<forall>qs. \<not> prefix (ds @ [p]) qs \<longrightarrow>
       map_option attr (lookup qs (vf_tree vf')) = map_option attr (lookup qs (vf_tree vf))) \<and>
    good (vf_tree vf') \<and> vf_newcount vf' = vf_newcount vf + 1"
proof -
  let ?t = "vf_tree vf" and ?new = "new_node p T_FILE uid gid n mode now"
  let ?g = "\<lambda>ks. remove_first (\<lambda>x. node_name x = p) ks @ [?new]"
  obtain l d ks where ld: "locate ds ?t = Some (l, d)" "body d = Kids ks"
    and vf': "vf' = vf\<lparr>vf_tree := update_at (map_kids ?g) l ?t, vf_newcount := vf_newcount vf + 1\<rparr>"
    using assms(4) dir_of_path [OF assms(1-3)] path_parts [OF assms(2,3)]
    by (auto simp: mkfile_def Let_def split: if_splits option.splits fbody.splits)
  have nm: "node_name ?new = p" by (simp add: new_node_def)
  have at: "attr (map_kids ?g x) = attr x" for x by simp
  have dk: "distinct (map node_name ks)" using good_kids [OF locate_good [OF assms(1) ld(1)] ld(2)] by simp
  have "find (\<lambda>x. node_name x = p) (remove_first (\<lambda>x. node_name x = p) ks) = None"
    using remove_first_distinct(2) [OF dk, of p] by (auto simp: find_None_iff)
  then have found: "find (\<lambda>x. node_name x = p) (?g ks) = Some ?new" using nm by (simp add: find_append)
  have body: "body (map_kids ?g d) = Kids (?g ks)" using ld(2) by (simp add: map_kids_def)
  have upd: "lookup (ds @ qs) (vf_tree vf') = lookup qs (map_kids ?g d)" for qs
    using lookup_update [OF ld(1) at] by (simp add: vf')
  have old: "lookup (ds @ qs) ?t = lookup qs d" for qs
    using lookup_update [OF ld(1), of "\<lambda>x. x" qs] by (simp add: update_at_id)
  have "lookup (ds @ [p]) (vf_tree vf') = Some ?new" using upd [of "[p]"] body found by simp
  moreover have "map_option attr (lookup qs (vf_tree vf')) = map_option attr (lookup qs ?t)"
    if "\<not> prefix (ds @ [p]) qs" for qs
  proof -
    consider (out) "\<not> prefix ds qs" | (dir) "qs = ds" | (sib) q qr where "qs = ds @ q # qr" "q \<noteq> p"
      using prefix_snoc_cases [OF \<open>\<not> prefix (ds @ [p]) qs\<close>] by blast
    then show ?thesis
    proof cases
      case out
      then show ?thesis using lookup_update_other [OF ld(1) at] by (simp add: vf')
    next
      case dir
      then show ?thesis using upd [of "[]"] old [of "[]"] by simp
    next
      case sib
      have "find (\<lambda>x. node_name x = q) (?g ks) = find (\<lambda>x. node_name x = q) ks"
        using sib(2) nm by (simp add: find_append find_remove_first split: option.split)
      then show ?thesis using upd [of "q # qr"] old [of "q # qr"] body ld(2) sib(1) by simp
    qed
  qed
  moreover have "good (map_kids ?g x)" if "good x" for x
    by (rule good_map_kids [OF that], rule good_replace) (simp_all add: nm)
  then have "good (vf_tree vf')" using good_update [OF assms(1)] by (simp add: vf')
  ultimately show ?thesis by (simp add: vf')
qed

section \<open>Sequences of operations\<close>

datatype fs_op =
    OpMkfile pystr int int int int rat | OpMkdir pystr rat | OpRemove pystr | OpRmdir pystr
  | OpRename pystr pystr | OpChmod pystr int | OpChown pystr int int | OpUtime pystr rat | OpSize pystr int

fun vfs_step :: "fs_op \<Rightarrow> vfs \<Rightarrow> vfs" where
  "vfs_step (OpMkfile p uid gid n mode now) vf = snd (mkfile p uid gid n mode now vf)"
| "vfs_step (OpMkdir p now) vf = snd (mkdir2 p now vf)"
| "vfs_step (OpRemove p) vf = snd (vfs_remove p vf)"
| "vfs_step (OpRmdir p) vf = snd (rmdir p vf)"
| "vfs_step (OpRename p q) vf = snd (rename p q vf)"
| "vfs_step (OpChmod p m) vf = snd (chmod p m vf)"
| "vfs_step (OpChown p a b) vf = snd (chown p a b vf)"
| "vfs_step (OpUtime p m) vf = snd (utime p m vf)"
| "vfs_step (OpSize p n) vf = snd (update_size p n vf)"

text \<open>A path that names something below the root, as the resolution of paths returns it.\<close>

definition proper_path :: "pystr \<Rightarrow> bool" where
  "proper_path r \<longleftrightarrow> (\<exists>ds p. list_all plain_piece ds \<and> plain_piece p \<and> r = abs_path (ds @ [p]))"

fun proper_op :: "fs_op \<Rightarrow> bool" where
  "proper_op (OpMkdir p _) = proper_path p"
| "proper_op (OpRename _ p) = proper_path p"
| "proper_op _ = True"

definition vfs_ok :: "vfs \<Rightarrow> bool" where
  "vfs_ok vf \<longleftrightarrow> good (vf_tree vf) \<and> vf_newcount vf \<le> 10001"

lemma good_change:
  assumes "good t" "\<And>a. a_name (g a) = a_name a \<and> a_type (g a) = a_type a"
  shows "good (update_at (\<lambda>x. FNode (g (attr x)) (body x)) l t)"
proof (rule good_update [OF assms(1)])
  fix x assume "good x"
  then show "good (FNode (g (attr x)) (body x))"
    using assms(2) by (cases x; cases "body x") (auto simp: good_def)
qed (use assms(2) in simp)

lemma change_attr_ok:
  "vfs_ok vf \<Longrightarrow> (\<And>a. a_name (g a) = a_name a \<and> a_type (g a) = a_type a) \<Longrightarrow> vfs_ok (snd (change_attr p g vf))"
  by (auto simp: vfs_ok_def change_attr_def good_change split: sum.split option.split)

lemma attr_ops_ok:
  assumes "vfs_ok vf"
  shows "vfs_ok (snd (chmod p m vf))" "vfs_ok (snd (chown p a b vf))" "vfs_ok (snd (utime p t vf))"
    "vfs_ok (snd (update_size p n vf))"
proof -
  show "vfs_ok (snd (chmod p m vf))" "vfs_ok (snd (chown p a b vf))" "vfs_ok (snd (utime p t vf))"
    unfolding chmod_def chown_def utime_def by (rule change_attr_ok [OF assms], simp)+
  show "vfs_ok (snd (update_size p n vf))"
    using assms good_change [of "vf_tree vf" "\<lambda>a. a\<lparr>a_size := n\<rparr>"]
    by (auto simp: vfs_ok_def update_size_def split: sum.split option.split)
qed

lemma good_update_kids:
  assumes "good t" "\<And>ks. distinct (map node_name ks) \<Longrightarrow> list_all good ks \<Longrightarrow>
    distinct (map node_name (g ks)) \<and> list_all good (g ks)"
  shows "good (update_at (map_kids g) l t)"
  by (rule good_update [OF assms(1) good_map_kids]) (use assms(2) in auto)

lemma mkfile_ok:
  assumes "vfs_ok vf"
  shows "vfs_ok (snd (mkfile p uid gid n mode now vf))"
proof -
  have "good (update_at (map_kids (\<lambda>ks. remove_first (\<lambda>x. node_name x = q) ks @ [new_node q T_FILE uid gid n mode now])) l (vf_tree vf))"
    for q l using assms by (intro good_update_kids good_replace) (simp_all add: vfs_ok_def new_node_def good_FNode)
  then show ?thesis
    using assms by (auto simp: mkfile_def vfs_ok_def Let_def split: sum.split fbody.split)
qed

lemma remove_child_ok: "vfs_ok vf \<Longrightarrow> vfs_ok (snd (remove_child p x vf))"
proof -
  assume ok: "vfs_ok vf"
  have "good (update_at (map_kids (remove1 x)) l (vf_tree vf))" for l
    using ok by (intro good_update_kids)
      (auto simp: vfs_ok_def distinct_map list_all_iff inj_on_def dest: notin_set_remove1 intro: distinct_remove1)
  then show ?thesis using ok by (auto simp: remove_child_def vfs_ok_def split: sum.split fbody.split)
qed

lemma rmdir_ok: "vfs_ok vf \<Longrightarrow> vfs_ok (snd (rmdir p vf))"
proof -
  assume ok: "vfs_ok vf"
  have "good (update_at (map_kids (remove_first P)) l (vf_tree vf))" for P l
    using ok remove_first_subset [of P]
    by (intro good_update_kids) (auto simp: vfs_ok_def list_all_iff remove_first_distinct)
  then show ?thesis
    using ok by (auto simp: rmdir_def vfs_ok_def Let_def split: sum.split fbody.split option.split)
qed

text \<open>An update at a located object needs to keep only that object good.\<close>

lemma good_update_located:
  assumes "good t" "locate ds t = Some (l, d)" "good (f d)" "\<And>x. node_name (f x) = node_name x"
  shows "good (update_at f l t)"
  using assms(1,2)
proof (induction ds arbitrary: t l)
  case (Cons q ds)
  then obtain cs i l' where k: "body t = Kids cs" "first_index (\<lambda>x. node_name x = q) cs = Some i"
    "locate ds (cs ! i) = Some (l', d)" "l = i # l'"
    by (auto split: fbody.splits option.splits)
  note g = good_kids [OF Cons.prems(1) k(1)]
  have i: "i < length cs" using first_index_Some [OF k(2)] by simp
  then have "good (update_at f l' (cs ! i))" using Cons.IH [OF _ k(3)] g by (simp add: list_all_length)
  moreover have "map node_name (cs[i := update_at f l' (cs ! i)]) = map node_name cs"
    using i update_at_name [OF assms(4)] by (simp add: map_update list_update_same_conv)
  ultimately show ?case using g k i by (auto simp: good_FNode list_all_length nth_list_update)
qed (use assms(3) in simp)

text \<open>A name that is not there can be added.\<close>

lemma append_ok:
  assumes "good t" "locate ds t = Some (l, d)" "lookup (ds @ [p]) t = None" "good x" "node_name x = p"
  shows "good (update_at (map_kids (\<lambda>ks. ks @ [x])) l t)"
proof (rule good_update_located [OF assms(1,2)])
  have d: "good d" using locate_good [OF assms(1,2)] .
  show "good (map_kids (\<lambda>ks. ks @ [x]) d)"
  proof (cases "body d")
    case (Kids ks)
    have "lookup [p] d = None"
      using lookup_update [OF assms(2), of "\<lambda>x. x" "[p]"] assms(3) by (simp add: update_at_id)
    then have "p \<notin> node_name ` set ks"
      by (auto simp: Kids find_None_iff split: option.splits)
    then show ?thesis using good_kids [OF d Kids] assms(4,5) Kids by (simp add: map_kids_def good_FNode)
  qed (use d in \<open>simp add: map_kids_def\<close>)
qed simp

lemma getfile_None:
  assumes "good (vf_tree vf)" "list_all plain_piece ps" "file_at follow (abs_path ps) vf = Inr None"
  shows "lookup ps (vf_tree vf) = None"
proof -
  obtain n where "vf_depth vf = Suc n" using assms(3) by (cases "vf_depth vf") auto
  then have "locate ps (vf_tree vf) = None"
    using getfile_good(1) [OF assms(1,2), of n follow] assms(3) by (cases "locate ps (vf_tree vf)") fastforce+
  then show ?thesis by (simp add: lookup_locate)
qed

lemma split1_notin: "c \<notin> set s \<Longrightarrow> split1 c s = (s, None)"
  by (induction s) auto

lemma relative_dirname:
  assumes "list_all plain_piece ds" "plain_piece p"
  shows "dirname (strip_slash (abs_path (ds @ [p]))) = py_join [47] ds"
proof -
  have s: "strip_slash (abs_path (ds @ [p])) = py_join [47] (ds @ [p])"
    using strip_abs_path(1) [of "ds @ [p]"] assms by simp
  have p: "47 \<notin> set p" using assms(2) by (simp add: plain_piece_def)
  show ?thesis
  proof (cases "ds = []")
    case True
    have "basename p = p" using p by (simp add: basename_def rsplit1_def split1_notin)
    with True s show ?thesis by (simp add: dirname_def)
  next
    case False
    let ?j = "py_join [47] ds"
    have b: "basename (?j @ 47 # p) = p" by (rule basename_snoc [OF p])
    have "\<not> list_all (\<lambda>c. c = 47) (?j @ [47])"
      using abs_path_last(3,4) [OF assms(1) False] by (cases ?j) auto
    moreover have "rstrip_if (\<lambda>c. c = 47) (?j @ [47]) = ?j"
      using abs_path_last(2,3) [OF assms(1) False] by (simp add: rstrip_snoc rstrip_keep)
    ultimately have "dirname (?j @ 47 # p) = ?j" unfolding dirname_def b by simp
    with False s show ?thesis by (simp add: py_join_snoc)
  qed
qed

lemma mkdir_dir:
  assumes "good (vf_tree vf)" "list_all plain_piece ds" "plain_piece p"
  shows "dir_at (dirname (strip_slash (abs_path (ds @ [p])))) vf =
    (case locate ds (vf_tree vf) of None \<Rightarrow> Inl FsNotFound | Some e \<Rightarrow> Inr e)"
proof (cases "ds = []")
  case False
  have "list_all (\<lambda>p. p \<noteq> []) ds" "list_all (\<lambda>x. 47 \<notin> set x) ds"
    using assms(2) by (auto simp: list_all_iff plain_piece_def)
  then show ?thesis
    using walk_dirs_good [of "([], vf_tree vf)" ds "getfile (vf_depth vf) (vf_tree vf) True"] assms(1)
      split_on_join [OF False, of 47] relative_dirname [OF assms(2,3)]
    by (auto simp: get_path_def split: option.split)
qed (use relative_dirname [OF assms(2,3)] in \<open>simp add: get_path_def\<close>)

lemma mkdir_ok:
  assumes "vfs_ok vf" "proper_path r" "file_at True r vf = Inr None"
  shows "vfs_ok (snd (mkdir r uid gid n mode now vf))"
proof -
  obtain ds p where r: "list_all plain_piece ds" "plain_piece p" "r = abs_path (ds @ [p])"
    using assms(2) by (auto simp: proper_path_def)
  have g: "good (vf_tree vf)" using assms(1) by (simp add: vfs_ok_def)
  have "lookup (ds @ [p]) (vf_tree vf) = None"
    using getfile_None [OF g] assms(3) r by simp
  then have "good (update_at (map_kids (\<lambda>ks. ks @ [new_node p T_DIR uid gid n mode now])) l (vf_tree vf))"
    if "locate ds (vf_tree vf) = Some (l, d)" for l d
    using append_ok [OF g that] by (simp add: new_node_def good_FNode)
  then show ?thesis
    using assms(1) mkdir_dir [OF g r(1,2)] path_parts(1) [OF r(1,2)]
    by (auto simp: mkdir_def vfs_ok_def r(3) split: option.split fbody.split)
qed

lemma mkdir2_ok: "vfs_ok vf \<Longrightarrow> proper_path r \<Longrightarrow> vfs_ok (snd (mkdir2 r now vf))"
  by (auto simp: mkdir2_def mkdir_ok split: sum.split option.split)

text \<open>Taking something out makes no path appear.\<close>

lemma lookup_shrinks:
  assumes "\<And>qs x. good x \<Longrightarrow> lookup qs (f x) \<noteq> None \<Longrightarrow> lookup qs x \<noteq> None" "\<And>x. attr (f x) = attr x" "good t"
    and "lookup qs (update_at f l t) \<noteq> None"
  shows "lookup qs t \<noteq> None"
  using assms(3,4)
proof (induction l arbitrary: t qs)
  case (Cons i l)
  show ?case
  proof (cases "\<exists>ks. body t = Kids ks \<and> i < length ks")
    case True
    then obtain ks where k: "body t = Kids ks" "i < length ks" by blast
    note g = good_kids [OF Cons.prems(1) k(1)]
    show ?thesis
    proof (cases qs)
      case (Cons q qr)
      let ?ks = "ks[i := update_at f l (ks ! i)]"
      obtain y where y: "find (\<lambda>x. node_name x = q) ?ks = Some y" "lookup qr y \<noteq> None"
        using Cons.prems(2) Cons k by (auto split: option.splits)
      have "map node_name ?ks = map node_name ks"
        using k(2) update_at_attr [OF assms(2)] by (simp add: map_update list_update_same_conv)
      then have same: "first_index (\<lambda>x. node_name x = q) ?ks = first_index (\<lambda>x. node_name x = q) ks"
        using first_index_map [of node_name q] by metis
      obtain j where j: "first_index (\<lambda>x. node_name x = q) ks = Some j" "?ks ! j = y"
        using y(1) same by (auto simp: find_first_index)
      then have "lookup qr (ks ! j) \<noteq> None"
        using Cons.IH [of "ks ! i" qr] y(2) k(2) g by (cases "j = i") (auto simp: list_all_length)
      with j Cons k show ?thesis by (simp add: find_first_index)
    qed simp
  qed (use Cons.prems in \<open>auto split: fbody.splits if_splits\<close>)
qed (use assms(1) in simp)

lemma find_SomeD: "find P xs = Some z \<Longrightarrow> z \<in> set xs \<and> P z"
  by (induction xs) (auto split: if_splits)

lemma remove1_shrinks:
  assumes "good x" "lookup qs (map_kids (remove1 y) x) \<noteq> None"
  shows "lookup qs x \<noteq> None"
proof (cases qs)
  case (Cons q qr)
  show ?thesis
  proof (cases "body x")
    case (Kids ks)
    have d: "distinct (map node_name ks)" using good_kids [OF assms(1) Kids] by simp
    obtain z where z: "find (\<lambda>k. node_name k = q) (remove1 y ks) = Some z" "lookup qr z \<noteq> None"
      using assms(2) Cons Kids by (auto simp: map_kids_def split: option.splits)
    then have "z \<in> set ks" "node_name z = q"
      using find_SomeD [OF z(1)] set_remove1_subset [of y ks] by auto
    then have "find (\<lambda>k. node_name k = q) ks = Some z"
      using d by (induction ks) auto
    with z(2) Cons Kids show ?thesis by simp
  qed (use assms(2) Cons in \<open>simp add: map_kids_def\<close>)
qed simp

lemma remove_child_shrinks:
  assumes "good (vf_tree vf)" "lookup qs (vf_tree vf) = None"
  shows "lookup qs (vf_tree (snd (remove_child d x vf))) = None"
proof -
  have "lookup qs (update_at (map_kids (remove1 x)) l (vf_tree vf)) = None" for l
  proof (rule ccontr)
    assume "lookup qs (update_at (map_kids (remove1 x)) l (vf_tree vf)) \<noteq> None"
    with assms lookup_shrinks [OF _ _ assms(1), of "map_kids (remove1 x)" qs l] remove1_shrinks show False by auto
  qed
  with assms(2) show ?thesis
    by (auto simp: remove_child_def split: sum.split fbody.split)
qed

lemma getfile_result_good:
  assumes "good (vf_tree vf)" "file_at follow path vf = Inr (Some (l, x))"
  shows "good x"
proof -
  obtain n where n: "vf_depth vf = Suc n" using assms(2) by (cases "vf_depth vf") auto
  show ?thesis
  proof (cases "path = [47]")
    case False
    let ?ps = "split_on 47 (strip_slash path)"
    from False n assms(2)
    have "walk (getfile n (vf_tree vf) follow) follow (last ?ps) ?ps ([], vf_tree vf) = Inr (Some (l, x))"
      by (simp add: Let_def)
    then have "locate ?ps (vf_tree vf) = Some (l, x)"
      using walk_good [of "([], vf_tree vf)"] assms(1) by fastforce
    then show ?thesis using locate_good [OF assms(1)] by blast
  qed (use assms n in auto)
qed

lemma rename_ok:
  assumes "vfs_ok vf" "proper_path q"
  shows "vfs_ok (snd (rename p q vf))"
proof (cases "\<exists>l old. file_at True p vf = Inr (Some (l, old)) \<and> file_at True q vf = Inr None")
  case True
  then obtain l old where o: "file_at True p vf = Inr (Some (l, old))" "file_at True q vf = Inr None" by blast
  obtain r vf1 where rc: "remove_child (dirname p) old vf = (r, vf1)" by (cases "remove_child (dirname p) old vf")
  obtain ds nm where q: "list_all plain_piece ds" "plain_piece nm" "q = abs_path (ds @ [nm])"
    using assms(2) by (auto simp: proper_path_def)
  have g: "good (vf_tree vf)" using assms(1) by (simp add: vfs_ok_def)
  have ok1: "vfs_ok vf1" using remove_child_ok [OF assms(1), of "dirname p" old] rc by simp
  then have g1: "good (vf_tree vf1)" by (simp add: vfs_ok_def)
  have none: "lookup (ds @ [nm]) (vf_tree vf1) = None"
    using remove_child_shrinks [OF g getfile_None [OF g _ o(2) [unfolded q(3)]], of "dirname p" old] q rc by simp
  have "good (FNode ((attr old)\<lparr>a_name := nm\<rparr>) (body old))"
    using getfile_result_good [OF g o(1)] by (cases old; cases "body old") (auto simp: good_def)
  then have "good (update_at (map_kids (\<lambda>ks. ks @ [FNode ((attr old)\<lparr>a_name := nm\<rparr>) (body old)])) k (vf_tree vf1))"
    if "locate ds (vf_tree vf1) = Some (k, d)" for k d
    using append_ok [OF g1 that none] by simp
  then show ?thesis
    using o rc ok1 dir_of_path [OF g1 q(1,2)] path_parts(1) [OF q(1,2)]
    by (auto simp: rename_def vfs_ok_def q(3) split: sum.split option.split fbody.split)
next
  case False
  then show ?thesis using assms(1) by (auto simp: rename_def split: sum.split option.split)
qed

interpretation tree: invariant_machine vfs_step vfs_ok proper_op
proof
  fix vf op assume ok: "vfs_ok vf" "proper_op op"
  then show "vfs_ok (vfs_step op vf)"
  proof (cases op)
    case (OpRemove p)
    then show ?thesis
      using ok remove_child_ok by (auto simp: vfs_remove_def split: sum.split option.split)
  qed (simp_all add: mkfile_ok mkdir2_ok rmdir_ok rename_ok attr_ops_ok)
qed


section \<open>Links\<close>

lemma walk_no_link:
  assumes "\<And>t q. rec t = Inr (Some q) \<Longrightarrow> a_type (attr (snd q)) \<noteq> T_LINK" "a_type (attr (snd e)) \<noteq> T_LINK"
    and "walk rec True lst ps e = Inr (Some r)"
  shows "a_type (attr (snd r)) \<noteq> T_LINK"
proof -
  have pick: "a_type (attr (snd q)) \<noteq> T_LINK" if "pick rec False xs d = Inr (Some q)" "a_type (attr (snd d)) \<noteq> T_LINK" for xs d q
    using that
  proof (induction xs arbitrary: d)
    case (Cons x xs)
    show ?case
    proof (cases "a_type (attr (snd x)) = T_LINK")
      case True
      with Cons.prems(1) obtain t q' where "rec t = Inr (Some q')" "pick rec False xs q' = Inr (Some q)"
        by (auto simp: rbind_eq_Inr split: option.splits list.splits)
      with Cons.IH [of q'] assms(1) show ?thesis by blast
    next
      case False
      with Cons.prems(1) Cons.IH [of x] show ?thesis by simp
    qed
  qed simp
  show ?thesis
    using assms(2,3)
  proof (induction ps arbitrary: e)
    case (Cons p ps)
    then obtain ks d where "pick rec False ks e = Inr (Some d)" "walk rec True lst ps d = Inr (Some r)"
      by (auto simp: rbind_eq_Inr split: fbody.splits if_splits option.splits)
    with Cons.IH [of d] pick Cons.prems(1) show ?case by blast
  qed simp
qed

text \<open>
  Nothing is ever a link to the shell: the test looks at the object after following the links.
\<close>

lemma getfile_no_link:
  "a_type (attr t) \<noteq> T_LINK \<Longrightarrow> getfile n t True path = Inr (Some r) \<Longrightarrow> a_type (attr (snd r)) \<noteq> T_LINK"
proof (induction n arbitrary: path r)
  case (Suc n)
  show ?case
  proof (cases "path = [47]")
    case False
    with Suc.prems(2) have "walk (getfile n t True) True (last (split_on 47 (strip_slash path)))
        (split_on 47 (strip_slash path)) ([], t) = Inr (Some r)" by (simp add: Let_def)
    then show ?thesis
      by (rule walk_no_link [rotated 2]) (use Suc.IH Suc.prems(1) in simp_all)
  qed (use Suc.prems in auto)
qed simp

lemma islink_never: "a_type (attr (vf_tree vf)) \<noteq> T_LINK \<Longrightarrow> \<not> islink path vf"
  by (auto simp: islink_def has_type_def dest: getfile_no_link split: sum.splits option.splits)

section \<open>The other reader of the tree\<close>

lemma find_parts_good: "good x \<Longrightarrow> find_parts rec ps x = Inr (lookup ps x)"
proof (induction ps arbitrary: x)
  case (Cons p ps)
  show ?case
  proof (cases "body x")
    case (Kids ks)
    have "good m" if "find (\<lambda>c. node_name c = p) ks = Some m" for m
      using find_SomeD [OF that] good_kids [OF Cons.prems Kids] by (auto simp: list_all_iff)
    with Kids Cons good_type [OF Cons.prems] show ?thesis by (auto split: option.split)
  qed (use good_type [OF Cons.prems] in simp)
qed (simp add: good_type)

text \<open>
  The banner and password readers find the file the shell shows, and only files with stored bytes.
\<close>

lemma read_file_exact:
  assumes "good t" "list_all plain_piece ps"
  shows "read_file t (abs_path ps) = Inr bs \<longleftrightarrow>
    (\<exists>x. lookup ps t = Some x \<and> a_type (attr x) = T_FILE \<and> body x = Data bs)"
proof -
  have "filter (\<lambda>p. p \<noteq> []) (split_on 47 (abs_path ps)) = ps"
    using assms(2) by (auto simp: split_abs_path plain_piece_def list_all_iff filter_id_conv)
  then have "honeyfs_find (Suc MAX_SYMLINK_DEPTH) t (abs_path ps) = Inr (lookup ps t)"
    using find_parts_good [OF assms(1)] by simp
  then show ?thesis
    by (auto simp: read_file_def split: option.split fbody.split)
qed

section \<open>Where the code goes wrong\<close>

definition node_of :: "string \<Rightarrow> ftype \<Rightarrow> pystr option \<Rightarrow> fbody \<Rightarrow> fnode" where
  "node_of nm ty target b =
     FNode \<lparr>a_name = u nm, a_type = ty, a_uid = 0, a_gid = 0, a_size = 0, a_mode = 0, a_ctime = 0,
            a_target = target, a_realfile = None\<rparr> b"

abbreviation root_of :: "fnode list \<Rightarrow> fnode" where
  "root_of ks \<equiv> node_of ''/'' T_DIR None (Kids ks)"

definition vfs_of :: "fnode \<Rightarrow> vfs" where
  "vfs_of t = \<lparr>vf_tree = t, vf_newcount = 0, vf_home = u ''/root'', vf_depth = 9\<rparr>"

text \<open>A link to itself is followed until the interpreter gives up, however many calls it allows.\<close>

lemma link_loop_recurses:
  "getfile n (root_of [node_of ''a'' T_LINK (Some (u ''/a'')) (Kids [])]) True (u ''/a'') = Inl FsRecursionError"
proof (induction n)
  case (Suc n)
  have "split_on 47 (strip_slash (u ''/a'')) = [u ''a'']" "u ''/a'' \<noteq> [47]" by code_simp+
  with Suc show ?case by (simp add: node_of_def named_def u_def)
qed simp

text \<open>A relative link is looked up from the root.\<close>

lemma relative_link_from_root:
  "getfile 9 (root_of [node_of ''d'' T_DIR None (Kids [node_of ''x'' T_FILE None (Data [1]),
       node_of ''l'' T_LINK (Some (u ''x'')) (Kids [])])]) True (u ''/d/l'') = Inr None"
  by code_simp

text \<open>With a name twice in a directory the two lookups disagree: one takes the last, the other the first.\<close>

lemma duplicate_names_disagree:
  "let t = root_of [node_of ''d'' T_DIR None (Kids []), node_of ''d'' T_FILE None (Data [1])] in
   getfile 9 t True (u ''/d'') = Inr (Some ([1], node_of ''d'' T_FILE None (Data [1]))) \<and>
   get_path 9 t True (u ''/d'') = Inr ([0], node_of ''d'' T_DIR None (Kids []))"
  by code_simp

text \<open>Renaming into a directory that is not there fails and loses the file.\<close>

lemma rename_loses_file:
  "let t = root_of [node_of ''a'' T_FILE None (Data [1])]; (r, vf) = rename (u ''/a'') (u ''/x/b'') (vfs_of t) in
   r = Inl FsNotFound \<and> vf_tree vf = root_of []"
  by code_simp

text \<open>A trailing slash makes a directory without a name.\<close>

lemma trailing_slash_empty_name:
  "let (r, vf) = mkdir (u ''/a/'') 0 0 0 0 0 (vfs_of (root_of [])) in
   r = Inr () \<and> listdir (u ''/'') vf = Inr [[]]"
  by code_simp

text \<open>Looking below a file with contents raises instead of finding nothing.\<close>

lemma below_file_raises:
  "exists (u ''/a/b'') (vfs_of (root_of [node_of ''a'' T_FILE None (Data [1])])) = Inl FsTypeError"
  by code_simp

section \<open>Witnesses\<close>

theorem resolve_path_canonical_witness:
  "resolve_path (u ''/root'') (u ''../b/./c'') (u ''/a'') = Inr (u ''/b/c'') \<and> canonical (u ''/b/c'')"
proof -
  have r: "resolve_path (u ''/root'') (u ''../b/./c'') (u ''/a'') = Inr (u ''/b/c'')" by code_simp
  have "list_all plain_piece [u ''a''] \<and> u ''/a'' = abs_path [u ''a'']"
    by (simp add: plain_piece_def u_def abs_path_def)
  then have "canonical (u ''/a'')" unfolding canonical_def by blast
  from resolve_path_canonical [OF this, of "u ''/root''" "u ''../b/./c''"] r show ?thesis by blast
qed

definition demo_tree :: fnode where
  "demo_tree = root_of [node_of ''d'' T_DIR None (Kids [node_of ''x'' T_FILE None (Data [1])])]"

lemma demo_tree_good: "good demo_tree"
  by (simp add: good_def demo_tree_def node_of_def)

lemma demo_pieces: "plain_piece (u ''d'')" "plain_piece (u ''x'')" "plain_piece (u ''y'')"
  by (simp_all add: plain_piece_def u_def)

theorem lookups_agree_witness:
  "\<exists>l x. getfile 1 demo_tree True (u ''/d/x'') = Inr (Some (l, x)) \<and> get_path 0 demo_tree True (u ''/d/x'') = Inr (l, x) \<and>
     body x = Data [1]"
proof -
  have p: "u ''/d/x'' = abs_path [u ''d'', u ''x'']" by (simp add: abs_path_def u_def)
  have l: "locate [u ''d'', u ''x''] demo_tree = Some ([0, 0], node_of ''x'' T_FILE None (Data [1]))" by code_simp
  have "body (node_of ''x'' T_FILE None (Data [1])) = Data [1]" by (simp add: node_of_def)
  then show ?thesis
    using lookups_agree [OF demo_tree_good, of "[u ''d'', u ''x'']" 0 True 0 True] l demo_pieces
    unfolding p by (intro exI) auto
qed

theorem mkfile_creates_witness:
  "\<exists>vf'. mkfile (u ''/d/y'') 0 0 5 420 1 (vfs_of demo_tree) = (Inr True, vf') \<and>
     lookup [u ''d'', u ''y''] (vf_tree vf') = Some (new_node (u ''y'') T_FILE 0 0 5 420 1) \<and>
     map_option attr (lookup [u ''d'', u ''x''] (vf_tree vf')) = map_option attr (lookup [u ''d'', u ''x''] demo_tree)"
proof -
  have p: "u ''/d/y'' = abs_path ([u ''d''] @ [u ''y''])" by (simp add: abs_path_def u_def)
  obtain r vf' where m: "mkfile (u ''/d/y'') 0 0 5 420 1 (vfs_of demo_tree) = (r, vf')"
    by (cases "mkfile (u ''/d/y'') 0 0 5 420 1 (vfs_of demo_tree)")
  have "fst (mkfile (u ''/d/y'') 0 0 5 420 1 (vfs_of demo_tree)) = Inr True" by code_simp
  with m have m': "mkfile (u ''/d/y'') 0 0 5 420 1 (vfs_of demo_tree) = (Inr True, vf')" by simp
  have g: "good (vf_tree (vfs_of demo_tree))" by (simp add: vfs_of_def demo_tree_good)
  have d: "list_all plain_piece [u ''d'']" using demo_pieces by simp
  have "\<not> prefix ([u ''d''] @ [u ''y'']) [u ''d'', u ''x'']" by (simp add: u_def)
  with mkfile_creates [OF g d demo_pieces(3) m' [unfolded p]]
  have "lookup [u ''d'', u ''y''] (vf_tree vf') = Some (new_node (u ''y'') T_FILE 0 0 5 420 1)"
    "map_option attr (lookup [u ''d'', u ''x''] (vf_tree vf')) =
      map_option attr (lookup [u ''d'', u ''x''] (vf_tree (vfs_of demo_tree)))"
    by (simp_all del: lookup.simps)
  with m' show ?thesis by (simp add: vfs_of_def del: lookup.simps)
qed

definition demo_ops :: "fs_op list" where
  "demo_ops = [OpMkdir (u ''/y'') 1, OpRename (u ''/d/x'') (u ''/y/x''), OpRmdir (u ''/d'')]"


end
