(* ===== verification/Py_Getopt.thy ===== *)
theory Py_Getopt
  imports Py_Prelude
begin

text \<open>
  The module \<^verbatim>\<open>getopt\<close> of Python's standard library, which the emulated commands parse their arguments
  with (as of version 3.13, without the environment variable \<^verbatim>\<open>POSIXLY_CORRECT\<close>).  An error carries the
  option it is about, the attribute \<^verbatim>\<open>opt\<close> of \<^verbatim>\<open>GetoptError\<close>.
\<close>

type_synonym opts = "(pystr \<times> pystr) list"

fun short_has_arg :: "int \<Rightarrow> pystr \<Rightarrow> bool option" where
  "short_has_arg c [] = None"
| "short_has_arg c (x # xs) = (if c = x \<and> x \<noteq> 58 then Some (startswith xs [58]) else short_has_arg c xs)"

fun do_shorts :: "pystr \<Rightarrow> pystr \<Rightarrow> pystr list \<Rightarrow> pystr + opts \<times> pystr list" where
  "do_shorts sopts [] args = Inr ([], args)"
| "do_shorts sopts (c # cs) args =
     (case short_has_arg c sopts of
        None \<Rightarrow> Inl [c]
      | Some False \<Rightarrow> rbind (do_shorts sopts cs args) (\<lambda>(os, as). Inr (([45, c], []) # os, as))
      | Some True \<Rightarrow>
          if cs \<noteq> [] then Inr ([([45, c], cs)], args)
          else (case args of [] \<Rightarrow> Inl [c] | a # as \<Rightarrow> Inr ([([45, c], a)], as)))"

definition long_has_args :: "pystr \<Rightarrow> pystr list \<Rightarrow> pystr + bool \<times> pystr" where
  "long_has_args opt lopts =
     (let possible = filter (\<lambda>o'. startswith o' opt) lopts in
      if possible = [] then Inl opt
      else if opt \<in> set possible then Inr (False, opt)
      else if opt @ [61] \<in> set possible then Inr (True, opt)
      else if 1 < length possible then Inl opt
      else let m = hd possible in if endswith m [61] then Inr (True, butlast m) else Inr (False, m))"

definition do_longs :: "pystr list \<Rightarrow> pystr \<Rightarrow> pystr list \<Rightarrow> pystr + opts \<times> pystr list" where
  "do_longs lopts opt0 args =
     (case split1 61 opt0 of (opt, optarg) \<Rightarrow>
        rbind (long_has_args opt lopts) (\<lambda>(has_arg, name).
          case (has_arg, optarg) of
            (True, None) \<Rightarrow> (case args of [] \<Rightarrow> Inl name | a # as \<Rightarrow> Inr ([(45 # 45 # name, a)], as))
          | (True, Some v) \<Rightarrow> Inr ([(45 # 45 # name, v)], args)
          | (False, Some v) \<Rightarrow> Inl name
          | (False, None) \<Rightarrow> Inr ([(45 # 45 # name, [])], args)))"

lemma do_shorts_length: "do_shorts sopts cs args = Inr (os, as) \<Longrightarrow> length as \<le> length args"
  by (induction cs arbitrary: os as) (auto simp: rbind_eq_Inr split: option.splits bool.splits list.splits if_splits)

lemma do_longs_length: "do_longs lopts opt args = Inr (os, as) \<Longrightarrow> length as \<le> length args"
  by (auto simp: do_longs_def rbind_eq_Inr split: prod.splits option.splits bool.splits list.splits)

lemma options_length:
  "(if b then do_longs lopts opt as else do_shorts sopts cs as) = Inr (os, rest) \<Longrightarrow> length rest < Suc (length as)"
  by (auto split: if_splits dest: do_longs_length do_shorts_length)

lemma rbind_cong [fundef_cong]: "m = m' \<Longrightarrow> (\<And>x. m' = Inr x \<Longrightarrow> f x = f' x) \<Longrightarrow> rbind m f = rbind m' f'"
  by (cases m') auto

function getopt :: "pystr list \<Rightarrow> pystr \<Rightarrow> pystr list \<Rightarrow> pystr + opts \<times> pystr list" where
  "getopt [] sopts lopts = Inr ([], [])"
| "getopt (a # as) sopts lopts =
     (if \<not> startswith a (u ''-'') \<or> a = u ''-'' then Inr ([], a # as)
      else if a = u ''--'' then Inr ([], as)
      else rbind (if startswith a (u ''--'') then do_longs lopts (drop 2 a) as else do_shorts sopts (drop 1 a) as) (\<lambda>(os, rest).
             rbind (getopt rest sopts lopts) (\<lambda>(os', args). Inr (os @ os', args))))"
  by pat_completeness auto
termination by (relation "measure (\<lambda>(as, s, l). length as)") (auto dest: options_length)

function gnu_getopt :: "pystr list \<Rightarrow> pystr \<Rightarrow> pystr list \<Rightarrow> pystr + opts \<times> pystr list" where
  "gnu_getopt [] sopts lopts = Inr ([], [])"
| "gnu_getopt (a # as) sopts lopts =
     (if a = u ''--'' then Inr ([], as)
      else if \<not> startswith a (u ''-'') \<or> a = u ''-'' then
        rbind (gnu_getopt as sopts lopts) (\<lambda>(os, args). Inr (os, a # args))
      else rbind (if startswith a (u ''--'') then do_longs lopts (drop 2 a) as else do_shorts sopts (drop 1 a) as) (\<lambda>(os, rest).
             rbind (gnu_getopt rest sopts lopts) (\<lambda>(os', args). Inr (os @ os', args))))"
  by pat_completeness auto
termination by (relation "measure (\<lambda>(as, s, l). length as)") (auto dest: options_length)

declare getopt.simps [simp del] gnu_getopt.simps [simp del]

lemmas getopt_eval [py_eval] = long_has_args_def do_longs_def getopt.simps gnu_getopt.simps

text \<open>The operands are some of the arguments, in their order; without options they are all of them.\<close>

lemma do_shorts_subseq: "do_shorts sopts cs args = Inr (os, as) \<Longrightarrow> subseq as args"
  by (induction cs arbitrary: os as) (auto simp: rbind_eq_Inr split: option.splits bool.splits list.splits if_splits)

lemma do_longs_subseq: "do_longs lopts opt args = Inr (os, as) \<Longrightarrow> subseq as args"
  by (auto simp: do_longs_def rbind_eq_Inr split: prod.splits option.splits bool.splits list.splits)

lemma gnu_getopt_subseq: "gnu_getopt as sopts lopts = Inr (os, args) \<Longrightarrow> subseq args as"
proof (induction as sopts lopts arbitrary: os args rule: gnu_getopt.induct)
  case (2 a as sopts lopts)
  show ?case
  proof (cases "a = u ''--'' \<or> \<not> startswith a (u ''-'') \<or> a = u ''-''")
    case True
    with 2 show ?thesis by (subst (asm) gnu_getopt.simps) (auto simp: rbind_eq_Inr split: if_splits)
  next
    case False
    then obtain o1 rest o2 where r: "(if startswith a (u ''--'') then do_longs lopts (drop 2 a) as else do_shorts sopts (drop 1 a) as) = Inr (o1, rest)"
        "gnu_getopt rest sopts lopts = Inr (o2, args)"
      using 2(3) by (subst (asm) (1) gnu_getopt.simps) (auto simp: rbind_eq_Inr split: if_splits)
    have "subseq rest as" using r(1) by (auto split: if_splits dest: do_longs_subseq do_shorts_subseq)
    moreover have "subseq args rest" using 2(2) [OF _ _ r(1) _ r(2)] False by blast
    ultimately show ?thesis by (meson subseq_Cons' subseq_order.order_trans subseq_order.dual_order.trans list_emb_Cons)
  qed
qed (simp add: gnu_getopt.simps)

lemma gnu_getopt_plain: "list_all (\<lambda>a. \<not> startswith a (u ''-'')) as \<Longrightarrow> gnu_getopt as sopts lopts = Inr ([], as)"
proof (induction as)
  case (Cons a as)
  then have "a \<noteq> u ''--''" by (auto simp: startswith_def u_def)
  with Cons show ?case by (simp add: gnu_getopt.simps)
qed (simp add: gnu_getopt.simps)

end
