(* ===== verification/Fs_Commands.thy ===== *)
theory Fs_Commands
  imports Virtual_Fs Py_Getopt Py_Effect Py_Bytes Py_Dyn
begin

text \<open>
  \<^verbatim>\<open>sensor/cowrie/src/cowrie/commands/fs.py\<close>: the emulated commands over the file system of \<open>Virtual_Fs\<close>, with
  what they use of \<^verbatim>\<open>HoneyPotCommand\<close> in \<^verbatim>\<open>shell/command.py\<close>.  A command is an operation on the state of its
  session; what it writes is kept in order.  Leaving a command takes it off the stack of running
  commands, of which the model keeps whether this command is on it and how many are below.  The
  texts written are made from what the shell decoded itself, so encoding them does not fail.  The
  command mv is not here: it puts one object into two directories before it takes it out of the
  first.
\<close>

section \<open>The session\<close>

datatype shell_output = Out_text pystr | Out_bytes bytes | Err_text pystr | Usage pystr

record shell =
  sh_fs :: vfs
  sh_cwd :: pystr
  sh_home :: pystr
  sh_uid :: int
  sh_gid :: int
  sh_now :: rat
  sh_input :: "bytes option"     \<comment> \<open>what the command before in a pipeline wrote\<close>
  sh_out :: "shell_output list"
  sh_running :: bool             \<comment> \<open>whether this command is on the stack\<close>
  sh_below :: nat                \<comment> \<open>the others on it\<close>

type_synonym 'a cmd = "(fs_error, shell, 'a) eff_of"

definition emit :: "shell_output \<Rightarrow> unit cmd" where
  "emit x s = (Inr (), s\<lparr>sh_out := sh_out s @ [x]\<rparr>)"

definition say :: "pystr \<Rightarrow> unit cmd" where
  "say t = emit (Out_text (t @ [10]))"

definition complain :: "pystr \<Rightarrow> unit cmd" where
  "complain t = emit (Err_text (t @ [10]))"

definition ask :: "(vfs \<Rightarrow> fs_error + 'a) \<Rightarrow> 'a cmd" where
  "ask q s = (q (sh_fs s), s)"

text \<open>A query inside \<^verbatim>\<open>try\<close>: its exception is a value.\<close>

definition attempt :: "(vfs \<Rightarrow> fs_error + 'a) \<Rightarrow> (fs_error + 'a) cmd" where
  "attempt q s = (Inr (q (sh_fs s)), s)"

definition on_fs :: "'a fsop \<Rightarrow> 'a cmd" where
  "on_fs m s = (case m (sh_fs s) of (r, vf) \<Rightarrow> (r, s\<lparr>sh_fs := vf\<rparr>))"

definition resolv :: "pystr \<Rightarrow> pystr cmd" where
  "resolv p s = (resolve_path (vf_home (sh_fs s)) p (sh_cwd s), s)"

definition get_cwd :: "pystr cmd" where
  "get_cwd s = (Inr (sh_cwd s), s)"

definition cmd_exit :: "unit cmd" where
  "cmd_exit s =
     (if sh_running s then (Inr (), s\<lparr>sh_running := False\<rparr>)
      else if 0 < sh_below s then (Inl FsValueError, s)
      else (Inr (), s))"

text \<open>\<^verbatim>\<open>HoneyPotCommand.start\<close>.\<close>

definition start_call :: "unit cmd \<Rightarrow> unit cmd" where
  "start_call call = ebind call (\<lambda>_. cmd_exit)"

fun check_arguments :: "pystr \<Rightarrow> pystr list \<Rightarrow> pystr list cmd" where
  "check_arguments app [] = eret []"
| "check_arguments app (arg # args) =
     ebind (resolv arg) (\<lambda>path.
     ebind (ask (\<lambda>vf. Inr (isdir path vf))) (\<lambda>dir.
       if dir
       then ebind (complain (app @ u '': error reading `'' @ arg @ [39] @ u '': Is a directory'')) (\<lambda>_. check_arguments app args)
       else ebind (check_arguments app args) (\<lambda>fs. eret (path # fs))))"

section \<open>cd, pwd, mkdir, rmdir, touch\<close>

definition find_for_cd :: "pystr \<Rightarrow> shell \<Rightarrow> (pystr \<times> fnode) option" where
  "find_for_cd pname s =
     (case fst (resolv pname s) of
        Inl _ \<Rightarrow> None
      | Inr newpath \<Rightarrow>
          (case file_at True newpath (sh_fs s) of
             Inr (Some (_, x)) \<Rightarrow> Some (newpath, x)
           | _ \<Rightarrow> None))"

definition command_cd :: "pystr list \<Rightarrow> unit cmd" where
  "command_cd args s =
     (let pname = (case args of [] \<Rightarrow> sh_home s | a # _ \<Rightarrow> if a = u ''~'' then sh_home s else a) in
      if pname = u ''-'' then complain (u ''bash: cd: OLDPWD not set'') s
      else case find_for_cd pname s of
             None \<Rightarrow> complain (u ''bash: cd: '' @ pname @ u '': No such file or directory'') s
           | Some (newpath, x) \<Rightarrow>
               if a_type (attr x) \<noteq> T_DIR then complain (u ''bash: cd: '' @ pname @ u '': Not a directory'') s
               else (Inr (), s\<lparr>sh_cwd := newpath\<rparr>))"

definition command_pwd :: "pystr list \<Rightarrow> unit cmd" where
  "command_pwd args = ebind get_cwd say"

text \<open>The loop of mkdir returns in its first round.\<close>

definition command_mkdir :: "pystr list \<Rightarrow> unit cmd" where
  "command_mkdir args =
     (case args of
        [] \<Rightarrow> eret ()
      | f # _ \<Rightarrow>
          ebind (resolv f) (\<lambda>pname.
          ebind (ask (exists pname)) (\<lambda>there.
            if there then complain (u ''mkdir: cannot create directory `'' @ f @ [39] @ u '': File exists'')
            else ecatch (\<lambda>s. on_fs (mkdir pname (sh_uid s) (sh_gid s) 4096 16877 (sh_now s)) s)
                   (\<lambda>e. if e = FsNotFound
                        then Some (complain (u ''mkdir: cannot create directory `'' @ f @ [39] @ u '': No such file or directory''))
                        else None))))"

text \<open>The parent of a resolved path as the commands write it, \<^verbatim>\<open>"/".join(pname.split("/")[:-1])\<close>, and the last part.\<close>

definition parent_of :: "pystr \<Rightarrow> pystr" where
  "parent_of pname = py_join [47] (butlast (split_on 47 pname))"

definition last_part :: "pystr \<Rightarrow> pystr" where
  "last_part pname = last (split_on 47 pname)"

definition not_found :: "fs_error \<Rightarrow> bool" where
  "not_found e \<longleftrightarrow> e = FsIndexError \<or> e = FsNotFound"

definition drop_entry :: "nat list \<Rightarrow> fnode \<Rightarrow> unit cmd" where
  "drop_entry loc x = on_fs (\<lambda>vf. (Inr (), vf\<lparr>vf_tree := update_at (map_kids (remove1 x)) loc (vf_tree vf)\<rparr>))"

text \<open>One argument of rmdir: the answer is whether the loop goes on.\<close>

definition rmdir_one :: "pystr \<Rightarrow> bool cmd" where
  "rmdir_one f =
     (let missing = ebind (complain (u ''rmdir: failed to remove `'' @ f @ [39] @ u '': No such file or directory'')) (\<lambda>_. eret True);
          fname = basename f in
      ebind (resolv f) (\<lambda>pname.
      ebind (attempt (\<lambda>vf. rbind (dir_at pname vf) (\<lambda>(_, d).
              if 0 < body_size (body d) then Inr None
              else rbind (dir_at (parent_of pname) vf) (\<lambda>e. Inr (Some e))))) (\<lambda>r.
        case r of
          Inl e \<Rightarrow> if not_found e then missing else eraise e
        | Inr None \<Rightarrow> ebind (complain (u ''rmdir: failed to remove `'' @ f @ [39] @ u '': Directory not empty'')) (\<lambda>_. eret True)
        | Inr (Some (loc, d)) \<Rightarrow>
            (case body d of
               Data b \<Rightarrow> if b = [] then missing else eraise FsTypeError
             | Kids ks \<Rightarrow>
                 (case find (\<lambda>x. node_name x = fname) ks of
                    None \<Rightarrow> missing
                  | Some x \<Rightarrow>
                      if a_type (attr x) \<noteq> T_DIR
                      then ebind (complain (u ''rmdir: failed to remove '' @ [39] @ f @ [39] @ u '': Not a directory'')) (\<lambda>_. eret False)
                      else ebind (drop_entry loc x) (\<lambda>_. eret True))))))"

fun command_rmdir :: "pystr list \<Rightarrow> unit cmd" where
  "command_rmdir [] = eret ()"
| "command_rmdir (f # fs) = ebind (rmdir_one f) (\<lambda>go_on. if go_on then command_rmdir fs else eret ())"

definition touch_one :: "pystr \<Rightarrow> bool cmd" where
  "touch_one f =
     ebind (resolv f) (\<lambda>pname.
     ebind (ask (exists (dirname pname))) (\<lambda>parent.
       if \<not> parent
       then ebind (complain (u ''touch: cannot touch `'' @ pname @ u ''`: No such file or directory'')) (\<lambda>_. eret False)
       else ebind (ask (exists pname)) (\<lambda>there.
         if there then eret True
         else if list_ex (startswith pname) SPECIAL_PATHS
         then ebind (complain (u ''touch: cannot touch `'' @ pname @ u ''`: Permission denied'')) (\<lambda>_. eret False)
         else ebind (\<lambda>s. on_fs (mkfile pname (sh_uid s) (sh_gid s) 0 33188 (sh_now s)) s) (\<lambda>_. eret True))))"

fun touch_all :: "pystr list \<Rightarrow> unit cmd" where
  "touch_all [] = eret ()"
| "touch_all (f # fs) = ebind (touch_one f) (\<lambda>go_on. if go_on then touch_all fs else eret ())"

definition command_touch :: "pystr list \<Rightarrow> unit cmd" where
  "command_touch args =
     (if args = []
      then ebind (complain (u ''touch: missing file operand'')) (\<lambda>_. complain (u ''Try `touch --help'' @ [39] @ u '' for more information.''))
      else touch_all args)"

section \<open>rm\<close>

text \<open>A fixed text of usage is named by its command.\<close>

definition usage :: "string \<Rightarrow> unit cmd" where
  "usage app = emit (Usage (u app))"

definition rm_param_error :: "unit cmd" where
  "rm_param_error = complain (u ''Try '' @ [39] @ u ''rm --help'' @ [39] @ u '' for more information'')"

text \<open>Recursive, force and verbose; None when help was asked for.\<close>

fun rm_flags :: "opts \<Rightarrow> bool \<times> bool \<times> bool \<Rightarrow> (bool \<times> bool \<times> bool) option" where
  "rm_flags [] fl = Some fl"
| "rm_flags ((o', a) # os) (r, f, v) =
     (if o' \<in> {u ''--recursive'', u ''-r'', u ''-R''} then rm_flags os (True, f, v)
      else if o' \<in> {u ''--force'', u ''-f''} then rm_flags os (r, True, v)
      else if o' \<in> {u ''--verbose'', u ''-v''} then rm_flags os (r, f, True)
      else if o' \<in> {u ''--help'', u ''-h''} then None
      else rm_flags os (r, f, v))"

fun rm_entries :: "bool \<Rightarrow> bool \<Rightarrow> pystr \<Rightarrow> nat list \<Rightarrow> fnode list \<Rightarrow> unit cmd" where
  "rm_entries recursive verbose nm loc [] = eret ()"
| "rm_entries recursive verbose nm loc (x # xs) =
     ebind (if node_name x \<noteq> nm then eret ()
            else if a_type (attr x) = T_DIR \<and> \<not> recursive
            then complain (u ''rm: cannot remove `'' @ node_name x @ [39] @ u '': Is a directory'')
            else ebind (drop_entry loc x) (\<lambda>_.
                   if \<not> verbose then eret ()
                   else if a_type (attr x) = T_DIR then say (u ''removed directory '' @ [39] @ node_name x @ [39])
                   else say (u ''removed '' @ [39] @ node_name x @ [39])))
       (\<lambda>_. rm_entries recursive verbose nm loc xs)"

definition rm_one :: "bool \<Rightarrow> bool \<Rightarrow> bool \<Rightarrow> pystr \<Rightarrow> unit cmd" where
  "rm_one recursive force verbose f =
     ebind (resolv f) (\<lambda>pname.
     ebind (attempt (\<lambda>vf. rbind (dir_at (parent_of pname) vf) (\<lambda>e. rbind (dir_at pname vf) (\<lambda>_. Inr e)))) (\<lambda>r.
       case r of
         Inl e \<Rightarrow>
           if \<not> not_found e then eraise e
           else if force then eret ()
           else complain (u ''rm: cannot remove `'' @ f @ [39] @ u '': No such file or directory'')
       | Inr (loc, d) \<Rightarrow>
           (case body d of
              Kids ks \<Rightarrow> rm_entries recursive verbose (last_part pname) loc ks
            | Data b \<Rightarrow> if b = [] then eret () else eraise FsTypeError)))"

definition command_rm :: "pystr list \<Rightarrow> unit cmd" where
  "command_rm args =
     (if args = [] then ebind (complain (u ''rm: missing operand'')) (\<lambda>_. rm_param_error)
      else case gnu_getopt args (u ''rTfvh'') [u ''help'', u ''recursive'', u ''force'', u ''verbose''] of
             Inl opt \<Rightarrow>
               ebind (complain (u ''rm: invalid option -- '' @ [39] @ opt @ [39])) (\<lambda>_.
               ebind rm_param_error (\<lambda>_. cmd_exit))
           | Inr (os, fs) \<Rightarrow>
               (case rm_flags os (False, False, False) of
                  None \<Rightarrow> usage ''rm''
                | Some (r, f, v) \<Rightarrow> eiter (rm_one r f v) fs))"

section \<open>cp\<close>

definition put_copy :: "nat list \<Rightarrow> pystr \<Rightarrow> fnode \<Rightarrow> unit cmd" where
  "put_copy loc outfile x =
     on_fs (\<lambda>vf. (Inr (), vf\<lparr>vf_tree := update_at (map_kids (\<lambda>ks.
       remove_first (\<lambda>y. node_name y = outfile) ks @ [FNode ((attr x)\<lparr>a_name := outfile\<rparr>) (body x)])) loc (vf_tree vf)\<rparr>))"

definition cp_one :: "bool \<Rightarrow> bool \<Rightarrow> pystr \<Rightarrow> pystr \<Rightarrow> unit cmd" where
  "cp_one recursive to_dir dest src =
     ebind (resolv src) (\<lambda>sp.
     ebind (ask (exists sp)) (\<lambda>there.
       if \<not> there then complain (u ''cp: cannot stat `'' @ src @ [39] @ u '': No such file or directory'')
       else ebind (ask (\<lambda>vf. Inr (isdir sp vf))) (\<lambda>dir.
         if \<not> recursive \<and> dir then complain (u ''cp: omitting directory `'' @ src @ [39])
         else ebind (ask (file_at True sp)) (\<lambda>found.
           case found of
             None \<Rightarrow> eraise FsTypeError
           | Some (_, x) \<Rightarrow>
               ebind (resolv dest) (\<lambda>dp.
               ebind (ask (dir_at (if to_dir then dp else dirname dp))) (\<lambda>(loc, d).
                 case body d of
                   Data b \<Rightarrow> eraise (if b = [] then FsAttributeError else FsTypeError)
                 | Kids _ \<Rightarrow>
                     put_copy loc (if to_dir then basename src else basename (rstrip_if (\<lambda>c. c = 47) dest)) x))))))"

definition cp_checked :: "bool \<Rightarrow> pystr list \<Rightarrow> pystr \<Rightarrow> unit cmd" where
  "cp_checked recursive sources dest =
     ebind (if dest = [] then eraise FsIndexError
            else if last dest = 47
            then ebind (resolv dest) (\<lambda>dp. ebind (ask (exists dp)) (\<lambda>there. eret (\<not> there \<and> \<not> recursive)))
            else eret False) (\<lambda>bad.
       if bad then complain (u ''cp: cannot create regular file `'' @ dest @ [39] @ u '': Is a directory'')
       else ebind (resolv dest) (\<lambda>dp.
            ebind (ask (\<lambda>vf. Inr (isdir dp vf))) (\<lambda>to_dir.
            ebind (if to_dir then eret True else ask (exists (dirname dp))) (\<lambda>parent.
              if \<not> parent
              then complain (u ''cp: cannot create regular file `'' @ dest @ [39] @ u '': No such file or directory'')
              else eiter (cp_one recursive to_dir dest) sources))))"

definition command_cp :: "pystr list \<Rightarrow> unit cmd" where
  "command_cp args =
     (let hint = complain (u ''Try `cp --help'' @ [39] @ u '' for more information.'') in
      case args of
        [] \<Rightarrow> ebind (complain (u ''cp: missing file operand'')) (\<lambda>_. hint)
      | a # _ \<Rightarrow>
          (case gnu_getopt args (u ''-abdfiHlLPpRrsStTuvx'') [] of
             Inl _ \<Rightarrow> complain (u ''Unrecognized option'')
           | Inr (os, fs) \<Rightarrow>
               (let recursive = list_ex (\<lambda>(o', _). o' \<in> {u ''-r'', u ''-a'', u ''-R''}) os in
                if length fs < 2
                then ebind (complain (u ''cp: missing destination file operand after `'' @ a @ [39])) (\<lambda>_. hint)
                else
                  (let sources = butlast fs; dest = last fs in
                   ebind (if 1 < length sources
                          then ebind (resolv dest) (\<lambda>dp. ask (\<lambda>vf. Inr (isdir dp vf)))
                          else eret True) (\<lambda>fine.
                     if \<not> fine then complain (u ''cp: target `'' @ dest @ [39] @ u '' is not a directory'')
                     else cp_checked recursive sources dest)))))"

section \<open>head, tail, grep\<close>

text \<open>
  What the commands take from outside: the contents of files of the host and of the packaged
  binaries, and the compiled form of a pattern, None when it does not
  compile.
\<close>

record cmd_env = ext +
  ce_read :: "pystr \<Rightarrow> fs_error + bytes"
  ce_arch :: "fs_error + bytes"
  ce_re :: "bytes \<Rightarrow> (bytes \<Rightarrow> bool) option"

definition contents_of :: "cmd_env \<Rightarrow> pystr \<Rightarrow> bytes cmd" where
  "contents_of E path = ask (file_contents (ce_read E) (ce_arch E) path)"

text \<open>A text of digits that are not decimal, such as a superscript two, is no number to \<^verbatim>\<open>int\<close>.\<close>

definition count_of :: "cmd_env \<Rightarrow> pystr \<Rightarrow> fs_error + nat" where
  "count_of E s = (case int_of_str E s of Inr n \<Rightarrow> Inr (nat n) | Inl _ \<Rightarrow> Inl FsValueError)"

text \<open>\<^verbatim>\<open>contents.split(b"\n")\<close>.\<close>

fun split_lines :: "bytes \<Rightarrow> bytes list" where
  "split_lines [] = [[]]"
| "split_lines (b # bs) =
     (if b = 10 then [] # split_lines bs
      else case split_lines bs of [] \<Rightarrow> [[b]] | l # ls \<Rightarrow> (b # l) # ls)"

definition head_output :: "nat \<Rightarrow> nat \<Rightarrow> bytes \<Rightarrow> bytes list" where
  "head_output bytecount linecount contents =
     (if bytecount \<noteq> 0 then [take bytecount contents]
      else if linecount \<noteq> 0 then map (\<lambda>l. l @ [10]) (take linecount (split_lines contents))
      else [])"

definition head_application :: "nat \<Rightarrow> nat \<Rightarrow> bytes \<Rightarrow> unit cmd" where
  "head_application bytecount linecount contents = eiter (\<lambda>b. emit (Out_bytes b)) (head_output bytecount linecount contents)"

fun head_options :: "cmd_env \<Rightarrow> opts \<Rightarrow> nat \<times> nat \<Rightarrow> (nat \<times> nat) cmd" where
  "head_options E [] cs = eret cs"
| "head_options E ((o', a) # os) (bytecount, linecount) =
     (if o' = u ''-n'' then
        (if py_isdigit E a then ebind (elift (count_of E a)) (\<lambda>n. head_options E os (0, n))
         else ebind (complain (u ''head: invalid number of lines: `'' @ a @ u ''`'')) (\<lambda>_. head_options E os (bytecount, linecount)))
      else if o' = u ''-c'' then
        (if py_isdigit E a then ebind (elift (count_of E a)) (\<lambda>n. head_options E os (n, 0))
         else ebind (complain (u ''head: invalid number of bytes: `'' @ a @ u ''`'')) (\<lambda>_. head_options E os (bytecount, linecount)))
      else head_options E os (bytecount, linecount))"

definition cannot_open :: "string \<Rightarrow> pystr \<Rightarrow> unit cmd" where
  "cannot_open app path =
     complain (u app @ u '': cannot open `'' @ path @ [39] @ u '' for reading: No such file or directory'')"

definition piped :: "(bytes option) cmd" where
  "piped s = (Inr (case sh_input s of Some [] \<Rightarrow> None | x \<Rightarrow> x), s)"

definition command_head :: "cmd_env \<Rightarrow> pystr list \<Rightarrow> unit cmd" where
  "command_head E args =
     (if args = [] \<or> hd args = u ''>'' then eret ()
      else case getopt args (u ''c:n:'') [] of
             Inl opt \<Rightarrow> ebind (complain (u ''head: invalid option -- '' @ [39] @ opt @ [39])) (\<lambda>_. cmd_exit)
           | Inr (os, fs) \<Rightarrow>
               ebind (head_options E os (0, 10)) (\<lambda>(bytecount, linecount).
               ebind (ebind piped (\<lambda>inp.
                 case inp of
                   Some data \<Rightarrow> head_application bytecount linecount data
                 | None \<Rightarrow>
                     ebind (check_arguments (u ''head'') fs) (eiter (\<lambda>path.
                       ecatch (ebind (contents_of E path) (head_application bytecount linecount))
                         (\<lambda>e. if e = FsNotFound then Some (cannot_open ''head'' path) else None))))) (\<lambda>_. cmd_exit)))"

text \<open>
  The pieces tail writes and whether a line feed follows: from the piece before the last \<open>n\<close> on.
  An index of -1 is the last piece.  The count it leaves for the next file is the first component.
\<close>

definition tail_output :: "nat \<Rightarrow> bytes \<Rightarrow> nat \<times> (bytes \<times> bool) list" where
  "tail_output n contents =
     (let pieces = split_lines contents; lines = length pieces;
          n' = (if lines < n then lines - 1 else n);
          piece = (\<lambda>j. if j < 0 then pieces ! (lines - 1) else pieces ! nat j)
      in (n', map (\<lambda>i. (piece (int lines - int n' - 1 + int i), i < n')) [0..<n' + 1]))"

definition tail_application :: "nat \<Rightarrow> bytes \<Rightarrow> nat cmd" where
  "tail_application n contents =
     (case tail_output n contents of (n', pieces) \<Rightarrow>
        ebind (eiter (\<lambda>(p, nl). ebind (emit (Out_bytes p)) (\<lambda>_. if nl then emit (Out_text [10]) else eret ())) pieces)
          (\<lambda>_. eret n'))"

fun tail_options :: "cmd_env \<Rightarrow> opts \<Rightarrow> nat \<Rightarrow> nat cmd" where
  "tail_options E [] n = eret n"
| "tail_options E ((o', a) # os) n =
     (if o' = u ''-n'' then
        (if py_isdigit E a then ebind (elift (count_of E a)) (tail_options E os)
         else ebind (complain (u ''tail: illegal offset -- '' @ a)) (\<lambda>_. tail_options E os n))
      else tail_options E os n)"

definition command_tail :: "cmd_env \<Rightarrow> pystr list \<Rightarrow> unit cmd" where
  "command_tail E args =
     (if args = [] \<or> hd args = u ''>'' then eret ()
      else case getopt args (u ''n:'') [] of
             Inl opt \<Rightarrow> ebind (complain (u ''tail: invalid option -- '' @ [39] @ opt @ [39])) (\<lambda>_. cmd_exit)
           | Inr (os, fs) \<Rightarrow>
               ebind (tail_options E os 10) (\<lambda>n.
               ebind (ebind piped (\<lambda>inp.
                 case inp of
                   Some data \<Rightarrow> tail_application n data
                 | None \<Rightarrow>
                     ebind (check_arguments (u ''tail'') fs) (\<lambda>paths.
                       efold (\<lambda>path k.
                         ecatch (ebind (contents_of E path) (tail_application k))
                           (\<lambda>e. Some (ebind (cannot_open ''tail'' path) (\<lambda>_. eret k)))) paths n))) (\<lambda>_. cmd_exit)))"

definition grep_application :: "cmd_env \<Rightarrow> bytes \<Rightarrow> pystr \<Rightarrow> unit cmd" where
  "grep_application E contents pat =
     (case utf8_encode (filter (\<lambda>c. c \<noteq> 34) (basename pat)) of
        Inl _ \<Rightarrow> eraise FsUnicodeError
      | Inr bmatch \<Rightarrow>
          (case ce_re E bmatch of
             None \<Rightarrow> eraise FsReError
           | Some search \<Rightarrow> eiter (\<lambda>l. if search l then emit (Out_bytes (l @ [10])) else eret ()) (split_lines contents)))"

definition GREP_SHORT :: pystr where
  "GREP_SHORT = u ''abcDEFGHhIiJLlmnOoPqRSsUVvwxZA:B:C:e:f:''"

definition GREP_LONG :: "pystr list" where
  "GREP_LONG = map u [''binary-files='', ''color='', ''color'', ''context='', ''directories='', ''label'', ''line-buffered'']"

definition command_grep :: "cmd_env \<Rightarrow> pystr list \<Rightarrow> unit cmd" where
  "command_grep E args =
     (case args of
        [] \<Rightarrow> ebind (usage ''grep'') (\<lambda>_. cmd_exit)
      | a # _ \<Rightarrow>
          if a = u ''>'' then eraise FsUnboundLocalError
          else (case getopt args GREP_SHORT GREP_LONG of
                  Inl opt \<Rightarrow>
                    ebind (complain (u ''grep: invalid option -- '' @ opt)) (\<lambda>_. ebind (usage ''grep'') (\<lambda>_. cmd_exit))
                | Inr (os, fs) \<Rightarrow>
                    ebind (eiter (\<lambda>(o', _). if o' = u ''-h'' then usage ''grep'' else eret ()) os) (\<lambda>_.
                    ebind (ebind piped (\<lambda>inp.
                      case inp of
                        Some data \<Rightarrow> (case fs of [] \<Rightarrow> eraise FsIndexError | pat # _ \<Rightarrow> grep_application E data pat)
                      | None \<Rightarrow>
                          ebind (check_arguments (u ''grep'') (drop 1 fs)) (eiter (\<lambda>path.
                            ecatch (ebind (contents_of E path) (\<lambda>c. grep_application E c (hd fs)))
                              (\<lambda>e. Some (complain (u ''grep: '' @ path @ u '': No such file or directory''))))))) (\<lambda>_. cmd_exit))))"

lemmas command_eval [py_eval] = emit_def say_def complain_def ask_def attempt_def on_fs_def resolv_def get_cwd_def cmd_exit_def
  start_call_def find_for_cd_def command_cd_def command_pwd_def command_mkdir_def parent_of_def last_part_def
  not_found_def drop_entry_def rmdir_one_def touch_one_def command_touch_def usage_def rm_param_error_def rm_one_def
  command_rm_def put_copy_def cp_one_def cp_checked_def command_cp_def contents_of_def count_of_def
  head_output_def head_application_def cannot_open_def piped_def command_head_def tail_output_def tail_application_def
  command_tail_def grep_application_def GREP_SHORT_def GREP_LONG_def command_grep_def

section \<open>A session of commands\<close>

datatype command =
    Cd | Pwd | Mkdir | Rmdir | Touch | Rm | Cp | Head | Tail | Grep

fun command_start :: "cmd_env \<Rightarrow> command \<Rightarrow> pystr list \<Rightarrow> unit cmd" where
  "command_start E Cd args = start_call (command_cd args)"
| "command_start E Pwd args = start_call (command_pwd args)"
| "command_start E Mkdir args = start_call (command_mkdir args)"
| "command_start E Rmdir args = start_call (command_rmdir args)"
| "command_start E Touch args = start_call (command_touch args)"
| "command_start E Rm args = start_call (command_rm args)"
| "command_start E Cp args = start_call (command_cp args)"
| "command_start E Head args = command_head E args"
| "command_start E Tail args = command_tail E args"
| "command_start E Grep args = command_grep E args"

text \<open>A command line of the visitor: the command with its arguments and the input piped into it.\<close>

definition run_line :: "cmd_env \<Rightarrow> command \<times> pystr list \<times> bytes option \<Rightarrow> shell \<Rightarrow> shell" where
  "run_line E c s = (case c of (cmd, args, inp) \<Rightarrow> snd (command_start E cmd args (s\<lparr>sh_running := True, sh_input := inp\<rparr>)))"

definition shell_ok :: "shell \<Rightarrow> bool" where
  "shell_ok s \<longleftrightarrow> vfs_ok (sh_fs s) \<and> canonical (sh_cwd s)"

definition kept :: "shell \<Rightarrow> shell \<Rightarrow> bool" where
  "kept s s' \<longleftrightarrow> (shell_ok s \<longrightarrow> shell_ok s')"

interpretation keep: state_order kept
  by unfold_locales (auto simp: kept_def)

lemma keep_view: "(\<And>s. snd (m s) = s) \<Longrightarrow> pres kept m"
  by (simp add: pres_def kept_def)

lemma keep_basic:
  "pres kept (emit x)" "pres kept (say t)" "pres kept (complain t)" "pres kept (ask q)" "pres kept (resolv p)"
  "pres kept get_cwd" "pres kept cmd_exit" "pres kept (usage app)" "pres kept rm_param_error" "pres kept piped"
  "pres kept (cannot_open app p)" "pres kept (contents_of E p)" "pres kept (attempt q')"
  by (auto simp: pres_def kept_def shell_ok_def command_eval)

lemma keep_fs: "(\<And>vf. vfs_ok vf \<Longrightarrow> vfs_ok (snd (m vf))) \<Longrightarrow> pres kept (on_fs m)"
  unfolding pres_def kept_def shell_ok_def on_fs_def by (simp add: split_beta)

lemma keep_drop: "pres kept (drop_entry loc x)"
  unfolding drop_entry_def
proof (rule keep_fs)
  fix vf assume ok: "vfs_ok vf"
  have "good (update_at (map_kids (remove1 x)) loc (vf_tree vf))"
    using ok by (intro good_update_kids)
      (auto simp: vfs_ok_def distinct_map list_all_iff inj_on_def dest: notin_set_remove1 intro: distinct_remove1)
  with ok show "vfs_ok (snd ((\<lambda>vf. (Inr (), vf\<lparr>vf_tree := update_at (map_kids (remove1 x)) loc (vf_tree vf)\<rparr>)) vf))"
    by (simp add: vfs_ok_def)
qed

lemma keep_cd: "pres kept (command_cd args)"
proof (rule presI)
  fix s r s' assume run: "command_cd args s = (r, s')"
  have "canonical q" if "canonical (sh_cwd s)" "find_for_cd p s = Some (q, x)" for p q x
    using that resolve_canonical(1) by (auto simp: find_for_cd_def resolv_def split: sum.splits option.splits)
  with run show "kept s s'"
    by (auto simp: kept_def shell_ok_def command_cd_def complain_def emit_def Let_def split: if_splits option.splits prod.splits)
qed

lemma canonical_proper: "canonical r \<Longrightarrow> r \<noteq> [47] \<Longrightarrow> proper_path r"
proof -
  assume "canonical r" "r \<noteq> [47]"
  then obtain ps where ps: "list_all plain_piece ps" "r = abs_path ps"
    by (auto simp: canonical_def)
  with \<open>r \<noteq> [47]\<close> show "proper_path r" by (cases ps rule: rev_cases) (auto simp: proper_path_def abs_path_def)
qed

lemma keep_mkdir: "pres kept (command_mkdir args)"
proof (cases args)
  case (Cons f fs)
  show ?thesis
  proof (rule presI)
    fix s r s' assume run: "command_mkdir args s = (r, s')"
    let ?mk = "\<lambda>p. on_fs (mkdir p (sh_uid s) (sh_gid s) 4096 16877 (sh_now s)) s"
    have mk: "kept s (snd (?mk p))" if "resolve_path (vf_home (sh_fs s)) f (sh_cwd s) = Inr p" "exists p (sh_fs s) = Inr False" for p
    proof -
      have none: "file_at True p (sh_fs s) = Inr None" using that(2) by (cases "file_at True p (sh_fs s)") (simp_all add: exists_def del: not_None_eq)
      have "p \<noteq> [47]" using none by (cases "vf_depth (sh_fs s)") auto
      then have "vfs_ok (snd (mkdir p (sh_uid s) (sh_gid s) 4096 16877 (sh_now s) (sh_fs s)))" if "shell_ok s"
        using that resolve_canonical(1) [OF _ \<open>resolve_path (vf_home (sh_fs s)) f (sh_cwd s) = Inr p\<close>] mkdir_ok [OF _ canonical_proper none]
        by (simp add: shell_ok_def)
      then show ?thesis by (simp add: kept_def shell_ok_def on_fs_def split_beta)
    qed
    have say: "kept t (snd (complain x t))" for x t using keep_basic(3) [of x] by (simp add: pres_def)
    show "kept s s'"
    proof (cases "\<exists>p. resolve_path (vf_home (sh_fs s)) f (sh_cwd s) = Inr p \<and> exists p (sh_fs s) = Inr False")
      case True
      then obtain p where p: "resolve_path (vf_home (sh_fs s)) f (sh_cwd s) = Inr p" "exists p (sh_fs s) = Inr False" by blast
      obtain v t where v: "?mk p = (v, t)" by fastforce
      have "kept s t" using mk [OF p] v by simp
      moreover have "s' = t \<or> (\<exists>x. s' = snd (complain x t))"
        using run p v by (auto simp: Cons command_mkdir_def ebind_def resolv_def ask_def ecatch_def split: sum.splits if_splits) (metis snd_conv)
      ultimately show ?thesis using say keep.trans by blast
    next
      case False
      then have "s' = s \<or> (\<exists>x. s' = snd (complain x s))"
        using run by (auto simp: Cons command_mkdir_def ebind_def resolv_def ask_def split: sum.splits if_splits) (metis snd_conv)
      then show ?thesis using say keep.refl by blast
    qed
  qed
qed (simp add: command_mkdir_def keep.pres_pure)

lemma pres_view: "(\<And>s. pres R (m s)) \<Longrightarrow> pres R (\<lambda>s. m s s)"
  by (simp add: pres_def)

lemmas keep_rules = keep.pres_pure keep.pres_bind keep.pres_iter keep.pres_fold keep.pres_if keep_basic keep_drop

lemma keep_rmdir: "pres kept (command_rmdir args)"
proof -
  have "pres kept (rmdir_one f)" for f
    unfolding rmdir_one_def Let_def
    by (intro keep.pres_bind keep_basic) (auto simp del: eret_simps intro!: keep_rules split: sum.split option.split prod.split fbody.split)
  then show ?thesis by (induction args) (auto simp del: eret_simps intro!: keep_rules)
qed

lemma keep_touch: "pres kept (command_touch args)"
proof -
  have "pres kept (on_fs (mkfile p a b n m t))" for p a b n m t by (rule keep_fs) (rule mkfile_ok)
  then have "pres kept (\<lambda>s. on_fs (mkfile p (sh_uid s) (sh_gid s) n m (sh_now s)) s)" for p n m by (rule pres_view)
  then have "pres kept (touch_one f)" for f
    unfolding touch_one_def by (intro keep_rules)
  then have "pres kept (touch_all args)" by (induction args) (auto simp del: eret_simps intro!: keep_rules)
  then show ?thesis unfolding command_touch_def by (intro keep_rules)
qed

lemma keep_rm: "pres kept (command_rm args)"
proof -
  have entries: "pres kept (rm_entries r v nm loc xs)" for r v nm loc xs
    by (induction xs) (auto simp del: eret_simps intro!: keep_rules)
  have "pres kept (rm_one r f v p)" for r f v p
    unfolding rm_one_def
    by (intro keep.pres_bind keep_basic) (auto simp del: eret_simps intro!: keep_rules entries split: sum.split prod.split fbody.split)
  then show ?thesis
    unfolding command_rm_def
    by (auto simp del: eret_simps intro!: keep_rules split: sum.split prod.split option.split)
qed

text \<open>A copy of something in a good tree can be put anywhere in it.\<close>

lemma good_renamed: "good x \<Longrightarrow> good (FNode ((attr x)\<lparr>a_name := nm\<rparr>) (body x))"
  by (cases x; cases "body x") (auto simp: good_def)

lemma put_copy_kept: "good x \<Longrightarrow> kept s (snd (put_copy loc nm x s))"
proof -
  assume x: "good x"
  have "pres kept (put_copy loc nm x)"
    unfolding put_copy_def
  proof (rule keep_fs)
    fix vf assume ok: "vfs_ok vf"
    have "good (update_at (map_kids (\<lambda>ks. remove_first (\<lambda>y. node_name y = nm) ks @ [FNode ((attr x)\<lparr>a_name := nm\<rparr>) (body x)])) loc (vf_tree vf))"
      using ok by (intro good_update_kids good_replace) (simp_all add: vfs_ok_def good_renamed [OF x])
    with ok show "vfs_ok (snd ((\<lambda>vf. (Inr (), vf\<lparr>vf_tree := update_at (map_kids (\<lambda>ks.
       remove_first (\<lambda>y. node_name y = nm) ks @ [FNode ((attr x)\<lparr>a_name := nm\<rparr>) (body x)])) loc (vf_tree vf)\<rparr>)) vf))"
      by (simp add: vfs_ok_def)
  qed
  then show ?thesis by (simp add: pres_def)
qed

lemma keep_cp_one: "pres kept (cp_one r to_dir dest src)"
proof (rule presI)
  fix s v s' assume run: "cp_one r to_dir dest src s = (v, s')"
  have say: "kept s (snd (complain x s))" for x using keep_basic(3) [of x] by (simp add: pres_def)
  have "s' = s \<or> (\<exists>x. s' = snd (complain x s)) \<or>
      (\<exists>sp l x loc nm. file_at True sp (sh_fs s) = Inr (Some (l, x)) \<and> s' = snd (put_copy loc nm x s))"
    using run unfolding cp_one_def ebind_def resolv_def ask_def elift_def eraise_def
    by (auto split: sum.splits if_splits option.splits prod.splits fbody.splits) (metis snd_conv)+
  then consider "s' = s" | x where "s' = snd (complain x s)"
    | sp l x loc nm where "file_at True sp (sh_fs s) = Inr (Some (l, x))" "s' = snd (put_copy loc nm x s)" by blast
  then show "kept s s'"
  proof cases
    case (3 sp l x loc nm)
    show ?thesis
    proof (cases "shell_ok s")
      case True
      then have "good x" using getfile_result_good [OF _ 3(1)] by (simp add: shell_ok_def vfs_ok_def)
      then show ?thesis using 3(2) put_copy_kept by simp
    qed (simp add: kept_def)
  qed (use say in \<open>simp_all add: keep.refl\<close>)
qed

lemma keep_cp: "pres kept (command_cp args)"
proof -
  have "pres kept (cp_checked r ss d)" for r ss d
    unfolding cp_checked_def by (intro keep_rules keep_cp_one)
  then show ?thesis
    unfolding command_cp_def Let_def
    by (auto simp del: eret_simps intro!: keep_rules split: list.split sum.split prod.split)
qed

lemma keep_catch: "pres kept m \<Longrightarrow> (\<And>e k. f e = Some k \<Longrightarrow> pres kept k) \<Longrightarrow> pres kept (ecatch m f)"
  by (rule keep.pres_catch)

lemma keep_arguments: "pres kept (check_arguments app args)"
  by (induction args) (auto simp del: eret_simps intro!: keep_rules)

lemma keep_head: "pres kept (command_head E args)"
proof -
  have "pres kept (head_options E os cs)" for os cs
    by (induction E os cs rule: head_options.induct) (auto simp del: eret_simps intro!: keep_rules)
  moreover have "pres kept (head_application a b c)" for a b c
    unfolding head_application_def by (intro keep_rules)
  ultimately show ?thesis
    unfolding command_head_def
    by (auto simp del: eret_simps intro!: keep_rules keep_arguments keep_catch split: sum.split prod.split option.split if_splits)
qed

lemma keep_tail: "pres kept (command_tail E args)"
proof -
  have "pres kept (tail_options E os n)" for os n
    by (induction E os n rule: tail_options.induct) (auto simp del: eret_simps intro!: keep_rules)
  moreover have "pres kept (tail_application n c)" for n c
    unfolding tail_application_def by (auto simp del: eret_simps intro!: keep_rules split: prod.split)
  ultimately show ?thesis
    unfolding command_tail_def
    by (auto simp del: eret_simps intro!: keep_rules keep_arguments keep_catch split: sum.split prod.split option.split)
qed

lemma keep_grep: "pres kept (command_grep E args)"
proof -
  have "pres kept (grep_application E c p)" for c p
    unfolding grep_application_def by (auto simp del: eret_simps intro!: keep_rules split: sum.split option.split)
  then show ?thesis
    unfolding command_grep_def
    by (auto simp del: eret_simps intro!: keep_rules keep_arguments keep_catch split: sum.split prod.split option.split list.split)
qed

lemma run_line_ok: "shell_ok s \<Longrightarrow> shell_ok (run_line E c s)"
proof -
  assume s: "shell_ok s"
  obtain cmd args inp where c: "c = (cmd, args, inp)" by (cases c)
  have "pres kept (command_start E cmd args)"
    by (cases cmd) (auto simp: start_call_def intro!: keep.pres_bind keep_basic(7) keep_cd keep_mkdir keep_rmdir keep_touch
        keep_rm keep_cp keep_head keep_tail keep_grep simp: command_pwd_def keep_basic)
  then have "kept (s\<lparr>sh_running := True, sh_input := inp\<rparr>) (run_line E c s)" by (simp add: pres_def run_line_def c)
  with s show ?thesis by (simp add: kept_def shell_ok_def)
qed

interpretation session: invariant_machine "run_line E" shell_ok "\<lambda>c. True" for E
  by unfold_locales (rule run_line_ok)


section \<open>head and tail\<close>

lemma split_lines_nonempty [simp]: "split_lines c \<noteq> []"
  by (induction c) (auto split: list.splits)

lemma split_lines_join: "concat (map (\<lambda>l. l @ [10]) (split_lines c)) = c @ [10]"
proof (induction c)
  case (Cons b bs)
  obtain l ls where "split_lines bs = l # ls" by (cases "split_lines bs") auto
  with Cons show ?case by auto
qed simp

lemma split_lines_plain: "l \<in> set (split_lines c) \<Longrightarrow> 10 \<notin> set l"
proof (induction c arbitrary: l)
  case (Cons b bs)
  obtain k ks where k: "split_lines bs = k # ks" by (cases "split_lines bs") auto
  with Cons show ?case by (auto split: if_splits)
qed simp

definition newlines :: "bytes \<Rightarrow> nat" where
  "newlines bs = length (filter (\<lambda>b. b = 10) bs)"

lemma newlines_lines: "list_all (\<lambda>l. 10 \<notin> set l) ls \<Longrightarrow> newlines (concat (map (\<lambda>l. l @ [10]) ls)) = length ls"
  by (induction ls) (auto simp: newlines_def filter_empty_conv)

text \<open>
  What head writes is the beginning of the file, with the line feed of its last line supplied, up
  to the number of lines asked for.
\<close>

theorem head_is_prefix:
  assumes "n \<noteq> 0"
  shows "prefix (concat (head_output 0 n c)) (c @ [10]) \<and> newlines (concat (head_output 0 n c)) = min n (newlines c + 1)"
proof -
  let ?ls = "split_lines c"
  have pl: "list_all (\<lambda>l. 10 \<notin> set l) xs" if "set xs \<subseteq> set ?ls" for xs
    using that split_lines_plain by (auto simp: list_all_iff)
  have "concat (map (\<lambda>l. l @ [10]) (take n ?ls)) @ concat (map (\<lambda>l. l @ [10]) (drop n ?ls)) = c @ [10]"
    by (simp add: concat_append [symmetric] map_append [symmetric] split_lines_join del: concat_append map_append)
  then have "prefix (concat (map (\<lambda>l. l @ [10]) (take n ?ls))) (c @ [10])" by (rule prefixI [OF sym])
  moreover have "newlines (c @ [10]) = length ?ls" using newlines_lines [OF pl [of ?ls]] by (simp add: split_lines_join)
  then have "length ?ls = newlines c + 1" by (simp add: newlines_def)
  moreover have "newlines (concat (map (\<lambda>l. l @ [10]) (take n ?ls))) = min n (length ?ls)"
    using newlines_lines [OF pl [of "take n ?ls"]] set_take_subset [of n ?ls] by (simp add: min.commute)
  ultimately show ?thesis using assms by (simp add: head_output_def)
qed

definition tail_text :: "nat \<Rightarrow> bytes \<Rightarrow> bytes" where
  "tail_text n c = concat (map (\<lambda>(p, nl). if nl then p @ [10] else p) (snd (tail_output n c)))"

lemma split_lines_last: "c = concat (map (\<lambda>l. l @ [10]) (butlast (split_lines c))) @ last (split_lines c)"
proof -
  obtain ls l where l: "split_lines c = ls @ [l]" by (cases "split_lines c" rule: rev_cases) auto
  with split_lines_join [of c] show ?thesis by simp
qed

lemma length_split_lines: "length (split_lines c) = newlines c + 1"
proof -
  have "newlines (c @ [10]) = length (split_lines c)"
    using newlines_lines [of "split_lines c"] split_lines_plain [of _ c] by (simp add: split_lines_join list_all_iff)
  then show ?thesis by (simp add: newlines_def)
qed

lemma tail_text_regular:
  assumes "n \<le> newlines c"
  shows "tail_text n c = concat (map (\<lambda>l. l @ [10]) (butlast (drop (newlines c - n) (split_lines c)))) @ last (split_lines c)"
proof -
  let ?ps = "split_lines c" and ?k = "newlines c - n"
  have L: "length ?ps = newlines c + 1" by (rule length_split_lines)
  have idx: "nat (int (newlines c + 1) - int n - 1 + int i) = ?k + i" "\<not> int (newlines c + 1) - int n - 1 + int i < 0" for i
    using assms by auto
  have "\<not> newlines c + 1 < n" using assms by simp
  then have "tail_text n c = concat (map (\<lambda>(p, nl). if nl then p @ [10] else p) (map (\<lambda>i. (?ps ! (?k + i), i < n)) [0..<n + 1]))"
    unfolding tail_text_def tail_output_def Let_def L idx by (simp only: if_False idx snd_conv)
  also have "\<dots> = concat (map (\<lambda>i. ?ps ! (?k + i) @ [10]) [0..<n]) @ ?ps ! (?k + n)"
    by (auto simp: comp_def intro!: arg_cong [where f = concat])
  also have "map (\<lambda>i. ?ps ! (?k + i) @ [10]) [0..<n] = map (\<lambda>l. l @ [10]) (butlast (drop ?k ?ps))"
    using assms L by (intro nth_equalityI) (simp_all add: nth_butlast)
  also have "?ps ! (?k + n) = last ?ps" using assms L by (simp add: last_conv_nth)
  finally show ?thesis .
qed

text \<open>
  When the file has as many lines as asked for, what tail writes is the end of the file from there;
  with more asked for than the file has pieces, it is the whole file.
\<close>

theorem tail_is_suffix:
  "(n \<le> newlines c \<longrightarrow> suffix (tail_text n c) c \<and> newlines (tail_text n c) = n) \<and>
   (newlines c + 1 < n \<longrightarrow> tail_text n c = c)"
proof (intro conjI impI)
  let ?ps = "split_lines c" and ?k = "newlines c - n"
  assume n: "n \<le> newlines c"
  have L: "length ?ps = newlines c + 1" by (rule length_split_lines)
  have "butlast ?ps = take ?k ?ps @ butlast (drop ?k ?ps)"
    using n L by (metis append_take_drop_id butlast_append drop_eq_Nil2 not_less_eq_eq diff_le_self Suc_eq_plus1)
  then have "c = concat (map (\<lambda>l. l @ [10]) (take ?k ?ps)) @ tail_text n c"
    using split_lines_last [of c] by (simp add: tail_text_regular [OF n])
  then show "suffix (tail_text n c) c" by (rule suffixI)
  have pl: "list_all (\<lambda>l. 10 \<notin> set l) (butlast (drop ?k ?ps))" "10 \<notin> set (last ?ps)"
    using split_lines_plain [of _ c] by (auto simp: list_all_iff dest!: in_set_butlastD in_set_dropD)
  have "newlines (last ?ps) = 0" using pl(2) by (auto simp: newlines_def filter_empty_conv)
  with n L show "newlines (tail_text n c) = n"
    using newlines_lines [OF pl(1)] by (simp add: tail_text_regular [OF n] newlines_def)
next
  assume n: "newlines c + 1 < n"
  have "tail_text n c = tail_text (newlines c) c"
    using n by (simp add: tail_text_def tail_output_def Let_def length_split_lines)
  also have "\<dots> = c" using split_lines_last [of c] by (simp add: tail_text_regular)
  finally show "tail_text n c = c" .
qed

text \<open>
  In between, when exactly the number of pieces is asked for, the index runs to -1 and the last
  piece comes first.
\<close>

theorem tail_wraps: "tail_text (newlines c + 1) c = last (split_lines c) @ [10] @ c"
proof -
  let ?ps = "split_lines c" and ?m = "newlines c"
  have L: "length ?ps = ?m + 1" by (rule length_split_lines)
  have "[0..<?m + 1 + 1] = 0 # map Suc [0..<?m + 1]" by (metis Suc_eq_plus1 map_Suc_upt upt_conv_Cons zero_less_Suc)
  then have "tail_text (?m + 1) c = ?ps ! ?m @ [10] @ concat (map (\<lambda>(p, nl). if nl then p @ [10] else p) (map (\<lambda>i. (?ps ! i, i < ?m)) [0..<?m + 1]))"
    by (simp add: tail_text_def tail_output_def Let_def L comp_def del: upt_Suc cong: map_cong)
  also have "concat (map (\<lambda>(p, nl). if nl then p @ [10] else p) (map (\<lambda>i. (?ps ! i, i < ?m)) [0..<?m + 1])) = tail_text ?m c"
    by (simp add: tail_text_def tail_output_def Let_def L)
  also have "tail_text ?m c = c" using split_lines_last [of c] by (simp add: tail_text_regular)
  finally show ?thesis using L by (simp add: last_conv_nth)
qed

section \<open>What rm removes\<close>

lemma parent_dir:
  assumes "good (vf_tree vf)" "list_all plain_piece ds" "plain_piece p"
  shows "dir_at (parent_of (abs_path (ds @ [p]))) vf = (case locate ds (vf_tree vf) of None \<Rightarrow> Inl FsNotFound | Some e \<Rightarrow> Inr e)"
    and "last_part (abs_path (ds @ [p])) = p"
proof -
  have sp: "split_on 47 (abs_path (ds @ [p])) = [] # ds @ [p]" using split_abs_path [of "ds @ [p]"] assms by simp
  then show "last_part (abs_path (ds @ [p])) = p" by (simp add: last_part_def)
  have "parent_of (abs_path (ds @ [p])) = (if ds = [] then [] else abs_path ds)"
    unfolding parent_of_def sp by (cases ds) (simp_all add: abs_path_def)
  then show "dir_at (parent_of (abs_path (ds @ [p]))) vf = (case locate ds (vf_tree vf) of None \<Rightarrow> Inl FsNotFound | Some e \<Rightarrow> Inr e)"
    using get_path_good [OF assms(1,2)] by (simp add: get_path_def split: if_splits)
qed

lemma rm_entries_other: "list_all (\<lambda>x. node_name x \<noteq> nm) xs \<Longrightarrow> rm_entries r v nm loc xs s = (Inr (), s)"
  by (induction xs) (simp_all add: ebind_def)

lemma rm_entries_one:
  assumes "distinct (map node_name ks)" "find (\<lambda>y. node_name y = nm) ks = Some x" "a_type (attr x) \<noteq> T_DIR \<or> r"
  shows "rm_entries r False nm loc ks s =
    (Inr (), s\<lparr>sh_fs := (sh_fs s)\<lparr>vf_tree := update_at (map_kids (remove1 x)) loc (vf_tree (sh_fs s))\<rparr>\<rparr>)"
  using assms(1,2)
proof (induction ks)
  case (Cons y ks)
  show ?case
  proof (cases "node_name y = nm")
    case True
    then have "list_all (\<lambda>x. node_name x \<noteq> nm) ks" using Cons.prems(1) by (auto simp: list_all_iff image_iff)
    with True Cons.prems(2) assms(3) show ?thesis
      by (auto simp: ebind_def drop_entry_def on_fs_def rm_entries_other)
  next
    case False
    with Cons show ?thesis by (simp add: ebind_def)
  qed
qed simp

lemma find_remove1:
  assumes "distinct (map node_name ks)" "find (\<lambda>y. node_name y = nm) ks = Some x"
  shows "find (\<lambda>y. node_name y = nm) (remove1 x ks) = None"
    and "q \<noteq> nm \<Longrightarrow> find (\<lambda>y. node_name y = q) (remove1 x ks) = find (\<lambda>y. node_name y = q) ks"
proof -
  have nm: "node_name x = nm" "x \<in> set ks" using find_SomeD [OF assms(2)] by simp_all
  show "find (\<lambda>y. node_name y = nm) (remove1 x ks) = None"
    using assms(1) nm by (induction ks) (auto simp: find_None_iff image_iff)
  show "q \<noteq> nm \<Longrightarrow> find (\<lambda>y. node_name y = q) (remove1 x ks) = find (\<lambda>y. node_name y = q) ks"
    using nm(1) by (induction ks) auto
qed

lemma lookup_above: "lookup (ds @ qs) t \<noteq> None \<Longrightarrow> lookup ds t \<noteq> None"
  by (induction ds arbitrary: t) (auto split: fbody.splits option.splits)

text \<open>
  A removal takes out what it names and nothing else: when a path leads to a file, or to anything
  with the recursive option, rm is silent, the path then leads nowhere, and every path that does not
  lead through it has the object it had.
\<close>

theorem rm_removes:
  assumes good: "good (vf_tree (sh_fs s))" and path: "list_all plain_piece ds" "plain_piece p"
    and arg: "resolve_path (vf_home (sh_fs s)) f (sh_cwd s) = Inr (abs_path (ds @ [p]))"
    and there: "lookup (ds @ [p]) (vf_tree (sh_fs s)) = Some x" "a_type (attr x) \<noteq> T_DIR \<or> recursive"
  shows "\<exists>s'. rm_one recursive force False f s = (Inr (), s') \<and> sh_out s' = sh_out s \<and>
    lookup (ds @ [p]) (vf_tree (sh_fs s')) = None \<and>
    (\<forall>qs. \<not> prefix (ds @ [p]) qs \<longrightarrow>
       map_option attr (lookup qs (vf_tree (sh_fs s'))) = map_option attr (lookup qs (vf_tree (sh_fs s))))"
proof -
  let ?t = "vf_tree (sh_fs s)"
  have loc: "locate (ds @ [p]) ?t \<noteq> None" using there(1) by (auto simp: lookup_locate)
  have "lookup ds ?t \<noteq> None" by (rule lookup_above [of ds "[p]"]) (simp add: there(1))
  then obtain l d where ld: "locate ds ?t = Some (l, d)" by (auto simp: lookup_locate)
  have old: "lookup (ds @ qs) ?t = lookup qs d" for qs
    using lookup_update [OF ld, of "\<lambda>x. x" qs] by (simp add: update_at_id)
  obtain ks where ks: "body d = Kids ks" "find (\<lambda>y. node_name y = p) ks = Some x"
    using there(1) old [of "[p]"] by (auto split: fbody.splits option.splits)
  have dk: "distinct (map node_name ks)" using good_kids [OF locate_good [OF good ld] ks(1)] by simp
  let ?f = "map_kids (remove1 x)"
  define s' where "s' = s\<lparr>sh_fs := (sh_fs s)\<lparr>vf_tree := update_at ?f l ?t\<rparr>\<rparr>"
  have pl: "list_all plain_piece (ds @ [p])" using path by simp
  have "rm_one recursive force False f s = (Inr (), s')"
    using rm_entries_one [OF dk ks(2) there(2), of l s] parent_dir [OF good path] get_path_good [OF good pl] loc ld ks(1)
    by (auto simp: rm_one_def resolv_def arg attempt_def ebind_def s'_def split: option.splits)
  moreover have upd: "lookup (ds @ qs) (vf_tree (sh_fs s')) = lookup qs (?f d)" for qs
    using lookup_update [OF ld] by (simp add: s'_def)
  have body: "body (?f d) = Kids (remove1 x ks)" using ks(1) by (simp add: map_kids_def)
  have "lookup (ds @ [p]) (vf_tree (sh_fs s')) = None"
    using upd [of "[p]"] body find_remove1(1) [OF dk ks(2)] by simp
  moreover have "map_option attr (lookup qs (vf_tree (sh_fs s'))) = map_option attr (lookup qs ?t)"
    if q: "\<not> prefix (ds @ [p]) qs" for qs
  proof -
    consider (out) "\<not> prefix ds qs" | (dir) "qs = ds" | (sib) q qr where "qs = ds @ q # qr" "q \<noteq> p"
      using prefix_snoc_cases [OF q] by blast
    then show ?thesis
    proof cases
      case out
      then show ?thesis using lookup_update_other [OF ld] by (simp add: s'_def)
    next
      case dir
      then show ?thesis using upd [of "[]"] old [of "[]"] by simp
    next
      case sib
      then show ?thesis using upd [of "q # qr"] old [of "q # qr"] body ks(1) find_remove1(2) [OF dk ks(2) sib(2)] by simp
    qed
  qed
  ultimately show ?thesis by (auto simp: s'_def)
qed

section \<open>Copies are not counted\<close>

fun node_count :: "fnode \<Rightarrow> nat" where
  "node_count (FNode a (Kids ks)) = Suc (sum_list (map node_count ks))"
| "node_count (FNode a (Data b)) = 1"

lemma abs_path_one: "abs_path [p] = 47 # p" "abs_path [] = [47]"
  by (simp_all add: abs_path_def)

text \<open>The whole tree copied to a new name below the root.\<close>

lemma cp_root:
  assumes t: "vf_tree (sh_fs s) = FNode a (Kids ks)" and depth: "vf_depth (sh_fs s) = Suc n"
    and nm: "plain_piece nm" "nm \<notin> node_name ` set ks"
  shows "command_cp [u ''-r'', [47], 47 # nm] s =
    (Inr (), s\<lparr>sh_fs := (sh_fs s)\<lparr>vf_tree := FNode a (Kids (ks @ [FNode (a\<lparr>a_name := nm\<rparr>) (Kids ks)]))\<rparr>\<rparr>)"
proof -
  have c: "nm \<noteq> []" "47 \<notin> set nm" using nm(1) by (auto simp: plain_piece_def)
  then have lst: "last (47 # nm) \<noteq> 47" by (metis last_ConsR last_in_set)
  have opt: "gnu_getopt [u ''-r'', [47], 47 # nm] (u ''-abdfiHlLPpRrsStTuvx'') [] = Inr ([(u ''-r'', [])], [[47], 47 # nm])"
    by (simp add: gnu_getopt.simps startswith_def u_def)
  have pl: "list_all plain_piece [nm]" using nm(1) by simp
  have r0: "resolve_path h [47] cwd = Inr [47]" for h cwd using resolve_abs [of "[]"] by (simp add: abs_path_one)
  have r1: "resolve_path h (47 # nm) cwd = Inr (47 # nm)" for h cwd using resolve_abs [OF pl] by (simp add: abs_path_one)
  have g0: "file_at f [47] (sh_fs s) = Inr (Some ([], FNode a (Kids ks)))" for f by (simp add: depth t)
  have "split_on 47 (strip_slash (47 # nm)) = [nm]"
    using strip_abs_path(1) [OF pl] split_on_notin [OF c(2)] by (simp add: abs_path_one)
  moreover have "named nm [] ks = []" using nm(2) by (auto simp: named_def filter_empty_conv)
  ultimately have g1: "file_at f (47 # nm) (sh_fs s) = Inr None" for f
    using c(1) by (simp add: depth t)
  have dn: "dirname (47 # nm) = [47]" "basename (47 # nm) = nm"
    using path_parts [of "[]" nm] nm(1) by (simp_all add: abs_path_one)
  have strip: "rstrip_if (\<lambda>c. c = 47) (47 # nm) = 47 # nm" by (rule rstrip_keep) (use lst in simp_all)
  have d0: "dir_at [47] (sh_fs s) = Inr ([], FNode a (Kids ks))" by (simp add: get_path_def t)
  have i1: "\<not> isdir (47 # nm) (sh_fs s)" using c(1) g1 by (simp add: isdir_def has_type_def)
  have rem: "remove_first (\<lambda>y. node_name y = nm) ks = ks" using nm(2) by (induction ks) auto
  have put: "put_copy [] nm (FNode a (Kids ks)) s =
      (Inr (), s\<lparr>sh_fs := (sh_fs s)\<lparr>vf_tree := FNode a (Kids (ks @ [FNode (a\<lparr>a_name := nm\<rparr>) (Kids ks)]))\<rparr>\<rparr>)"
    by (simp add: put_copy_def on_fs_def map_kids_def t rem)
  have one: "cp_one True False (47 # nm) [47] s =
      (Inr (), s\<lparr>sh_fs := (sh_fs s)\<lparr>vf_tree := FNode a (Kids (ks @ [FNode (a\<lparr>a_name := nm\<rparr>) (Kids ks)]))\<rparr>\<rparr>)"
    by (simp add: cp_one_def ebind_def resolv_def r0 r1 ask_def exists_def g0 dn d0 strip put)
  have "cp_checked True [[47]] (47 # nm) s = eiter (cp_one True False (47 # nm)) [[47]] s"
    using lst by (simp add: cp_checked_def ebind_def resolv_def r1 ask_def exists_def g0 i1 dn c(1))
  also have "\<dots> = (Inr (), s\<lparr>sh_fs := (sh_fs s)\<lparr>vf_tree := FNode a (Kids (ks @ [FNode (a\<lparr>a_name := nm\<rparr>) (Kids ks)]))\<rparr>\<rparr>)"
    by (simp add: ebind_def one)
  finally show ?thesis
    by (simp add: command_cp_def opt Let_def)
qed

text \<open>
  The limit on new files does not hold for copies: each copy of the whole tree into itself doubles
  the tree, so a visitor multiplies it by two to the number of commands while the counter of new
  objects stays where it was.
\<close>

theorem copies_double:
  assumes "vf_tree (sh_fs s) = FNode a (Kids ks)" "vf_depth (sh_fs s) = Suc n"
    and "list_all plain_piece nms" "distinct nms" "set nms \<inter> node_name ` set ks = {}"
  shows "node_count (vf_tree (sh_fs (fold (\<lambda>nm. run_line E (Cp, [u ''-r'', [47], 47 # nm], None)) nms s))) =
      2 ^ length nms * node_count (FNode a (Kids ks)) \<and>
    vf_newcount (sh_fs (fold (\<lambda>nm. run_line E (Cp, [u ''-r'', [47], 47 # nm], None)) nms s)) = vf_newcount (sh_fs s)"
  using assms
proof (induction nms arbitrary: s ks)
  case (Cons nm nms)
  let ?ks = "ks @ [FNode (a\<lparr>a_name := nm\<rparr>) (Kids ks)]"
  let ?s = "s\<lparr>sh_running := True, sh_input := None\<rparr>"
  have nm: "plain_piece nm" "nm \<notin> node_name ` set ks" using Cons.prems(3,5) by auto
  have t: "vf_tree (sh_fs ?s) = FNode a (Kids ks)" "vf_depth (sh_fs ?s) = Suc n" using Cons.prems(1,2) by simp_all
  have step: "sh_fs (run_line E (Cp, [u ''-r'', [47], 47 # nm], None) s) = (sh_fs s)\<lparr>vf_tree := FNode a (Kids ?ks)\<rparr>"
    using cp_root [OF t nm] by (simp add: run_line_def start_call_def ebind_def cmd_exit_def)
  have "set nms \<inter> node_name ` set ?ks = {}" using Cons.prems(4,5) by auto
  with Cons.IH [of "run_line E (Cp, [u ''-r'', [47], 47 # nm], None) s" ?ks] Cons.prems step show ?case by simp
qed simp

section \<open>Corner cases of the code\<close>

definition sh_of :: "fnode \<Rightarrow> shell" where
  "sh_of t = \<lparr>sh_fs = vfs_of t, sh_cwd = u ''/'', sh_home = u ''/'', sh_uid = 0, sh_gid = 0, sh_now = 0, sh_input = None,
     sh_out = [], sh_running = True, sh_below = 1\<rparr>"

definition names_in :: "shell \<Rightarrow> pystr list" where
  "names_in s = (case body (vf_tree (sh_fs s)) of Kids ks \<Rightarrow> map node_name ks | Data _ \<Rightarrow> [])"

text \<open>
  A missing parent directory: the handler of mkdir waits for FileNotFound, the file system raises
  OSError, so nothing is written and the command is never taken off the stack.
\<close>

lemma mkdir_missing_parent:
  "case start_call (command_mkdir [u ''a/b'']) (sh_of (root_of [])) of (r, s) \<Rightarrow>
     r = Inl (FsOSError ENOENT) \<and> sh_out s = [] \<and> sh_running s"
  by code_simp

text \<open>Only the first argument of mkdir is looked at.\<close>

lemma mkdir_first_only:
  "names_in (snd (command_mkdir [u ''a'', u ''b''] (sh_of (root_of [])))) = [u ''a'']"
  by code_simp

text \<open>touch creates a file below a file.\<close>

lemma touch_below_file:
  "case command_touch [u ''f/x''] (sh_of (root_of [node_of ''f'' T_FILE None (Kids [])])) of (r, s) \<Rightarrow>
     r = Inr () \<and> sh_out s = [] \<and> lookup [u ''f'', u ''x''] (vf_tree (sh_fs s)) \<noteq> None"
  by code_simp

text \<open>An unknown option of rm: the command leaves the stack in \<^verbatim>\<open>call\<close> and again in \<^verbatim>\<open>start\<close>, which raises.\<close>

lemma rm_exits_twice: "fst (start_call (command_rm [u ''-x'']) (sh_of (root_of []))) = Inl FsValueError"
  by code_simp

text \<open>A copy of a directory given with a slash has an empty name.\<close>

lemma cp_empty_name:
  "let s = snd (command_cp [u ''-r'', u ''a/'', u ''b''] (sh_of (root_of [node_of ''a'' T_DIR None (Kids []), node_of ''b'' T_DIR None (Kids [])])))
   in map_option (\<lambda>x. case body x of Kids ks \<Rightarrow> map node_name ks | Data _ \<Rightarrow> []) (lookup [u ''b''] (vf_tree (sh_fs s))) = Some [[]]"
  by code_simp

text \<open>An empty argument raises in every command that resolves it.\<close>

lemma empty_argument_raises:
  "fst (command_touch [[]] s) = Inl FsIndexError" "fst (command_mkdir [[]] s) = Inl FsIndexError"
  "fst (command_rmdir [[]] s) = Inl FsIndexError"
  by (simp_all add: command_touch_def touch_one_def command_mkdir_def rmdir_one_def ebind_def resolv_def resolve_path_def startswith_def u_def)

text \<open>A redirection as the first argument of grep meets variables that were never set.\<close>

lemma grep_redirection: "fst (command_grep E [u ''>''] s) = Inl FsUnboundLocalError"
  by (simp add: command_grep_def)

section \<open>Witnesses\<close>

definition demo_shell :: shell where
  "demo_shell = sh_of demo_tree"

lemma demo_shell_ok:
  "good (vf_tree (sh_fs demo_shell))" "vf_newcount (sh_fs demo_shell) = 0" "canonical (sh_cwd demo_shell)"
  using demo_tree_good by (auto simp: demo_shell_def sh_of_def vfs_of_def canonical_def abs_path_def u_def intro: exI [of _ "[]"])

definition demo_cmd_env :: cmd_env where
  "demo_cmd_env = ext.extend ascii_ext \<lparr>ce_read = (\<lambda>_. Inl FsNotFound), ce_arch = Inl FsNotFound, ce_re = (\<lambda>_. None)\<rparr>"


theorem head_is_prefix_witness: "prefix (concat (head_output 0 1 [97, 10, 98])) ([97, 10, 98] @ [10])"
  using head_is_prefix [of 1 "[97, 10, 98]"] by simp

theorem tail_is_suffix_witness: "suffix (tail_text 1 [97, 10, 98, 10]) [97, 10, 98, 10]"
  using tail_is_suffix [of 1 "[97, 10, 98, 10]"] by (simp add: newlines_def)

theorem rm_removes_witness:
  "\<exists>s'. rm_one True False False (u ''d'') demo_shell = (Inr (), s') \<and> lookup [u ''d''] (vf_tree (sh_fs s')) = None"
proof -
  obtain x where x: "lookup ([] @ [u ''d'']) (vf_tree (sh_fs demo_shell)) = Some x"
  proof -
    have "lookup ([] @ [u ''d'']) (vf_tree (sh_fs demo_shell)) \<noteq> None" by code_simp
    then show thesis using that by auto
  qed
  have r: "resolve_path (vf_home (sh_fs demo_shell)) (u ''d'') (sh_cwd demo_shell) = Inr (abs_path ([] @ [u ''d'']))" by code_simp
  from rm_removes [OF demo_shell_ok(1) _ demo_pieces(1) r x, of True False] show ?thesis by auto
qed

theorem copies_double_witness:
  "node_count (vf_tree (sh_fs (fold (\<lambda>nm. run_line demo_cmd_env (Cp, [u ''-r'', [47], 47 # nm], None)) [u ''x'', u ''y''] (sh_of (root_of []))))) = 4"
proof -
  have t: "vf_tree (sh_fs (sh_of (root_of []))) = FNode (attr (root_of [])) (Kids [])" "vf_depth (sh_fs (sh_of (root_of []))) = Suc 8"
    by (simp_all add: sh_of_def vfs_of_def node_of_def)
  show ?thesis
    using copies_double [OF t, of "[u ''x'', u ''y'']" demo_cmd_env] demo_pieces by simp
qed

end
