(* ===== verification/Text_Commands.thy ===== *)
theory Text_Commands
  imports Fs_Commands
begin

text \<open>
  Emulated commands that write and transform bytes: echo and printf of
  \<^verbatim>\<open>sensor/cowrie/src/cowrie/commands/base.py\<close>, \<^verbatim>\<open>base64.py\<close>, \<^verbatim>\<open>uniq.py\<close> and \<^verbatim>\<open>cat.py\<close>, over the session of
  \<open>Fs_Commands\<close>.  They are what attackers build files with when there is nothing to download with.
\<close>

section \<open>Escapes\<close>

definition nibble :: "int \<Rightarrow> int option" where
  "nibble c = (if 48 \<le> c \<and> c \<le> 57 then Some (c - 48) else if 97 \<le> c \<and> c \<le> 102 then Some (c - 87)
               else if 65 \<le> c \<and> c \<le> 70 then Some (c - 55) else None)"

definition simple_escape :: "byte \<Rightarrow> byte option" where
  "simple_escape c = map_of [(92, 92), (39, 39), (34, 34), (98, 8), (102, 12), (116, 9), (110, 10), (114, 13), (118, 11), (97, 7)] c"

definition octal_digit :: "byte \<Rightarrow> bool" where
  "octal_digit c \<longleftrightarrow> 48 \<le> uint c \<and> uint c \<le> 55"

fun octal_run :: "nat \<Rightarrow> int \<Rightarrow> bytes \<Rightarrow> int \<times> bytes" where
  "octal_run (Suc n) v (c # r) = (if octal_digit c then octal_run n (v * 8 + uint c - 48) r else (v, c # r))"
| "octal_run n v r = (v, r)"

lemma length_octal_run: "length (snd (octal_run n v r)) \<le> length r"
  by (induction n v r rule: octal_run.induct) auto

text \<open>The bytes of \<^verbatim>\<open>codecs.escape_decode\<close>; None is its ValueError.\<close>

function escape_bytes :: "bytes \<Rightarrow> bytes option" where
  "escape_bytes [] = Some []"
| "escape_bytes (c # r) =
     (if c \<noteq> 92 then map_option (Cons c) (escape_bytes r)
      else case r of
             [] \<Rightarrow> None
           | d # r1 \<Rightarrow>
               if d = 10 then escape_bytes r1
               else (case simple_escape d of
                       Some b \<Rightarrow> map_option (Cons b) (escape_bytes r1)
                     | None \<Rightarrow>
                         if octal_digit d then
                           map_option (Cons (word_of_int (fst (octal_run 2 (uint d - 48) r1)))) (escape_bytes (snd (octal_run 2 (uint d - 48) r1)))
                         else if d = 120 then
                           (case r1 of
                              a # b # r2 \<Rightarrow>
                                (case (nibble (uint a), nibble (uint b)) of
                                   (Some x, Some y) \<Rightarrow> map_option (Cons (word_of_int (x * 16 + y))) (escape_bytes r2)
                                 | _ \<Rightarrow> None)
                            | _ \<Rightarrow> None)
                         else map_option (Cons 92) (escape_bytes (d # r1))))"
  by pat_completeness auto
termination
  by (relation "measure length") (auto simp: le_imp_less_Suc length_octal_run le_SucI)

definition escape_decode :: "pystr \<Rightarrow> bytes option" where
  "escape_decode s = (case utf8_encode s of Inl _ \<Rightarrow> None | Inr b \<Rightarrow> escape_bytes b)"

text \<open>The double backslash before an \<^verbatim>\<open>x\<close> becomes one, and an \<^verbatim>\<open>x\<close> with a single digit gets a zero.\<close>

fun single_backslash :: "pystr \<Rightarrow> pystr" where
  "single_backslash (a # b # c # r) =
     (if a = 92 \<and> b = 92 \<and> c = 120 then 92 # 120 # single_backslash r else a # single_backslash (b # c # r))"
| "single_backslash s = s"

definition hex_ends :: "pystr \<Rightarrow> bool" where
  "hex_ends r \<longleftrightarrow> (case r of [] \<Rightarrow> True | c # _ \<Rightarrow> c = 92 \<or> c = 34 \<or> c = 39 \<or> py_isspace c)"

fun pad_hex :: "bool \<Rightarrow> pystr \<Rightarrow> pystr" where
  "pad_hex after (c # h # r) =
     (if after \<and> c = 120 \<and> nibble h \<noteq> None \<and> hex_ends r then 120 # 48 # h # pad_hex False r
      else c # pad_hex (c = 92) (h # r))"
| "pad_hex after s = s"

definition unescape_text :: "pystr \<Rightarrow> pystr" where
  "unescape_text s = pad_hex False (single_backslash s)"

section \<open>echo and printf\<close>

definition echo_option :: "pystr \<times> pystr \<Rightarrow> bool \<times> bool \<Rightarrow> bool \<times> bool" where
  "echo_option o' f =
     (case f of (esc, nl) \<Rightarrow>
        if fst o' = u ''-e'' then (True, nl)
        else if fst o' = u ''-E'' then (False, nl)
        else if fst o' = u ''-n'' then (esc, False)
        else (esc, nl))"

definition echo_arguments :: "pystr list \<Rightarrow> (bool \<times> bool) \<times> pystr list" where
  "echo_arguments args =
     (case getopt args (u ''eEn'') [] of
        Inl _ \<Rightarrow> ((False, True), args)
      | Inr (os, rest) \<Rightarrow> (fold echo_option os (False, True), rest))"

definition echo_string :: "bool \<Rightarrow> pystr list \<Rightarrow> pystr" where
  "echo_string nl args =
     (let t = unescape_text (py_join [32] args) in
      if endswith t [92, 99] then butlast (butlast t) else if nl then t @ [10] else t)"

definition command_echo :: "pystr list \<Rightarrow> unit cmd" where
  "command_echo args =
     (case echo_arguments args of ((esc, nl), rest) \<Rightarrow>
        let t = echo_string nl rest in
        case (if esc then escape_decode t else case utf8_encode t of Inl _ \<Rightarrow> None | Inr b \<Rightarrow> Some b) of
          None \<Rightarrow> eret ()
        | Some b \<Rightarrow> emit (Out_bytes b))"

definition printf_string :: "pystr \<Rightarrow> pystr" where
  "printf_string s =
     (let q = (\<lambda>c. c = 34 \<or> c = 39); t = rstrip_if q (lstrip_if q (unescape_text s)) in
      if endswith t [92, 99] then butlast (butlast t) else t)"

definition command_printf :: "pystr list \<Rightarrow> unit cmd" where
  "command_printf args =
     (case args of
        [] \<Rightarrow> say (u ''printf: usage: printf [-v var] format [arguments]'')
      | a # as \<Rightarrow>
          if u ''-v'' \<notin> set args \<and> as = [] then
            (case escape_decode (printf_string a) of
               None \<Rightarrow> eraise FsValueError
             | Some b \<Rightarrow> emit (Out_bytes b))
          else eret ())"

section \<open>base64\<close>

text \<open>
  \<^verbatim>\<open>base64.b64decode(s)\<close> on bytes: what is not in the alphabet is skipped, and nothing is read after a
  complete padding.  The arguments are as in the strict loop of \<open>Py_Bytes\<close>.
\<close>

fun b64_loose :: "nat \<Rightarrow> int \<Rightarrow> nat \<Rightarrow> bytes \<Rightarrow> bytes option" where
  "b64_loose q left pads [] = (if q = 0 then Some [] else None)"
| "b64_loose q left pads (c # s) =
     (if c = 61 then
        (if 2 \<le> q \<and> 4 \<le> q + Suc pads then Some []
         else b64_loose q left (if 2 \<le> q then Suc pads else pads) s)
      else (case b64_val (uint c) of
        None \<Rightarrow> b64_loose q left pads s
      | Some v \<Rightarrow>
          if q = 0 then b64_loose 1 v 0 s
          else if q = 1 then map_option (Cons (word_of_int (left * 4 + v div 16))) (b64_loose 2 (v mod 16) 0 s)
          else if q = 2 then map_option (Cons (word_of_int (left * 16 + v div 4))) (b64_loose 3 (v mod 4) 0 s)
          else map_option (Cons (word_of_int (left * 64 + v))) (b64_loose 0 0 0 s)))"

record b64_mode =
  bm_decode :: bool
  bm_ignore :: bool

datatype b64_start = B64_text string | B64_go b64_mode

fun b64_options :: "opts \<Rightarrow> b64_mode \<Rightarrow> b64_start" where
  "b64_options [] m = B64_go m"
| "b64_options ((o', v) # os) m =
     (if o' = u ''--help'' then B64_text ''base64 --help''
      else if o' = u ''--version'' then B64_text ''base64 --version''
      else if o' = u ''-d'' \<or> o' = u ''--decode'' then b64_options os (m\<lparr>bm_decode := True\<rparr>)
      else if o' = u ''-i'' \<or> o' = u ''--ignore-garbage'' then b64_options os (m\<lparr>bm_ignore := True\<rparr>)
      else b64_options os m)"

definition dojob :: "b64_mode \<Rightarrow> bytes \<Rightarrow> unit cmd" where
  "dojob m data =
     (let s = (if bm_ignore m then filter (\<lambda>c. b64_val (uint c) \<noteq> None \<or> c = 61) data else data) in
      if bm_decode m then
        (case b64_loose 0 0 0 s of
           Some b \<Rightarrow> emit (Out_bytes b)
         | None \<Rightarrow> complain (u ''base64: invalid input''))
      else ebind (emit (Out_bytes (map word_of_int (b64_encode s)))) (\<lambda>_. emit (Out_bytes [10])))"

definition base64_file :: "cmd_env \<Rightarrow> b64_mode \<Rightarrow> pystr \<Rightarrow> unit cmd" where
  "base64_file E m arg =
     ebind (resolv arg) (\<lambda>pname.
     ebind (ask (\<lambda>vf. Inr (isdir pname vf))) (\<lambda>dir.
       if dir then complain (u ''base64: read error: Is a directory'')
       else ebind (attempt (file_contents (ce_read E) (ce_arch E) pname)) (\<lambda>r.
              case r of
                Inl _ \<Rightarrow> complain (u ''base64: '' @ arg @ u '': No such file or directory'')
              | Inr data \<Rightarrow> dojob m data)))"

definition command_base64 :: "cmd_env \<Rightarrow> pystr list \<Rightarrow> unit cmd" where
  "command_base64 E args =
     (case getopt args (u ''diw:'') [u ''version'', u ''help'', u ''decode'', u ''ignore-garbage'', u ''wrap=''] of
        Inl _ \<Rightarrow> ebind (complain (u ''Unrecognized option'')) (\<lambda>_. cmd_exit)
      | Inr (os, rest) \<Rightarrow>
          (case b64_options os \<lparr>bm_decode = False, bm_ignore = False\<rparr> of
             B64_text t \<Rightarrow> ebind (usage t) (\<lambda>_. cmd_exit)
           | B64_go m \<Rightarrow>
               (case rest of
                  [] \<Rightarrow>
                    ebind piped (\<lambda>inp. case inp of None \<Rightarrow> eret () | Some data \<Rightarrow> ebind (dojob m data) (\<lambda>_. cmd_exit))
                | [a] \<Rightarrow> ebind (base64_file E m a) (\<lambda>_. cmd_exit)
                | a # _ \<Rightarrow>
                    ebind (complain (u ''base64: extra operand '' @ [39] @ a @ [39, 10] @ u ''Try '' @ [39] @ u ''base64 --help'' @ [39] @
                        u '' for more information.'')) (\<lambda>_. cmd_exit))))"

text \<open>A line from the terminal, when there is no input; only ASCII can be encoded.\<close>

definition base64_line :: "b64_mode \<Rightarrow> pystr \<Rightarrow> unit cmd" where
  "base64_line m line = (if is_ascii line then dojob m (map word_of_int line) else eraise FsUnicodeError)"

section \<open>uniq\<close>

text \<open>\<^verbatim>\<open>split(b"\n")\<close> without an empty last piece.\<close>

definition lines_of :: "bytes \<Rightarrow> bytes list" where
  "lines_of b = (let ls = split_lines b in if last ls = [] then butlast ls else ls)"

definition uniq_line :: "bytes option \<Rightarrow> bytes \<Rightarrow> bytes option cmd" where
  "uniq_line prev line = (if Some line = prev then eret prev else ebind (emit (Out_bytes (line @ [10]))) (\<lambda>_. eret (Some line)))"

definition command_uniq :: "pystr list \<Rightarrow> unit cmd" where
  "command_uniq args =
     (if u ''--help'' \<in> set args then ebind (usage ''uniq --help'') (\<lambda>_. cmd_exit)
      else ebind piped (\<lambda>inp.
        case inp of
          None \<Rightarrow> eret ()
        | Some data \<Rightarrow> ebind (efold (\<lambda>line prev. uniq_line prev line) (lines_of data) None) (\<lambda>_. cmd_exit)))"

section \<open>cat\<close>

definition line_number :: "nat \<Rightarrow> pystr" where
  "line_number n = replicate (6 - length (dec_digits n)) 32 @ dec_digits n @ [32, 32]"

definition cat_line :: "bool \<Rightarrow> bytes \<Rightarrow> nat \<Rightarrow> nat cmd" where
  "cat_line number line n =
     ebind (if number then emit (Out_text (line_number n)) else eret ()) (\<lambda>_.
     ebind (emit (Out_bytes (line @ [10]))) (\<lambda>_. eret (if number then Suc n else n)))"

definition cat_output :: "bool \<Rightarrow> bytes option \<Rightarrow> nat \<Rightarrow> nat cmd" where
  "cat_output number inb n =
     (case inb of None \<Rightarrow> eret n | Some b \<Rightarrow> efold (cat_line number) (lines_of b) n)"

definition cat_one :: "cmd_env \<Rightarrow> bool \<Rightarrow> pystr \<Rightarrow> nat \<Rightarrow> nat cmd" where
  "cat_one E number arg n =
     (if arg = u ''-'' then (\<lambda>s. cat_output number (sh_input s) n s)
      else ebind (resolv arg) (\<lambda>pname.
           ebind (ask (\<lambda>vf. Inr (isdir pname vf))) (\<lambda>dir.
             if dir then ebind (complain (u ''cat: '' @ arg @ u '': Is a directory'')) (\<lambda>_. eret n)
             else ecatch (ebind (contents_of E pname) (\<lambda>b. cat_output number (Some b) n))
                    (\<lambda>e. if e = FsNotFound then Some (ebind (complain (u ''cat: '' @ arg @ u '': No such file or directory'')) (\<lambda>_. eret n))
                         else None))))"

fun cat_options :: "opts \<Rightarrow> bool \<Rightarrow> bool option" where
  "cat_options [] number = Some number"
| "cat_options ((o', v) # os) number =
     (if o' = u ''--help'' then None else cat_options os (number \<or> o' = u ''-n'' \<or> o' = u ''--number''))"

definition command_cat :: "cmd_env \<Rightarrow> pystr list \<Rightarrow> unit cmd" where
  "command_cat E args =
     (case gnu_getopt args (u ''AbeEnstTuv'') [u ''help'', u ''number'', u ''version''] of
        Inl opt \<Rightarrow>
          ebind (complain (u ''cat: invalid option -- '' @ [39] @ opt @ [39, 10] @ u ''Try '' @ [39] @ u ''cat --help'' @ [39] @ u '' for more information.''))
            (\<lambda>_. cmd_exit)
      | Inr (os, rest) \<Rightarrow>
          (case cat_options os False of
             None \<Rightarrow> ebind (usage ''cat --help'') (\<lambda>_. cmd_exit)
           | Some number \<Rightarrow>
               if rest \<noteq> [] then ebind (efold (cat_one E number) rest 1) (\<lambda>_. cmd_exit)
               else (\<lambda>s. case sh_input s of
                           None \<Rightarrow> (Inr (), s)
                         | Some b \<Rightarrow> ebind (cat_output number (Some b) 1) (\<lambda>_. cmd_exit) s)))"

section \<open>Bytes typed as escapes\<close>

definition hex_text :: "bytes \<Rightarrow> pystr" where
  "hex_text b = concat (map (\<lambda>x. [92, 120, hex_low (uint x div 16), hex_low (uint x mod 16)]) b)"

lemma hex_text_simps [simp]:
  "hex_text [] = []" "hex_text (x # b) = 92 # 120 # hex_low (uint x div 16) # hex_low (uint x mod 16) # hex_text b"
  "hex_text (b @ c) = hex_text b @ hex_text c"
  by (simp_all add: hex_text_def)

lemma byte_halves:
  fixes x :: byte
  shows "0 \<le> uint x div 16" "uint x div 16 < 16" "0 \<le> uint x mod 16" "uint x mod 16 < 16"
  using byte_range [of x] by (simp_all add: div_less_iff_less_mult pos_imp_zdiv_nonneg_iff)

lemma nibble_hex_low: "0 \<le> v \<Longrightarrow> v < 16 \<Longrightarrow> nibble (hex_low v) = Some v"
  by (simp add: nibble_def hex_low_def)

lemma hex_low_range: "0 \<le> v \<Longrightarrow> v < 16 \<Longrightarrow> 48 \<le> hex_low v \<and> hex_low v \<le> 102 \<and> hex_low v \<noteq> 92"
  by (auto simp: hex_low_def)

lemma single_backslash_other: "a \<noteq> 92 \<Longrightarrow> single_backslash (a # s) = a # single_backslash s"
  "b \<noteq> 92 \<Longrightarrow> single_backslash (a # b # s) = a # single_backslash (b # s)"
  by (cases s; cases "tl s"; simp)+

lemma single_backslash_hex: "single_backslash (hex_text b) = hex_text b"
  by (induction b) (simp_all add: single_backslash_other hex_low_range byte_halves)

lemma hex_low_no_end:
  assumes "0 \<le> v" "v < 16"
  shows "\<not> hex_ends (hex_low v # r)"
  using hex_low_range [OF assms] by (auto simp: hex_ends_def py_isspace_def)

lemma pad_hex_hex: "pad_hex p (hex_text b) = hex_text b"
proof (induction b arbitrary: p)
  case (Cons x b)
  note r = hex_low_range [OF byte_halves(1,2) [of x]] hex_low_range [OF byte_halves(3,4) [of x]]
  show ?case using Cons [of False] r by (cases "hex_text b") (simp_all add: hex_low_no_end byte_halves)
qed simp

lemma utf8_encode_ascii: "list_all (\<lambda>c. 0 \<le> c \<and> c < 128) s \<Longrightarrow> utf8_encode s = Inr (map word_of_int s)"
  by (induction s) (simp_all add: utf8_enc1_def)

lemma hex_text_ascii: "list_all (\<lambda>c. 0 \<le> c \<and> c < 128) (hex_text b)"
proof (induction b)
  case (Cons x b)
  then show ?case using hex_low_range [OF byte_halves(1,2) [of x]] hex_low_range [OF byte_halves(3,4) [of x]] by simp
qed simp

lemma uint_small: "0 \<le> v \<Longrightarrow> v < 128 \<Longrightarrow> uint (word_of_int v :: byte) = v"
  by (simp add: uint_word_of_int)

lemma escape_bytes_hex: "escape_bytes (map word_of_int (hex_text b)) = Some b"
proof (induction b)
  case (Cons x b)
  note r = hex_low_range [OF byte_halves(1,2) [of x]] hex_low_range [OF byte_halves(3,4) [of x]]
  have u: "uint (word_of_int (hex_low (uint x div 16)) :: byte) = hex_low (uint x div 16)"
    "uint (word_of_int (hex_low (uint x mod 16)) :: byte) = hex_low (uint x mod 16)" using r by (simp_all add: uint_small)
  have "uint x div 16 * 16 + uint x mod 16 = uint x" by simp
  then have "word_of_int (uint x div 16 * 16 + uint x mod 16) = x" by (simp only: word_of_int_uint)
  then show ?case
    using Cons u by (simp add: simple_escape_def octal_digit_def nibble_hex_low byte_halves)
qed simp

lemma hex_text_end: "\<not> endswith (hex_text b) [92, 99]"
proof (cases b rule: rev_cases)
  case (snoc b x)
  have "hex_low (uint x div 16) \<noteq> 92" using hex_low_range [OF byte_halves(1,2)] by blast
  then show ?thesis by (simp add: snoc endswith_def)
qed (simp add: endswith_def)

lemma echo_hex_arguments: "echo_arguments [u ''-ne'', hex_text b] = ((True, False), [hex_text b])"
proof -
  have "\<not> startswith (hex_text b) (u ''-'')" by (cases b) (simp_all add: startswith_def u_def)
  then have "getopt [hex_text b] (u ''eEn'') [] = Inr ([], [hex_text b])" by (simp add: getopt.simps)
  moreover have "do_shorts (u ''eEn'') (u ''ne'') [hex_text b] = Inr ([(u ''-n'', []), (u ''-e'', [])], [hex_text b])"
    by (simp add: u_def startswith_def)
  moreover have "drop 1 (u ''-ne'') = u ''ne''" "startswith (u ''-ne'') (u ''-'')" "\<not> startswith (u ''-ne'') (u ''--'')" "u ''-ne'' \<noteq> u ''-''" "u ''-ne'' \<noteq> u ''--''"
    by (simp_all add: u_def startswith_def)
  ultimately have "getopt [u ''-ne'', hex_text b] (u ''eEn'') [] = Inr ([(u ''-n'', []), (u ''-e'', [])], [hex_text b])"
    by (simp add: getopt.simps(2) [of "u ''-ne''"])
  then show ?thesis by (simp add: echo_arguments_def echo_option_def)
qed

text \<open>
  C20. What is typed as escapes arrives as bytes: \<^verbatim>\<open>echo -ne\<close> of a text of hexadecimal escapes writes exactly
  the bytes the escapes stand for, whatever bytes they are, and nothing else.
\<close>

theorem echo_writes_escaped:
  "command_echo [u ''-ne'', hex_text b] s = (Inr (), s\<lparr>sh_out := sh_out s @ [Out_bytes b]\<rparr>)"
proof -
  have "echo_string False [hex_text b] = hex_text b"
    by (simp add: echo_string_def unescape_text_def single_backslash_hex pad_hex_hex hex_text_end)
  moreover have "escape_decode (hex_text b) = Some b"
    by (simp add: escape_decode_def utf8_encode_ascii hex_text_ascii escape_bytes_hex)
  ultimately show ?thesis by (simp add: command_echo_def echo_hex_arguments emit_def)
qed

section \<open>Bytes typed as base64\<close>

lemma b64_char_range: "0 \<le> v \<Longrightarrow> v < 64 \<Longrightarrow> 0 \<le> b64_char v \<and> b64_char v < 128 \<and> b64_char v \<noteq> 45 \<and> b64_char v \<noteq> 92"
  by (auto simp: b64_char_def)

lemma b64_loose_char:
  assumes "0 \<le> v" "v < 64"
  shows "b64_loose q left pads (word_of_int (b64_char v) # s) =
    (if q = 0 then b64_loose 1 v 0 s
     else if q = 1 then map_option (Cons (word_of_int (left * 4 + v div 16))) (b64_loose 2 (v mod 16) 0 s)
     else if q = 2 then map_option (Cons (word_of_int (left * 16 + v div 4))) (b64_loose 3 (v mod 4) 0 s)
     else map_option (Cons (word_of_int (left * 64 + v))) (b64_loose 0 0 0 s))"
proof -
  have u: "uint (word_of_int (b64_char v) :: byte) = b64_char v" using b64_char_range [OF assms] by (simp add: uint_small)
  have "(word_of_int (b64_char v) :: byte) \<noteq> 61"
  proof
    assume "(word_of_int (b64_char v) :: byte) = 61"
    then have "b64_char v = uint (61 :: byte)" using u by metis
    then show False using b64_char_ne_pad [OF assms] by simp
  qed
  then show ?thesis using b64_val_char [OF assms] u by simp
qed

lemma b64_loose_encode: "b64_loose 0 0 0 (map word_of_int (b64_encode b) @ [10]) = Some b"
  by (induction b rule: b64_encode.induct)
    (simp_all add: b64_loose_char b64_bounds recombine b64_val_def ascii_defs del: b64_loose.simps(2) add: b64_loose.simps(2) [of _ _ _ 61] b64_loose.simps(2) [of _ _ _ 10])

lemma b64_encode_chars: "list_all (\<lambda>c. 0 \<le> c \<and> c < 128 \<and> c \<noteq> 45 \<and> c \<noteq> 92) (b64_encode b)"
  by (induction b rule: b64_encode.induct) (simp_all add: b64_char_range b64_bounds)

lemma no_backslash: "92 \<notin> set s \<Longrightarrow> single_backslash s = s \<and> pad_hex False s = s"
proof
  show "92 \<notin> set s \<Longrightarrow> single_backslash s = s" by (induction s) (simp_all add: single_backslash_other)
  have "92 \<notin> set s \<Longrightarrow> p = False \<Longrightarrow> pad_hex p s = s" for p by (induction p s rule: pad_hex.induct) auto
  then show "92 \<notin> set s \<Longrightarrow> pad_hex False s = s" by blast
qed

lemma echo_plain:
  assumes "92 \<notin> set t" "\<not> startswith t (u ''-'')" "list_all (\<lambda>c. 0 \<le> c \<and> c < 128) t"
  shows "command_echo [t] s = (Inr (), s\<lparr>sh_out := sh_out s @ [Out_bytes (map word_of_int t @ [10])]\<rparr>)"
proof -
  have "echo_arguments [t] = ((False, True), [t])" using assms(2) by (simp add: echo_arguments_def getopt.simps)
  moreover have "\<not> endswith t [92, 99]"
  proof
    assume "endswith t [92, 99]"
    then have "92 \<in> set (drop (length t - 2) t)" by (simp add: endswith_def numeral_2_eq_2)
    then show False using assms(1) by (meson in_set_dropD)
  qed
  then have "echo_string True [t] = t @ [10]" using no_backslash [OF assms(1)] by (simp add: echo_string_def unescape_text_def)
  moreover have "utf8_encode (t @ [10]) = Inr (map word_of_int t @ [10])" using assms(3) by (simp add: utf8_encode_ascii)
  ultimately show ?thesis by (simp add: command_echo_def emit_def)
qed

text \<open>
  C21. A payload typed as base64 arrives: \<^verbatim>\<open>echo\<close> of the base64 text of any bytes writes one piece, and
  \<^verbatim>\<open>base64 -d\<close> with this piece as its input writes exactly the bytes and exits.
\<close>

theorem base64_payload_decoded:
  "\<exists>piece. command_echo [b64_encode b] s = (Inr (), s\<lparr>sh_out := sh_out s @ [Out_bytes piece]\<rparr>) \<and>
     command_base64 E [u ''-d''] (s\<lparr>sh_input := Some piece, sh_running := True\<rparr>) =
       (Inr (), s\<lparr>sh_input := Some piece, sh_out := sh_out s @ [Out_bytes b], sh_running := False\<rparr>)"
proof -
  let ?p = "map word_of_int (b64_encode b) @ [10] :: bytes" and ?l = "[u ''version'', u ''help'', u ''decode'', u ''ignore-garbage'', u ''wrap='']"
  have "92 \<notin> set (b64_encode b)" "list_all (\<lambda>c. 0 \<le> c \<and> c < 128) (b64_encode b)" "\<not> startswith (b64_encode b) (u ''-'')"
    using b64_encode_chars [of b] by (cases "b64_encode b"; auto simp: list_all_iff startswith_def u_def)+
  then have e: "command_echo [b64_encode b] s = (Inr (), s\<lparr>sh_out := sh_out s @ [Out_bytes ?p]\<rparr>)" by (intro echo_plain)
  have "getopt [u ''-d''] (u ''diw:'') ?l = Inr ([(u ''-d'', [])], [])" by code_simp
  moreover have "piped (s\<lparr>sh_input := Some ?p, sh_running := True\<rparr>) = (Inr (Some ?p), s\<lparr>sh_input := Some ?p, sh_running := True\<rparr>)"
    by (cases "b64_encode b") (simp_all add: piped_def)
  ultimately have "command_base64 E [u ''-d''] (s\<lparr>sh_input := Some ?p, sh_running := True\<rparr>) =
      (Inr (), s\<lparr>sh_input := Some ?p, sh_out := sh_out s @ [Out_bytes b], sh_running := False\<rparr>)"
    by (simp add: command_base64_def ebind_def dojob_def b64_loose_encode emit_def cmd_exit_def)
  with e show ?thesis by (intro exI [of _ ?p]) simp
qed

section \<open>uniq and cat\<close>

definition line_out :: "bytes \<Rightarrow> shell_output" where
  "line_out l = Out_bytes (l @ [10])"

lemma map_remdups_first: "map f (remdups_adj (l # ls)) = f l # map f (tl (remdups_adj (l # ls)))"
proof -
  have "remdups_adj (l # ls) = l # tl (remdups_adj (l # ls))"
    by (metis hd_remdups_adj list.collapse list.distinct(1) list.sel(1) remdups_adj_Nil_iff)
  then show ?thesis by (metis list.simps(9))
qed

lemma uniq_after:
  "efold (\<lambda>line prev. uniq_line prev line) ls (Some p) s =
     (Inr (Some (last (p # ls))), s\<lparr>sh_out := sh_out s @ map line_out (tl (remdups_adj (p # ls)))\<rparr>)"
proof (induction ls arbitrary: p s)
  case (Cons l ls)
  show ?case
  proof (cases "l = p")
    case True
    then show ?thesis using Cons [of p s] by (simp add: ebind_def uniq_line_def)
  next
    case False
    then have t: "tl (remdups_adj (p # l # ls)) = remdups_adj (l # ls)" by simp
    have "map line_out (remdups_adj (l # ls)) = line_out l # map line_out (tl (remdups_adj (l # ls)))"
      using map_remdups_first [of line_out l ls] .
    then show ?thesis
      unfolding t using Cons [of l "s\<lparr>sh_out := sh_out s @ [line_out l]\<rparr>"] False
      by (simp add: ebind_def uniq_line_def emit_def flip: line_out_def del: remdups_adj.simps)
  qed
qed simp

text \<open>uniq keeps the first line of every run of equal lines, in order, and exits.\<close>

lemma uniq_removes_runs:
  assumes "sh_input s = Some data" "data \<noteq> []" "u ''--help'' \<notin> set args" "sh_running s"
  shows "command_uniq args s = (Inr (), s\<lparr>sh_out := sh_out s @ map line_out (remdups_adj (lines_of data)), sh_running := False\<rparr>)"
proof -
  have p: "piped s = (Inr (Some data), s)" using assms(1,2) by (cases data) (simp_all add: piped_def)
  have "efold (\<lambda>line prev. uniq_line prev line) (lines_of data) None s =
      (Inr (if lines_of data = [] then None else Some (last (lines_of data))), s\<lparr>sh_out := sh_out s @ map line_out (remdups_adj (lines_of data))\<rparr>)"
  proof (cases "lines_of data")
    case (Cons l ls)
    have "map line_out (remdups_adj (l # ls)) = line_out l # map line_out (tl (remdups_adj (l # ls)))" by (rule map_remdups_first)
    then show ?thesis
      using uniq_after [of ls l "s\<lparr>sh_out := sh_out s @ [line_out l]\<rparr>"]
      by (simp add: Cons ebind_def uniq_line_def emit_def flip: line_out_def del: remdups_adj.simps)
  qed simp
  then show ?thesis using p assms(3,4) by (simp add: command_uniq_def ebind_def cmd_exit_def)
qed

lemma cat_lines: "efold (cat_line False) ls n s = (Inr n, s\<lparr>sh_out := sh_out s @ map line_out ls\<rparr>)"
  by (induction ls arbitrary: s) (simp_all add: ebind_def cat_line_def emit_def line_out_def)

text \<open>cat writes its input, with a line feed at the end if there was none: what is not text does not come through unchanged.\<close>

lemma lines_of_text: "concat (map (\<lambda>l. l @ [10]) (lines_of b)) = (if b = [] \<or> last b = 10 then b else b @ [10])"
proof (cases "last (split_lines b) = []")
  case True
  then have b: "concat (map (\<lambda>l. l @ [10]) (lines_of b)) = b" using split_lines_last [of b] by (simp add: lines_of_def)
  moreover have "b = [] \<or> last b = 10"
  proof (cases "butlast (split_lines b) = []")
    case False
    then have "last (concat (map (\<lambda>l. l @ [10 :: byte]) (butlast (split_lines b)))) = 10"
      by (cases "butlast (split_lines b)" rule: rev_cases) simp_all
    then show ?thesis using b True by (simp add: lines_of_def)
  qed (use split_lines_last [of b] True in simp)
  ultimately show ?thesis by simp
next
  case False
  have "last b \<noteq> 10" "b \<noteq> []"
  proof -
    have l: "last b = last (last (split_lines b))" using split_lines_last [of b] False by (metis last_appendR)
    have "10 \<notin> set (last (split_lines b))" using split_lines_plain [of "last (split_lines b)" b] by simp
    then show "last b \<noteq> 10" using l False by (metis last_in_set)
    show "b \<noteq> []" using False by auto
  qed
  then show ?thesis using False split_lines_join [of b] by (simp add: lines_of_def)
qed

section \<open>Quirks\<close>

text \<open>printf with arguments writes nothing, and with an incomplete escape it raises, so that it never exits.\<close>

lemma printf_arguments_ignored: "a # as \<noteq> [a] \<Longrightarrow> command_printf (a # as) s = (Inr (), s)"
  by (simp add: command_printf_def eret_def)

lemma printf_incomplete_raises: "start_call (command_printf [[92, 120]]) s = (Inl FsValueError, s)"
proof -
  have "escape_decode (printf_string [92, 120]) = None" by code_simp
  then show ?thesis by (simp add: start_call_def command_printf_def ebind_def eraise_def) (simp add: u_def)
qed

text \<open>base64 in a pipeline whose first command wrote nothing waits for lines of the terminal.\<close>

lemma base64_empty_input_waits:
  assumes "sh_input s = Some []"
  shows "command_base64 E [u ''-d''] s = (Inr (), s)"
proof -
  have "getopt [u ''-d''] (u ''diw:'') [u ''version'', u ''help'', u ''decode'', u ''ignore-garbage'', u ''wrap=''] = Inr ([(u ''-d'', [])], [])"
    by code_simp
  then show ?thesis using assms by (simp add: command_base64_def piped_def ebind_def)
qed

end
