(* ===== verification/Shell_Parser.thy ===== *)
theory Shell_Parser
  imports Py_Dyn
begin

text \<open>
  \<^verbatim>\<open>sensor/cowrie/src/cowrie/shell/parser.py\<close>: the redirections of a command line, from the tokens of shlex to
  the ordered list of operations on file descriptors.
\<close>

section \<open>Merging the tokens of one redirection\<close>

definition CONTROL :: "pystr list" where
  "CONTROL = [u ''|'', u '';'', u ''&&'', u ''||'']"

text \<open>The tokens glued together at the head of the list, with how many they are; None for a token of its own.\<close>

definition combine_redir_sequence :: "('x) ext_scheme \<Rightarrow> pystr list \<Rightarrow> (pystr \<times> nat) option" where
  "combine_redir_sequence E tokens =
     (case tokens of
        tok # nxt # rest \<Rightarrow>
          if py_isdigit E tok \<and> nxt \<in> {u ''>'', u ''>>'', u ''>&''} then
            (case rest of
               nxt2 # rest2 \<Rightarrow>
                 if nxt = u ''>&'' \<and> nxt2 \<notin> set CONTROL then Some (tok @ nxt @ nxt2, 3)
                 else if nxt \<in> {u ''>'', u ''>>''} \<and> nxt2 = u ''&'' then
                   (case rest2 of
                      nxt3 # _ \<Rightarrow> if nxt3 \<notin> set CONTROL then Some (tok @ nxt @ u ''&'' @ nxt3, 4) else Some (tok @ nxt @ u ''&'', 3)
                    | [] \<Rightarrow> Some (tok @ nxt @ u ''&'', 3))
                 else Some (tok @ nxt, 2)
             | [] \<Rightarrow> Some (tok @ nxt, 2))
          else if tok \<in> {u ''>'', u ''>>''} \<and> nxt = u ''&'' then Some (tok @ u ''&'', 2)
          else None
      | _ \<Rightarrow> None)"

lemma combine_consumes: "combine_redir_sequence E tokens = Some (c, n) \<Longrightarrow> 2 \<le> n \<and> n \<le> length tokens"
  by (auto simp: combine_redir_sequence_def split: list.splits if_splits)

function merge_redirection_tokens :: "('x) ext_scheme \<Rightarrow> pystr list \<Rightarrow> pystr list" where
  "merge_redirection_tokens E [] = []"
| "merge_redirection_tokens E (tok # rest) =
     (case combine_redir_sequence E (tok # rest) of
        Some (c, n) \<Rightarrow> c # merge_redirection_tokens E (drop n (tok # rest))
      | None \<Rightarrow> tok # merge_redirection_tokens E rest)"
  by pat_completeness auto
termination
proof (relation "measure (\<lambda>(E, ts). length ts)")
  fix E :: "('x) ext_scheme" and tok rest x c n
  assume "combine_redir_sequence E (tok # rest) = Some x" "(c, n) = x"
  with combine_consumes [of E "tok # rest" c n] show "((E, drop n (tok # rest)), E, tok # rest) \<in> measure (\<lambda>(E, ts). length ts)"
    by auto
qed auto

section \<open>Parsing redirections\<close>

datatype redir_op =
    Redir_file int pystr bool       \<comment> \<open>descriptor, target, append\<close>
  | Redir_stdin int pystr
  | Redir_dup int int

text \<open>
  \<^verbatim>\<open>^(\d*)(>>|>&|>|<)(.*)$\<close>: the dot does not match a line feed and the dollar allows one at the end.
\<close>

definition inline_of :: "pystr \<Rightarrow> pystr option" where
  "inline_of rest =
     (if 10 \<notin> set rest then Some rest
      else if last rest = 10 \<and> 10 \<notin> set (butlast rest) then Some (butlast rest)
      else None)"

definition redir_op_at :: "pystr \<Rightarrow> (pystr \<times> pystr) option" where
  "redir_op_at s =
     (if startswith s (u ''>>'') then Some (u ''>>'', drop 2 s)
      else if startswith s (u ''>&'') then Some (u ''>&'', drop 2 s)
      else if startswith s (u ''>'') then Some (u ''>'', drop 1 s)
      else if startswith s (u ''<'') then Some (u ''<'', drop 1 s)
      else None)"

definition extract_redir_op :: "('x) ext_scheme \<Rightarrow> pystr \<Rightarrow> (pystr \<times> int option \<times> pystr) option res" where
  "extract_redir_op E token =
     (let fd_text = takeWhile (is_decimal E) token in
      case redir_op_at (dropWhile (is_decimal E) token) of
        None \<Rightarrow> Inr None
      | Some (op, rest) \<Rightarrow>
          (case inline_of rest of
             None \<Rightarrow> Inr None
           | Some inline \<Rightarrow>
               if fd_text = [] then Inr (Some (op, None, inline))
               else rbind (int_of_str E fd_text) (\<lambda>fd. Inr (Some (op, Some fd, inline)))))"

text \<open>
  One redirection: how many tokens it takes, what it adds to the remaining arguments and to the
  operations.  Zero tokens is no redirection.
\<close>

definition apply_redirection ::
  "('x) ext_scheme \<Rightarrow> pystr \<Rightarrow> int option \<Rightarrow> pystr \<Rightarrow> pystr option \<Rightarrow> pystr \<Rightarrow> (nat \<times> pystr list \<times> redir_op list) res" where
  "apply_redirection E op fd inline next_token raw_token =
     (let target = (if inline \<noteq> [] then Some inline else next_token);
          consume = (if inline \<noteq> [] then 1 else 2) in
      if op \<in> {u ''>'', u ''>>''} then
        (case target of
           None \<Rightarrow> Inr (1, [raw_token], [])
         | Some t \<Rightarrow> Inr (consume, [], [Redir_file (case fd of None \<Rightarrow> 1 | Some n \<Rightarrow> n) t (op = u ''>>'')]))
      else if op = u ''<'' then
        (case target of
           None \<Rightarrow> Inr (1, [raw_token], [])
         | Some t \<Rightarrow> Inr (consume, [], [Redir_stdin (case fd of None \<Rightarrow> 0 | Some n \<Rightarrow> n) t]))
      else if op = u ''>&'' then
        (case target of
           None \<Rightarrow> Inr (1, [raw_token], [])
         | Some t \<Rightarrow>
             if t = u ''-'' then Inr (consume, [], [])
             else if py_isdigit E t then
               rbind (int_of_str E t) (\<lambda>n. Inr (consume, [], [Redir_dup (case fd of None \<Rightarrow> 1 | Some k \<Rightarrow> k) n]))
             else Inr (1, [raw_token], []))
      else Inr (0, [], []))"

text \<open>One round of the loop: the tokens it takes and what it adds.\<close>

definition parse_step :: "('x) ext_scheme \<Rightarrow> pystr \<Rightarrow> pystr list \<Rightarrow> (nat \<times> pystr list \<times> redir_op list) res" where
  "parse_step E tok rest =
     rbind (extract_redir_op E tok) (\<lambda>x.
       case (case x of Some y \<Rightarrow> Some y
             | None \<Rightarrow> if tok \<in> {u ''>'', u ''>>'', u ''<'', u ''>&''} then Some (tok, None, []) else None) of
         None \<Rightarrow> Inr (1, [tok], [])
       | Some (op, fd, inline) \<Rightarrow>
           rbind (apply_redirection E op fd inline (case rest of [] \<Rightarrow> None | t # _ \<Rightarrow> Some t) tok) (\<lambda>(n, c, os).
             Inr (if n = 0 then (1, [tok], []) else (n, c, os))))"

fun parse_from :: "('x) ext_scheme \<Rightarrow> nat \<Rightarrow> pystr list \<Rightarrow> (pystr list \<times> redir_op list) res" where
  "parse_from E skip [] = Inr ([], [])"
| "parse_from E (Suc k) (tok # rest) = parse_from E k rest"
| "parse_from E 0 (tok # rest) =
     rbind (parse_step E tok rest) (\<lambda>(n, c, os).
       rbind (parse_from E (n - 1) rest) (\<lambda>(cs, oss). Inr (c @ cs, os @ oss)))"

definition parse_redirections :: "('x) ext_scheme \<Rightarrow> pystr list \<Rightarrow> (pystr list \<times> redir_op list) res" where
  "parse_redirections E arguments = parse_from E 0 arguments"

lemmas parser_eval [py_eval] = CONTROL_def combine_redir_sequence_def merge_redirection_tokens.simps inline_of_def redir_op_at_def
  extract_redir_op_def apply_redirection_def parse_step_def parse_redirections_def

section \<open>Nothing is lost in merging\<close>

lemma combine_concat: "combine_redir_sequence E tokens = Some (c, n) \<Longrightarrow> c = concat (take n tokens)"
  by (auto simp: combine_redir_sequence_def eval_nat_numeral split: list.splits if_splits)

lemma digit_not_control: "py_isdigit E t \<Longrightarrow> t \<notin> set CONTROL"
  by (auto simp: py_isdigit_def CONTROL_def u_def is_decimal_def ascii_digit_def)

lemma combine_control:
  "combine_redir_sequence E tokens = Some (c, n) \<Longrightarrow> c \<notin> set CONTROL \<and> list_all (\<lambda>t. t \<notin> set CONTROL) (take n tokens)"
proof -
  assume c: "combine_redir_sequence E tokens = Some (c, n)"
  have "62 \<in> set c" using c by (auto simp: combine_redir_sequence_def u_def split: list.splits if_splits)
  then have "c \<notin> set CONTROL" by (auto simp: CONTROL_def u_def)
  moreover have "list_all (\<lambda>t. t \<notin> set CONTROL) (take n tokens)"
    using c by (auto simp: combine_redir_sequence_def eval_nat_numeral digit_not_control split: list.splits if_splits)
      (auto simp: CONTROL_def u_def)
  ultimately show ?thesis by simp
qed

text \<open>
  Merging changes only where the tokens are cut: the text of the line stays the same, and the
  operators that separate commands stay tokens of their own, the same ones in the same order.
\<close>

theorem merge_keeps_line:
  "concat (merge_redirection_tokens E tokens) = concat tokens \<and>
   filter (\<lambda>t. t \<in> set CONTROL) (merge_redirection_tokens E tokens) = filter (\<lambda>t. t \<in> set CONTROL) tokens"
proof (induction tokens rule: merge_redirection_tokens.induct)
  case (2 E tok rest)
  show ?case
  proof (cases "combine_redir_sequence E (tok # rest)")
    case None
    with 2(1) [OF None] show ?thesis by simp
  next
    case (Some x)
    obtain c n where x: "x = (c, n)" by fastforce
    have cn: "combine_redir_sequence E (tok # rest) = Some (c, n)" using Some x by simp
    note IH = 2(2) [OF Some, unfolded x, OF refl]
    have f: "filter (\<lambda>t. t \<in> set CONTROL) (take n (tok # rest)) = []"
      using combine_control [OF cn] by (auto simp: filter_empty_conv list_all_iff)
    have "tok # rest = take n (tok # rest) @ drop n (tok # rest)" by simp
    then have "concat (tok # rest) = concat (take n (tok # rest)) @ concat (drop n (tok # rest))"
      "filter (\<lambda>t. t \<in> set CONTROL) (tok # rest) = filter (\<lambda>t. t \<in> set CONTROL) (drop n (tok # rest))"
      using f by (metis concat_append, metis append_Nil filter_append)
    with IH cn combine_concat [OF cn] combine_control [OF cn] show ?thesis by simp
  qed
qed simp

section \<open>Arguments and operations\<close>

lemma apply_redirection_args:
  "apply_redirection E op fd inline nxt raw = Inr (n, c, os) \<Longrightarrow> c = [] \<or> c = [raw]"
  by (auto simp: apply_redirection_def Let_def rbind_eq_Inr split: option.splits if_splits)

lemma parse_step_args: "parse_step E tok rest = Inr (n, c, os) \<Longrightarrow> c = [] \<or> c = [tok]"
  by (auto simp: parse_step_def rbind_eq_Inr split: option.splits if_splits prod.splits dest: apply_redirection_args)

text \<open>What is left of the arguments are some of them, in their order.\<close>

lemma parse_subseq: "parse_from E k args = Inr (cs, os) \<Longrightarrow> subseq cs args"
proof (induction E k args arbitrary: cs os rule: parse_from.induct)
  case (3 E tok rest)
  from 3(2) obtain n c os1 cs2 os2 where r: "parse_step E tok rest = Inr (n, c, os1)"
    "parse_from E (n - 1) rest = Inr (cs2, os2)" "cs = c @ cs2" by (auto simp: rbind_eq_Inr)
  then have "subseq cs2 rest" using 3(1) by blast
  with r(3) parse_step_args [OF r(1)] show ?case by auto
qed auto

lemma redir_op_at_free: "62 \<notin> set s \<Longrightarrow> 60 \<notin> set s \<Longrightarrow> redir_op_at s = None"
  by (cases s) (auto simp: redir_op_at_def startswith_def u_def)

text \<open>A token without the two characters is an argument.\<close>

lemma redir_free: "62 \<notin> set t \<Longrightarrow> 60 \<notin> set t \<Longrightarrow> parse_step E t rest = Inr (1, [t], [])"
proof -
  assume t: "62 \<notin> set t" "60 \<notin> set t"
  then have "62 \<notin> set (dropWhile P t)" "60 \<notin> set (dropWhile P t)" for P by (auto dest: set_dropWhileD)
  then have "redir_op_at (dropWhile P t) = None" for P by (intro redir_op_at_free)
  moreover have "t \<notin> {u ''>'', u ''>>'', u ''<'', u ''>&''}" using t by (auto simp: u_def)
  ultimately show ?thesis by (simp add: parse_step_def extract_redir_op_def Let_def)
qed

section \<open>Numbers\<close>

lemma int_digits_ascii:
  assumes "list_all ascii_digit ds"
  shows "after \<or> ds \<noteq> [] \<Longrightarrow> int_digits E after acc k ds = Some (foldl (\<lambda>a c. a * 10 + (c - 48)) acc ds, k + length ds)"
  using assms
proof (induction ds arbitrary: after acc k)
  case (Cons d ds)
  then have "digit_val E d = Some (d - 48)" by (auto simp: digit_val_def ascii_digit_def)
  with Cons.IH [of True "acc * 10 + (d - 48)" "Suc k"] Cons.prems(2) show ?case by simp
qed simp

lemma strip_digits: "list_all ascii_digit ds \<Longrightarrow> py_strip ds = ds"
proof -
  assume ds: "list_all ascii_digit ds"
  have sp: "\<not> py_isspace c" if "ascii_digit c" for c using that by (auto simp: ascii_digit_def py_isspace_def)
  have "lstrip_if py_isspace ds = ds" using ds sp by (cases ds) (auto simp: lstrip_if_def)
  moreover have "rstrip_if py_isspace ds = ds" using ds sp by (cases ds rule: rev_cases) (auto simp: rstrip_if_def)
  ultimately show ?thesis by (simp add: py_strip_def)
qed

lemma int_of_digits:
  assumes "list_all ascii_digit ds" "ds \<noteq> []" "length ds \<le> 4300"
  shows "int_of_str E ds = Inr (foldl (\<lambda>a c. a * 10 + (c - 48)) 0 ds)"
proof -
  obtain d r where d: "ds = d # r" "d \<noteq> 45" "d \<noteq> 43" using assms(1,2) by (cases ds) (auto simp: ascii_digit_def)
  show ?thesis
    using int_digits_ascii [OF assms(1), of False E 0 0] assms d(2,3)
    by (simp add: int_of_str_def strip_digits Let_def) (simp add: d(1))
qed

lemma dec_digits_ascii: "list_all ascii_digit (dec_digits n) \<and> dec_digits n \<noteq> []"
proof (induction n rule: dec_digits.induct)
  case (1 n)
  then show ?case by (subst (1 2) dec_digits.simps) (auto simp: ascii_digit_def list_all_iff)
qed

lemma dec_digits_value: "foldl (\<lambda>a c. a * 10 + (c - 48)) 0 (dec_digits n) = int n"
proof (induction n rule: dec_digits.induct)
  case (1 n)
  show ?case
  proof (cases "n < 10")
    case False
    with 1 have "foldl (\<lambda>a c. a * 10 + (c - 48)) 0 (dec_digits (n div 10)) = int (n div 10)" by simp
    with False show ?thesis by (subst dec_digits.simps) (simp add: zdiv_int zmod_int)
  qed (simp add: dec_digits.simps)
qed

lemma int_of_dec: "length (dec_digits n) \<le> 4300 \<Longrightarrow> int_of_str E (dec_digits n) = Inr (int n)"
  using int_of_digits [of "dec_digits n" E] dec_digits_ascii [of n] dec_digits_value [of n] by simp

section \<open>What is written is what is parsed\<close>

text \<open>An operation written as one token.\<close>

fun show_redir :: "redir_op \<Rightarrow> pystr" where
  "show_redir (Redir_file fd t app) = dec_digits (nat fd) @ (if app then u ''>>'' else u ''>'') @ t"
| "show_redir (Redir_stdin fd t) = dec_digits (nat fd) @ u ''<'' @ t"
| "show_redir (Redir_dup fd n) = dec_digits (nat fd) @ u ''>&'' @ dec_digits (nat n)"

definition fd_ok :: "int \<Rightarrow> bool" where
  "fd_ok n \<longleftrightarrow> 0 \<le> n \<and> length (dec_digits (nat n)) \<le> 4300"

text \<open>A target is not empty and has no line feed; behind a single arrow it cannot begin like a longer operator.\<close>

fun showable :: "redir_op \<Rightarrow> bool" where
  "showable (Redir_file fd t app) \<longleftrightarrow> fd_ok fd \<and> t \<noteq> [] \<and> 10 \<notin> set t \<and> (app \<or> hd t \<noteq> 62 \<and> hd t \<noteq> 38)"
| "showable (Redir_stdin fd t) \<longleftrightarrow> fd_ok fd \<and> t \<noteq> [] \<and> 10 \<notin> set t"
| "showable (Redir_dup fd n) \<longleftrightarrow> fd_ok fd \<and> fd_ok n"

lemma digits_split:
  assumes "\<not> is_decimal E c"
  shows "takeWhile (is_decimal E) (dec_digits n @ c # r) = dec_digits n" "dropWhile (is_decimal E) (dec_digits n @ c # r) = c # r"
proof -
  have "\<forall>x \<in> set (dec_digits n). is_decimal E x"
    using dec_digits_ascii [of n] by (auto simp: list_all_iff is_decimal_def ascii_digit_def)
  then show "takeWhile (is_decimal E) (dec_digits n @ c # r) = dec_digits n"
    "dropWhile (is_decimal E) (dec_digits n @ c # r) = c # r"
    using assms by (simp_all add: takeWhile_append2 dropWhile_append2)
qed

lemma extract_show:
  assumes "fd_ok fd" "op = c # ops" "\<not> is_decimal E c" "redir_op_at (op @ r) = Some (op, r)" "10 \<notin> set r"
  shows "extract_redir_op E (dec_digits (nat fd) @ op @ r) = Inr (Some (op, Some fd, r))"
proof -
  have "dec_digits (nat fd) \<noteq> []" using dec_digits_ascii by blast
  moreover have "int_of_str E (dec_digits (nat fd)) = Inr fd" using assms(1) int_of_dec [of "nat fd" E] by (simp add: fd_ok_def)
  ultimately show ?thesis
    using digits_split [OF assms(3), of "nat fd" "ops @ r"] assms(2,4,5)
    by (simp add: extract_redir_op_def inline_of_def Let_def)
qed

lemma arrows_not_decimal: "\<not> is_decimal E 62" "\<not> is_decimal E 60"
  by (simp_all add: is_decimal_def ascii_digit_def)

lemma parse_step_show:
  assumes "showable x"
  shows "parse_step E (show_redir x) rest = Inr (1, [], [x])"
proof (cases x)
  case (Redir_file fd t app)
  let ?op = "if app then u ''>>'' else u ''>''"
  have t: "fd_ok fd" "t \<noteq> []" "10 \<notin> set t" "app \<or> hd t \<noteq> 62 \<and> hd t \<noteq> 38" using assms Redir_file by auto
  have "redir_op_at (?op @ t) = Some (?op, t)"
    using t(2,4) by (cases t) (auto simp: redir_op_at_def startswith_def u_def)
  then have "extract_redir_op E (dec_digits (nat fd) @ ?op @ t) = Inr (Some (?op, Some fd, t))"
    using t by (intro extract_show [where c = 62 and ops = "if app then [62] else []"]) (auto simp: u_def arrows_not_decimal)
  with t(2) Redir_file show ?thesis
    by (cases app) (simp_all add: parse_step_def apply_redirection_def u_def)
next
  case (Redir_stdin fd t)
  have t: "fd_ok fd" "t \<noteq> []" "10 \<notin> set t" using assms Redir_stdin by auto
  have "redir_op_at (u ''<'' @ t) = Some (u ''<'', t)" by (simp add: redir_op_at_def startswith_def u_def)
  then have "extract_redir_op E (dec_digits (nat fd) @ u ''<'' @ t) = Inr (Some (u ''<'', Some fd, t))"
    using t by (intro extract_show [where c = 60 and ops = "[]"]) (auto simp: u_def arrows_not_decimal)
  with t(2) Redir_stdin show ?thesis by (simp add: parse_step_def apply_redirection_def u_def)
next
  case (Redir_dup fd n)
  have t: "fd_ok fd" "fd_ok n" using assms Redir_dup by auto
  let ?d = "dec_digits (nat n)"
  have d: "?d \<noteq> []" "list_all ascii_digit ?d" using dec_digits_ascii by blast+
  then have d10: "10 \<notin> set ?d" "?d \<noteq> u ''-''" by (auto simp: list_all_iff ascii_digit_def u_def)
  have dig: "py_isdigit E ?d" using d by (auto simp: py_isdigit_def list_all_iff is_decimal_def ascii_digit_def)
  have n: "int_of_str E ?d = Inr n" using t(2) int_of_dec [of "nat n" E] by (simp add: fd_ok_def)
  have "redir_op_at (u ''>&'' @ ?d) = Some (u ''>&'', ?d)" by (simp add: redir_op_at_def startswith_def u_def)
  then have "extract_redir_op E (dec_digits (nat fd) @ u ''>&'' @ ?d) = Inr (Some (u ''>&'', Some fd, ?d))"
    using t d10 by (intro extract_show [where c = 62 and ops = "[38]"]) (auto simp: u_def arrows_not_decimal)
  with d d10 dig n Redir_dup show ?thesis by (simp add: parse_step_def apply_redirection_def)
qed

text \<open>
  C34. Redirections survive the parser: plain arguments with any operations written behind them, one
  token each, are parsed to exactly those arguments and those operations in their order.
\<close>

theorem redirections_roundtrip:
  assumes "list_all (\<lambda>t. 62 \<notin> set t \<and> 60 \<notin> set t) args" "list_all showable ops"
  shows "parse_redirections E (args @ map show_redir ops) = Inr (args, ops)"
proof -
  have o: "parse_from E 0 (map show_redir ops) = Inr ([], ops)"
    using assms(2) by (induction ops) (simp_all add: parse_step_show)
  show ?thesis
    unfolding parse_redirections_def using assms(1)
    by (induction args) (simp_all add: o redir_free)
qed

lemma ascii_int:
  assumes "is_ascii ds" "py_isdigit E ds" "length ds \<le> 4300"
  shows "\<exists>n. int_of_str E ds = Inr n"
proof -
  have "list_all ascii_digit ds" "ds \<noteq> []"
    using assms(1,2) by (auto simp: is_ascii_def py_isdigit_def is_decimal_def list_all_iff) fastforce
  from int_of_digits [OF this assms(3)] show ?thesis by blast
qed

definition short_ascii :: "pystr \<Rightarrow> bool" where
  "short_ascii t \<longleftrightarrow> is_ascii t \<and> length t \<le> 4300"

lemma short_ascii_part: "short_ascii t \<Longrightarrow> set r \<subseteq> set t \<Longrightarrow> length r \<le> length t \<Longrightarrow> short_ascii r"
  by (auto simp: short_ascii_def is_ascii_def list_all_iff)

lemma redir_op_at_part: "redir_op_at s = Some (op, r) \<Longrightarrow> set r \<subseteq> set s \<and> length r \<le> length s"
  by (auto simp: redir_op_at_def split: if_splits dest: in_set_dropD)

lemma extract_total:
  assumes "short_ascii t"
  shows "\<exists>x. extract_redir_op E t = Inr x \<and> (\<forall>op fd inline. x = Some (op, fd, inline) \<longrightarrow> short_ascii inline)"
proof (cases "redir_op_at (dropWhile (is_decimal E) t)")
  case (Some y)
  obtain op r where y: "y = (op, r)" by fastforce
  have "set r \<subseteq> set t" "length r \<le> length t"
    using redir_op_at_part [of _ op r] Some y set_dropWhileD [of _ "is_decimal E" t] length_dropWhile_le [of "is_decimal E" t]
    by (fastforce, metis le_trans)
  then have r: "short_ascii r" by (rule short_ascii_part [OF assms])
  have inl: "short_ascii i" if "inline_of r = Some i" for i
    using that by (auto simp: inline_of_def split: if_splits intro: r short_ascii_part [OF r] dest: in_set_butlastD)
  let ?f = "takeWhile (is_decimal E) t"
  have f: "short_ascii ?f" by (rule short_ascii_part [OF assms]) (auto dest: set_takeWhileD simp: length_takeWhile_le)
  have "\<exists>n. int_of_str E ?f = Inr n" if "?f \<noteq> []"
  proof (rule ascii_int)
    show "py_isdigit E ?f" using that by (auto simp: py_isdigit_def list_all_iff dest: set_takeWhileD)
  qed (use f in \<open>simp_all add: short_ascii_def\<close>)
  then show ?thesis
    using inl by (cases "inline_of r") (auto simp: extract_redir_op_def Let_def Some y)
qed (simp add: extract_redir_op_def Let_def)

lemma parse_step_total:
  assumes "list_all short_ascii (tok # rest)"
  shows "\<exists>x. parse_step E tok rest = Inr x"
proof -
  obtain x where x: "extract_redir_op E tok = Inr x" "\<forall>op fd inline. x = Some (op, fd, inline) \<longrightarrow> short_ascii inline"
    using extract_total [of tok E] assms by auto
  have app: "\<exists>y. apply_redirection E op fd inline nxt tok = Inr y"
    if "short_ascii inline" "\<And>t. nxt = Some t \<Longrightarrow> short_ascii t" for op fd inline nxt
  proof -
    have "\<exists>n. int_of_str E t = Inr n" if "py_isdigit E t" "short_ascii t" for t
      using that ascii_int by (auto simp: short_ascii_def)
    with that show ?thesis
      by (fastforce simp: apply_redirection_def Let_def split: option.split)
  qed
  define nxt where "nxt = (case rest of [] \<Rightarrow> None | t # _ \<Rightarrow> Some t)"
  have nx: "short_ascii t" if "nxt = Some t" for t
    using that assms by (auto simp: nxt_def split: list.splits)
  have tail: "\<exists>z. rbind (apply_redirection E op fd inline nxt tok) (\<lambda>(n, c, os).
      Inr (if n = 0 then (1, [tok], []) else (n, c, os))) = Inr z" if inl: "short_ascii inline" for op fd inline
  proof -
    obtain y where "apply_redirection E op fd inline nxt tok = Inr y" using app [OF inl nx] by blast
    then show ?thesis by (cases y) simp
  qed
  have nil: "short_ascii []" by (simp add: short_ascii_def is_ascii_def)
  show ?thesis
  proof (cases x)
    case None
    then show ?thesis using tail [OF nil] x(1) unfolding parse_step_def nxt_def by simp
  next
    case (Some y)
    obtain op fd inline where y: "y = (op, fd, inline)" by (cases y) auto
    then have "short_ascii inline" using x(2) Some by simp
    from tail [OF this] show ?thesis using x(1) Some y unfolding parse_step_def nxt_def by simp
  qed
qed

text \<open>
  The parser returns on every line of ASCII tokens within the limit of \<^verbatim>\<open>int\<close> on digits, and the
  arguments it leaves are some of the tokens in their order.
\<close>

theorem redirections_total:
  assumes "list_all (\<lambda>t. is_ascii t \<and> length t \<le> 4300) args"
  shows "\<exists>cleaned ops. parse_redirections E args = Inr (cleaned, ops) \<and> subseq cleaned args"
proof -
  have "\<exists>r. parse_from E k args = Inr r" if "list_all short_ascii args" for k
    using that
  proof (induction args arbitrary: k)
    case (Cons tok rest)
    show ?case
    proof (cases k)
      case 0
      from parse_step_total [OF Cons.prems, of E] obtain n c os where "parse_step E tok rest = Inr (n, c, os)" by auto
      moreover obtain cs oss where "parse_from E (n - 1) rest = Inr (cs, oss)" using Cons by fastforce
      ultimately show ?thesis using 0 by simp
    qed (use Cons in simp)
  qed simp
  moreover have "list_all short_ascii args" using assms by (simp add: short_ascii_def list_all_iff)
  ultimately have "\<exists>r. parse_redirections E args = Inr r" by (simp add: parse_redirections_def)
  then show ?thesis using parse_subseq by (fastforce simp: parse_redirections_def)
qed

section \<open>Quirks\<close>

text \<open>Quotes are gone when redirections are looked for: a quoted argument that begins like one is taken for one.\<close>

lemma quoted_arrow_redirects:
  "parse_redirections ascii_ext [u ''echo'', u ''<b>''] = Inr ([u ''echo''], [Redir_stdin 0 (u ''b>'')])"
  by code_simp

section \<open>Witnesses\<close>

theorem redirections_roundtrip_witness:
  "parse_redirections ascii_ext ([u ''ls''] @ map show_redir [Redir_file 1 (u ''f'') False, Redir_dup 2 1]) =
     Inr ([u ''ls''], [Redir_file 1 (u ''f'') False, Redir_dup 2 1])"
  by (rule redirections_roundtrip) (simp_all add: u_def fd_ok_def dec_digits.simps)

theorem redirections_total_witness:
  "\<exists>cleaned ops. parse_redirections ascii_ext [u ''a'', u ''2>&1''] = Inr (cleaned, ops) \<and> subseq cleaned [u ''a'', u ''2>&1'']"
  by (rule redirections_total) (simp add: is_ascii_def u_def)

end
