(* ===== verification/Ttylog.thy ===== *)
theory Ttylog
  imports Py_Struct Py_Dyn Complex_Main
begin

text \<open>
  \<^verbatim>\<open>sensor/cowrie/src/cowrie/core/ttylog.py\<close>: the recording of a terminal session, a sequence of records
  with a packed header, and the hash of its input by which recordings are stored.  A file is its
  bytes, opened for appending; a time stamp is the rational the float denotes.
\<close>

section \<open>Writing\<close>

definition OP_OPEN :: int where "OP_OPEN = 1"
definition OP_CLOSE :: int where "OP_CLOSE = 2"
definition OP_WRITE :: int where "OP_WRITE = 3"
definition TYPE_INPUT :: int where "TYPE_INPUT = 1"
definition TYPE_OUTPUT :: int where "TYPE_OUTPUT = 2"
definition TYPE_INTERACT :: int where "TYPE_INTERACT = 3"

definition TTYSTRUCT :: "sfmt list" where
  "TTYSTRUCT = [Fi 4, Fu 4, Fi 4, Fi 4, Fu 4, Fu 4]"

definition split_stamp :: "rat \<Rightarrow> int \<times> int" where
  "split_stamp stamp = (py_trunc stamp, py_trunc (1000000 * (stamp - of_int (py_trunc stamp))))"

definition tty_header :: "int \<Rightarrow> int \<Rightarrow> int \<Rightarrow> rat \<Rightarrow> bytes res" where
  "tty_header op len direction stamp =
     (case split_stamp stamp of (sec, usec) \<Rightarrow>
        struct_pack Little TTYSTRUCT [SInt op, SInt 0, SInt len, SInt direction, SInt sec, SInt usec])"

definition ttylog_open :: "rat \<Rightarrow> bytes \<Rightarrow> bytes res" where
  "ttylog_open stamp fl = rbind (tty_header OP_OPEN 0 0 stamp) (\<lambda>h. Inr (fl @ h))"

definition ttylog_write :: "int \<Rightarrow> int \<Rightarrow> rat \<Rightarrow> bytes \<Rightarrow> bytes \<Rightarrow> bytes res" where
  "ttylog_write len direction stamp data fl =
     rbind (tty_header OP_WRITE len direction stamp) (\<lambda>h. Inr (fl @ h @ data))"

definition ttylog_close :: "rat \<Rightarrow> bytes \<Rightarrow> bytes res" where
  "ttylog_close stamp fl = rbind (tty_header OP_CLOSE 0 0 stamp) (\<lambda>h. Inr (fl @ h))"

section \<open>The input of a recording\<close>

text \<open>A negative length reads to the end of the file.\<close>

definition fd_read :: "int \<Rightarrow> bytes \<Rightarrow> bytes \<times> bytes" where
  "fd_read n fl = (if n < 0 then (fl, []) else (take (nat n) fl, drop (nat n) fl))"

lemma fd_read_shorter: "fd_read n fl = (d, rest) \<Longrightarrow> length rest \<le> length fl"
  by (auto simp: fd_read_def split: if_splits)

function input_bytes :: "bytes \<Rightarrow> bytes" where
  "input_bytes fl =
     (case struct_unpack Little TTYSTRUCT (take (calcsize TTYSTRUCT) fl) of
        Inr [SInt op, SInt tty, SInt len, SInt direction, SInt sec, SInt usec] \<Rightarrow>
          (case fd_read len (drop (calcsize TTYSTRUCT) fl) of (data, rest) \<Rightarrow>
             (if op = OP_WRITE \<and> direction = TYPE_OUTPUT then [] else data) @ input_bytes rest)
      | _ \<Rightarrow> [])"
  by pat_completeness auto
termination
proof (relation "measure length", simp)
  fix fl op tty len direction sec usec data rest b v
  assume "struct_unpack Little TTYSTRUCT (take (calcsize TTYSTRUCT) fl) = Inr v"
    and read: "(data, rest) = fd_read len (drop (calcsize TTYSTRUCT) fl)"
  then have "calcsize TTYSTRUCT \<le> length fl"
    using struct_unpack_size [of Little TTYSTRUCT "take (calcsize TTYSTRUCT) fl" v] by (simp add: min_def split: if_splits)
  moreover have "0 < calcsize TTYSTRUCT" by (simp add: calcsize_def TTYSTRUCT_def)
  moreover have "length rest \<le> length fl - calcsize TTYSTRUCT"
    using fd_read_shorter [OF read [symmetric]] by simp
  ultimately show "(rest, fl) \<in> measure length" by simp
qed

declare input_bytes.simps [simp del]

definition ttylog_inputhash :: "('x) ext_scheme \<Rightarrow> bytes \<Rightarrow> pystr" where
  "ttylog_inputhash E fl = h_sha256 E (input_bytes fl)"

lemmas ttylog_eval [py_eval] = OP_OPEN_def OP_CLOSE_def OP_WRITE_def TYPE_INPUT_def TYPE_OUTPUT_def TYPE_INTERACT_def
  TTYSTRUCT_def split_stamp_def tty_header_def ttylog_open_def ttylog_write_def ttylog_close_def
  fd_read_def ttylog_inputhash_def

section \<open>The input is read back\<close>

definition stamp_ok :: "rat \<Rightarrow> bool" where
  "stamp_ok stamp \<longleftrightarrow> 0 \<le> stamp \<and> stamp < 4294967296"

lemma split_stamp_fits:
  assumes "stamp_ok stamp"
  shows "fits_u 4 (fst (split_stamp stamp))" "0 \<le> snd (split_stamp stamp) \<and> snd (split_stamp stamp) < 1000000"
proof -
  have s: "0 \<le> stamp" "stamp < 4294967296" using assms by (simp_all add: stamp_ok_def)
  have "\<lfloor>stamp\<rfloor> < 4294967296" using s(2) by (simp add: floor_less_iff)
  with s(1) show "fits_u 4 (fst (split_stamp stamp))" by (simp add: split_stamp_def py_trunc_def fits_u_def)
  let ?f = "stamp - of_int \<lfloor>stamp\<rfloor>"
  have f: "0 \<le> ?f" "?f < 1" by linarith+
  then have "0 \<le> 1000000 * ?f" "1000000 * ?f < 1000000" by simp_all
  then have "0 \<le> \<lfloor>1000000 * ?f\<rfloor>" "\<lfloor>1000000 * ?f\<rfloor> < 1000000" by (simp_all add: floor_less_iff)
  with s(1) f(1) show "0 \<le> snd (split_stamp stamp) \<and> snd (split_stamp stamp) < 1000000"
    using of_int_floor_le [of stamp] by (simp add: split_stamp_def py_trunc_def not_less [symmetric])
qed

lemma tty_header_ok:
  assumes "stamp_ok stamp" "fits_s 4 op" "fits_s 4 len" "fits_s 4 direction"
  shows "\<exists>h sec usec. tty_header op len direction stamp = Inr h \<and> length h = calcsize TTYSTRUCT \<and>
    struct_unpack Little TTYSTRUCT h = Inr [SInt op, SInt 0, SInt len, SInt direction, SInt sec, SInt usec]"
proof -
  obtain sec usec where st: "split_stamp stamp = (sec, usec)" by fastforce
  have "fits_u 4 sec" "fits_u 4 usec" using split_stamp_fits [OF assms(1)] st by (simp_all add: fits_u_def)
  then have "list_all2 exact TTYSTRUCT [SInt op, SInt 0, SInt len, SInt direction, SInt sec, SInt usec]"
    using assms by (simp add: TTYSTRUCT_def fits_u_def)
  from struct_roundtrip [OF this, of Little] show ?thesis by (auto simp: tty_header_def st)
qed

lemma fits_codes [simp]: "fits_s 4 0" "fits_s 4 OP_OPEN" "fits_s 4 OP_CLOSE" "fits_s 4 OP_WRITE"
  "fits_s 4 TYPE_INPUT" "fits_s 4 TYPE_OUTPUT" "fits_s 4 TYPE_INTERACT"
  by (simp_all add: fits_s_def ttylog_eval)

lemma input_bytes_record:
  assumes "struct_unpack Little TTYSTRUCT h = Inr [SInt op, SInt t, SInt (int (length data)), SInt direction, SInt sec, SInt usec]"
  shows "input_bytes (h @ data @ rest) = (if op = OP_WRITE \<and> direction = TYPE_OUTPUT then [] else data) @ input_bytes rest"
proof -
  have "length h = calcsize TTYSTRUCT" using struct_unpack_size [OF assms] by simp
  then show ?thesis
    using assms by (subst input_bytes.simps) (simp add: fd_read_def)
qed

text \<open>A file that ends before the next header is complete: nothing more is read.\<close>

lemma input_bytes_short: "length fl < calcsize TTYSTRUCT \<Longrightarrow> input_bytes fl = []"
  by (subst input_bytes.simps) (simp add: struct_unpack_def)

text \<open>A file made of whole records, and what its records hold.\<close>

inductive recording :: "bytes \<Rightarrow> bytes \<Rightarrow> bool" where
  empty: "recording [] []"
| snoc: "recording fl ins \<Longrightarrow>
    struct_unpack Little TTYSTRUCT h = Inr [SInt op, SInt t, SInt (int (length data)), SInt direction, SInt sec, SInt usec] \<Longrightarrow>
    recording (fl @ h @ data) (ins @ (if op = OP_WRITE \<and> direction = TYPE_OUTPUT then [] else data))"

lemma recording_input: "recording fl ins \<Longrightarrow> input_bytes (fl @ rest) = ins @ input_bytes rest"
proof (induction arbitrary: rest rule: recording.induct)
  case (snoc fl ins h op t data direction sec usec)
  show ?case by (simp add: snoc.IH input_bytes_record [OF snoc.hyps(2)])
qed simp

lemma recording_hash: "recording fl ins \<Longrightarrow> ttylog_inputhash E fl = h_sha256 E ins"
  using recording_input [of fl ins "[]"] input_bytes_short [of "[]"]
  by (simp add: ttylog_inputhash_def calcsize_def TTYSTRUCT_def)

text \<open>Each operation adds one whole record.\<close>

lemma ttylog_open_recording:
  assumes "recording fl ins" "stamp_ok stamp"
  shows "\<exists>fl'. ttylog_open stamp fl = Inr fl' \<and> recording fl' ins"
proof -
  obtain h sec usec where h: "tty_header OP_OPEN 0 0 stamp = Inr h"
    "struct_unpack Little TTYSTRUCT h = Inr [SInt OP_OPEN, SInt 0, SInt 0, SInt 0, SInt sec, SInt usec]"
    using tty_header_ok [OF assms(2), of OP_OPEN 0 0] by auto
  from recording.snoc [OF assms(1), of h OP_OPEN 0 "[]" 0 sec usec] h show ?thesis
    by (auto simp: ttylog_open_def)
qed

lemma ttylog_close_recording:
  assumes "recording fl ins" "stamp_ok stamp"
  shows "\<exists>fl'. ttylog_close stamp fl = Inr fl' \<and> recording fl' ins"
proof -
  obtain h sec usec where h: "tty_header OP_CLOSE 0 0 stamp = Inr h"
    "struct_unpack Little TTYSTRUCT h = Inr [SInt OP_CLOSE, SInt 0, SInt 0, SInt 0, SInt sec, SInt usec]"
    using tty_header_ok [OF assms(2), of OP_CLOSE 0 0] by auto
  from recording.snoc [OF assms(1), of h OP_CLOSE 0 "[]" 0 sec usec] h show ?thesis
    by (auto simp: ttylog_close_def)
qed

lemma ttylog_write_recording:
  assumes "recording fl ins" "stamp_ok stamp" "int (length data) < 2147483648" "fits_s 4 direction"
  shows "\<exists>fl'. ttylog_write (int (length data)) direction stamp data fl = Inr fl' \<and>
    recording fl' (ins @ (if direction = TYPE_OUTPUT then [] else data))"
proof -
  have "fits_s 4 (int (length data))" using assms(3) by (simp add: fits_s_def)
  then obtain h sec usec where h: "tty_header OP_WRITE (int (length data)) direction stamp = Inr h"
    "struct_unpack Little TTYSTRUCT h = Inr [SInt OP_WRITE, SInt 0, SInt (int (length data)), SInt direction, SInt sec, SInt usec]"
    using tty_header_ok [OF assms(2), of OP_WRITE "int (length data)" direction] assms(4) by auto
  from recording.snoc [OF assms(1) h(2)] show ?thesis by (auto simp: ttylog_write_def h(1))
qed

text \<open>
  A recording cut off in its last header, as when the process dies, still gives the input of the
  records before.
\<close>

lemma truncated_recording: "recording fl ins \<Longrightarrow> length part < calcsize TTYSTRUCT \<Longrightarrow> ttylog_inputhash E (fl @ part) = h_sha256 E ins"
  by (simp add: ttylog_inputhash_def recording_input input_bytes_short)

end
