(* ===== verification/Recording.thy ===== *)
theory Recording
  imports Ttylog Py_Effect
begin

text \<open>
  What the sensor keeps of a session on its own disk: \<^verbatim>\<open>sensor/cowrie/src/cowrie/insults/insults.py\<close>, which
  records the terminal and stores the recording under the hash of its input, and
  \<^verbatim>\<open>sensor/cowrie/src/cowrie/core/artifact.py\<close>, which stores what a session downloads or uploads under the hash
  of its content.  The disk maps the name of a file to its bytes; the calls into Twisted's
  \<^verbatim>\<open>insults.ServerProtocol\<close> and into the terminal are recorded.  Modes of files are not modelled.
\<close>

type_synonym disk = "pystr \<rightharpoonup> bytes"

section \<open>Artifacts\<close>

record artifact =
  ar_temp :: pystr
  ar_data :: bytes
  ar_closed :: bool

definition artifact_new :: "pystr \<Rightarrow> disk \<Rightarrow> artifact \<times> disk" where
  "artifact_new temp d = (\<lparr>ar_temp = temp, ar_data = [], ar_closed = False\<rparr>, d(temp \<mapsto> []))"

definition artifact_write :: "bytes \<Rightarrow> (artifact \<times> disk, unit) eff" where
  "artifact_write data st =
     (case st of (a, d) \<Rightarrow>
        if ar_closed a then (Inl ValueError, st)
        else (Inr (), (a\<lparr>ar_data := ar_data a @ data\<rparr>,
                       if d (ar_temp a) = None then d else d(ar_temp a \<mapsto> ar_data a @ data))))"

text \<open>Removing or renaming a file that is not there raises.\<close>

definition artifact_close :: "('x) ext_scheme \<Rightarrow> pystr \<Rightarrow> bool \<Rightarrow> (artifact \<times> disk, (pystr \<times> pystr) option) eff" where
  "artifact_close E dir keepEmpty st =
     (case st of (a, d) \<Rightarrow>
        if ar_closed a then (Inl ValueError, st)
        else if ar_data a = [] \<and> \<not> keepEmpty then (Inr None, (a, d(ar_temp a := None)))
        else
          (let sha = h_sha256 E (ar_data a); target = path_join dir sha; a' = a\<lparr>ar_closed := True\<rparr> in
           if d (ar_temp a) = None then (Inl OSError, (a', d))
           else if d target \<noteq> None then (Inr (Some (sha, target)), (a', d(ar_temp a := None)))
           else (Inr (Some (sha, target)), (a', d(target := d (ar_temp a), ar_temp a := None)))))"

section \<open>The recorder of a session\<close>

record rec_conf =
  rf_ttydir :: pystr
  rf_dldir :: pystr
  rf_tty :: bool
  rf_limit :: int

datatype rec_event =
    Saved_stdin bool pystr pystr
  | Saved_redir bool pystr pystr pystr
  | Log_closed bool pystr pystr int

record recorder =
  rd_exec :: bool
  rd_ttyfile :: pystr
  rd_stdinfile :: pystr
  rd_ttyopen :: bool
  rd_stdinopen :: bool
  rd_ttysize :: int
  rd_sent :: int
  rd_received :: int
  rd_redir :: "(pystr \<times> pystr) list"
  rd_disk :: disk
  rd_events :: "rec_event list"
  rd_input :: "bytes list"          \<comment> \<open>handed on to the terminal\<close>
  rd_output :: "bytes list"         \<comment> \<open>handed on to the transport\<close>
  rd_eofs :: nat

definition recorder_init :: "bool \<Rightarrow> disk \<Rightarrow> recorder" where
  "recorder_init ex d = \<lparr>rd_exec = ex, rd_ttyfile = [], rd_stdinfile = [], rd_ttyopen = False, rd_stdinopen = False,
     rd_ttysize = 0, rd_sent = 0, rd_received = 0, rd_redir = [], rd_disk = d, rd_events = [], rd_input = [],
     rd_output = [], rd_eofs = 0\<rparr>"

text \<open>\<^verbatim>\<open>with open(name, "ab")\<close>: the file exists from then on, even when making the record fails.\<close>

definition append_file :: "pystr \<Rightarrow> (bytes \<Rightarrow> bytes res) \<Rightarrow> (recorder, unit) eff" where
  "append_file name f r =
     (let old = (case rd_disk r name of None \<Rightarrow> [] | Some b \<Rightarrow> b) in
      case f old of
        Inl e \<Rightarrow> (Inl e, r\<lparr>rd_disk := (rd_disk r)(name \<mapsto> old)\<rparr>)
      | Inr new \<Rightarrow> (Inr (), r\<lparr>rd_disk := (rd_disk r)(name \<mapsto> new)\<rparr>))"

definition connectionMade :: "rec_conf \<Rightarrow> pystr \<Rightarrow> pystr \<Rightarrow> rat \<Rightarrow> bytes \<Rightarrow> (recorder, unit) eff" where
  "connectionMade C ttyfile stdinfile now cmd =
     ebind (if rf_tty C
            then ebind (append_file ttyfile (ttylog_open now)) (\<lambda>_ r.
                   (Inr (), r\<lparr>rd_ttyfile := ttyfile, rd_ttyopen := True, rd_ttysize := 0\<rparr>))
            else eret ()) (\<lambda>_.
     ebind (\<lambda>r. (Inr (), r\<lparr>rd_stdinfile := stdinfile, rd_stdinopen := rd_exec r\<rparr>)) (\<lambda>_ r.
       if rd_exec r \<and> rf_tty C
       then append_file ttyfile (ttylog_write (int (length cmd)) TYPE_INTERACT now cmd) r
       else (Inr (), r)))"

definition rec_write :: "rec_conf \<Rightarrow> rat \<Rightarrow> bytes \<Rightarrow> (recorder, unit) eff" where
  "rec_write C now data =
     ebind (\<lambda>r. (Inr (), r\<lparr>rd_sent := rd_sent r + int (length data)\<rparr>)) (\<lambda>_.
     ebind (\<lambda>r. if rf_tty C \<and> rd_ttyopen r
                then ebind (append_file (rd_ttyfile r) (ttylog_write (int (length data)) TYPE_OUTPUT now data)) (\<lambda>_ r.
                       (Inr (), r\<lparr>rd_ttysize := rd_ttysize r + int (length data)\<rparr>)) r
                else (Inr (), r)) (\<lambda>_ r.
       (Inr (), r\<lparr>rd_output := rd_output r @ [data]\<rparr>)))"

definition rec_dataReceived :: "rec_conf \<Rightarrow> rat \<Rightarrow> bytes \<Rightarrow> (recorder, unit) eff" where
  "rec_dataReceived C now data =
     ebind (\<lambda>r. (Inr (), r\<lparr>rd_received := rd_received r + int (length data)\<rparr>)) (\<lambda>_ r.
       if rf_limit C \<noteq> 0 \<and> rf_limit C < rd_received r then (Inr (), r\<lparr>rd_eofs := rd_eofs r + 1\<rparr>)
       else ebind (\<lambda>r. if rd_stdinopen r then append_file (rd_stdinfile r) (\<lambda>b. Inr (b @ data)) r
                       else if rf_tty C \<and> rd_ttyopen r
                       then append_file (rd_ttyfile r) (ttylog_write (int (length data)) TYPE_INPUT now data) r
                       else (Inr (), r)) (\<lambda>_ r.
              (Inr (), r\<lparr>rd_input := rd_input r @ [data]\<rparr>)) r)"

text \<open>A file moved under the hash of its content, or dropped when that is there already: the answer is whether it was.\<close>

definition store_file :: "('x) ext_scheme \<Rightarrow> pystr \<Rightarrow> pystr \<Rightarrow> (recorder, bool \<times> pystr \<times> pystr) eff" where
  "store_file E dir name r =
     (case rd_disk r name of
        None \<Rightarrow> (Inl OSError, r)
      | Some b \<Rightarrow>
          (let sha = h_sha256 E b; target = path_join dir sha in
           if rd_disk r target \<noteq> None
           then (Inr (True, sha, target), r\<lparr>rd_disk := (rd_disk r)(name := None)\<rparr>)
           else (Inr (False, sha, target), r\<lparr>rd_disk := (rd_disk r)(target \<mapsto> b, name := None)\<rparr>)))"

definition rec_log :: "rec_event \<Rightarrow> (recorder, unit) eff" where
  "rec_log ev r = (Inr (), r\<lparr>rd_events := rd_events r @ [ev]\<rparr>)"

definition pass_oserror :: "(recorder, unit) eff \<Rightarrow> (recorder, unit) eff" where
  "pass_oserror m = ecatch m (\<lambda>e. if e = OSError then Some (eret ()) else None)"

definition save_stdin :: "('x) ext_scheme \<Rightarrow> rec_conf \<Rightarrow> (recorder, unit) eff" where
  "save_stdin E C r =
     (if rd_stdinopen r
      then ebind (pass_oserror (ebind (store_file E (rf_dldir C) (rd_stdinfile r)) (\<lambda>(dup, sha, target).
                    rec_log (Saved_stdin dup target sha)))) (\<lambda>_ r. (Inr (), r\<lparr>rd_stdinopen := False\<rparr>)) r
      else (Inr (), r))"

text \<open>The text behind \<^verbatim>\<open>redir_\<close>; when it is not there, \<^verbatim>\<open>find\<close> gives -1 and the text starts at 5.\<close>

fun find_sub :: "pystr \<Rightarrow> pystr \<Rightarrow> nat option" where
  "find_sub p [] = (if p = [] then Some 0 else None)"
| "find_sub p (c # s) = (if startswith (c # s) p then Some 0 else map_option Suc (find_sub p s))"

definition redir_url :: "pystr \<times> pystr \<Rightarrow> pystr" where
  "redir_url rp =
     (if snd rp \<noteq> [] then snd rp
      else case find_sub (u ''redir_'') (fst rp) of Some i \<Rightarrow> drop (i + 6) (fst rp) | None \<Rightarrow> drop 5 (fst rp))"

definition save_redir :: "('x) ext_scheme \<Rightarrow> rec_conf \<Rightarrow> pystr \<times> pystr \<Rightarrow> (recorder, unit) eff" where
  "save_redir E C rp =
     pass_oserror (\<lambda>r.
       case rd_disk r (fst rp) of
         None \<Rightarrow> (Inr (), r)
       | Some [] \<Rightarrow> (Inr (), r\<lparr>rd_disk := (rd_disk r)(fst rp := None)\<rparr>)
       | Some b \<Rightarrow> ebind (store_file E (rf_dldir C) (fst rp)) (\<lambda>(dup, sha, target).
                      rec_log (Saved_redir dup target sha (redir_url rp))) r)"

definition close_tty :: "('x) ext_scheme \<Rightarrow> rec_conf \<Rightarrow> rat \<Rightarrow> (recorder, unit) eff" where
  "close_tty E C now r =
     (if rf_tty C \<and> rd_ttyopen r
      then ebind (append_file (rd_ttyfile r) (ttylog_close now)) (\<lambda>_ r.
             let r1 = r\<lparr>rd_ttyopen := False\<rparr> in
             case rd_disk r1 (rd_ttyfile r1) of
               None \<Rightarrow> (Inl OSError, r1)
             | Some fl \<Rightarrow>
                 (let sha = ttylog_inputhash E fl; target = path_join (rf_ttydir C) sha; dup = (rd_disk r1 target \<noteq> None) in
                  rec_log (Log_closed dup target sha (rd_ttysize r1))
                    (r1\<lparr>rd_disk := (if dup then (rd_disk r1)(rd_ttyfile r1 := None)
                                    else (rd_disk r1)(target \<mapsto> fl, rd_ttyfile r1 := None))\<rparr>))) r
      else (Inr (), r))"

definition connectionLost :: "('x) ext_scheme \<Rightarrow> rec_conf \<Rightarrow> rat \<Rightarrow> (recorder, unit) eff" where
  "connectionLost E C now =
     ebind (save_stdin E C) (\<lambda>_.
     ebind (\<lambda>r. eiter (save_redir E C) (rd_redir r) r) (\<lambda>_.
     ebind (\<lambda>r. (Inr (), r\<lparr>rd_redir := []\<rparr>)) (\<lambda>_.
       close_tty E C now)))"

lemmas recording_eval [py_eval] = artifact_new_def artifact_write_def artifact_close_def recorder_init_def append_file_def
  connectionMade_def rec_write_def rec_dataReceived_def store_file_def rec_log_def pass_oserror_def save_stdin_def
  redir_url_def save_redir_def close_tty_def connectionLost_def

section \<open>Stored under their hash, never overwritten\<close>

text \<open>What is stored under a digest in a directory has that digest.\<close>

definition addressed :: "('x) ext_scheme \<Rightarrow> pystr \<Rightarrow> disk \<Rightarrow> bool" where
  "addressed E dir d \<longleftrightarrow> (\<forall>b c. d (path_join dir (h_sha256 E b)) = Some c \<longrightarrow> h_sha256 E c = h_sha256 E b)"

definition not_digest :: "('x) ext_scheme \<Rightarrow> pystr \<Rightarrow> pystr \<Rightarrow> bool" where
  "not_digest E dir name \<longleftrightarrow> (\<forall>b. name \<noteq> path_join dir (h_sha256 E b))"

lemma digest_path_inject:
  "digests_plain E \<Longrightarrow> path_join dir (h_sha256 E a) = path_join dir (h_sha256 E b) \<Longrightarrow> h_sha256 E a = h_sha256 E b"
  by (rule path_join_inject) (simp_all add: digests_plain_def)

lemma addressed_other: "not_digest E dir name \<Longrightarrow> addressed E dir (d(name := x)) = addressed E dir d"
  by (auto simp: addressed_def not_digest_def)

lemma addressed_store: "digests_plain E \<Longrightarrow> addressed E dir d \<Longrightarrow> addressed E dir (d(path_join dir (h_sha256 E b) \<mapsto> b))"
  by (auto simp: addressed_def dest: digest_path_inject)

definition artifact_open :: "artifact \<times> disk \<Rightarrow> bool" where
  "artifact_open st \<longleftrightarrow> \<not> ar_closed (fst st) \<and> snd st (ar_temp (fst st)) = Some (ar_data (fst st))"

lemma artifact_writes:
  "artifact_open (a, d) \<Longrightarrow> eiter artifact_write ws (a, d) =
     (Inr (), (a\<lparr>ar_data := ar_data a @ concat ws\<rparr>, d(ar_temp a \<mapsto> ar_data a @ concat ws)))"
proof (induction ws arbitrary: a d)
  case (Cons w ws)
  let ?a = "a\<lparr>ar_data := ar_data a @ w\<rparr>" and ?d = "d(ar_temp a \<mapsto> ar_data a @ w)"
  have "artifact_open (?a, ?d)" "artifact_write w (a, d) = (Inr (), (?a, ?d))"
    using Cons.prems by (simp_all add: artifact_open_def artifact_write_def)
  with Cons.IH [OF this(1)] show ?case by (simp add: ebind_def del: fun_upd_apply)
qed (auto simp: artifact_open_def fun_upd_idem)

lemma artifact_close_new:
  assumes "w \<noteq> []" "path_join dir (h_sha256 E w) \<noteq> temp" "d temp = None"
  shows "artifact_close E dir keep (\<lparr>ar_temp = temp, ar_data = w, ar_closed = False\<rparr>, d(temp \<mapsto> w)) =
    (Inr (Some (h_sha256 E w, path_join dir (h_sha256 E w))), (\<lparr>ar_temp = temp, ar_data = w, ar_closed = True\<rparr>,
     if d (path_join dir (h_sha256 E w)) \<noteq> None then d else d(path_join dir (h_sha256 E w) \<mapsto> w)))"
proof -
  obtain t where t: "path_join dir (h_sha256 E w) = t" by simp
  have "(d(temp \<mapsto> w))(temp := None) = d" "t \<noteq> temp \<Longrightarrow> (d(temp \<mapsto> w, t \<mapsto> w))(temp := None) = d(t \<mapsto> w)"
    using assms(3) by (simp_all add: fun_eq_iff)
  then show ?thesis
    using assms(1,2) by (simp add: artifact_close_def Let_def t)
qed

text \<open>
  An artifact written in pieces and closed is on the disk under the hash of the whole, that hash and
  name are the answer, the temporary file is gone, and every other file is as it was: content
  already there is not written again.
\<close>

theorem artifact_stored:
  assumes E: "digests_plain E" and d: "addressed E dir d" "d temp = None" "not_digest E dir temp"
    and ws: "concat ws \<noteq> []"
    and run: "(ebind (eiter artifact_write ws) (\<lambda>_. artifact_close E dir keep)) (artifact_new temp d) = (r, (a, d'))"
  shows "r = Inr (Some (h_sha256 E (concat ws), path_join dir (h_sha256 E (concat ws)))) \<and> addressed E dir d' \<and>
    (\<exists>c. d' (path_join dir (h_sha256 E (concat ws))) = Some c \<and> h_sha256 E c = h_sha256 E (concat ws)) \<and>
    (\<forall>f b. d f = Some b \<longrightarrow> d' f = Some b) \<and>
    (\<forall>f. f \<noteq> path_join dir (h_sha256 E (concat ws)) \<longrightarrow> d' f = d f)"
proof -
  let ?w = "concat ws" let ?t = "path_join dir (h_sha256 E ?w)"
  have op: "artifact_open (artifact_new temp d)" by (simp add: artifact_open_def artifact_new_def)
  have t: "?t \<noteq> temp" using d(3) by (auto simp: not_digest_def)
  have "eiter artifact_write ws (artifact_new temp d) = (Inr (), (\<lparr>ar_temp = temp, ar_data = ?w, ar_closed = False\<rparr>, d(temp \<mapsto> ?w)))"
    using op artifact_writes [of _ _ ws] by (simp add: artifact_new_def)
  then have "(r, (a, d')) = artifact_close E dir keep (\<lparr>ar_temp = temp, ar_data = ?w, ar_closed = False\<rparr>, d(temp \<mapsto> ?w))"
    using run by (simp add: ebind_def)
  also have "\<dots> = (Inr (Some (h_sha256 E ?w, ?t)), (\<lparr>ar_temp = temp, ar_data = ?w, ar_closed = True\<rparr>,
      if d ?t \<noteq> None then d else d(?t \<mapsto> ?w)))"
    by (rule artifact_close_new) (use ws t d(2) in simp_all)
  finally have "(r, (a, d')) = (Inr (Some (h_sha256 E ?w, ?t)), (\<lparr>ar_temp = temp, ar_data = ?w, ar_closed = True\<rparr>,
      if d ?t \<noteq> None then d else d(?t \<mapsto> ?w)))" .
  then have r: "r = Inr (Some (h_sha256 E ?w, ?t))" and d': "d' = (if d ?t \<noteq> None then d else d(?t \<mapsto> ?w))" by simp_all
  have ad: "addressed E dir d'" using d(1) addressed_store [OF E d(1)] by (simp add: d')
  obtain c where c: "d' ?t = Some c" by (cases "d ?t") (auto simp: d')
  then have "h_sha256 E c = h_sha256 E ?w" using ad unfolding addressed_def by blast
  moreover have "\<forall>f b. d f = Some b \<longrightarrow> d' f = Some b" "\<forall>f. f \<noteq> ?t \<longrightarrow> d' f = d f" unfolding d' by auto
  ultimately show ?thesis using r ad c by blast
qed

text \<open>The same holds of the files of a session: standard input and redirected output.\<close>

lemma store_file_addressed:
  assumes "digests_plain E" "addressed E dir (rd_disk r)" "not_digest E dir name" "store_file E dir name r = (x, r')"
  shows "addressed E dir (rd_disk r')"
proof (cases "rd_disk r name")
  case (Some b)
  have "rd_disk r' = (rd_disk r)(name := None) \<or> rd_disk r' = ((rd_disk r)(path_join dir (h_sha256 E b) \<mapsto> b))(name := None)"
    using assms(4) Some by (auto simp: store_file_def Let_def split: if_splits)
  then show ?thesis
    using assms(2) addressed_store [OF assms(1,2), of b] by (auto simp: addressed_other [OF assms(3)])
qed (use assms in \<open>auto simp: store_file_def\<close>)

section \<open>A session is recorded whole\<close>

datatype rec_op = Out rat bytes | In rat bytes

fun rec_step :: "rec_conf \<Rightarrow> rec_op \<Rightarrow> (recorder, unit) eff" where
  "rec_step C (Out now data) = rec_write C now data"
| "rec_step C (In now data) = rec_dataReceived C now data"

fun op_ok :: "rec_op \<Rightarrow> bool" where
  "op_ok (Out now data) = (stamp_ok now \<and> int (length data) < 2147483648)"
| "op_ok (In now data) = (stamp_ok now \<and> int (length data) < 2147483648)"

text \<open>The input that the limit lets through, and the size of the output.\<close>

fun admitted :: "int \<Rightarrow> int \<Rightarrow> rec_op list \<Rightarrow> bytes list" where
  "admitted lmt n [] = []"
| "admitted lmt n (Out now data # ops) = admitted lmt n ops"
| "admitted lmt n (In now data # ops) =
     (if lmt \<noteq> 0 \<and> lmt < n + int (length data) then [] else [data]) @ admitted lmt (n + int (length data)) ops"

fun shown :: "rec_op list \<Rightarrow> bytes list" where
  "shown [] = []"
| "shown (Out now data # ops) = data # shown ops"
| "shown (In now data # ops) = shown ops"

definition live :: "rec_conf \<Rightarrow> pystr \<Rightarrow> bytes \<Rightarrow> recorder \<Rightarrow> bool" where
  "live C tty ins r \<longleftrightarrow> rf_tty C \<and> rd_ttyopen r \<and> \<not> rd_stdinopen r \<and> rd_ttyfile r = tty \<and>
     (\<exists>fl. rd_disk r tty = Some fl \<and> recording fl ins)"

lemma append_live:
  assumes "live C tty ins r" "\<And>fl. recording fl ins \<Longrightarrow> \<exists>fl'. f fl = Inr fl' \<and> recording fl' (ins @ ins')"
  shows "\<exists>fl. append_file tty f r = (Inr (), r\<lparr>rd_disk := (rd_disk r)(tty \<mapsto> fl)\<rparr>) \<and> recording fl (ins @ ins')"
proof -
  obtain fl where fl: "rd_disk r tty = Some fl" "recording fl ins" using assms(1) by (auto simp: live_def)
  from assms(2) [OF fl(2)] fl(1) show ?thesis by (auto simp: append_file_def)
qed

lemma rec_write_live:
  assumes "live C tty ins r" "op_ok (Out now data)"
  shows "\<exists>fl. rec_write C now data r = (Inr (), r\<lparr>rd_sent := rd_sent r + int (length data), rd_disk := (rd_disk r)(tty \<mapsto> fl),
    rd_ttysize := rd_ttysize r + int (length data), rd_output := rd_output r @ [data]\<rparr>) \<and> recording fl ins"
proof -
  let ?r = "r\<lparr>rd_sent := rd_sent r + int (length data)\<rparr>"
  have "live C tty ins ?r" using assms(1) by (simp add: live_def)
  then obtain fl where "append_file tty (ttylog_write (int (length data)) TYPE_OUTPUT now data) ?r = (Inr (), ?r\<lparr>rd_disk := (rd_disk r)(tty \<mapsto> fl)\<rparr>)"
      "recording fl ins"
    using append_live [of C tty ins ?r _ "[]"] ttylog_write_recording [of _ ins now data TYPE_OUTPUT] assms(2) by auto
  with assms(1) show ?thesis by (auto simp: rec_write_def ebind_def live_def)
qed

lemma rec_data_live:
  assumes "live C tty ins r" "op_ok (In now data)"
  defines "n \<equiv> rd_received r + int (length data)"
  shows "if rf_limit C \<noteq> 0 \<and> rf_limit C < n
    then rec_dataReceived C now data r = (Inr (), r\<lparr>rd_received := n, rd_eofs := rd_eofs r + 1\<rparr>)
    else \<exists>fl. rec_dataReceived C now data r = (Inr (), r\<lparr>rd_received := n, rd_disk := (rd_disk r)(tty \<mapsto> fl),
      rd_input := rd_input r @ [data]\<rparr>) \<and> recording fl (ins @ data)"
proof -
  let ?r = "r\<lparr>rd_received := n\<rparr>"
  have "live C tty ins ?r" using assms(1) by (simp add: live_def)
  then obtain fl where "append_file tty (ttylog_write (int (length data)) TYPE_INPUT now data) ?r = (Inr (), ?r\<lparr>rd_disk := (rd_disk r)(tty \<mapsto> fl)\<rparr>)"
      "recording fl (ins @ data)"
    using append_live [of C tty ins ?r _ data] ttylog_write_recording [of _ ins now data TYPE_INPUT] assms(2)
    by (auto simp: TYPE_INPUT_def TYPE_OUTPUT_def fits_s_def)
  with assms(1) show ?thesis by (auto simp: rec_dataReceived_def ebind_def live_def n_def)
qed

lemma rec_steps_live:
  assumes "live C tty ins r" "list_all op_ok ops"
  shows "\<exists>r'. eiter (rec_step C) ops r = (Inr (), r') \<and>
    live C tty (ins @ concat (admitted (rf_limit C) (rd_received r) ops)) r' \<and>
    (\<forall>f. f \<noteq> tty \<longrightarrow> rd_disk r' f = rd_disk r f) \<and> rd_redir r' = rd_redir r \<and> rd_events r' = rd_events r \<and>
    rd_input r' = rd_input r @ admitted (rf_limit C) (rd_received r) ops \<and> rd_output r' = rd_output r @ shown ops \<and>
    rd_ttysize r' = rd_ttysize r + int (length (concat (shown ops)))"
  using assms
proof (induction ops arbitrary: r ins)
  case Nil
  then show ?case by simp
next
  case (Cons e ops)
  show ?case
  proof (cases e)
    case (Out now data)
    with Cons.prems obtain fl where w: "rec_write C now data r = (Inr (), r\<lparr>rd_sent := rd_sent r + int (length data), rd_disk := (rd_disk r)(tty \<mapsto> fl),
        rd_ttysize := rd_ttysize r + int (length data), rd_output := rd_output r @ [data]\<rparr>)" "recording fl ins"
      using rec_write_live [of C tty ins r now data] by auto
    have l: "live C tty ins (snd (rec_write C now data r))" using Cons.prems(1) w(2) by (simp add: w(1) live_def)
    from Cons.IH [OF l] Cons.prems(2) Out show ?thesis by (auto simp: w(1) ebind_def)
  next
    case (In now data)
    let ?n = "rd_received r + int (length data)"
    have ok: "op_ok (In now data)" using Cons.prems(2) In by simp
    show ?thesis
    proof (cases "rf_limit C \<noteq> 0 \<and> rf_limit C < ?n")
      case True
      then have w: "rec_dataReceived C now data r = (Inr (), r\<lparr>rd_received := ?n, rd_eofs := rd_eofs r + 1\<rparr>)"
        using rec_data_live [OF Cons.prems(1) ok] by simp
      have l: "live C tty ins (snd (rec_dataReceived C now data r))" using Cons.prems(1) by (simp add: w live_def)
      from Cons.IH [OF l] Cons.prems(2) In True show ?thesis by (auto simp: w ebind_def)
    next
      case False
      then obtain fl where w: "rec_dataReceived C now data r = (Inr (), r\<lparr>rd_received := ?n, rd_disk := (rd_disk r)(tty \<mapsto> fl),
          rd_input := rd_input r @ [data]\<rparr>)" "recording fl (ins @ data)"
        using rec_data_live [OF Cons.prems(1) ok] by (auto split: if_splits)
      have l: "live C tty (ins @ data) (snd (rec_dataReceived C now data r))" using Cons.prems(1) w(2) by (simp add: w(1) live_def)
      from Cons.IH [OF l] Cons.prems(2) In False show ?thesis by (auto simp: w(1) ebind_def)
    qed
  qed
qed


section \<open>Witnesses\<close>

lemma ascii_digests_plain: "digests_plain ascii_ext"
  by (simp add: digests_plain_def ascii_ext_def startswith_def u_def)

lemma demo_not_digest: "not_digest ascii_ext (u ''d'') (u ''t'')"
  by (simp add: not_digest_def path_join_def ascii_ext_def startswith_def endswith_def u_def)

theorem artifact_stored_witness:
  "\<exists>a d'. (ebind (eiter artifact_write [[1], [2]]) (\<lambda>_. artifact_close ascii_ext (u ''d'') False)) (artifact_new (u ''t'') Map.empty) =
     (Inr (Some (h_sha256 ascii_ext [1, 2], path_join (u ''d'') (h_sha256 ascii_ext [1, 2]))), (a, d')) \<and>
     addressed ascii_ext (u ''d'') d'"
proof -
  let ?run = "(ebind (eiter artifact_write [[1], [2]]) (\<lambda>_. artifact_close ascii_ext (u ''d'') False)) (artifact_new (u ''t'') Map.empty)"
  obtain r a d' where run: "?run = (r, (a, d'))" by (cases ?run) auto
  have "addressed ascii_ext (u ''d'') Map.empty" by (simp add: addressed_def)
  from artifact_stored [OF ascii_digests_plain this _ demo_not_digest _ run] run show ?thesis by auto
qed

definition demo_rec :: rec_conf where
  "demo_rec = \<lparr>rf_ttydir = u ''d'', rf_dldir = u ''d'', rf_tty = True, rf_limit = 2\<rparr>"


end
