(* ===== verification/Shell_Pipe.thy ===== *)
theory Shell_Pipe
  imports Virtual_Fs Shell_Parser Recording Py_Bytes
begin

text \<open>
  \<^verbatim>\<open>sensor/cowrie/src/cowrie/shell/pipe.py\<close>: where the output of a command of the emulated shell goes.  The
  redirections of the command line build a table of file descriptors; a redirected file exists
  twice, as a node of the emulated file system and as a file on the disk of the sensor that backs
  it.  The state is one command of a pipeline with the file system, the disk and what was written
  to the terminal; of the command behind it only its input is kept.  The time and the identifiers
  of the session, which begin the name of a backing file, are arguments.  Opening a file of the
  disk for writing succeeds.
\<close>

section \<open>State\<close>

record file_info =
  fi_virtual :: pystr
  fi_real :: pystr
  fi_append :: bool
  fi_start :: int

datatype fd_target =
    Fd_stdin | Fd_terminal | Fd_pipe | Fd_capture | Fd_file file_info | Fd_file_input pystr | Fd_devnull

record pipe_conf =
  pq_cwd :: pystr
  pq_uid :: int
  pq_gid :: int
  pq_now :: rat
  pq_stamp :: pystr        \<comment> \<open>time, transport and session: the front of the name of a backing file\<close>
  pq_downloads :: pystr
  pq_contents :: pystr
  pq_arch :: "fs_error + bytes"

record pipe =
  pp_targets :: "(int \<times> fd_target) list"
  pp_input :: "bytes option"
  pp_next :: "bytes option option"   \<comment> \<open>the input of the next command, when there is one\<close>
  pp_next_error :: bool
  pp_redirected :: bytes
  pp_err_data :: bytes
  pp_error :: bool
  pp_real_files :: "(pystr \<times> pystr) list"
  pp_stdout :: int
  pp_stderr :: int
  pp_fs :: vfs
  pp_disk :: disk
  pp_term :: "bytes list"

type_synonym 'a pop = "(fs_error, pipe, 'a) eff_of"

definition term_write :: "bytes \<Rightarrow> unit pop" where
  "term_write data p = (Inr (), p\<lparr>pp_term := pp_term p @ [data]\<rparr>)"

definition set_target :: "int \<Rightarrow> fd_target \<Rightarrow> unit pop" where
  "set_target fd t p = (Inr (), p\<lparr>pp_targets := AList.update fd t (pp_targets p)\<rparr>)"

definition pipe_fs :: "'a fsop \<Rightarrow> 'a pop" where
  "pipe_fs m p = (case m (pp_fs p) of (r, vf) \<Rightarrow> (r, p\<lparr>pp_fs := vf\<rparr>))"

section \<open>Preparing files\<close>

text \<open>A text that cannot be encoded goes to the log instead.\<close>

definition emit_redirection_error :: "pystr \<Rightarrow> unit pop" where
  "emit_redirection_error message p =
     (case utf8_encode message of
        Inr b \<Rightarrow> term_write b
      | Inl _ \<Rightarrow> eret ()) (p\<lparr>pp_error := True\<rparr>)"

definition bash_error :: "pystr \<Rightarrow> string \<Rightarrow> pystr" where
  "bash_error target what = u ''-bash: '' @ target @ u '': '' @ u what @ [10]"

definition read_disk :: "disk \<Rightarrow> pystr \<Rightarrow> fs_error + bytes" where
  "read_disk d name = (case d name of Some b \<Rightarrow> Inr b | None \<Rightarrow> Inl (FsOSError ENOENT))"

definition prepare_stdin :: "pipe_conf \<Rightarrow> pystr \<Rightarrow> unit pop" where
  "prepare_stdin C target p =
     (case rbind (resolve_path (vf_home (pp_fs p)) target (pq_cwd C)) (\<lambda>path.
             file_contents (read_disk (pp_disk p)) (pq_arch C) path (pp_fs p)) of
        Inr data \<Rightarrow> (Inr (), p\<lparr>pp_input := Some data\<rparr>)
      | Inl FsNotFound \<Rightarrow> emit_redirection_error (bash_error target ''No such file or directory'') p
      | Inl FsPermissionDenied \<Rightarrow> emit_redirection_error (bash_error target ''Permission denied'') p
      | Inl e \<Rightarrow> (Inl e, p))"

definition has_realfile :: "fnode \<Rightarrow> bool" where
  "has_realfile x \<longleftrightarrow> a_realfile (attr x) \<noteq> None \<and> a_realfile (attr x) \<noteq> Some []"

definition needs_new_backing :: "pipe_conf \<Rightarrow> entry option \<Rightarrow> bool" where
  "needs_new_backing C r =
     (case r of
        None \<Rightarrow> True
      | Some (_, x) \<Rightarrow> \<not> has_realfile x \<or> startswith (the (a_realfile (attr x))) (pq_contents C))"

definition sanitize :: "pystr \<Rightarrow> pystr" where
  "sanitize = map (\<lambda>c. if 65 \<le> c \<and> c \<le> 90 \<or> 97 \<le> c \<and> c \<le> 122 \<or> 48 \<le> c \<and> c \<le> 57 then c else 95)"

definition backing_name :: "pipe_conf \<Rightarrow> pystr \<Rightarrow> pystr" where
  "backing_name C outfile = path_join (pq_downloads C) (pq_stamp C @ u ''-redir_'' @ sanitize outfile)"

definition open_append :: "pystr \<Rightarrow> unit pop" where
  "open_append name p =
     (Inr (), p\<lparr>pp_disk := (if pp_disk p name = None then (pp_disk p)(name \<mapsto> []) else pp_disk p)\<rparr>)"

definition update_realfile :: "disk \<Rightarrow> entry \<Rightarrow> pystr \<Rightarrow> vfs \<Rightarrow> vfs" where
  "update_realfile d f rname vf =
     (if \<not> has_realfile (snd f) \<and> d rname \<noteq> None \<and> a_size (attr (snd f)) < 25000000
      then vf\<lparr>vf_tree := update_at (\<lambda>x. FNode ((attr x)\<lparr>a_realfile := Some rname\<rparr>) (body x)) (fst f) (vf_tree vf)\<rparr>
      else vf)"

text \<open>The node of the file, looked up again: None there ends in a TypeError.\<close>

definition back_file :: "pystr \<Rightarrow> pystr \<Rightarrow> unit pop" where
  "back_file outfile rname p =
     (case file_at True outfile (pp_fs p) of
        Inl e \<Rightarrow> (Inl e, p)
      | Inr None \<Rightarrow> (Inl FsTypeError, p)
      | Inr (Some f) \<Rightarrow> (Inr (), p\<lparr>pp_fs := update_realfile (pp_disk p) f rname (pp_fs p)\<rparr>))"

definition create_redirect_target :: "pipe_conf \<Rightarrow> pystr \<Rightarrow> pystr option pop" where
  "create_redirect_target C outfile p =
     (case pipe_fs (mkfile outfile (pq_uid C) (pq_gid C) 0 33188 (pq_now C)) p of
        (Inl FsNotFound, q) \<Rightarrow>
          ebind (emit_redirection_error (bash_error outfile ''No such file or directory'')) (\<lambda>_. eret None) q
      | (Inl FsPermissionDenied, q) \<Rightarrow>
          ebind (emit_redirection_error (bash_error outfile ''Permission denied'')) (\<lambda>_. eret None) q
      | (Inl e, q) \<Rightarrow> (Inl e, q)
      | (Inr _, q) \<Rightarrow>
          ebind (open_append (backing_name C outfile)) (\<lambda>_.
          ebind (back_file outfile (backing_name C outfile)) (\<lambda>_. eret (Some (backing_name C outfile)))) q)"

definition reuse_existing_backing :: "pystr \<Rightarrow> fnode \<Rightarrow> bool \<Rightarrow> (pystr \<times> int) pop" where
  "reuse_existing_backing outfile x app =
     (let rname = the (a_realfile (attr x)) in
      if app then eret (rname, a_size (attr x))
      else ebind (\<lambda>p. (Inr (), p\<lparr>pp_disk := (pp_disk p)(rname \<mapsto> [])\<rparr>)) (\<lambda>_.
           ebind (pipe_fs (update_size outfile 0)) (\<lambda>_. eret (rname, 0))))"

text \<open>The file a redirection writes to: None when it could not be made, \<^verbatim>\<open>/dev/null\<close> apart.\<close>

definition note_real_file :: "pystr \<times> pystr \<Rightarrow> unit pop" where
  "note_real_file rf p = (Inr (), p\<lparr>pp_real_files := pp_real_files p @ [rf]\<rparr>)"

definition prepare_output_file :: "pipe_conf \<Rightarrow> pystr \<Rightarrow> bool \<Rightarrow> fd_target option pop" where
  "prepare_output_file C target app p =
     (case resolve_path (vf_home (pp_fs p)) target (pq_cwd C) of
        Inl e \<Rightarrow> (Inl e, p)
      | Inr outfile \<Rightarrow>
          (case file_at True outfile (pp_fs p) of
             Inl e \<Rightarrow> (Inl e, p)
           | Inr r \<Rightarrow>
               if outfile = u ''/dev/null'' then (Inr (Some Fd_devnull), p)
               else ebind
                 (if needs_new_backing C r
                  then ebind (create_redirect_target C outfile) (\<lambda>safe.
                         eret (map_option (\<lambda>rname. (rname, case r of Some (_, x) \<Rightarrow> if app then a_size (attr x) else 0 | None \<Rightarrow> 0)) safe))
                  else ebind (reuse_existing_backing outfile (snd (the r)) app) (\<lambda>x. eret (Some x))) (\<lambda>b.
                 case b of
                   None \<Rightarrow> eret None
                 | Some (rname, start) \<Rightarrow>
                     ebind (note_real_file (rname, outfile)) (\<lambda>_.
                       eret (Some (Fd_file \<lparr>fi_virtual = outfile, fi_real = rname, fi_append = app, fi_start = start\<rparr>)))) p))"

section \<open>The table of descriptors\<close>

definition set_written :: "int \<Rightarrow> int \<Rightarrow> unit pop" where
  "set_written fd n p =
     (Inr (), if fd = 1 then p\<lparr>pp_stdout := n\<rparr> else if fd = 2 then p\<lparr>pp_stderr := n\<rparr> else p)"

fun setup_op :: "pipe_conf \<Rightarrow> redir_op \<Rightarrow> pystr option \<Rightarrow> pystr option pop" where
  "setup_op C (Redir_file fd target app) pending =
     ebind (prepare_output_file C target app) (\<lambda>r.
       case r of
         Some (Fd_file fi) \<Rightarrow> ebind (set_target fd (Fd_file fi)) (\<lambda>_. ebind (set_written fd (fi_start fi)) (\<lambda>_. eret pending))
       | Some t \<Rightarrow> ebind (set_target fd t) (\<lambda>_. eret pending)
       | None \<Rightarrow> eret pending)"
| "setup_op C (Redir_stdin fd target) pending =
     ebind (set_target fd (Fd_file_input target)) (\<lambda>_. eret (Some target))"
| "setup_op C (Redir_dup fd target_fd) pending =
     (\<lambda>p. ebind (case map_of (pp_targets p) target_fd of
                   Some t \<Rightarrow> set_target fd t
                 | None \<Rightarrow> eret ()) (\<lambda>_. eret pending) p)"

definition setup_redirections :: "pipe_conf \<Rightarrow> redir_op list \<Rightarrow> unit pop" where
  "setup_redirections C ops =
     ebind (efold (setup_op C) ops None) (\<lambda>pending.
       case pending of
         Some target \<Rightarrow> if target \<noteq> [] then prepare_stdin C target else eret ()
       | None \<Rightarrow> eret ())"

text \<open>The constructor, before the redirections are processed; \<open>nxt\<close> is the input of the next command and \<open>nerr\<close> whether its redirections failed.\<close>

definition pipe_new :: "bytes option option \<Rightarrow> bool \<Rightarrow> bool \<Rightarrow> vfs \<Rightarrow> disk \<Rightarrow> bytes list \<Rightarrow> pipe" where
  "pipe_new nxt nerr redirect vf d tm =
     \<lparr>pp_targets = [(0, Fd_stdin), (1, if redirect then Fd_capture else if nxt \<noteq> None then Fd_pipe else Fd_terminal), (2, Fd_terminal)],
      pp_input = None, pp_next = nxt, pp_next_error = nerr, pp_redirected = [], pp_err_data = [], pp_error = False,
      pp_real_files = [], pp_stdout = 0, pp_stderr = 0, pp_fs = vf, pp_disk = d, pp_term = tm\<rparr>"

definition has_redirection_error :: "pipe \<Rightarrow> bool" where
  "has_redirection_error p \<longleftrightarrow> pp_error p \<or> pp_next p \<noteq> None \<and> pp_next_error p"

section \<open>Writing\<close>

definition pipe_to_next :: "bytes \<Rightarrow> unit pop" where
  "pipe_to_next data p =
     (Inr (), case pp_next p of
        None \<Rightarrow> p
      | Some None \<Rightarrow> p\<lparr>pp_next := Some (Some data)\<rparr>
      | Some (Some old) \<Rightarrow> p\<lparr>pp_next := Some (Some (old @ data))\<rparr>)"

definition disk_append :: "pystr \<Rightarrow> bytes \<Rightarrow> unit pop" where
  "disk_append name data p =
     (Inr (), p\<lparr>pp_disk := (pp_disk p)(name \<mapsto> (case pp_disk p name of None \<Rightarrow> [] | Some b \<Rightarrow> b) @ data)\<rparr>)"

definition count_written :: "bool \<Rightarrow> nat \<Rightarrow> int pop" where
  "count_written is_stdout n p =
     (if is_stdout then (Inr (pp_stdout p + int n), p\<lparr>pp_stdout := pp_stdout p + int n\<rparr>)
      else (Inr (pp_stderr p + int n), p\<lparr>pp_stderr := pp_stderr p + int n\<rparr>))"

definition write_to_file :: "file_info \<Rightarrow> bytes \<Rightarrow> bool \<Rightarrow> unit pop" where
  "write_to_file fi data is_stdout =
     ebind (disk_append (fi_real fi) data) (\<lambda>_.
     ebind (count_written is_stdout (length data)) (\<lambda>written.
       pipe_fs (update_size (fi_virtual fi) written)))"

definition write_to_fd :: "int \<Rightarrow> bytes \<Rightarrow> unit pop" where
  "write_to_fd fd data p =
     (case map_of (pp_targets p) fd of
        None \<Rightarrow> (Inr (), p)
      | Some Fd_terminal \<Rightarrow> term_write data p
      | Some Fd_pipe \<Rightarrow> pipe_to_next data p
      | Some Fd_capture \<Rightarrow> (Inr (), p\<lparr>pp_redirected := pp_redirected p @ data\<rparr>)
      | Some (Fd_file fi) \<Rightarrow> write_to_file fi data (fd = 1) p
      | Some _ \<Rightarrow> (Inr (), p))"

definition write_stdout :: "bytes \<Rightarrow> unit pop" where
  "write_stdout data = write_to_fd 1 data"

definition write_stderr :: "bytes \<Rightarrow> unit pop" where
  "write_stderr data =
     ebind (\<lambda>p. (Inr (), p\<lparr>pp_err_data := pp_err_data p @ data\<rparr>)) (\<lambda>_. write_to_fd 2 data)"

definition pipe_connectionMade :: "pipe \<Rightarrow> pipe" where
  "pipe_connectionMade p = (if pp_input p = None then p\<lparr>pp_input := Some []\<rparr> else p)"

lemmas pipe_eval [py_eval] = term_write_def set_target_def pipe_fs_def emit_redirection_error_def bash_error_def read_disk_def
  prepare_stdin_def has_realfile_def needs_new_backing_def sanitize_def backing_name_def open_append_def update_realfile_def
  back_file_def create_redirect_target_def reuse_existing_backing_def note_real_file_def prepare_output_file_def set_written_def
  setup_redirections_def pipe_new_def has_redirection_error_def pipe_to_next_def disk_append_def count_written_def
  write_to_file_def write_to_fd_def write_stdout_def write_stderr_def pipe_connectionMade_def

section \<open>An attribute of one node\<close>

lemma locate_update:
  assumes "locate ps t = Some (l, x)" "\<And>y. node_name (f y) = node_name y"
  shows "locate ps (update_at f l t) = Some (l, f x)"
  using assms(1)
proof (induction ps arbitrary: t l)
  case (Cons p ps)
  then obtain ks i l' where k: "body t = Kids ks" "first_index (\<lambda>x. node_name x = p) ks = Some i"
    "locate ps (ks ! i) = Some (l', x)" "l = i # l'"
    by (auto split: fbody.splits option.splits)
  have i: "i < length ks" using first_index_Some [OF k(2)] by simp
  have "map node_name (ks[i := update_at f l' (ks ! i)]) = map node_name ks"
    using i update_at_name [OF assms(2)] by (simp add: map_update list_update_same_conv)
  then have "first_index (\<lambda>x. node_name x = p) (ks[i := update_at f l' (ks ! i)]) = Some i"
    using k(2) first_index_map [of node_name p ks] first_index_map [of node_name p "ks[i := update_at f l' (ks ! i)]"] by simp
  with k i Cons.IH [OF k(3)] show ?case by simp
qed simp

lemma file_at_locate:
  assumes "good (vf_tree vf)" "0 < vf_depth vf" "list_all plain_piece ps" "locate ps (vf_tree vf) = Some e"
  shows "file_at follow (abs_path ps) vf = Inr (Some e)"
proof -
  obtain n where "vf_depth vf = Suc n" using assms(2) gr0_implies_Suc by blast
  then show ?thesis using getfile_good(1) [OF assms(1,3)] assms(4) by (cases e) simp
qed

definition with_attr :: "(fattr \<Rightarrow> fattr) \<Rightarrow> nat list \<Rightarrow> vfs \<Rightarrow> vfs" where
  "with_attr g l vf = vf\<lparr>vf_tree := update_at (\<lambda>x. FNode (g (attr x)) (body x)) l (vf_tree vf)\<rparr>"

lemma with_attr_locate:
  assumes "locate ps (vf_tree vf) = Some (l, x)" "\<And>a. a_name (g a) = a_name a"
  shows "locate ps (vf_tree (with_attr g l vf)) = Some (l, FNode (g (attr x)) (body x))"
  using locate_update [OF assms(1), of "\<lambda>x. FNode (g (attr x)) (body x)"] assms(2) by (simp add: with_attr_def)

lemma with_attr_parts [simp]:
  "vf_depth (with_attr g l vf) = vf_depth vf" "vf_home (with_attr g l vf) = vf_home vf"
  "vf_newcount (with_attr g l vf) = vf_newcount vf"
  by (simp_all add: with_attr_def)

lemma with_attr_good:
  "good (vf_tree vf) \<Longrightarrow> (\<And>a. a_name (g a) = a_name a \<and> a_type (g a) = a_type a) \<Longrightarrow> good (vf_tree (with_attr g l vf))"
  by (simp add: with_attr_def good_change)

section \<open>What was written is what is read\<close>

text \<open>A redirected file: its node, of a given size, is backed by a file of the disk with the given bytes.\<close>

definition backed :: "pystr list \<Rightarrow> pystr \<Rightarrow> bytes \<Rightarrow> int \<Rightarrow> pipe \<Rightarrow> bool" where
  "backed ps rname b n p \<longleftrightarrow>
     good (vf_tree (pp_fs p)) \<and> 0 < vf_depth (pp_fs p) \<and> list_all plain_piece ps \<and> rname \<noteq> [] \<and> pp_disk p rname = Some b \<and>
     (\<exists>l x. locate ps (vf_tree (pp_fs p)) = Some (l, x) \<and> a_type (attr x) = T_FILE \<and>
        a_realfile (attr x) = Some rname \<and> a_size (attr x) = n)"

lemma backed_real_files [simp]: "backed ps rname b n (p\<lparr>pp_real_files := rs\<rparr>) = backed ps rname b n p"
  by (simp add: backed_def)

lemma backed_reads:
  assumes "backed ps rname b n p"
  shows "file_contents (read_disk (pp_disk p)) arch (abs_path ps) (pp_fs p) = Inr b"
proof -
  obtain l x where b: "good (vf_tree (pp_fs p))" "0 < vf_depth (pp_fs p)" "list_all plain_piece ps" "rname \<noteq> []"
    "pp_disk p rname = Some b" "locate ps (vf_tree (pp_fs p)) = Some (l, x)" "a_type (attr x) = T_FILE"
    "a_realfile (attr x) = Some rname"
    using assms by (auto simp: backed_def)
  have "file_at True (abs_path ps) (pp_fs p) = Inr (Some (l, x))" by (rule file_at_locate [OF b(1-3,6)])
  with b show ?thesis
    by (auto simp: file_contents_def resolve_abs exists_def read_disk_def split: list.split)
qed

lemma update_size_located:
  assumes "good (vf_tree vf)" "0 < vf_depth vf" "list_all plain_piece ps" "locate ps (vf_tree vf) = Some (l, x)" "a_type (attr x) = T_FILE"
  shows "update_size (abs_path ps) n vf = (Inr (), with_attr (\<lambda>a. a\<lparr>a_size := n\<rparr>) l vf)"
  using file_at_locate [OF assms(1-4)] assms(5) by (simp add: update_size_def with_attr_def)

lemma backed_resized:
  assumes "backed ps rname b m p"
  shows "\<exists>vf. pipe_fs (update_size (abs_path ps) n) p = (Inr (), p\<lparr>pp_fs := vf\<rparr>) \<and> backed ps rname b n (p\<lparr>pp_fs := vf\<rparr>)"
proof -
  obtain l x where b: "good (vf_tree (pp_fs p))" "0 < vf_depth (pp_fs p)" "list_all plain_piece ps" "rname \<noteq> []"
    "pp_disk p rname = Some b" "locate ps (vf_tree (pp_fs p)) = Some (l, x)" "a_type (attr x) = T_FILE"
    "a_realfile (attr x) = Some rname"
    using assms by (auto simp: backed_def)
  let ?g = "\<lambda>a. a\<lparr>a_size := n\<rparr>" let ?vf = "with_attr ?g l (pp_fs p)"
  have "pipe_fs (update_size (abs_path ps) n) p = (Inr (), p\<lparr>pp_fs := ?vf\<rparr>)"
    using update_size_located [OF b(1-3,6,7)] by (simp add: pipe_fs_def)
  moreover have "backed ps rname b n (p\<lparr>pp_fs := ?vf\<rparr>)"
    using b with_attr_locate [OF b(6), of ?g] with_attr_good [OF b(1), of ?g l] by (simp add: backed_def)
  ultimately show ?thesis by blast
qed

lemma write_backed:
  assumes "backed ps (fi_real fi) b n p" "fi_virtual fi = abs_path ps"
  shows "\<exists>q. write_to_file fi data out p = (Inr (), q) \<and>
    backed ps (fi_real fi) (b @ data) ((if out then pp_stdout p else pp_stderr p) + int (length data)) q \<and>
    pp_targets q = pp_targets p \<and> pp_term q = pp_term p \<and> pp_real_files q = pp_real_files p \<and>
    pp_stdout q = (if out then pp_stdout p + int (length data) else pp_stdout p) \<and>
    pp_stderr q = (if out then pp_stderr p else pp_stderr p + int (length data)) \<and>
    pp_disk q = (pp_disk p)(fi_real fi \<mapsto> b @ data)"
proof -
  let ?n = "(if out then pp_stdout p else pp_stderr p) + int (length data)"
  let ?p1 = "p\<lparr>pp_disk := (pp_disk p)(fi_real fi \<mapsto> b @ data)\<rparr>"
  let ?p2 = "if out then ?p1\<lparr>pp_stdout := ?n\<rparr> else ?p1\<lparr>pp_stderr := ?n\<rparr>"
  have d: "pp_disk p (fi_real fi) = Some b" using assms(1) by (simp add: backed_def)
  have "backed ps (fi_real fi) (b @ data) n ?p2" using assms(1) by (simp add: backed_def)
  from backed_resized [OF this, of ?n] obtain vf where
    vf: "pipe_fs (update_size (abs_path ps) ?n) ?p2 = (Inr (), ?p2\<lparr>pp_fs := vf\<rparr>)"
      "backed ps (fi_real fi) (b @ data) ?n (?p2\<lparr>pp_fs := vf\<rparr>)" by blast
  have "write_to_file fi data out p = (Inr (), ?p2\<lparr>pp_fs := vf\<rparr>)"
    using vf(1) d assms(2) by (simp add: write_to_file_def ebind_def disk_append_def count_written_def split: if_splits)
  with vf(2) show ?thesis by auto
qed

lemma backing_name_nonempty [simp]: "backing_name C outfile \<noteq> []"
  by (simp add: backing_name_def path_join_def Let_def u_def)

lemma mkfile_result:
  "mkfile path uid gid n mode now vf = (r, vf') \<Longrightarrow> vf_depth vf' = vf_depth vf \<and> vf_home vf' = vf_home vf"
  "mkfile path uid gid n mode now vf = (Inr z, vf') \<Longrightarrow> vf_newcount vf \<le> 10000 \<Longrightarrow> z"
  by (auto simp: mkfile_def Let_def split: if_splits sum.splits fbody.splits)

lemma error_not_done:
  "(ebind (emit_redirection_error m) (\<lambda>_. eret None)) q \<noteq> (Inr (Some x), q')"
  by (auto simp: ebind_def emit_redirection_error_def term_write_def split: sum.splits)

lemma created_backed:
  assumes "good (vf_tree (pp_fs p))" "0 < vf_depth (pp_fs p)" "vf_newcount (pp_fs p) \<le> 10000"
    and ps: "list_all plain_piece ds" "plain_piece z" and fresh: "pp_disk p (backing_name C (abs_path (ds @ [z]))) = None"
    and run: "create_redirect_target C (abs_path (ds @ [z])) p = (Inr (Some rname), q)"
  shows "rname = backing_name C (abs_path (ds @ [z])) \<and> backed (ds @ [z]) rname [] 0 q \<and>
    (\<exists>vf. q = p\<lparr>pp_fs := vf, pp_disk := (pp_disk p)(rname \<mapsto> [])\<rparr>)"
proof -
  let ?out = "abs_path (ds @ [z])" let ?b = "backing_name C ?out"
  obtain r vf1 where m: "mkfile ?out (pq_uid C) (pq_gid C) 0 33188 (pq_now C) (pp_fs p) = (r, vf1)" by fastforce
  have "\<exists>y. r = Inr y"
    using run m by (auto simp: create_redirect_target_def pipe_fs_def error_not_done split: sum.splits fs_error.splits)
  with mkfile_result(2) [of ?out] assms(3) m have m1: "mkfile ?out (pq_uid C) (pq_gid C) 0 33188 (pq_now C) (pp_fs p) = (Inr True, vf1)"
    by auto
  note c = mkfile_creates [OF assms(1) ps m1]
  obtain l where l: "locate (ds @ [z]) (vf_tree vf1) = Some (l, new_node z T_FILE (pq_uid C) (pq_gid C) 0 33188 (pq_now C))"
    using c by (auto simp: lookup_locate)
  have dep: "0 < vf_depth vf1" and pl: "list_all plain_piece (ds @ [z])" using mkfile_result(1) [OF m1] assms(2) ps by simp_all
  have f: "file_at True ?out vf1 = Inr (Some (l, new_node z T_FILE (pq_uid C) (pq_gid C) 0 33188 (pq_now C)))"
    by (rule file_at_locate [OF _ dep pl l]) (use c in simp)
  let ?g = "\<lambda>a. a\<lparr>a_realfile := Some ?b\<rparr>" let ?vf = "with_attr ?g l vf1"
  have up: "update_realfile ((pp_disk p)(?b \<mapsto> [])) (l, new_node z T_FILE (pq_uid C) (pq_gid C) 0 33188 (pq_now C)) ?b vf1 = ?vf"
    by (simp add: update_realfile_def has_realfile_def new_node_def with_attr_def)
  have q: "rname = ?b" "q = p\<lparr>pp_fs := ?vf, pp_disk := (pp_disk p)(?b \<mapsto> [])\<rparr>"
    using run f fresh up unfolding create_redirect_target_def pipe_fs_def m1
    by (auto simp: ebind_def open_append_def back_file_def)
  have "backed (ds @ [z]) ?b [] 0 q"
    using with_attr_locate [OF l, of ?g] with_attr_good [of vf1 ?g l] c dep pl by (simp add: backed_def q new_node_def)
  with q show ?thesis by blast
qed

lemma prepare_new:
  assumes "resolve_path (vf_home (pp_fs p)) target (pq_cwd C) = Inr outfile" "file_at True outfile (pp_fs p) = Inr r"
    "outfile \<noteq> u ''/dev/null''" "needs_new_backing C r"
  shows "prepare_output_file C target app p =
    (case create_redirect_target C outfile p of
       (Inl e, q) \<Rightarrow> (Inl e, q)
     | (Inr None, q) \<Rightarrow> (Inr None, q)
     | (Inr (Some rname), q) \<Rightarrow>
         (Inr (Some (Fd_file \<lparr>fi_virtual = outfile, fi_real = rname, fi_append = app,
            fi_start = (case r of Some (_, x) \<Rightarrow> if app then a_size (attr x) else 0 | None \<Rightarrow> 0)\<rparr>)),
          q\<lparr>pp_real_files := pp_real_files q @ [(rname, outfile)]\<rparr>))"
proof -
  obtain a q where "create_redirect_target C outfile p = (a, q)" by fastforce
  then show ?thesis
    using assms by (cases a; cases "projr a") (simp_all add: prepare_output_file_def ebind_def note_real_file_def)
qed

text \<open>
  Truncating a redirected file: new or reused, it is empty and its counter starts at nothing.
\<close>

lemma prepared_backed:
  assumes good: "good (vf_tree (pp_fs p))" "0 < vf_depth (pp_fs p)" "vf_newcount (pp_fs p) \<le> 10000"
    and ps: "list_all plain_piece ds" "plain_piece z" and fresh: "pp_disk p (backing_name C (abs_path (ds @ [z]))) = None"
    and path: "resolve_path (vf_home (pp_fs p)) target (pq_cwd C) = Inr (abs_path (ds @ [z]))"
    and old: "\<And>x. lookup (ds @ [z]) (vf_tree (pp_fs p)) = Some x \<Longrightarrow> has_realfile x \<Longrightarrow> a_type (attr x) = T_FILE"
    and run: "prepare_output_file C target False p = (Inr (Some (Fd_file fi)), q)"
  shows "fi_virtual fi = abs_path (ds @ [z]) \<and> fi_start fi = 0 \<and> backed (ds @ [z]) (fi_real fi) [] 0 q \<and>
    (fi_real fi = backing_name C (abs_path (ds @ [z])) \<or> (\<exists>x. lookup (ds @ [z]) (vf_tree (pp_fs p)) = Some x \<and> has_realfile x)) \<and>
    (\<exists>vf. q = p\<lparr>pp_fs := vf, pp_disk := (pp_disk p)(fi_real fi \<mapsto> []), pp_real_files := pp_real_files p @ [(fi_real fi, abs_path (ds @ [z]))]\<rparr>)"
proof -
  let ?out = "abs_path (ds @ [z])"
  obtain r where r: "file_at True ?out (pp_fs p) = Inr r" "?out \<noteq> u ''/dev/null''"
    using run path by (auto simp: prepare_output_file_def split: sum.splits if_splits)
  show ?thesis
  proof (cases "needs_new_backing C r")
    case True
    obtain a q1 where a: "create_redirect_target C ?out p = (a, q1)" by fastforce
    note pn = prepare_new [OF path r True, of False]
    obtain rname where an: "a = Inr (Some rname)"
      using run unfolding pn a by (cases a; cases "projr a") simp_all
    note c = a [unfolded an]
    have fi: "fi = \<lparr>fi_virtual = ?out, fi_real = rname, fi_append = False, fi_start = 0\<rparr>"
      and q: "q = q1\<lparr>pp_real_files := pp_real_files q1 @ [(rname, ?out)]\<rparr>"
      using run unfolding pn c by (auto split: option.splits)
    from created_backed [OF good ps fresh c] obtain vf where
      b: "backed (ds @ [z]) rname [] 0 q1" "rname = backing_name C ?out" "q1 = p\<lparr>pp_fs := vf, pp_disk := (pp_disk p)(rname \<mapsto> [])\<rparr>" by blast
    show ?thesis using b(1,2) by (simp add: fi q) (rule exI [of _ vf], simp add: b(3))
  next
    case False
    then obtain l x rname where x: "r = Some (l, x)" "has_realfile x" "a_realfile (attr x) = Some rname" "rname \<noteq> []"
      by (auto simp: needs_new_backing_def has_realfile_def split: option.splits)
    obtain n where n: "vf_depth (pp_fs p) = Suc n" using good(2) gr0_implies_Suc by blast
    have l: "locate (ds @ [z]) (vf_tree (pp_fs p)) = Some (l, x)"
      using getfile_good(1) [OF good(1), of "ds @ [z]"] ps r(1) x(1) n by simp
    then have ty: "a_type (attr x) = T_FILE" using old x(2) by (simp add: lookup_locate)
    let ?p1 = "p\<lparr>pp_disk := (pp_disk p)(rname \<mapsto> [])\<rparr>"
    have "backed (ds @ [z]) rname [] (a_size (attr x)) ?p1"
      using good ps l ty x by (simp add: backed_def)
    from backed_resized [OF this, of 0] obtain vf where
      vf: "pipe_fs (update_size ?out 0) ?p1 = (Inr (), ?p1\<lparr>pp_fs := vf\<rparr>)" "backed (ds @ [z]) rname [] 0 (?p1\<lparr>pp_fs := vf\<rparr>)" by blast
    have "fi = \<lparr>fi_virtual = ?out, fi_real = rname, fi_append = False, fi_start = 0\<rparr> \<and>
        q = ?p1\<lparr>pp_fs := vf, pp_real_files := pp_real_files p @ [(rname, ?out)]\<rparr>"
      using run path r False x vf(1)
      by (simp add: prepare_output_file_def reuse_existing_backing_def ebind_def note_real_file_def Let_def)
    moreover have "\<exists>x. lookup (ds @ [z]) (vf_tree (pp_fs p)) = Some x \<and> has_realfile x" using l x(2) by (simp add: lookup_locate)
    ultimately show ?thesis using vf(2) by simp (rule exI [of _ vf], simp)
  qed
qed

lemma write_stdout_backed:
  assumes "backed ps (fi_real fi) b (pp_stdout p) p" "fi_virtual fi = abs_path ps" "map_of (pp_targets p) 1 = Some (Fd_file fi)"
  shows "\<exists>q. eiter write_stdout ws p = (Inr (), q) \<and>
    backed ps (fi_real fi) (b @ concat ws) (pp_stdout p + int (length (concat ws))) q \<and>
    pp_term q = pp_term p \<and> pp_real_files q = pp_real_files p \<and> (\<forall>f. f \<noteq> fi_real fi \<longrightarrow> pp_disk q f = pp_disk p f)"
  using assms
proof (induction ws arbitrary: p b)
  case (Cons w ws)
  from write_backed [OF Cons.prems(1,2), of w True] obtain q1 where
    w: "write_to_file fi w True p = (Inr (), q1)" "backed ps (fi_real fi) (b @ w) (pp_stdout q1) q1"
      "pp_targets q1 = pp_targets p" "pp_term q1 = pp_term p" "pp_real_files q1 = pp_real_files p"
      "pp_stdout q1 = pp_stdout p + int (length w)" "pp_disk q1 = (pp_disk p)(fi_real fi \<mapsto> b @ w)" by auto
  have "write_stdout w p = (Inr (), q1)"
    using w(1) Cons.prems(3) by (simp add: write_stdout_def write_to_fd_def)
  moreover from Cons.IH [OF w(2) Cons.prems(2)] w(3) Cons.prems(3) obtain q where
    "eiter write_stdout ws q1 = (Inr (), q)" "backed ps (fi_real fi) ((b @ w) @ concat ws) (pp_stdout q1 + int (length (concat ws))) q"
    "pp_term q = pp_term q1" "pp_real_files q = pp_real_files q1" "\<forall>f. f \<noteq> fi_real fi \<longrightarrow> pp_disk q f = pp_disk q1 f" by auto
  ultimately show ?case using w by (simp add: ebind_def algebra_simps)
qed simp

lemma emit_sets_error: "pp_error (snd (emit_redirection_error m q))"
  by (simp add: emit_redirection_error_def term_write_def split: sum.split)

lemma not_prepared:
  assumes "prepare_output_file C target app p = (Inr None, q)"
  shows "pp_error q"
proof -
  obtain outfile r where o: "resolve_path (vf_home (pp_fs p)) target (pq_cwd C) = Inr outfile"
    "file_at True outfile (pp_fs p) = Inr r" "outfile \<noteq> u ''/dev/null''"
    using assms by (auto simp: prepare_output_file_def split: sum.splits if_splits)
  have n: "needs_new_backing C r"
  proof (rule ccontr)
    assume "\<not> needs_new_backing C r"
    with assms o show False
      by (auto simp: prepare_output_file_def reuse_existing_backing_def ebind_def note_real_file_def Let_def split: if_splits sum.splits prod.splits)
  qed
  obtain a q1 where a: "create_redirect_target C outfile p = (a, q1)" by fastforce
  have q: "a = Inr None" "q1 = q"
    using assms unfolding prepare_new [OF o n] a by (cases a; cases "projr a", simp_all)+
  have em: "pp_error q" if "(ebind (emit_redirection_error m) (\<lambda>_. eret None)) q2 = (Inr (None :: pystr option), q)" for m q2
    using that emit_sets_error [of m q2] by (auto simp: ebind_def split: prod.splits sum.splits)
  have bf: "(ebind (open_append b) (\<lambda>_. ebind (back_file outfile b) (\<lambda>_. eret (Some b)))) q2 \<noteq> (Inr None, q)" for b q2
    by (auto simp: ebind_def split: prod.splits sum.splits)
  show ?thesis
    using a unfolding q create_redirect_target_def by (auto simp: bf split: prod.splits sum.splits fs_error.splits dest: em)
qed

lemma prepared_file:
  assumes "prepare_output_file C target app p = (Inr (Some t), q)"
    and "resolve_path (vf_home (pp_fs p)) target (pq_cwd C) = Inr outfile" "outfile \<noteq> u ''/dev/null''"
  shows "\<exists>fi. t = Fd_file fi"
proof -
  obtain r where r: "file_at True outfile (pp_fs p) = Inr r"
    using assms by (auto simp: prepare_output_file_def split: sum.splits)
  show ?thesis
  proof (cases "needs_new_backing C r")
    case True
    obtain a q1 where a: "create_redirect_target C outfile p = (a, q1)" by fastforce
    show ?thesis using assms(1) unfolding prepare_new [OF assms(2) r assms(3) True] a by (cases a; cases "projr a") auto
  next
    case False
    then show ?thesis
      using assms r by (auto simp: prepare_output_file_def ebind_def note_real_file_def split: sum.splits prod.splits)
  qed
qed

text \<open>
  What a command writes to a redirected file is what reading the file gives, and only the file that
  backs it was touched on the disk.
\<close>

lemma redirected_run:
  assumes good: "good (vf_tree vf)" "0 < vf_depth vf" "vf_newcount vf \<le> 10000"
    and ps: "list_all plain_piece ds" "plain_piece z" and fresh: "d (backing_name C (abs_path (ds @ [z]))) = None"
    and path: "resolve_path (vf_home vf) target (pq_cwd C) = Inr (abs_path (ds @ [z]))" "abs_path (ds @ [z]) \<noteq> u ''/dev/null''"
    and old: "\<forall>x. lookup (ds @ [z]) (vf_tree vf) = Some x \<longrightarrow> has_realfile x \<longrightarrow> a_type (attr x) = T_FILE"
    and run: "setup_redirections C [Redir_file 1 target False] (pipe_new nxt nerr redirect vf d tm) = (Inr (), p)" "\<not> pp_error p"
  shows "\<exists>q rname. eiter write_stdout ws p = (Inr (), q) \<and>
    file_contents (read_disk (pp_disk q)) arch (abs_path (ds @ [z])) (pp_fs q) = Inr (concat ws) \<and>
    map_option (\<lambda>x. a_size (attr x)) (lookup (ds @ [z]) (vf_tree (pp_fs q))) = Some (int (length (concat ws))) \<and>
    pp_term q = tm \<and> pp_real_files q = [(rname, abs_path (ds @ [z]))] \<and> pp_disk q rname = Some (concat ws) \<and>
    (rname = backing_name C (abs_path (ds @ [z])) \<or> (\<exists>x. lookup (ds @ [z]) (vf_tree vf) = Some x \<and> has_realfile x)) \<and>
    (\<forall>f. f \<noteq> rname \<longrightarrow> pp_disk q f = d f)"
proof -
  let ?p0 = "pipe_new nxt nerr redirect vf d tm"
  have p0: "pp_fs ?p0 = vf" "pp_disk ?p0 = d" "pp_real_files ?p0 = []" "pp_term ?p0 = tm" "pp_stdout ?p0 = 0"
    by (simp_all add: pipe_new_def)
  obtain a q1 where a: "prepare_output_file C target False ?p0 = (a, q1)" by fastforce
  obtain fi where fi: "a = Inr (Some (Fd_file fi))"
  proof (cases a)
    case (Inl e)
    then show ?thesis using run(1) a by (simp add: setup_redirections_def ebind_def)
  next
    case (Inr t)
    show ?thesis
    proof (cases t)
      case None
      then have "pp_error q1" using not_prepared a Inr by simp
      moreover have "p = q1" using run(1) a Inr None by (simp add: setup_redirections_def ebind_def)
      ultimately show ?thesis using run(2) by simp
    next
      case (Some t')
      with prepared_file [of C target False ?p0 t' q1] a Inr path p0 that show ?thesis by auto
    qed
  qed
  note pb = prepared_backed [of ?p0, unfolded p0, OF good ps fresh path(1) old [rule_format] a [unfolded fi]]
  have q1: "pp_disk q1 = d(fi_real fi \<mapsto> [])" "pp_real_files q1 = [(fi_real fi, abs_path (ds @ [z]))]" "pp_term q1 = tm"
    using pb p0 by auto
  have p: "p = q1\<lparr>pp_targets := AList.update 1 (Fd_file fi) (pp_targets q1), pp_stdout := 0\<rparr>"
    using run(1) a fi pb by (simp add: setup_redirections_def ebind_def set_target_def set_written_def)
  have "backed (ds @ [z]) (fi_real fi) [] (pp_stdout p) p" using pb by (simp add: p backed_def)
  moreover have "map_of (pp_targets p) 1 = Some (Fd_file fi)" by (simp add: p update_conv')
  ultimately obtain q where q: "eiter write_stdout ws p = (Inr (), q)" "backed (ds @ [z]) (fi_real fi) (concat ws) (int (length (concat ws))) q"
    "pp_term q = tm" "pp_real_files q = pp_real_files q1" "\<forall>f. f \<noteq> fi_real fi \<longrightarrow> pp_disk q f = pp_disk q1 f"
    using write_stdout_backed [of "ds @ [z]" fi "[]" p ws] pb q1(3) by (auto simp: p)
  have "\<forall>f. f \<noteq> fi_real fi \<longrightarrow> pp_disk q f = d f" using q(5) q1(1) by simp
  moreover have "map_option (\<lambda>x. a_size (attr x)) (lookup (ds @ [z]) (vf_tree (pp_fs q))) = Some (int (length (concat ws)))"
    "pp_disk q (fi_real fi) = Some (concat ws)"
    using q(2) by (auto simp: backed_def lookup_locate)
  moreover have "fi_real fi = backing_name C (abs_path (ds @ [z])) \<or> (\<exists>x. lookup (ds @ [z]) (vf_tree vf) = Some x \<and> has_realfile x)"
    using pb by blast
  ultimately show ?thesis using q(1,3,4) q1(2) backed_reads [OF q(2)]
    by (intro exI [of _ q] exI [of _ "fi_real fi"]) simp
qed

section \<open>At the end of the session\<close>

text \<open>A command that ends leaves the files its output went to to the recorder of the session (\<^verbatim>\<open>HoneyPotCommand.exit\<close>).\<close>

definition exit_redirects :: "pipe \<Rightarrow> recorder \<Rightarrow> recorder" where
  "exit_redirects p r = r\<lparr>rd_redir := fold List.insert (pp_real_files p) (rd_redir r), rd_disk := pp_disk p\<rparr>"

lemma redirect_saved:
  assumes E: "digests_plain E" "addressed E (rf_dldir RC) (rd_disk r)" "not_digest E (rf_dldir RC) rname"
    and r: "rd_disk r rname = Some b" "b \<noteq> []" "rd_redir r = [(rname, out)]" "\<not> rd_stdinopen r" "\<not> rd_ttyopen r" "out \<noteq> []"
  shows "\<exists>r' dup c. connectionLost E RC now r = (Inr (), r') \<and>
    rd_disk r' (path_join (rf_dldir RC) (h_sha256 E b)) = Some c \<and> h_sha256 E c = h_sha256 E b \<and> rd_disk r' rname = None \<and>
    rd_events r' = rd_events r @ [Saved_redir dup (path_join (rf_dldir RC) (h_sha256 E b)) (h_sha256 E b) out]"
proof -
  let ?t = "path_join (rf_dldir RC) (h_sha256 E b)" let ?dup = "rd_disk r ?t \<noteq> None"
  let ?r1 = "r\<lparr>rd_disk := (if ?dup then (rd_disk r)(rname := None) else (rd_disk r)(?t \<mapsto> b, rname := None)),
               rd_events := rd_events r @ [Saved_redir ?dup ?t (h_sha256 E b) out]\<rparr>"
  have tn: "?t \<noteq> rname" using E(3) by (auto simp: not_digest_def)
  have "save_redir E RC (rname, out) r = (Inr (), ?r1)"
    using r by (cases b) (auto simp: save_redir_def pass_oserror_def ecatch_def ebind_def store_file_def rec_log_def redir_url_def Let_def)
  then have run: "connectionLost E RC now r = (Inr (), ?r1\<lparr>rd_redir := []\<rparr>)"
    using r by (simp add: connectionLost_def save_stdin_def close_tty_def ebind_def)
  obtain c where "rd_disk (?r1\<lparr>rd_redir := []\<rparr>) ?t = Some c" "h_sha256 E c = h_sha256 E b"
    using E(2) tn by (cases ?dup) (auto simp: addressed_def)
  with run show ?thesis by (intro exI [of _ "?r1\<lparr>rd_redir := []\<rparr>"] exI [of _ ?dup] exI [of _ c]) simp
qed


section \<open>The files of the operator\<close>

text \<open>
  No descriptor writes to a file below the directory of the operator's files, and those files stay.
\<close>

definition foreign :: "pipe_conf \<Rightarrow> pystr \<Rightarrow> bool" where
  "foreign C f \<longleftrightarrow> \<not> startswith f (pq_contents C)"

definition safe_target :: "pipe_conf \<Rightarrow> fd_target \<Rightarrow> bool" where
  "safe_target C t = (case t of Fd_file fi \<Rightarrow> foreign C (fi_real fi) | _ \<Rightarrow> True)"

definition safe_pipe :: "pipe_conf \<Rightarrow> pipe \<Rightarrow> bool" where
  "safe_pipe C p \<longleftrightarrow> (\<forall>fd t. map_of (pp_targets p) fd = Some t \<longrightarrow> safe_target C t)"

definition shielded :: "pipe_conf \<Rightarrow> pipe \<Rightarrow> pipe \<Rightarrow> bool" where
  "shielded C s t \<longleftrightarrow> (safe_pipe C s \<longrightarrow> safe_pipe C t \<and> (\<forall>f. \<not> foreign C f \<longrightarrow> pp_disk t f = pp_disk s f))"

interpretation shield: state_order "shielded C" for C
  by unfold_locales (auto simp: shielded_def)

lemma shield_same:
  "(\<And>s. pp_targets (snd (m s)) = pp_targets s \<and> pp_disk (snd (m s)) = pp_disk s) \<Longrightarrow> pres (shielded C) m"
  by (simp add: pres_def shielded_def safe_pipe_def)

lemma shield_basic:
  "pres (shielded C) (term_write b)" "pres (shielded C) (pipe_fs fm)" "pres (shielded C) (note_real_file rf)"
  "pres (shielded C) (set_written fd n)" "pres (shielded C) (count_written out k)" "pres (shielded C) (pipe_to_next b)"
  "pres (shielded C) (back_file outfile rname)" "pres (shielded C) (emit_redirection_error msg)"
  by (rule shield_same; simp add: term_write_def pipe_fs_def note_real_file_def set_written_def count_written_def
      pipe_to_next_def back_file_def emit_redirection_error_def split: prod.split option.split sum.split)+

lemma shield_disk:
  "foreign C f \<Longrightarrow> pres (shielded C) (open_append f)" "foreign C f \<Longrightarrow> pres (shielded C) (disk_append f b)"
  "foreign C f \<Longrightarrow> pres (shielded C) (\<lambda>p. (Inr (), p\<lparr>pp_disk := (pp_disk p)(f \<mapsto> b)\<rparr>))"
  by (auto simp: pres_def shielded_def safe_pipe_def open_append_def disk_append_def)

lemma shield_target: "safe_target C t \<Longrightarrow> pres (shielded C) (set_target fd t)"
  by (auto simp: pres_def shielded_def safe_pipe_def set_target_def update_conv')

lemma ebind_run: "m s = (a, q) \<Longrightarrow> ebind m f s = (case a of Inl e \<Rightarrow> eraise e | Inr x \<Rightarrow> f x) q"
  by (cases a) (simp_all add: ebind_def)

lemma presS: "pres R m \<Longrightarrow> R s (snd (m s))"
  by (simp add: pres_def)

lemma shield_create:
  assumes "\<And>x. foreign C (backing_name C x)"
  shows "pres (shielded C) (create_redirect_target C outfile)"
proof -
  have b: "foreign C (backing_name C outfile)" using assms .
  have mk: "pres (shielded C) (\<lambda>q. (case r of
        Inl FsNotFound \<Rightarrow> ebind (emit_redirection_error m1) (\<lambda>_. eret None)
      | Inl FsPermissionDenied \<Rightarrow> ebind (emit_redirection_error m2) (\<lambda>_. eret None)
      | Inl e \<Rightarrow> eraise e
      | Inr _ \<Rightarrow> ebind (open_append (backing_name C outfile)) (\<lambda>_.
          ebind (back_file outfile (backing_name C outfile)) (\<lambda>_. eret (Some (backing_name C outfile))))) q)" for r :: "fs_error + bool" and m1 m2
    by (cases r) (auto intro!: shield.pres_rules shield_basic shield_disk b simp del: eret_simps split: fs_error.split)
  show ?thesis
  proof (rule presI)
    fix s r' t assume run: "create_redirect_target C outfile s = (r', t)"
    obtain r q where m: "pipe_fs (mkfile outfile (pq_uid C) (pq_gid C) 0 33188 (pq_now C)) s = (r, q)" by fastforce
    have "shielded C s q" using presD [OF shield_basic(2) m] .
    moreover have "shielded C q t"
      using presD [OF mk [where r = r and ?m1.0 = "bash_error outfile ''No such file or directory''" and ?m2.0 = "bash_error outfile ''Permission denied''"], of q r' t] run m
      by (cases r) (auto simp: create_redirect_target_def split: fs_error.splits)
    ultimately show "shielded C s t" by (rule shield.trans)
  qed
qed

lemma shield_reuse: "foreign C (the (a_realfile (attr x))) \<Longrightarrow> pres (shielded C) (reuse_existing_backing outfile x app)"
  unfolding reuse_existing_backing_def Let_def by (intro shield.pres_rules shield_basic shield_disk)

lemma created_name:
  assumes "create_redirect_target C outfile p = (Inr (Some rname), q)"
  shows "rname = backing_name C outfile"
proof -
  have "rname = b" if "(ebind (open_append b) (\<lambda>_. ebind (back_file outfile b) (\<lambda>_. eret (Some b)))) q2 = (Inr (Some rname), q)" for b q2
    using that by (auto simp: ebind_def split: prod.splits sum.splits)
  with assms show ?thesis
    by (auto simp: create_redirect_target_def error_not_done split: prod.splits sum.splits fs_error.splits)
qed

lemma shield_prepare:
  assumes dl: "\<And>x. foreign C (backing_name C x)" and run: "prepare_output_file C target app s = (r, t)"
  shows "shielded C s t" "r = Inr (Some ft) \<Longrightarrow> safe_target C ft"
proof -
  have both: "shielded C s t \<and> (r = Inr (Some ft) \<longrightarrow> safe_target C ft)"
  proof (cases "\<exists>outfile e. resolve_path (vf_home (pp_fs s)) target (pq_cwd C) = Inr outfile \<and>
      file_at True outfile (pp_fs s) = Inr e \<and> outfile \<noteq> u ''/dev/null''")
    case False
    then have "t = s \<and> (r = Inr (Some ft) \<longrightarrow> ft = Fd_devnull)"
      using run by (auto simp: prepare_output_file_def split: sum.splits if_splits)
    then show ?thesis by (auto simp: shield.refl safe_target_def)
  next
    case True
    then obtain outfile e where o: "resolve_path (vf_home (pp_fs s)) target (pq_cwd C) = Inr outfile"
      "file_at True outfile (pp_fs s) = Inr e" "outfile \<noteq> u ''/dev/null''" by blast
    show ?thesis
    proof (cases "needs_new_backing C e")
      case True
      obtain a q where a: "create_redirect_target C outfile s = (a, q)" by fastforce
      have q: "shielded C s q" using presD [OF shield_create [OF dl] a] .
      have b: "foreign C (backing_name C outfile)" using dl .
      consider (err) x where "a = Inl x" | (none) "a = Inr None" | (made) rname where "a = Inr (Some rname)"
        by (cases a; cases "projr a") auto
      then show ?thesis
      proof cases
        case made
        then have "rname = backing_name C outfile" using created_name a by blast
        then show ?thesis
          using run q b made unfolding prepare_new [OF o True] a by (auto simp: safe_target_def shielded_def safe_pipe_def)
      qed (use run q in \<open>auto simp: prepare_new [OF o True] a\<close>)
    next
      case False
      then obtain l x where x: "e = Some (l, x)" "foreign C (the (a_realfile (attr x)))"
        by (auto simp: needs_new_backing_def foreign_def split: option.splits)
      have "pres (shielded C) (ebind (ebind (reuse_existing_backing outfile x app) (\<lambda>y. eret (Some y))) (\<lambda>b.
              case b of None \<Rightarrow> eret None | Some (rname, start) \<Rightarrow>
                ebind (note_real_file (rname, outfile)) (\<lambda>_. eret (Some (Fd_file \<lparr>fi_virtual = outfile, fi_real = rname, fi_append = app, fi_start = start\<rparr>)))))"
        by (intro shield.pres_rules shield_reuse [OF x(2)]) (auto intro!: shield.pres_rules shield_basic simp del: eret_simps split: option.split)
      from presD [OF this, of s r t] have "shielded C s t" using run o False x by (simp add: prepare_output_file_def)
      moreover have "safe_target C ft" if "r = Inr (Some ft)"
        using run o False x that
        by (auto simp: prepare_output_file_def reuse_existing_backing_def ebind_def note_real_file_def Let_def safe_target_def
            split: if_splits sum.splits prod.splits)
      ultimately show ?thesis by blast
    qed
  qed
  then show "shielded C s t" "r = Inr (Some ft) \<Longrightarrow> safe_target C ft" by blast+
qed

lemma shield_setup_op:
  assumes dl: "\<And>x. foreign C (backing_name C x)"
  shows "pres (shielded C) (setup_op C op pending)"
proof (cases op)
  case (Redir_file fd target app)
  show ?thesis
  proof (rule presI)
    fix s r t assume run: "setup_op C op pending s = (r, t)"
    obtain a q where a: "prepare_output_file C target app s = (a, q)" by fastforce
    note sp = shield_prepare [OF dl a]
    let ?k = "\<lambda>x. case x of
          Some (Fd_file fi) \<Rightarrow> ebind (set_target fd (Fd_file fi)) (\<lambda>_. ebind (set_written fd (fi_start fi)) (\<lambda>_. eret pending))
        | Some ft \<Rightarrow> ebind (set_target fd ft) (\<lambda>_. eret pending)
        | None \<Rightarrow> eret pending"
    have "pres (shielded C) (case a of Inl e \<Rightarrow> eraise e | Inr x \<Rightarrow> ?k x)"
      using sp(2)
      by (auto intro!: shield.pres_rules shield_basic shield_target simp del: eret_simps simp: safe_target_def
          split: sum.split option.split fd_target.split)
    moreover have "(case a of Inl e \<Rightarrow> eraise e | Inr x \<Rightarrow> ?k x) q = (r, t)"
      using run ebind_run [of "prepare_output_file C target app" s a q ?k, OF a] unfolding Redir_file setup_op.simps by simp
    ultimately have "shielded C q t" by (rule presD)
    with sp(1) show "shielded C s t" by (rule shield.trans)
  qed
next
  case (Redir_stdin fd target)
  then show ?thesis
    by (auto intro!: shield.pres_rules shield_target simp: safe_target_def simp del: eret_simps)
next
  case (Redir_dup fd target_fd)
  show ?thesis
  proof (rule presI)
    fix s r t assume "setup_op C op pending s = (r, t)"
    then have "t = s \<or> (\<exists>x. map_of (pp_targets s) target_fd = Some x \<and> t = snd (set_target fd x s))"
      by (auto simp: Redir_dup ebind_def set_target_def split: option.splits)
    moreover have "shielded C s (snd (set_target fd x s))" if "map_of (pp_targets s) target_fd = Some x" for x
    proof (cases "safe_pipe C s")
      case True
      then have "safe_target C x" using that by (simp add: safe_pipe_def)
      then show ?thesis by (rule presS [OF shield_target])
    qed (simp add: shielded_def)
    ultimately show "shielded C s t" using shield.refl by blast
  qed
qed

lemma shield_stdin: "pres (shielded C) (prepare_stdin C target)"
proof (rule presI)
  fix s r t assume run: "prepare_stdin C target s = (r, t)"
  have "shielded C s t" if "emit_redirection_error m s = (r, t)" for m using presD [OF shield_basic(8) that] .
  moreover have "shielded C s (s\<lparr>pp_input := i\<rparr>)" for i by (simp add: shielded_def safe_pipe_def)
  ultimately show "shielded C s t"
    using run shield.refl [of C s] by (auto simp: prepare_stdin_def split: sum.splits fs_error.splits)
qed

lemma shield_setup:
  assumes "\<And>x. foreign C (backing_name C x)"
  shows "pres (shielded C) (setup_redirections C ops)"
  unfolding setup_redirections_def
  by (intro shield.pres_rules shield_setup_op assms)
    (auto intro!: shield.pres_rules shield_stdin simp del: eret_simps split: option.split)

lemma shield_write: "pres (shielded C) (write_to_fd fd b)"
proof (rule presI)
  fix s r t assume run: "write_to_fd fd b s = (r, t)"
  show "shielded C s t"
  proof (cases "safe_pipe C s")
    case True
    have wf: "pres (shielded C) (write_to_file fi b out)" if "foreign C (fi_real fi)" for fi out
      unfolding write_to_file_def using that by (intro shield.pres_rules shield_disk shield_basic)
    show ?thesis
    proof (cases "map_of (pp_targets s) fd")
      case (Some ft)
      then have ft: "safe_target C ft" using True by (simp add: safe_pipe_def)
      show ?thesis
      proof (cases ft)
        case (Fd_file fi)
        then show ?thesis using run Some ft presD [OF wf] by (simp add: write_to_fd_def safe_target_def)
      qed (use run Some presD [OF shield_basic(1)] presD [OF shield_basic(6)] in
            \<open>auto simp: write_to_fd_def shielded_def safe_pipe_def\<close>)
    qed (use run in \<open>simp add: write_to_fd_def shield.refl\<close>)
  qed (simp add: shielded_def)
qed

text \<open>
  C15. The files the operator put below \<^verbatim>\<open>contents_path\<close> are never changed by a redirection: when the backing
  files are kept elsewhere, then whatever redirections a command line has, whether or not they
  succeed, and whatever is then written to whichever descriptor, each of them is on the disk as it
  was.
\<close>

theorem operator_files_untouched:
  assumes "\<And>x. \<not> startswith (backing_name C x) (pq_contents C)" "startswith f (pq_contents C)"
    and "setup_redirections C ops (pipe_new nxt nerr redirect vf d tm) = (r, p)"
    and "eiter (\<lambda>(fd, b). write_to_fd fd b) ws p = (r', q)"
  shows "pp_disk q f = d f"
proof -
  let ?p0 = "pipe_new nxt nerr redirect vf d tm"
  have "safe_pipe C ?p0" by (auto simp: safe_pipe_def pipe_new_def safe_target_def split: if_splits)
  moreover have "shielded C ?p0 p" using presD [OF shield_setup assms(3)] assms(1) by (simp add: foreign_def)
  moreover have "pres (shielded C) (eiter (\<lambda>(fd, b). write_to_fd fd b) ws)"
    by (auto intro!: shield.pres_iter shield_write)
  from presD [OF this assms(4)] have "shielded C p q" .
  ultimately show ?thesis using assms(2) by (auto simp: shielded_def foreign_def pipe_new_def)
qed

section \<open>Quirks\<close>

text \<open>
  Standard output and standard error count what they write apart: of a file that takes both, the size
  is what the last of them wrote.
\<close>

lemma shared_file_miscounted:
  assumes "backed ps (fi_real fi) [] 0 p" "fi_virtual fi = abs_path ps" "pp_stdout p = 0" "pp_stderr p = 0"
    and "map_of (pp_targets p) 1 = Some (Fd_file fi)" "map_of (pp_targets p) 2 = Some (Fd_file fi)"
  shows "\<exists>q. ebind (write_stdout a) (\<lambda>_. write_stderr b) p = (Inr (), q) \<and> backed ps (fi_real fi) (a @ b) (int (length b)) q"
proof -
  from write_backed [OF assms(1,2), of a True] assms(3,4) obtain q1 where
    q1: "write_to_file fi a True p = (Inr (), q1)" "backed ps (fi_real fi) a (int (length a)) q1" "pp_targets q1 = pp_targets p" "pp_stderr q1 = 0"
    by auto
  let ?q1 = "q1\<lparr>pp_err_data := pp_err_data q1 @ b\<rparr>"
  have "backed ps (fi_real fi) a (int (length a)) ?q1" using q1(2) by (simp add: backed_def)
  from write_backed [OF this assms(2), of b False] q1(4) obtain q where
    "write_to_file fi b False ?q1 = (Inr (), q)" "backed ps (fi_real fi) (a @ b) (int (length b)) q" by auto
  with q1 assms(5,6) show ?thesis by (simp add: write_stdout_def write_stderr_def write_to_fd_def ebind_def)
qed

definition pipe_demo :: pipe_conf where
  "pipe_demo = \<lparr>pq_cwd = u ''/'', pq_uid = 0, pq_gid = 0, pq_now = 0, pq_stamp = u ''t'', pq_downloads = u ''dl'',
     pq_contents = u ''honeyfs'', pq_arch = Inr []\<rparr>"

definition pipe_run :: "redir_op list \<Rightarrow> (int \<times> bytes) list \<Rightarrow> fnode \<Rightarrow> (fs_error + unit) \<times> pipe" where
  "pipe_run ops ws t = ebind (setup_redirections pipe_demo ops) (\<lambda>_. eiter (\<lambda>(fd, b). write_to_fd fd b) ws)
     (pipe_new None False False (vfs_of t) Map.empty [])"

text \<open>The name of a directory as the target replaces the directory, with all it holds, by the new file.\<close>

lemma directory_overwritten:
  "fst (pipe_run [Redir_file 1 (u ''d'') False] [] demo_tree) = Inr ()"
  "map_option (\<lambda>x. (a_type (attr x), body x)) (lookup [u ''d''] (vf_tree (pp_fs (snd (pipe_run [Redir_file 1 (u ''d'') False] [] demo_tree))))) =
     Some (T_FILE, Kids [])"
  by code_simp+

definition operator_tree :: fnode where
  "operator_tree = root_of [FNode \<lparr>a_name = u ''p'', a_type = T_FILE, a_uid = 0, a_gid = 0, a_size = 5, a_mode = 0, a_ctime = 0,
     a_target = None, a_realfile = Some (u ''honeyfs/p'')\<rparr> (Kids [])]"

text \<open>Appending to a file of the operator leaves what was appended alone, with the size of both.\<close>

lemma append_drops_content:
  "file_contents (read_disk (pp_disk (snd (pipe_run [Redir_file 1 (u ''p'') True] [(1, [97])] operator_tree)))) (Inr []) (u ''/p'')
     (pp_fs (snd (pipe_run [Redir_file 1 (u ''p'') True] [(1, [97])] operator_tree))) = Inr [97]"
  "map_option (\<lambda>x. a_size (attr x)) (lookup [u ''p''] (vf_tree (pp_fs (snd (pipe_run [Redir_file 1 (u ''p'') True] [(1, [97])] operator_tree))))) = Some 6"
  by code_simp+

text \<open>Two files whose names differ in punctuation have one backing file when they are made in the same second.\<close>

lemma backing_names_collide:
  "file_contents (read_disk (pp_disk (snd (pipe_run [Redir_file 1 (u ''a.b'') False, Redir_file 1 (u ''a_b'') False] [(1, [97])] (root_of [])))))
     (Inr []) (u ''/a.b'') (pp_fs (snd (pipe_run [Redir_file 1 (u ''a.b'') False, Redir_file 1 (u ''a_b'') False] [(1, [97])] (root_of [])))) = Inr [97]"
  by code_simp

text \<open>Past the quota of new files the node is not made and the lookup of it is used all the same.\<close>

lemma quota_raises:
  "fst (setup_redirections pipe_demo [Redir_file 1 (u ''f'') False]
     (pipe_new None False False ((vfs_of (root_of []))\<lparr>vf_newcount := 10001\<rparr>) Map.empty [])) = Inl FsTypeError"
  by code_simp

section \<open>Witnesses\<close>

lemma pipe_demo_names:
  "backing_name pipe_demo (abs_path ([u ''d''] @ [u ''y''])) = u ''dl/t-redir__d_y''"
  "abs_path ([u ''d''] @ [u ''y'']) = u ''/d/y''"
  by code_simp+

definition demo_recorder :: recorder where
  "demo_recorder = recorder_init False Map.empty"


theorem operator_files_untouched_witness:
  "pp_disk (snd (eiter (\<lambda>(fd, b). write_to_fd fd b) [(1, [97])]
     (snd (setup_redirections pipe_demo [Redir_file 1 (u ''p'') True]
       (pipe_new None False False (vfs_of operator_tree) [u ''honeyfs/p'' \<mapsto> [1]] []))))) (u ''honeyfs/p'') = Some [1]"
proof -
  let ?s = "setup_redirections pipe_demo [Redir_file 1 (u ''p'') True] (pipe_new None False False (vfs_of operator_tree) [u ''honeyfs/p'' \<mapsto> [1]] [])"
  let ?w = "eiter (\<lambda>(fd, b). write_to_fd fd b) [(1, [97])] (snd ?s)"
  have n: "\<not> startswith (backing_name pipe_demo x) (pq_contents pipe_demo)" for x
    by (simp add: backing_name_def pipe_demo_def path_join_def startswith_def endswith_def u_def)
  have c: "startswith (u ''honeyfs/p'') (pq_contents pipe_demo)" by code_simp
  from operator_files_untouched [OF n c, of "[Redir_file 1 (u ''p'') True]" None False False "vfs_of operator_tree" "[u ''honeyfs/p'' \<mapsto> [1]]" "[]"
      "fst ?s" "snd ?s" "[(1, [97])]" "fst ?w" "snd ?w"]
  show ?thesis by simp
qed

end
