(* ===== verification/Shell_Run.thy ===== *)
theory Shell_Run
  imports Shell_Pipe
begin

text \<open>
  \<^verbatim>\<open>sensor/cowrie/src/cowrie/shell/honeypot.py\<close>, method \<^verbatim>\<open>runCommand\<close>, with \<^verbatim>\<open>getCommand\<close> and \<^verbatim>\<open>call_command\<close> of
  \<^verbatim>\<open>shell/protocol.py\<close>: how the emulated shell runs the command lines that are pending.  The commands
  themselves are a parameter: what one does to the state of its pipe and to the working directory
  between its start and its exit, so that a command is over when \<^verbatim>\<open>start\<close> returns.  The clock does not
  move while a line is run.  The calls nest, command by command; a bound on their depth stands for
  that of the interpreter.
\<close>

section \<open>Finding a command\<close>

datatype 'c found = Known 'c | Txtcmd bytes | Scriptcmd pystr

record 'c sh_conf =
  sc_pipe :: pipe_conf
  sc_commands :: "pystr \<Rightarrow> 'c option"
  sc_txt_operator :: "pystr \<Rightarrow> bytes option"             \<comment> \<open>files below the operator's \<^verbatim>\<open>txtcmds_path\<close>\<close>
  sc_txt_data :: "pystr \<Rightarrow> fs_error + bytes option"       \<comment> \<open>the packaged ones; None is FileNotFoundError\<close>
  sc_interactive :: bool
  sc_exec :: bool                                     \<comment> \<open>whether the protocol is that of an exec request\<close>
  sc_redirect :: bool
  sc_stack :: nat                                     \<comment> \<open>the length of the stack with this shell on top\<close>
  sc_behave :: "'c found \<Rightarrow> pystr list \<Rightarrow> (fs_error, pipe \<times> pystr, unit) eff_of"

fun first_existing :: "pystr list \<Rightarrow> vfs \<Rightarrow> fs_error + pystr option" where
  "first_existing [] vf = Inr None"
| "first_existing (i # is) vf = rbind (exists i vf) (\<lambda>e. if e then Inr (Some i) else first_existing is vf)"

fun resolve_all :: "vfs \<Rightarrow> pystr \<Rightarrow> pystr \<Rightarrow> pystr list \<Rightarrow> fs_error + pystr list" where
  "resolve_all vf cwd cmd [] = Inr []"
| "resolve_all vf cwd cmd (x # xs) =
     rbind (resolve_path (vf_home vf) x cwd) (\<lambda>p. rbind (resolve_all vf cwd cmd xs) (\<lambda>ps. Inr ((p @ u ''/'' @ cmd) # ps)))"

definition command_path :: "vfs \<Rightarrow> pystr \<Rightarrow> pystr \<Rightarrow> pystr list \<Rightarrow> fs_error + pystr option" where
  "command_path vf cwd cmd paths =
     (if hd cmd = 46 \<or> hd cmd = 47 then
        rbind (resolve_path (vf_home vf) cmd cwd) (\<lambda>path. rbind (exists path vf) (\<lambda>e. Inr (if e then Some path else None)))
      else rbind (resolve_all vf cwd cmd paths) (\<lambda>is. first_existing is vf))"

definition getCommand :: "'c sh_conf \<Rightarrow> vfs \<Rightarrow> pystr \<Rightarrow> pystr \<Rightarrow> pystr list \<Rightarrow> fs_error + 'c found option" where
  "getCommand C vf cwd cmd paths =
     (if py_strip cmd = [] then Inr None
      else case sc_commands C cmd of
             Some c \<Rightarrow> Inr (Some (Known c))
           | None \<Rightarrow>
               rbind (command_path vf cwd cmd paths) (\<lambda>r.
                 case r of
                   None \<Rightarrow> Inr None
                 | Some path \<Rightarrow>
                     (let relpath = lstrip_if (\<lambda>c. c = 47) path in
                      case sc_txt_operator C relpath of
                        Some b \<Rightarrow> Inr (Some (Txtcmd b))
                      | None \<Rightarrow>
                          rbind (sc_txt_data C relpath) (\<lambda>t.
                            case t of
                              Some b \<Rightarrow> Inr (Some (Txtcmd b))
                            | None \<Rightarrow>
                                (case sc_commands C path of
                                   Some c \<Rightarrow> Inr (Some (Known c))
                                 | None \<Rightarrow> Inr (if isfile path vf then Some (Scriptcmd path) else None))))))"

section \<open>From tokens to a pipeline\<close>

fun strip_assignments :: "(pystr \<times> pystr) list \<Rightarrow> pystr list \<Rightarrow> (pystr \<times> pystr) list \<times> pystr list" where
  "strip_assignments env [] = (env, [])"
| "strip_assignments env (piece # rest) =
     (if 61 \<in> set piece
      then strip_assignments (AList.update (takeWhile (\<lambda>c. c \<noteq> 61) piece) (drop 1 (dropWhile (\<lambda>c. c \<noteq> 61) piece)) env) rest
      else (env, piece # rest))"

fun split_pipes :: "pystr list \<Rightarrow> pystr list list" where
  "split_pipes [] = [[]]"
| "split_pipes (t # ts) =
     (if t = u ''|'' then [] # split_pipes ts
      else (case split_pipes ts of [] \<Rightarrow> [[t]] | p # ps \<Rightarrow> (t # p) # ps))"

type_synonym cmd_entry = "pystr \<times> pystr list \<times> redir_op list"

text \<open>The only exception of the parser is the ValueError of a number that is too long.\<close>

definition redirections_of :: "('x) ext_scheme \<Rightarrow> pystr list \<Rightarrow> fs_error + pystr list \<times> redir_op list" where
  "redirections_of E ts = (case parse_redirections E ts of Inr r \<Rightarrow> Inr r | Inl _ \<Rightarrow> Inl FsValueError)"

fun rest_of_pipeline :: "('x) ext_scheme \<Rightarrow> pystr list list \<Rightarrow> fs_error + cmd_entry list" where
  "rest_of_pipeline E [] = Inr []"
| "rest_of_pipeline E (ts # tss) =
     rbind (redirections_of E ts) (\<lambda>(args, ops).
     rbind (rest_of_pipeline E tss) (\<lambda>cs.
       Inr (case args of [] \<Rightarrow> cs | c # rargs \<Rightarrow> (c, rargs, ops) # cs)))"

section \<open>The session\<close>

record 'c stage =
  sg_cmd :: "'c found"
  sg_args :: "pystr list"
  sg_pipe :: pipe

datatype 'c sh_event = Prompt | Process_ended | Shell_left | Called "'c found" "pystr list" "bytes option"

record 'c sess =
  ss_pending :: "pystr list list"
  ss_pp :: "'c stage list"                 \<comment> \<open>the current command and those behind it in its pipeline\<close>
  ss_env :: "(pystr \<times> pystr) list"
  ss_cwd :: pystr
  ss_fs :: vfs
  ss_disk :: disk
  ss_term :: "bytes list"
  ss_redir :: "(pystr \<times> pystr) list"
  ss_events :: "'c sh_event list"

type_synonym ('c, 'a) shop = "(fs_error, 'c sess, 'a) eff_of"

definition conf_at :: "'c sh_conf \<Rightarrow> pystr \<Rightarrow> pipe_conf" where
  "conf_at C cwd = (sc_pipe C)\<lparr>pq_cwd := cwd\<rparr>"

definition log_event :: "'c sh_event \<Rightarrow> ('c, unit) shop" where
  "log_event e s = (Inr (), s\<lparr>ss_events := ss_events s @ [e]\<rparr>)"

text \<open>The objects share the file system, the disk and the terminal of the session.\<close>

definition load_pipe :: "'c sess \<Rightarrow> pipe \<Rightarrow> pipe" where
  "load_pipe s p = p\<lparr>pp_fs := ss_fs s, pp_disk := ss_disk s, pp_term := ss_term s\<rparr>"

definition save_pipe :: "pipe \<Rightarrow> 'c sess \<Rightarrow> 'c sess" where
  "save_pipe p s = s\<lparr>ss_fs := pp_fs p, ss_disk := pp_disk p, ss_term := pp_term p\<rparr>"

definition on_pipe :: "'a pop \<Rightarrow> pipe \<Rightarrow> ('c, 'a \<times> pipe) shop" where
  "on_pipe m p s =
     (case m (load_pipe s p) of
        (Inl e, q) \<Rightarrow> (Inl e, save_pipe q s)
      | (Inr x, q) \<Rightarrow> (Inr (x, q), save_pipe q s))"

definition new_pipe :: "'c sh_conf \<Rightarrow> pipe option \<Rightarrow> redir_op list \<Rightarrow> ('c, pipe) shop" where
  "new_pipe C nxt ops s =
     ebind (on_pipe (setup_redirections (conf_at C (ss_cwd s)) ops)
       (pipe_new (map_option pp_input nxt) (case nxt of None \<Rightarrow> False | Some q \<Rightarrow> has_redirection_error q)
          (sc_redirect C) (ss_fs s) (ss_disk s) (ss_term s)))
       (\<lambda>(_, p). eret p) s"

definition keep_redirects :: "pipe \<Rightarrow> ('c, unit) shop" where
  "keep_redirects p s = (Inr (), s\<lparr>ss_redir := fold List.insert (pp_real_files p) (ss_redir s)\<rparr>)"

definition show_prompt :: "'c sh_conf \<Rightarrow> ('c, unit) shop" where
  "show_prompt C = (if sc_interactive C then log_event Prompt else eret ())"

definition not_found_message :: "pystr \<Rightarrow> pystr" where
  "not_found_message cmd = u ''-bash: '' @ cmd @ u '': command not found'' @ [10]"

definition report_missing :: "'c sh_conf \<Rightarrow> pystr \<Rightarrow> redir_op list \<Rightarrow> ('c, unit) shop" where
  "report_missing C cmd ops =
     (case utf8_encode (not_found_message cmd) of
        Inl _ \<Rightarrow> eraise FsUnicodeError
      | Inr message \<Rightarrow>
          if ops = [] then (\<lambda>s. (Inr (), s\<lparr>ss_term := ss_term s @ [message]\<rparr>))
          else ebind (new_pipe C None ops) (\<lambda>p. ebind (on_pipe (write_stderr message) p) (\<lambda>(_, q). keep_redirects q)))"

text \<open>
  The pipeline is made from its last command to its first; None when one of them is not there, which
  has been reported.
\<close>

fun build :: "'c sh_conf \<Rightarrow> pystr list \<Rightarrow> cmd_entry list \<Rightarrow> ('c, 'c stage list option) shop" where
  "build C paths [] = eret (Some [])"
| "build C paths ((cmd, rargs, ops) # rest) =
     ebind (build C paths rest) (\<lambda>b.
       case b of
         None \<Rightarrow> eret None
       | Some stages \<Rightarrow>
           (\<lambda>s. ebind (elift (getCommand C (ss_fs s) (ss_cwd s) cmd paths)) (\<lambda>r.
              case r of
                Some c \<Rightarrow>
                  ebind (new_pipe C (case stages of [] \<Rightarrow> None | st # _ \<Rightarrow> Some (sg_pipe st)) ops) (\<lambda>p.
                    eret (Some (\<lparr>sg_cmd = c, sg_args = rargs, sg_pipe = p\<rparr> # stages)))
              | None \<Rightarrow>
                  ebind (report_missing C cmd ops) (\<lambda>_.
                  ebind (\<lambda>s. (if sc_exec C \<and> ss_pending s = [] then log_event Process_ended else eret ()) s) (\<lambda>_.
                    eret None))) s))"

section \<open>Running\<close>

text \<open>The command at the head of a pipeline up to its exit; its output may have gone to the command behind it.\<close>

definition run_stage :: "'c sh_conf \<Rightarrow> 'c stage \<Rightarrow> 'c stage list \<Rightarrow> ('c, unit) shop" where
  "run_stage C st rest s =
     (case sc_behave C (sg_cmd st) (sg_args st) (load_pipe s (sg_pipe st), ss_cwd s) of
        (r, (p, cwd)) \<Rightarrow>
          (let rest' = (case (pp_next p, rest) of
                          (Some i, nx # nxs) \<Rightarrow> nx\<lparr>sg_pipe := (sg_pipe nx)\<lparr>pp_input := i\<rparr>\<rparr> # nxs
                        | _ \<Rightarrow> rest);
               s' = (save_pipe p s)\<lparr>ss_cwd := cwd, ss_pp := st\<lparr>sg_pipe := p\<rparr> # rest'\<rparr> in
           case r of
             Inl e \<Rightarrow> (Inl e, s')
           | Inr _ \<Rightarrow> keep_redirects p s'))"

datatype 'c task = Run_command | Run_or_prompt | Call_command "'c stage list"

definition start_pipeline :: "'c stage list \<Rightarrow> 'c task" where
  "start_pipeline stages =
     (case stages of [] \<Rightarrow> Run_or_prompt
      | st # _ \<Rightarrow> if has_redirection_error (sg_pipe st) then Run_or_prompt else Call_command stages)"

text \<open>What \<^verbatim>\<open>runCommand\<close> does with one pending line, up to the call in which it ends.\<close>

definition plan_line :: "('x) ext_scheme \<Rightarrow> 'c sh_conf \<Rightarrow> pystr list \<Rightarrow> ('c, 'c task) shop" where
  "plan_line E C line s =
     (case strip_assignments (ss_env s) line of (env, tokens) \<Rightarrow>
        if tokens = [] then (Inr Run_or_prompt, s)
        else
          (let pieces = split_pipes tokens in
           ebind (elift (redirections_of E (hd pieces))) (\<lambda>(args, ops).
             case args of
               [] \<Rightarrow>
                 if ops = [] then eret Run_or_prompt
                 else ebind (new_pipe C None ops) (\<lambda>_. eret Run_or_prompt)
             | c # rargs \<Rightarrow>
                 ebind (elift (rest_of_pipeline E (tl pieces))) (\<lambda>cs.
                 ebind (elift (case map_of env (u ''PATH'') of Some p \<Rightarrow> Inr (split_on 58 p) | None \<Rightarrow> Inl FsKeyError)) (\<lambda>paths.
                 ebind (build C paths ((c, rargs, ops) # cs)) (\<lambda>b.
                   eret (case b of None \<Rightarrow> Run_or_prompt | Some stages \<Rightarrow> start_pipeline stages))))) s))"

fun perform :: "nat \<Rightarrow> ('x) ext_scheme \<Rightarrow> 'c sh_conf \<Rightarrow> 'c task \<Rightarrow> ('c, unit) shop" where
  "perform 0 E C t s = (Inl FsRecursionError, s)"
| "perform (Suc n) E C Run_or_prompt s =
     (if ss_pending s \<noteq> [] then perform n E C Run_command s else show_prompt C s)"
| "perform (Suc n) E C Run_command s =
     (case ss_pending s of
        [] \<Rightarrow>
          (case ss_pp s of
             [] \<Rightarrow> (Inl FsAttributeError, s)
           | [_] \<Rightarrow> if sc_interactive C then show_prompt C s
                   else if sc_stack C = 1 then log_event Process_ended s
                   else (Inr (), s)
           | _ \<Rightarrow> (Inr (), s))
      | line # rest \<Rightarrow> ebind (plan_line E C line) (perform n E C) (s\<lparr>ss_pending := rest\<rparr>))"
| "perform (Suc n) E C (Call_command stages) s =
     (case stages of
        [] \<Rightarrow> (Inr (), s)
      | st # rest \<Rightarrow>
          ebind (log_event (Called (sg_cmd st) (sg_args st) (pp_input (sg_pipe st)))) (\<lambda>_.
          ebind (run_stage C st rest) (\<lambda>_.
          ebind (perform n E C Run_command) (\<lambda>_ s.
            case ss_pp s of
              _ # nx # nxs \<Rightarrow> perform n E C (Call_command (nx # nxs)) s
            | _ \<Rightarrow> (Inr (), s)))) s)"

section \<open>Lines of simple commands\<close>

text \<open>
  A simple command is a known one whose tokens are neither redirections nor assignments.  Such a line
  is a pipeline of them; the commands are filters, which write to standard output as their arguments
  and their input decide.
\<close>

type_synonym simple = "pystr \<times> pystr list"

definition line_tokens :: "simple list \<Rightarrow> pystr list" where
  "line_tokens l = concat (map (\<lambda>(c, args). u ''|'' # c # args) l)"

definition simple_ok :: "('x) ext_scheme \<Rightarrow> 'c sh_conf \<Rightarrow> simple \<Rightarrow> bool" where
  "simple_ok E C x = (case x of (c, args) \<Rightarrow>
     61 \<notin> set c \<and> py_strip c \<noteq> [] \<and> sc_commands C c \<noteq> None \<and> u ''|'' \<notin> set (c # args) \<and>
     redirections_of E (c # args) = Inr (c # args, []))"

definition known :: "'c sh_conf \<Rightarrow> simple \<Rightarrow> 'c found" where
  "known C x = Known (the (sc_commands C (fst x)))"

definition filters :: "'c sh_conf \<Rightarrow> ('c found \<Rightarrow> pystr list \<Rightarrow> bytes option \<Rightarrow> bytes list) \<Rightarrow> bool" where
  "filters C f \<longleftrightarrow> (\<forall>c args p cwd. sc_behave C c args (p, cwd) = (Inr (), (snd (eiter write_stdout (f c args (pp_input p)) p), cwd)))"

lemma split_pipes_plain: "u ''|'' \<notin> set ts \<Longrightarrow> split_pipes (ts @ u ''|'' # rest) = ts # split_pipes rest"
  by (induction ts) auto

lemma split_pipes_end: "u ''|'' \<notin> set ts \<Longrightarrow> split_pipes ts = [ts]"
  by (induction ts) auto

lemma split_line:
  "list_all (simple_ok E C) l \<Longrightarrow> u ''|'' \<notin> set ts \<Longrightarrow> split_pipes (ts @ line_tokens l) = ts # map (\<lambda>(c, args). c # args) l"
proof (induction l arbitrary: ts)
  case (Cons x l)
  obtain c args where x: "x = (c, args)" by fastforce
  have "split_pipes ((c # args) @ line_tokens l) = (c # args) # map (\<lambda>(c, args). c # args) l"
    by (rule Cons.IH) (use Cons.prems x in \<open>auto simp: simple_ok_def\<close>)
  with split_pipes_plain [OF Cons.prems(2)] show ?case by (simp add: x line_tokens_def)
qed (simp add: line_tokens_def split_pipes_end)

lemma rest_simple:
  "list_all (simple_ok E C) l \<Longrightarrow> rest_of_pipeline E (map (\<lambda>(c, args). c # args) l) = Inr (map (\<lambda>(c, args). (c, args, [])) l)"
  by (induction l) (auto simp: simple_ok_def)

fun stages_of :: "'c sh_conf \<Rightarrow> 'c sess \<Rightarrow> simple list \<Rightarrow> 'c stage list" where
  "stages_of C s [] = []"
| "stages_of C s (x # l) =
     \<lparr>sg_cmd = known C x, sg_args = snd x,
      sg_pipe = pipe_new (if l = [] then None else Some None) False (sc_redirect C) (ss_fs s) (ss_disk s) (ss_term s)\<rparr> # stages_of C s l"

lemma save_same [simp]: "save_pipe (pipe_new a b c (ss_fs s) (ss_disk s) (ss_term s)) s = s"
  by (simp add: save_pipe_def pipe_new_def)

lemma load_same [simp]: "load_pipe s (pipe_new a b c vf d tm) = pipe_new a b c (ss_fs s) (ss_disk s) (ss_term s)"
  by (simp add: load_pipe_def pipe_new_def)

lemma new_pipe_plain:
  "new_pipe C nxt [] s = (Inr (pipe_new (map_option pp_input nxt) (case nxt of None \<Rightarrow> False | Some q \<Rightarrow> has_redirection_error q)
     (sc_redirect C) (ss_fs s) (ss_disk s) (ss_term s)), s)"
  by (simp add: new_pipe_def on_pipe_def setup_redirections_def ebind_def)

lemma build_simple:
  "list_all (simple_ok E C) l \<Longrightarrow> build C paths (map (\<lambda>(c, args). (c, args, [])) l) s = (Inr (Some (stages_of C s l)), s)"
proof (induction l)
  case (Cons x l)
  obtain c args where x: "x = (c, args)" by fastforce
  have g: "getCommand C (ss_fs s) (ss_cwd s) c paths = Inr (Some (known C x))"
    using Cons.prems x by (auto simp: getCommand_def simple_ok_def known_def)
  have b: "build C paths (map (\<lambda>(c, args). (c, args, [])) l) s = (Inr (Some (stages_of C s l)), s)"
    using Cons by simp
  show ?case
    using g b x by (cases l) (simp_all add: ebind_def new_pipe_plain pipe_new_def has_redirection_error_def)
qed simp

definition tokens_of :: "simple list \<Rightarrow> pystr list" where
  "tokens_of l = tl (line_tokens l)"

lemma plan_simple:
  assumes ok: "list_all (simple_ok E C) l" "l \<noteq> []" and path: "map_of (ss_env s) (u ''PATH'') \<noteq> None"
  shows "plan_line E C (tokens_of l) s = (Inr (Call_command (stages_of C s l)), s)"
proof -
  obtain c args l' where l: "l = (c, args) # l'" using ok(2) by (cases l) auto
  have c: "simple_ok E C (c, args)" "list_all (simple_ok E C) l'" using ok l by simp_all
  have t: "tokens_of l = (c # args) @ line_tokens l'" by (simp add: tokens_of_def line_tokens_def l)
  have sp: "split_pipes ((c # args) @ line_tokens l') = (c # args) # map (\<lambda>(c, args). c # args) l'"
    by (rule split_line [OF c(2)]) (use c(1) in \<open>simp add: simple_ok_def\<close>)
  have sa: "strip_assignments (ss_env s) ((c # args) @ line_tokens l') = (ss_env s, (c # args) @ line_tokens l')"
    using c(1) by (simp add: simple_ok_def)
  obtain p where p: "map_of (ss_env s) (u ''PATH'') = Some p" using path by blast
  have rd: "redirections_of E (c # args) = Inr (c # args, [])" using c(1) by (simp add: simple_ok_def)
  have st: "start_pipeline (stages_of C s l) = Call_command (stages_of C s l)"
    by (simp add: l start_pipeline_def has_redirection_error_def pipe_new_def)
  have b: "build C (split_on 58 p) ((c, args, []) # map (\<lambda>(c, args). (c, args, [])) l') s = (Inr (Some (stages_of C s l)), s)"
    using build_simple [OF ok(1), of "split_on 58 p" s] by (simp add: l)
  show ?thesis
    unfolding t plan_line_def sa using sp rest_simple [OF c(2)] p rd b st by (simp add: Let_def ebind_def del: build.simps)
qed

definition piped_on :: "bytes option \<Rightarrow> bytes list \<Rightarrow> bytes option" where
  "piped_on i ws = (if ws = [] then i else Some ((case i of None \<Rightarrow> [] | Some b \<Rightarrow> b) @ concat ws))"

lemma write_terminal:
  "map_of (pp_targets p) 1 = Some Fd_terminal \<Longrightarrow> eiter write_stdout ws p = (Inr (), p\<lparr>pp_term := pp_term p @ ws\<rparr>)"
  by (induction ws arbitrary: p) (simp_all add: ebind_def write_stdout_def write_to_fd_def term_write_def)

lemma write_next:
  "map_of (pp_targets p) 1 = Some Fd_pipe \<Longrightarrow> pp_next p = Some i \<Longrightarrow>
     eiter write_stdout ws p = (Inr (), p\<lparr>pp_next := Some (piped_on i ws)\<rparr>)"
proof (induction ws arbitrary: p i)
  case (Cons w ws)
  let ?j = "Some ((case i of None \<Rightarrow> [] | Some b \<Rightarrow> b) @ w)" let ?p = "p\<lparr>pp_next := Some ?j\<rparr>"
  have "write_stdout w p = (Inr (), ?p)"
    using Cons.prems by (simp add: write_stdout_def write_to_fd_def pipe_to_next_def split: option.split)
  moreover have "eiter write_stdout ws ?p = (Inr (), ?p\<lparr>pp_next := Some (piped_on ?j ws)\<rparr>)"
    by (rule Cons.IH) (use Cons.prems in simp_all)
  ultimately show ?case by (simp add: ebind_def piped_on_def)
qed (simp add: piped_on_def)

text \<open>The first of the stages gets its input from the command before.\<close>

definition stages_in :: "'c sh_conf \<Rightarrow> 'c sess \<Rightarrow> bytes option \<Rightarrow> simple list \<Rightarrow> 'c stage list" where
  "stages_in C s i l = (case stages_of C s l of [] \<Rightarrow> [] | st # r \<Rightarrow> st\<lparr>sg_pipe := (sg_pipe st)\<lparr>pp_input := i\<rparr>\<rparr> # r)"

lemma stages_in_None: "stages_of C s l = stages_in C s None l"
  by (cases l) (simp_all add: stages_in_def pipe_new_def)

lemma run_stage_eq:
  assumes "sc_behave C (sg_cmd st) (sg_args st) (load_pipe s (sg_pipe st), ss_cwd s) = (Inr (), (q, ss_cwd s))"
    and "pp_real_files q = []" "pp_fs q = ss_fs s" "pp_disk q = ss_disk s"
  shows "pp_next q = None \<Longrightarrow> run_stage C st rest s = (Inr (), s\<lparr>ss_term := pp_term q, ss_pp := st\<lparr>sg_pipe := q\<rparr> # rest\<rparr>)"
    and "pp_next q = Some j \<Longrightarrow> run_stage C st (nx # nxs) s =
      (Inr (), s\<lparr>ss_term := pp_term q, ss_pp := st\<lparr>sg_pipe := q\<rparr> # nx\<lparr>sg_pipe := (sg_pipe nx)\<lparr>pp_input := j\<rparr>\<rparr> # nxs\<rparr>)"
  using assms by (simp_all add: run_stage_def Let_def save_pipe_def keep_redirects_def)

definition plain_pipe :: "bytes option option \<Rightarrow> bytes option \<Rightarrow> 'c sess \<Rightarrow> pipe" where
  "plain_pipe nxt i s = pipe_new nxt False False (ss_fs s) (ss_disk s) (ss_term s)\<lparr>pp_input := i\<rparr>"

lemma plain_pipe_parts:
  "pp_input (load_pipe s (plain_pipe nxt i s0)) = i" "pp_next (load_pipe s (plain_pipe nxt i s0)) = nxt"
  "pp_real_files (load_pipe s (plain_pipe nxt i s0)) = []" "pp_fs (load_pipe s (plain_pipe nxt i s0)) = ss_fs s"
  "pp_disk (load_pipe s (plain_pipe nxt i s0)) = ss_disk s" "pp_term (load_pipe s (plain_pipe nxt i s0)) = ss_term s"
  "map_of (pp_targets (load_pipe s (plain_pipe nxt i s0))) 1 = Some (if nxt \<noteq> None then Fd_pipe else Fd_terminal)"
  by (simp_all add: plain_pipe_def load_pipe_def pipe_new_def)

definition plain_stage :: "'c sh_conf \<Rightarrow> simple \<Rightarrow> bytes option option \<Rightarrow> bytes option \<Rightarrow> 'c sess \<Rightarrow> 'c stage" where
  "plain_stage C x nxt i s = \<lparr>sg_cmd = known C x, sg_args = snd x, sg_pipe = plain_pipe nxt i s\<rparr>"

lemma plain_stage_parts [simp]:
  "sg_cmd (plain_stage C x nxt i s) = known C x" "sg_args (plain_stage C x nxt i s) = snd x"
  "sg_pipe (plain_stage C x nxt i s) = plain_pipe nxt i s"
  by (simp_all add: plain_stage_def)

lemma stages_in_simps:
  assumes "\<not> sc_redirect C"
  shows "stages_in C s i [x] = [plain_stage C x None i s]"
    and "stages_in C s i (x # y # l) = plain_stage C x (Some None) i s # stages_in C s None (y # l)"
    and "(case stages_in C s None (y # l) of nx # nxs \<Rightarrow> nx\<lparr>sg_pipe := (sg_pipe nx)\<lparr>pp_input := j\<rparr>\<rparr> # nxs) = stages_in C s j (y # l)"
  using assms by (simp_all add: stages_in_def plain_stage_def plain_pipe_def) (simp_all add: pipe_new_def)

lemma run_last_stage:
  assumes "filters C f"
  shows "\<exists>st. run_stage C (plain_stage C x None i s0) [] s =
    (Inr (), s\<lparr>ss_term := ss_term s @ f (known C x) (snd x) i, ss_pp := [st]\<rparr>)"
proof -
  let ?p = "load_pipe s (plain_pipe None i s0)" and ?ws = "f (known C x) (snd x) i"
  have w: "eiter write_stdout ?ws ?p = (Inr (), ?p\<lparr>pp_term := ss_term s @ ?ws\<rparr>)"
    by (simp add: write_terminal plain_pipe_parts)
  have "sc_behave C (known C x) (snd x) (?p, ss_cwd s) = (Inr (), (?p\<lparr>pp_term := ss_term s @ ?ws\<rparr>, ss_cwd s))"
    using assms w by (simp add: filters_def plain_pipe_parts)
  from run_stage_eq(1) [of C "plain_stage C x None i s0" s, simplified, OF this] show ?thesis
    by (auto simp: plain_pipe_parts)
qed

lemma run_inner_stage:
  assumes "filters C f" "\<not> sc_redirect C"
  shows "\<exists>st. run_stage C (plain_stage C x (Some None) i s0) (stages_in C s0 None (y # l)) s =
    (Inr (), s\<lparr>ss_pp := st # stages_in C s0 (piped_on None (f (known C x) (snd x) i)) (y # l)\<rparr>)"
proof -
  let ?p = "load_pipe s (plain_pipe (Some None) i s0)" and ?ws = "f (known C x) (snd x) i"
  have w: "eiter write_stdout ?ws ?p = (Inr (), ?p\<lparr>pp_next := Some (piped_on None ?ws)\<rparr>)"
    by (simp add: write_next plain_pipe_parts)
  have b: "sc_behave C (known C x) (snd x) (?p, ss_cwd s) = (Inr (), (?p\<lparr>pp_next := Some (piped_on None ?ws)\<rparr>, ss_cwd s))"
    using assms(1) w by (simp add: filters_def plain_pipe_parts)
  obtain nx nxs where n: "stages_in C s0 None (y # l) = nx # nxs" by (simp add: stages_in_def)
  have "stages_in C s0 (piped_on None ?ws) (y # l) = nx\<lparr>sg_pipe := (sg_pipe nx)\<lparr>pp_input := piped_on None ?ws\<rparr>\<rparr> # nxs"
    using stages_in_simps(3) [OF assms(2), where s = s0 and y = y and l = l and j = "piped_on None ?ws"] n by simp
  with run_stage_eq(2) [of C "plain_stage C x (Some None) i s0" s, simplified, OF b] n show ?thesis
    by (auto simp: plain_pipe_parts)
qed

section \<open>What the shell runs\<close>

definition finish_events :: "'c sh_conf \<Rightarrow> 'c sh_event list" where
  "finish_events C = (if sc_interactive C then [Prompt] else if sc_stack C = 1 then [Process_ended] else [])"

text \<open>A pipeline: every command gets what the one before it wrote; the last one writes to the terminal.\<close>

fun feeds :: "'c sh_conf \<Rightarrow> ('c found \<Rightarrow> pystr list \<Rightarrow> bytes option \<Rightarrow> bytes list) \<Rightarrow> bytes option \<Rightarrow> simple list \<Rightarrow> 'c sh_event list \<times> bytes list" where
  "feeds C f i [] = ([], [])"
| "feeds C f i [x] = ([Called (known C x) (snd x) i], f (known C x) (snd x) i)"
| "feeds C f i (x # y # l) =
     (case feeds C f (piped_on None (f (known C x) (snd x) i)) (y # l) of (evs, out) \<Rightarrow> (Called (known C x) (snd x) i # evs, out))"

text \<open>Of every line but the last, the first command alone.\<close>

fun shell_does :: "'c sh_conf \<Rightarrow> ('c found \<Rightarrow> pystr list \<Rightarrow> bytes option \<Rightarrow> bytes list) \<Rightarrow> simple list list \<Rightarrow> 'c sh_event list \<times> bytes list" where
  "shell_does C f [] = ([], [])"
| "shell_does C f [l] = feeds C f None l"
| "shell_does C f (l # m # ls) =
     (case shell_does C f (m # ls) of (evs, out) \<Rightarrow>
        (Called (known C (hd l)) (snd (hd l)) None # evs, (if tl l = [] then f (known C (hd l)) (snd (hd l)) None else []) @ out))"

lemma run_pipeline:
  assumes C: "filters C f" "\<not> sc_redirect C"
  shows "ss_pending s = [] \<Longrightarrow> l \<noteq> [] \<Longrightarrow> length l < m \<Longrightarrow>
    \<exists>st. perform m E C (Call_command (stages_in C s0 i l)) s =
      (Inr (), s\<lparr>ss_events := ss_events s @ fst (feeds C f i l) @ finish_events C, ss_term := ss_term s @ snd (feeds C f i l), ss_pp := [st]\<rparr>)"
proof (induction l arbitrary: i s m)
  case (Cons x l)
  obtain k where m: "m = Suc (Suc k)" using Cons.prems(3) by (cases m; cases "m - 1") auto
  let ?s1 = "s\<lparr>ss_events := ss_events s @ [Called (known C x) (snd x) i]\<rparr>"
  show ?case
  proof (cases l)
    case Nil
    from run_last_stage [OF C(1), of x i s0 ?s1] obtain st where
      "run_stage C (plain_stage C x None i s0) [] ?s1 = (Inr (), ?s1\<lparr>ss_term := ss_term s @ f (known C x) (snd x) i, ss_pp := [st]\<rparr>)" by auto
    then show ?thesis
      using Cons.prems(1) Nil m
      by (intro exI [of _ st]) (simp add: stages_in_simps(1) [OF C(2)] ebind_def log_event_def plain_pipe_def show_prompt_def finish_events_def)
  next
    case (Cons y l')
    let ?j = "piped_on None (f (known C x) (snd x) i)"
    from run_inner_stage [OF C, of x i s0 y l' ?s1] obtain st where
      r: "run_stage C (plain_stage C x (Some None) i s0) (stages_in C s0 None (y # l')) ?s1 = (Inr (), ?s1\<lparr>ss_pp := st # stages_in C s0 ?j (y # l')\<rparr>)" by auto
    let ?s2 = "?s1\<lparr>ss_pp := st # stages_in C s0 ?j (y # l')\<rparr>"
    obtain nx nxs where n: "stages_in C s0 ?j (y # l') = nx # nxs" by (simp add: stages_in_def)
    have "perform (Suc k) E C Run_command ?s2 = (Inr (), ?s2)" using Cons.prems(1) n by simp
    then have "perform m E C (Call_command (stages_in C s0 i (x # l))) s = perform (Suc k) E C (Call_command (stages_in C s0 ?j (y # l'))) ?s2"
      using r n by (simp add: m Cons stages_in_simps(2) [OF C(2)] ebind_def log_event_def plain_pipe_def del: perform.simps(4))
        (simp add: ebind_def log_event_def plain_pipe_def)
    moreover from Cons.IH [of ?s2 "Suc k" ?j] Cons.prems Cons m obtain st' where
      "perform (Suc k) E C (Call_command (stages_in C s0 ?j l)) ?s2 =
        (Inr (), ?s2\<lparr>ss_events := ss_events ?s2 @ fst (feeds C f ?j l) @ finish_events C, ss_term := ss_term ?s2 @ snd (feeds C f ?j l), ss_pp := [st']\<rparr>)" by auto
    ultimately show ?thesis using Cons by (intro exI [of _ st']) (simp add: case_prod_unfold)
  qed
qed simp

lemma run_first:
  assumes C: "filters C f" "\<not> sc_redirect C" and "l \<noteq> []"
  shows "\<exists>st nxs pp. stages_in C s0 None l = st # nxs \<and> sg_cmd st = known C (hd l) \<and> sg_args st = snd (hd l) \<and> pp_input (sg_pipe st) = None \<and>
    run_stage C st nxs s = (Inr (), s\<lparr>ss_term := ss_term s @ (if tl l = [] then f (known C (hd l)) (snd (hd l)) None else []), ss_pp := pp\<rparr>)"
proof -
  consider x where "l = [x]" | x y l' where "l = x # y # l'" using assms(3) by (metis list.exhaust)
  then show ?thesis
  proof cases
    case 1
    with run_last_stage [OF C(1), of x None s0 s] show ?thesis
      by (auto simp: stages_in_simps(1) [OF C(2)] plain_pipe_def)
  next
    case 2
    from run_inner_stage [OF C, of x None s0 y l' s] obtain st where
      "run_stage C (plain_stage C x (Some None) None s0) (stages_in C s0 None (y # l')) s =
        (Inr (), s\<lparr>ss_pp := st # stages_in C s0 (piped_on None (f (known C x) (snd x) None)) (y # l')\<rparr>)" by blast
    then show ?thesis
      by (simp add: 2 stages_in_simps(2) [OF C(2)], simp add: plain_pipe_def) (rule exI, rule refl)
  qed
qed

lemma run_lines:
  assumes C: "filters C f" "\<not> sc_redirect C"
  shows "list_all (\<lambda>l. l \<noteq> [] \<and> list_all (simple_ok E C) l) lines \<Longrightarrow> lines \<noteq> [] \<Longrightarrow> ss_pending s = map tokens_of lines \<Longrightarrow>
    map_of (ss_env s) (u ''PATH'') \<noteq> None \<Longrightarrow> 2 * length lines + length (concat lines) \<le> m \<Longrightarrow>
    \<exists>st. perform m E C Run_command s =
      (Inr (), s\<lparr>ss_pending := [], ss_events := ss_events s @ fst (shell_does C f lines) @ finish_events C,
                 ss_term := ss_term s @ snd (shell_does C f lines), ss_pp := [st]\<rparr>)"
proof (induction lines arbitrary: s m)
  case (Cons l lines)
  let ?s1 = "s\<lparr>ss_pending := map tokens_of lines\<rparr>"
  have l: "l \<noteq> []" "list_all (simple_ok E C) l" using Cons.prems(1) by simp_all
  obtain k where m: "m = Suc (Suc k)" using Cons.prems(5) by (cases m; cases "m - 1") auto
  have "plan_line E C (tokens_of l) ?s1 = (Inr (Call_command (stages_in C ?s1 None l)), ?s1)"
    using plan_simple [OF l(2,1), of ?s1] Cons.prems(4) by (simp add: stages_in_None)
  then have start: "perform m E C Run_command s = perform (Suc k) E C (Call_command (stages_in C ?s1 None l)) ?s1"
    using Cons.prems(3) by (simp add: m ebind_def del: perform.simps(4))
  show ?case
  proof (cases lines)
    case Nil
    have "length l < Suc k" using Cons.prems(5) Nil m by simp
    from run_pipeline [OF C _ l(1) this, of ?s1 E ?s1 None] Nil obtain st where
      "perform (Suc k) E C (Call_command (stages_in C ?s1 None l)) ?s1 =
        (Inr (), ?s1\<lparr>ss_events := ss_events ?s1 @ fst (feeds C f None l) @ finish_events C, ss_term := ss_term ?s1 @ snd (feeds C f None l), ss_pp := [st]\<rparr>)"
      by auto
    with start Nil show ?thesis by (intro exI [of _ st]) simp
  next
    case (Cons l2 ls)
    let ?s2 = "?s1\<lparr>ss_events := ss_events s @ [Called (known C (hd l)) (snd (hd l)) None]\<rparr>"
    from run_first [OF C l(1), of ?s1 ?s2] obtain st nxs pp where
      r: "stages_in C ?s1 None l = st # nxs" "sg_cmd st = known C (hd l)" "sg_args st = snd (hd l)" "pp_input (sg_pipe st) = None"
        "run_stage C st nxs ?s2 = (Inr (), ?s2\<lparr>ss_term := ss_term s @ (if tl l = [] then f (known C (hd l)) (snd (hd l)) None else []), ss_pp := pp\<rparr>)"
      by auto
    let ?s3 = "?s2\<lparr>ss_term := ss_term s @ (if tl l = [] then f (known C (hd l)) (snd (hd l)) None else []), ss_pp := pp\<rparr>"
    from Cons.IH [of ?s3 k] Cons.prems Cons m obtain st' where
      "perform k E C Run_command ?s3 = (Inr (), ?s3\<lparr>ss_pending := [], ss_events := ss_events ?s3 @ fst (shell_does C f lines) @ finish_events C,
                 ss_term := ss_term ?s3 @ snd (shell_does C f lines), ss_pp := [st']\<rparr>)" by auto
    with r start have "perform m E C Run_command s = (Inr (), ?s3\<lparr>ss_pending := [], ss_events := ss_events ?s3 @ fst (shell_does C f lines) @ finish_events C,
                 ss_term := ss_term ?s3 @ snd (shell_does C f lines), ss_pp := [st']\<rparr>)"
      by (simp add: ebind_def log_event_def)
    with Cons show ?thesis by (intro exI [of _ st']) (simp add: case_prod_unfold)
  qed
qed simp

text \<open>
  What the shell does with the lines that are pending, when they are pipelines of known commands that
  filter: given calls enough it returns with nothing pending, and of every line but the last it has
  run the first command alone, whose output is on the terminal only when it is the only one of its
  line; of the last line it has run every command, each with what the one before it wrote as its
  input, and has put the output of the last on the terminal.
\<close>

theorem shell_runs_exactly:
  assumes "filters C f" "\<not> sc_redirect C" "list_all (\<lambda>l. l \<noteq> [] \<and> list_all (simple_ok E C) l) lines" "lines \<noteq> []"
    and "ss_pending s = map tokens_of lines" "map_of (ss_env s) (u ''PATH'') \<noteq> None" "2 * length lines + length (concat lines) \<le> m"
  shows "\<exists>s'. perform m E C Run_command s = (Inr (), s') \<and> ss_pending s' = [] \<and>
    ss_events s' = ss_events s @ fst (shell_does C f lines) @ finish_events C \<and> ss_term s' = ss_term s @ snd (shell_does C f lines) \<and>
    ss_fs s' = ss_fs s \<and> ss_disk s' = ss_disk s"
proof -
  from run_lines [OF assms(1-7)] obtain st where
    "perform m E C Run_command s = (Inr (), s\<lparr>ss_pending := [], ss_events := ss_events s @ fst (shell_does C f lines) @ finish_events C,
       ss_term := ss_term s @ snd (shell_does C f lines), ss_pp := [st]\<rparr>)" by blast
  then show ?thesis by simp
qed

section \<open>Quirks\<close>

text \<open>
  So a pipeline with another command line behind it is cut after its first command: the exit of that
  command makes the shell run what is pending before the pipe is continued, and the pipe that is
  continued then is that of the last command run.
\<close>

lemma pending_line_cuts_pipeline:
  "fst (shell_does C f [[a, b], [c]]) = [Called (known C a) (snd a) None, Called (known C c) (snd c) None]"
  by simp

text \<open>An empty \<^verbatim>\<open>PATH\<close>, or one with an empty part, makes every command that is not built in raise.\<close>

lemma empty_path_raises:
  "py_strip cmd \<noteq> [] \<Longrightarrow> hd cmd \<noteq> 46 \<Longrightarrow> hd cmd \<noteq> 47 \<Longrightarrow> sc_commands C cmd = None \<Longrightarrow>
     getCommand C vf cwd cmd ([] # paths) = Inl FsIndexError"
  by (simp add: getCommand_def command_path_def resolve_path_def Let_def startswith_def u_def)

section \<open>Witnesses\<close>

definition demo_conf :: "pystr sh_conf" where
  "demo_conf = \<lparr>sc_pipe = pipe_demo, sc_commands = Some, sc_txt_operator = Map.empty, sc_txt_data = (\<lambda>_. Inr None),
     sc_interactive = True, sc_exec = False, sc_redirect = False, sc_stack = 1,
     sc_behave = (\<lambda>c args (p, cwd). (Inr (), (snd (eiter write_stdout [[97]] p), cwd)))\<rparr>"

definition demo_sess :: "pystr list list \<Rightarrow> pystr sess" where
  "demo_sess lines = \<lparr>ss_pending = lines, ss_pp = [], ss_env = [(u ''PATH'', u ''/bin'')], ss_cwd = u ''/'', ss_fs = vfs_of demo_tree,
     ss_disk = Map.empty, ss_term = [], ss_redir = [], ss_events = []\<rparr>"

theorem shell_runs_exactly_witness:
  "\<exists>s'. perform 7 ascii_ext demo_conf Run_command (demo_sess [[u ''a'', u ''|'', u ''b''], [u ''c'']]) = (Inr (), s') \<and>
     ss_events s' = [Called (Known (u ''a'')) [] None, Called (Known (u ''c'')) [] None, Prompt] \<and> ss_term s' = [[97]]"
proof -
  let ?l = "[[(u ''a'', []), (u ''b'', [])], [(u ''c'', [])]]" and ?f = "\<lambda>c args i. [[97]]"
  have "filters demo_conf ?f" "\<not> sc_redirect demo_conf" by (simp_all add: filters_def demo_conf_def)
  moreover have "list_all (\<lambda>l. l \<noteq> [] \<and> list_all (simple_ok ascii_ext demo_conf) l) ?l" by code_simp
  moreover have "[[u ''a'', u ''|'', u ''b''], [u ''c'']] = map tokens_of ?l" by (simp add: tokens_of_def line_tokens_def)
  moreover have "map_of (ss_env (demo_sess x)) (u ''PATH'') \<noteq> None" for x by (simp add: demo_sess_def)
  ultimately show ?thesis
    using shell_runs_exactly [of demo_conf ?f ascii_ext ?l "demo_sess (map tokens_of ?l)" 7]
    by (simp add: demo_sess_def finish_events_def) (auto simp: demo_conf_def known_def)
qed

end
