(* ===== verification/Py_Shlex.thy ===== *)
theory Py_Shlex
  imports Py_Prelude
begin

text \<open>
  The lexer \<^verbatim>\<open>shlex.shlex\<close> of the standard library, as the emulated shell sets it up: POSIX rules, with
  the punctuation \<^verbatim>\<open>();<>|&\<close> and more word characters than by default.  A character that is pushed back
  is read next, so it is put back in front of the text.  The lexer is only asked for token after token,
  so that it is given by the tokens that are still to come and by how they end: at the end of the text
  or with the ValueError of an open quotation.
\<close>

section \<open>Tokens\<close>

datatype lstate = L_space | L_word | L_punct | L_quote int | L_escape "int option"

definition lex_white :: "int \<Rightarrow> bool" where
  "lex_white c \<longleftrightarrow> c \<in> {32, 9, 13, 10}"

definition lex_punct :: "int \<Rightarrow> bool" where
  "lex_punct c \<longleftrightarrow> c \<in> set (u ''();<>|&'')"

definition lex_word :: "int \<Rightarrow> bool" where
  "lex_word c \<longleftrightarrow> 97 \<le> c \<and> c \<le> 122 \<or> 65 \<le> c \<and> c \<le> 90 \<or> 48 \<le> c \<and> c \<le> 57 \<or>
     192 \<le> c \<and> c \<le> 255 \<and> c \<noteq> 215 \<and> c \<noteq> 247 \<or> c \<in> set (u ''_~-./*?=@%{}$:+^,()`'')"

definition lex_quote :: "int \<Rightarrow> bool" where
  "lex_quote c \<longleftrightarrow> c = 39 \<or> c = 34"

text \<open>What is left after the rest of the line.\<close>

definition skip_line :: "pystr \<Rightarrow> pystr" where
  "skip_line s = drop 1 (dropWhile (\<lambda>c. c \<noteq> 10) s)"

lemma length_skip_line: "length (skip_line s) \<le> length s"
  using length_dropWhile_le [of "\<lambda>c. c \<noteq> 10" s] by (simp add: skip_line_def)

definition emit_token :: "pystr \<Rightarrow> bool \<Rightarrow> pystr \<Rightarrow> (pystr option \<times> pystr) option" where
  "emit_token tok quoted rest = Some (if \<not> quoted \<and> tok = [] then None else Some tok, rest)"

text \<open>The result is None when the text ends inside a quotation or after a backslash.\<close>

function read_token :: "lstate \<Rightarrow> pystr \<Rightarrow> bool \<Rightarrow> pystr \<Rightarrow> (pystr option \<times> pystr) option" where
  "read_token L_space tok quoted [] = emit_token tok quoted []"
| "read_token L_space tok quoted (c # r) =
     (if lex_white c then if tok \<noteq> [] \<or> quoted then emit_token tok quoted r else read_token L_space tok quoted r
      else if c = 35 then read_token L_space tok quoted (skip_line r)
      else if c = 92 then read_token (L_escape None) tok quoted r
      else if lex_word c then read_token L_word [c] quoted r
      else if lex_punct c then read_token L_punct [c] quoted r
      else if lex_quote c then read_token (L_quote c) tok quoted r
      else emit_token [c] quoted r)"
| "read_token (L_quote q) tok quoted [] = None"
| "read_token (L_quote q) tok quoted (c # r) =
     (if c = q then read_token L_word tok True r
      else if c = 92 \<and> q = 34 then read_token (L_escape (Some q)) tok True r
      else read_token (L_quote q) (tok @ [c]) True r)"
| "read_token (L_escape e) tok quoted [] = None"
| "read_token (L_escape e) tok quoted (c # r) =
     (case e of
        None \<Rightarrow> read_token L_word (tok @ [c]) quoted r
      | Some q \<Rightarrow> read_token (L_quote q) (tok @ (if c \<noteq> 92 \<and> c \<noteq> q then [92, c] else [c])) quoted r)"
| "read_token L_word tok quoted [] = emit_token tok quoted []"
| "read_token L_word tok quoted (c # r) =
     (if lex_white c then if tok \<noteq> [] \<or> quoted then emit_token tok quoted r else read_token L_space tok quoted r
      else if c = 35 then if tok \<noteq> [] \<or> quoted then emit_token tok quoted (skip_line r) else read_token L_space tok quoted (skip_line r)
      else if lex_quote c then read_token (L_quote c) tok quoted r
      else if c = 92 then read_token (L_escape None) tok quoted r
      else if lex_word c then read_token L_word (tok @ [c]) quoted r
      else if tok \<noteq> [] \<or> quoted then emit_token tok quoted (c # r)
      else read_token L_space tok quoted (c # r))"
| "read_token L_punct tok quoted [] = emit_token tok quoted []"
| "read_token L_punct tok quoted (c # r) =
     (if lex_white c then if tok \<noteq> [] \<or> quoted then emit_token tok quoted r else read_token L_space tok quoted r
      else if c = 35 then if tok \<noteq> [] \<or> quoted then emit_token tok quoted (skip_line r) else read_token L_space tok quoted (skip_line r)
      else if lex_punct c then read_token L_punct (tok @ [c]) quoted r
      else emit_token tok quoted (c # r))"
  by pat_completeness auto
termination
  by (relation "measures [\<lambda>(st, tok, quoted, r). length r, \<lambda>(st, tok, quoted, r). if st = L_space then 0 else 1]")
    (simp_all add: length_skip_line le_imp_less_Suc)

text \<open>A token takes something from the text, except in a state in which something is read already.\<close>

lemma read_token_shrinks:
  "read_token st tok quoted r = Some (Some t, r') \<Longrightarrow>
     length r' \<le> length r \<and> (st = L_space \<and> tok = [] \<and> \<not> quoted \<longrightarrow> length r' < length r)"
proof (induction st tok quoted r rule: read_token.induct)
  case (2 tok quoted c r)
  then show ?case using length_skip_line [of r] by (auto simp: emit_token_def split: if_splits)
next
  case (6 e tok quoted c r)
  then show ?case by (auto split: option.splits)
next
  case (8 tok quoted c r)
  then show ?case using length_skip_line [of r] by (auto simp: emit_token_def split: if_splits)
next
  case (10 tok quoted c r)
  then show ?case using length_skip_line [of r] by (auto simp: emit_token_def split: if_splits)
qed (auto simp: emit_token_def split: if_splits)

section \<open>The lexer\<close>

type_synonym lexer = "pystr list \<times> bool"   \<comment> \<open>the tokens to come, and whether they end with ValueError\<close>

function lex_tokens :: "pystr \<Rightarrow> lexer" where
  "lex_tokens s =
     (case read_token L_space [] False s of
        None \<Rightarrow> ([], True)
      | Some (None, _) \<Rightarrow> ([], False)
      | Some (Some t, r) \<Rightarrow> (case lex_tokens r of (ts, e) \<Rightarrow> (t # ts, e)))"
  by pat_completeness auto
termination
  by (relation "measure length") (auto dest: read_token_shrinks)

declare lex_tokens.simps [simp del]

section \<open>Quotation\<close>

text \<open>\<^verbatim>\<open>shlex.quote\<close> of a text that is not safe as it is: between single quotes, each of its own single quotes between double ones.\<close>

definition quoted :: "pystr \<Rightarrow> pystr" where
  "quoted w = [39] @ concat (map (\<lambda>c. if c = 39 then [39, 34, 39, 34, 39] else [c]) w) @ [39]"

lemma read_quotation:
  "read_token (L_quote 39) tok q (concat (map (\<lambda>c. if c = 39 then [39, 34, 39, 34, 39] else [c]) w) @ [39] @ r) =
     read_token L_word (tok @ w) True r"
  by (induction w arbitrary: tok q) (simp_all add: lex_white_def lex_quote_def)

lemma read_quoted: "read_token L_space [] False (quoted w @ r) = read_token L_word w True r"
  using read_quotation [of "[]" False w r]
  by (simp add: quoted_def lex_white_def lex_word_def lex_punct_def lex_quote_def u_def)

lemma lex_nil [simp]: "lex_tokens [] = ([], False)"
  by (simp add: lex_tokens.simps emit_token_def)

lemma lex_quoted_last: "lex_tokens (quoted w) = ([w], False)"
  using read_quoted [of w "[]"] by (simp add: lex_tokens.simps [of "quoted w"] emit_token_def)

lemma lex_quoted_next: "lex_tokens (quoted w @ 32 # r) = (w # fst (lex_tokens r), snd (lex_tokens r))"
  using read_quoted [of w "32 # r"]
  by (simp add: lex_tokens.simps [of "quoted w @ 32 # r"] emit_token_def lex_white_def case_prod_unfold)

text \<open>A word of punctuation before a space is a token of its own.\<close>

lemma read_punct:
  "list_all lex_punct p \<Longrightarrow> tok \<noteq> [] \<Longrightarrow> read_token L_punct tok False (p @ 32 # r) = Some (Some (tok @ p), r)"
proof (induction p arbitrary: tok)
  case (Cons c p)
  then have "\<not> lex_white c" "c \<noteq> 35" by (auto simp: lex_punct_def lex_white_def u_def)
  then show ?case using Cons by simp
qed (simp add: emit_token_def lex_white_def)

lemma lex_punct_next:
  assumes "list_all lex_punct p" "p \<noteq> []" "list_all (\<lambda>c. \<not> lex_word c) p"
  shows "lex_tokens (p @ 32 # r) = (p # fst (lex_tokens r), snd (lex_tokens r))"
proof -
  obtain c p' where p: "p = c # p'" using assms(2) by (cases p) auto
  have "\<not> lex_white c" "c \<noteq> 35" "c \<noteq> 92" using assms(1) p by (auto simp: lex_punct_def lex_white_def u_def)
  then have "read_token L_space [] False (p @ 32 # r) = Some (Some p, r)"
    using assms p read_punct [of p' "[c]" r] by simp
  then show ?thesis by (simp add: lex_tokens.simps [of "p @ 32 # r"] case_prod_unfold)
qed

lemma read_punct_last: "list_all lex_punct p \<Longrightarrow> tok \<noteq> [] \<Longrightarrow> read_token L_punct tok False p = Some (Some (tok @ p), [])"
proof (induction p arbitrary: tok)
  case (Cons c p)
  then have "\<not> lex_white c" "c \<noteq> 35" by (auto simp: lex_punct_def lex_white_def u_def)
  then show ?case using Cons by simp
qed (simp add: emit_token_def)

lemma lex_punct_last:
  assumes "list_all lex_punct p" "p \<noteq> []" "list_all (\<lambda>c. \<not> lex_word c) p"
  shows "lex_tokens p = ([p], False)"
proof -
  obtain c p' where p: "p = c # p'" using assms(2) by (cases p) auto
  have "\<not> lex_white c" "c \<noteq> 35" "c \<noteq> 92" using assms(1) p by (auto simp: lex_punct_def lex_white_def u_def)
  then have "read_token L_space [] False p = Some (Some p, [])" using assms p read_punct_last [of p' "[c]"] by simp
  then show ?thesis by (simp add: lex_tokens.simps [of p])
qed

text \<open>
  A line of tokens as one types it: control operators bare, everything else between quotes.  It is
  read back as these tokens, whatever characters they have.
\<close>

definition shown :: "pystr \<Rightarrow> pystr" where
  "shown t = (if t \<in> {u ''|'', u '';'', u ''&&'', u ''||''} then t else quoted t)"

lemma lex_shown: "lex_tokens (shown t @ 32 # r) = (t # fst (lex_tokens r), snd (lex_tokens r))" "lex_tokens (shown t) = ([t], False)"
proof -
  have "list_all lex_punct t \<and> t \<noteq> [] \<and> list_all (\<lambda>c. \<not> lex_word c) t" if "t \<in> {u ''|'', u '';'', u ''&&'', u ''||''}"
    using that by (auto simp: lex_punct_def lex_word_def u_def)
  then show "lex_tokens (shown t @ 32 # r) = (t # fst (lex_tokens r), snd (lex_tokens r))" "lex_tokens (shown t) = ([t], False)"
    using lex_punct_next [of t r] lex_punct_last [of t] by (simp_all add: shown_def lex_quoted_next lex_quoted_last del: insert_iff)
qed

lemma lex_line: "lex_tokens (py_join [32] (map shown ts)) = (ts, False)"
proof (induction ts rule: induct_list012)
  case (3 v w ts)
  then show ?case by (simp add: lex_shown)
qed (simp_all add: lex_shown)

end
