(* ===== verification/Shell_Line.thy ===== *)
theory Shell_Line
  imports Shell_Run Py_Shlex Py_Regex
begin

text \<open>
  \<^verbatim>\<open>sensor/cowrie/src/cowrie/shell/honeypot.py\<close>, the methods around \<^verbatim>\<open>lineReceived\<close>: how the emulated
  shell takes a line apart.  The tokens of the lexer are split into command lines, variables are
  replaced, and subshells and command substitutions are run by a shell of their own, which reads
  lines the same way and runs them as in \<^verbatim>\<open>Shell_Run\<close>.  The environment of such a shell is that of
  the shell around it.  The depth of the calls is bounded as there.
\<close>

section \<open>Reading tokens\<close>

definition get_token :: "lexer \<Rightarrow> fs_error + pystr option \<times> lexer" where
  "get_token lx =
     (case lx of
        (t # ts, e) \<Rightarrow> Inr (Some t, (ts, e))
      | ([], e) \<Rightarrow> if e then Inl FsValueError else Inr (None, ([], e)))"

lemma get_token_shrinks: "get_token lx = Inr (t, (a, b)) \<Longrightarrow> length a \<le> length (fst lx)"
  by (auto simp: get_token_def split: prod.splits list.splits if_splits)

lemma get_token_takes: "get_token lx = Inr (Some t, lx') \<Longrightarrow> length (fst lx') < length (fst lx)"
  by (auto simp: get_token_def split: prod.splits list.splits if_splits)

fun sub_index :: "pystr \<Rightarrow> pystr \<Rightarrow> nat option" where
  "sub_index p [] = (if p = [] then Some 0 else None)"
| "sub_index p (c # s) = (if startswith (c # s) p then Some 0 else map_option Suc (sub_index p s))"

definition has_substitution :: "pystr \<Rightarrow> bool" where
  "has_substitution s \<longleftrightarrow> sub_index (u ''$('') s \<noteq> None \<or> 96 \<in> set s"

text \<open>
  The text up to the parenthesis or backquote that closes, and where it is; further tokens are taken
  as they are needed.  The number is that of the brackets that are open.
\<close>

function scan_subst :: "nat \<Rightarrow> pystr \<Rightarrow> nat \<Rightarrow> lexer \<Rightarrow> fs_error + (pystr \<times> nat) option \<times> lexer" where
  "scan_subst d expr pos lx =
     (if length expr \<le> pos then Inl FsIndexError
      else if expr ! pos = 41 \<or> expr ! pos = 96 then
        (if d \<le> 1 then Inr (Some (expr, pos), lx) else scan_subst (d - 1) expr (Suc pos) lx)
      else if take 2 (drop pos expr) = u ''$('' then scan_subst (Suc d) expr (pos + 2) lx
      else if pos = length expr - 1 then
        (case get_token lx of
           Inl e \<Rightarrow> Inl e
         | Inr (None, lx') \<Rightarrow> Inr (None, lx')
         | Inr (Some t, lx') \<Rightarrow> scan_subst d (expr @ 32 # t) (Suc pos) lx')
      else scan_subst d expr (Suc pos) lx)"
  by pat_completeness auto
termination
  by (relation "measures [\<lambda>(d, expr, pos, lx). length (fst lx), \<lambda>(d, expr, pos, lx). length expr - pos]")
    (auto dest: get_token_takes)

function scan_paren :: "nat \<Rightarrow> pystr \<Rightarrow> nat \<Rightarrow> lexer \<Rightarrow> fs_error + (pystr \<times> nat) option \<times> lexer" where
  "scan_paren d expr pos lx =
     (if length expr \<le> pos then Inl FsIndexError
      else if expr ! pos = 41 then
        (if d \<le> 1 then Inr (Some (expr, pos), lx) else scan_paren (d - 1) expr (Suc pos) lx)
      else if expr ! pos = 40 then scan_paren (Suc d) expr (Suc pos) lx
      else if pos = length expr - 1 then
        (case get_token lx of
           Inl e \<Rightarrow> Inl e
         | Inr (None, lx') \<Rightarrow> Inr (None, lx')
         | Inr (Some t, lx') \<Rightarrow> scan_paren d (expr @ 32 # t) (Suc pos) lx')
      else scan_paren d expr (Suc pos) lx)"
  by pat_completeness auto
termination
  by (relation "measures [\<lambda>(d, expr, pos, lx). length (fst lx), \<lambda>(d, expr, pos, lx). length expr - pos]")
    (auto dest: get_token_takes)

declare scan_subst.simps [simp del] scan_paren.simps [simp del]

fun collect_group :: "nat \<Rightarrow> pystr list \<Rightarrow> bool \<Rightarrow> fs_error + pystr list \<times> lexer" where
  "collect_group d [] e = (if e then Inl FsValueError else Inr ([], ([], e)))"
| "collect_group d (t # ts) e =
     (if t = u '')'' \<and> d \<le> 1 then Inr ([], (ts, e))
      else rbind (collect_group (if t = u '')'' then d - 1 else if t = u ''('' then Suc d else d) ts e)
             (\<lambda>(g, lx). Inr (t # g, lx)))"

section \<open>Subshells\<close>

text \<open>The argument runs one command in a shell of its own and returns what it wrote.\<close>

type_synonym 'c single = "pystr \<Rightarrow> ('c, pystr) shop"

definition write_text :: "pystr \<Rightarrow> ('c, unit) shop" where
  "write_text t s =
     (case utf8_encode t of Inl _ \<Rightarrow> (Inl FsUnicodeError, s) | Inr b \<Rightarrow> (Inr (), s\<lparr>ss_term := ss_term s @ [b]\<rparr>))"

fun run_groups :: "'c single \<Rightarrow> pystr list \<Rightarrow> bool \<Rightarrow> pystr list \<Rightarrow> pystr \<Rightarrow> ('c, pystr) shop" where
  "run_groups single [] e cur acc =
     (if e then eraise FsValueError
      else if cur = [] then eret acc
      else ebind (single (py_join [32] cur)) (\<lambda>out. eret (acc @ out)))"
| "run_groups single (t # ts) e cur acc =
     (if t \<in> {u '';'', u ''&&'', u ''||''} then
        (if cur = [] then run_groups single ts e [] acc
         else ebind (single (py_join [32] cur)) (\<lambda>out. run_groups single ts e [] (acc @ out)))
      else run_groups single ts e (cur @ [t]) acc)"

definition full_output :: "'c single \<Rightarrow> pystr \<Rightarrow> ('c, pystr) shop" where
  "full_output single cmd = (case lex_tokens cmd of (ts, e) \<Rightarrow> run_groups single ts e [] [])"

definition run_subshell_command :: "'c single \<Rightarrow> pystr \<Rightarrow> ('c, pystr) shop" where
  "run_subshell_command single expr =
     (let cmd = drop (if startswith expr (u ''$('') then 2 else 1) (butlast expr) in
      if startswith expr (u ''('') then full_output single cmd
      else ebind (full_output single cmd) (\<lambda>out. eret (rstrip_if (\<lambda>c. c = 10) out)))"

definition do_subshell_execution_from_lexer :: "'c single \<Rightarrow> lexer \<Rightarrow> ('c, lexer) shop" where
  "do_subshell_execution_from_lexer single lx =
     ebind (elift (collect_group 1 (fst lx) (snd lx))) (\<lambda>(g, lx').
     ebind (run_subshell_command single (u ''('' @ py_join [32] g @ u '')'')) (\<lambda>out.
     ebind (write_text out) (\<lambda>_. eret lx')))"

definition do_subshell_execution :: "'c single \<Rightarrow> pystr \<Rightarrow> lexer \<Rightarrow> ('c, lexer) shop" where
  "do_subshell_execution single tok lx =
     ebind (elift (scan_paren 1 tok 1 lx)) (\<lambda>(hit, lx').
       case hit of
         None \<Rightarrow> eret lx'
       | Some (expr, pos) \<Rightarrow>
           ebind (run_subshell_command single (take (Suc pos) expr)) (\<lambda>out. ebind (write_text out) (\<lambda>_. eret lx')))"

text \<open>What stands before the substitution, the substitution and what follows, and where its command starts.\<close>

definition subst_start :: "pystr \<Rightarrow> fs_error + (pystr \<times> pystr \<times> nat) option" where
  "subst_start tok =
     (if tok = [] then Inl FsIndexError
      else if hd tok = 40 then Inr (Some ([], tok, 1))
      else case sub_index (u ''$('') tok of
             Some i \<Rightarrow> Inr (Some (take i tok, drop i tok, 2))
           | None \<Rightarrow> Inr (map_option (\<lambda>i. (take i tok, drop i tok, 1)) (sub_index [96] tok)))"

primrec do_command_substitution :: "nat \<Rightarrow> 'c single \<Rightarrow> pystr \<Rightarrow> lexer \<Rightarrow> ('c, pystr \<times> lexer) shop" where
  "do_command_substitution 0 single tok lx = eraise FsRecursionError"
| "do_command_substitution (Suc n) single tok lx =
     ebind (elift (subst_start tok)) (\<lambda>st.
       case st of
         None \<Rightarrow> eret (tok, lx)
       | Some (result, expr, pos) \<Rightarrow>
           ebind (elift (scan_subst 1 expr pos lx)) (\<lambda>(hit, lx').
             case hit of
               None \<Rightarrow> eret (result, lx')
             | Some (expr', p) \<Rightarrow>
                 ebind (run_subshell_command single (take (Suc p) expr')) (\<lambda>out.
                 ebind (if hd expr' = 40 then ebind (write_text out) (\<lambda>_. eret result) else eret (result @ out)) (\<lambda>result'.
                   let remainder = drop (Suc p) expr' in
                   if remainder \<noteq> [] \<and> has_substitution remainder
                   then do_command_substitution n single (result' @ remainder) lx'
                   else eret (result' @ remainder, lx')))))"

section \<open>Lines\<close>

definition env_items :: "citem list" where
  "env_items = [One 95, Rng 97 122, Rng 65 90, Rng 48 57]"

definition ENV_BRACE_RE :: rx where
  "ENV_BRACE_RE = rseq [RBos, rlit ''${'', RGrp 1 (rplus (In env_items)), rlit ''}'', REos]"

definition ENV_SIMPLE_RE :: rx where
  "ENV_SIMPLE_RE = rseq [RBos, rlit ''$'', RGrp 1 (rplus (In env_items)), REos]"

definition env_tokens :: "('x) ext_scheme \<Rightarrow> rx \<Rightarrow> (pystr \<times> pystr) list \<Rightarrow> pystr \<Rightarrow> pystr list" where
  "env_tokens E re env tok =
     (case rx_match (str_class E) False re tok of
        None \<Rightarrow> [tok]
      | Some m \<Rightarrow>
          (case grp m 1 of
             None \<Rightarrow> [tok]
           | Some name \<Rightarrow> (case map_of env name of None \<Rightarrow> [] | Some v \<Rightarrow> [v])))"

definition unexpected :: "pystr \<Rightarrow> pystr" where
  "unexpected tok = u ''-bash: syntax error near unexpected token `'' @ tok @ [39]"

text \<open>A token that does not separate commands: the reading of the line ends, or tokens are added to the command.\<close>

datatype token_effect = Stop | Go "pystr list" lexer

definition token_step :: "('x) ext_scheme \<Rightarrow> nat \<Rightarrow> 'c single \<Rightarrow> pystr \<Rightarrow> pystr list \<Rightarrow> lexer \<Rightarrow> ('c, token_effect) shop" where
  "token_step E n single tok tokens lx =
     (if tok = u ''$?'' then eret (Go [u ''0''] lx)
      else if startswith tok (u ''('') then
        (if tokens \<noteq> [] then ebind (write_text (unexpected tok @ [92, 110])) (\<lambda>_. eret Stop)
         else if tok = u ''('' then ebind (do_subshell_execution_from_lexer single lx) (\<lambda>lx'. eret (Go [] lx'))
         else ebind (do_subshell_execution single tok lx) (\<lambda>lx'. eret (Go [] lx')))
      else if has_substitution tok then ebind (do_command_substitution n single tok lx) (\<lambda>(t, lx'). eret (Go [t] lx'))
      else if startswith tok (u ''${'') then (\<lambda>s. (Inr (Go (env_tokens E ENV_BRACE_RE (ss_env s) tok) lx), s))
      else if startswith tok (u ''$'') then (\<lambda>s. (Inr (Go (env_tokens E ENV_SIMPLE_RE (ss_env s) tok) lx), s))
      else eret (Go [tok] lx))"

definition pend :: "pystr list \<Rightarrow> 'c sess \<Rightarrow> 'c sess" where
  "pend tokens s = (if tokens = [] then s else s\<lparr>ss_pending := ss_pending s @ [tokens]\<rparr>)"

text \<open>No step gives tokens back.\<close>

lemma scan_subst_shrinks: "scan_subst d expr pos lx = Inr (h, lx') \<Longrightarrow> length (fst lx') \<le> length (fst lx)"
proof (induction d expr pos lx rule: scan_subst.induct)
  case (1 d expr pos lx)
  note eq = scan_subst.simps [of d expr pos lx]
  show ?case
  proof (cases "\<not> length expr \<le> pos \<and> \<not> (expr ! pos = 41 \<or> expr ! pos = 96) \<and> take 2 (drop pos expr) \<noteq> u ''$('' \<and> pos = length expr - 1")
    case True
    then have c: "\<not> length expr \<le> pos" "\<not> (expr ! pos = 41 \<or> expr ! pos = 96)" "take 2 (drop pos expr) \<noteq> u ''$(''" "pos = length expr - 1" by blast+
    have eq': "scan_subst d expr pos lx =
      (case get_token lx of Inl e \<Rightarrow> Inl e | Inr (None, lx') \<Rightarrow> Inr (None, lx') | Inr (Some t, lx') \<Rightarrow> scan_subst d (expr @ 32 # t) (Suc pos) lx')"
      unfolding eq if_not_P [OF c(1)] if_not_P [OF c(2)] if_not_P [OF c(3)] if_P [OF c(4)] by (rule refl)
    obtain t lx1 where t: "get_token lx = Inr (t, lx1)"
      using 1(5) unfolding eq' by (cases "get_token lx") auto
    show ?thesis
    proof (cases t)
      case None
      then show ?thesis using 1(5) t get_token_shrinks [of lx t "fst lx1" "snd lx1"] unfolding eq' by simp
    next
      case (Some x)
      then have "scan_subst d (expr @ 32 # x) (Suc pos) lx1 = Inr (h, lx')" using 1(5) t unfolding eq' by simp
      then have "length (fst lx') \<le> length (fst lx1)" using 1(3) c t Some by blast
      then show ?thesis using get_token_takes [of lx x lx1] t Some by simp
    qed
  next
    case False
    then show ?thesis using 1(5) 1(1,2,4) unfolding eq by (auto split: if_splits)
  qed
qed

lemma scan_paren_shrinks: "scan_paren d expr pos lx = Inr (h, lx') \<Longrightarrow> length (fst lx') \<le> length (fst lx)"
proof (induction d expr pos lx rule: scan_paren.induct)
  case (1 d expr pos lx)
  note eq = scan_paren.simps [of d expr pos lx]
  show ?case
  proof (cases "\<not> length expr \<le> pos \<and> expr ! pos \<noteq> 41 \<and> expr ! pos \<noteq> 40 \<and> pos = length expr - 1")
    case True
    then have c: "\<not> length expr \<le> pos" "expr ! pos \<noteq> 41" "expr ! pos \<noteq> 40" "pos = length expr - 1" by blast+
    have eq': "scan_paren d expr pos lx =
      (case get_token lx of Inl e \<Rightarrow> Inl e | Inr (None, lx') \<Rightarrow> Inr (None, lx') | Inr (Some t, lx') \<Rightarrow> scan_paren d (expr @ 32 # t) (Suc pos) lx')"
      unfolding eq if_not_P [OF c(1)] if_not_P [OF c(2)] if_not_P [OF c(3)] if_P [OF c(4)] by (rule refl)
    obtain t lx1 where t: "get_token lx = Inr (t, lx1)"
      using 1(5) unfolding eq' by (cases "get_token lx") auto
    show ?thesis
    proof (cases t)
      case None
      then show ?thesis using 1(5) t get_token_shrinks [of lx t "fst lx1" "snd lx1"] unfolding eq' by simp
    next
      case (Some x)
      then have "scan_paren d (expr @ 32 # x) (Suc pos) lx1 = Inr (h, lx')" using 1(5) t unfolding eq' by simp
      then have "length (fst lx') \<le> length (fst lx1)" using 1(3) c t Some by blast
      then show ?thesis using get_token_takes [of lx x lx1] t Some by simp
    qed
  next
    case False
    then show ?thesis using 1(5) 1(1,2,4) unfolding eq by (auto split: if_splits)
  qed
qed

lemma collect_group_shrinks: "collect_group d ts e = Inr (g, lx') \<Longrightarrow> length (fst lx') \<le> length ts"
  by (induction d ts e arbitrary: g rule: collect_group.induct) (auto simp: rbind_eq_Inr le_SucI split: if_splits)

lemma substitution_shrinks:
  "do_command_substitution n single tok lx s = (Inr (r, lx'), s') \<Longrightarrow> length (fst lx') \<le> length (fst lx)"
proof (induction n arbitrary: tok lx s)
  case (Suc n)
  then show ?case
    by (auto simp: ebind_def elift_def Let_def split: prod.splits sum.splits option.splits if_splits dest!: scan_subst_shrinks intro: order_trans)
      (meson order_trans)+
qed (simp add: eraise_def)

lemma token_step_shrinks:
  assumes "token_step E n single tok tokens lx s = (Inr (Go add lx'), s')"
  shows "length (fst lx') \<le> length (fst lx)"
  using assms
  by (auto simp: token_step_def do_subshell_execution_from_lexer_def do_subshell_execution_def ebind_def elift_def
      split: prod.splits sum.splits option.splits if_splits
      dest: scan_paren_shrinks collect_group_shrinks substitution_shrinks)

lemma read_step:
  assumes "get_token (a, b) = Inr (Some tok, (c, d))" "(Inr (Go add (a', b')), s') = token_step E n single tok tokens (c, d) s"
  shows "length a' < length a"
  using get_token_takes [OF assms(1)] token_step_shrinks [OF assms(2) [symmetric]] by simp

function read_line :: "('x) ext_scheme \<Rightarrow> nat \<Rightarrow> 'c single \<Rightarrow> lexer \<Rightarrow> pystr list \<Rightarrow> ('c, unit) shop" where
  "read_line E n single lx tokens s =
     (case get_token lx of
        Inl e \<Rightarrow> (Inl e, s)
      | Inr (None, _) \<Rightarrow> (Inr (), pend tokens s)
      | Inr (Some tok, lx1) \<Rightarrow>
          if tok = u ''&&'' \<or> tok = u ''||'' then
            (if tokens \<noteq> [] then read_line E n single lx1 [] (pend tokens s)
             else write_text (unexpected tok @ [10]) s)
          else if tok = u '';'' then read_line E n single lx1 [] (pend tokens s)
          else (case token_step E n single tok tokens lx1 s of
                  (Inl e, s') \<Rightarrow> (Inl e, s')
                | (Inr Stop, s') \<Rightarrow> (Inr (), s')
                | (Inr (Go add lx2), s') \<Rightarrow> read_line E n single lx2 (tokens @ add) s'))"
  by pat_completeness auto
termination
  by (relation "measure (\<lambda>(E, n, single, lx, tokens, s). length (fst lx))")
    (auto dest: get_token_takes read_step)

declare read_line.simps [simp del]

definition nested :: "'c sh_conf \<Rightarrow> 'c sh_conf" where
  "nested C = C\<lparr>sc_interactive := False, sc_redirect := True, sc_stack := Suc (sc_stack C)\<rparr>"

text \<open>
  The output is that of the command that was called last.  When the shell inside raises, it is not
  removed from the stack.
\<close>

definition execute_single :: "('c sh_conf \<Rightarrow> pystr \<Rightarrow> ('c, unit) shop) \<Rightarrow> 'c sh_conf \<Rightarrow> 'c single" where
  "execute_single receive C cmd s =
     (case receive (nested C) cmd (s\<lparr>ss_pending := []\<rparr>) of
        (Inl e, s') \<Rightarrow> (Inl e, s'\<lparr>ss_pending := ss_pending s, ss_events := ss_events s' @ [Shell_left]\<rparr>)
      | (Inr _, s') \<Rightarrow>
          (case ss_pp s' of
             [] \<Rightarrow> (Inr [], s'\<lparr>ss_pending := ss_pending s\<rparr>)
           | st # _ \<Rightarrow>
               (case utf8_decode (pp_redirected (sg_pipe st)) of
                  Inl _ \<Rightarrow> (Inl FsUnicodeError, s'\<lparr>ss_pending := ss_pending s\<rparr>)
                | Inr out \<Rightarrow> (Inr out, s'\<lparr>ss_pending := ss_pending s\<rparr>))))"

definition EOF_MESSAGE :: pystr where
  "EOF_MESSAGE = u ''-bash: syntax error: unexpected end of file'' @ [10]"

primrec lineReceived :: "nat \<Rightarrow> ('x) ext_scheme \<Rightarrow> 'c sh_conf \<Rightarrow> pystr \<Rightarrow> ('c, unit) shop" where
  "lineReceived 0 E C line s = (Inl FsRecursionError, s)"
| "lineReceived (Suc n) E C line s =
     (case read_line E n (execute_single (lineReceived n E) C) (lex_tokens line) [] s of
        (Inl _, s') \<Rightarrow> ebind (write_text EOF_MESSAGE) (\<lambda>_ s. show_prompt C (s\<lparr>ss_pending := []\<rparr>)) s'
      | (Inr _, s') \<Rightarrow>
          if ss_pending s' \<noteq> []
          then perform n E C Run_command (s'\<lparr>ss_pending := map (merge_redirection_tokens E) (ss_pending s')\<rparr>)
          else show_prompt C s')"

section \<open>Words that mean themselves\<close>

definition plain_word :: "pystr \<Rightarrow> bool" where
  "plain_word w \<longleftrightarrow> w \<notin> {u '';'', u ''&&'', u ''||''} \<and> \<not> startswith w (u ''('') \<and> \<not> startswith w (u ''$'') \<and> \<not> has_substitution w"

lemma token_step_plain: "plain_word w \<Longrightarrow> token_step E n single w tokens lx s = (Inr (Go [w] lx), s)"
  by (cases w) (auto simp: token_step_def plain_word_def eret_def startswith_def u_def)

lemma read_plain:
  "list_all plain_word ws \<Longrightarrow> read_line E n single (ws @ ts, e) tokens s = read_line E n single (ts, e) (tokens @ ws) s"
proof (induction ws arbitrary: tokens)
  case (Cons w ws)
  then have w: "plain_word w" by simp
  then have "w \<noteq> u ''&&''" "w \<noteq> u ''||''" "w \<noteq> u '';''" by (simp_all add: plain_word_def)
  then have "read_line E n single ((w # ws) @ ts, e) tokens s = read_line E n single (ws @ ts, e) (tokens @ [w]) s"
    using token_step_plain [OF w, of E n single tokens "(ws @ ts, e)" s]
    by (subst read_line.simps) (simp add: get_token_def)
  then show ?case using Cons by simp
qed simp

text \<open>A line of several commands; the operators between them all mean the same.\<close>

definition joined :: "pystr list \<Rightarrow> (pystr \<times> pystr list) list \<Rightarrow> pystr list" where
  "joined ws r = ws @ concat (map (\<lambda>(p, vs). p # vs) r)"

lemma read_joined:
  "ws \<noteq> [] \<Longrightarrow> list_all plain_word ws \<Longrightarrow> list_all (\<lambda>(p, vs). p \<in> {u '';'', u ''&&'', u ''||''} \<and> vs \<noteq> [] \<and> list_all plain_word vs) r \<Longrightarrow>
     read_line E n single (joined ws r, False) [] s = (Inr (), s\<lparr>ss_pending := ss_pending s @ ws # map snd r\<rparr>)"
proof (induction r arbitrary: ws s)
  case Nil
  then show ?case
    using read_plain [OF Nil(2), of E n single "[]" False "[]" s]
    by (simp add: joined_def read_line.simps [of E n single "([], False)"] get_token_def pend_def)
next
  case (Cons x r)
  obtain p vs where x: "x = (p, vs)" by fastforce
  let ?s = "s\<lparr>ss_pending := ss_pending s @ [ws]\<rparr>"
  have p: "p \<in> {u '';'', u ''&&'', u ''||''}" "vs \<noteq> []" "list_all plain_word vs" using Cons.prems x by auto
  have "read_line E n single (joined ws (x # r), False) [] s = read_line E n single (p # joined vs r, False) ws s"
    using read_plain [OF Cons.prems(2), of E n single "p # joined vs r" False "[]" s] by (simp add: joined_def x)
  also have "\<dots> = read_line E n single (joined vs r, False) [] ?s"
    using p(1) Cons.prems(1) by (subst read_line.simps) (auto simp: get_token_def pend_def)
  finally show ?case using Cons.IH [OF p(2,3), of ?s] Cons.prems(3) x by simp
qed

section \<open>What is typed is run\<close>

definition typed_word :: "pystr \<Rightarrow> bool" where
  "typed_word w \<longleftrightarrow> plain_word w \<and> w \<noteq> u ''|'' \<and> 60 \<notin> set w \<and> 62 \<notin> set w"

definition typed_ok :: "'c sh_conf \<Rightarrow> simple \<Rightarrow> bool" where
  "typed_ok C x = (case x of (c, args) \<Rightarrow>
     list_all typed_word (c # args) \<and> 61 \<notin> set c \<and> py_strip c \<noteq> [] \<and> sc_commands C c \<noteq> None)"

lemma merge_plain:
  "list_all (\<lambda>t. 62 \<notin> set t) ts \<Longrightarrow> merge_redirection_tokens E ts = ts"
proof (induction ts)
  case (Cons t ts)
  then have "combine_redir_sequence E (t # ts) = None"
    by (cases ts) (auto simp: combine_redir_sequence_def u_def)
  then show ?case using Cons by simp
qed simp

lemma extract_plain:
  assumes "60 \<notin> set t" "62 \<notin> set t"
  shows "extract_redir_op E t = Inr None"
proof -
  have "60 \<notin> set (dropWhile (is_decimal E) t)" "62 \<notin> set (dropWhile (is_decimal E) t)" using assms by (auto dest: set_dropWhileD)
  moreover have "redir_op_at s = None" if "60 \<notin> set s" "62 \<notin> set s" for s
    using that by (cases s) (auto simp: redir_op_at_def startswith_def u_def)
  ultimately have "redir_op_at (dropWhile (is_decimal E) t) = None" by blast
  then show ?thesis by (simp add: extract_redir_op_def)
qed

lemma redirections_plain:
  "list_all (\<lambda>t. 60 \<notin> set t \<and> 62 \<notin> set t) ts \<Longrightarrow> redirections_of E ts = Inr (ts, [])"
proof -
  assume "list_all (\<lambda>t. 60 \<notin> set t \<and> 62 \<notin> set t) ts"
  then have "parse_from E 0 ts = Inr (ts, [])"
    by (induction ts) (auto simp: parse_step_def extract_plain u_def)
  then show ?thesis by (simp add: redirections_of_def parse_redirections_def)
qed

lemma typed_simple: "typed_ok C x \<Longrightarrow> simple_ok E C x"
  by (auto simp: typed_ok_def simple_ok_def typed_word_def list_all_iff intro!: redirections_plain)

lemma typed_tokens:
  assumes "list_all (typed_ok C) l" "l \<noteq> []"
  shows "tokens_of l \<noteq> []" "list_all plain_word (tokens_of l)" "list_all (\<lambda>t. 62 \<notin> set t) (tokens_of l)"
proof -
  have t: "list_all (\<lambda>t. plain_word t \<and> 62 \<notin> set t) (line_tokens l)"
    using assms(1)
  proof (induction l)
    case (Cons x l)
    obtain c args where x: "x = (c, args)" by fastforce
    have bar: "plain_word (u ''|'')" "62 \<notin> set (u ''|'')" by (simp_all add: plain_word_def has_substitution_def startswith_def u_def)
    have "list_all typed_word (c # args)" using Cons.prems x by (simp add: typed_ok_def)
    then have "list_all (\<lambda>t. plain_word t \<and> 62 \<notin> set t) (c # args)" by (rule list.pred_mono_strong) (simp add: typed_word_def)
    moreover have "line_tokens (x # l) = u ''|'' # (c # args) @ line_tokens l" by (simp add: line_tokens_def x)
    ultimately show ?case using Cons bar by simp
  qed (simp add: line_tokens_def)
  then show "list_all plain_word (tokens_of l)" "list_all (\<lambda>t. 62 \<notin> set t) (tokens_of l)"
    by (cases "line_tokens l"; simp add: tokens_of_def list_all_iff)+
  show "tokens_of l \<noteq> []" using assms(2) by (cases l) (auto simp: tokens_of_def line_tokens_def)
qed

definition typed_line :: "simple list \<Rightarrow> (pystr \<times> simple list) list \<Rightarrow> pystr" where
  "typed_line l r = py_join [32] (map shown (joined (tokens_of l) (map (\<lambda>(p, m). (p, tokens_of m)) r)))"

lemma typed_line_read:
  assumes "list_all (\<lambda>l. l \<noteq> [] \<and> list_all (typed_ok C) l) (l # map snd r)" "list_all (\<lambda>x. fst x \<in> {u '';'', u ''&&'', u ''||''}) r"
  shows "read_line E n single (lex_tokens (typed_line l r)) [] s =
    (Inr (), s\<lparr>ss_pending := ss_pending s @ map tokens_of (l # map snd r)\<rparr>)"
proof -
  let ?r = "map (\<lambda>(p, m). (p, tokens_of m)) r"
  have "tokens_of l \<noteq> []" "list_all plain_word (tokens_of l)" using assms(1) typed_tokens [of C l] by simp_all
  moreover have "list_all (\<lambda>(p, vs). p \<in> {u '';'', u ''&&'', u ''||''} \<and> vs \<noteq> [] \<and> list_all plain_word vs) ?r"
    using assms typed_tokens [of C] by (fastforce simp: list_all_iff)
  moreover have "map snd ?r = map tokens_of (map snd r)" by auto
  ultimately show ?thesis using read_joined [of "tokens_of l" ?r E n single s] by (simp add: typed_line_def lex_line)
qed


section \<open>Quirks\<close>

text \<open>The lexer drops the quotes before the shell looks at a token: what is quoted is still an operator, a variable or a substitution.\<close>

lemma quoted_operator_splits:
  "read_line E n single (lex_tokens (u ''echo '' @ quoted (u '';'') @ u '' id'')) [] s =
     (Inr (), s\<lparr>ss_pending := ss_pending s @ [[u ''echo''], [u ''id'']]\<rparr>)"
proof -
  have "lex_tokens (u ''echo '' @ quoted (u '';'') @ u '' id'') = (joined [u ''echo''] [(u '';'', [u ''id''])], False)" by code_simp
  moreover have "plain_word (u ''echo'')" "plain_word (u ''id'')" by code_simp+
  ultimately show ?thesis using read_joined [of "[u ''echo'']" "[(u '';'', [u ''id''])]" E n single s] by simp
qed

text \<open>A hash inside a word starts a comment.\<close>

lemma hash_cuts_word: "lex_tokens (u ''wget http://a/b#c -O x'') = ([u ''wget'', u ''http://a/b''], False)"
  by code_simp

text \<open>A substitution with a space behind its parenthesis is a syntax error.\<close>

lemma spaced_substitution: "do_command_substitution (Suc n) single (u ''$('') lx s = (Inl FsIndexError, s)"
  by (simp add: subst_start_def startswith_def scan_subst.simps u_def ebind_def elift_def)

text \<open>A variable that is not set takes no part in the command, and neither does what stands behind the parenthesis of a subshell.\<close>

lemma subshell_remainder_dropped:
  "scan_paren 1 (u ''(a)b'') 1 lx = Inr (Some (u ''(a)b'', 2), lx)"
  by (simp add: scan_paren.simps u_def)

section \<open>Witnesses\<close>


end
