(* ===== verification/Shell_Subst.thy ===== *)
theory Shell_Subst
  imports Shell_Line
begin

text \<open>
  Command substitution in the emulated shell (\<^verbatim>\<open>sensor/cowrie/src/cowrie/shell/honeypot.py\<close>): what a line
  with a substitution in it does, from the text that was typed to the calls that are made.
\<close>

section \<open>Bare words\<close>

lemma lex_word_not: "lex_word c \<Longrightarrow> \<not> lex_white c \<and> c \<noteq> 35 \<and> c \<noteq> 92 \<and> \<not> lex_quote c"
  by (auto simp: lex_word_def lex_white_def lex_quote_def u_def)

lemma read_word:
  "list_all lex_word p \<Longrightarrow> tok \<noteq> [] \<Longrightarrow> read_token L_word tok False (p @ 32 # r) = Some (Some (tok @ p), r)"
  "list_all lex_word p \<Longrightarrow> tok \<noteq> [] \<Longrightarrow> read_token L_word tok False p = Some (Some (tok @ p), [])"
  by (induction p arbitrary: tok) (simp_all add: emit_token_def lex_white_def [of 32] lex_word_not)

lemma lex_word_next:
  assumes "list_all lex_word p" "p \<noteq> []"
  shows "lex_tokens (p @ 32 # r) = (p # fst (lex_tokens r), snd (lex_tokens r))" "lex_tokens p = ([p], False)"
proof -
  obtain c q where p: "p = c # q" using assms(2) by (cases p) auto
  have "lex_word c" "list_all lex_word q" using assms(1) p by simp_all
  then show "lex_tokens (p @ 32 # r) = (p # fst (lex_tokens r), snd (lex_tokens r))" "lex_tokens p = ([p], False)"
    using read_word [of q "[c]"] lex_word_not [of c]
    by (simp_all add: p lex_tokens.simps [of "c # q @ 32 # r"] lex_tokens.simps [of "c # q"] case_prod_unfold)
qed

lemma lex_bare: "list_all (\<lambda>w. w \<noteq> [] \<and> list_all lex_word w) ws \<Longrightarrow> lex_tokens (py_join [32] ws) = (ws, False)"
proof (induction ws rule: induct_list012)
  case (3 v w ws)
  then show ?case by (simp add: lex_word_next)
qed (simp_all add: lex_word_next)

definition bare_word :: "pystr \<Rightarrow> bool" where
  "bare_word w \<longleftrightarrow> w \<noteq> [] \<and> list_all (\<lambda>c. lex_word c \<and> c \<notin> {36, 40, 41, 96}) w"

lemma bare_lex: "bare_word w \<Longrightarrow> w \<noteq> [] \<and> list_all lex_word w"
  by (simp add: bare_word_def list_all_iff)

lemma sub_index_absent: "36 \<notin> set s \<Longrightarrow> sub_index (u ''$('') s = None"
  by (induction s) (auto simp: startswith_def u_def)

lemma bare_plain:
  assumes "bare_word w"
  shows "plain_word w"
proof -
  have c: "\<forall>c\<in>set w. lex_word c \<and> c \<noteq> 36 \<and> c \<noteq> 40 \<and> c \<noteq> 96" and "w \<noteq> []"
    using assms by (auto simp: bare_word_def list_all_iff)
  then obtain a v where w: "w = a # v" by (cases w) auto
  have "sub_index (u ''$('') w = None" "96 \<notin> set w" using c by (auto intro: sub_index_absent)
  moreover have "\<not> lex_word 59" "\<not> lex_word 38" "\<not> lex_word 124" by (simp_all add: lex_word_def u_def)
  ultimately show ?thesis using c w by (auto simp: plain_word_def has_substitution_def startswith_def u_def)
qed

section \<open>Finding the end of a substitution\<close>

definition calm :: "pystr \<Rightarrow> bool" where
  "calm m \<longleftrightarrow> 36 \<notin> set m \<and> 41 \<notin> set m \<and> 96 \<notin> set m"

lemma scan_calm:
  "calm m \<Longrightarrow> b \<noteq> [] \<Longrightarrow> scan_subst d (a @ m @ b) (length a) lx = scan_subst d (a @ m @ b) (length a + length m) lx"
proof (induction m arbitrary: a)
  case (Cons c m)
  have "c \<noteq> 36" "c \<noteq> 41" "c \<noteq> 96" "calm m" using Cons.prems(1) by (auto simp: calm_def)
  then have "scan_subst d (a @ (c # m) @ b) (length a) lx = scan_subst d ((a @ [c]) @ m @ b) (length (a @ [c])) lx"
    using Cons.prems(2) by (subst scan_subst.simps) (auto simp: nth_append u_def)
  then show ?case using Cons.IH [of "a @ [c]"] Cons.prems(2) \<open>calm m\<close> by simp
qed simp

lemma scan_takes:
  assumes "calm m" "m \<noteq> []" "p \<noteq> []"
  shows "scan_subst d (a @ m) (length a) (p # ts, e) = scan_subst d ((a @ m @ [32]) @ p) (length (a @ m @ [32])) (ts, e)"
proof -
  obtain k c where m: "m = k @ [c]" using assms(2) by (cases m rule: rev_cases) auto
  have k: "calm k" "c \<noteq> 36" "c \<noteq> 41" "c \<noteq> 96" using assms(1) m by (auto simp: calm_def)
  have "scan_subst d (a @ m) (length a) (p # ts, e) = scan_subst d (a @ m) (length (a @ k)) (p # ts, e)"
    using scan_calm [OF k(1), of "[c]" d a "(p # ts, e)"] m by simp
  also have "\<dots> = scan_subst d ((a @ m) @ [32] @ p) (length (a @ m)) (ts, e)"
    using k by (subst scan_subst.simps) (simp add: m get_token_def nth_append u_def)
  also have "\<dots> = scan_subst d ((a @ m @ [32]) @ p) (length (a @ m @ [32])) (ts, e)"
    using scan_calm [of "[32]" p d "a @ m" "(ts, e)"] assms(3) by (simp add: calm_def)
  finally show ?thesis .
qed

lemma scan_stops: "scan_subst 1 (a @ 41 # post) (length a) lx = Inr (Some (a @ 41 # post, length a), lx)"
  by (subst scan_subst.simps) simp

text \<open>The words of a substitution as they are typed, with what follows the parenthesis.\<close>

fun pieces :: "pystr \<Rightarrow> pystr list \<Rightarrow> pystr \<Rightarrow> pystr \<times> pystr list" where
  "pieces w [] post = (w @ 41 # post, [])"
| "pieces w (v # vs) post = (w, fst (pieces v vs post) # snd (pieces v vs post))"

lemma pieces_nonempty: "w \<noteq> [] \<Longrightarrow> fst (pieces w vs post) \<noteq> []"
  by (cases vs) simp_all

lemma bare_calm: "bare_word w \<Longrightarrow> calm w \<and> w \<noteq> []"
  by (auto simp: bare_word_def calm_def list_all_iff)

lemma scan_pieces:
  "list_all bare_word (w # vs) \<Longrightarrow>
     scan_subst 1 (a @ fst (pieces w vs post)) (length a) (snd (pieces w vs post) @ ts, e) =
       Inr (Some (a @ py_join [32] (w # vs) @ 41 # post, length a + length (py_join [32] (w # vs))), (ts, e))"
proof (induction vs arbitrary: w a)
  case Nil
  then show ?case
    using scan_calm [of w "41 # post" 1 a "(ts, e)"] scan_stops [of "a @ w" post "(ts, e)"] bare_calm [of w] by simp
next
  case (Cons v vs)
  have v: "calm w" "w \<noteq> []" "v \<noteq> []" using Cons.prems bare_calm by auto
  show ?case
    using scan_takes [OF v(1,2) pieces_nonempty [OF v(3)], of 1 a vs post "snd (pieces v vs post) @ ts" e]
      Cons.IH [of v "a @ w @ [32]"] Cons.prems by simp
qed

section \<open>A substitution\<close>

lemma sub_index_first: "36 \<notin> set pre \<Longrightarrow> sub_index (u ''$('') (pre @ u ''$('' @ r) = Some (length pre)"
proof (induction pre)
  case (Cons c pre)
  then have "\<not> startswith (c # pre @ u ''$('' @ r) (u ''$('')" by (auto simp: startswith_def u_def)
  then show ?case using Cons by simp
qed (simp add: startswith_def u_def)

lemma run_groups_words:
  "list_all plain_word ws \<Longrightarrow> cur @ ws \<noteq> [] \<Longrightarrow>
     run_groups single ws False cur [] s = ebind (single (py_join [32] (cur @ ws))) eret s"
proof (induction ws arbitrary: cur)
  case (Cons w ws)
  then have "w \<notin> {u '';'', u ''&&'', u ''||''}" by (simp add: plain_word_def)
  then show ?case using Cons.IH [of "cur @ [w]"] Cons.prems by simp
qed (simp add: ebind_def eret_def split: sum.split prod.split)

lemma full_output_words:
  assumes "list_all bare_word ws" "ws \<noteq> []"
  shows "full_output single (py_join [32] ws) s = ebind (single (py_join [32] ws)) eret s"
proof -
  have "list_all (\<lambda>w. w \<noteq> [] \<and> list_all lex_word w) ws" "list_all plain_word ws"
    using assms(1) bare_lex bare_plain by (auto simp: list_all_iff)
  then show ?thesis using run_groups_words [of ws "[]" single s] assms(2) by (simp add: full_output_def lex_bare)
qed

lemma substitution_replaced:
  assumes "list_all bare_word (w # vs)" "36 \<notin> set pre" "\<not> startswith pre (u ''('')" "\<not> has_substitution post"
    and "single (py_join [32] (w # vs)) s = (Inr out, s')"
  shows "do_command_substitution (Suc n) single (pre @ u ''$('' @ fst (pieces w vs post)) (snd (pieces w vs post) @ ts, e) s =
    (Inr (pre @ rstrip_if (\<lambda>c. c = 10) out @ post, (ts, e)), s')"
proof -
  let ?p = "fst (pieces w vs post)" and ?j = "py_join [32] (w # vs)"
  have "hd (pre @ u ''$('' @ ?p) \<noteq> 40" using assms(3) by (cases pre) (auto simp: startswith_def u_def)
  then have st: "subst_start (pre @ u ''$('' @ ?p) = Inr (Some (pre, u ''$('' @ ?p, 2))"
    using sub_index_first [OF assms(2), of ?p] by (simp add: subst_start_def u_def)
  have sc: "scan_subst 1 (u ''$('' @ ?p) 2 (snd (pieces w vs post) @ ts, e) = Inr (Some (u ''$('' @ ?j @ 41 # post, 2 + length ?j), (ts, e))"
    using scan_pieces [OF assms(1), of "u ''$(''" post ts e] by (simp add: u_def numeral_2_eq_2)
  have "run_subshell_command single (u ''$('' @ ?j @ [41]) s = (Inr (rstrip_if (\<lambda>c. c = 10) out), s')"
    using full_output_words [OF assms(1), of single s] assms(5)
    by (simp add: run_subshell_command_def startswith_def u_def butlast_append ebind_def)
  moreover have "take (Suc (2 + length ?j)) (u ''$('' @ ?j @ 41 # post) = u ''$('' @ ?j @ [41]"
    "drop (Suc (2 + length ?j)) (u ''$('' @ ?j @ 41 # post) = post" "hd (u ''$('' @ ?j @ 41 # post) \<noteq> 40" by (simp_all add: u_def)
  ultimately show ?thesis
    unfolding do_command_substitution.simps
    by (simp only: ebind_def elift_def st sc prod.case sum.case option.case Let_def if_False)
      (simp add: assms(4))
qed

section \<open>The shell inside\<close>

lemma write_captured:
  "map_of (pp_targets p) 1 = Some Fd_capture \<Longrightarrow>
     eiter write_stdout ws p = (Inr (), p\<lparr>pp_redirected := pp_redirected p @ concat ws\<rparr>)"
  by (induction ws arbitrary: p) (simp_all add: ebind_def write_stdout_def write_to_fd_def)

lemma nested_parts [simp]:
  "sc_interactive (nested C) = False" "sc_redirect (nested C) = True" "sc_stack (nested C) = Suc (sc_stack C)"
  "sc_behave (nested C) = sc_behave C" "sc_commands (nested C) = sc_commands C" "known (nested C) = known C"
  by (simp_all add: nested_def known_def fun_eq_iff)

lemma nested_simple: "simple_ok E (nested C) = simple_ok E C"
  by (simp add: simple_ok_def fun_eq_iff)

lemma run_captured:
  assumes "filters C f" "simple_ok E C x" "0 < sc_stack C" "map_of (ss_env s) (u ''PATH'') \<noteq> None" "ss_pending s = []"
  shows "\<exists>st. perform (Suc (Suc (Suc m))) E (nested C) Run_command (s\<lparr>ss_pending := [tokens_of [x]]\<rparr>) =
    (Inr (), s\<lparr>ss_events := ss_events s @ [Called (known C x) (snd x) None], ss_pp := [st]\<rparr>) \<and>
    pp_redirected (sg_pipe st) = concat (f (known C x) (snd x) None)"
proof -
  let ?p = "pipe_new None False True (ss_fs s) (ss_disk s) (ss_term s)" and ?ws = "f (known C x) (snd x) None"
  let ?st = "\<lparr>sg_cmd = known C x, sg_args = snd x, sg_pipe = ?p\<rparr>" and ?q = "?p\<lparr>pp_redirected := concat ?ws\<rparr>"
  let ?s1 = "s\<lparr>ss_events := ss_events s @ [Called (known C x) (snd x) None]\<rparr>"
  have s0: "s\<lparr>ss_pending := []\<rparr> = s" using assms(5) by (cases s) simp
  have "plan_line E (nested C) (tokens_of [x]) s = (Inr (Call_command [?st]), s)"
    using plan_simple [of E "nested C" "[x]" s] assms(2,4) by (simp add: nested_simple)
  then have "perform (Suc (Suc (Suc m))) E (nested C) Run_command (s\<lparr>ss_pending := [tokens_of [x]]\<rparr>) =
      perform (Suc (Suc m)) E (nested C) (Call_command [?st]) s"
    using s0 by (simp add: ebind_def del: perform.simps(4))
  moreover have "eiter write_stdout ?ws ?p = (Inr (), ?q)" by (simp add: write_captured pipe_new_def)
  then have "run_stage (nested C) ?st [] ?s1 = (Inr (), ?s1\<lparr>ss_pp := [?st\<lparr>sg_pipe := ?q\<rparr>]\<rparr>)"
    using run_stage_eq(1) [of "nested C" ?st ?s1 ?q "[]"] assms(1) by (simp add: filters_def) (simp add: pipe_new_def)
  ultimately show ?thesis
    using assms(3,5) by (intro exI [of _ "?st\<lparr>sg_pipe := ?q\<rparr>"]) (simp add: ebind_def log_event_def pipe_new_def)
qed

lemma substituted_call:
  assumes "filters C f" "typed_ok C (c, args)" "list_all bare_word (c # args)" "0 < sc_stack C" "map_of (ss_env s) (u ''PATH'') \<noteq> None"
    and "utf8_decode (concat (f (known C (c, args)) args None)) = Inr t"
  shows "\<exists>st. execute_single (lineReceived (Suc (Suc (Suc (Suc m)))) E) C (py_join [32] (c # args)) s =
    (Inr t, s\<lparr>ss_events := ss_events s @ [Called (known C (c, args)) args None], ss_pp := [st]\<rparr>)"
proof -
  let ?ws = "c # args" and ?s0 = "s\<lparr>ss_pending := []\<rparr>" let ?s1 = "?s0\<lparr>ss_pending := [tokens_of [(c, args)]]\<rparr>"
  have ws: "tokens_of [(c, args)] = ?ws" by (simp add: tokens_of_def line_tokens_def)
  have "list_all plain_word ?ws" "list_all (\<lambda>w. w \<noteq> [] \<and> list_all lex_word w) ?ws"
    using assms(3) bare_lex bare_plain by (auto simp: list_all_iff)
  then have rd: "read_line E k single (lex_tokens (py_join [32] ?ws)) [] ?s0 = (Inr (), ?s1)" for k and single :: "'a single"
    using read_joined [of ?ws "[]" E k single ?s0] ws by (simp add: lex_bare joined_def del: py_join.simps)
  have mg: "map (merge_redirection_tokens E) (ss_pending ?s1) = ss_pending ?s1"
    using assms(2) ws by (simp add: merge_plain typed_ok_def typed_word_def list_all_iff del: merge_redirection_tokens.simps)
  obtain st where st: "perform (Suc (Suc (Suc m))) E (nested C) Run_command ?s1 =
      (Inr (), ?s0\<lparr>ss_events := ss_events s @ [Called (known C (c, args)) args None], ss_pp := [st]\<rparr>)"
    "pp_redirected (sg_pipe st) = concat (f (known C (c, args)) args None)"
    using run_captured [OF assms(1) typed_simple [OF assms(2)] assms(4), of ?s0 m E] assms(5) by auto
  have "lineReceived (Suc (Suc (Suc (Suc m)))) E (nested C) (py_join [32] ?ws) ?s0 =
      perform (Suc (Suc (Suc m))) E (nested C) Run_command (?s1\<lparr>ss_pending := map (merge_redirection_tokens E) (ss_pending ?s1)\<rparr>)"
    by (subst lineReceived.simps) (simp add: rd del: py_join.simps perform.simps)
  then have "lineReceived (Suc (Suc (Suc (Suc m)))) E (nested C) (py_join [32] ?ws) ?s0 =
      (Inr (), ?s0\<lparr>ss_events := ss_events s @ [Called (known C (c, args)) args None], ss_pp := [st]\<rparr>)"
    unfolding mg using st(1) by simp
  then show ?thesis
    using st(2) assms(6) by (intro exI [of _ st]) (simp add: execute_single_def del: lineReceived.simps py_join.simps)
qed

section \<open>A line with a substitution\<close>

lemma token_step_substitution:
  assumes "36 \<notin> set pre" "\<not> startswith pre (u ''('')"
    and "do_command_substitution n single (pre @ u ''$('' @ p) lx s = (Inr (t, lx'), s')"
  shows "token_step E n single (pre @ u ''$('' @ p) tokens lx s = (Inr (Go [t] lx'), s')"
    and "pre @ u ''$('' @ p \<notin> {u ''&&'', u ''||'', u '';''}"
proof -
  have "pre @ u ''$('' @ p \<noteq> u ''$?''" "\<not> startswith (pre @ u ''$('' @ p) (u ''('')"
    using assms(1,2) by (cases pre; auto simp: startswith_def u_def)+
  moreover have "has_substitution (pre @ u ''$('' @ p)" using sub_index_first [OF assms(1), of p] by (simp add: has_substitution_def)
  ultimately show "token_step E n single (pre @ u ''$('' @ p) tokens lx s = (Inr (Go [t] lx'), s')"
    using assms(3) by (simp add: token_step_def ebind_def)
  have "36 \<in> set (pre @ u ''$('' @ p)" by (simp add: u_def)
  moreover have "36 \<notin> set x" if "x \<in> {u ''&&'', u ''||'', u '';''}" for x using that by (auto simp: u_def)
  ultimately show "pre @ u ''$('' @ p \<notin> {u ''&&'', u ''||'', u '';''}" by blast
qed

lemma pieces_text: "py_join [32] (fst (pieces w vs post) # snd (pieces w vs post)) = py_join [32] (w # vs) @ 41 # post"
  by (induction w vs post rule: pieces.induct) simp_all

lemma join_two: "xs \<noteq> [] \<Longrightarrow> ys \<noteq> [] \<Longrightarrow> py_join [32] (xs @ ys) = py_join [32] xs @ 32 # py_join [32] ys"
  by (induction xs rule: induct_list012) (auto simp: neq_Nil_conv)

lemma pieces_words:
  "list_all bare_word (w # vs) \<Longrightarrow> list_all lex_word post \<Longrightarrow>
     list_all (\<lambda>w. w \<noteq> [] \<and> list_all lex_word w) (fst (pieces w vs post) # snd (pieces w vs post))"
proof (induction w vs post rule: pieces.induct)
  case (1 w post)
  have "lex_word 41" by (simp add: lex_word_def u_def)
  then show ?case using 1 bare_lex [of w] by simp
next
  case (2 w v vs post)
  then show ?case using bare_lex [of w] by simp
qed

definition substitution_line :: "pystr list \<Rightarrow> pystr \<Rightarrow> pystr list \<Rightarrow> pystr \<Rightarrow> pystr" where
  "substitution_line us pre ws post = py_join [32] us @ u '' '' @ pre @ u ''$('' @ py_join [32] ws @ u '')'' @ post"

lemma substitution_line_tokens:
  assumes "list_all bare_word us" "us \<noteq> []" "list_all bare_word (w # vs)" "list_all lex_word pre" "list_all lex_word post"
  shows "lex_tokens (substitution_line us pre (w # vs) post) =
    (us @ (pre @ u ''$('' @ fst (pieces w vs post)) # snd (pieces w vs post), False)"
proof -
  let ?ps = "(pre @ u ''$('' @ fst (pieces w vs post)) # snd (pieces w vs post)"
  have "py_join [32] ?ps = pre @ u ''$('' @ py_join [32] (fst (pieces w vs post) # snd (pieces w vs post))"
    by (cases "snd (pieces w vs post)") simp_all
  then have "substitution_line us pre (w # vs) post = py_join [32] (us @ ?ps)"
    using join_two [OF assms(2), of ?ps] pieces_text [of w vs post] by (simp add: substitution_line_def u_def)
  moreover have "list_all lex_word (u ''$('')" by (simp add: lex_word_def u_def)
  then have "list_all (\<lambda>w. w \<noteq> [] \<and> list_all lex_word w) (us @ ?ps)"
    using pieces_words [OF assms(3,5)] assms(1,4) bare_lex by (auto simp: list_all_iff)
  ultimately show ?thesis by (simp only: lex_bare)
qed

lemma substitution_line_read:
  assumes "filters C f" "0 < sc_stack C" "map_of (ss_env s) (u ''PATH'') \<noteq> None"
    and "list_all bare_word us" "us \<noteq> []" "typed_ok C (c, args)" "list_all bare_word (c # args)"
    and "list_all lex_word pre" "list_all lex_word post" "36 \<notin> set pre" "\<not> startswith pre (u ''('')" "\<not> has_substitution post"
    and "utf8_decode (concat (f (known C (c, args)) args None)) = Inr t"
    and n: "n = Suc (Suc (Suc (Suc m)))"
  shows "\<exists>st. read_line E n (execute_single (lineReceived n E) C) (lex_tokens (substitution_line us pre (c # args) post)) [] s =
    (Inr (), s\<lparr>ss_pending := ss_pending s @ [us @ [pre @ rstrip_if (\<lambda>c. c = 10) t @ post]],
                ss_events := ss_events s @ [Called (known C (c, args)) args None], ss_pp := [st]\<rparr>)"
proof -
  let ?single = "execute_single (lineReceived n E) C" and ?tok = "pre @ u ''$('' @ fst (pieces c args post)"
  let ?w = "pre @ rstrip_if (\<lambda>c. c = 10) t @ post"
  obtain st where "?single (py_join [32] (c # args)) s =
      (Inr t, s\<lparr>ss_events := ss_events s @ [Called (known C (c, args)) args None], ss_pp := [st]\<rparr>)"
    using substituted_call [OF assms(1,6,7,2,3,13), of m E] unfolding n by blast
  from substitution_replaced [where single = ?single, OF assms(7,10-12) this, of "Suc (Suc (Suc m))" "[]" False]
  have r: "do_command_substitution n ?single ?tok (snd (pieces c args post), False) s =
      (Inr (?w, ([], False)), s\<lparr>ss_events := ss_events s @ [Called (known C (c, args)) args None], ss_pp := [st]\<rparr>)"
    by (simp only: n append_Nil2)
  have "list_all plain_word us" using assms(4) bare_plain by (auto simp: list_all_iff)
  then have "read_line E n ?single (lex_tokens (substitution_line us pre (c # args) post)) [] s =
      read_line E n ?single (?tok # snd (pieces c args post), False) us s"
    using read_plain [of us E n ?single "?tok # snd (pieces c args post)" False "[]" s]
    by (simp only: substitution_line_tokens [OF assms(4,5,7-9)] append_Nil)
  also have "\<dots> = read_line E n ?single ([], False) (us @ [?w]) (s\<lparr>ss_events := ss_events s @ [Called (known C (c, args)) args None], ss_pp := [st]\<rparr>)"
    using token_step_substitution(1) [OF assms(10,11) r, of E us] token_step_substitution(2) [OF assms(10,11) r]
    by (subst read_line.simps) (simp add: get_token_def)
  also have "\<dots> = (Inr (), s\<lparr>ss_pending := ss_pending s @ [us @ [?w]], ss_events := ss_events s @ [Called (known C (c, args)) args None], ss_pp := [st]\<rparr>)"
    by (simp add: read_line.simps [of E n ?single "([], False)"] get_token_def pend_def)
  finally show ?thesis by blast
qed


section \<open>Quirks\<close>

text \<open>
  In a substitution the output of every command is captured, also of one that another command of its
  pipeline should read: the pipe stays empty.
\<close>

lemma pipeline_in_substitution_unconnected:
  "pp_next (snd (eiter write_stdout ws (pipe_new nxt nerr True vf d tm))) = nxt"
  by (simp add: write_captured pipe_new_def)

text \<open>A command that is not found inside a substitution leaves the output of the command before it: it is substituted again.\<close>

definition one_command :: "pystr sh_conf" where
  "one_command = demo_conf\<lparr>sc_commands := (\<lambda>c. if c = u ''a'' then Some c else None)\<rparr>"

lemma stale_output_substituted:
  "ss_events (snd (lineReceived 9 ascii_ext one_command (u ''a $(a) $(b)'') (demo_sess []))) =
     [Called (Known (u ''a'')) [] None, Called (Known (u ''a'')) [u ''a'', u ''a''] None, Prompt]"
  by code_simp

section \<open>Witnesses\<close>


end
