(* ===== verification/Event_Log.thy ===== *)
theory Event_Log
  imports Sensor Auth
begin

text \<open>
  \<^verbatim>\<open>sensor/cowrie/src/cowrie/core/output.py\<close>: the base class of the output plugins.  The events of all
  connections arrive on one log; \<^verbatim>\<open>emit\<close> finds the connection an event belongs to, adds what it knows
  of the connection and hands the event to the plugin.  The tuple in which the log passes the
  positional arguments of a call, the value of \<^verbatim>\<open>message\<close>, is a list here.  The formatting of a time by
  Twisted and the operator \<^verbatim>\<open>%\<close> of texts are parameters, as is what the plugin does with an event.
\<close>

section \<open>Conversion\<close>

definition text_of_bytes :: "bytes \<Rightarrow> pystr" where
  "text_of_bytes b = (case utf8_decode b of Inr s \<Rightarrow> s | Inl _ \<Rightarrow> bytes_str b)"

definition convert_key :: "pkey \<Rightarrow> pkey" where
  "convert_key k = (case k of KS s \<Rightarrow> KS s | KB b \<Rightarrow> KS (text_of_bytes b))"

text \<open>The items of a new dictionary, one after the other.\<close>

definition new_dict :: "(pkey \<times> pyval) list \<Rightarrow> pydict" where
  "new_dict kvs = fold (\<lambda>(k, v). AList.update k v) kvs []"

fun convert :: "pyval \<Rightarrow> pyval" where
  "convert (PBytes b) = PStr (text_of_bytes b)"
| "convert (PList l) = PList (map convert l)"
| "convert (PDict d) = PDict (new_dict (map (\<lambda>kv. (convert_key (fst kv), convert (snd kv))) d))"
| "convert v = v"

text \<open>The event itself: what is in a tuple is not converted.\<close>

definition convert_item :: "pkey \<times> pyval \<Rightarrow> pkey \<times> pyval" where
  "convert_item kv =
     (convert_key (fst kv),
      case snd kv of PList l \<Rightarrow> if fst kv = key ''message'' then PList l else convert (PList l) | v \<Rightarrow> convert v)"

definition convert_event :: "pydict \<Rightarrow> pydict" where
  "convert_event e = new_dict (map convert_item e)"

section \<open>The connection of an event\<close>

definition SSH_RE :: rx where
  "SSH_RE = rseq [rstar (NotIn [One 10]), rlit ''SSHTransport,'', RGrp 1 (rplus (In [Rng 48 57])), rlit '','',
     rplus (In ([Rng 48 57, Rng 97 102] @ oneof '':.'')), REos]"

definition TELNET_RE :: rx where
  "TELNET_RE = rseq [rstar (NotIn [One 10]), rlit ''TelnetTransport,'', RGrp 1 (rplus (In [Rng 48 57])), rlit '','',
     rplus (In ([Rng 48 57, Rng 97 102] @ oneof '':.'')), REos]"

definition number_group :: "rxmatch \<Rightarrow> pystr" where
  "number_group m = (case grp m 1 of Some s \<Rightarrow> s | None \<Rightarrow> [])"

definition system_session :: "('x) ext_scheme \<Rightarrow> pystr \<Rightarrow> pystr option" where
  "system_session E s =
     (case rx_match (str_class E) False TELNET_RE s of
        Some m \<Rightarrow> Some (u ''T'' @ number_group m)
      | None \<Rightarrow>
          (case rx_match (str_class E) False SSH_RE s of
             Some m \<Rightarrow> Some (u ''S'' @ number_group m)
           | None \<Rightarrow> None))"

record 'p log_output =
  ou_sessions :: "(pyval \<times> pyval) list"
  ou_ips :: "(pyval \<times> pyval) list"
  ou_plugin :: 'p

definition log_init :: "'p \<Rightarrow> 'p log_output" where
  "log_init p = \<lparr>ou_sessions = [], ou_ips = [], ou_plugin = p\<rparr>"

record log_conf = ext +
  lc_sensor :: pystr
  lc_uuid :: pystr
  lc_format_time :: "pyval \<Rightarrow> pyval res"
  lc_percent :: "pyval \<Rightarrow> pydict \<Rightarrow> pyval res"

definition emittable :: "pydict \<Rightarrow> bool" where
  "emittable e \<longleftrightarrow> \<not> dhas e ''printed'' \<and> dhas e ''eventid'' \<and>
     (dhas e ''sessionno'' \<or> dhas e ''session'' \<or> dhas e ''system'') \<and> (dhas e ''message'' \<or> dhas e ''format'')"

definition prepared :: "log_conf \<Rightarrow> rat \<Rightarrow> pydict \<Rightarrow> pydict res" where
  "prepared C now e =
     (let e1 = dpop ''isError'' (dset ''uuid'' (PStr (lc_uuid C)) (dset ''sensor'' (PStr (lc_sensor C)) (convert_event e)));
          e2 = (if dhas e1 ''time'' then e1 else dset ''time'' (PFloat now) e1) in
      rbind (lc_format_time C (dget e2 ''time'')) (\<lambda>stamp.
        let e3 = dset ''timestamp'' stamp e2 in
        if dhas e3 ''format'' \<and> (\<not> dhas e3 ''message'' \<or> dget e3 ''message'' = PList []) then
          (case lc_percent C (dget e3 ''format'') e3 of
             Inr text \<Rightarrow> Inr (dpop ''format'' (dset ''message'' text e3))
           | Inl _ \<Rightarrow> Inr e3)
        else Inr e3))"

text \<open>The number of the connection and the event without it; None when there is none to be found.\<close>

definition numbered :: "log_conf \<Rightarrow> (pyval \<times> pyval) list \<Rightarrow> pydict \<Rightarrow> (pyval \<times> pydict) option res" where
  "numbered C sessions ev =
     (if dhas ev ''sessionno'' then Inr (Some (dget ev ''sessionno'', dpop ''sessionno'' ev))
      else if dhas ev ''session'' then
        Inr (map_option (\<lambda>kv. (fst kv, ev)) (find (\<lambda>kv. snd kv = dget ev ''session'') sessions))
      else case dget ev ''system'' of
             PStr s \<Rightarrow> Inr (map_option (\<lambda>n. (PStr n, ev)) (system_session C s))
           | _ \<Rightarrow> Inl TypeError)"

definition protocol_of :: "pyval \<Rightarrow> pyval res" where
  "protocol_of n =
     (case n of
        PStr (c # _) \<Rightarrow> Inr (if c = 83 then pstr ''ssh'' else if c = 84 then pstr ''telnet'' else pstr ''unknown'')
      | PStr [] \<Rightarrow> Inl IndexError
      | _ \<Rightarrow> Inl TypeError)"

section \<open>emit\<close>

definition sub_of :: "pydict \<Rightarrow> string \<Rightarrow> ('s, pyval) eff" where
  "sub_of e k = elift (vsub (PDict e) k)"

definition del_key :: "'a \<Rightarrow> ('a \<times> 'b) list \<Rightarrow> ('a \<times> 'b) list res" where
  "del_key k m = (if map_of m k = None then Inl KeyError else Inr (AList.delete k m))"

definition note_session :: "pyval \<Rightarrow> pydict \<Rightarrow> ('p log_output, pydict) eff" where
  "note_session n ev =
     (if dget ev ''eventid'' = pstr ''cowrie.session.connect'' then
        ebind (sub_of ev ''session'') (\<lambda>sid.
        ebind (\<lambda>s. (Inr (), s\<lparr>ou_sessions := AList.update n sid (ou_sessions s)\<rparr>)) (\<lambda>_.
        ebind (sub_of ev ''src_ip'') (\<lambda>ip.
        ebind (\<lambda>s. (Inr (), s\<lparr>ou_ips := AList.update n ip (ou_ips s)\<rparr>)) (\<lambda>_. eret ev))))
      else (\<lambda>s. case map_of (ou_sessions s) n of
                 None \<Rightarrow> (Inl KeyError, s)
               | Some sid \<Rightarrow> (Inr (dset ''session'' sid ev), s)))"

definition with_ip :: "pyval \<Rightarrow> pydict \<Rightarrow> ('p log_output, pydict) eff" where
  "with_ip n ev s = (Inr (case map_of (ou_ips s) n of Some ip \<Rightarrow> dset ''src_ip'' ip ev | None \<Rightarrow> ev), s)"

definition to_plugin :: "(pydict \<Rightarrow> ('p, unit) eff) \<Rightarrow> pydict \<Rightarrow> ('p log_output, unit) eff" where
  "to_plugin wr ev s = (case wr ev (ou_plugin s) of (r, p) \<Rightarrow> (r, s\<lparr>ou_plugin := p\<rparr>))"

definition forget_session :: "pyval \<Rightarrow> pydict \<Rightarrow> ('p log_output, unit) eff" where
  "forget_session n ev s =
     (if dget ev ''eventid'' = pstr ''cowrie.session.closed'' then
        (case del_key n (ou_sessions s) of
           Inl e \<Rightarrow> (Inl e, s)
         | Inr m \<Rightarrow>
             (case del_key n (ou_ips s) of
                Inl e \<Rightarrow> (Inl e, s\<lparr>ou_sessions := m\<rparr>)
              | Inr i \<Rightarrow> (Inr (), s\<lparr>ou_sessions := m, ou_ips := i\<rparr>)))
      else (Inr (), s))"

definition emit_numbered :: "(pydict \<Rightarrow> ('p, unit) eff) \<Rightarrow> pyval \<Rightarrow> pydict \<Rightarrow> ('p log_output, unit) eff" where
  "emit_numbered wr n ev =
     (if \<not> hashable n then eraise TypeError
      else ebind (with_ip n ev) (\<lambda>ev1.
           ebind (note_session n ev1) (\<lambda>ev2.
           ebind (elift (protocol_of n)) (\<lambda>pr.
             let ev3 = dset ''protocol'' pr ev2 in
             ebind (to_plugin wr ev3) (\<lambda>_. forget_session n ev3)))))"

definition emit_event :: "log_conf \<Rightarrow> (pydict \<Rightarrow> ('p, unit) eff) \<Rightarrow> rat \<Rightarrow> pydict \<Rightarrow> ('p log_output, unit) eff" where
  "emit_event C wr now e =
     (if \<not> emittable e then eret ()
      else ebind (elift (prepared C now e)) (\<lambda>ev s.
        case numbered C (ou_sessions s) ev of
          Inl err \<Rightarrow> (Inl err, s)
        | Inr None \<Rightarrow> (Inr (), s)
        | Inr (Some (n, ev1)) \<Rightarrow> emit_numbered wr n ev1 s))"

lemmas event_log_eval [py_eval] = text_of_bytes_def convert_key_def new_dict_def convert_item_def convert_event_def SSH_RE_def TELNET_RE_def
  number_group_def system_session_def emittable_def prepared_def numbered_def protocol_of_def sub_of_def del_key_def
  note_session_def with_ip_def to_plugin_def forget_session_def emit_numbered_def emit_event_def

section \<open>What preparation keeps\<close>

definition event_ok :: "pydict \<Rightarrow> bool" where
  "event_ok e \<longleftrightarrow> distinct (map fst e) \<and> list_all (\<lambda>kv. case fst kv of KS _ \<Rightarrow> True | KB _ \<Rightarrow> False) e"

lemma map_of_new_dict: "distinct (map fst kvs) \<Longrightarrow> map_of (new_dict kvs) = map_of kvs"
  using map_of_dupdate [of kvs "[]"] by (auto simp: fun_eq_iff new_dict_def dupdate_def split: option.split)

lemma convert_item_keys:
  assumes "list_all (\<lambda>kv. case fst kv of KS _ \<Rightarrow> True | KB _ \<Rightarrow> False) e"
  shows "map fst (map convert_item e) = map fst e"
  using assms by (induction e) (auto simp: convert_item_def convert_key_def split: pkey.splits)

lemma convert_item_get:
  assumes "list_all (\<lambda>kv. case fst kv of KS _ \<Rightarrow> True | KB _ \<Rightarrow> False) e" "x \<noteq> u ''message''"
  shows "map_of (map convert_item e) (KS x) = map_option convert (map_of e (KS x))"
  using assms(1)
proof (induction e)
  case (Cons kv e)
  obtain a v where kv: "kv = (KS a, v)" using Cons.prems by (cases kv; cases "fst kv") auto
  show ?case
  proof (cases "a = x")
    case True
    then have "snd (convert_item kv) = convert v" using assms(2) by (cases v) (simp_all add: kv convert_item_def)
    then show ?thesis using True by (simp add: kv convert_item_def convert_key_def)
  next
    case False
    then show ?thesis using Cons by (simp add: kv convert_item_def convert_key_def)
  qed
qed simp

lemma convert_event_get:
  assumes "event_ok e" "k \<noteq> ''message''"
  shows "map_of (convert_event e) (key k) = map_option convert (map_of e (key k))"
proof -
  have l: "list_all (\<lambda>kv. case fst kv of KS _ \<Rightarrow> True | KB _ \<Rightarrow> False) e" and d: "distinct (map fst e)"
    using assms(1) by (simp_all only: event_ok_def)
  have "distinct (map fst (map convert_item e))" unfolding convert_item_keys [OF l] by (rule d)
  then have "map_of (convert_event e) = map_of (map convert_item e)"
    unfolding convert_event_def by (rule map_of_new_dict)
  then show ?thesis using convert_item_get [OF l, of "u k"] assms(2) by simp
qed

definition OWN :: "string list" where
  "OWN = [''uuid'', ''sensor'', ''isError'', ''time'', ''timestamp'', ''message'', ''format'']"

lemma prepared_get:
  assumes "event_ok e" "prepared C now e = Inr ev" "k \<notin> set OWN"
  shows "map_of ev (key k) = map_option convert (map_of e (key k))"
proof -
  have "map_of ev (key k) = map_of (convert_event e) (key k)"
    using assms(2,3) by (auto simp: prepared_def Let_def OWN_def dict_simps rbind_eq_Inr split: if_splits sum.splits)
  then show ?thesis using convert_event_get [OF assms(1), of k] assms(3) by (simp add: OWN_def)
qed

text \<open>The connection of an event that names it by number or by the prefix of the log.\<close>

definition number_of :: "log_conf \<Rightarrow> pydict \<Rightarrow> pystr option" where
  "number_of C e =
     (case map_of e (key ''sessionno'') of
        Some (PStr n) \<Rightarrow> Some n
      | Some _ \<Rightarrow> None
      | None \<Rightarrow>
          if dhas e ''session'' then None
          else (case map_of e (key ''system'') of Some (PStr t) \<Rightarrow> system_session C t | _ \<Rightarrow> None))"

lemma numbered_of:
  assumes "event_ok e" "prepared C now e = Inr ev" "number_of C e = Some n"
  shows "\<exists>ev1. numbered C ss ev = Inr (Some (PStr n, ev1)) \<and>
    (\<forall>k. k \<notin> set OWN \<longrightarrow> k \<noteq> ''sessionno'' \<longrightarrow> map_of ev1 (key k) = map_option convert (map_of e (key k)))"
proof -
  note g = prepared_get [OF assms(1,2)]
  have own: "''sessionno'' \<notin> set OWN" "''session'' \<notin> set OWN" "''system'' \<notin> set OWN" by (simp_all add: OWN_def)
  show ?thesis
  proof (cases "map_of e (key ''sessionno'')")
    case None
    then have "\<not> dhas ev ''sessionno''" "\<not> dhas ev ''session''" using assms(3) own g
      by (simp_all add: dhas_def number_of_def split: if_splits)
    moreover obtain t where "map_of e (key ''system'') = Some (PStr t)" "system_session C t = Some n"
      using assms(3) None by (auto simp: number_of_def split: if_splits option.splits pyval.splits)
    then have "dget ev ''system'' = PStr t" "system_session C t = Some n" using own g by (simp_all add: dget_def)
    ultimately show ?thesis using g by (simp add: numbered_def)
  next
    case (Some v)
    then have "v = PStr n" using assms(3) by (simp add: number_of_def split: pyval.splits)
    then have "dhas ev ''sessionno''" "dget ev ''sessionno'' = PStr n" using Some own g by (simp_all add: dhas_def dget_def)
    then show ?thesis using g by (simp add: numbered_def dict_simps)
  qed
qed

section \<open>The table of open connections\<close>

text \<open>
  What the log promises: it knows the connections that are open, with the session and the address
  they were announced with, and marks every event of a connection with them.
\<close>

type_synonym connections = "pystr \<rightharpoonup> pyval \<times> pyval"

definition field :: "pydict \<Rightarrow> string \<Rightarrow> pyval" where
  "field e k = convert (dget e k)"

definition connects :: "pydict \<Rightarrow> bool" where
  "connects e \<longleftrightarrow> map_of e (key ''eventid'') = Some (pstr ''cowrie.session.connect'')"

definition closes :: "pydict \<Rightarrow> bool" where
  "closes e \<longleftrightarrow> map_of e (key ''eventid'') = Some (pstr ''cowrie.session.closed'')"

definition announced :: "connections \<Rightarrow> pystr \<Rightarrow> pydict \<Rightarrow> pyval \<times> pyval" where
  "announced m n e = (field e ''session'', case m n of Some (_, ip) \<Rightarrow> ip | None \<Rightarrow> field e ''src_ip'')"

definition open_step :: "log_conf \<Rightarrow> pydict \<Rightarrow> connections \<Rightarrow> connections" where
  "open_step C e m =
     (case number_of C e of
        None \<Rightarrow> m
      | Some n \<Rightarrow> if connects e then m(n \<mapsto> announced m n e) else if closes e then m(n := None) else m)"

definition protocol_name :: "pystr \<Rightarrow> pyval" where
  "protocol_name n = (if hd n = 83 then pstr ''ssh'' else if hd n = 84 then pstr ''telnet'' else pstr ''unknown'')"

definition marked :: "log_conf \<Rightarrow> connections \<Rightarrow> pydict \<Rightarrow> (pyval \<times> pyval \<times> pyval \<times> pyval) list" where
  "marked C m e =
     (case number_of C e of
        None \<Rightarrow> []
      | Some n \<Rightarrow>
          (case (if connects e then Some (announced m n e) else m n) of
             None \<Rightarrow> []
           | Some (sid, ip) \<Rightarrow> [(field e ''eventid'', sid, ip, protocol_name n)]))"

definition marks :: "pydict \<Rightarrow> pyval \<times> pyval \<times> pyval \<times> pyval" where
  "marks ev = (dget ev ''eventid'', dget ev ''session'', dget ev ''src_ip'', dget ev ''protocol'')"

definition proper_event :: "log_conf \<Rightarrow> rat \<times> pydict \<Rightarrow> bool" where
  "proper_event C x = (case x of (now, e) \<Rightarrow>
     event_ok e \<and> emittable e \<and> number_of C e \<noteq> None \<and> number_of C e \<noteq> Some [] \<and> (case prepared C now e of Inr _ \<Rightarrow> True | Inl _ \<Rightarrow> False) \<and>
     (case map_of e (key ''eventid'') of Some (PStr _) \<Rightarrow> True | _ \<Rightarrow> False) \<and> (connects e \<longrightarrow> dhas e ''session'' \<and> dhas e ''src_ip''))"

definition steady :: "(pydict \<Rightarrow> ('p, unit) eff) \<Rightarrow> bool" where
  "steady wr \<longleftrightarrow> (\<forall>ev p. dget ev ''eventid'' = pstr ''cowrie.session.closed'' \<longrightarrow> fst (wr ev p) = Inr ())"

definition represents :: "'p log_output \<Rightarrow> connections \<Rightarrow> bool" where
  "represents s m \<longleftrightarrow>
     (\<forall>n. map_of (ou_sessions s) (PStr n) = map_option fst (m n) \<and> map_of (ou_ips s) (PStr n) = map_option snd (m n))"

lemma dget_map_of: "map_of e (key k) = Some v \<Longrightarrow> dget e k = v"
  by (simp add: dget_def)

text \<open>One event, prepared and numbered.\<close>

lemma emit_numbered_step:
  assumes r: "represents s m" and n: "n \<noteq> []" and wr: "steady wr"
    and ev: "map_of ev (key ''eventid'') = Some (PStr t)"
    and c: "t = u ''cowrie.session.connect'' \<Longrightarrow> map_of ev (key ''session'') = Some sid \<and> map_of ev (key ''src_ip'') = Some ip"
  defines "now_at \<equiv> (if t = u ''cowrie.session.connect'' then Some (sid, case m n of Some (_, a) \<Rightarrow> a | None \<Rightarrow> ip) else m n)"
  shows "(now_at = None \<longrightarrow> snd (emit_numbered wr (PStr n) ev s) = s) \<and>
    (\<forall>a b. now_at = Some (a, b) \<longrightarrow>
      (\<exists>ev'. ou_plugin (snd (emit_numbered wr (PStr n) ev s)) = snd (wr ev' (ou_plugin s)) \<and> marks ev' = (PStr t, a, b, protocol_name n)) \<and>
      represents (snd (emit_numbered wr (PStr n) ev s)) (m(n := (if t = u ''cowrie.session.closed'' then None else Some (a, b)))))"
proof (cases "t = u ''cowrie.session.connect''")
  case True
  define b where "b = (case m n of Some (_, a) \<Rightarrow> a | None \<Rightarrow> ip)"
  define ev1 where "ev1 = (case m n of Some (_, a) \<Rightarrow> dset ''src_ip'' a ev | None \<Rightarrow> ev)"
  define s1 where "s1 = s\<lparr>ou_sessions := AList.update (PStr n) sid (ou_sessions s), ou_ips := AList.update (PStr n) b (ou_ips s)\<rparr>"
  define ev2 where "ev2 = dset ''protocol'' (protocol_name n) ev1"
  have g: "dget ev1 ''eventid'' = PStr t" "map_of ev1 (key ''session'') = Some sid" "map_of ev1 (key ''src_ip'') = Some b"
    using ev c True by (auto simp: ev1_def b_def dict_simps dget_def split: option.split)
  have i: "map_of (ou_ips s) (PStr n) = map_option snd (m n)" using r by (simp add: represents_def)
  have w: "with_ip (PStr n) ev s = (Inr ev1, s)"
    using i by (auto simp: with_ip_def ev1_def split: option.split)
  have no: "note_session (PStr n) ev1 s = (Inr ev1, s1)"
    using g True by (simp add: note_session_def ebind_def sub_of_def vsub_def s1_def)
  have pr: "protocol_of (PStr n) = Inr (protocol_name n)"
    using n by (cases n) (simp_all add: protocol_of_def protocol_name_def)
  have e2: "marks ev2 = (PStr t, sid, b, protocol_name n)"
    using g by (simp add: ev2_def marks_def dict_simps dget_map_of)
  have fo: "forget_session (PStr n) ev2 x = (Inr (), x)" for x :: "'a log_output"
    using g True by (simp add: forget_session_def ev2_def dict_simps u_def)
  have "snd (emit_numbered wr (PStr n) ev s) = s1\<lparr>ou_plugin := snd (wr ev2 (ou_plugin s))\<rparr>"
    using w no pr fo
    by (auto simp: emit_numbered_def hashable_def ebind_def Let_def to_plugin_def ev2_def s1_def split: prod.split sum.split)
  moreover have "represents (s1\<lparr>ou_plugin := p\<rparr>) (m(n \<mapsto> (sid, b)))" for p
    using r by (auto simp: represents_def s1_def update_conv')
  ultimately show ?thesis using True e2 by (auto simp: now_at_def b_def u_def)
next
  case False
  have at: "map_of (ou_sessions s) (PStr n) = map_option fst (m n)" "map_of (ou_ips s) (PStr n) = map_option snd (m n)"
    using r by (simp_all add: represents_def)
  have id: "dget ev ''eventid'' = PStr t" using ev by (rule dget_map_of)
  show ?thesis
  proof (cases "m n")
    case None
    then show ?thesis
      using at id False by (simp add: now_at_def emit_numbered_def hashable_def ebind_def with_ip_def note_session_def)
  next
    case (Some ab)
    obtain a b where ab: "ab = (a, b)" by fastforce
    define ev2 where "ev2 = dset ''protocol'' (protocol_name n) (dset ''session'' a (dset ''src_ip'' b ev))"
    have pr: "protocol_of (PStr n) = Inr (protocol_name n)"
      using n by (cases n) (simp_all add: protocol_of_def protocol_name_def)
    have e2: "marks ev2 = (PStr t, a, b, protocol_name n)" "dget ev2 ''eventid'' = PStr t"
      using id by (simp_all add: ev2_def marks_def dict_simps)
    have run: "emit_numbered wr (PStr n) ev s = ebind (to_plugin wr ev2) (\<lambda>_. forget_session (PStr n) ev2) s"
      using at id False Some ab pr
      by (simp add: emit_numbered_def hashable_def ebind_def with_ip_def note_session_def dict_simps ev2_def Let_def)
    show ?thesis
    proof (cases "t = u ''cowrie.session.closed''")
      case True
      then have "fst (wr ev2 (ou_plugin s)) = Inr ()" using wr e2 by (simp add: steady_def)
      then obtain p where p: "wr ev2 (ou_plugin s) = (Inr (), p)" by (cases "wr ev2 (ou_plugin s)") simp
      have "snd (emit_numbered wr (PStr n) ev s) =
          s\<lparr>ou_plugin := p, ou_sessions := AList.delete (PStr n) (ou_sessions s), ou_ips := AList.delete (PStr n) (ou_ips s)\<rparr>"
        using run p at Some e2 True by (simp add: ebind_def to_plugin_def forget_session_def del_key_def)
      moreover have "represents (s\<lparr>ou_plugin := p, ou_sessions := AList.delete (PStr n) (ou_sessions s), ou_ips := AList.delete (PStr n) (ou_ips s)\<rparr>) (m(n := None))"
        using r by (auto simp: represents_def delete_conv')
      moreover have "\<exists>ev'. p = snd (wr ev' (ou_plugin s)) \<and> marks ev' = (PStr t, a, b, protocol_name n)"
        using p e2 by (intro exI [of _ ev2]) simp
      ultimately show ?thesis using Some ab False True by (simp add: now_at_def)
    next
      case no: False
      have "snd (emit_numbered wr (PStr n) ev s) = s\<lparr>ou_plugin := snd (wr ev2 (ou_plugin s))\<rparr>"
        using run e2 no by (auto simp: ebind_def to_plugin_def forget_session_def split: prod.split sum.split)
      moreover have "represents (s\<lparr>ou_plugin := p\<rparr>) (m(n \<mapsto> (a, b)))" for p
        using r Some ab by (auto simp: represents_def)
      ultimately show ?thesis using Some ab False no e2 by (auto simp: now_at_def)
    qed
  qed
qed

lemma emit_step:
  assumes "proper_event C (now, e)" "represents s m" "steady wr"
  shows "\<exists>evs. ou_plugin (snd (emit_event C wr now e s)) = fold (\<lambda>ev p. snd (wr ev p)) evs (ou_plugin s) \<and>
    map marks evs = marked C m e \<and> represents (snd (emit_event C wr now e s)) (open_step C e m)"
proof -
  obtain n ev t where p: "event_ok e" "emittable e" "number_of C e = Some n" "n \<noteq> []" "prepared C now e = Inr ev"
    "map_of e (key ''eventid'') = Some (PStr t)" "connects e \<longrightarrow> dhas e ''session'' \<and> dhas e ''src_ip''"
    using assms(1) by (auto simp: proper_event_def split: sum.splits option.splits pyval.splits)
  obtain ev1 where ev1: "numbered C (ou_sessions s) ev = Inr (Some (PStr n, ev1))"
    "\<And>k. k \<notin> set OWN \<Longrightarrow> k \<noteq> ''sessionno'' \<Longrightarrow> map_of ev1 (key k) = map_option convert (map_of e (key k))"
    using numbered_of [OF p(1,5,3), of "ou_sessions s"] by blast
  have run: "emit_event C wr now e s = emit_numbered wr (PStr n) ev1 s"
    using p(2,5) ev1(1) by (simp add: emit_event_def)
  have id: "map_of ev1 (key ''eventid'') = Some (PStr t)" using ev1(2) [of "''eventid''"] p(6) by (simp add: OWN_def)
  have cn: "connects e \<longleftrightarrow> t = u ''cowrie.session.connect''" "closes e \<longleftrightarrow> t = u ''cowrie.session.closed''"
    "field e ''eventid'' = PStr t"
    using p(6) by (simp_all add: connects_def closes_def field_def dget_def)
  have f: "map_of ev1 (key ''session'') = Some (field e ''session'') \<and> map_of ev1 (key ''src_ip'') = Some (field e ''src_ip'')"
    if "t = u ''cowrie.session.connect''"
    using that p(7) cn ev1(2) [of "''session''"] ev1(2) [of "''src_ip''"]
    by (auto simp: OWN_def dhas_def field_def dget_def)
  note st = emit_numbered_step [OF assms(2) p(4) assms(3) id f]
  let ?at = "if t = u ''cowrie.session.connect'' then Some (field e ''session'', case m n of Some (_, a) \<Rightarrow> a | None \<Rightarrow> field e ''src_ip'') else m n"
  show ?thesis
  proof (cases ?at)
    case None
    then have "t \<noteq> u ''cowrie.session.connect''" "m n = None" by (auto split: if_splits)
    moreover have "snd (emit_numbered wr (PStr n) ev1 s) = s" using st None by blast
    ultimately show ?thesis
      using assms(2) p(3) cn by (intro exI [of _ "[]"]) (auto simp: run marked_def open_step_def fun_upd_idem)
  next
    case (Some ab)
    obtain a b where ab: "ab = (a, b)" by fastforce
    from st Some ab obtain ev' where e': "ou_plugin (snd (emit_numbered wr (PStr n) ev1 s)) = snd (wr ev' (ou_plugin s))"
      "marks ev' = (PStr t, a, b, protocol_name n)"
      "represents (snd (emit_numbered wr (PStr n) ev1 s)) (m(n := (if t = u ''cowrie.session.closed'' then None else Some (a, b))))" by blast
    have "marked C m e = [(PStr t, a, b, protocol_name n)]"
      using Some ab p(3) cn by (auto simp: marked_def announced_def split: if_splits)
    moreover have "open_step C e m = m(n := (if t = u ''cowrie.session.closed'' then None else Some (a, b)))"
      using Some ab p(3) cn by (auto simp: open_step_def announced_def u_def split: if_splits)
    ultimately show ?thesis using e' by (intro exI [of _ "[ev']"]) (simp add: run)
  qed
qed


section \<open>Events that name their session\<close>

text \<open>
  An event without a number that names its session is given to a connection that has this session, so
  it keeps the session it came with; when no connection has it, nothing happens.
\<close>

lemma named_session_kept:
  assumes "\<not> dhas ev ''sessionno''" "dhas ev ''session''" "numbered C ss ev = Inr (Some (n, ev1))"
  shows "ev1 = ev \<and> (n, dget ev ''session'') \<in> set ss"
proof -
  have "numbered C ss ev = Inr (map_option (\<lambda>kv. (fst kv, ev)) (find (\<lambda>kv. snd kv = dget ev ''session'') ss))"
    unfolding numbered_def by (simp only: assms(1,2) if_True if_False)
  then obtain kv where kv: "find (\<lambda>kv. snd kv = dget ev ''session'') ss = Some kv" "n = fst kv" "ev1 = ev"
    using assms(3) by (cases "find (\<lambda>kv. snd kv = dget ev ''session'') ss") simp_all
  from kv(1) have "kv \<in> set ss" "snd kv = dget ev ''session''" by (auto simp: find_Some_iff)
  then show ?thesis using kv(2,3) by (metis prod.collapse)
qed

lemma unknown_session_dropped:
  assumes "emittable e" "prepared C now e = Inr ev" "\<not> dhas ev ''sessionno''" "dhas ev ''session''"
    "dget ev ''session'' \<notin> snd ` set (ou_sessions s)"
  shows "emit_event C wr now e s = (Inr (), s)"
proof -
  have "find (\<lambda>kv. snd kv = dget ev ''session'') (ou_sessions s) = None"
    using assms(5) by (force simp: find_None_iff)
  then show ?thesis using assms by (simp add: emit_event_def numbered_def)
qed

text \<open>An event of a connection that was never announced, or is closed already, makes \<^verbatim>\<open>emit\<close> raise.\<close>

lemma unannounced_raises:
  assumes "dget ev ''eventid'' \<noteq> pstr ''cowrie.session.connect''" "map_of (ou_sessions s) (PStr n) = None"
  shows "emit_numbered wr (PStr n) ev s = (Inl KeyError, s)"
  using assms
  by (cases "map_of (ou_ips s) (PStr n)")
    (simp_all add: emit_numbered_def hashable_def ebind_def with_ip_def note_session_def dict_simps)

text \<open>
  The hypothesis on the plugin is needed: when it raises on the last event of a connection, the entry
  stays in the tables, and a later connection with the same number is reported with the old address.
\<close>

lemma failing_plugin_leaks:
  assumes "wr (dset ''protocol'' (protocol_name n) (dset ''session'' sid (dset ''src_ip'' ip ev))) (ou_plugin s) = (Inl err, p)"
    "dget ev ''eventid'' = pstr ''cowrie.session.closed''" "n \<noteq> []"
    "map_of (ou_sessions s) (PStr n) = Some sid" "map_of (ou_ips s) (PStr n) = Some ip"
  shows "emit_numbered wr (PStr n) ev s = (Inl err, s\<lparr>ou_plugin := p\<rparr>)"
proof -
  have "protocol_of (PStr n) = Inr (protocol_name n)"
    using assms(3) by (cases n) (simp_all add: protocol_of_def protocol_name_def)
  then show ?thesis using assms
    by (simp add: emit_numbered_def hashable_def ebind_def with_ip_def note_session_def dict_simps Let_def to_plugin_def u_def)
qed

section \<open>The log as a whole\<close>

text \<open>The log calls the plugin for one event after the other; what the plugin raises does not reach the rest of the program.\<close>

definition run_log :: "log_conf \<Rightarrow> (pydict \<Rightarrow> ('p, unit) eff) \<Rightarrow> (rat \<times> pydict) list \<Rightarrow> 'p log_output \<Rightarrow> 'p log_output" where
  "run_log C wr es = fold (\<lambda>x s. snd (emit_event C wr (fst x) (snd x) s)) es"

primrec attributions :: "log_conf \<Rightarrow> pydict list \<Rightarrow> connections \<Rightarrow> (pyval \<times> pyval \<times> pyval \<times> pyval) list" where
  "attributions C [] m = []"
| "attributions C (e # es) m = marked C m e @ attributions C es (open_step C e m)"

lemma run_log_table:
  assumes "list_all (proper_event C) es" "steady wr" "represents s m"
  shows "\<exists>evs. ou_plugin (run_log C wr es s) = fold (\<lambda>ev p. snd (wr ev p)) evs (ou_plugin s) \<and>
    map marks evs = attributions C (map snd es) m \<and> represents (run_log C wr es s) (fold (open_step C) (map snd es) m)"
  using assms(1,3)
proof (induction es arbitrary: s m)
  case Nil
  then show ?case by (intro exI [of _ "[]"]) (simp add: run_log_def)
next
  case (Cons x es)
  let ?s = "snd (emit_event C wr (fst x) (snd x) s)"
  have "proper_event C (fst x, snd x)" and es: "list_all (proper_event C) es" using Cons.prems by simp_all
  from emit_step [OF this(1) Cons.prems(2) assms(2)]
  obtain a where a: "ou_plugin ?s = fold (\<lambda>ev p. snd (wr ev p)) a (ou_plugin s)" "map marks a = marked C m (snd x)"
    "represents ?s (open_step C (snd x) m)" by blast
  from Cons.IH [OF es a(3)]
  obtain b where b: "ou_plugin (run_log C wr es ?s) = fold (\<lambda>ev p. snd (wr ev p)) b (ou_plugin ?s)"
    "map marks b = attributions C (map snd es) (open_step C (snd x) m)"
    "represents (run_log C wr es ?s) (fold (open_step C) (map snd es) (open_step C (snd x) m))" by blast
  show ?case using a b by (intro exI [of _ "a @ b"]) (simp add: run_log_def)
qed

text \<open>
  C19. The event log is a table of open connections.  Whatever the order in which the events of the
  connections arrive, the plugin receives exactly the events of connections that are open, in order,
  each with the session and the address the connection was announced with and with its protocol, and
  a connection is forgotten when it is closed.
\<close>

theorem log_refines_table:
  assumes "list_all (proper_event C) es" "steady wr"
  shows "\<exists>evs. ou_plugin (run_log C wr es (log_init p)) = fold (\<lambda>ev q. snd (wr ev q)) evs p \<and>
    map marks evs = attributions C (map snd es) Map.empty \<and>
    represents (run_log C wr es (log_init p)) (fold (open_step C) (map snd es) Map.empty)"
proof -
  have "represents (log_init p) Map.empty" by (simp add: represents_def log_init_def)
  from run_log_table [OF assms this] show ?thesis by (simp add: log_init_def)
qed

definition demo_log :: log_conf where
  "demo_log = ext.extend ascii_ext \<lparr>lc_sensor = u ''trap'', lc_uuid = u ''unknown'',
     lc_format_time = (\<lambda>_. Inr (pstr ''t'')), lc_percent = (\<lambda>f _. Inr f)\<rparr>"

definition demo_entry :: "string \<Rightarrow> string \<Rightarrow> (string \<times> pyval) list \<Rightarrow> rat \<times> pydict" where
  "demo_entry sys name kvs =
     (0, map (\<lambda>(k, v). (key k, v)) ((''system'', pstr sys) # (''eventid'', pstr name) # (''format'', pstr ''f'') # kvs))"

definition demo_entries :: "(rat \<times> pydict) list" where
  "demo_entries =
     [demo_entry ''x'' ''cowrie.session.connect'' [(''sessionno'', pstr ''S7''), (''session'', pstr ''a''), (''src_ip'', pstr ''1.1.1.1'')],
      demo_entry ''x'' ''cowrie.session.connect'' [(''sessionno'', pstr ''T7''), (''session'', pstr ''b''), (''src_ip'', pstr ''2.2.2.2'')],
      demo_entry ''CowrieSSHTransport,7,1.1.1.1'' ''cowrie.command.input'' [],
      demo_entry ''CowrieTelnetTransport,7,2.2.2.2'' ''cowrie.session.closed'' [],
      demo_entry ''CowrieTelnetTransport,7,2.2.2.2'' ''cowrie.command.input'' []]"

lemmas demo_log_eval [py_eval] = demo_log_def demo_entry_def demo_entries_def


definition collect :: "pydict \<Rightarrow> (pydict list, unit) eff" where
  "collect ev seen = (Inr (), seen @ [ev])"

lemma demo_entries_proper: "list_all (proper_event demo_log) demo_entries"
  by code_simp

theorem log_refines_table_witness:
  "\<exists>evs. map marks evs =
     [(pstr ''cowrie.session.connect'', pstr ''a'', pstr ''1.1.1.1'', pstr ''ssh''),
      (pstr ''cowrie.session.connect'', pstr ''b'', pstr ''2.2.2.2'', pstr ''telnet''),
      (pstr ''cowrie.command.input'', pstr ''a'', pstr ''1.1.1.1'', pstr ''ssh''),
      (pstr ''cowrie.session.closed'', pstr ''b'', pstr ''2.2.2.2'', pstr ''telnet'')] \<and>
     ou_plugin (run_log demo_log collect demo_entries (log_init [])) = fold (\<lambda>ev q. snd (collect ev q)) evs []"
proof -
  have "steady collect" by (simp add: steady_def collect_def)
  from log_refines_table [OF demo_entries_proper this, of "[]"]
  obtain evs where evs: "ou_plugin (run_log demo_log collect demo_entries (log_init [])) = fold (\<lambda>ev q. snd (collect ev q)) evs []"
    "map marks evs = attributions demo_log (map snd demo_entries) Map.empty" by blast
  have "attributions demo_log (map snd demo_entries) Map.empty =
     [(pstr ''cowrie.session.connect'', pstr ''a'', pstr ''1.1.1.1'', pstr ''ssh''),
      (pstr ''cowrie.session.connect'', pstr ''b'', pstr ''2.2.2.2'', pstr ''telnet''),
      (pstr ''cowrie.command.input'', pstr ''a'', pstr ''1.1.1.1'', pstr ''ssh''),
      (pstr ''cowrie.session.closed'', pstr ''b'', pstr ''2.2.2.2'', pstr ''telnet'')]" by code_simp
  then show ?thesis using evs by (intro exI [of _ evs]) simp
qed

end
