(* ===== verification/Network.thy ===== *)
theory Network
  imports Url_Fetcher
begin

text \<open>
  \<^verbatim>\<open>sensor/cowrie/src/cowrie/core/network.py\<close>: whether the emulated downloaders may contact an address.  The
  records a name server answers with are a parameter; an answer is None when the lookup raises.  The
  call \<^verbatim>\<open>dottedQuad\<close> on an AAAA record is the library's: its result, or None when it raises.  A name taken
  from a record is not equal to the text the search started with.
\<close>

section \<open>Blocked networks\<close>

definition BLOCKED_IPV4 :: "network list" where
  "BLOCKED_IPV4 =
     [net4 0 0 0 0 8, net4 10 0 0 0 8, net4 172 16 0 0 12, net4 192 168 0 0 16, net4 169 254 0 0 16, net4 100 100 100 200 32,
      net4 127 0 0 0 8, net4 0 0 0 0 8, net4 224 0 0 0 4, net4 240 0 0 0 4, net4 255 255 255 255 32]"

definition BLOCKED_IPV6 :: "network list" where
  "BLOCKED_IPV6 = [net6 0 1 128]"

text \<open>An address is never in a network of the other version.\<close>

definition blocked_address :: "pystr \<Rightarrow> bool" where
  "blocked_address s =
     (if is_ipv4 s then list_ex (in_network (ipv4_value s)) BLOCKED_IPV4
      else list_ex (in_network (ipv6_value s)) BLOCKED_IPV6)"

definition is_ip_address :: "pystr \<Rightarrow> bool" where
  "is_ip_address s \<longleftrightarrow> is_ipv4 s \<or> is_ipv6 s"

section \<open>Resolving a name\<close>

datatype rr = Rr_cname pystr | Rr_a pystr | Rr_aaaa "pystr option" | Rr_other

type_synonym dns = "pystr \<Rightarrow> rr list option"

type_synonym visited = "(bool \<times> pystr) list"   \<comment> \<open>whether the name is from a record\<close>

text \<open>
  A chain of names may go on for ever; the result is None when it is longer than the given number.
\<close>

function resolve_cname :: "nat \<Rightarrow> dns \<Rightarrow> bool \<times> pystr \<Rightarrow> visited \<Rightarrow> (pystr option \<times> visited) option"
  and search_records :: "nat \<Rightarrow> dns \<Rightarrow> rr list \<Rightarrow> visited \<Rightarrow> (pystr option \<times> visited) option" where
  "resolve_cname 0 L a v = None"
| "resolve_cname (Suc n) L a v =
     (if a \<in> set v then Some (None, v)
      else case L (snd a) of
             None \<Rightarrow> Some (None, a # v)
           | Some rrs \<Rightarrow> search_records n L rrs (a # v))"
| "search_records n L [] v = Some (None, v)"
| "search_records n L (Rr_a ip # rrs) v = Some (Some ip, v)"
| "search_records n L (Rr_aaaa r # rrs) v = Some (r, v)"
| "search_records n L (Rr_other # rrs) v = search_records n L rrs v"
| "search_records n L (Rr_cname c # rrs) v =
     (case resolve_cname n L (True, c) v of
        None \<Rightarrow> None
      | Some (Some ip, v') \<Rightarrow> if ip \<noteq> [] then Some (Some ip, v') else search_records n L rrs v'
      | Some (None, v') \<Rightarrow> search_records n L rrs v')"
  by pat_completeness auto
termination
  by (relation "inv_image (less_than <*lex*> less_than)
      (\<lambda>x. case x of Inl (n, L, a, v) \<Rightarrow> (n, 0) | Inr (n, L, rrs, v) \<Rightarrow> (n, Suc (length rrs)))") auto

definition communication_allowed :: "nat \<Rightarrow> dns \<Rightarrow> pystr \<Rightarrow> bool option" where
  "communication_allowed n L address =
     (if is_ip_address address then Some (\<not> blocked_address address)
      else case resolve_cname n L (False, address) [] of
             None \<Rightarrow> None
           | Some (None, _) \<Rightarrow> Some False
           | Some (Some ip, _) \<Rightarrow> Some (is_ip_address ip \<and> \<not> blocked_address ip))"

lemmas network_eval [py_eval] = BLOCKED_IPV4_def BLOCKED_IPV6_def blocked_address_def is_ip_address_def communication_allowed_def

section \<open>The search for an address ends\<close>

lemma resolve_grows:
  "resolve_cname n L a v = Some (r, v') \<Longrightarrow> set v \<subseteq> set v'"
  "search_records n L rrs v = Some (r, v') \<Longrightarrow> set v \<subseteq> set v'"
  by (induction n L a v and n L rrs v arbitrary: r v' and r v' rule: resolve_cname_search_records.induct)
    (fastforce split: if_splits option.splits)+

definition zone_of :: "dns \<Rightarrow> (bool \<times> pystr) set \<Rightarrow> bool" where
  "zone_of L U \<longleftrightarrow> finite U \<and> (\<forall>a rrs c. L a = Some rrs \<longrightarrow> Rr_cname c \<in> set rrs \<longrightarrow> (True, c) \<in> U)"

lemma card_visit: "finite U \<Longrightarrow> a \<in> U \<Longrightarrow> a \<notin> set v \<Longrightarrow> card (U - set v) < Suc n \<Longrightarrow> card (U - set (a # v)) < n"
proof -
  assume h: "finite U" "a \<in> U" "a \<notin> set v" "card (U - set v) < Suc n"
  have "U - set (a # v) \<subset> U - set v" using h by auto
  then have "card (U - set (a # v)) < card (U - set v)" using h(1) by (intro psubset_card_mono) simp_all
  then show ?thesis using h(4) by simp
qed

lemma card_mono_visited: "finite U \<Longrightarrow> set v \<subseteq> set v' \<Longrightarrow> card (U - set v) < n \<Longrightarrow> card (U - set v') < n"
  by (rule le_less_trans [OF card_mono]) auto

lemma resolve_ends:
  "zone_of L U \<Longrightarrow> a \<in> U \<Longrightarrow> card (U - set v) < n \<Longrightarrow> resolve_cname n L a v \<noteq> None"
  "zone_of L U \<Longrightarrow> (\<forall>c. Rr_cname c \<in> set rrs \<longrightarrow> (True, c) \<in> U) \<Longrightarrow> card (U - set v) < n \<Longrightarrow> search_records n L rrs v \<noteq> None"
proof (induction n L a v and n L rrs v rule: resolve_cname_search_records.induct)
  case (2 n L a v)
  then show ?case using card_visit [of U a v n] by (auto simp: zone_of_def split: option.splits)
next
  case (7 n L c rrs v)
  have "resolve_cname n L (True, c) v \<noteq> None" using 7(1,4-6) by simp
  then obtain r v' where r: "resolve_cname n L (True, c) v = Some (r, v')" by auto
  have "card (U - set v') < n" using card_mono_visited [OF _ resolve_grows(1) [OF r] 7(6)] 7(4) by (simp add: zone_of_def)
  then show ?case using r 7(2,3) [OF r] 7(4,5) by (cases r) auto
qed auto

section \<open>What the guard lets through\<close>

inductive leads_to :: "dns \<Rightarrow> pystr \<Rightarrow> pystr \<Rightarrow> bool" for L where
  address4: "L a = Some rrs \<Longrightarrow> Rr_a ip \<in> set rrs \<Longrightarrow> leads_to L a ip"
| address6: "L a = Some rrs \<Longrightarrow> Rr_aaaa (Some ip) \<in> set rrs \<Longrightarrow> leads_to L a ip"
| canonical: "L a = Some rrs \<Longrightarrow> Rr_cname c \<in> set rrs \<Longrightarrow> leads_to L c ip \<Longrightarrow> leads_to L a ip"

lemma resolve_leads:
  "resolve_cname n L a v = Some (Some ip, v') \<Longrightarrow> leads_to L (snd a) ip"
  "search_records n L rrs v = Some (Some ip, v') \<Longrightarrow> L b = Some qs \<Longrightarrow> set rrs \<subseteq> set qs \<Longrightarrow> leads_to L b ip"
proof (induction n L a v and n L rrs v arbitrary: ip v' and ip v' b qs rule: resolve_cname_search_records.induct)
  case (2 n L a v)
  then show ?case by (auto split: if_splits option.splits)
next
  case (7 n L c rrs v)
  from 7(4) obtain r v1 where r: "resolve_cname n L (True, c) v = Some (r, v1)" by (auto split: option.splits)
  show ?case
  proof (cases "r = Some ip \<and> ip \<noteq> []")
    case True
    then have "leads_to L c ip" using 7(1) r by simp
    then show ?thesis using 7(5,6) by (auto intro: leads_to.canonical)
  next
    case False
    have c: "set rrs \<subseteq> set qs" using 7(6) by simp
    show ?thesis
    proof (cases r)
      case None
      with 7(4) r have "search_records n L rrs v1 = Some (Some ip, v')" by simp
      then show ?thesis using 7(2)[OF r] None 7(5) c by simp
    next
      case (Some x)
      with 7(4) r False have e: "x = []" "search_records n L rrs v1 = Some (Some ip, v')" by (auto split: if_splits)
      then show ?thesis using 7(3)[OF r] Some 7(5) c by simp
    qed
  qed
qed (auto intro: leads_to.intros)

lemma radix_split:
  fixes x y :: int
  assumes "0 \<le> y" "y < m"
  shows "x * m + y = c \<longleftrightarrow> x = c div m \<and> y = c mod m"
  using assms by auto

lemma octets_div:
  fixes a b c d :: int
  assumes "0 \<le> b" "b \<le> 255" "0 \<le> c" "c \<le> 255" "0 \<le> d" "d \<le> 255"
  shows "(((a * 256 + b) * 256 + c) * 256 + d) div 65536 = a * 256 + b"
    "(((a * 256 + b) * 256 + c) * 256 + d) div 1048576 = a * 16 + b div 16"
    "(((a * 256 + b) * 256 + c) * 256 + d) div 16777216 = a"
    "(((a * 256 + b) * 256 + c) * 256 + d) div 268435456 = a div 16"
proof -
  let ?v = "((a * 256 + b) * 256 + c) * 256 + d"
  have v: "?v = (a * 256 + b) * 65536 + (c * 256 + d)" "?v = a * 16777216 + (b * 65536 + c * 256 + d)" by simp_all
  have s: "0 \<le> c * 256 + d" "c * 256 + d < 65536" "0 \<le> b * 65536 + c * 256 + d" "b * 65536 + c * 256 + d < 16777216"
    using assms by simp_all
  show d16: "?v div 65536 = a * 256 + b" using s(1,2) unfolding v(1) by simp
  show d24: "?v div 16777216 = a" using s(3,4) unfolding v(2) by simp
  have "?v div 1048576 = ?v div 65536 div 16" by (simp add: zdiv_zmult2_eq [symmetric])
  then show "?v div 1048576 = a * 16 + b div 16" unfolding d16 by simp
  have "?v div 268435456 = ?v div 16777216 div 16" by (simp add: zdiv_zmult2_eq [symmetric])
  then show "?v div 268435456 = a div 16" unfolding d24 .
qed

definition public_octets :: "int list \<Rightarrow> bool" where
  "public_octets os =
     (case os of
        [a, b, c, d] \<Rightarrow> a \<notin> {0, 10, 127} \<and> a < 224 \<and> \<not> (a = 172 \<and> 16 \<le> b \<and> b \<le> 31) \<and> \<not> (a = 192 \<and> b = 168) \<and>
          \<not> (a = 169 \<and> b = 254) \<and> os \<noteq> [100, 100, 100, 200]
      | _ \<Rightarrow> False)"

lemma blocked_octets:
  assumes "is_ipv4 s"
  shows "\<not> blocked_address s \<longleftrightarrow> public_octets (map (dec_value 0) (split_on 46 s))"
proof -
  obtain p q r t where ps: "split_on 46 s = [p, q, r, t]"
    using assms by (auto simp: is_ipv4_def numeral_eq_Suc length_Suc_conv)
  let ?a = "dec_value 0 p" and ?b = "dec_value 0 q" and ?c = "dec_value 0 r" and ?d = "dec_value 0 t"
  have rng: "0 \<le> dec_value 0 x \<and> dec_value 0 x \<le> 255" if "x \<in> set [p, q, r, t]" for x
    using assms that dec_value_nonneg [of 0 x] by (auto simp: is_ipv4_def ps octet_ok_def)
  have v: "ipv4_value s = ((?a * 256 + ?b) * 256 + ?c) * 256 + ?d" by (simp add: ipv4_value_def ps)
  note o = octets_div [of ?b ?c ?d ?a, folded v]
  have a: "0 \<le> ?a" "?a \<le> 255" and b: "0 \<le> ?b" "?b \<le> 255" and c: "0 \<le> ?c" "?c \<le> 255" and d: "0 \<le> ?d" "?d \<le> 255"
    using rng [of p] rng [of q] rng [of r] rng [of t] by simp_all
  note o = o [OF b c d]
  have cd: "c' = 100 \<and> d' = 200" if "c' * 256 + d' = 25800" "0 \<le> d'" "d' \<le> 255" for c' d' :: int
    using radix_split [of d' 256 c' 25800] that by simp
  have w: "ipv4_value s = 1684301000 \<longleftrightarrow> ?a = 100 \<and> ?b = 100 \<and> ?c = 100 \<and> ?d = 200"
  proof
    assume e: "ipv4_value s = 1684301000"
    have a': "?a = 100" and b': "?b = 100" using o(1,3) unfolding e by simp_all
    then show "?a = 100 \<and> ?b = 100 \<and> ?c = 100 \<and> ?d = 200" using e cd [of ?c ?d] d unfolding v by simp
  qed (simp add: v)
  have w2: "?a = 255" if "ipv4_value s = 4294967295" using o(3) unfolding that by simp
  have q16: "16 * (x div 16) \<le> x \<and> x \<le> 16 * (x div 16) + 15" for x :: int
    using pos_mod_sign [of 16 x] pos_mod_bound [of 16 x] mult_div_mod_eq [of 16 x] by linarith
  have hi: "?a div 16 = 14 \<or> ?a div 16 = 15 \<longleftrightarrow> 224 \<le> ?a" using q16 [of ?a] a by linarith
  have g: "x * 16 + y = 2753 \<longleftrightarrow> x = 172 \<and> y = 1" if "0 \<le> y" "y \<le> 15" for x y :: int using radix_split [of y 16 x] that by simp
  have h: "x * 256 + y = 49320 \<longleftrightarrow> x = 192 \<and> y = 168" "x * 256 + y = 43518 \<longleftrightarrow> x = 169 \<and> y = 254"
    if "0 \<le> y" "y \<le> 255" for x y :: int using radix_split [of y 256 x] that by simp_all
  have "0 \<le> ?b div 16" "?b div 16 \<le> 15" "?b div 16 = 1 \<longleftrightarrow> 16 \<le> ?b \<and> ?b \<le> 31" using q16 [of ?b] b by linarith+
  then have b12: "?a * 16 + ?b div 16 = 2753 \<longleftrightarrow> ?a = 172 \<and> 16 \<le> ?b \<and> ?b \<le> 31" using g [of "?b div 16" ?a] by simp
  note b16 = h [OF b, of ?a]
  have "blocked_address s \<longleftrightarrow> ?a = 0 \<or> ?a = 10 \<or> ?a * 16 + ?b div 16 = 2753 \<or> ?a * 256 + ?b = 49320 \<or> ?a * 256 + ?b = 43518 \<or>
      ipv4_value s = 1684301000 \<or> ?a = 127 \<or> ?a div 16 = 14 \<or> ?a div 16 = 15 \<or> ipv4_value s = 4294967295"
    using assms by (simp add: blocked_address_def BLOCKED_IPV4_def net4_def in_network_def o) blast
  moreover have "224 \<le> ?a" if "ipv4_value s = 4294967295" using w2 [OF that] by simp
  ultimately have "blocked_address s \<longleftrightarrow> ?a = 0 \<or> ?a = 10 \<or> ?a = 127 \<or> 224 \<le> ?a \<or> (?a = 172 \<and> 16 \<le> ?b \<and> ?b \<le> 31) \<or>
      (?a = 192 \<and> ?b = 168) \<or> (?a = 169 \<and> ?b = 254) \<or> (?a = 100 \<and> ?b = 100 \<and> ?c = 100 \<and> ?d = 200)"
    unfolding b12 b16 w hi [symmetric] by blast
  then show ?thesis by (simp only: public_octets_def ps list.map list.case list.inject insert_iff empty_iff not_le [symmetric] simp_thms)
      blast
qed

text \<open>
  C18. When the names that records point to are finitely many, the outbound guard answers, with lookups
  nested no deeper than the number of names, circular aliases included; and when it says yes, there is an address, the text
  itself or one the name leads to through the records, that it has seen, that is an IP address, and
  that, if it is an IPv4 address, is in none of the private, loopback, link-local, metadata,
  multicast and reserved ranges.
\<close>

theorem guard_decides:
  assumes "zone_of L U" "(False, address) \<in> U" "card U < n"
  shows "\<exists>b. communication_allowed n L address = Some b \<and>
    (b \<longrightarrow> (\<exists>ip. (if is_ip_address address then ip = address else leads_to L address ip) \<and> is_ip_address ip \<and>
       (is_ipv4 ip \<longrightarrow> public_octets (map (dec_value 0) (split_on 46 ip)))))"
proof (cases "is_ip_address address")
  case True
  then show ?thesis using blocked_octets by (auto simp: communication_allowed_def)
next
  case False
  have "resolve_cname n L (False, address) [] \<noteq> None" using resolve_ends(1) [of L U "(False, address)" "[]" n] assms by simp
  then obtain r v where r: "resolve_cname n L (False, address) [] = Some (r, v)" by auto
  show ?thesis
  proof (cases r)
    case None
    then have "communication_allowed n L address = Some False" using False r by (simp add: communication_allowed_def)
    then show ?thesis by blast
  next
    case (Some ip)
    then have "leads_to L address ip" using resolve_leads(1) [of n L "(False, address)"] r by simp
    then show ?thesis using Some False r blocked_octets [of ip] by (auto simp: communication_allowed_def)
  qed
qed

definition demo_dns :: dns where
  "demo_dns a =
     (if a = u ''x'' then Some [Rr_cname (u ''y'')] else if a = u ''y'' then Some [Rr_cname (u ''x''), Rr_other, Rr_a (u ''8.8.8.8'')] else None)"

lemma demo_zone: "zone_of demo_dns {(False, u ''x''), (True, u ''x''), (True, u ''y'')}"
  by (auto simp: zone_of_def demo_dns_def split: if_splits)

theorem guard_decides_witness:
  "communication_allowed 4 demo_dns (u ''x'') = Some True \<and>
   (\<exists>ip. leads_to demo_dns (u ''x'') ip \<and> is_ip_address ip \<and> (is_ipv4 ip \<longrightarrow> public_octets (map (dec_value 0) (split_on 46 ip))))"
proof -
  have e: "communication_allowed 4 demo_dns (u ''x'') = Some True" by code_simp
  have n: "\<not> is_ip_address (u ''x'')" by code_simp
  have "card {(False, u ''x''), (True, u ''x''), (True, u ''y'')} < 4"
    by (simp add: card_insert_if)
  from guard_decides [OF demo_zone _ this, of "u ''x''"] e n show ?thesis by auto
qed

section \<open>What it does not see\<close>

text \<open>Of the IPv6 addresses only the loopback address is blocked: private, link-local, unspecified and IPv4-mapped ones are not.\<close>

lemma ipv6_ranges_allowed:
  "communication_allowed n L (u ''::'') = Some True"
  "communication_allowed n L (u ''fe80::1'') = Some True"
  "communication_allowed n L (u ''fd00::1'') = Some True"
  "communication_allowed n L (u ''::ffff:127.0.0.1'') = Some True"
  "communication_allowed n L (u ''::ffff:169.254.169.254'') = Some True"
proof -
  have "is_ip_address (u ''::'') \<and> \<not> blocked_address (u ''::'')" by code_simp
  moreover have "is_ip_address (u ''fe80::1'') \<and> \<not> blocked_address (u ''fe80::1'')" by code_simp
  moreover have "is_ip_address (u ''fd00::1'') \<and> \<not> blocked_address (u ''fd00::1'')" by code_simp
  moreover have "is_ip_address (u ''::ffff:127.0.0.1'') \<and> \<not> blocked_address (u ''::ffff:127.0.0.1'')" by code_simp
  moreover have "is_ip_address (u ''::ffff:169.254.169.254'') \<and> \<not> blocked_address (u ''::ffff:169.254.169.254'')" by code_simp
  ultimately show
    "communication_allowed n L (u ''::'') = Some True"
    "communication_allowed n L (u ''fe80::1'') = Some True"
    "communication_allowed n L (u ''fd00::1'') = Some True"
    "communication_allowed n L (u ''::ffff:127.0.0.1'') = Some True"
    "communication_allowed n L (u ''::ffff:169.254.169.254'') = Some True"
    by (simp_all add: communication_allowed_def)
qed

end
