(* ===== verification/Rate_Limiter.thy ===== *)
theory Rate_Limiter
  imports Py_Value "HOL-Library.Multiset"
begin

text \<open>
  \<^verbatim>\<open>sensor/cowrie/src/cowrie/core/rate_limiter.py\<close>: the limiter that keeps the emulated
  downloaders from being turned against third parties.  The clock is the argument \<open>now\<close>; the tracker
  is a \<^verbatim>\<open>defaultdict(list)\<close>, kept as the list of its items in insertion order, where reading a
  missing key inserts it.
\<close>

record limiter =
  rl_enabled :: bool
  rl_max_requests :: int
  rl_window :: int
  rl_max_keys :: int
  rl_tracker :: "(pystr \<times> rat list) list"
  rl_last_cleanup :: rat

definition limiter_init :: "bool \<Rightarrow> int \<Rightarrow> int \<Rightarrow> int \<Rightarrow> rat \<Rightarrow> limiter" where
  "limiter_init on maxr win maxk now =
     \<lparr>rl_enabled = on, rl_max_requests = maxr, rl_window = win, rl_max_keys = maxk, rl_tracker = [],
      rl_last_cleanup = now\<rparr>"

definition tracked :: "(pystr \<times> rat list) list \<Rightarrow> pystr \<Rightarrow> rat list" where
  "tracked tr k = (case map_of tr k of None \<Rightarrow> [] | Some l \<Rightarrow> l)"

definition recent :: "int \<Rightarrow> rat \<Rightarrow> rat \<Rightarrow> bool" where
  "recent win now t \<longleftrightarrow> now - t < of_int win"

definition cleanup_all :: "int \<Rightarrow> rat \<Rightarrow> (pystr \<times> rat list) list \<Rightarrow> (pystr \<times> rat list) list" where
  "cleanup_all win now tr =
     filter (\<lambda>(k, l). l \<noteq> []) (map (\<lambda>(k, l). (k, filter (recent win now) l)) tr)"

text \<open>The keys by their latest activity, oldest first; the sort is stable.\<close>

definition latest_activity :: "rat list \<Rightarrow> rat" where
  "latest_activity l = (if l = [] then 0 else Max (set l))"

definition remove_oldest_keys :: "(pystr \<times> rat list) list \<Rightarrow> (pystr \<times> rat list) list" where
  "remove_oldest_keys tr =
     (if tr = [] then []
      else
        (let by_age = map fst (sort_key snd (map (\<lambda>(k, l). (k, latest_activity l)) tr));
             gone = take (max 1 (length by_age div 10)) by_age
         in filter (\<lambda>(k, l). k \<notin> set gone) tr))"

definition check :: "rat \<Rightarrow> pystr \<Rightarrow> limiter \<Rightarrow> bool \<times> limiter" where
  "check now k rl =
     (if \<not> rl_enabled rl then (True, rl)
      else
        (let stale = of_int (rl_window rl) < now - rl_last_cleanup rl;
             tr0 = (if stale then cleanup_all (rl_window rl) now (rl_tracker rl) else rl_tracker rl);
             rl0 = (if stale then rl\<lparr>rl_last_cleanup := now\<rparr> else rl);
             tr1 = AList.update k (filter (recent (rl_window rl) now) (tracked tr0 k)) tr0;
             tr2 = (if rl_max_keys rl < int (length tr1) then remove_oldest_keys tr1 else tr1);
             mine = tracked tr2 k
         in if rl_max_requests rl \<le> int (length mine)
            then (False, rl0\<lparr>rl_tracker := AList.update k mine tr2\<rparr>)
            else (True, rl0\<lparr>rl_tracker := AList.update k (mine @ [now]) tr2\<rparr>)))"

definition limiter_reset :: "rat \<Rightarrow> limiter \<Rightarrow> limiter" where
  "limiter_reset now rl = rl\<lparr>rl_tracker := [], rl_last_cleanup := now\<rparr>"

section \<open>The tracker as a map\<close>

lemma tracked_update [simp]: "tracked (AList.update k l tr) k' = (if k' = k then l else tracked tr k')"
  by (simp add: tracked_def update_conv')

lemma tracked_cleanup:
  "distinct (map fst tr) \<Longrightarrow> tracked (cleanup_all win now tr) k = filter (recent win now) (tracked tr k)"
proof (induction tr)
  case (Cons kv tr)
  obtain a l where kv: "kv = (a, l)" by (cases kv)
  have "map_of (cleanup_all win now tr) a = None" if "a \<notin> fst ` set tr"
    using that by (force simp: map_of_eq_None_iff cleanup_all_def)
  with Cons show ?case by (auto simp: kv cleanup_all_def tracked_def)
qed (simp add: cleanup_all_def tracked_def)

lemma cleanup_keys: "distinct (map fst tr) \<Longrightarrow>
    distinct (map fst (cleanup_all win now tr)) \<and> set (map fst (cleanup_all win now tr)) \<subseteq> set (map fst tr) \<and>
    length (cleanup_all win now tr) \<le> length tr"
proof (intro conjI)
  have m: "map fst (map (\<lambda>(k, l). (k, filter (recent win now) l)) tr) = map fst tr"
    by (simp add: case_prod_unfold)
  assume "distinct (map fst tr)"
  then show "distinct (map fst (cleanup_all win now tr))"
    unfolding cleanup_all_def by (intro distinct_map_filter) (simp only: m)
  show "set (map fst (cleanup_all win now tr)) \<subseteq> set (map fst tr)"
    by (force simp: cleanup_all_def)
  show "length (cleanup_all win now tr) \<le> length tr"
    unfolding cleanup_all_def by (rule order.trans [OF length_filter_le]) simp
qed

lemma update_keys:
  "distinct (map fst tr) \<Longrightarrow> distinct (map fst (AList.update k l tr))"
  "set (map fst (AList.update k l tr)) = insert k (set (map fst tr))"
  "length (AList.update k l tr) \<le> Suc (length tr)"
  "k \<in> set (map fst tr) \<Longrightarrow> length (AList.update k l tr) = length tr"
proof -
  show "distinct (map fst tr) \<Longrightarrow> distinct (map fst (AList.update k l tr))" by (rule distinct_update)
  show "set (map fst (AList.update k l tr)) = insert k (set (map fst tr))"
    using dom_update [of k l tr] by (simp add: dom_map_of_conv_image_fst [symmetric] flip: dom_map_of_conv_image_fst)
  show "length (AList.update k l tr) \<le> Suc (length tr)" by (induction tr) auto
  show "k \<in> set (map fst tr) \<Longrightarrow> length (AList.update k l tr) = length tr" by (induction tr) auto
qed

section \<open>The limit\<close>

text \<open>A run of checks at given times, with the list of the requests that were let through.\<close>

fun run_checks :: "(rat \<times> pystr) list \<Rightarrow> limiter \<Rightarrow> (rat \<times> pystr) list \<Rightarrow> limiter \<times> (rat \<times> pystr) list" where
  "run_checks [] rl lg = (rl, lg)"
| "run_checks ((t, k) # es) rl lg =
     (let (ok, rl') = check t k rl in run_checks es rl' (if ok then lg @ [(t, k)] else lg))"

definition times_of :: "pystr \<Rightarrow> (rat \<times> pystr) list \<Rightarrow> rat list" where
  "times_of k lg = map fst (filter (\<lambda>e. snd e = k) lg)"

lemma times_of_append [simp]: "times_of k (lg @ lg') = times_of k lg @ times_of k lg'"
  by (simp add: times_of_def)

text \<open>The requests of a key in the window that ends at \<open>t\<close>.\<close>

definition in_window :: "int \<Rightarrow> rat \<Rightarrow> rat list \<Rightarrow> rat list" where
  "in_window win t l = filter (\<lambda>s. t - of_int win < s \<and> s \<le> t) l"

definition limit_inv :: "pystr set \<Rightarrow> rat \<Rightarrow> limiter \<Rightarrow> (rat \<times> pystr) list \<Rightarrow> bool" where
  "limit_inv K now rl lg \<longleftrightarrow> rl_enabled rl \<and> distinct (map fst (rl_tracker rl)) \<and> fst ` set (rl_tracker rl) \<subseteq> K \<and>
     (\<forall>e \<in> set lg. fst e \<le> now) \<and>
     (\<forall>k. filter (recent (rl_window rl) now) (tracked (rl_tracker rl) k) = filter (recent (rl_window rl) now) (times_of k lg)) \<and>
     (\<forall>k t. length (in_window (rl_window rl) t (times_of k lg)) \<le> nat (rl_max_requests rl))"

lemma recent_later: "now \<le> now' \<Longrightarrow> recent win now' s \<Longrightarrow> recent win now s"
  by (simp add: recent_def)

lemma recent_filter:
  assumes "now \<le> now'" "filter (recent win now) l = filter (recent win now) m"
  shows "filter (recent win now') l = filter (recent win now') m"
proof -
  have "filter (recent win now') l = filter (recent win now') (filter (recent win now) l)" for l
    using recent_later [OF assms(1), of win] by (auto simp: intro: filter_cong)
  then show ?thesis using assms(2) by metis
qed

lemma window_after_append:
  assumes "\<forall>s \<in> set l. s \<le> now" "length (filter (recent win now) l) < n"
    and "\<And>t. length (in_window win t l) \<le> n"
  shows "length (in_window win t (l @ [now])) \<le> n"
proof (cases "now \<le> t")
  case True
  have "length (in_window win t (l @ [now])) \<le> length (filter (recent win now) (l @ [now]))"
    unfolding in_window_def length_filter_conv_card
    using True by (intro card_mono) (auto simp: recent_def)
  also have "\<dots> \<le> length (filter (recent win now) l) + 1" by simp
  finally show ?thesis using assms(2) by linarith
next
  case False
  then have "in_window win t (l @ [now]) = in_window win t l" by (simp add: in_window_def)
  with assms(3) show ?thesis by simp
qed

lemma check_unfold:
  assumes "rl_enabled rl" "distinct (map fst (rl_tracker rl))" "fst ` set (rl_tracker rl) \<subseteq> K" "k \<in> K"
    and "finite K" "int (card K) \<le> rl_max_keys rl"
  shows "\<exists>tr. distinct (map fst tr) \<and> fst ` set tr \<subseteq> K \<and>
    (\<forall>k'. filter (recent (rl_window rl) now) (tracked tr k') = filter (recent (rl_window rl) now) (tracked (rl_tracker rl) k')) \<and>
    tracked tr k = filter (recent (rl_window rl) now) (tracked (rl_tracker rl) k) \<and>
    check now k rl =
      (let l = filter (recent (rl_window rl) now) (tracked (rl_tracker rl) k);
           rl0 = (if of_int (rl_window rl) < now - rl_last_cleanup rl then rl\<lparr>rl_last_cleanup := now\<rparr> else rl) in
       if rl_max_requests rl \<le> int (length l) then (False, rl0\<lparr>rl_tracker := tr\<rparr>)
       else (True, rl0\<lparr>rl_tracker := AList.update k (l @ [now]) tr\<rparr>))"
proof -
  let ?w = "rl_window rl"
  define tr0 where "tr0 = (if of_int ?w < now - rl_last_cleanup rl then cleanup_all ?w now (rl_tracker rl) else rl_tracker rl)"
  let ?l = "filter (recent ?w now) (tracked tr0 k)"
  define tr1 where "tr1 = AList.update k ?l tr0"
  have d0: "distinct (map fst tr0)" "fst ` set tr0 \<subseteq> K"
    using assms(2,3) cleanup_keys [OF assms(2), of ?w now] unfolding tr0_def set_map
    by (simp_all, blast intro: order.trans)
  have t0: "filter (recent ?w now) (tracked tr0 k') = filter (recent ?w now) (tracked (rl_tracker rl) k')" for k'
    by (simp add: tr0_def tracked_cleanup [OF assms(2)])
  have d1: "distinct (map fst tr1)" "fst ` set tr1 \<subseteq> K"
    using d0 assms(4) update_keys [where tr = tr0 and k = k and l = ?l] by (simp_all add: tr1_def)
  have "length tr1 = card (fst ` set tr1)" using distinct_card [OF d1(1)] by simp
  also have "\<dots> \<le> card K" by (rule card_mono [OF assms(5) d1(2)])
  finally have no: "\<not> rl_max_keys rl < int (length tr1)" using assms(6) by linarith
  have id: "AList.update k (tracked tr1 k) tr1 = tr1"
    unfolding tr1_def by (simp add: tracked_update update_last update_swap)
  have tk: "tracked tr1 k = filter (recent ?w now) (tracked (rl_tracker rl) k)"
    using t0 by (simp add: tr1_def)
  have c: "check now k rl =
      (let l = filter (recent ?w now) (tracked (rl_tracker rl) k);
           rl0 = (if of_int ?w < now - rl_last_cleanup rl then rl\<lparr>rl_last_cleanup := now\<rparr> else rl) in
       if rl_max_requests rl \<le> int (length l) then (False, rl0\<lparr>rl_tracker := tr1\<rparr>)
       else (True, rl0\<lparr>rl_tracker := AList.update k (l @ [now]) tr1\<rparr>))"
    unfolding check_def Let_def tr0_def [symmetric] tr1_def [symmetric] tk
    using assms(1) no id by (simp add: tk)
  show ?thesis
    using d1 c t0 by (intro exI [of _ tr1] conjI) (simp_all add: tr1_def)
qed

lemma check_inv:
  assumes "limit_inv K now0 rl lg" "now0 \<le> now" "k \<in> K" "finite K" "int (card K) \<le> rl_max_keys rl"
    and "check now k rl = (ok, rl')"
  shows "limit_inv K now rl' (if ok then lg @ [(now, k)] else lg)"
    "rl_window rl' = rl_window rl" "rl_max_requests rl' = rl_max_requests rl" "rl_max_keys rl' = rl_max_keys rl"
proof -
  let ?w = "rl_window rl" and ?n = "nat (rl_max_requests rl)"
  note inv0 = assms(1) [unfolded limit_inv_def]
  have inv: "rl_enabled rl" "distinct (map fst (rl_tracker rl))" "fst ` set (rl_tracker rl) \<subseteq> K"
    "\<forall>e \<in> set lg. fst e \<le> now"
    "\<And>k. filter (recent ?w now) (tracked (rl_tracker rl) k) = filter (recent ?w now) (times_of k lg)"
    "\<And>k t. length (in_window ?w t (times_of k lg)) \<le> ?n"
  proof -
    show "filter (recent ?w now) (tracked (rl_tracker rl) k) = filter (recent ?w now) (times_of k lg)" for k
      by (rule recent_filter [OF assms(2)]) (use inv0 in blast)
    show "\<forall>e \<in> set lg. fst e \<le> now" using inv0 assms(2) by force
  qed (use inv0 in simp_all)
  obtain tr where tr: "distinct (map fst tr)" "fst ` set tr \<subseteq> K"
    "\<And>k'. filter (recent ?w now) (tracked tr k') = filter (recent ?w now) (times_of k' lg)"
    "tracked tr k = filter (recent ?w now) (times_of k lg)"
    and c: "check now k rl =
      (let l = filter (recent ?w now) (times_of k lg);
           rl0 = (if of_int ?w < now - rl_last_cleanup rl then rl\<lparr>rl_last_cleanup := now\<rparr> else rl) in
       if rl_max_requests rl \<le> int (length l) then (False, rl0\<lparr>rl_tracker := tr\<rparr>)
       else (True, rl0\<lparr>rl_tracker := AList.update k (l @ [now]) tr\<rparr>))"
    using check_unfold [OF inv(1-3) assms(3-5), of now] unfolding inv(5) by auto
  let ?l = "filter (recent ?w now) (times_of k lg)"
  have le: "\<forall>s \<in> set (times_of k lg). s \<le> now" for k
    using inv(4) by (auto simp: times_of_def)
  show "rl_window rl' = rl_window rl" "rl_max_requests rl' = rl_max_requests rl" "rl_max_keys rl' = rl_max_keys rl"
    using assms(6) unfolding c by (auto simp: Let_def split: if_splits)
  show "limit_inv K now rl' (if ok then lg @ [(now, k)] else lg)"
  proof (cases "rl_max_requests rl \<le> int (length ?l)")
    case True
    with assms(6) have "\<not> ok" "rl_tracker rl' = tr" "rl_enabled rl'" "rl_window rl' = ?w" "rl_max_requests rl' = rl_max_requests rl"
      unfolding c using inv(1) by (auto simp: Let_def split: if_splits)
    with tr inv show ?thesis by (simp add: limit_inv_def)
  next
    case False
    then have small: "length ?l < ?n" by linarith
    from False assms(6) have r: "ok" "rl_tracker rl' = AList.update k (?l @ [now]) tr" "rl_enabled rl'"
      "rl_window rl' = ?w" "rl_max_requests rl' = rl_max_requests rl"
      unfolding c using inv(1) by (auto simp: Let_def split: if_splits)
    have t: "times_of k' (lg @ [(now, k)]) = (if k' = k then times_of k lg @ [now] else times_of k' lg)" for k'
      by (auto simp: times_of_def)
    have w: "length (in_window ?w t (times_of k' (lg @ [(now, k)]))) \<le> ?n" for t k'
      unfolding t using window_after_append [OF le small inv(6)] inv(6) by simp
    have f: "filter (recent ?w now) (tracked (rl_tracker rl') k') = filter (recent ?w now) (times_of k' (lg @ [(now, k)]))" for k'
      unfolding r(2) t using tr(3) [of k'] by simp
    show ?thesis
      using r w f tr(1,2) assms(3) inv(4) update_keys [where tr = tr and k = k and l = "?l @ [now]"] by (simp add: limit_inv_def)
  qed
qed

text \<open>
  The limit is kept: as long as no more hosts are asked for than the tracker has room for, and the
  clock does not run backwards, no window of the configured length, wherever it ends, holds more
  requests to one host than the limit allows.
\<close>

theorem rate_limit_respected:
  assumes "limiter_init True maxr win maxk t0 = rl" "sorted (t0 # map fst es)"
    and "int (card (snd ` set es)) \<le> maxk"
    and "run_checks es rl [] = (rl', lg)"
  shows "length (in_window win t (times_of k lg)) \<le> nat maxr"
proof -
  let ?K = "snd ` set es"
  have run: "limit_inv ?K (last (now # map fst es')) rl' lg \<and> rl_window rl' = rl_window rl \<and> rl_max_requests rl' = rl_max_requests rl"
    if "limit_inv ?K now rl lg0" "sorted (now # map fst es')" "snd ` set es' \<subseteq> ?K" "int (card ?K) \<le> rl_max_keys rl"
      "run_checks es' rl lg0 = (rl', lg)" for es' now rl lg0
    using that
  proof (induction es' arbitrary: now rl lg0)
    case (Cons e es')
    obtain t k where e: "e = (t, k)" by (cases e)
    obtain ok rl1 where c: "check t k rl = (ok, rl1)" by (cases "check t k rl")
    have "now \<le> t" "k \<in> ?K" using Cons.prems(2,3) e by auto
    note i = check_inv [OF Cons.prems(1) this _ Cons.prems(4) c]
    have "run_checks es' rl1 (if ok then lg0 @ [(t, k)] else lg0) = (rl', lg)"
      using Cons.prems(5) c by (simp add: e)
    with Cons.IH [OF i(1) _ _ _ this] i(2-4) Cons.prems(2-4) e show ?case by auto
  qed simp
  have i0: "limit_inv ?K t0 rl []"
    using assms(1) by (auto simp: limiter_init_def limit_inv_def tracked_def times_of_def in_window_def)
  have "rl_max_keys rl = maxk" "rl_window rl = win" "rl_max_requests rl = maxr"
    using assms(1) by (auto simp: limiter_init_def)
  with run [OF i0 assms(2) order.refl _ assms(4)] assms(3) show ?thesis
    by (auto simp: limit_inv_def)
qed

section \<open>The size of the tracker\<close>

lemma remove_oldest_length:
  assumes "distinct (map fst tr)" "tr \<noteq> []"
  shows "length (remove_oldest_keys tr) + max 1 (length tr div 10) = length tr"
proof -
  let ?by = "map fst (sort_key snd (map (\<lambda>(k, l). (k, latest_activity l)) tr))"
  let ?gone = "take (max 1 (length tr div 10)) ?by"
  have p: "mset ?by = mset (map fst tr)"
    by (simp add: case_prod_unfold image_mset.compositionality comp_def)
  have s: "set ?by = set (map fst tr)" "length ?by = length tr" "distinct ?by"
    using mset_eq_setD [OF p] mset_eq_length [OF p] mset_eq_imp_distinct_iff [OF p] assms(1) by simp_all
  have "length tr div 10 \<le> length tr" by simp
  then have n: "length ?gone = max 1 (length tr div 10)" using assms(2) by (cases tr) simp_all
  have g: "set ?gone \<subseteq> set (map fst tr)" using s(1) set_take_subset by fastforce
  have "length (filter (\<lambda>k. k \<in> set ?gone) (map fst tr)) = card (set (filter (\<lambda>k. k \<in> set ?gone) (map fst tr)))"
    by (rule distinct_card [OF distinct_filter [OF assms(1)], symmetric])
  also have "set (filter (\<lambda>k. k \<in> set ?gone) (map fst tr)) = set ?gone" using g by (simp only: set_filter) blast
  also have "card (set ?gone) = max 1 (length tr div 10)" using distinct_card [OF distinct_take [OF s(3)]] n by simp
  finally have "length (filter (\<lambda>k. k \<in> set ?gone) (map fst tr)) = max 1 (length tr div 10)" .
  then have "length (filter (\<lambda>(k, l). k \<in> set ?gone) tr) = max 1 (length tr div 10)"
    by (simp add: filter_map comp_def case_prod_unfold)
  moreover have "length (filter (\<lambda>(k, l). k \<in> set ?gone) tr) + length (filter (\<lambda>(k, l). k \<notin> set ?gone) tr) = length tr"
    using sum_length_filter_compl [of "\<lambda>(k, l). k \<in> set ?gone" tr] by (simp add: case_prod_unfold)
  ultimately show ?thesis using assms(2) s(2) by (simp add: remove_oldest_keys_def Let_def)
qed

lemma remove_oldest_keys_sub:
  "distinct (map fst tr) \<Longrightarrow> distinct (map fst (remove_oldest_keys tr)) \<and> set (remove_oldest_keys tr) \<subseteq> set tr"
  by (auto simp: remove_oldest_keys_def Let_def intro: distinct_map_filter)

definition tracker_ok :: "limiter \<Rightarrow> bool" where
  "tracker_ok rl \<longleftrightarrow> distinct (map fst (rl_tracker rl)) \<and> int (length (rl_tracker rl)) \<le> rl_max_keys rl"

text \<open>
  The tracker stays within its configured size, if that is at least 19: from there on one
  eviction frees two places, and so makes room for the key that is being checked even when that key
  is itself among the evicted.
\<close>

theorem tracker_bounded:
  assumes "tracker_ok rl" "19 \<le> rl_max_keys rl" "check now k rl = (ok, rl')"
  shows "tracker_ok rl'"
proof (cases "rl_enabled rl")
  case False
  with assms show ?thesis by (simp add: check_def)
next
  case True
  let ?w = "rl_window rl" and ?m = "rl_max_keys rl"
  define tr0 where "tr0 = (if of_int ?w < now - rl_last_cleanup rl then cleanup_all ?w now (rl_tracker rl) else rl_tracker rl)"
  define tr1 where "tr1 = AList.update k (filter (recent ?w now) (tracked tr0 k)) tr0"
  define tr2 where "tr2 = (if ?m < int (length tr1) then remove_oldest_keys tr1 else tr1)"
  have d: "distinct (map fst (rl_tracker rl))" "int (length (rl_tracker rl)) \<le> ?m"
    using assms(1) by (simp_all add: tracker_ok_def)
  have d0: "distinct (map fst tr0)" "int (length tr0) \<le> ?m"
    using d cleanup_keys [OF d(1), of ?w now] by (auto simp: tr0_def)
  have d1: "distinct (map fst tr1)" "int (length tr1) \<le> ?m + 1" "k \<in> set (map fst tr1)" "tr1 \<noteq> []"
    using d0 update_keys(1-3) [where tr = tr0 and k = k and l = "filter (recent ?w now) (tracked tr0 k)"]
    by (auto simp: tr1_def)
  have d2: "distinct (map fst (AList.update k l tr2))" "int (length (AList.update k l tr2)) \<le> ?m" for l
  proof -
    show "distinct (map fst (AList.update k l tr2))"
      using d1(1) remove_oldest_keys_sub [OF d1(1)] by (simp add: tr2_def distinct_update)
    show "int (length (AList.update k l tr2)) \<le> ?m"
    proof (cases "?m < int (length tr1)")
      case True
      then have "20 \<le> length tr1" using assms(2) by linarith
      then have "2 \<le> max 1 (length tr1 div 10)" by linarith
      with remove_oldest_length [OF d1(1,4)] have "length tr2 + 2 \<le> length tr1" using True by (simp add: tr2_def)
      with update_keys(3) [of k l tr2] d1(2) show ?thesis by linarith
    next
      case False
      with update_keys(4) [OF d1(3), of l] show ?thesis by (simp add: tr2_def)
    qed
  qed
  have "\<exists>l. rl_tracker rl' = AList.update k l tr2" "rl_max_keys rl' = ?m"
    using assms(3) True unfolding check_def Let_def tr0_def [symmetric] tr1_def [symmetric] tr2_def [symmetric]
    by (auto split: if_splits)
  with d2 show ?thesis by (auto simp: tracker_ok_def)
qed

text \<open>
  Below 19 it does not: a new key has no activity yet, so it is the one evicted and comes straight
  back, and the tracker grows with every new host.
\<close>

definition tiny_limiter :: limiter where
  "tiny_limiter = limiter_init True 5 60 1 0"

lemma tracker_grows_below_19:
  "length (rl_tracker (fst (run_checks [(1, u ''a''), (2, u ''b''), (3, u ''c''), (4, u ''d'')] tiny_limiter []))) = 4"
  by code_simp

section \<open>Witnesses\<close>

theorem rate_limit_respected_witness:
  "\<exists>rl lg. run_checks [(1, u ''a''), (2, u ''a''), (3, u ''a''), (3, u ''b'')] (limiter_init True 2 60 10 0) [] = (rl, lg) \<and>
     length lg = 3 \<and> length (in_window 60 3 (times_of (u ''a'') lg)) \<le> 2"
proof -
  let ?r = "run_checks [(1, u ''a''), (2, u ''a''), (3, u ''a''), (3, u ''b'')] (limiter_init True 2 60 10 0) []"
  obtain rl lg where r: "?r = (rl, lg)" by (cases ?r)
  have "length (snd ?r) = 3" by code_simp
  with rate_limit_respected [OF refl _ _ r, of 3 "u ''a''"] r show ?thesis by simp
qed

theorem tracker_bounded_witness:
  "\<exists>ok rl. check 1 (u ''a'') (limiter_init True 2 60 1000 0) = (ok, rl) \<and> tracker_ok rl \<and> ok"
proof -
  let ?r = "check 1 (u ''a'') (limiter_init True 2 60 1000 0)"
  obtain ok rl where r: "?r = (ok, rl)" by (cases ?r)
  have "fst ?r" by code_simp
  moreover have "tracker_ok rl"
    by (rule tracker_bounded [OF _ _ r]) (simp_all add: tracker_ok_def limiter_init_def)
  ultimately show ?thesis using r by (intro exI [of _ ok] exI [of _ rl]) simp
qed

end
