(* ===== verification/Wget.thy ===== *)
theory Wget
  imports Network Rate_Limiter Fs_Commands Shell_Pipe
begin

text \<open>
  \<^verbatim>\<open>sensor/cowrie/src/cowrie/commands/wget.py\<close>: the emulated downloader, which fetches what an attacker asks for and
  keeps it.  The calls into treq and the FTP client are recorded, and what comes back is a sequence of
  events: the response with its length, pieces of the body, the end, an error.  The answer of
  \<^verbatim>\<open>communication_allowed\<close>, the formatted time, percent decoding, the name of the temporary file and the
  results of floating-point arithmetic that the progress lines show are parameters.
\<close>

datatype wget_error = Wg_fs fs_error | Wg_value | Wg_zero_division | Wg_os | Wg_attribute

datatype contact = Http_get pystr | Ftp_connect pystr int pystr pystr pystr pystr   \<comment> \<open>host, port, user, password, directory, file\<close>

datatype wget_event = Downloaded pystr pystr pystr | Download_failed pystr

record wget_conf = ext +
  wc_limit :: int
  wc_dir :: pystr
  wc_temp :: pystr
  wc_stamp :: pystr
  wc_allowed :: "pystr \<Rightarrow> bool"
  wc_unquote :: "pystr \<Rightarrow> pystr"
  wc_done_class :: bool                       \<comment> \<open>whether \<^verbatim>\<open>twisted.internet.error\<close> has the name \<^verbatim>\<open>ConnectingDone\<close>\<close>
  wc_sizeof :: "int \<Rightarrow> pystr"                    \<comment> \<open>the number and its unit, below 1024 to the power of 5\<close>
  wc_percent :: "int \<Rightarrow> int \<Rightarrow> int"           \<comment> \<open>\<^verbatim>\<open>int(current / total * 100)\<close>\<close>
  wc_bar :: "int \<Rightarrow> int"                         \<comment> \<open>\<^verbatim>\<open>int(39.0 / 100.0 * percent)\<close>\<close>
  wc_thousands :: "int \<Rightarrow> pystr"                 \<comment> \<open>\<^verbatim>\<open>current / 1000\<close> to no decimals\<close>
  wc_speed :: "nat \<Rightarrow> int \<times> rat \<Rightarrow> pystr"       \<comment> \<open>bytes by seconds, over 1000, to that many decimals\<close>
  wc_eta :: "int \<Rightarrow> int \<times> rat \<Rightarrow> int"          \<comment> \<open>seconds for the bytes left\<close>

record wget =
  wg_shell :: shell
  wg_limiter :: limiter
  wg_disk :: disk
  wg_artifact :: artifact
  wg_sha :: "pystr \<times> pystr"            \<comment> \<open>\<^verbatim>\<open>shasum\<close> and \<^verbatim>\<open>shasumFilename\<close>, empty before the artifact is stored\<close>
  wg_outfile :: "pystr option"
  wg_quiet :: bool
  wg_url :: pystr
  wg_host :: pystr
  wg_current :: int
  wg_total :: int
  wg_started :: rat
  wg_speed :: "int \<times> rat"              \<comment> \<open>the bytes and the seconds it is computed from\<close>
  wg_proglen :: nat
  wg_contacts :: "(rat \<times> pystr \<times> contact) list"   \<comment> \<open>when, the host, what was asked of it\<close>
  wg_log :: "wget_event list"

type_synonym 'a wop = "(wget_error, wget, 'a) eff_of"

definition on_shell :: "'a cmd \<Rightarrow> 'a wop" where
  "on_shell m w =
     (case m (wg_shell w) of
        (Inl e, s) \<Rightarrow> (Inl (Wg_fs e), w\<lparr>wg_shell := s\<rparr>)
      | (Inr x, s) \<Rightarrow> (Inr x, w\<lparr>wg_shell := s\<rparr>))"

definition wget_err :: "pystr \<Rightarrow> unit wop" where
  "wget_err t = on_shell (emit (Err_text t))"

definition wget_exit :: "unit wop" where
  "wget_exit = on_shell cmd_exit"

definition verbosely :: "unit wop \<Rightarrow> unit wop" where
  "verbosely m w = (if wg_quiet w then (Inr (), w) else m w)"

definition print_usage_error :: "pystr \<Rightarrow> unit wop" where
  "print_usage_error msg =
     ebind (if msg \<noteq> [] then wget_err (u ''wget: '' @ msg @ [10]) else eret ()) (\<lambda>_.
     ebind (wget_err (u ''Usage: wget [OPTION]... [URL]...'' @ [10, 10])) (\<lambda>_.
       wget_err (u ''Try `wget --help'' @ [39] @ u '' for more options.'' @ [10])))"

section \<open>Arguments and the URL\<close>

definition WGET_LONG :: "pystr list" where
  "WGET_LONG = [u ''help'', u ''quiet'', u ''header='', u ''max-redirect='', u ''post-data'', u ''timeout='', u ''tries='']"

definition option_outfile :: "opts \<Rightarrow> pystr option" where
  "option_outfile os = fold (\<lambda>o' acc. if fst o' = u ''-O'' then Some (snd o') else acc) os None"

text \<open>\<^verbatim>\<open>args[args.index("-O") + 1]\<close>; an exception leaves things as they are.\<close>

definition operand_outfile :: "pystr list \<Rightarrow> pystr option" where
  "operand_outfile args = (case dropWhile (\<lambda>a. a \<noteq> u ''-O'') args of _ # x # _ \<Rightarrow> Some x | _ \<Rightarrow> None)"

definition wget_outfile :: "opts \<Rightarrow> pystr list \<Rightarrow> pystr option" where
  "wget_outfile os args =
     (case option_outfile os of
        Some (c # cs) \<Rightarrow> Some (c # cs)
      | r \<Rightarrow> (case operand_outfile args of Some x \<Rightarrow> Some x | None \<Rightarrow> r))"

definition has_infix :: "pystr \<Rightarrow> pystr \<Rightarrow> bool" where
  "has_infix p s \<longleftrightarrow> find_sub p s \<noteq> None"

definition wget_full_url :: "pystr \<Rightarrow> pystr" where
  "wget_full_url url = (if has_infix (u ''://'') url then url else u ''http://'' @ url)"

text \<open>\<^verbatim>\<open>urlparse\<close> splits the parameters off the last segment of the path for the schemes that have them.\<close>

definition USES_PARAMS :: "pystr list" where
  "USES_PARAMS = [[], u ''ftp'', u ''hdl'', u ''prospero'', u ''http'', u ''imap'', u ''https'', u ''shttp'', u ''rtsp'', u ''rtsps'',
     u ''rtspu'', u ''sip'', u ''sips'', u ''mms'', u ''sftp'', u ''tel'']"

definition split_params :: "split_result \<Rightarrow> pystr \<times> pystr" where
  "split_params r =
     (let path = sr_path r; (front, seg) = rsplit1 47 path in
      if sr_scheme r \<in> set USES_PARAMS \<and> 59 \<in> set path then
        (case split1 59 seg of
           (a, Some b) \<Rightarrow> ((case front of None \<Rightarrow> a | Some f \<Rightarrow> f @ [47] @ a), b)
         | (_, None) \<Rightarrow> (path, []))
      else (path, []))"

record target =
  tg_scheme :: pystr
  tg_host :: pystr
  tg_port :: int
  tg_path :: pystr
  tg_params :: pystr
  tg_split :: split_result

datatype url_outcome = No_host | Target target

definition wget_target :: "('x) ext_scheme \<Rightarrow> pystr \<Rightarrow> wget_error + url_outcome" where
  "wget_target E url =
     (case urlsplit E url of
        Inl _ \<Rightarrow> Inl Wg_value
      | Inr r \<Rightarrow>
          (let scheme = (if sr_scheme r = [] then u ''http'' else py_lower E (sr_scheme r)); (path, params) = split_params r in
           case sr_hostname E r of
             None \<Rightarrow> Inr No_host
           | Some host \<Rightarrow>
               (case sr_port r of
                  Inl _ \<Rightarrow> Inl Wg_value
                | Inr p \<Rightarrow>
                    Inr (Target \<lparr>tg_scheme = scheme, tg_host = host,
                       tg_port = (case p of Some n \<Rightarrow> n | None \<Rightarrow> if scheme = u ''https'' then 443 else if scheme = u ''ftp'' then 21 else 80),
                       tg_path = path, tg_params = params, tg_split = r\<rparr>))))"

section \<open>start\<close>

definition last_segment :: "pystr \<Rightarrow> pystr" where
  "last_segment path = last (split_on 47 path)"

definition no_directory :: "pystr \<Rightarrow> pystr option wop" where
  "no_directory out =
     ebind (wget_err (u ''wget: '' @ out @ u '': Cannot open: No such file or directory'' @ [10])) (\<lambda>_.
     ebind wget_exit (\<lambda>_. eret None))"

text \<open>Where the file is saved in the honeypot; None when the directory is not there, which has been reported.\<close>

definition choose_outfile :: "pystr option \<Rightarrow> pystr \<Rightarrow> pystr option wop" where
  "choose_outfile given path =
     (case given of
        None \<Rightarrow>
          (let name = last_segment path; name' = (if py_strip name = [] \<or> 47 \<notin> set path then u ''index.html'' else name) in
           ebind (on_shell (resolv name')) (\<lambda>out. eret (Some out)))
      | Some f \<Rightarrow>
          if f = u ''-'' then eret (Some f)
          else ebind (on_shell (resolv f)) (\<lambda>out.
               if dirname out = [] then no_directory out
               else ebind (on_shell (ask (exists (dirname out)))) (\<lambda>there.
                    ebind (on_shell (ask (\<lambda>vf. Inr (isdir (dirname out) vf)))) (\<lambda>dir.
                      if \<not> there \<or> \<not> dir then no_directory out else eret (Some out)))))"

definition dec_int :: "int \<Rightarrow> pystr" where
  "dec_int n = dec_digits (nat n)"

definition rate_limited :: "target \<Rightarrow> unit wop" where
  "rate_limited t =
     ebind (wget_err (u ''Connecting to '' @ tg_host t @ u '':'' @ dec_int (tg_port t) @ u ''... '')) (\<lambda>_.
     ebind (wget_err (u ''failed: Connection timed out.'' @ [10])) (\<lambda>_.
     ebind (wget_err (u ''Retrying.'' @ [10, 10])) (\<lambda>_. wget_exit)))"

definition cannot_resolve :: "pystr \<Rightarrow> unit wop" where
  "cannot_resolve host = wget_err (u ''wget: unable to resolve host address '' @ [8216] @ host @ [8217, 10])"

definition wget_refused :: "wget_conf \<Rightarrow> pystr \<Rightarrow> target \<Rightarrow> unit wop" where
  "wget_refused C url t =
     ebind (verbosely (ebind (wget_err (u ''--'' @ wc_stamp C @ u ''--  '' @ url @ [10])) (\<lambda>_.
                      wget_err (u ''Resolving '' @ tg_host t @ u '' ('' @ tg_host t @ u '')... failed: Temporary failure in name resolution.'' @ [10])))) (\<lambda>_.
     ebind (cannot_resolve (tg_host t)) (\<lambda>_. wget_exit))"

definition contacted :: "rat \<Rightarrow> pystr \<Rightarrow> contact \<Rightarrow> unit wop" where
  "contacted now host c w = (Inr (), w\<lparr>wg_contacts := wg_contacts w @ [(now, host, c)]\<rparr>)"

definition url_credential :: "wget_conf \<Rightarrow> pystr option \<Rightarrow> string \<Rightarrow> pystr" where
  "url_credential C x d = (case x of None \<Rightarrow> u d | Some [] \<Rightarrow> u d | Some v \<Rightarrow> wc_unquote C v)"

definition userinfo :: "split_result \<Rightarrow> pystr option \<times> pystr option" where
  "userinfo r =
     (case fst (rsplit1 64 (sr_netloc r)) of
        None \<Rightarrow> (None, None)
      | Some ui \<Rightarrow> (case split1 58 ui of (name, pw) \<Rightarrow> (Some name, pw)))"

definition ftpDownload :: "wget_conf \<Rightarrow> rat \<Rightarrow> target \<Rightarrow> unit wop" where
  "ftpDownload C now t =
     (let (name, pw) = userinfo (tg_split t);
          remote = wc_unquote C (if tg_params t = [] then tg_path t else tg_path t @ u '';'' @ tg_params t) in
      if remote = [] \<or> endswith remote (u ''/'')
      then ebind (wget_err (u ''wget: unsupported directory target in FTP URL'' @ [10])) (\<lambda>_. wget_exit)
      else contacted now (tg_host t) (Ftp_connect (tg_host t) (tg_port t) (url_credential C name ''anonymous'') (url_credential C pw ''busybox@'')
             (dirname remote) (basename remote)))"

definition connecting :: "wget_conf \<Rightarrow> pystr \<Rightarrow> target \<Rightarrow> unit wop" where
  "connecting C url t =
     verbosely (ebind (wget_err (u ''--'' @ wc_stamp C @ u ''--  '' @ url @ [10])) (\<lambda>_.
           ebind (wget_err (u ''Connecting to '' @ tg_host t @ u '':'' @ dec_int (tg_port t) @ u ''... connected.'' @ [10])) (\<lambda>_.
             wget_err ((if tg_scheme t \<in> {u ''http'', u ''https''} then u ''HTTP'' else py_upper C (tg_scheme t)) @
               u '' request sent, awaiting response... ''))))"

definition wget_fetch :: "wget_conf \<Rightarrow> rat \<Rightarrow> pystr \<Rightarrow> pystr option \<Rightarrow> target \<Rightarrow> unit wop" where
  "wget_fetch C now url given t =
     ebind (\<lambda>w. (Inr (), w\<lparr>wg_url := url\<rparr>)) (\<lambda>_.
     ebind (choose_outfile given (tg_path t)) (\<lambda>out.
       case out of
         None \<Rightarrow> eret ()
       | Some f \<Rightarrow>
           ebind (\<lambda>w. case artifact_new (wc_temp C) (wg_disk w) of (a, d) \<Rightarrow>
                        (Inr (), w\<lparr>wg_outfile := Some f, wg_artifact := a, wg_disk := d, wg_sha := ([], [])\<rparr>)) (\<lambda>_.
           ebind (connecting C url t) (\<lambda>_.
             if tg_scheme t = u ''ftp'' then ftpDownload C now t else contacted now (tg_host t) (Http_get url)))))"

definition wget_guarded :: "wget_conf \<Rightarrow> rat \<Rightarrow> pystr \<Rightarrow> pystr option \<Rightarrow> target \<Rightarrow> unit wop" where
  "wget_guarded C now url given t w =
     (case check now (tg_host t) (wg_limiter w) of (ok, rl) \<Rightarrow>
        let w' = w\<lparr>wg_limiter := rl, wg_host := tg_host t\<rparr> in
        if \<not> ok then rate_limited t w'
        else if \<not> wc_allowed C (tg_host t) then wget_refused C url t w'
        else wget_fetch C now url given t w')"

definition wget_start :: "wget_conf \<Rightarrow> rat \<Rightarrow> pystr list \<Rightarrow> unit wop" where
  "wget_start C now args =
     (case getopt args (u ''hcqO:TP:'') WGET_LONG of
        Inl opt \<Rightarrow> ebind (print_usage_error (u ''invalid option -- '' @ [39] @ opt @ [39])) (\<lambda>_. wget_exit)
      | Inr (os, rest) \<Rightarrow>
          if list_ex (\<lambda>o'. fst o' \<in> {u ''-h'', u ''--help''}) os
          then ebind (on_shell (usage ''wget --help'')) (\<lambda>_. wget_exit)
          else (case rest of
                  [] \<Rightarrow> ebind (print_usage_error (u ''missing URL'')) (\<lambda>_. wget_exit)
                | a # _ \<Rightarrow>
                    (let url = wget_full_url (py_strip a) in
                     ebind (\<lambda>w. (Inr (), w\<lparr>wg_quiet := list_ex (\<lambda>o'. fst o' \<in> {u ''-q'', u ''--quiet''}) os\<rparr>)) (\<lambda>_.
                     ebind (elift (wget_target C url)) (\<lambda>r.
                       case r of
                         No_host \<Rightarrow> ebind (print_usage_error (u ''invalid URL'')) (\<lambda>_. wget_exit)
                       | Target t \<Rightarrow> wget_guarded C now url (wget_outfile os rest) t)))))"

section \<open>The transfer\<close>

datatype failure = Dns_lookup | Cancelled | Ftp_failed pystr | Connecting_cancelled | Connecting_done | Unhandled

definition shown_name :: "string \<Rightarrow> wget \<Rightarrow> pystr" where
  "shown_name d w = (case wg_outfile w of None \<Rightarrow> u d | Some f \<Rightarrow> if f = u ''-'' then u d else f)"

text \<open>\<^verbatim>\<open>sizeof_fmt\<close> raises for what the largest unit cannot express.\<close>

definition length_line :: "wget_conf \<Rightarrow> int option \<Rightarrow> pystr \<Rightarrow> unit wop" where
  "length_line C n ctype =
     (case n of
        None \<Rightarrow> wget_err (u ''Length: unspecified ['' @ ctype @ u '']'' @ [10])
      | Some k \<Rightarrow>
          if 1024 ^ 5 \<le> k then eraise Wg_value
          else wget_err (u ''Length: '' @ dec_int k @ u '' ('' @ wc_sizeof C k @ u '') ['' @ ctype @ u '']'' @ [10]))"

definition begin_download :: "wget_conf \<Rightarrow> rat \<Rightarrow> int option \<Rightarrow> pystr \<Rightarrow> pystr \<Rightarrow> bool wop" where
  "begin_download C now n ctype status =
     ebind (\<lambda>w. (Inr (), w\<lparr>wg_total := (case n of None \<Rightarrow> 0 | Some k \<Rightarrow> k)\<rparr>)) (\<lambda>_ w.
       if n \<noteq> None \<and> 0 < wc_limit C \<and> wc_limit C < wg_total w then ebind wget_exit (\<lambda>_. eret False) w
       else ebind (\<lambda>w. (Inr (), w\<lparr>wg_current := 0, wg_proglen := 0, wg_speed := (0, 1), wg_started := now\<rparr>)) (\<lambda>_ w.
              if wg_quiet w then (Inr True, w)
              else ebind (wget_err (status @ [10])) (\<lambda>_.
                   ebind (length_line C n ctype) (\<lambda>_.
                   ebind (\<lambda>w. wget_err (u ''Saving to: `'' @ shown_name ''STDOUT'' w @ [39, 10, 10]) w) (\<lambda>_.
                     eret True))) w) w)"

definition artifact_step :: "(artifact \<times> disk, 'a) eff \<Rightarrow> 'a wop" where
  "artifact_step m w =
     (case m (wg_artifact w, wg_disk w) of
        (Inl e, (a, d)) \<Rightarrow> (Inl (if e = OSError then Wg_os else Wg_value), w\<lparr>wg_artifact := a, wg_disk := d\<rparr>)
      | (Inr x, (a, d)) \<Rightarrow> (Inr x, w\<lparr>wg_artifact := a, wg_disk := d\<rparr>))"

definition ljust :: "nat \<Rightarrow> pystr \<Rightarrow> pystr" where
  "ljust n s = s @ replicate (n - length s) 32"

definition rjust :: "nat \<Rightarrow> pystr \<Rightarrow> pystr" where
  "rjust n s = replicate (n - length s) 32 @ s"

text \<open>The first argument is the digits; the recursion takes three off the end.\<close>

function splitthousands :: "pystr \<Rightarrow> pystr" where
  "splitthousands s =
     (if length s \<le> 3 then s
      else splitthousands (take (length s - 3) s) @ u '','' @ drop (length s - 3) s)"
  by auto
termination
  by (relation "measure length") auto

declare splitthousands.simps [simp del]

definition signed_dec :: "int \<Rightarrow> pystr" where
  "signed_dec n = (if n < 0 then 45 # dec_digits (nat (- n)) else dec_digits (nat n))"

definition tdiff :: "int \<Rightarrow> pystr" where
  "tdiff s =
     (let days = s div 86400; hours = s mod 86400 div 3600; minutes = s mod 86400 mod 3600 div 60 in
      py_join (u '' '')
        ((if 1 \<le> days then [signed_dec days @ u ''d''] else []) @ (if 1 \<le> hours then [signed_dec hours @ u ''h''] else []) @
         (if 1 \<le> minutes then [signed_dec minutes @ u ''m''] else []) @ [signed_dec (s mod 86400 mod 3600 mod 60) @ u ''s'']))"

definition progress_line :: "wget_conf \<Rightarrow> wget \<Rightarrow> pystr" where
  "progress_line C w =
     (let known = wg_total w \<noteq> 0; percent = (if known then wc_percent C (wg_current w) (wg_total w) else 0);
          shown = (if known then signed_dec percent @ u ''%'' else wc_thousands C (wg_current w) @ u ''K'');
          eta = (if known then wc_eta C (wg_total w - wg_current w) (wg_speed w) else 0) in
      [13] @ rjust 3 shown @ u '' ['' @ ljust 39 (replicate (nat (wc_bar C percent)) 61 @ u ''>'') @ u ''] '' @
      ljust 12 (splitthousands (dec_int (wg_current w))) @ u '' '' @ wc_speed C 1 (wg_speed w) @ u ''K/s  eta '' @ tdiff eta)"

definition show_progress :: "wget_conf \<Rightarrow> unit wop" where
  "show_progress C w =
     (let s = progress_line C w in
      ebind (verbosely (\<lambda>w. wget_err (ljust (wg_proglen w) s) w)) (\<lambda>_ w. (Inr (), w\<lparr>wg_proglen := length s\<rparr>)) w)"

definition wget_collect :: "wget_conf \<Rightarrow> rat \<Rightarrow> bytes \<Rightarrow> unit wop" where
  "wget_collect C now data =
     ebind (\<lambda>w. (Inr (), w\<lparr>wg_current := wg_current w + int (length data)\<rparr>)) (\<lambda>_ w.
       if 0 < wc_limit C \<and> wc_limit C < wg_current w then wget_exit w
       else ebind (artifact_step (artifact_write data)) (\<lambda>_ w.
              if now = wg_started w then (Inl Wg_zero_division, w)
              else ebind (\<lambda>w. (Inr (), w\<lparr>wg_speed := (wg_current w, now - wg_started w)\<rparr>)) (\<lambda>_ w.
                     if wg_total w \<noteq> 0 \<and> wg_current w = 0 then (Inl Wg_zero_division, w)
                     else ebind (show_progress C) (\<lambda>_ w.
                            if wg_outfile w = None \<or> wg_outfile w = Some [] then on_shell (emit (Out_bytes data)) w
                            else (Inr (), w)) w) w) w)"

text \<open>The virtual file, backed by the artifact; a file that is not there after all ends in a TypeError.\<close>

definition save_virtual :: "rat \<Rightarrow> pystr \<Rightarrow> unit wop" where
  "save_virtual now out =
     ebind (\<lambda>w. on_shell (on_fs (mkfile out (sh_uid (wg_shell w)) (sh_gid (wg_shell w)) (wg_current w) 33188 now)) w) (\<lambda>_ w.
       case file_at True out (sh_fs (wg_shell w)) of
         Inl e \<Rightarrow> (Inl (Wg_fs e), w)
       | Inr None \<Rightarrow> (Inl (Wg_fs FsTypeError), w)
       | Inr (Some f) \<Rightarrow>
           (Inr (), w\<lparr>wg_shell := (wg_shell w)\<lparr>sh_fs := update_realfile (wg_disk w) f (snd (wg_sha w)) (sh_fs (wg_shell w))\<rparr>\<rparr>))"

text \<open>Three writes, shown as one.\<close>

definition saved_line :: "wget_conf \<Rightarrow> wget \<Rightarrow> pystr" where
  "saved_line C w =
     [13] @ u ''100% ['' @ replicate 38 61 @ u ''>] '' @ ljust 12 (splitthousands (dec_int (wg_total w))) @ u '' '' @
     wc_speed C 1 (wg_speed w) @ u ''K/s'' @ [10, 10] @ wc_stamp C @ u '' ('' @ wc_speed C 2 (wg_speed w) @ u '' KB/s) - `'' @
     shown_name ''stdout'' w @ [39] @ u '' saved ['' @ dec_int (wg_current w) @ u ''/'' @ dec_int (wg_total w) @ u '']'' @ [10, 10]"

definition collectioncomplete :: "wget_conf \<Rightarrow> rat \<Rightarrow> unit wop" where
  "collectioncomplete C now =
     ebind (artifact_step (artifact_close C (wc_dir C) False)) (\<lambda>r.
     ebind (\<lambda>w. (Inr (), w\<lparr>wg_sha := (case r of None \<Rightarrow> wg_sha w | Some x \<Rightarrow> x), wg_total := wg_current w\<rparr>)) (\<lambda>_.
     ebind (verbosely (\<lambda>w. wget_err (saved_line C w) w)) (\<lambda>_.
     ebind (\<lambda>w. case wg_outfile w of Some (c # cs) \<Rightarrow> save_virtual now (c # cs) w | _ \<Rightarrow> (Inr (), w)) (\<lambda>_.
     ebind (\<lambda>w. (Inr (), w\<lparr>wg_log := wg_log w @ [Downloaded (wg_url w) (snd (wg_sha w)) (fst (wg_sha w))]\<rparr>)) (\<lambda>_.
       wget_exit)))))"

definition failure_text :: "wget_conf \<Rightarrow> failure \<Rightarrow> pystr \<Rightarrow> unit wop" where
  "failure_text C k host =
     (case k of
        Dns_lookup \<Rightarrow>
          ebind (wget_err (u ''Resolving no.such ('' @ host @ u '')... failed: Temporary failure in name resolution.'' @ [10])) (\<lambda>_. cannot_resolve host)
      | Cancelled \<Rightarrow> wget_err (u ''failed: Operation timed out.'' @ [10])
      | Ftp_failed details \<Rightarrow> wget_err (u ''wget: FTP error: '' @ details @ [10])
      | Connecting_cancelled \<Rightarrow> wget_err (u ''cancel failed: Operation timed out.'' @ [10])
      | Connecting_done \<Rightarrow> if wc_done_class C then wget_err (u ''No data received.'' @ [10]) else eraise Wg_attribute
      | Unhandled \<Rightarrow> if wc_done_class C then wget_err [10] else eraise Wg_attribute)"

definition download_error :: "wget_conf \<Rightarrow> failure \<Rightarrow> unit wop" where
  "download_error C k =
     ebind (\<lambda>w. (Inr (), w\<lparr>wg_log := wg_log w @ [Download_failed (wg_url w)]\<rparr>)) (\<lambda>_.
     ebind (\<lambda>w. failure_text C k (wg_host w) w) (\<lambda>_. wget_exit))"

text \<open>
  What Twisted calls: the error handler also gets what a callback raises; what the error handler
  raises itself ends there, and what becomes of the transfer when the collector raises is the
  library's to say, in the events that follow.  The user may interrupt at any time.
\<close>

datatype transfer = Response "int option" pystr pystr   \<comment> \<open>length, content type, status line\<close>
  | Body bytes | Body_end | Failed failure | Interrupted

definition wget_ctrl_c :: "unit wop" where
  "wget_ctrl_c = ebind (on_shell (emit (Out_text (u ''^C'' @ [10])))) (\<lambda>_. wget_exit)"

definition with_errback :: "wget_conf \<Rightarrow> 'a wop \<Rightarrow> wget \<Rightarrow> wget" where
  "with_errback C m w = (case m w of (Inr _, w') \<Rightarrow> w' | (Inl _, w') \<Rightarrow> snd (download_error C Unhandled w'))"

definition transfer_step :: "wget_conf \<Rightarrow> rat \<times> transfer \<Rightarrow> wget \<Rightarrow> wget" where
  "transfer_step C x w =
     (case x of (now, ev) \<Rightarrow>
        case ev of
          Response n ctype status \<Rightarrow> with_errback C (begin_download C now n ctype status) w
        | Body data \<Rightarrow> snd (wget_collect C now data w)
        | Body_end \<Rightarrow> with_errback C (collectioncomplete C now) w
        | Failed k \<Rightarrow> snd (download_error C k w)
        | Interrupted \<Rightarrow> snd (wget_ctrl_c w))"

section \<open>Whom it contacts\<close>

lemma ebind_update: "ebind (\<lambda>w. (Inr x, g w)) f w = f x (g w)"
  by (simp add: ebind_def)

lemma ebind_ok: "m s = (Inr x, q) \<Longrightarrow> ebind m f s = f x q"
  by (simp add: ebind_def)

definition calm :: "wget \<Rightarrow> wget \<Rightarrow> bool" where
  "calm w w' \<longleftrightarrow> wg_limiter w' = wg_limiter w \<and> wg_contacts w' = wg_contacts w"

interpretation cm: state_order calm
  by unfold_locales (auto simp: calm_def)

lemma calm_shell: "pres calm (on_shell m)"
  by (auto simp: pres_def on_shell_def calm_def split: prod.splits sum.splits)

lemma calm_update: "(\<And>w. calm w (f w)) \<Longrightarrow> pres calm (\<lambda>w. (Inr x, f w))"
  by (simp add: pres_def)

lemma calm_verbosely: "pres calm m \<Longrightarrow> pres calm (verbosely m)"
  by (simp add: pres_def verbosely_def cm.refl)

lemma calm_err: "pres calm (wget_err t)" "pres calm wget_exit"
  unfolding wget_err_def wget_exit_def by (rule calm_shell)+

lemma calm_ops:
  "pres calm (print_usage_error msg)" "pres calm (rate_limited t)" "pres calm (wget_refused C url t)"
  "pres calm (choose_outfile given path)" "pres calm (connecting C url t)"
proof -
  show "pres calm (print_usage_error msg)" "pres calm (rate_limited t)"
    unfolding print_usage_error_def rate_limited_def by (intro cm.pres_rules calm_err)+
  show "pres calm (wget_refused C url t)"
    unfolding wget_refused_def cannot_resolve_def by (intro cm.pres_rules calm_err calm_verbosely)
  have "pres calm (no_directory out)" for out
    unfolding no_directory_def by (intro cm.pres_rules calm_err)
  then show "pres calm (choose_outfile given path)"
    by (auto simp: choose_outfile_def Let_def intro!: cm.pres_rules calm_shell split: option.splits)
  show "pres calm (connecting C url t)"
    unfolding connecting_def by (intro cm.pres_rules calm_err calm_verbosely)
qed

text \<open>At most one contact, at the given time and to the given host.\<close>

definition one_contact :: "rat \<Rightarrow> pystr \<Rightarrow> wget \<Rightarrow> wget \<Rightarrow> bool" where
  "one_contact now host w w' \<longleftrightarrow> wg_limiter w' = wg_limiter w \<and>
     (wg_contacts w' = wg_contacts w \<or> (\<exists>c. wg_contacts w' = wg_contacts w @ [(now, host, c)]))"

lemma one_contact_after: "pres calm m \<Longrightarrow> (\<And>x. pres (one_contact now host) (f x)) \<Longrightarrow> pres (one_contact now host) (ebind m f)"
proof (rule presI)
  fix s r s'
  assume m: "pres calm m" and f: "\<And>x. pres (one_contact now host) (f x)" and e: "ebind m f s = (r, s')"
  obtain q t where q: "m s = (q, t)" by (cases "m s")
  have c: "calm s t" using presD [OF m q] .
  show "one_contact now host s s'"
  proof (cases q)
    case (Inl x)
    then show ?thesis using e q c by (auto simp: ebind_def one_contact_def calm_def)
  next
    case (Inr x)
    then have "f x t = (r, s')" using e q by (simp add: ebind_def)
    then show ?thesis using presD [OF f] c by (fastforce simp: one_contact_def calm_def)
  qed
qed

lemma one_contact_calm: "pres calm m \<Longrightarrow> pres (one_contact now host) m"
  by (auto simp: pres_def calm_def one_contact_def)

lemma fetch_contacts: "pres (one_contact now (tg_host t)) (wget_fetch C now url given t)"
proof -
  have c: "pres (one_contact now host) (contacted now host c)" for host c
    by (simp add: pres_def contacted_def one_contact_def)
  have ftp: "pres (one_contact now (tg_host t)) (ftpDownload C now t)"
    by (auto simp: ftpDownload_def Let_def split: prod.splits intro!: c one_contact_calm cm.pres_bind calm_err)
  have n: "pres (one_contact now (tg_host t)) (eret x)" for x :: unit by (rule one_contact_calm [OF cm.pres_pure(1)])
  have url: "pres calm (\<lambda>w. (Inr (), w\<lparr>wg_url := url\<rparr>))" by (rule calm_update) (simp add: calm_def)
  have art: "pres calm (\<lambda>w. case artifact_new (wc_temp C) (wg_disk w) of (a, d) \<Rightarrow>
      (Inr (), w\<lparr>wg_outfile := Some f, wg_artifact := a, wg_disk := d, wg_sha := ([], [])\<rparr>))" for f
    by (simp add: pres_def calm_def artifact_new_def)
  have "pres (one_contact now (tg_host t)) (if tg_scheme t = u ''ftp'' then ftpDownload C now t else contacted now (tg_host t) (Http_get url))"
    using ftp c by simp
  note last = one_contact_after [OF art one_contact_after [OF calm_ops(5) this]]
  show ?thesis
    unfolding wget_fetch_def
  proof (intro one_contact_after [OF url] one_contact_after [OF calm_ops(4)], goal_cases)
    case (1 _ out)
    then show ?case by (cases out) (simp_all only: option.case n last)
  qed
qed

definition wget_hosts :: "wget_conf \<Rightarrow> pystr list \<Rightarrow> pystr list" where
  "wget_hosts C args =
     (case getopt args (u ''hcqO:TP:'') WGET_LONG of
        Inr (_, a # _) \<Rightarrow> (case wget_target C (wget_full_url (py_strip a)) of Inr (Target t) \<Rightarrow> [tg_host t] | _ \<Rightarrow> [])
      | _ \<Rightarrow> [])"

lemma guarded_contacts:
  assumes "check now (tg_host t) (wg_limiter w) = (ok, rl)" "wget_guarded C now url given t w = (r, w')"
  shows "wg_limiter w' = rl \<and>
    (wg_contacts w' = wg_contacts w \<or> ok \<and> wc_allowed C (tg_host t) \<and> (\<exists>c. wg_contacts w' = wg_contacts w @ [(now, tg_host t, c)]))"
proof -
  let ?w = "w\<lparr>wg_limiter := rl, wg_host := tg_host t\<rparr>"
  consider "\<not> ok" "rate_limited t ?w = (r, w')" | "ok" "\<not> wc_allowed C (tg_host t)" "wget_refused C url t ?w = (r, w')"
    | "ok" "wc_allowed C (tg_host t)" "wget_fetch C now url given t ?w = (r, w')"
    using assms by (auto simp: wget_guarded_def Let_def split: if_splits)
  then show ?thesis
  proof cases
    case 1
    then show ?thesis using presD [OF calm_ops(2) 1(2)] by (simp add: calm_def)
  next
    case 2
    then show ?thesis using presD [OF calm_ops(3) 2(3)] by (simp add: calm_def)
  next
    case 3
    then show ?thesis using presD [OF fetch_contacts 3(3)] by (simp add: one_contact_def)
  qed
qed

lemma start_contacts:
  assumes "wget_start C now args w = (r, w')"
  shows "calm w w' \<or>
    (\<exists>host ok rl. host \<in> set (wget_hosts C args) \<and> check now host (wg_limiter w) = (ok, rl) \<and> wg_limiter w' = rl \<and>
       (wg_contacts w' = wg_contacts w \<or> ok \<and> wc_allowed C host \<and> (\<exists>c. wg_contacts w' = wg_contacts w @ [(now, host, c)])))"
proof (cases "getopt args (u ''hcqO:TP:'') WGET_LONG")
  case (Inl opt)
  then show ?thesis
    using presD [OF cm.pres_bind [OF calm_ops(1) calm_err(2)]] assms by (auto simp: wget_start_def)
next
  case (Inr x)
  obtain os rest where x: "x = (os, rest)" by (cases x)
  show ?thesis
  proof (cases "list_ex (\<lambda>o'. fst o' \<in> {u ''-h'', u ''--help''}) os \<or> rest = []")
    case True
    then have "wget_start C now args = ebind (on_shell (usage ''wget --help'')) (\<lambda>_. wget_exit) \<or>
        wget_start C now args = ebind (print_usage_error (u ''missing URL'')) (\<lambda>_. wget_exit)"
      using Inr x unfolding wget_start_def by (cases "list_ex (\<lambda>o'. fst o' \<in> {u ''-h'', u ''--help''}) os") simp_all
    then have "pres calm (wget_start C now args)" by (auto intro!: cm.pres_bind calm_shell calm_ops calm_err)
    then have "calm w w'" by (rule presD) (rule assms)
    then show ?thesis ..
  next
    case False
    then obtain a as where rest: "rest = a # as" by (cases rest) auto
    let ?url = "wget_full_url (py_strip a)" and ?w = "w\<lparr>wg_quiet := list_ex (\<lambda>o'. fst o' \<in> {u ''-q'', u ''--quiet''}) os\<rparr>"
    have q: "calm w ?w" by (simp add: calm_def)
    have run: "(ebind (elift (wget_target C ?url)) (\<lambda>r. case r of
         No_host \<Rightarrow> ebind (print_usage_error (u ''invalid URL'')) (\<lambda>_. wget_exit)
       | Target t \<Rightarrow> wget_guarded C now ?url (wget_outfile os rest) t)) ?w = (r, w')"
      using assms False unfolding wget_start_def Inr x rest by (simp add: Let_def ebind_update)
    show ?thesis
    proof (cases "wget_target C ?url")
      case (Inl e)
      then show ?thesis using run q by (simp add: ebind_def elift_def)
    next
      case i: (Inr o')
      show ?thesis
      proof (cases o')
        case No_host
        then have "calm ?w w'" using run i presD [OF cm.pres_bind [OF calm_ops(1) calm_err(2)]] by simp
        then show ?thesis using q cm.trans by blast
      next
        case (Target t)
        then have g: "wget_guarded C now ?url (wget_outfile os rest) t ?w = (r, w')" using run i by simp
        obtain ok rl where k: "check now (tg_host t) (wg_limiter ?w) = (ok, rl)" by fastforce
        have "tg_host t \<in> set (wget_hosts C args)" using Inr x rest i Target by (simp add: wget_hosts_def)
        then show ?thesis using guarded_contacts [OF k g] k by auto
      qed
    qed
  qed
qed

definition run_wgets :: "wget_conf \<Rightarrow> (rat \<times> pystr list) list \<Rightarrow> wget \<Rightarrow> wget" where
  "run_wgets C xs w = fold (\<lambda>x w. snd (wget_start C (fst x) (snd x) w)) xs w"

text \<open>What was contacted is among what the limiter granted.\<close>

definition contacts_inv :: "wget_conf \<Rightarrow> pystr set \<Rightarrow> rat \<Rightarrow> wget \<Rightarrow> bool" where
  "contacts_inv C K now w \<longleftrightarrow> (\<forall>x \<in> set (wg_contacts w). wc_allowed C (fst (snd x))) \<and>
     (\<exists>lg. limit_inv K now (wg_limiter w) lg \<and> subseq (map (\<lambda>x. (fst x, fst (snd x))) (wg_contacts w)) lg)"

lemma limit_inv_later: "limit_inv K now rl lg \<Longrightarrow> now \<le> now' \<Longrightarrow> limit_inv K now' rl lg"
  by (auto simp: limit_inv_def intro: recent_filter)

lemma start_inv:
  assumes "contacts_inv C K now0 w" "now0 \<le> now" "set (wget_hosts C args) \<subseteq> K" "finite K" "int (card K) \<le> rl_max_keys (wg_limiter w)"
    and w': "wget_start C now args w = (r, w')"
  shows "contacts_inv C K now w' \<and> rl_window (wg_limiter w') = rl_window (wg_limiter w) \<and>
    rl_max_requests (wg_limiter w') = rl_max_requests (wg_limiter w) \<and> rl_max_keys (wg_limiter w') = rl_max_keys (wg_limiter w)"
proof -
  obtain lg where lg: "limit_inv K now0 (wg_limiter w) lg" "subseq (map (\<lambda>x. (fst x, fst (snd x))) (wg_contacts w)) lg"
    and al: "\<forall>x \<in> set (wg_contacts w). wc_allowed C (fst (snd x))"
    using assms(1) by (auto simp: contacts_inv_def)
  from start_contacts [OF w'] show ?thesis
  proof
    assume "calm w w'"
    then show ?thesis using lg al limit_inv_later [OF lg(1) assms(2)] by (auto simp: calm_def contacts_inv_def)
  next
    assume "\<exists>host ok rl. host \<in> set (wget_hosts C args) \<and> check now host (wg_limiter w) = (ok, rl) \<and> wg_limiter w' = rl \<and>
       (wg_contacts w' = wg_contacts w \<or> ok \<and> wc_allowed C host \<and> (\<exists>c. wg_contacts w' = wg_contacts w @ [(now, host, c)]))"
    then obtain host ok where h: "host \<in> set (wget_hosts C args)" "check now host (wg_limiter w) = (ok, wg_limiter w')"
      and c: "wg_contacts w' = wg_contacts w \<or> ok \<and> wc_allowed C host \<and> (\<exists>c. wg_contacts w' = wg_contacts w @ [(now, host, c)])"
      by blast
    have k: "host \<in> K" using h(1) assms(3) by blast
    note i = check_inv [OF lg(1) assms(2) k assms(4,5) h(2)]
    let ?l = "if ok then lg @ [(now, host)] else lg"
    have "subseq (map (\<lambda>x. (fst x, fst (snd x))) (wg_contacts w')) ?l"
      using c lg(2) by (auto intro: list_emb_append_mono subseq_order.trans [OF lg(2)])
    moreover have "\<forall>x \<in> set (wg_contacts w'). wc_allowed C (fst (snd x))" using c al by auto
    ultimately show ?thesis using i by (auto simp: contacts_inv_def)
  qed
qed

lemma runs_inv:
  assumes "contacts_inv C K now w" "sorted (now # map fst xs)" "\<forall>x \<in> set xs. set (wget_hosts C (snd x)) \<subseteq> K" "finite K"
    "int (card K) \<le> rl_max_keys (wg_limiter w)"
  shows "\<exists>now'. contacts_inv C K now' (run_wgets C xs w) \<and> rl_window (wg_limiter (run_wgets C xs w)) = rl_window (wg_limiter w) \<and>
    rl_max_requests (wg_limiter (run_wgets C xs w)) = rl_max_requests (wg_limiter w)"
  using assms
proof (induction xs arbitrary: now w)
  case Nil
  then show ?case by (auto simp: run_wgets_def)
next
  case (Cons x xs)
  obtain r w' where w': "wget_start C (fst x) (snd x) w = (r, w')" by fastforce
  have s: "contacts_inv C K (fst x) w' \<and> rl_window (wg_limiter w') = rl_window (wg_limiter w) \<and>
    rl_max_requests (wg_limiter w') = rl_max_requests (wg_limiter w) \<and> rl_max_keys (wg_limiter w') = rl_max_keys (wg_limiter w)"
    by (rule start_inv [OF Cons.prems(1) _ _ Cons.prems(4,5) w']) (use Cons.prems(2,3) in simp_all)
  have "run_wgets C (x # xs) w = run_wgets C xs w'" by (simp add: run_wgets_def w')
  then show ?case using Cons.IH [of "fst x" w'] s Cons.prems(2-5) by simp
qed


section \<open>What a download leaves\<close>

definition same_session :: "shell \<Rightarrow> shell \<Rightarrow> bool" where
  "same_session s s' \<longleftrightarrow> s'\<lparr>sh_out := []\<rparr> = s\<lparr>sh_out := []\<rparr>"

lemma same_session_parts:
  "same_session s s' \<Longrightarrow> sh_fs s' = sh_fs s \<and> sh_uid s' = sh_uid s \<and> sh_gid s' = sh_gid s \<and> sh_running s' = sh_running s"
  by (cases s; cases s') (simp add: same_session_def)

text \<open>
  A transfer under way that began in the state \<open>w0\<close> at the time \<open>t0\<close>, with \<open>b\<close> received so far; \<open>d\<close> is the
  disk without the temporary file.
\<close>

definition fetching :: "wget_conf \<Rightarrow> disk \<Rightarrow> wget \<Rightarrow> rat \<Rightarrow> bytes \<Rightarrow> wget \<Rightarrow> bool" where
  "fetching C d w0 t0 b w \<longleftrightarrow>
     wg_artifact w = \<lparr>ar_temp = wc_temp C, ar_data = b, ar_closed = False\<rparr> \<and> wg_disk w = d(wc_temp C \<mapsto> b) \<and>
     wg_current w = int (length b) \<and> wg_started w = t0 \<and> same_session (wg_shell w0) (wg_shell w) \<and>
     wg_outfile w = wg_outfile w0 \<and> wg_url w = wg_url w0 \<and> wg_log w = wg_log w0"

lemma wget_err_out: "wget_err t w = (Inr (), w\<lparr>wg_shell := (wg_shell w)\<lparr>sh_out := sh_out (wg_shell w) @ [Err_text t]\<rparr>\<rparr>)"
  by (simp add: wget_err_def on_shell_def emit_def)

lemma fetching_out: "fetching C d w0 t0 b (w\<lparr>wg_shell := (wg_shell w)\<lparr>sh_out := x\<rparr>\<rparr>) = fetching C d w0 t0 b w"
  by (simp add: fetching_def same_session_def)

lemma fetching_shown:
  "fetching C d w0 t0 b (w\<lparr>wg_proglen := n\<rparr>) = fetching C d w0 t0 b w" "fetching C d w0 t0 b (w\<lparr>wg_speed := v\<rparr>) = fetching C d w0 t0 b w"
  "fetching C d w0 t0 b (w\<lparr>wg_total := k\<rparr>) = fetching C d w0 t0 b w"
  by (simp_all add: fetching_def)

lemma fetching_err: "fetching C d w0 t0 b w \<Longrightarrow> \<exists>w'. wget_err t w = (Inr (), w') \<and> fetching C d w0 t0 b w' \<and> wg_total w' = wg_total w"
  by (simp add: wget_err_out fetching_out)

definition acceptable :: "wget_conf \<Rightarrow> int option \<Rightarrow> bool" where
  "acceptable C n \<longleftrightarrow> (case n of None \<Rightarrow> True | Some k \<Rightarrow> (wc_limit C \<le> 0 \<or> k \<le> wc_limit C) \<and> k < 1024 ^ 5)"

lemma begin_fetching:
  assumes "acceptable C n" "wg_artifact w = \<lparr>ar_temp = wc_temp C, ar_data = [], ar_closed = False\<rparr>" "wg_disk w = d(wc_temp C \<mapsto> [])"
  shows "\<exists>w'. begin_download C t0 n ctype status w = (Inr True, w') \<and> fetching C d w t0 [] w'"
proof -
  let ?w = "w\<lparr>wg_total := (case n of None \<Rightarrow> 0 | Some k \<Rightarrow> k), wg_current := 0, wg_proglen := 0, wg_speed := (0, 1), wg_started := t0\<rparr>"
  have f: "fetching C d w t0 [] ?w" using assms(2,3) by (simp add: fetching_def same_session_def)
  have lim: "(n \<noteq> None \<and> 0 < wc_limit C \<and> wc_limit C < (case n of None \<Rightarrow> 0 | Some k \<Rightarrow> k)) = False"
    using assms(1) by (auto simp: acceptable_def)
  have tot: "wg_total (w\<lparr>wg_total := k\<rparr>) = k" for k by simp
  have run: "begin_download C t0 n ctype status w =
      (if wg_quiet ?w then (Inr True, ?w)
       else ebind (wget_err (status @ [10])) (\<lambda>_. ebind (length_line C n ctype) (\<lambda>_.
              ebind (\<lambda>w. wget_err (u ''Saving to: `'' @ shown_name ''STDOUT'' w @ [39, 10, 10]) w) (\<lambda>_. eret True))) ?w)"
    unfolding begin_download_def ebind_update tot lim if_False ..
  have small: "n = Some k \<Longrightarrow> \<not> 1024 ^ 5 \<le> k" for k using assms(1) by (simp add: acceptable_def)
  show ?thesis
  proof (cases "wg_quiet w")
    case True
    then show ?thesis using f run by simp
  next
    case False
    obtain w1 where w1: "wget_err (status @ [10]) ?w = (Inr (), w1)" "fetching C d w t0 [] w1" using fetching_err [OF f] by blast
    have "\<exists>w2. length_line C n ctype w1 = (Inr (), w2) \<and> fetching C d w t0 [] w2"
      using fetching_err [OF w1(2)] small by (auto simp: length_line_def split: option.splits)
    then obtain w2 where w2: "length_line C n ctype w1 = (Inr (), w2)" "fetching C d w t0 [] w2" by blast
    obtain w3 where w3: "wget_err (u ''Saving to: `'' @ shown_name ''STDOUT'' w2 @ [39, 10, 10]) w2 = (Inr (), w3)" "fetching C d w t0 [] w3"
      using fetching_err [OF w2(2)] by blast
    have "begin_download C t0 n ctype status w = (Inr True, w3)"
      using False w1(1) w2(1) w3(1) unfolding run by (simp add: ebind_def eret_def)
    then show ?thesis using w3(2) by blast
  qed
qed

lemma progress_fetching:
  assumes "fetching C d w0 t0 b w"
  shows "\<exists>w'. show_progress C w = (Inr (), w') \<and> fetching C d w0 t0 b w'"
proof -
  let ?s = "progress_line C w"
  have "\<exists>w1. verbosely (\<lambda>w. wget_err (ljust (wg_proglen w) ?s) w) w = (Inr (), w1) \<and> fetching C d w0 t0 b w1"
    using fetching_err [OF assms] assms by (cases "wg_quiet w") (auto simp: verbosely_def)
  then obtain w1 where "verbosely (\<lambda>w. wget_err (ljust (wg_proglen w) ?s) w) w = (Inr (), w1)" "fetching C d w0 t0 b w1" by blast
  then show ?thesis by (simp add: show_progress_def Let_def ebind_def fetching_shown)
qed

lemma collect_fetching:
  assumes f: "fetching C d w0 t0 b w" and t: "t \<noteq> t0" and c: "data \<noteq> []"
    and lim: "wc_limit C \<le> 0 \<or> int (length (b @ data)) \<le> wc_limit C" and out: "wg_outfile w0 = Some (x # xs)"
  shows "\<exists>w'. wget_collect C t data w = (Inr (), w') \<and> fetching C d w0 t0 (b @ data) w'"
proof -
  let ?w1 = "w\<lparr>wg_current := wg_current w + int (length data)\<rparr>"
  let ?w2 = "?w1\<lparr>wg_artifact := \<lparr>ar_temp = wc_temp C, ar_data = b @ data, ar_closed = False\<rparr>, wg_disk := d(wc_temp C \<mapsto> b @ data)\<rparr>"
  let ?w3 = "?w2\<lparr>wg_speed := (wg_current ?w2, t - wg_started ?w2)\<rparr>"
  have a: "artifact_step (artifact_write data) ?w1 = (Inr (), ?w2)"
    using f by (simp add: artifact_step_def artifact_write_def fetching_def)
  have f3: "fetching C d w0 t0 (b @ data) ?w3" using f by (simp add: fetching_def)
  have cur: "wg_current ?w1 = int (length (b @ data))" "0 < wg_current ?w3"
    using f c by (cases data; simp add: fetching_def)+
  obtain w4 where w4: "show_progress C ?w3 = (Inr (), w4)" "fetching C d w0 t0 (b @ data) w4" using progress_fetching [OF f3] by blast
  have st: "wg_started ?w2 = t0" and o4: "wg_outfile w4 = Some (x # xs)" using f w4(2) out by (simp_all add: fetching_def)
  have n1: "(0 < wc_limit C \<and> wc_limit C < wg_current ?w1) = False" using lim unfolding cur by auto
  have n2: "(t = wg_started ?w2) = False" using t unfolding st by simp
  have n3: "(wg_total ?w3 \<noteq> 0 \<and> wg_current ?w3 = 0) = False" using cur(2) by simp
  have n4: "(wg_outfile w4 = None \<or> wg_outfile w4 = Some []) = False" unfolding o4 by simp
  have "wget_collect C t data w = (Inr (), w4)"
    unfolding wget_collect_def ebind_update n1 if_False ebind_ok [of "artifact_step (artifact_write data)" ?w1, OF a] n2 n3
      ebind_ok [of "show_progress C" ?w3, OF w4(1)] n4 ..
  then show ?thesis using w4(2) by blast
qed

lemma chunks_fetching:
  assumes "fetching C d w0 t0 b w" "\<forall>x \<in> set cs. fst x \<noteq> t0 \<and> snd x \<noteq> []" "wg_outfile w0 = Some (y # ys)"
    and "wc_limit C \<le> 0 \<or> int (length (b @ concat (map snd cs))) \<le> wc_limit C"
  shows "fetching C d w0 t0 (b @ concat (map snd cs)) (fold (transfer_step C) (map (\<lambda>x. (fst x, Body (snd x))) cs) w)"
  using assms
proof (induction cs arbitrary: b w)
  case (Cons x cs)
  have "wc_limit C \<le> 0 \<or> int (length (b @ snd x)) \<le> wc_limit C" using Cons.prems(4) by auto
  then obtain w' where w': "wget_collect C (fst x) (snd x) w = (Inr (), w')" "fetching C d w0 t0 (b @ snd x) w'"
    using collect_fetching [OF Cons.prems(1) _ _ _ Cons.prems(3), of "fst x" "snd x"] Cons.prems(2) by auto
  have "fetching C d w0 t0 ((b @ snd x) @ concat (map snd cs)) (fold (transfer_step C) (map (\<lambda>x. (fst x, Body (snd x))) cs) w')"
    using Cons.IH [OF w'(2) _ Cons.prems(3)] Cons.prems(2,4) by simp
  moreover have "transfer_step C (fst x, Body (snd x)) w = w'" using w'(1) by (simp add: transfer_step_def)
  ultimately show ?case by simp
qed simp

lemma save_virtual_backed:
  assumes g: "good (vf_tree vf)" "0 < vf_depth vf" and ps: "list_all plain_piece ds" "plain_piece z"
    and m: "fst (mkfile (abs_path (ds @ [z])) (sh_uid (wg_shell w)) (sh_gid (wg_shell w)) (wg_current w) 33188 now vf) = Inr True"
    and w: "sh_fs (wg_shell w) = vf" "wg_current w < 25000000" "snd (wg_sha w) = rname" "rname \<noteq> []" "wg_disk w rname = Some b"
  shows "\<exists>vf'. save_virtual now (abs_path (ds @ [z])) w = (Inr (), w\<lparr>wg_shell := (wg_shell w)\<lparr>sh_fs := vf'\<rparr>\<rparr>) \<and>
    file_contents (read_disk (wg_disk w)) exe (abs_path (ds @ [z])) vf' = Inr b"
proof -
  let ?out = "abs_path (ds @ [z])" and ?ps = "ds @ [z]"
  let ?nd = "new_node z T_FILE (sh_uid (wg_shell w)) (sh_gid (wg_shell w)) (wg_current w) 33188 now"
  obtain vf1 where m1: "mkfile ?out (sh_uid (wg_shell w)) (sh_gid (wg_shell w)) (wg_current w) 33188 now vf = (Inr True, vf1)"
    using m by (metis prod.collapse)
  note c = mkfile_creates [OF g(1) ps m1]
  obtain l where l: "locate ?ps (vf_tree vf1) = Some (l, ?nd)"
    using c by (auto simp: lookup_locate)
  have g1: "good (vf_tree vf1)" "0 < vf_depth vf1" "list_all plain_piece ?ps"
    using c mkfile_result(1) [OF m1] g(2) ps by simp_all
  let ?f = "\<lambda>a. a\<lparr>a_realfile := Some rname\<rparr>"
  let ?vf = "with_attr ?f l vf1"
  have up: "update_realfile (wg_disk w) (l, ?nd) rname vf1 = ?vf"
    using w(2,5) by (simp add: update_realfile_def has_realfile_def new_node_def with_attr_def)
  have at: "file_at True ?out vf1 = Inr (Some (l, ?nd))"
    by (rule file_at_locate [OF g1 l])
  have run: "save_virtual now ?out w = (Inr (), w\<lparr>wg_shell := (wg_shell w)\<lparr>sh_fs := ?vf\<rparr>\<rparr>)"
    using m1 w(1,3) at up by (simp add: save_virtual_def ebind_def on_shell_def on_fs_def)
  have l2: "locate ?ps (vf_tree ?vf) = Some (l, FNode (?f (attr ?nd))
      (body ?nd))"
    by (rule with_attr_locate [OF l]) simp
  have g2: "good (vf_tree ?vf)" by (rule with_attr_good [OF g1(1)]) simp
  have "file_at True ?out ?vf = Inr (Some (l, FNode (?f (attr ?nd))
      (body ?nd)))"
    by (rule file_at_locate [OF g2 _ g1(3) l2]) (simp add: g1(2))
  then have "file_contents (read_disk (wg_disk w)) exe ?out ?vf = Inr b"
    using w(4,5) g1(3) by (auto simp: file_contents_def resolve_abs exists_def read_disk_def new_node_def split: list.split)
  then show ?thesis using run by blast
qed

text \<open>A directory of the honeypot where the file can be made, and a disk without the temporary file.\<close>

definition can_save :: "wget_conf \<Rightarrow> disk \<Rightarrow> pystr list \<Rightarrow> pystr \<Rightarrow> rat \<Rightarrow> bytes \<Rightarrow> wget \<Rightarrow> bool" where
  "can_save C d ds z now b w \<longleftrightarrow>
     (let s = wg_shell w; saved = path_join (wc_dir C) (h_sha256 C b) in
      wg_outfile w = Some (abs_path (ds @ [z])) \<and> good (vf_tree (sh_fs s)) \<and> 0 < vf_depth (sh_fs s) \<and> sh_running s \<and>
      list_all plain_piece ds \<and> plain_piece z \<and>
      fst (mkfile (abs_path (ds @ [z])) (sh_uid s) (sh_gid s) (int (length b)) 33188 now (sh_fs s)) = Inr True \<and>
      d (wc_temp C) = None \<and> saved \<notin> {[], wc_temp C} \<and> d saved \<in> {None, Some b} \<and> b \<noteq> [] \<and> length b < 25000000 \<and>
      (wc_limit C \<le> 0 \<or> int (length b) \<le> wc_limit C))"

definition download_kept :: "(fs_error + bytes) \<Rightarrow> wget_conf \<Rightarrow> disk \<Rightarrow> pystr \<Rightarrow> bytes \<Rightarrow> wget \<Rightarrow> wget \<Rightarrow> bool" where
  "download_kept exe C d out b w w' \<longleftrightarrow>
     (let sha = h_sha256 C b; saved = path_join (wc_dir C) sha in
      wg_disk w' = d(saved \<mapsto> b) \<and> wg_log w' = wg_log w @ [Downloaded (wg_url w) saved sha] \<and>
      file_contents (read_disk (wg_disk w')) exe out (sh_fs (wg_shell w')) = Inr b \<and> \<not> sh_running (wg_shell w'))"

lemma complete_kept:
  assumes f: "fetching C d w0 t0 b w" and c: "can_save C d ds z now b w0"
  shows "\<exists>w'. collectioncomplete C now w = (Inr (), w') \<and> download_kept exe C d (abs_path (ds @ [z])) b w0 w'"
proof -
  let ?out = "abs_path (ds @ [z])" and ?sha = "h_sha256 C b" let ?saved = "path_join (wc_dir C) ?sha"
  have h: "wg_outfile w0 = Some ?out" "good (vf_tree (sh_fs (wg_shell w0)))" "0 < vf_depth (sh_fs (wg_shell w0))" "sh_running (wg_shell w0)"
    "list_all plain_piece ds" "plain_piece z" "d (wc_temp C) = None" "?saved \<noteq> wc_temp C" "?saved \<noteq> []"
    "d ?saved \<in> {None, Some b}" "b \<noteq> []" "length b < 25000000"
    and mk: "fst (mkfile ?out (sh_uid (wg_shell w0)) (sh_gid (wg_shell w0)) (int (length b)) 33188 now (sh_fs (wg_shell w0))) = Inr True"
    using c by (simp_all add: can_save_def Let_def)
  let ?d = "d(?saved \<mapsto> b)"
  let ?w1 = "w\<lparr>wg_artifact := \<lparr>ar_temp = wc_temp C, ar_data = b, ar_closed = True\<rparr>, wg_disk := ?d\<rparr>"
  let ?w2 = "?w1\<lparr>wg_sha := (?sha, ?saved), wg_total := wg_current ?w1\<rparr>"
  have "(if d ?saved \<noteq> None then d else ?d) = ?d" using h(10) by (auto simp: fun_upd_idem)
  then have s1: "artifact_step (artifact_close C (wc_dir C) False) w = (Inr (Some (?sha, ?saved)), ?w1)"
    using f artifact_close_new [of b "wc_dir C" C "wc_temp C" d False, OF h(11,8,7)] by (simp add: artifact_step_def fetching_def)
  have "\<exists>x. verbosely (\<lambda>w. wget_err (saved_line C w) w) ?w2 = (Inr (), ?w2\<lparr>wg_shell := (wg_shell w)\<lparr>sh_out := x\<rparr>\<rparr>)"
    by (cases "wg_quiet w") (auto simp: verbosely_def wget_err_out intro: exI [of _ "sh_out (wg_shell w)"])
  then obtain x where s3: "verbosely (\<lambda>w. wget_err (saved_line C w) w) ?w2 = (Inr (), ?w2\<lparr>wg_shell := (wg_shell w)\<lparr>sh_out := x\<rparr>\<rparr>)" ..
  let ?w3 = "?w2\<lparr>wg_shell := (wg_shell w)\<lparr>sh_out := x\<rparr>\<rparr>"
  have ss: "sh_fs (wg_shell w) = sh_fs (wg_shell w0)" "sh_uid (wg_shell w) = sh_uid (wg_shell w0)" "sh_gid (wg_shell w) = sh_gid (wg_shell w0)"
    "sh_running (wg_shell w) = sh_running (wg_shell w0)" and cur: "wg_current w = int (length b)"
    and keep: "wg_outfile w = Some ?out" "wg_url w = wg_url w0" "wg_log w = wg_log w0"
    using f same_session_parts h(1) by (auto simp: fetching_def)
  obtain vf where s4: "save_virtual now ?out ?w3 = (Inr (), ?w3\<lparr>wg_shell := (wg_shell ?w3)\<lparr>sh_fs := vf\<rparr>\<rparr>)"
    and r: "file_contents (read_disk (wg_disk ?w3)) exe ?out vf = Inr b"
    using save_virtual_backed [OF h(2,3,5,6), of ?w3 now ?saved b exe] mk h(9,12) ss cur by auto
  obtain y ys where out: "?out = y # ys" by (simp add: abs_path_def)
  let ?w4 = "?w3\<lparr>wg_shell := (wg_shell ?w3)\<lparr>sh_fs := vf\<rparr>, wg_log := wg_log w @ [Downloaded (wg_url w) ?saved ?sha]\<rparr>"
  have "collectioncomplete C now w = (Inr (), ?w4\<lparr>wg_shell := (wg_shell ?w4)\<lparr>sh_running := False\<rparr>\<rparr>)"
    unfolding collectioncomplete_def ebind_ok [of "artifact_step (artifact_close C (wc_dir C) False)" w, OF s1] ebind_update option.case
      ebind_ok [of "verbosely (\<lambda>w. wget_err (saved_line C w) w)" ?w2, OF s3]
    using s4 keep out h(4) ss(4) by (simp add: ebind_def wget_exit_def on_shell_def cmd_exit_def)
  then show ?thesis using r keep by (simp add: download_kept_def Let_def)
qed


section \<open>What it does not do\<close>

text \<open>A piece that arrives at the very time the transfer began, on a coarse clock, is a division by zero.\<close>

lemma immediate_piece_raises:
  assumes "fetching C d w0 now b w" "wc_limit C \<le> 0"
  shows "fst (wget_collect C now data w) = Inl Wg_zero_division"
  using assms by (simp add: wget_collect_def ebind_def artifact_step_def artifact_write_def fetching_def)

text \<open>
  The error handler looks for a class that the library does not document: without it, a failure that
  the handler does not know, a refused connection among them, raises there and the command never ends.
\<close>

lemma unknown_failure_hangs:
  assumes "\<not> wc_done_class C"
  shows "fst (download_error C Unhandled w) = Inl Wg_attribute \<and>
    wg_shell (snd (download_error C Unhandled w)) = wg_shell w"
  using assms by (simp add: download_error_def failure_text_def ebind_def eraise_def)

text \<open>With \<^verbatim>\<open>-O -\<close> the bytes are not written to the standard output: a command that reads them from a pipe gets none.\<close>

lemma dash_writes_nothing:
  assumes "wg_outfile w = Some (c # cs)"
  shows "\<exists>ms. sh_out (wg_shell (snd (wget_collect C now data w))) = sh_out (wg_shell w) @ map Err_text ms"
proof -
  have e: "\<exists>ms. sh_out (wg_shell (snd (wget_exit w))) = sh_out (wg_shell w) @ map Err_text ms" for w
    by (auto simp: wget_exit_def on_shell_def cmd_exit_def intro: exI [of _ "[]"])
  have p: "\<exists>w' ms. show_progress C w = (Inr (), w') \<and> sh_out (wg_shell w') = sh_out (wg_shell w) @ map Err_text ms \<and> wg_outfile w' = wg_outfile w" for w
    by (cases "wg_quiet w") (auto simp: show_progress_def Let_def verbosely_def ebind_def wget_err_out intro: exI [of _ "[]"]
        exI [of _ "[ljust (wg_proglen w) (progress_line C w)]"])
  let ?w1 = "w\<lparr>wg_current := wg_current w + int (length data)\<rparr>"
  obtain r w2 where a: "artifact_step (artifact_write data) ?w1 = (r, w2)" by fastforce
  have w2: "wg_shell w2 = wg_shell w" "wg_outfile w2 = wg_outfile w"
    using a by (auto simp: artifact_step_def split: prod.splits sum.splits)
  obtain w3 ms where w3: "show_progress C (w2\<lparr>wg_speed := (wg_current w2, now - wg_started w2)\<rparr>) = (Inr (), w3)"
    "sh_out (wg_shell w3) = sh_out (wg_shell w) @ map Err_text ms" "wg_outfile w3 = wg_outfile w"
    using p [of "w2\<lparr>wg_speed := (wg_current w2, now - wg_started w2)\<rparr>"] w2 by auto
  show ?thesis
  proof (cases "0 < wc_limit C \<and> wc_limit C < wg_current ?w1")
    case True
    then show ?thesis using e [of ?w1] by (simp add: wget_collect_def ebind_update)
  next
    case False
    have "wget_collect C now data w = (ebind (artifact_step (artifact_write data)) (\<lambda>_ w.
              if now = wg_started w then (Inl Wg_zero_division, w)
              else ebind (\<lambda>w. (Inr (), w\<lparr>wg_speed := (wg_current w, now - wg_started w)\<rparr>)) (\<lambda>_ w.
                     if wg_total w \<noteq> 0 \<and> wg_current w = 0 then (Inl Wg_zero_division, w)
                     else ebind (show_progress C) (\<lambda>_ w.
                            if wg_outfile w = None \<or> wg_outfile w = Some [] then on_shell (emit (Out_bytes data)) w
                            else (Inr (), w)) w) w)) ?w1"
      unfolding wget_collect_def ebind_update if_not_P [OF False] ..
    then show ?thesis
      using a w2 w3 assms by (cases r) (auto simp: ebind_def intro: exI [of _ "[]"])
  qed
qed

section \<open>Examples\<close>

definition demo_wget_conf :: wget_conf where
  "demo_wget_conf = ext.extend ascii_ext \<lparr>wc_limit = 4, wc_dir = u ''d'', wc_temp = u ''t'', wc_stamp = u ''now'',
     wc_allowed = (\<lambda>h. communication_allowed 1 (\<lambda>_. None) h = Some True), wc_unquote = (\<lambda>s. s), wc_done_class = False, wc_sizeof = dec_int,
     wc_percent = (\<lambda>c n. c * 100 div n), wc_bar = (\<lambda>p. p * 39 div 100), wc_thousands = (\<lambda>n. dec_int (n div 1000)),
     wc_speed = (\<lambda>_ _. u ''1.0''), wc_eta = (\<lambda>_ _. 0)\<rparr>"

definition demo_wget :: wget where
  "demo_wget = \<lparr>wg_shell = demo_shell, wg_limiter = limiter_init True 2 60 10 0, wg_disk = [u ''t'' \<mapsto> []],
     wg_artifact = \<lparr>ar_temp = u ''t'', ar_data = [], ar_closed = False\<rparr>, wg_sha = ([], []), wg_outfile = Some (u ''/d/y''),
     wg_quiet = False, wg_url = u ''http://8.8.8.8/y'', wg_host = u ''8.8.8.8'', wg_current = 0, wg_total = 0, wg_started = 0,
     wg_speed = (0, 1), wg_proglen = 0, wg_contacts = [], wg_log = []\<rparr>"



text \<open>
  A transfer that grows past the limit: the command ends, but what came before is stored and reported
  as the download, and because the command is ended again, as a failed download too.
\<close>

lemma oversized_prefix_reported:
  "wg_log (fold (transfer_step demo_wget_conf) [(1, Response None (u ''a/b'') (u ''200 OK'')), (2, Body [97, 98]), (3, Body [99, 100, 101]), (4, Body_end)]
     (demo_wget\<lparr>wg_shell := demo_shell\<lparr>sh_below := 1\<rparr>\<rparr>)) =
   [Downloaded (u ''http://8.8.8.8/y'') (path_join (u ''d'') (h_sha256 ascii_ext [97, 98])) (h_sha256 ascii_ext [97, 98]),
    Download_failed (u ''http://8.8.8.8/y'')]"
  by code_simp

end
